(* ===== verification/Tori_Prelude.thy ===== *)
theory Tori_Prelude
  imports Main "HOL-Library.Word"
begin

text \<open>
  Shared vocabulary of the development: the machine integer types of the kernel sources, the
  counted loops they are iterated with, and the generic facts on words, lists and folds that the
  component theories rely on.  The collections \<open>tori_word\<close> and \<open>tori_loop\<close> gather the facts on
  64-bit arithmetic and on loops.
\<close>

unbundle bit_operations_syntax

named_theorems tori_word \<open>facts on machine words\<close>
named_theorems tori_loop \<open>facts on counted loops\<close>

type_synonym u8 = "8 word"
type_synonym u16 = "16 word"
type_synonym u32 = "32 word"
type_synonym u64 = "64 word"

lemma unat_eq_iff [simp]: "unat (a :: 'a::len word) = unat b \<longleftrightarrow> a = b"
  by (simp add: word_unat_eq_iff)

lemma unat_u64_less: "unat (v :: u64) < 2 ^ 64"
  using unsigned_less [of v] by simp

section \<open>Counted loops\<close>

text \<open>
  The loop \<open>for (uint64_t i = a; i < b; ++i)\<close> visits \<open>u64_range a b\<close> in order.
\<close>

definition u64_range :: "u64 \<Rightarrow> u64 \<Rightarrow> u64 list" where
  "u64_range a b = map of_nat [unat a ..< unat b]"

lemma of_nat_unat_le: "n < unat (b :: 'a::len word) \<Longrightarrow> unat (of_nat n :: 'a word) = n"
  by (metis le_unat_uoi less_imp_le)

lemma set_u64_range [simp, tori_loop]: "set (u64_range a b) = {a ..< b}"
proof -
  have "x \<in> of_nat ` {unat a ..< unat b}" if "a \<le> x" "x < b" for x :: u64
    using that by (intro image_eqI [of _ _ "unat x"]) (auto simp: word_le_nat_alt word_less_nat_alt)
  then show ?thesis
    by (auto simp: u64_range_def word_le_nat_alt word_less_nat_alt of_nat_unat_le)
qed

lemma distinct_u64_range [simp, tori_loop]: "distinct (u64_range a b)"
proof -
  have "inj_on (of_nat :: nat \<Rightarrow> u64) {unat a ..< unat b}"
    by (rule inj_onI) (metis atLeastLessThan_iff of_nat_unat_le)
  then show ?thesis by (simp add: u64_range_def distinct_map)
qed

lemma u64_range_empty [simp, tori_loop]: "b \<le> a \<Longrightarrow> u64_range a b = []"
  by (simp add: u64_range_def word_le_nat_alt)

lemma length_u64_range [tori_loop]: "length (u64_range a b) = unat b - unat a"
  by (simp add: u64_range_def)

lemma map_plus_u64_range [tori_loop]:
  assumes "unat p + unat n < 2 ^ 64"
  shows "map ((+) p) (u64_range 0 n) = u64_range p (p + n)"
proof -
  have "unat (p + n) = unat n + unat p"
    using assms by (simp add: unat_word_ariths)
  then have "u64_range p (p + n) = map of_nat (map (\<lambda>i. i + unat p) [0 ..< unat n])"
    by (simp add: u64_range_def map_add_upt add.commute)
  also have "\<dots> = map ((+) p) (u64_range 0 n)"
    by (simp add: u64_range_def o_def add.commute)
  finally show ?thesis by simp
qed

text \<open>An invariant of the loop body is an invariant of the loop.\<close>

lemma fold_invariant:
  assumes "P s" and "\<And>x s. x \<in> set xs \<Longrightarrow> P s \<Longrightarrow> P (f x s)"
  shows "P (fold f xs s)"
  using assms by (induction xs arbitrary: s) auto

text \<open>
  A body that changes an observation \<open>g\<close> of the state at its own index only: what the loop leaves
  at index \<open>q\<close> is what the body leaves there when it is run on the untouched state.
\<close>

lemma fold_pointwise:
  assumes "distinct xs"
    and local: "\<And>x s q. x \<in> set xs \<Longrightarrow> q \<noteq> x \<Longrightarrow> g (f x s) q = g s q"
    and step: "\<And>x s t. x \<in> set xs \<Longrightarrow> g s x = g t x \<Longrightarrow> g (f x s) x = g (f x t) x"
  shows "g (fold f xs s) q = (if q \<in> set xs then g (f q s) q else g s q)"
  using assms
proof (induction xs arbitrary: s)
  case Nil
  then show ?case by simp
next
  case (Cons x xs)
  have IH: "g (fold f xs (f x s)) q = (if q \<in> set xs then g (f q (f x s)) q else g (f x s) q)"
  proof (rule Cons.IH)
    show "distinct xs" using Cons.prems(1) by simp
  qed (rule Cons.prems(2,3), rule list.set_intros(2), assumption+)+
  show ?case
  proof (cases "q = x")
    case True
    then show ?thesis using IH Cons.prems(1) by simp
  next
    case False
    then have "g (f x s) q = g s q" using Cons.prems(2) [of x q s] by simp
    then have "q \<in> set xs \<Longrightarrow> g (f q (f x s)) q = g (f q s) q"
      using Cons.prems(3) [of q "f x s" s] by simp
    with \<open>g (f x s) q = g s q\<close> show ?thesis by (simp add: IH False)
  qed
qed

section \<open>Words\<close>

text \<open>Single bits; the simplifier writes \<open>push_bit n 1\<close> as \<open>2 ^ n\<close>.\<close>

lemma and_exp_iff [tori_word]: "(w AND 2 ^ n \<noteq> 0) \<longleftrightarrow> bit (w :: 'a::len word) n"
  by (simp add: bit_iff_and_push_bit_not_eq_0)

lemma bit_or_exp [tori_word]:
  "bit (w OR 2 ^ n) m \<longleftrightarrow> bit (w :: 'a::len word) m \<or> (m = n \<and> n < LENGTH('a))"
  by (auto simp: bit_simps)

lemma bit_and_not_exp [tori_word]:
  "bit (w AND NOT (2 ^ n)) m \<longleftrightarrow> bit (w :: 'a::len word) m \<and> m \<noteq> n"
  by (auto simp: bit_simps dest: bit_imp_le_length)

lemma set_cleared_bit: "bit w n \<Longrightarrow> (w AND NOT (2 ^ n)) OR 2 ^ n = (w :: 'a::len word)"
  by (rule bit_eqI) (auto simp: bit_or_exp bit_and_not_exp)

lemma clear_clear_bit: "\<not> bit w n \<Longrightarrow> w AND NOT (2 ^ n) = (w :: 'a::len word)"
  by (rule bit_eqI) (auto simp: bit_and_not_exp)

lemma unat_minus_one_pos [tori_word]: "w \<noteq> 0 \<Longrightarrow> unat (w - 1 :: 'a::len word) = unat w - 1"
  by (rule unat_minus_one)

lemma unat_plus_one_bound [tori_word]:
  "unat (w :: 'a::len word) < 2 ^ LENGTH('a) - 1 \<Longrightarrow> unat (w + 1) = unat w + 1"
  by (subst unat_word_ariths) simp

lemma unat_plus_one_less [tori_word]: "a < b \<Longrightarrow> unat (a + 1 :: 'a::len word) = unat a + 1"
proof -
  assume "a < b"
  moreover have "unat b < 2 ^ LENGTH('a)" by (rule unsigned_less)
  ultimately have "unat a + 1 < 2 ^ LENGTH('a)" unfolding word_less_nat_alt by linarith
  then show ?thesis by (simp add: unat_word_ariths)
qed

lemma word_interval_one [tori_word]:
  assumes "a < (b :: 'a::len word)"
  shows "a \<le> q \<and> q < a + 1 \<longleftrightarrow> q = a"
proof -
  have "a \<le> q \<and> q < a + 1 \<longleftrightarrow> unat q = unat a"
    unfolding word_le_nat_alt word_less_nat_alt unat_plus_one_less [OF assms] by linarith
  then show ?thesis by simp
qed

lemma unat_add_no_wrap [tori_word]:
  "unat (a :: 'a::len word) + unat b < 2 ^ LENGTH('a) \<Longrightarrow> unat (a + b) = unat a + unat b"
  by (simp add: unat_word_ariths)

lemma unat_add_ge_self:
  assumes "a \<le> a + (b :: 'a::len word)"
  shows "unat (a + b) = unat a + unat b"
proof (rule unat_add_no_wrap, rule ccontr)
  assume wrap: "\<not> unat a + unat b < 2 ^ LENGTH('a)"
  have b: "unat b < 2 ^ LENGTH('a)" "unat a < 2 ^ LENGTH('a)" by (rule unsigned_less)+
  have "unat (a + b) = (unat a + unat b) mod 2 ^ LENGTH('a)" by (simp add: unat_word_ariths)
  also have "\<dots> = unat a + unat b - 2 ^ LENGTH('a)"
  proof -
    have "(unat a + unat b) mod 2 ^ LENGTH('a) = (unat a + unat b - 2 ^ LENGTH('a)) mod 2 ^ LENGTH('a)"
      by (rule le_mod_geq) (use wrap in linarith)
    then show ?thesis using b wrap by (metis add_less_mono less_diff_conv mod_less not_less nat_less_le trans_less_add1 less_diff_conv2)
  qed
  finally have "unat (a + b) < unat a" using wrap b by linarith
  with assms show False by (simp add: word_le_nat_alt)
qed

lemma card_word_lessThan [tori_word]: "card {..< w} = unat (w :: 'a::len word)"
proof -
  have "unat ` {..< w} = {..< unat w}"
  proof (intro set_eqI iffI)
    fix n assume "n \<in> {..< unat w}"
    then have "n = unat (of_nat n :: 'a word)" "(of_nat n :: 'a word) < w"
      by (simp_all add: of_nat_unat_le word_less_nat_alt)
    then show "n \<in> unat ` {..< w}" by blast
  qed (auto simp: word_less_nat_alt)
  moreover have "inj_on unat {..< w}" by (simp add: inj_on_def)
  ultimately show ?thesis using card_image by fastforce
qed

lemma div_mod_64_inj [tori_word]: "p div 64 = q div 64 \<Longrightarrow> p mod 64 = q mod 64 \<Longrightarrow> p = (q :: u64)"
  by (metis div_mult_mod_eq)

end
