(* ===== verification/Tori_Sync.thy ===== *)
theory Tori_Sync
  imports Tori_Prelude
begin

text \<open>
  The synchronisation primitives of \<open>kernel/include/tori/kernel/sync\<close>.  An atomic builtin is a
  function of the cell; a primitive that several threads run is a step relation whose steps are its
  atomic accesses, so that every interleaving is a path.  The memory model is sequential
  consistency.  Mutual exclusion of the three test-and-set locks is proved once, in the locale
  \<open>test_and_set\<close>, and for every lock by interpretation.
\<close>

section \<open>Atomic cells (atomic.hpp)\<close>

text \<open>Each operation returns the value the builtin returns and the new contents of the cell.\<close>

definition atomic_exchange :: "'a::len word \<Rightarrow> 'a word \<Rightarrow> 'a word \<times> 'a word" where
  "atomic_exchange v cell = (cell, v)"

text \<open>Success, the expected value after the call (the cell read, on failure), the cell.\<close>

definition compare_exchange ::
    "'a::len word \<Rightarrow> 'a word \<Rightarrow> 'a word \<Rightarrow> bool \<times> 'a word \<times> 'a word" where
  "compare_exchange expected desired cell =
     (if cell = expected then (True, expected, desired) else (False, cell, cell))"

definition fetch_add :: "'a::len word \<Rightarrow> 'a word \<Rightarrow> 'a word \<times> 'a word" where
  "fetch_add v cell = (cell, cell + v)"

definition fetch_sub :: "'a::len word \<Rightarrow> 'a word \<Rightarrow> 'a word \<times> 'a word" where
  "fetch_sub v cell = (cell, cell - v)"

definition fetch_and :: "'a::len word \<Rightarrow> 'a word \<Rightarrow> 'a word \<times> 'a word" where
  "fetch_and v cell = (cell, cell AND v)"

definition fetch_or :: "'a::len word \<Rightarrow> 'a word \<Rightarrow> 'a word \<times> 'a word" where
  "fetch_or v cell = (cell, cell OR v)"

definition fetch_xor :: "'a::len word \<Rightarrow> 'a word \<Rightarrow> 'a word \<times> 'a word" where
  "fetch_xor v cell = (cell, cell XOR v)"

lemmas atomic_defs = atomic_exchange_def compare_exchange_def fetch_add_def fetch_sub_def

section \<open>Test-and-set locks (spinlock.hpp, irq_spinlock.hpp, mutex.hpp)\<close>

text \<open>
  One turn of the loop of \<open>lock\<close> is the exchange \<open>try_lock\<close> performs: the loop ends when it
  succeeds.
\<close>

definition spinlock_try_lock :: "u32 \<Rightarrow> bool \<times> u32" where
  "spinlock_try_lock locked = (let (old, new) = atomic_exchange 1 locked in (old = 0, new))"

definition spinlock_unlock :: "u32 \<Rightarrow> u32" where
  "spinlock_unlock locked = 0"

definition irq_spinlock_try_lock :: "u32 \<Rightarrow> bool \<times> u32" where
  "irq_spinlock_try_lock locked = (let (old, new) = atomic_exchange 1 locked in (old = 0, new))"

definition irq_spinlock_unlock :: "u32 \<Rightarrow> u32" where
  "irq_spinlock_unlock locked = 0"

definition mutex_try_lock :: "u32 \<Rightarrow> bool \<times> u32" where
  "mutex_try_lock locked = (let (old, new) = atomic_exchange 1 locked in (old = 0, new))"

definition mutex_unlock :: "u32 \<Rightarrow> u32" where
  "mutex_unlock locked = 0"

text \<open>Where a thread is: outside, in the loop of \<open>lock\<close>, or between \<open>lock\<close> and \<open>unlock\<close>.\<close>

datatype lock_pc = Outside | Spinning | Inside

record lock_sys =
  lock_word :: u32
  lock_pcs :: "nat \<Rightarrow> lock_pc"

definition lock_init :: lock_sys where
  "lock_init = \<lparr>lock_word = 0, lock_pcs = (\<lambda>_. Outside)\<rparr>"

inductive lock_step ::
    "(u32 \<Rightarrow> bool \<times> u32) \<Rightarrow> (u32 \<Rightarrow> u32) \<Rightarrow> lock_sys \<Rightarrow> lock_sys \<Rightarrow> bool"
  for try_lock :: "u32 \<Rightarrow> bool \<times> u32" and unlock :: "u32 \<Rightarrow> u32"
where
  call_lock: "lock_pcs s t = Outside \<Longrightarrow>
     lock_step try_lock unlock s (s\<lparr>lock_pcs := (lock_pcs s)(t := Spinning)\<rparr>)"
| acquire: "lock_pcs s t = Spinning \<Longrightarrow> try_lock (lock_word s) = (True, w) \<Longrightarrow>
     lock_step try_lock unlock s (s\<lparr>lock_word := w, lock_pcs := (lock_pcs s)(t := Inside)\<rparr>)"
| spin: "lock_pcs s t = Spinning \<Longrightarrow> try_lock (lock_word s) = (False, w) \<Longrightarrow>
     lock_step try_lock unlock s (s\<lparr>lock_word := w\<rparr>)"
| try_ok: "lock_pcs s t = Outside \<Longrightarrow> try_lock (lock_word s) = (True, w) \<Longrightarrow>
     lock_step try_lock unlock s (s\<lparr>lock_word := w, lock_pcs := (lock_pcs s)(t := Inside)\<rparr>)"
| try_fail: "lock_pcs s t = Outside \<Longrightarrow> try_lock (lock_word s) = (False, w) \<Longrightarrow>
     lock_step try_lock unlock s (s\<lparr>lock_word := w\<rparr>)"
| leave: "lock_pcs s t = Inside \<Longrightarrow>
     lock_step try_lock unlock s
       (s\<lparr>lock_word := unlock (lock_word s), lock_pcs := (lock_pcs s)(t := Outside)\<rparr>)"

inductive lock_reach ::
    "(u32 \<Rightarrow> bool \<times> u32) \<Rightarrow> (u32 \<Rightarrow> u32) \<Rightarrow> lock_sys \<Rightarrow> bool"
  for try_lock :: "u32 \<Rightarrow> bool \<times> u32" and unlock :: "u32 \<Rightarrow> u32"
where
  init: "lock_reach try_lock unlock lock_init"
| step: "lock_reach try_lock unlock s \<Longrightarrow> lock_step try_lock unlock s s' \<Longrightarrow>
     lock_reach try_lock unlock s'"

text \<open>The word is 1 while a thread is inside, 0 otherwise, and at most one thread is inside.\<close>

definition lock_inv :: "lock_sys \<Rightarrow> bool" where
  "lock_inv s \<longleftrightarrow>
     (if \<exists>t. lock_pcs s t = Inside
      then lock_word s = 1 \<and> (\<forall>t u. lock_pcs s t = Inside \<longrightarrow> lock_pcs s u = Inside \<longrightarrow> t = u)
      else lock_word s = 0)"

locale test_and_set =
  fixes try_lock :: "u32 \<Rightarrow> bool \<times> u32" and unlock :: "u32 \<Rightarrow> u32"
  assumes try_free: "try_lock 0 = (True, 1)"
    and try_held: "try_lock 1 = (False, 1)"
    and unlock_frees: "unlock 1 = 0"
begin

lemma step_inv:
  assumes "lock_step try_lock unlock s s'" and inv: "lock_inv s"
  shows "lock_inv s'"
proof -
  have word: "lock_word s = 0 \<or> lock_word s = 1"
    using inv by (auto simp: lock_inv_def split: if_splits)
  have free: "lock_word s = 0 \<Longrightarrow> lock_pcs s u \<noteq> Inside" for u
    using inv by (auto simp: lock_inv_def split: if_splits)
  have held: "lock_pcs s u = Inside \<Longrightarrow> lock_word s = 1" for u
    using word free by blast
  have only: "lock_pcs s t = Inside \<Longrightarrow> lock_pcs s u = Inside \<Longrightarrow> t = u" for t u
    using inv by (auto simp: lock_inv_def split: if_splits)
  show ?thesis using assms(1)
  proof cases
    case (call_lock t)
    then have "lock_pcs s' u = Inside \<longleftrightarrow> lock_pcs s u = Inside" "lock_word s' = lock_word s" for u
      by simp_all
    with inv show ?thesis by (simp only: lock_inv_def)
  next
    case (acquire t w)
    then have "lock_word s = 0" "w = 1" using word by (auto simp: try_free try_held)
    with acquire free show ?thesis by (auto simp: lock_inv_def)
  next
    case (spin t w)
    then have "lock_word s = 1" "w = 1" using word by (auto simp: try_free try_held)
    with spin inv show ?thesis by (auto simp: lock_inv_def split: if_splits)
  next
    case (try_ok t w)
    then have "lock_word s = 0" "w = 1" using word by (auto simp: try_free try_held)
    with try_ok free show ?thesis by (auto simp: lock_inv_def)
  next
    case (try_fail t w)
    then have "lock_word s = 1" "w = 1" using word by (auto simp: try_free try_held)
    with try_fail inv show ?thesis by (auto simp: lock_inv_def split: if_splits)
  next
    case (leave t)
    have "lock_word s' = 0" using leave(1) held [OF leave(2)] by (simp add: unlock_frees)
    moreover have "lock_pcs s' u \<noteq> Inside" for u
    proof (cases "u = t")
      case False
      then have "lock_pcs s u \<noteq> Inside" using only [OF leave(2)] by blast
      with False leave(1) show ?thesis by simp
    qed (simp add: leave(1))
    ultimately show ?thesis by (simp add: lock_inv_def)
  qed
qed

lemma reach_inv: "lock_reach try_lock unlock s \<Longrightarrow> lock_inv s"
proof (induction rule: lock_reach.induct)
  case init
  show ?case by (simp add: lock_inv_def lock_init_def)
next
  case (step s s')
  then show ?case by (blast intro: step_inv)
qed

lemma exclusive:
  assumes "lock_reach try_lock unlock s" "lock_pcs s t = Inside" "lock_pcs s u = Inside"
  shows "t = u"
  using reach_inv [OF assms(1)] assms(2,3) by (auto simp: lock_inv_def split: if_splits)

lemma leaves_free:
  assumes "lock_reach try_lock unlock s" "lock_pcs s t = Inside"
  shows "fst (try_lock (unlock (lock_word s)))"
proof -
  have "lock_word s = 1" using reach_inv [OF assms(1)] assms(2) by (auto simp: lock_inv_def split: if_splits)
  then show ?thesis by (simp add: unlock_frees try_free)
qed

lemma acquires_when_free:
  assumes "lock_reach try_lock unlock s" "lock_pcs s t = Spinning" "\<forall>u. lock_pcs s u \<noteq> Inside"
  shows "\<exists>s'. lock_step try_lock unlock s s' \<and> lock_pcs s' t = Inside"
proof -
  have "lock_word s = 0" using reach_inv [OF assms(1)] assms(3) by (auto simp: lock_inv_def)
  then have "try_lock (lock_word s) = (True, 1)" by (simp add: try_free)
  with assms(2) have "lock_step try_lock unlock s
      (s\<lparr>lock_word := 1, lock_pcs := (lock_pcs s)(t := Inside)\<rparr>)"
    by (rule lock_step.acquire)
  then show ?thesis by (intro exI conjI, assumption) simp
qed

end

interpretation spinlock: test_and_set spinlock_try_lock spinlock_unlock
  by unfold_locales (simp_all add: spinlock_try_lock_def spinlock_unlock_def atomic_exchange_def)

interpretation irq_spinlock: test_and_set irq_spinlock_try_lock irq_spinlock_unlock
  by unfold_locales (simp_all add: irq_spinlock_try_lock_def irq_spinlock_unlock_def atomic_exchange_def)

interpretation mutex: test_and_set mutex_try_lock mutex_unlock
  by unfold_locales (simp_all add: mutex_try_lock_def mutex_unlock_def atomic_exchange_def)

section \<open>Interrupt-safe guards (irq_spinlock.hpp)\<close>

text \<open>
  The guard saves \<open>rflags\<close>, clears the interrupt flag (bit \<open>0x200\<close>) and takes the lock; its
  destructor releases the lock and sets the flag if it was set before.  A guard constructed while
  the lock is held spins (\<open>None\<close>), with interrupts off.
\<close>

record irq_cpu =
  rflags :: u64
  irq_lock :: u32

definition irq_guard_enter :: "irq_cpu \<Rightarrow> (u64 \<times> irq_cpu) option" where
  "irq_guard_enter c =
     (let saved = rflags c;
          c = c\<lparr>rflags := rflags c AND NOT 0x200\<rparr>;
          (ok, w) = irq_spinlock_try_lock (irq_lock c) in
      if ok then Some (saved, c\<lparr>irq_lock := w\<rparr>) else None)"

definition irq_guard_leave :: "u64 \<Rightarrow> irq_cpu \<Rightarrow> irq_cpu" where
  "irq_guard_leave saved c =
     (let c = c\<lparr>irq_lock := irq_spinlock_unlock (irq_lock c)\<rparr> in
      if saved AND 0x200 \<noteq> 0 then c\<lparr>rflags := rflags c OR 0x200\<rparr> else c)"

lemma interrupt_flag: "(0x200 :: u64) = 2 ^ 9"
  by simp

lemma and_0x200: "w AND 0x200 \<noteq> 0 \<longleftrightarrow> bit (w :: u64) 9"
  unfolding interrupt_flag by (simp only: and_exp_iff)

section \<open>Readers-writer lock (rwlock.hpp)\<close>

text \<open>
  The state is a signed 32-bit counter: the number of readers, or -1 for a writer.  \<open>lock_read\<close>
  loads the state and then tries a compare-and-exchange, two separate atomic accesses.
\<close>

datatype rw_pc = RwIdle | RwRead | RwLoaded u32 | Reading | RwWrite | Writing

record rw_sys =
  rw_state :: u32
  rw_pcs :: "nat \<Rightarrow> rw_pc"

definition rw_init :: rw_sys where
  "rw_init = \<lparr>rw_state = 0, rw_pcs = (\<lambda>_. RwIdle)\<rparr>"

text \<open>The load of \<open>lock_read\<close>, with its test \<open>s >= 0\<close>, and the compare-and-exchange.\<close>

definition rw_load :: "u32 \<Rightarrow> rw_pc" where
  "rw_load state = (if sint state \<ge> 0 then RwLoaded state else RwRead)"

definition rw_cas_read :: "u32 \<Rightarrow> u32 \<Rightarrow> rw_pc \<times> u32" where
  "rw_cas_read s state =
     (let (ok, _, state') = compare_exchange s (s + 1) state in
      (if ok then Reading else RwRead, state'))"

definition rw_cas_write :: "rw_pc \<Rightarrow> u32 \<Rightarrow> rw_pc \<times> u32" where
  "rw_cas_write failed state =
     (let (ok, _, state') = compare_exchange 0 (- 1) state in
      (if ok then Writing else failed, state'))"

definition rw_unlock_read :: "u32 \<Rightarrow> u32" where
  "rw_unlock_read state = snd (fetch_sub 1 state)"

definition rw_unlock_write :: "u32 \<Rightarrow> u32" where
  "rw_unlock_write state = 0"

text \<open>
  One atomic access of thread \<open>t\<close>: the program counter and the state after it, for each thing the
  thread may do next at its program counter.
\<close>

datatype rw_act = StartRead | StartWrite | TryWrite | Go

fun rw_thread :: "rw_act \<Rightarrow> rw_pc \<Rightarrow> u32 \<Rightarrow> rw_pc \<times> u32" where
  "rw_thread StartRead RwIdle w = (RwRead, w)"
| "rw_thread StartWrite RwIdle w = (RwWrite, w)"
| "rw_thread TryWrite RwIdle w = rw_cas_write RwIdle w"
| "rw_thread Go RwRead w = (rw_load w, w)"
| "rw_thread Go (RwLoaded s) w = rw_cas_read s w"
| "rw_thread Go Reading w = (RwIdle, rw_unlock_read w)"
| "rw_thread Go RwWrite w = rw_cas_write RwWrite w"
| "rw_thread Go Writing w = (RwIdle, rw_unlock_write w)"
| "rw_thread _ pc w = (pc, w)"

definition rw_step :: "nat \<times> rw_act \<Rightarrow> rw_sys \<Rightarrow> rw_sys" where
  "rw_step e s =
     (let (t, a) = e; (pc, w) = rw_thread a (rw_pcs s t) (rw_state s) in
      \<lparr>rw_state = w, rw_pcs = (rw_pcs s)(t := pc)\<rparr>)"

text \<open>A run is a schedule: which thread takes its next step, and which.\<close>

definition rw_run :: "(nat \<times> rw_act) list \<Rightarrow> rw_sys" where
  "rw_run es = fold rw_step es rw_init"

definition rw_readers :: "nat \<Rightarrow> rw_sys \<Rightarrow> nat set" where
  "rw_readers n s = {t. t < n \<and> rw_pcs s t = Reading}"

definition rw_writers :: "nat \<Rightarrow> rw_sys \<Rightarrow> nat set" where
  "rw_writers n s = {t. t < n \<and> rw_pcs s t = Writing}"

definition rw_inv :: "nat \<Rightarrow> rw_sys \<Rightarrow> bool" where
  "rw_inv n s \<longleftrightarrow>
     (\<forall>t \<ge> n. rw_pcs s t = RwIdle) \<and>
     (\<forall>t v. rw_pcs s t = RwLoaded v \<longrightarrow> sint v \<ge> 0) \<and>
     (rw_writers n s = {} \<and> rw_state s = of_nat (card (rw_readers n s))
      \<or> (\<exists>t. rw_writers n s = {t}) \<and> rw_readers n s = {} \<and> rw_state s = - 1)"

lemma unat_minus_one_u32: "unat (- 1 :: u32) = 0xFFFFFFFF"
proof -
  have m: "(- 1 :: u32) = 0xFFFFFFFF" by simp
  have "unat (0xFFFFFFFF :: u32) = 0xFFFFFFFF" by simp
  then show ?thesis by (simp only: m)
qed

lemma of_nat_u32_small:
  assumes "k < 2 ^ 31"
  shows "sint (of_nat k :: u32) = int k" "(of_nat k :: u32) \<noteq> - 1" "(of_nat k :: u32) = 0 \<longleftrightarrow> k = 0"
proof -
  have u: "unat (of_nat k :: u32) = k" using assms by (simp add: unat_of_nat)
  then have i: "uint (of_nat k :: u32) = int k" by (metis uint_nat)
  show "sint (of_nat k :: u32) = int k"
    unfolding sint_uint i by (rule signed_take_bit_int_eq_self) (use assms in auto)
  show "(of_nat k :: u32) \<noteq> - 1"
  proof
    assume "(of_nat k :: u32) = - 1"
    then have "unat (of_nat k :: u32) = unat (- 1 :: u32)" by (rule arg_cong)
    with assms show False unfolding unat_minus_one_u32 u by simp
  qed
  show "(of_nat k :: u32) = 0 \<longleftrightarrow> k = 0" using unat_eq_zero [of "of_nat k :: u32"] unfolding u by (rule sym)
qed

lemma rw_sets_upd:
  assumes "t < n"
  shows "rw_readers n \<lparr>rw_state = w, rw_pcs = f(t := pc)\<rparr> =
           (if pc = Reading then insert t {u. u < n \<and> f u = Reading} else {u. u < n \<and> f u = Reading} - {t})"
    and "rw_writers n \<lparr>rw_state = w, rw_pcs = f(t := pc)\<rparr> =
           (if pc = Writing then insert t {u. u < n \<and> f u = Writing} else {u. u < n \<and> f u = Writing} - {t})"
  unfolding rw_readers_def rw_writers_def using assms by (simp_all add: set_eq_iff)

lemma rw_step_inv:
  assumes inv: "rw_inv n s" and t: "t < n" and n: "n < 2 ^ 31"
  shows "rw_inv n (rw_step (t, a) s)"
proof -
  define R where "R = {u. u < n \<and> rw_pcs s u = Reading}"
  define W where "W = {u. u < n \<and> rw_pcs s u = Writing}"
  have sets: "rw_readers n s = R" "rw_writers n s = W" "finite R"
    by (simp_all add: R_def W_def rw_readers_def rw_writers_def)
  have "card R \<le> card {..<n}" by (rule card_mono) (auto simp: R_def)
  then have small: "card R < 2 ^ 31" using n by simp
  have idle: "\<forall>u \<ge> n. rw_pcs s u = RwIdle" and loaded: "\<And>u v. rw_pcs s u = RwLoaded v \<Longrightarrow> sint v \<ge> 0"
    and state: "W = {} \<and> rw_state s = of_nat (card R)
      \<or> (\<exists>u. W = {u}) \<and> R = {} \<and> rw_state s = - 1"
    using inv unfolding rw_inv_def sets by auto
  have memb: "t \<in> R \<longleftrightarrow> rw_pcs s t = Reading" "t \<in> W \<longleftrightarrow> rw_pcs s t = Writing"
    using t by (simp_all add: R_def W_def)
  have upd: "rw_readers n \<lparr>rw_state = w, rw_pcs = (rw_pcs s)(t := pc)\<rparr> =
      (if pc = Reading then insert t R else R - {t})"
    "rw_writers n \<lparr>rw_state = w, rw_pcs = (rw_pcs s)(t := pc)\<rparr> =
      (if pc = Writing then insert t W else W - {t})" for w pc
    unfolding R_def W_def by (rule rw_sets_upd [OF t])+
  have cond: "rw_inv n \<lparr>rw_state = w, rw_pcs = (rw_pcs s)(t := pc)\<rparr> \<longleftrightarrow>
      (\<forall>v. pc = RwLoaded v \<longrightarrow> sint v \<ge> 0) \<and>
      ((if pc = Writing then insert t W else W - {t}) = {}
         \<and> w = of_nat (card (if pc = Reading then insert t R else R - {t}))
       \<or> (\<exists>u. (if pc = Writing then insert t W else W - {t}) = {u})
         \<and> (if pc = Reading then insert t R else R - {t}) = {} \<and> w = - 1)" for w pc
    unfolding rw_inv_def upd using idle loaded t by auto
  have step: "rw_step (t, a) s = \<lparr>rw_state = snd (rw_thread a (rw_pcs s t) (rw_state s)),
      rw_pcs = (rw_pcs s)(t := fst (rw_thread a (rw_pcs s t) (rw_state s)))\<rparr>"
    by (simp add: rw_step_def split: prod.split)
  have free: "W = {}" "R = {}" if "rw_state s = 0"
    using state that of_nat_u32_small (3) [OF small] sets(3) by auto
  have neg: "(0 :: u32) \<noteq> - 1" by simp
  have cas: "rw_inv n \<lparr>rw_state = snd (rw_cas_write pc (rw_state s)),
      rw_pcs = (rw_pcs s)(t := fst (rw_cas_write pc (rw_state s)))\<rparr>"
    if "pc = RwIdle \<or> pc = RwWrite" "rw_pcs s t \<noteq> Reading" "rw_pcs s t \<noteq> Writing" for pc
    unfolding cond using that free state memb
    by (cases "rw_state s = 0") (auto simp: rw_cas_write_def compare_exchange_def)
  have "rw_inv n \<lparr>rw_state = snd (rw_thread a (rw_pcs s t) (rw_state s)),
    rw_pcs = (rw_pcs s)(t := fst (rw_thread a (rw_pcs s t) (rw_state s)))\<rparr>"
  proof (cases "rw_pcs s t")
    case RwIdle
    then show ?thesis
      using cas [of RwIdle] state memb by (cases a) (auto simp: cond)
  next
    case RwRead
    then show ?thesis
      using state memb by (cases a) (auto simp: cond rw_load_def)
  next
    case (RwLoaded v)
    then show ?thesis
      using state memb loaded [of t v] sets(3)
      by (cases a) (auto simp: cond rw_cas_read_def compare_exchange_def)
  next
    case Reading
    then show ?thesis
      using state memb sets(3) card_Suc_Diff1 [of R t]
      by (cases a) (auto simp: cond rw_unlock_read_def fetch_sub_def insert_absorb)
  next
    case RwWrite
    then show ?thesis
      using cas [of RwWrite] state memb by (cases a) (auto simp: cond)
  next
    case Writing
    then show ?thesis
      using state memb by (cases a) (auto simp: cond rw_unlock_write_def insert_absorb)
  qed
  then show ?thesis by (simp only: step)
qed

lemma rw_run_inv:
  assumes "\<forall>(t, a) \<in> set es. t < n" and "n < 2 ^ 31" and "rw_inv n s"
  shows "rw_inv n (fold rw_step es s)"
  using assms by (induction es arbitrary: s) (auto simp: rw_step_inv)

section \<open>Semaphore (semaphore.hpp)\<close>

text \<open>
  \<open>wait\<close> loads the count and tries to decrement it, starting over when the exchange fails;
  \<open>try_wait\<close> loads once and, while the value in hand is positive, tries the exchange with it (a
  failing exchange leaves the value it saw in hand).  The fields \<open>posts\<close> and \<open>waits\<close> count completed
  calls and are not part of the object.
\<close>

datatype sem_pc = SemIdle | SemWait | SemLoaded u32 | SemTry u32

record sem_sys =
  sem_count :: u32
  sem_pcs :: "nat \<Rightarrow> sem_pc"
  posts :: nat
  waits :: nat

datatype sem_act = StartWait | StartTry | Post | SemGo

definition sem_init :: "u32 \<Rightarrow> sem_sys" where
  "sem_init initial_count = \<lparr>sem_count = initial_count, sem_pcs = (\<lambda>_. SemIdle), posts = 0, waits = 0\<rparr>"

definition sem_take :: "nat \<Rightarrow> u32 \<Rightarrow> (u32 \<Rightarrow> sem_pc) \<Rightarrow> sem_sys \<Rightarrow> sem_sys" where
  "sem_take t cur retry s =
     (let (ok, cur', count) = compare_exchange cur (cur - 1) (sem_count s) in
      if ok then s\<lparr>sem_count := count, sem_pcs := (sem_pcs s)(t := SemIdle), waits := waits s + 1\<rparr>
      else s\<lparr>sem_pcs := (sem_pcs s)(t := retry cur')\<rparr>)"

fun sem_step :: "nat \<times> sem_act \<Rightarrow> sem_sys \<Rightarrow> sem_sys" where
  "sem_step (t, a) s =
     (case (a, sem_pcs s t) of
        (StartWait, SemIdle) \<Rightarrow> s\<lparr>sem_pcs := (sem_pcs s)(t := SemWait)\<rparr>
      | (StartTry, SemIdle) \<Rightarrow> s\<lparr>sem_pcs := (sem_pcs s)(t := SemTry (sem_count s))\<rparr>
      | (Post, SemIdle) \<Rightarrow> s\<lparr>sem_count := snd (fetch_add 1 (sem_count s)), posts := posts s + 1\<rparr>
      | (SemGo, SemWait) \<Rightarrow>
          (let cur = sem_count s in
           if sint cur > 0 then s\<lparr>sem_pcs := (sem_pcs s)(t := SemLoaded cur)\<rparr> else s)
      | (SemGo, SemLoaded cur) \<Rightarrow> sem_take t cur (\<lambda>_. SemWait) s
      | (SemGo, SemTry cur) \<Rightarrow>
          (if sint cur > 0 then sem_take t cur SemTry s
           else s\<lparr>sem_pcs := (sem_pcs s)(t := SemIdle)\<rparr>)
      | _ \<Rightarrow> s)"

definition sem_inv :: "nat \<Rightarrow> sem_sys \<Rightarrow> bool" where
  "sem_inv k s \<longleftrightarrow>
     (\<forall>t v. sem_pcs s t = SemLoaded v \<longrightarrow> sint v > 0) \<and>
     waits s \<le> k + posts s \<and> sem_count s = of_nat (k + posts s - waits s)"

lemma sem_step_posts: "posts s \<le> posts (sem_step e s)"
  by (cases e; cases "snd e"; cases "sem_pcs s (fst e)")
    (auto simp: sem_take_def compare_exchange_def Let_def)

lemma sem_take_inv:
  assumes inv: "sem_inv k s" and cur: "sint cur > 0" and small: "k + posts s < 2 ^ 31"
    and retry: "\<And>v v'. retry v \<noteq> SemLoaded v'"
  shows "sem_inv k (sem_take t cur retry s)"
proof (cases "sem_count s = cur")
  case True
  define m where "m = k + posts s - waits s"
  have m: "sem_count s = of_nat m" "m < 2 ^ 31" "waits s \<le> k + posts s"
    using inv small by (simp_all add: sem_inv_def m_def)
  have "m \<noteq> 0" using cur True m(1) by (cases "m = 0") simp_all
  then obtain m' where m': "m = Suc m'" by (cases m) simp_all
  have "cur - 1 = of_nat m'" using True m(1) m' by (metis add_diff_cancel_left' of_nat_Suc)
  moreover have "k + posts s - (waits s + 1) = m'" "waits s + 1 \<le> k + posts s"
    using m' by (simp_all add: m_def)
  ultimately show ?thesis using inv True
    by (auto simp: sem_inv_def sem_take_def compare_exchange_def)
next
  case False
  with inv retry show ?thesis by (auto simp: sem_inv_def sem_take_def compare_exchange_def)
qed

lemma sem_step_inv:
  assumes inv: "sem_inv k s" and small: "k + posts s < 2 ^ 31"
  shows "sem_inv k (sem_step e s)"
proof -
  obtain t a where e: "e = (t, a)" by (cases e)
  have loaded: "sem_pcs s t = SemLoaded v \<Longrightarrow> sint v > 0" for v using inv by (auto simp: sem_inv_def)
  show ?thesis
    unfolding e using inv small loaded
    by (cases a; cases "sem_pcs s t")
      (auto simp: Let_def fetch_add_def intro!: sem_take_inv,
       auto simp: sem_inv_def Suc_diff_le)
qed

lemma sem_run_posts: "posts s \<le> posts (fold sem_step es s)"
  by (induction es arbitrary: s) (auto intro: order_trans [OF sem_step_posts])

lemma sem_run_inv:
  assumes "sem_inv k s" "k + posts (fold sem_step es s) < 2 ^ 31"
  shows "sem_inv k (fold sem_step es s)"
  using assms
proof (induction es arbitrary: s)
  case (Cons e es)
  have "posts s \<le> posts (fold sem_step (e # es) s)" by (rule sem_run_posts)
  with Cons.prems have "sem_inv k (sem_step e s)" by (intro sem_step_inv) simp_all
  with Cons show ?case by simp
qed simp

section \<open>Sequence lock (seqlock.hpp)\<close>

text \<open>
  The lock protects cells \<open>sq_data\<close>.  A writer loads the sequence, increments it by a
  compare-and-exchange (retrying with the value a failing exchange saw), stores cells, and ends with
  a load and a store of the sequence.  The reader copies cells between \<open>read_begin\<close> and
  \<open>read_retry\<close>.  \<open>RdCopy\<close> and \<open>RdDone\<close> remember, beside the copy, the contents of the cells when
  \<open>read_begin\<close> returned; the code does not.
\<close>

datatype sq_wpc = WrIdle | WrLoaded u64 | WrInside | WrEnding u64

datatype sq_rpc = RdIdle | RdCopy u64 "nat \<Rightarrow> u64" "nat \<rightharpoonup> u64" | RdDone "nat \<Rightarrow> u64" "nat \<rightharpoonup> u64"

record sq_sys =
  sq_seq :: u64
  sq_data :: "nat \<Rightarrow> u64"
  sq_writers :: "nat \<Rightarrow> sq_wpc"
  sq_reader :: sq_rpc

datatype sq_act =
    WriteBegin nat | WriteCell nat nat u64 | WriteEnd nat | ReadBegin | ReadCell nat | ReadRetry

definition sq_init :: sq_sys where
  "sq_init = \<lparr>sq_seq = 0, sq_data = (\<lambda>_. 0), sq_writers = (\<lambda>_. WrIdle), sq_reader = RdIdle\<rparr>"

definition seqlock_write_begin :: "sq_wpc \<Rightarrow> u64 \<Rightarrow> sq_wpc \<times> u64" where
  "seqlock_write_begin pc seq =
     (case pc of
        WrIdle \<Rightarrow> (WrLoaded seq, seq)
      | WrLoaded s \<Rightarrow>
          (let (ok, s', seq') = compare_exchange s (s + 1) seq in
           (if ok then WrInside else WrLoaded s', seq'))
      | _ \<Rightarrow> (pc, seq))"

definition seqlock_write_end :: "sq_wpc \<Rightarrow> u64 \<Rightarrow> sq_wpc \<times> u64" where
  "seqlock_write_end pc seq =
     (case pc of
        WrInside \<Rightarrow> (WrEnding (seq + 1), seq)
      | WrEnding v \<Rightarrow> (WrIdle, v)
      | _ \<Rightarrow> (pc, seq))"

definition seqlock_read_begin :: "(nat \<Rightarrow> u64) \<Rightarrow> u64 \<Rightarrow> sq_rpc" where
  "seqlock_read_begin cells seq = (if seq AND 1 = 0 then RdCopy seq cells Map.empty else RdIdle)"

definition seqlock_read_retry :: "u64 \<Rightarrow> u64 \<Rightarrow> bool" where
  "seqlock_read_retry s seq \<longleftrightarrow> seq \<noteq> s"

fun sq_step :: "sq_act \<Rightarrow> sq_sys \<Rightarrow> sq_sys" where
  "sq_step (WriteBegin t) s =
     (let (pc, seq) = seqlock_write_begin (sq_writers s t) (sq_seq s) in
      s\<lparr>sq_seq := seq, sq_writers := (sq_writers s)(t := pc)\<rparr>)"
| "sq_step (WriteCell t i v) s =
     (if sq_writers s t = WrInside then s\<lparr>sq_data := (sq_data s)(i := v)\<rparr> else s)"
| "sq_step (WriteEnd t) s =
     (let (pc, seq) = seqlock_write_end (sq_writers s t) (sq_seq s) in
      s\<lparr>sq_seq := seq, sq_writers := (sq_writers s)(t := pc)\<rparr>)"
| "sq_step ReadBegin s =
     (if sq_reader s = RdIdle then s\<lparr>sq_reader := seqlock_read_begin (sq_data s) (sq_seq s)\<rparr> else s)"
| "sq_step (ReadCell i) s =
     (case sq_reader s of
        RdCopy q snap copy \<Rightarrow> s\<lparr>sq_reader := RdCopy q snap (copy(i \<mapsto> sq_data s i))\<rparr>
      | _ \<Rightarrow> s)"
| "sq_step ReadRetry s =
     (case sq_reader s of
        RdCopy q snap copy \<Rightarrow>
          s\<lparr>sq_reader := if seqlock_read_retry q (sq_seq s) then RdIdle else RdDone snap copy\<rparr>
      | _ \<Rightarrow> s)"

text \<open>The writer of an action, if it is a writer's.\<close>

fun sq_writer :: "sq_act \<Rightarrow> nat option" where
  "sq_writer (WriteBegin t) = Some t"
| "sq_writer (WriteCell t _ _) = Some t"
| "sq_writer (WriteEnd t) = Some t"
| "sq_writer _ = None"

text \<open>
  With \<open>c\<close> increments of the sequence so far: a copy begun after \<open>c0\<close> increments is the contents of
  the cells as long as no further increment happened.
\<close>

definition sq_reader_ok :: "nat \<Rightarrow> (nat \<Rightarrow> u64) \<Rightarrow> sq_rpc \<Rightarrow> bool" where
  "sq_reader_ok c cells r \<longleftrightarrow>
     (case r of
        RdIdle \<Rightarrow> True
      | RdCopy q snap copy \<Rightarrow>
          (\<exists>c0 \<le> c. even c0 \<and> q = of_nat c0 \<and>
             (c = c0 \<longrightarrow> snap = cells \<and> (\<forall>i v. copy i = Some v \<longrightarrow> v = snap i)))
      | RdDone snap copy \<Rightarrow> \<forall>i v. copy i = Some v \<longrightarrow> v = snap i)"

definition sq_writer_ok :: "nat \<Rightarrow> sq_wpc \<Rightarrow> bool" where
  "sq_writer_ok c pc \<longleftrightarrow>
     (case pc of
        WrIdle \<Rightarrow> even c
      | WrLoaded v \<Rightarrow> even c \<and> v = of_nat c
      | WrInside \<Rightarrow> odd c
      | WrEnding v \<Rightarrow> odd c \<and> v = of_nat (Suc c))"

text \<open>Thread 0 is the only writer.\<close>

definition sq_inv :: "nat \<Rightarrow> sq_sys \<Rightarrow> bool" where
  "sq_inv c s \<longleftrightarrow>
     sq_seq s = of_nat c \<and>
     sq_writer_ok c (sq_writers s 0) \<and>
     sq_reader_ok c (sq_data s) (sq_reader s)"

lemma sq_reader_ok_Suc: "sq_reader_ok c cells r \<Longrightarrow> sq_reader_ok (Suc c) cells' r"
  by (auto simp: sq_reader_ok_def split: sq_rpc.splits intro: le_SucI)

lemma sq_reader_ok_odd: "odd c \<Longrightarrow> sq_reader_ok c cells r \<Longrightarrow> sq_reader_ok c cells' r"
  by (auto simp: sq_reader_ok_def split: sq_rpc.splits)

lemma even_of_nat_u64: "(of_nat c :: u64) AND 1 = 0 \<longleftrightarrow> even c"
  by (simp add: and_one_eq odd_iff_mod_2_eq_one flip: even_iff_mod_2_eq_zero)

lemma of_nat_u64_inj: "a < 2 ^ 64 \<Longrightarrow> b < 2 ^ 64 \<Longrightarrow> (of_nat a :: u64) = of_nat b \<longleftrightarrow> a = b"
  by (simp add: word_of_nat_eq_iff take_bit_nat_eq_self)

lemma sq_step_inv:
  assumes inv: "sq_inv c s" and c: "c < 2 ^ 64" and only: "sq_writer a = None \<or> sq_writer a = Some 0"
  shows "\<exists>c' \<le> Suc c. sq_inv c' (sq_step a s)"
proof (cases a)
  case (WriteBegin t)
  then have t: "t = 0" using only by simp
  show ?thesis
  proof (cases "sq_writers s 0")
    case (WrLoaded v)
    then have "sq_inv (Suc c) (sq_step a s)"
      using inv t unfolding WriteBegin
      by (auto simp: sq_inv_def sq_writer_ok_def seqlock_write_begin_def compare_exchange_def intro: sq_reader_ok_Suc)
    then show ?thesis by blast
  qed (use inv t in \<open>auto simp: WriteBegin sq_inv_def sq_writer_ok_def seqlock_write_begin_def intro!: exI [of _ c]\<close>)
next
  case (WriteCell t i v)
  then have t: "t = 0" using only by simp
  have "sq_inv c (sq_step a s)"
    using inv t unfolding WriteCell by (auto simp: sq_inv_def sq_writer_ok_def intro: sq_reader_ok_odd)
  then show ?thesis by (intro exI [of _ c]) simp
next
  case (WriteEnd t)
  then have t: "t = 0" using only by simp
  show ?thesis
  proof (cases "sq_writers s 0")
    case (WrEnding v)
    then have "sq_inv (Suc c) (sq_step a s)"
      using inv t unfolding WriteEnd
      by (auto simp: sq_inv_def sq_writer_ok_def seqlock_write_end_def intro: sq_reader_ok_Suc)
    then show ?thesis by blast
  qed (use inv t in \<open>auto simp: WriteEnd sq_inv_def sq_writer_ok_def seqlock_write_end_def intro!: exI [of _ c]\<close>)
next
  case ReadBegin
  have "sq_inv c (sq_step a s)"
    using inv unfolding ReadBegin
    by (auto simp: sq_inv_def sq_reader_ok_def seqlock_read_begin_def even_of_nat_u64 split: sq_rpc.splits)
  then show ?thesis by (intro exI [of _ c]) simp
next
  case (ReadCell i)
  have "sq_inv c (sq_step a s)"
    using inv unfolding ReadCell by (auto simp: sq_inv_def sq_reader_ok_def split: sq_rpc.splits)
  then show ?thesis by (intro exI [of _ c]) simp
next
  case ReadRetry
  have "sq_inv c (sq_step a s)"
  proof (cases "sq_reader s")
    case (RdCopy q snap copy)
    then show ?thesis using inv c unfolding ReadRetry
      by (auto simp: sq_inv_def sq_reader_ok_def seqlock_read_retry_def of_nat_u64_inj)
  qed (use inv in \<open>simp_all add: ReadRetry\<close>)
  then show ?thesis by (intro exI [of _ c]) simp
qed

lemma sq_run_inv:
  assumes "sq_inv c s" "c + length as < 2 ^ 64" "\<forall>a \<in> set as. sq_writer a = None \<or> sq_writer a = Some 0"
  shows "\<exists>c'. sq_inv c' (fold sq_step as s)"
  using assms
proof (induction as arbitrary: c s)
  case (Cons a as)
  then obtain c' where "c' \<le> Suc c" "sq_inv c' (sq_step a s)"
    using sq_step_inv [of c s a] by auto
  with Cons show ?case by simp
qed auto

section \<open>Bounded waiting (timed_spinlock.hpp, timed_mutex.hpp, timed_semaphore.hpp, condvar.hpp)\<close>

text \<open>
  A timed wait polls: the \<open>k\<close>-th attempt succeeds or not (\<open>attempt k\<close>, the outcome of \<open>try_lock\<close>,
  \<open>try_wait\<close> or the predicate there), and a failed attempt is followed by the \<open>k\<close>-th reading of the
  clock.  What other threads do between two attempts is in \<open>attempt\<close>.
\<close>

partial_function (option) poll_until :: "(nat \<Rightarrow> bool) \<Rightarrow> (nat \<Rightarrow> u64) \<Rightarrow> u64 \<Rightarrow> nat \<Rightarrow> bool option" where
  "poll_until attempt uptime_ms end' k =
     (if attempt k then Some True
      else if uptime_ms k \<ge> end' then Some False
      else poll_until attempt uptime_ms end' (Suc k))"

definition try_lock_for :: "(nat \<Rightarrow> bool) \<Rightarrow> (nat \<Rightarrow> u64) \<Rightarrow> u64 \<Rightarrow> u64 \<Rightarrow> bool option" where
  "try_lock_for attempt uptime_ms now timeout_ms = poll_until attempt uptime_ms (now + timeout_ms) 0"

definition try_lock_until :: "(nat \<Rightarrow> bool) \<Rightarrow> (nat \<Rightarrow> u64) \<Rightarrow> u64 \<Rightarrow> bool option" where
  "try_lock_until attempt uptime_ms abs_ms = poll_until attempt uptime_ms abs_ms 0"

definition semaphore_wait_for :: "(nat \<Rightarrow> bool) \<Rightarrow> (nat \<Rightarrow> u64) \<Rightarrow> u64 \<Rightarrow> u64 \<Rightarrow> bool option" where
  "semaphore_wait_for attempt uptime_ms now timeout_ms = poll_until attempt uptime_ms (now + timeout_ms) 0"

definition condvar_wait_until :: "(nat \<Rightarrow> bool) \<Rightarrow> (nat \<Rightarrow> u64) \<Rightarrow> u64 \<Rightarrow> bool option" where
  "condvar_wait_until pred uptime_ms abs_ms = poll_until pred uptime_ms abs_ms 0"

definition timed_mutex_try_lock_for :: "(nat \<Rightarrow> bool) \<Rightarrow> (nat \<Rightarrow> u64) \<Rightarrow> u64 \<Rightarrow> u64 \<Rightarrow> bool option" where
  "timed_mutex_try_lock_for attempt uptime_ms now timeout_ms =
     poll_until attempt uptime_ms (now + timeout_ms) 0"

definition semaphore_wait_until :: "(nat \<Rightarrow> bool) \<Rightarrow> (nat \<Rightarrow> u64) \<Rightarrow> u64 \<Rightarrow> bool option" where
  "semaphore_wait_until attempt uptime_ms abs_ms = poll_until attempt uptime_ms abs_ms 0"

definition condvar_wait_for :: "(nat \<Rightarrow> bool) \<Rightarrow> (nat \<Rightarrow> u64) \<Rightarrow> u64 \<Rightarrow> u64 \<Rightarrow> bool option" where
  "condvar_wait_for pred uptime_ms now timeout_ms = poll_until pred uptime_ms (now + timeout_ms) 0"

lemmas poll_defs = try_lock_for_def timed_mutex_try_lock_for_def try_lock_until_def
  semaphore_wait_for_def semaphore_wait_until_def condvar_wait_for_def condvar_wait_until_def

lemma poll_until_stop:
  assumes "attempt k \<or> uptime_ms k \<ge> end'" "\<forall>j. i \<le> j \<and> j < k \<longrightarrow> \<not> attempt j \<and> uptime_ms j < end'" "i \<le> k"
  shows "poll_until attempt uptime_ms end' i = Some (attempt k)"
  using assms
proof (induction "k - i" arbitrary: i)
  case 0
  then have "i = k" by simp
  with 0 show ?case by (subst poll_until.simps) auto
next
  case (Suc d)
  then have "i < k" by simp
  then have "\<not> attempt i" "\<not> end' \<le> uptime_ms i" using Suc.prems(2) by auto
  moreover have "poll_until attempt uptime_ms end' (Suc i) = Some (attempt k)"
    using Suc \<open>i < k\<close> by (intro Suc.hyps(1)) auto
  ultimately show ?case by (subst poll_until.simps) simp
qed

section \<open>Scoped ownership (unique_lock.hpp)\<close>

text \<open>
  Locks live at addresses; a \<open>UniqueLock\<close> has a nullable pointer to one and an ownership flag.  A
  blocking \<open>lock\<close> of a held lock does not return (\<open>None\<close>), nor does a call through a null pointer.
\<close>

record UniqueLock =
  lock_ptr :: "nat option"
  owns :: bool

type_synonym lock_store = "nat \<Rightarrow> u32"

definition store_try_lock :: "nat \<Rightarrow> lock_store \<Rightarrow> bool \<times> lock_store" where
  "store_try_lock a st = (let (ok, w) = mutex_try_lock (st a) in (ok, st(a := w)))"

definition store_unlock :: "nat \<Rightarrow> lock_store \<Rightarrow> lock_store" where
  "store_unlock a st = st(a := mutex_unlock (st a))"

definition unique_make :: "nat \<Rightarrow> lock_store \<Rightarrow> (UniqueLock \<times> lock_store) option" where
  "unique_make a st =
     (let (ok, st) = store_try_lock a st in
      if ok then Some (\<lparr>lock_ptr = Some a, owns = True\<rparr>, st) else None)"

definition unique_defer :: "nat \<Rightarrow> UniqueLock" where
  "unique_defer a = \<lparr>lock_ptr = Some a, owns = False\<rparr>"

definition unique_try :: "nat \<Rightarrow> lock_store \<Rightarrow> UniqueLock \<times> lock_store" where
  "unique_try a st = (let (ok, st) = store_try_lock a st in (\<lparr>lock_ptr = Some a, owns = ok\<rparr>, st))"

definition unique_adopt :: "nat \<Rightarrow> UniqueLock" where
  "unique_adopt a = \<lparr>lock_ptr = Some a, owns = True\<rparr>"

definition unique_null :: UniqueLock where
  "unique_null = \<lparr>lock_ptr = None, owns = False\<rparr>"

definition unique_destroy :: "UniqueLock \<Rightarrow> lock_store \<Rightarrow> lock_store option" where
  "unique_destroy u st =
     (if owns u then map_option (\<lambda>a. store_unlock a st) (lock_ptr u) else Some st)"

text \<open>Move construction: the new object and what is left of \<open>other\<close>.\<close>

definition unique_move :: "UniqueLock \<Rightarrow> UniqueLock \<times> UniqueLock" where
  "unique_move other =
     (\<lparr>lock_ptr = lock_ptr other, owns = owns other\<rparr>, other\<lparr>lock_ptr := None, owns := False\<rparr>)"

text \<open>Move assignment of two different objects.\<close>

definition unique_assign ::
    "UniqueLock \<Rightarrow> UniqueLock \<Rightarrow> lock_store \<Rightarrow> (UniqueLock \<times> UniqueLock \<times> lock_store) option" where
  "unique_assign self other st =
     map_option (\<lambda>st. (\<lparr>lock_ptr = lock_ptr other, owns = owns other\<rparr>, other\<lparr>lock_ptr := None, owns := False\<rparr>, st))
       (unique_destroy self st)"

definition unique_lock :: "UniqueLock \<Rightarrow> lock_store \<Rightarrow> (UniqueLock \<times> lock_store) option" where
  "unique_lock u st =
     (case lock_ptr u of
        None \<Rightarrow> None
      | Some a \<Rightarrow>
          (let (ok, st) = store_try_lock a st in if ok then Some (u\<lparr>owns := True\<rparr>, st) else None))"

definition unique_try_lock :: "UniqueLock \<Rightarrow> lock_store \<Rightarrow> (bool \<times> UniqueLock \<times> lock_store) option" where
  "unique_try_lock u st =
     map_option (\<lambda>a. let (ok, st) = store_try_lock a st in (ok, u\<lparr>owns := ok\<rparr>, st)) (lock_ptr u)"

definition unique_unlock :: "UniqueLock \<Rightarrow> lock_store \<Rightarrow> (UniqueLock \<times> lock_store) option" where
  "unique_unlock u st = map_option (\<lambda>a. (u\<lparr>owns := False\<rparr>, store_unlock a st)) (lock_ptr u)"

definition unique_release :: "UniqueLock \<Rightarrow> nat option \<times> UniqueLock" where
  "unique_release u = (lock_ptr u, u\<lparr>lock_ptr := None, owns := False\<rparr>)"

text \<open>An owner's lock is taken, and two objects never own the same lock.\<close>

definition unique_ok :: "UniqueLock list \<Rightarrow> lock_store \<Rightarrow> bool" where
  "unique_ok us st \<longleftrightarrow>
     (\<forall>u \<in> set us. owns u \<longrightarrow> (\<exists>a. lock_ptr u = Some a \<and> st a = 1)) \<and>
     distinct (map lock_ptr (filter owns us))"

lemmas unique_defs = unique_make_def unique_defer_def unique_try_def unique_destroy_def
  unique_move_def unique_assign_def unique_lock_def unique_try_lock_def unique_unlock_def
  unique_release_def store_try_lock_def store_unlock_def mutex_try_lock_def mutex_unlock_def
  atomic_exchange_def

definition held_by :: "UniqueLock list \<Rightarrow> nat set" where
  "held_by us = {a. \<exists>u \<in> set us. owns u \<and> lock_ptr u = Some a}"

lemma held_by_simps [simp]:
  "held_by [] = {}"
  "held_by (u # us) = (if owns u then set_option (lock_ptr u) else {}) \<union> held_by us"
  by (auto simp: held_by_def)

lemma unique_ok_Cons:
  "unique_ok (u # us) st \<longleftrightarrow>
     (owns u \<longrightarrow> (\<exists>a. lock_ptr u = Some a \<and> st a = 1 \<and> a \<notin> held_by us)) \<and> unique_ok us st"
  by (force simp: unique_ok_def held_by_def)

lemma unique_ok_held: "unique_ok us st \<Longrightarrow> a \<in> held_by us \<Longrightarrow> st a = 1"
  by (auto simp: unique_ok_def held_by_def)

lemma unique_ok_cong: "unique_ok us st \<Longrightarrow> (\<And>a. a \<in> held_by us \<Longrightarrow> st' a = st a) \<Longrightarrow> unique_ok us st'"
  by (force simp: unique_ok_def held_by_def)

lemma unique_ok_upd [simp]: "unique_ok us st \<Longrightarrow> a \<notin> held_by us \<Longrightarrow> unique_ok us (st(a := w))"
  by (erule unique_ok_cong) auto

lemma unique_ok_same [simp]: "unique_ok us st \<Longrightarrow> unique_ok us (st(a := 1))"
  by (rule unique_ok_cong, assumption) (auto dest: unique_ok_held)

section \<open>Properties\<close>

text \<open>C5. Mutual exclusion and progress of each of the three locks, in every interleaving of any number of
  threads: no two threads are between \<open>lock\<close> and \<open>unlock\<close>, a thread that spins while no thread is
  inside enters by its next step, and a thread that is inside leaves the lock free for the next.\<close>

theorem locks_exclude:
  assumes "(try_lock, unlock) \<in> {(spinlock_try_lock, spinlock_unlock), (irq_spinlock_try_lock, irq_spinlock_unlock),
      (mutex_try_lock, mutex_unlock)}"
    and "lock_reach try_lock unlock s"
  shows "(lock_pcs s t = Inside \<and> lock_pcs s u = Inside \<longrightarrow> t = u)
    \<and> (lock_pcs s t = Spinning \<and> (\<forall>u. lock_pcs s u \<noteq> Inside)
        \<longrightarrow> (\<exists>s'. lock_step try_lock unlock s s' \<and> lock_pcs s' t = Inside))
    \<and> (lock_pcs s t = Inside \<longrightarrow> fst (try_lock (unlock (lock_word s))))"
proof -
  have "test_and_set try_lock unlock"
    using assms(1) spinlock.test_and_set_axioms irq_spinlock.test_and_set_axioms mutex.test_and_set_axioms by auto
  note l = test_and_set.exclusive [OF this assms(2)] test_and_set.acquires_when_free [OF this assms(2)]
    test_and_set.leaves_free [OF this assms(2)]
  show ?thesis using l by blast
qed

theorem locks_exclude_witness:
  "\<exists>s. lock_pcs s 0 = Inside \<and> lock_reach irq_spinlock_try_lock irq_spinlock_unlock s \<and> lock_pcs s 1 \<noteq> Inside
     \<and> fst (irq_spinlock_try_lock (irq_spinlock_unlock (lock_word s)))"
proof -
  let ?s = "lock_init\<lparr>lock_word := 1, lock_pcs := (lock_pcs lock_init)(0 := Inside)\<rparr>"
  have "lock_step irq_spinlock_try_lock irq_spinlock_unlock lock_init ?s"
    by (rule lock_step.try_ok) (simp_all add: lock_init_def irq_spinlock_try_lock_def atomic_exchange_def)
  then have reach: "lock_reach irq_spinlock_try_lock irq_spinlock_unlock ?s"
    by (rule lock_reach.step [OF lock_reach.init])
  note l = locks_exclude [OF _ reach, of 0 1, simplified]
  have "lock_pcs ?s 1 \<noteq> Inside" using l by auto
  with l reach show ?thesis by (intro exI [of _ ?s]) simp
qed

text \<open>A guard of an interrupt-safe spinlock is entered exactly when the lock is free, runs with
  interrupts off and the lock taken, and its destructor restores the processor state and the lock
  as they were.\<close>

theorem irq_guard_restores:
  assumes "irq_lock c = 0 \<or> irq_lock c = 1"
  shows "case irq_guard_enter c of
      None \<Rightarrow> irq_lock c = 1
    | Some (saved, c') \<Rightarrow>
        irq_lock c = 0 \<and> irq_lock c' = 1 \<and> \<not> bit (rflags c') 9 \<and> irq_guard_leave saved c' = c"
proof (cases "irq_lock c = 0")
  case True
  have "(rflags c AND NOT 0x200) OR 0x200 = rflags c" if "bit (rflags c) 9"
    unfolding interrupt_flag by (rule set_cleared_bit [OF that])
  moreover have "rflags c AND NOT 0x200 = rflags c" if "\<not> bit (rflags c) 9"
    unfolding interrupt_flag by (rule clear_clear_bit [OF that])
  moreover have "\<not> bit (rflags c AND NOT 0x200) 9"
    unfolding interrupt_flag by (simp only: bit_and_not_exp) simp
  ultimately show ?thesis
    using True by (simp add: irq_guard_enter_def irq_guard_leave_def Let_def and_0x200
        irq_spinlock_try_lock_def irq_spinlock_unlock_def atomic_exchange_def)
next
  case False
  with assms show ?thesis
    by (simp add: irq_guard_enter_def irq_spinlock_try_lock_def atomic_exchange_def Let_def)
qed

theorem irq_guard_restores_witness:
  "irq_guard_enter \<lparr>rflags = 0x202, irq_lock = 0\<rparr> = Some (0x202, \<lparr>rflags = 2, irq_lock = 1\<rparr>)
   \<and> irq_guard_leave 0x202 \<lparr>rflags = 2, irq_lock = 1\<rparr> = \<lparr>rflags = 0x202, irq_lock = 0\<rparr>"
proof -
  have "irq_guard_enter \<lparr>rflags = 0x202, irq_lock = 0\<rparr> = Some (0x202, \<lparr>rflags = 2, irq_lock = 1\<rparr>)"
    by (simp add: irq_guard_enter_def irq_spinlock_try_lock_def atomic_exchange_def)
  with irq_guard_restores [of "\<lparr>rflags = 0x202, irq_lock = 0\<rparr>"] show ?thesis by simp
qed

text \<open>The readers-writer lock, for fewer than \<open>2 ^ 31\<close> threads and every schedule: while a thread
  writes no other thread reads or writes, and the state is the number of readers, or -1.\<close>

theorem rwlock_excludes:
  assumes "\<forall>(t, a) \<in> set es. t < n" and "n < 2 ^ 31"
  shows "(rw_pcs (rw_run es) t = Writing \<longrightarrow>
       (\<forall>u. u \<noteq> t \<longrightarrow> rw_pcs (rw_run es) u \<noteq> Writing \<and> rw_pcs (rw_run es) u \<noteq> Reading)
       \<and> rw_state (rw_run es) = - 1)
    \<and> ((\<forall>u. rw_pcs (rw_run es) u \<noteq> Writing) \<longrightarrow>
       rw_state (rw_run es) = of_nat (card {u. rw_pcs (rw_run es) u = Reading}))"
proof -
  have "rw_inv n rw_init" by (auto simp: rw_inv_def rw_init_def rw_readers_def rw_writers_def)
  then have inv: "rw_inv n (rw_run es)" unfolding rw_run_def by (rule rw_run_inv [OF assms])
  then have below: "u < n" if "rw_pcs (rw_run es) u \<noteq> RwIdle" for u
    using that unfolding rw_inv_def by (meson not_le)
  then have all: "rw_readers n (rw_run es) = {u. rw_pcs (rw_run es) u = Reading}"
    "rw_writers n (rw_run es) = {u. rw_pcs (rw_run es) u = Writing}"
    by (auto simp: rw_readers_def rw_writers_def)
  have one: "u = t" if "{u. rw_pcs (rw_run es) u = Writing} = {v}"
    "rw_pcs (rw_run es) t = Writing" "rw_pcs (rw_run es) u = Writing" for t u v
  proof -
    have "t \<in> {v}" "u \<in> {v}" using that(2,3) unfolding that(1) [symmetric] by simp_all
    then show ?thesis by simp
  qed
  from inv show ?thesis unfolding rw_inv_def all using one by blast
qed

theorem rwlock_excludes_witness:
  "rw_pcs (rw_run [(0, StartRead), (1, TryWrite), (0, Go)]) 1 = Writing
   \<and> rw_state (rw_run [(0, StartRead), (1, TryWrite), (0, Go)]) = - 1"
proof -
  let ?es = "[(0, StartRead), (1, TryWrite), (0, Go)]"
  have "rw_pcs (rw_run ?es) 1 = Writing"
    by (simp add: rw_run_def rw_init_def rw_step_def rw_cas_write_def compare_exchange_def)
  moreover have "\<forall>(t, a) \<in> set ?es. t < (2 :: nat)" "(2 :: nat) < 2 ^ 31" by simp_all
  ultimately show ?thesis using rwlock_excludes [of ?es 2 1] by blast
qed

text \<open>The semaphore, for every schedule in which the count cannot exceed \<open>2 ^ 31 - 1\<close>: no more
  waits complete than the initial count and the posts allow, and the count is the difference.\<close>

theorem semaphore_counts:
  fixes k :: nat and es
  defines "s \<equiv> fold sem_step es (sem_init (of_nat k))"
  assumes "k + posts s < 2 ^ 31"
  shows "waits s \<le> k + posts s \<and> sint (sem_count s) = int (k + posts s - waits s)"
proof -
  have "sem_inv k (sem_init (of_nat k))" by (simp add: sem_inv_def sem_init_def)
  then have "sem_inv k s" using assms(2) unfolding s_def by (rule sem_run_inv)
  moreover have "k + posts s - waits s < 2 ^ 31" using assms(2) by simp
  ultimately show ?thesis unfolding sem_inv_def by (metis of_nat_u32_small(1))
qed

theorem semaphore_counts_witness:
  "waits (fold sem_step [(0, StartWait), (1, StartTry), (0, SemGo), (0, SemGo), (1, SemGo)]
      (sem_init (of_nat 1))) = 1
   \<and> sint (sem_count (fold sem_step [(0, StartWait), (1, StartTry), (0, SemGo), (0, SemGo), (1, SemGo)]
      (sem_init (of_nat 1)))) = 0"
proof -
  let ?s = "fold sem_step [(0, StartWait), (1, StartTry), (0, SemGo), (0, SemGo), (1, SemGo)]
      (sem_init (of_nat 1))"
  have eval: "waits ?s = 1" "posts ?s = 0"
    by (simp_all add: sem_init_def sem_take_def compare_exchange_def Let_def)
  then have "1 + posts ?s < 2 ^ 31" by (simp only:) simp
  from semaphore_counts [OF this] show ?thesis unfolding eval by simp
qed

text \<open>C6. Readers of a sequence lock with one writer: in every schedule of fewer than \<open>2 ^ 64\<close> steps, a
  read that \<open>read_retry\<close> accepts has copied the contents the cells had when \<open>read_begin\<close> returned, at
  a moment no write was in progress.\<close>

theorem seqlock_snapshot:
  assumes "\<forall>a \<in> set as. sq_writer a = None \<or> sq_writer a = Some 0" and "length as < 2 ^ 64"
    and "sq_reader (fold sq_step as sq_init) = RdDone snap copy"
  shows "copy i = None \<or> copy i = Some (snap i)"
proof -
  have "sq_inv 0 sq_init" by (simp add: sq_inv_def sq_init_def sq_writer_ok_def sq_reader_ok_def)
  with assms(1,2) obtain c where "sq_inv c (fold sq_step as sq_init)"
    using sq_run_inv [of 0 sq_init as] by auto
  with assms(3) show ?thesis by (cases "copy i") (auto simp: sq_inv_def sq_reader_ok_def)
qed

theorem seqlock_snapshot_witness:
  "\<exists>snap copy. sq_reader (fold sq_step
       [WriteBegin 0, WriteBegin 0, WriteCell 0 0 7, ReadBegin, WriteEnd 0, WriteEnd 0, ReadBegin,
        ReadCell 0, ReadRetry] sq_init) = RdDone snap copy
     \<and> (copy 0 = None \<or> copy 0 = Some (snap 0)) \<and> snap 0 = 7"
proof -
  let ?as = "[WriteBegin 0, WriteBegin 0, WriteCell 0 0 7, ReadBegin, WriteEnd 0, WriteEnd 0, ReadBegin,
        ReadCell 0, ReadRetry]"
  have run: "sq_reader (fold sq_step ?as sq_init) = RdDone ((\<lambda>_. 0)(0 := 7)) [0 \<mapsto> 7]"
    by (simp add: sq_init_def seqlock_write_begin_def seqlock_write_end_def seqlock_read_begin_def
        seqlock_read_retry_def compare_exchange_def)
  show ?thesis
  proof (intro exI conjI)
    show "sq_reader (fold sq_step ?as sq_init) = RdDone ((\<lambda>_. 0)(0 := 7)) [0 \<mapsto> 7]" by (rule run)
    show "[0 \<mapsto> 7 :: u64] (0 :: nat) = None \<or> [0 \<mapsto> 7 :: u64] (0 :: nat) = Some (((\<lambda>_. 0)(0 := 7)) (0 :: nat))"
      by (rule seqlock_snapshot [OF _ _ run]) simp_all
  qed simp
qed

text \<open>\<open>write_begin\<close> does not wait for an even sequence: a second writer enters beside the first,
  makes the sequence even again, and a reader accepts a copy that mixes old and new cells.\<close>

theorem seqlock_two_writers:
  "\<exists>as snap copy.
     sq_writers (fold sq_step as sq_init) 0 = WrInside \<and> sq_writers (fold sq_step as sq_init) 1 = WrInside
     \<and> sq_reader (fold sq_step as sq_init) = RdDone snap copy \<and> copy 0 = Some 0 \<and> copy 1 = Some 7
     \<and> sq_data (fold sq_step as sq_init) 0 = 7"
proof -
  let ?as = "[WriteBegin 0, WriteBegin 0, WriteBegin 1, WriteBegin 1, ReadBegin, ReadCell 0,
      WriteCell 0 0 7, WriteCell 0 1 7, ReadCell 1, ReadRetry]"
  note eval = sq_init_def seqlock_write_begin_def seqlock_read_begin_def seqlock_read_retry_def
    compare_exchange_def
  show ?thesis
  proof (intro exI conjI)
    show "sq_reader (fold sq_step ?as sq_init) = RdDone (\<lambda>_. 0) [0 \<mapsto> 0, 1 \<mapsto> 7]" by (simp add: eval)
    show "sq_writers (fold sq_step ?as sq_init) 0 = WrInside" by (simp add: eval)
    show "sq_writers (fold sq_step ?as sq_init) 1 = WrInside" by (simp add: eval)
    show "sq_data (fold sq_step ?as sq_init) 0 = 7" by (simp add: eval)
  qed simp_all
qed

text \<open>A timed wait returns once an attempt succeeds or the clock reaches the deadline, whichever
  comes first, and reports which; a deadline the clock reaches makes every such wait return.\<close>

theorem timed_waits_return:
  assumes "uptime_ms k \<ge> end'"
  shows "\<exists>j \<le> k. try_lock_until attempt uptime_ms end' = Some (attempt j)
      \<and> semaphore_wait_until attempt uptime_ms end' = Some (attempt j)
      \<and> condvar_wait_until attempt uptime_ms end' = Some (attempt j)
      \<and> try_lock_for attempt uptime_ms now (end' - now) = Some (attempt j)
      \<and> timed_mutex_try_lock_for attempt uptime_ms now (end' - now) = Some (attempt j)
      \<and> semaphore_wait_for attempt uptime_ms now (end' - now) = Some (attempt j)
      \<and> condvar_wait_for attempt uptime_ms now (end' - now) = Some (attempt j)
      \<and> (attempt j \<or> uptime_ms j \<ge> end') \<and> (\<forall>i < j. \<not> attempt i \<and> uptime_ms i < end')"
proof -
  define j where "j = (LEAST j. attempt j \<or> uptime_ms j \<ge> end')"
  have j: "attempt j \<or> uptime_ms j \<ge> end'" unfolding j_def by (rule LeastI [of _ k]) (use assms in simp)
  have "j \<le> k" unfolding j_def by (rule Least_le) (use assms in simp)
  have before: "\<not> attempt i \<and> uptime_ms i < end'" if "i < j" for i
    using not_less_Least [OF that [unfolded j_def]] by (simp add: not_le)
  have "poll_until attempt uptime_ms end' 0 = Some (attempt j)"
    by (rule poll_until_stop) (use j before in auto)
  then show ?thesis using j before \<open>j \<le> k\<close>
    by (intro exI [of _ j]) (simp add: poll_defs)
qed

theorem timed_waits_return_witness:
  "try_lock_until (\<lambda>i. i = 5) (\<lambda>i. of_nat i) 3 = Some False"
proof -
  have le: "(3 :: u64) \<le> of_nat 3" by simp
  obtain j :: nat where "j \<le> 3" "try_lock_until (\<lambda>i. i = 5) (\<lambda>i. of_nat i) 3 = Some (j = 5)"
    using timed_waits_return [of 3 "\<lambda>i. of_nat i" 3 "\<lambda>i. i = 5" 0, OF le] by blast
  then show ?thesis by simp
qed

text \<open>Scoped locks: when every owner's lock is taken and no lock has two owners, constructing,
  moving, assigning, locking, unlocking and destroying a \<open>UniqueLock\<close> keep this so, and destroying
  an owner frees its lock.\<close>

theorem unique_lock_ownership:
  assumes "unique_ok (u # v # us) st"
  shows "(unique_make a st = Some (w, st') \<longrightarrow> unique_ok (w # u # v # us) st')
    \<and> (unique_try a st = (w, st') \<longrightarrow> unique_ok (w # u # v # us) st')
    \<and> unique_ok (unique_defer a # u # v # us) st
    \<and> unique_ok (fst (unique_move u) # snd (unique_move u) # v # us) st
    \<and> (unique_assign u v st = Some (u', v', st') \<longrightarrow> unique_ok (u' # v' # us) st')
    \<and> (unique_lock u st = Some (u', st') \<longrightarrow> unique_ok (u' # v # us) st')
    \<and> (owns u \<longrightarrow> (\<exists>st'. unique_destroy u st = Some st' \<and> unique_ok (v # us) st'
          \<and> st' (the (lock_ptr u)) = 0))
    \<and> (owns u \<and> unique_unlock u st = Some (u', st') \<longrightarrow> unique_ok (u' # v # us) st')"
proof -
  note held = unique_ok_held [OF assms]
  show ?thesis
    using assms held
    by (intro conjI impI) (auto simp: unique_defs unique_ok_Cons Let_def split: option.splits if_splits)
qed

theorem unique_lock_ownership_witness:
  "unique_ok [\<lparr>lock_ptr = Some 3, owns = True\<rparr>, unique_defer 1, unique_null] ((\<lambda>_. 0)(3 := 1))"
proof -
  have "unique_ok [unique_defer 1, unique_null] (\<lambda>_. 0)"
    by (simp add: unique_ok_def unique_defer_def unique_null_def)
  moreover have "unique_make 3 (\<lambda>_. 0) = Some (\<lparr>lock_ptr = Some 3, owns = True\<rparr>, (\<lambda>_. 0)(3 := 1))"
    by (simp add: unique_defs)
  ultimately show ?thesis using unique_lock_ownership by blast
qed

end
