(* ===== verification/Tori_MemoryMap.thy ===== *)
theory Tori_MemoryMap
  imports Tori_Prelude
begin

text \<open>
  The boot memory map (\<open>kernel/include/tori/kernel/boot_info.hpp\<close>), its classification and summary
  (\<open>kernel/src/memory/memory_map.cpp\<close>) and the higher-half direct map helpers
  (\<open>kernel/src/memory/address.cpp\<close>).
\<close>

section \<open>Boot memory map\<close>

datatype MemoryKind =
    Usable | Reserved | AcpiReclaimable | AcpiNvs | BadMemory | BootloaderReclaimable
  | KernelAndModules | Framebuffer | ReservedMapped | Unknown

record MemoryRegion =
  region_base :: u64
  region_length :: u64
  region_kind :: MemoryKind

text \<open>
  \<open>regions\<close> and \<open>source_region_at\<close> are nullable pointers of the C++ struct; the array and the
  accessor (with its context already applied) are functions of the index.
\<close>

record MemoryMap =
  regions :: "(nat \<Rightarrow> MemoryRegion) option"
  region_count :: nat
  source_region_at :: "(nat \<Rightarrow> MemoryRegion) option"

definition memory_region_at :: "MemoryMap \<Rightarrow> nat \<Rightarrow> MemoryRegion" where
  "memory_region_at m index =
     (case regions m of
        Some rs \<Rightarrow> rs index
      | None \<Rightarrow>
          (case source_region_at m of
             Some f \<Rightarrow> f index
           | None \<Rightarrow> \<lparr>region_base = 0, region_length = 0, region_kind = Usable\<rparr>))"

text \<open>The regions a loop \<open>for (index = 0; index < region_count; ++index)\<close> visits, in order.\<close>

definition map_regions :: "MemoryMap \<Rightarrow> MemoryRegion list" where
  "map_regions m = map (memory_region_at m) [0 ..< region_count m]"

fun memory_kind_name :: "MemoryKind \<Rightarrow> string" where
  "memory_kind_name Usable = ''usable''"
| "memory_kind_name Reserved = ''reserved''"
| "memory_kind_name AcpiReclaimable = ''acpi-reclaimable''"
| "memory_kind_name AcpiNvs = ''acpi-nvs''"
| "memory_kind_name BadMemory = ''bad-memory''"
| "memory_kind_name BootloaderReclaimable = ''bootloader-reclaimable''"
| "memory_kind_name KernelAndModules = ''kernel-and-modules''"
| "memory_kind_name Framebuffer = ''framebuffer''"
| "memory_kind_name ReservedMapped = ''reserved-mapped''"
| "memory_kind_name Unknown = ''unknown''"

definition is_initially_allocatable :: "MemoryKind \<Rightarrow> bool" where
  "is_initially_allocatable kind \<longleftrightarrow> kind = Usable \<or> kind = BootloaderReclaimable"

text \<open>A region is skipped when it is empty or wraps around the end of the address space.\<close>

definition region_invalid :: "MemoryRegion \<Rightarrow> bool" where
  "region_invalid r \<longleftrightarrow> region_length r = 0 \<or> region_base r + region_length r < region_base r"

section \<open>Summary\<close>

record MemorySummary =
  total_bytes :: u64
  usable_bytes :: u64
  reclaimable_bytes :: u64
  reserved_bytes :: u64
  framebuffer_bytes :: u64
  invalid_regions :: u64

definition empty_summary :: MemorySummary where
  "empty_summary = \<lparr>total_bytes = 0, usable_bytes = 0, reclaimable_bytes = 0, reserved_bytes = 0,
     framebuffer_bytes = 0, invalid_regions = 0\<rparr>"

definition summarize_region :: "MemoryRegion \<Rightarrow> MemorySummary \<Rightarrow> MemorySummary" where
  "summarize_region r s =
     (if region_invalid r then s\<lparr>invalid_regions := invalid_regions s + 1\<rparr>
      else
        (let s = s\<lparr>total_bytes := total_bytes s + region_length r\<rparr> in
         case region_kind r of
           Usable \<Rightarrow> s\<lparr>usable_bytes := usable_bytes s + region_length r\<rparr>
         | BootloaderReclaimable \<Rightarrow> s\<lparr>reclaimable_bytes := reclaimable_bytes s + region_length r\<rparr>
         | Framebuffer \<Rightarrow> s\<lparr>framebuffer_bytes := framebuffer_bytes s + region_length r\<rparr>
         | _ \<Rightarrow> s\<lparr>reserved_bytes := reserved_bytes s + region_length r\<rparr>))"

definition summarize :: "MemoryMap \<Rightarrow> MemorySummary" where
  "summarize m = fold summarize_region (map_regions m) empty_summary"

text \<open>The bytes of the valid regions whose kind satisfies \<open>P\<close>.\<close>

definition region_bytes :: "(MemoryKind \<Rightarrow> bool) \<Rightarrow> MemoryRegion list \<Rightarrow> u64" where
  "region_bytes P rs =
     sum_list (map region_length (filter (\<lambda>r. \<not> region_invalid r \<and> P (region_kind r)) rs))"

lemma region_bytes_simps [simp]:
  "region_bytes P [] = 0"
  "region_bytes P (r # rs) =
     (if \<not> region_invalid r \<and> P (region_kind r) then region_length r else 0) + region_bytes P rs"
  by (simp_all add: region_bytes_def)

lemma summarize_region_fields:
  "total_bytes (summarize_region r s) = total_bytes s + region_bytes (\<lambda>_. True) [r]"
  "usable_bytes (summarize_region r s) = usable_bytes s + region_bytes (\<lambda>k. k = Usable) [r]"
  "reclaimable_bytes (summarize_region r s) =
     reclaimable_bytes s + region_bytes (\<lambda>k. k = BootloaderReclaimable) [r]"
  "framebuffer_bytes (summarize_region r s) =
     framebuffer_bytes s + region_bytes (\<lambda>k. k = Framebuffer) [r]"
  "invalid_regions (summarize_region r s) = invalid_regions s + (if region_invalid r then 1 else 0)"
  by (simp_all add: summarize_region_def Let_def split: MemoryKind.splits)

lemma summarize_region_partition:
  "total_bytes s = usable_bytes s + reclaimable_bytes s + reserved_bytes s + framebuffer_bytes s
   \<Longrightarrow> total_bytes (summarize_region r s) =
         usable_bytes (summarize_region r s) + reclaimable_bytes (summarize_region r s)
         + reserved_bytes (summarize_region r s) + framebuffer_bytes (summarize_region r s)"
  by (simp add: summarize_region_def Let_def split: MemoryKind.splits)

lemma fold_summarize_partition:
  "total_bytes s = usable_bytes s + reclaimable_bytes s + reserved_bytes s + framebuffer_bytes s
   \<Longrightarrow> total_bytes (fold summarize_region rs s) =
         usable_bytes (fold summarize_region rs s) + reclaimable_bytes (fold summarize_region rs s)
         + reserved_bytes (fold summarize_region rs s) + framebuffer_bytes (fold summarize_region rs s)"
  by (induction rs arbitrary: s) (simp_all only: fold_simps id_apply comp_apply summarize_region_partition)

lemma fold_summarize_fields:
  "total_bytes (fold summarize_region rs s) = total_bytes s + region_bytes (\<lambda>_. True) rs"
  "usable_bytes (fold summarize_region rs s) = usable_bytes s + region_bytes (\<lambda>k. k = Usable) rs"
  "reclaimable_bytes (fold summarize_region rs s) =
     reclaimable_bytes s + region_bytes (\<lambda>k. k = BootloaderReclaimable) rs"
  "framebuffer_bytes (fold summarize_region rs s) =
     framebuffer_bytes s + region_bytes (\<lambda>k. k = Framebuffer) rs"
  "invalid_regions (fold summarize_region rs s) =
     invalid_regions s + of_nat (length (filter region_invalid rs))"
  by (induction rs arbitrary: s) (simp_all add: summarize_region_fields)

text \<open>The summary of a memory map: every field is the number of bytes of the valid regions of its
  kind (modulo the 64-bit counter), the four classes add up to the total, and every other region is
  counted as invalid.\<close>

theorem summarize_correct:
  "total_bytes (summarize m) = region_bytes (\<lambda>_. True) (map_regions m)
   \<and> usable_bytes (summarize m) = region_bytes (\<lambda>k. k = Usable) (map_regions m)
   \<and> reclaimable_bytes (summarize m) = region_bytes (\<lambda>k. k = BootloaderReclaimable) (map_regions m)
   \<and> framebuffer_bytes (summarize m) = region_bytes (\<lambda>k. k = Framebuffer) (map_regions m)
   \<and> invalid_regions (summarize m) = of_nat (length (filter region_invalid (map_regions m)))
   \<and> total_bytes (summarize m) = usable_bytes (summarize m) + reclaimable_bytes (summarize m)
         + reserved_bytes (summarize m) + framebuffer_bytes (summarize m)"
proof -
  have "total_bytes (summarize m) = usable_bytes (summarize m) + reclaimable_bytes (summarize m)
      + reserved_bytes (summarize m) + framebuffer_bytes (summarize m)"
    unfolding summarize_def by (rule fold_summarize_partition) (simp add: empty_summary_def)
  then show ?thesis by (simp add: summarize_def fold_summarize_fields) (simp add: empty_summary_def)
qed

section \<open>Higher-half direct map\<close>

text \<open>\<open>active_hhdm_offset\<close> is the only state of \<open>address.cpp\<close>; pointers are 64-bit addresses.\<close>

definition physical_to_virtual :: "u64 \<Rightarrow> u64 \<Rightarrow> u64" where
  "physical_to_virtual active_hhdm_offset physical_address = physical_address + active_hhdm_offset"

definition virtual_to_physical :: "u64 \<Rightarrow> u64 \<Rightarrow> u64" where
  "virtual_to_physical active_hhdm_offset virtual_address = virtual_address - active_hhdm_offset"

lemma virtual_to_physical_inverse [simp]:
  "virtual_to_physical h (physical_to_virtual h p) = p"
  "physical_to_virtual h (virtual_to_physical h v) = v"
  by (simp_all add: virtual_to_physical_def physical_to_virtual_def)

end
