(* ===== verification/Tori_Pmm.thy ===== *)
theory Tori_Pmm
  imports Tori_MemoryMap
begin

text \<open>
  The physical page allocator, \<open>kernel/src/memory/pmm.cpp\<close>: a bitmap of used pages, a 16-bit
  reference count per page, statistics and a next-fit search hint.  The file-level variables are
  the fields of the record \<open>pmm\<close>; arrays are functions of the index.  Every operation runs under
  \<open>pmm_lock\<close> from its first read of the state to its last write, so an operation is one step.
\<close>

section \<open>State\<close>

definition page_size :: u64 where "page_size = 4096"
definition invalid_physical_address :: u64 where "invalid_physical_address = 0xFFFFFFFFFFFFFFFF"
definition max_managed_pages :: u64 where "max_managed_pages = 1024 * 1024"
definition bitmap_words :: u64 where "bitmap_words = max_managed_pages div 64"

record pmm_stats =
  managed_pages :: u64
  free_page_count :: u64
  used_page_count :: u64
  reclaimed_bootloader_pages :: u64
  skipped_pages :: u64

record pmm =
  page_bitmap :: "nat \<Rightarrow> u64"
  page_refcounts :: "nat \<Rightarrow> u16"
  allocator_stats :: pmm_stats
  next_search_page :: u64

section \<open>Operations\<close>

definition align_up :: "u64 \<Rightarrow> u64 \<Rightarrow> u64" where
  "align_up value alignment = (value + alignment - 1) AND NOT (alignment - 1)"

definition align_down :: "u64 \<Rightarrow> u64 \<Rightarrow> u64" where
  "align_down value alignment = value AND NOT (alignment - 1)"

definition page_index_valid :: "u64 \<Rightarrow> bool" where
  "page_index_valid page_index \<longleftrightarrow> page_index < max_managed_pages"

definition is_page_used :: "pmm \<Rightarrow> u64 \<Rightarrow> bool" where
  "is_page_used s page_index \<longleftrightarrow>
     page_bitmap s (unat (page_index div 64)) AND push_bit (unat (page_index mod 64)) 1 \<noteq> 0"

definition page_range_free :: "pmm \<Rightarrow> u64 \<Rightarrow> u64 \<Rightarrow> bool" where
  "page_range_free s start_page page_count \<longleftrightarrow>
     (if page_count = 0 \<or> start_page \<ge> max_managed_pages \<or> start_page + page_count < start_page
      then False
      else if start_page + page_count > max_managed_pages then False
      else list_all (\<lambda>page. \<not> is_page_used s page) (u64_range start_page (start_page + page_count)))"

definition mark_page_used :: "u64 \<Rightarrow> pmm \<Rightarrow> pmm" where
  "mark_page_used page_index s =
     (if \<not> page_index_valid page_index \<or> is_page_used s page_index then s
      else s\<lparr>page_bitmap := (page_bitmap s)(unat (page_index div 64) :=
                 page_bitmap s (unat (page_index div 64)) OR push_bit (unat (page_index mod 64)) 1),
             page_refcounts := (page_refcounts s)(unat page_index := 1),
             allocator_stats := (allocator_stats s)
               \<lparr>free_page_count := free_page_count (allocator_stats s) - 1,
                used_page_count := used_page_count (allocator_stats s) + 1\<rparr>\<rparr>)"

definition mark_page_free :: "u64 \<Rightarrow> pmm \<Rightarrow> pmm" where
  "mark_page_free page_index s =
     (if \<not> page_index_valid page_index \<or> \<not> is_page_used s page_index then s
      else s\<lparr>page_bitmap := (page_bitmap s)(unat (page_index div 64) :=
                 page_bitmap s (unat (page_index div 64))
                 AND NOT (push_bit (unat (page_index mod 64)) 1)),
             page_refcounts := (page_refcounts s)(unat page_index := 0),
             allocator_stats := (allocator_stats s)
               \<lparr>free_page_count := free_page_count (allocator_stats s) + 1,
                used_page_count := used_page_count (allocator_stats s) - 1\<rparr>\<rparr>)"

definition reserve_all_pages :: "pmm \<Rightarrow> pmm" where
  "reserve_all_pages s =
     s\<lparr>page_bitmap := (\<lambda>index. if index < unat bitmap_words then - 1 else page_bitmap s index),
       page_refcounts := (\<lambda>index. if index < unat max_managed_pages then 0
                                  else page_refcounts s index),
       allocator_stats := \<lparr>managed_pages = max_managed_pages, free_page_count = 0,
         used_page_count = max_managed_pages, reclaimed_bootloader_pages = 0, skipped_pages = 0\<rparr>,
       next_search_page := 0\<rparr>"

definition add_skipped :: "u64 \<Rightarrow> pmm \<Rightarrow> pmm" where
  "add_skipped n s = s\<lparr>allocator_stats := (allocator_stats s)
     \<lparr>skipped_pages := skipped_pages (allocator_stats s) + n\<rparr>\<rparr>"

definition free_range_page :: "bool \<Rightarrow> u64 \<Rightarrow> pmm \<Rightarrow> pmm" where
  "free_range_page bootloader_reclaimable page s =
     (if is_page_used s page then
        (let s = mark_page_free page s in
         if bootloader_reclaimable
         then s\<lparr>allocator_stats := (allocator_stats s)
                \<lparr>reclaimed_bootloader_pages := reclaimed_bootloader_pages (allocator_stats s) + 1\<rparr>\<rparr>
         else s)
      else s)"

definition free_range :: "u64 \<Rightarrow> u64 \<Rightarrow> bool \<Rightarrow> pmm \<Rightarrow> pmm" where
  "free_range base len bootloader_reclaimable s =
     (if len = 0 \<or> base + len < base then s
      else
        (let start = align_up base page_size;
             end' = align_down (base + len) page_size in
         if end' \<le> start then s
         else
           (let start_page = start div page_size;
                end_page = end' div page_size in
            if start_page \<ge> max_managed_pages then add_skipped (end_page - start_page) s
            else
              (let (s, end_page) =
                 (if end_page > max_managed_pages
                  then (add_skipped (end_page - max_managed_pages) s, max_managed_pages)
                  else (s, end_page)) in
               fold (free_range_page bootloader_reclaimable) (u64_range start_page end_page) s))))"

definition reserve_range :: "u64 \<Rightarrow> u64 \<Rightarrow> pmm \<Rightarrow> pmm" where
  "reserve_range base len s =
     (if len = 0 \<or> base + len < base then s
      else
        (let start = align_down base page_size;
             end' = align_up (base + len) page_size;
             start_page = start div page_size;
             end_page = end' div page_size in
         if start_page \<ge> max_managed_pages then s
         else
           (let end_page = (if end_page > max_managed_pages then max_managed_pages else end_page) in
            fold mark_page_used (u64_range start_page end_page) s)))"

text \<open>
  The kernel image bounds are the linker symbols \<open>__kernel_virtual_start\<close> and
  \<open>__kernel_virtual_end\<close>, parameters of the model.
\<close>

definition kernel_physical_size :: "u64 \<Rightarrow> u64 \<Rightarrow> u64" where
  "kernel_physical_size start end' = (if end' > start then end' - start else 0)"

definition init_region :: "MemoryRegion \<Rightarrow> pmm \<Rightarrow> pmm" where
  "init_region region s =
     (if \<not> is_initially_allocatable (region_kind region) then s
      else free_range (region_base region) (region_length region)
             (region_kind region = BootloaderReclaimable) s)"

definition pmm_init :: "u64 \<Rightarrow> u64 \<Rightarrow> u64 \<Rightarrow> MemoryMap \<Rightarrow> pmm \<Rightarrow> pmm" where
  "pmm_init kernel_start kernel_end kernel_physical_base memory_map s =
     (let s = reserve_all_pages s;
          s = fold init_region (map_regions memory_map) s;
          s = reserve_range 0 page_size s in
      reserve_range kernel_physical_base (kernel_physical_size kernel_start kernel_end) s)"

text \<open>The search loop of \<open>alloc_pages\<close>, from \<open>offset\<close> on: the page it stops at.\<close>

function alloc_search :: "pmm \<Rightarrow> u64 \<Rightarrow> u64 \<Rightarrow> u64 option" where
  "alloc_search s page_count offset =
     (if offset < max_managed_pages then
        (let page = (next_search_page s + offset) mod max_managed_pages in
         if page_range_free s page page_count then Some page
         else alloc_search s page_count (offset + 1))
      else None)"
  by pat_completeness auto
termination
proof (relation "measure (\<lambda>(s, page_count, offset). unat max_managed_pages - unat offset)")
  fix s :: pmm and page_count offset x :: u64
  assume "offset < max_managed_pages"
  then have "unat (offset + 1) = unat offset + 1 \<and> unat offset < unat max_managed_pages"
    using unat_plus_one_less [of offset] by (simp add: word_less_nat_alt)
  then show "((s, page_count, offset + 1), s, page_count, offset)
      \<in> measure (\<lambda>(s, page_count, offset). unat max_managed_pages - unat offset)"
    by (simp add: diff_less_mono2)
qed simp

declare alloc_search.simps [simp del]

definition alloc_pages :: "u64 \<Rightarrow> pmm \<Rightarrow> u64 \<times> pmm" where
  "alloc_pages page_count s =
     (if page_count = 0 \<or> page_count > max_managed_pages then (invalid_physical_address, s)
      else
        (case alloc_search s page_count 0 of
           None \<Rightarrow> (invalid_physical_address, s)
         | Some page \<Rightarrow>
             (let s = fold (\<lambda>index. mark_page_used (page + index)) (u64_range 0 page_count) s in
              (page * page_size,
               s\<lparr>next_search_page := (page + page_count) mod max_managed_pages\<rparr>))))"

definition alloc_page :: "pmm \<Rightarrow> u64 \<times> pmm" where
  "alloc_page s = alloc_pages 1 s"

definition retain_page :: "u64 \<Rightarrow> pmm \<Rightarrow> pmm" where
  "retain_page physical_address s =
     (if physical_address mod page_size \<noteq> 0 then s
      else
        (let page = physical_address div page_size in
         if \<not> page_index_valid page \<or> \<not> is_page_used s page then s
         else if page_refcounts s (unat page) \<noteq> 0xFFFF
         then s\<lparr>page_refcounts := (page_refcounts s)(unat page := page_refcounts s (unat page) + 1)\<rparr>
         else s))"

definition page_ref_count :: "u64 \<Rightarrow> pmm \<Rightarrow> u64" where
  "page_ref_count physical_address s =
     (if physical_address mod page_size \<noteq> 0 then 0
      else
        (let page = physical_address div page_size in
         if \<not> page_index_valid page \<or> \<not> is_page_used s page then 0
         else ucast (page_refcounts s (unat page))))"

definition release_page :: "u64 \<Rightarrow> pmm \<Rightarrow> pmm" where
  "release_page index s =
     (if \<not> is_page_used s index then s
      else if page_refcounts s (unat index) > 1
      then s\<lparr>page_refcounts := (page_refcounts s)(unat index := page_refcounts s (unat index) - 1)\<rparr>
      else mark_page_free index s)"

definition free_pages :: "u64 \<Rightarrow> u64 \<Rightarrow> pmm \<Rightarrow> pmm" where
  "free_pages physical_address page_count s =
     (if physical_address mod page_size \<noteq> 0 then s
      else if page_count = 0 then s
      else
        (let page = physical_address div page_size in
         if \<not> page_index_valid page \<or> page + page_count < page then s
         else
           (let end_page = page + page_count;
                end_page = (if end_page > max_managed_pages then max_managed_pages else end_page);
                s = fold release_page (u64_range page end_page) s in
            if page < next_search_page s then s\<lparr>next_search_page := page\<rparr> else s)))"

definition free_page :: "u64 \<Rightarrow> pmm \<Rightarrow> pmm" where
  "free_page physical_address s = free_pages physical_address 1 s"

definition owns_page :: "u64 \<Rightarrow> bool" where
  "owns_page physical_address \<longleftrightarrow>
     (if physical_address mod page_size \<noteq> 0 then False
      else page_index_valid (physical_address div page_size))"

definition free_acpi_region :: "MemoryRegion \<Rightarrow> pmm \<Rightarrow> pmm" where
  "free_acpi_region region s =
     (if region_kind region \<noteq> AcpiReclaimable then s
      else if region_length region = 0
           \<or> region_base region + region_length region < region_base region then s
      else
        (let start = align_up (region_base region) page_size;
             end' = align_down (region_base region + region_length region) page_size in
         if end' \<le> start then s
         else
           (let start_page = start div page_size;
                end_page = end' div page_size in
            if start_page \<ge> max_managed_pages then s
            else
              (let end_page = (if end_page > max_managed_pages then max_managed_pages
                               else end_page) in
               fold mark_page_free (u64_range start_page end_page) s))))"

definition free_acpi_reclaimable :: "MemoryMap \<Rightarrow> pmm \<Rightarrow> pmm" where
  "free_acpi_reclaimable memory_map s = fold free_acpi_region (map_regions memory_map) s"

section \<open>Pages as a set: what each primitive does to one page\<close>

lemma is_page_used_bit:
  "is_page_used s p \<longleftrightarrow> bit (page_bitmap s (unat (p div 64))) (unat (p mod 64))"
  by (simp add: is_page_used_def and_exp_iff)

lemma unat_mod_64_less [simp]: "unat (p mod 64 :: u64) < 64"
  by (simp add: unat_mod)

lemma is_page_used_mark_page_used [simp]:
  "page_index_valid p \<Longrightarrow> is_page_used (mark_page_used p s) q \<longleftrightarrow> q = p \<or> is_page_used s q"
  by (auto simp: mark_page_used_def is_page_used_bit bit_or_exp dest: div_mod_64_inj)

lemma is_page_used_mark_page_free [simp]:
  "page_index_valid p \<Longrightarrow> is_page_used (mark_page_free p s) q \<longleftrightarrow> q \<noteq> p \<and> is_page_used s q"
  by (auto simp: mark_page_free_def is_page_used_bit bit_and_not_exp dest: div_mod_64_inj)

lemma page_refcounts_mark_page_used:
  "page_refcounts (mark_page_used p s) i =
     (if page_index_valid p \<and> \<not> is_page_used s p \<and> i = unat p then 1 else page_refcounts s i)"
  by (simp add: mark_page_used_def)

lemma page_refcounts_mark_page_free:
  "page_refcounts (mark_page_free p s) i =
     (if page_index_valid p \<and> is_page_used s p \<and> i = unat p then 0 else page_refcounts s i)"
  by (simp add: mark_page_free_def)

lemma next_search_page_mark [simp]:
  "next_search_page (mark_page_used p s) = next_search_page s"
  "next_search_page (mark_page_free p s) = next_search_page s"
  by (simp_all add: mark_page_used_def mark_page_free_def)

section \<open>Invariant\<close>

definition free_set :: "pmm \<Rightarrow> u64 set" where
  "free_set s = {p. page_index_valid p \<and> \<not> is_page_used s p}"

definition pmm_inv :: "pmm \<Rightarrow> bool" where
  "pmm_inv s \<longleftrightarrow>
     next_search_page s < max_managed_pages
     \<and> managed_pages (allocator_stats s) = max_managed_pages
     \<and> unat (free_page_count (allocator_stats s)) = card (free_set s)
     \<and> unat (used_page_count (allocator_stats s)) + card (free_set s) = unat max_managed_pages
     \<and> (\<forall>p \<in> free_set s. page_refcounts s (unat p) = 0)"

lemma finite_free_set [simp]: "finite (free_set s)"
  by simp

lemma card_free_set_le: "card (free_set s) \<le> unat max_managed_pages"
proof -
  have "card (free_set s) \<le> card {..< max_managed_pages}"
    by (rule card_mono) (auto simp: free_set_def page_index_valid_def)
  then show ?thesis by (simp add: card_word_lessThan)
qed

lemma free_set_mark_page_used:
  "page_index_valid p \<Longrightarrow> free_set (mark_page_used p s) = free_set s - {p}"
  by (auto simp: free_set_def)

lemma free_set_mark_page_free:
  "page_index_valid p \<Longrightarrow> free_set (mark_page_free p s) = insert p (free_set s)"
  by (auto simp: free_set_def)

lemma mark_page_used_inv: "pmm_inv s \<Longrightarrow> pmm_inv (mark_page_used p s)"
proof (cases "page_index_valid p \<and> \<not> is_page_used s p")
  case True
  assume inv: "pmm_inv s"
  from True have p: "p \<in> free_set s" by (simp add: free_set_def)
  then have "card (free_set s) > 0" by (auto simp: card_gt_0_iff)
  moreover from this have "free_page_count (allocator_stats s) \<noteq> 0"
    using inv by (auto simp: pmm_inv_def)
  moreover have "card (free_set (mark_page_used p s)) = card (free_set s) - 1"
    using True p by (simp add: free_set_mark_page_used)
  moreover have "free_page_count (allocator_stats (mark_page_used p s))
      = free_page_count (allocator_stats s) - 1"
    "used_page_count (allocator_stats (mark_page_used p s))
      = used_page_count (allocator_stats s) + 1"
    "managed_pages (allocator_stats (mark_page_used p s)) = managed_pages (allocator_stats s)"
    using True by (simp_all add: mark_page_used_def)
  moreover have "\<forall>q \<in> free_set (mark_page_used p s). page_refcounts (mark_page_used p s) (unat q) = 0"
    using True inv
    by (auto simp: free_set_mark_page_used pmm_inv_def page_refcounts_mark_page_used)
  ultimately show ?thesis
    using inv unat_minus_one [of "free_page_count (allocator_stats s)"]
      unat_plus_one_less [of "used_page_count (allocator_stats s)" "max_managed_pages"]
    by (auto simp: pmm_inv_def word_less_nat_alt)
qed (auto simp: mark_page_used_def)

lemma mark_page_free_inv: "pmm_inv s \<Longrightarrow> pmm_inv (mark_page_free p s)"
proof (cases "page_index_valid p \<and> is_page_used s p")
  case True
  assume inv: "pmm_inv s"
  from True have p: "p \<notin> free_set s" by (simp add: free_set_def)
  then have card: "card (free_set (mark_page_free p s)) = Suc (card (free_set s))"
    using True by (simp add: free_set_mark_page_free)
  then have "card (free_set s) < unat max_managed_pages"
    using card_free_set_le [of "mark_page_free p s"] by simp
  moreover from this have "used_page_count (allocator_stats s) \<noteq> 0"
    using inv by (auto simp: pmm_inv_def)
  moreover have "free_page_count (allocator_stats (mark_page_free p s))
      = free_page_count (allocator_stats s) + 1"
    "used_page_count (allocator_stats (mark_page_free p s))
      = used_page_count (allocator_stats s) - 1"
    "managed_pages (allocator_stats (mark_page_free p s)) = managed_pages (allocator_stats s)"
    using True by (simp_all add: mark_page_free_def)
  moreover have "\<forall>q \<in> free_set (mark_page_free p s). page_refcounts (mark_page_free p s) (unat q) = 0"
    using True inv
    by (auto simp: free_set_mark_page_free pmm_inv_def page_refcounts_mark_page_free)
  ultimately show ?thesis
    using inv card unat_minus_one [of "used_page_count (allocator_stats s)"]
      unat_plus_one_less [of "free_page_count (allocator_stats s)" "max_managed_pages"]
    by (auto simp: pmm_inv_def word_less_nat_alt)
qed (auto simp: mark_page_free_def)

section \<open>Loops over pages\<close>

text \<open>What the allocator knows of one page: whether it is used, and its reference count.\<close>

definition page_view :: "pmm \<Rightarrow> u64 \<Rightarrow> bool \<times> u16" where
  "page_view s q = (is_page_used s q, page_refcounts s (unat q))"

lemma page_view_mark_page_used:
  "page_index_valid p \<Longrightarrow> page_view (mark_page_used p s) q =
     (if q = p \<and> \<not> is_page_used s p then (True, 1) else page_view s q)"
  by (auto simp: page_view_def page_refcounts_mark_page_used)

lemma page_view_mark_page_free:
  "page_index_valid p \<Longrightarrow> page_view (mark_page_free p s) q =
     (if q = p \<and> is_page_used s p then (False, 0) else page_view s q)"
  by (auto simp: page_view_def page_refcounts_mark_page_free)

lemma page_view_refcount_upd:
  "page_view (s\<lparr>page_refcounts := (page_refcounts s)(unat p := c)\<rparr>) q =
     (if q = p then (is_page_used s p, c) else page_view s q)"
  by (auto simp: page_view_def is_page_used_def)

lemma page_view_release_page:
  "page_index_valid p \<Longrightarrow> page_view (release_page p s) q =
     (if q = p \<and> is_page_used s p
      then (if page_refcounts s (unat p) > 1 then (True, page_refcounts s (unat p) - 1)
            else (False, 0))
      else page_view s q)"
  by (simp add: release_page_def page_view_refcount_upd page_view_mark_page_free)

lemma page_view_free_range_page:
  "page_view (free_range_page b p s) q = page_view (mark_page_free p s) q"
proof -
  have "page_view (s\<lparr>allocator_stats := x\<rparr>) q = page_view s q" for s x
    by (simp add: page_view_def is_page_used_def)
  then show ?thesis by (simp add: free_range_page_def Let_def) (simp add: mark_page_free_def)
qed

lemma page_view_fold_range:
  assumes view: "\<And>p s q. page_index_valid p \<Longrightarrow> page_view (f p s) q =
      (if q = p then h (page_view s p) else page_view s q)"
    and "b \<le> max_managed_pages"
  shows "page_view (fold f (u64_range a b) s) q =
    (if a \<le> q \<and> q < b then h (page_view s q) else page_view s q)"
proof -
  have valid: "x \<in> set (u64_range a b) \<Longrightarrow> page_index_valid x" for x
    using assms(2) by (auto simp: page_index_valid_def)
  have "page_view (fold f (u64_range a b) s) q =
    (if q \<in> set (u64_range a b) then page_view (f q s) q else page_view s q)"
    by (rule fold_pointwise) (simp_all only: distinct_u64_range valid view if_True if_False)
  then show ?thesis using valid [of q] by (simp add: view)
qed

definition view_used :: "bool \<times> u16 \<Rightarrow> bool \<times> u16" where
  "view_used v = (if fst v then v else (True, 1))"

definition view_free :: "bool \<times> u16 \<Rightarrow> bool \<times> u16" where
  "view_free v = (if fst v then (False, 0) else v)"

definition view_release :: "bool \<times> u16 \<Rightarrow> bool \<times> u16" where
  "view_release v = (if fst v then (if snd v > 1 then (True, snd v - 1) else (False, 0)) else v)"

lemma page_view_loops:
  assumes "b \<le> max_managed_pages"
  shows "page_view (fold mark_page_used (u64_range a b) s) q =
      (if a \<le> q \<and> q < b then view_used (page_view s q) else page_view s q)"
    and "page_view (fold mark_page_free (u64_range a b) s) q =
      (if a \<le> q \<and> q < b then view_free (page_view s q) else page_view s q)"
    and "page_view (fold (free_range_page r) (u64_range a b) s) q =
      (if a \<le> q \<and> q < b then view_free (page_view s q) else page_view s q)"
    and "page_view (fold release_page (u64_range a b) s) q =
      (if a \<le> q \<and> q < b then view_release (page_view s q) else page_view s q)"
  by (rule page_view_fold_range [OF _ assms];
      simp add: page_view_mark_page_used page_view_mark_page_free page_view_free_range_page
        page_view_release_page view_used_def view_free_def view_release_def;
      simp add: page_view_def)+

lemma free_set_view: "q \<in> free_set s \<longleftrightarrow> page_index_valid q \<and> \<not> fst (page_view s q)"
  by (simp add: free_set_def page_view_def)

section \<open>Every operation keeps the invariant\<close>

lemma pmm_inv_next_search_page:
  "pmm_inv s \<Longrightarrow> page < max_managed_pages \<Longrightarrow> pmm_inv (s\<lparr>next_search_page := page\<rparr>)"
  by (simp add: pmm_inv_def free_set_def is_page_used_def)

lemma pmm_inv_stats:
  "pmm_inv s \<Longrightarrow> pmm_inv (s\<lparr>allocator_stats := (allocator_stats s)\<lparr>skipped_pages := n\<rparr>\<rparr>)"
  "pmm_inv s \<Longrightarrow> pmm_inv (s\<lparr>allocator_stats := (allocator_stats s)\<lparr>reclaimed_bootloader_pages := n\<rparr>\<rparr>)"
  by (simp_all add: pmm_inv_def free_set_def is_page_used_def)

lemma release_page_inv: "pmm_inv s \<Longrightarrow> pmm_inv (release_page p s)"
proof -
  assume inv: "pmm_inv s"
  have "free_set (s\<lparr>page_refcounts := (page_refcounts s)(unat p := c)\<rparr>) = free_set s" for c
    by (simp add: free_set_def is_page_used_def)
  then show ?thesis using inv
    by (auto simp: release_page_def mark_page_free_inv) (auto simp: pmm_inv_def free_set_def)
qed

lemma retain_page_inv: "pmm_inv s \<Longrightarrow> pmm_inv (retain_page a s)"
proof -
  assume inv: "pmm_inv s"
  have "free_set (s\<lparr>page_refcounts := (page_refcounts s)(i := c)\<rparr>) = free_set s" for i c
    by (simp add: free_set_def is_page_used_def)
  then show ?thesis using inv
    by (auto simp: retain_page_def Let_def pmm_inv_def free_set_def)
qed

lemma fold_page_inv:
  "(\<And>p s. pmm_inv s \<Longrightarrow> pmm_inv (f p s)) \<Longrightarrow> pmm_inv s \<Longrightarrow> pmm_inv (fold f xs s)"
  by (rule fold_invariant)

lemma free_range_inv: "pmm_inv s \<Longrightarrow> pmm_inv (free_range base len r s)"
  by (auto simp: free_range_def Let_def add_skipped_def free_range_page_def
      intro!: fold_page_inv pmm_inv_stats mark_page_free_inv)

lemma reserve_range_inv: "pmm_inv s \<Longrightarrow> pmm_inv (reserve_range base len s)"
  by (auto simp: reserve_range_def Let_def intro!: fold_page_inv mark_page_used_inv)

lemma free_acpi_reclaimable_inv: "pmm_inv s \<Longrightarrow> pmm_inv (free_acpi_reclaimable m s)"
  by (auto simp: free_acpi_reclaimable_def free_acpi_region_def Let_def
      intro!: fold_page_inv mark_page_free_inv)

lemma free_pages_inv: "pmm_inv s \<Longrightarrow> pmm_inv (free_pages a n s)"
  by (auto simp: free_pages_def Let_def page_index_valid_def
      intro!: fold_page_inv release_page_inv pmm_inv_next_search_page)

lemma alloc_pages_inv: "pmm_inv s \<Longrightarrow> alloc_pages n s = (a, s') \<Longrightarrow> pmm_inv s'"
  by (auto simp: alloc_pages_def Let_def max_managed_pages_def split: if_splits option.splits
      intro!: fold_page_inv mark_page_used_inv pmm_inv_next_search_page [unfolded max_managed_pages_def]
        word_mod_less_divisor)

lemma is_page_used_reserve_all_pages:
  "page_index_valid p \<Longrightarrow> is_page_used (reserve_all_pages s) p"
proof -
  assume "page_index_valid p"
  then have "unat (p div 64) < unat bitmap_words"
    by (simp add: page_index_valid_def bitmap_words_def max_managed_pages_def word_less_nat_alt
        unat_div)
  then show ?thesis by (simp add: is_page_used_bit reserve_all_pages_def)
qed

lemma reserve_all_pages_inv: "pmm_inv (reserve_all_pages s)"
proof -
  have "free_set (reserve_all_pages s) = {}"
    by (auto simp: free_set_def is_page_used_reserve_all_pages)
  then show ?thesis by (simp add: pmm_inv_def reserve_all_pages_def max_managed_pages_def)
qed

lemma pmm_init_inv: "pmm_inv (pmm_init ks ke kb m s)"
  by (auto simp: pmm_init_def Let_def init_region_def
      intro!: reserve_range_inv fold_invariant [of pmm_inv] free_range_inv reserve_all_pages_inv)

section \<open>Allocation: a run of free pages, found whenever there is one\<close>

definition run_free :: "pmm \<Rightarrow> u64 \<Rightarrow> u64 \<Rightarrow> bool" where
  "run_free s p n \<longleftrightarrow>
     n \<noteq> 0 \<and> unat p + unat n \<le> unat max_managed_pages \<and> {p ..< p + n} \<subseteq> free_set s"

lemma unat_max_managed_pages [simp]: "unat max_managed_pages = 1048576"
  by (simp add: max_managed_pages_def)

lemma unat_add_below:
  "unat p + unat n \<le> unat max_managed_pages \<Longrightarrow> unat (p + n :: u64) = unat p + unat n"
  by (rule unat_add_no_wrap) simp

lemma run_free_page: "run_free s p n \<Longrightarrow> p < max_managed_pages"
proof -
  assume run: "run_free s p n"
  then have "0 < unat n" by (simp add: run_free_def unat_gt_0)
  with run show ?thesis by (simp add: run_free_def word_less_nat_alt)
qed

lemma page_range_free_iff: "page_range_free s p n \<longleftrightarrow> run_free s p n"
proof (cases "n \<noteq> 0 \<and> p < max_managed_pages \<and> \<not> p + n < p \<and> p + n \<le> max_managed_pages")
  case True
  then have "unat (p + n) = unat p + unat n"
    by (metis linorder_not_less unat_plus_simple word_le_nat_alt)
  then show ?thesis using True
    by (auto simp: page_range_free_def run_free_def list_all_iff free_set_def page_index_valid_def
        word_le_nat_alt word_less_nat_alt)
next
  case False
  have "\<not> run_free s p n"
  proof
    assume run: "run_free s p n"
    then have "unat (p + n) = unat p + unat n" by (simp add: run_free_def unat_add_below)
    moreover have "0 < unat n" using run by (simp add: run_free_def unat_gt_0)
    ultimately show False using False run
      by (auto simp: run_free_def word_le_nat_alt word_less_nat_alt)
  qed
  then show ?thesis using False by (auto simp: page_range_free_def)
qed

lemma alloc_search_Some:
  "alloc_search s n off = Some p \<Longrightarrow> run_free s p n"
proof (induction s n off rule: alloc_search.induct)
  case (1 s n off)
  let ?page = "(next_search_page s + off) mod max_managed_pages"
  show ?case
  proof (cases "off < max_managed_pages \<and> \<not> page_range_free s ?page n")
    case True
    with "1.prems" have "alloc_search s n (off + 1) = Some p"
      by (subst (asm) alloc_search.simps) (auto simp: Let_def)
    with "1.IH" True show ?thesis by blast
  next
    case False
    with "1.prems" show ?thesis
      by (subst (asm) alloc_search.simps) (auto simp: Let_def page_range_free_iff split: if_splits)
  qed
qed

lemma alloc_search_None:
  "alloc_search s n off = None \<Longrightarrow> off \<le> k \<Longrightarrow> k < max_managed_pages \<Longrightarrow>
   \<not> run_free s ((next_search_page s + k) mod max_managed_pages) n"
proof (induction s n off rule: alloc_search.induct)
  case (1 s n off)
  from "1.prems" have off: "off < max_managed_pages" by simp
  let ?page = "(next_search_page s + off) mod max_managed_pages"
  from "1.prems"(1) off have nf: "\<not> page_range_free s ?page n"
    by (subst (asm) alloc_search.simps) (auto simp: Let_def split: if_splits)
  with "1.prems"(1) off have rest: "alloc_search s n (off + 1) = None"
    by (subst (asm) alloc_search.simps) (auto simp: Let_def)
  show ?case
  proof (cases "k = off")
    case True
    with nf show ?thesis by (simp add: page_range_free_iff)
  next
    case False
    with "1.prems"(2) have "off < k" by simp
    then have "off + 1 \<le> k" using unat_plus_one_less [of off k]
      by (simp add: word_le_nat_alt word_less_nat_alt)
    with "1.IH" [OF off refl nf rest] "1.prems"(3) show ?thesis by simp
  qed
qed

text \<open>The offsets of one lap of the search reach every page.\<close>

lemma lap_reaches:
  assumes "next < max_managed_pages" and "p < max_managed_pages"
  shows "\<exists>k < max_managed_pages. (next + k) mod max_managed_pages = p"
proof -
  let ?k = "(unat p + 1048576 - unat next) mod 1048576"
  have b: "unat next < 1048576" "unat p < 1048576" using assms by (simp_all add: word_less_nat_alt)
  have k: "unat (of_nat ?k :: u64) = ?k" by (rule of_nat_unat_le [of _ max_managed_pages]) simp
  have "?k < 1048576" by simp
  have "unat ((next + of_nat ?k) mod max_managed_pages) = (unat next + ?k) mod 1048576"
  proof -
    have "unat (next + of_nat ?k :: u64) = unat next + ?k"
      using b \<open>?k < 1048576\<close> k by (subst unat_add_no_wrap) simp_all
    then show ?thesis by (simp add: unat_mod)
  qed
  also have "\<dots> = unat p"
    using b by (simp add: mod_add_right_eq)
  finally have "(next + of_nat ?k) mod max_managed_pages = p" by simp
  moreover have "(of_nat ?k :: u64) < max_managed_pages" by (simp add: word_less_nat_alt k)
  ultimately show ?thesis by blast
qed

lemma alloc_search_complete:
  assumes "next_search_page s < max_managed_pages" and "run_free s p n"
  shows "\<exists>q. alloc_search s n 0 = Some q"
proof (rule ccontr)
  assume "\<nexists>q. alloc_search s n 0 = Some q"
  then have none: "alloc_search s n 0 = None" by (cases "alloc_search s n 0") auto
  from assms(2) have "p < max_managed_pages" by (rule run_free_page)
  then obtain k where "k < max_managed_pages" "(next_search_page s + k) mod max_managed_pages = p"
    using lap_reaches assms(1) by blast
  with alloc_search_None [OF none, of k] assms(2) show False by auto
qed

lemma page_view_upd_simps [simp]:
  "page_view (s\<lparr>next_search_page := x\<rparr>) = page_view s"
  "page_view (s\<lparr>allocator_stats := st\<rparr>) = page_view s"
  "page_view (add_skipped n s) = page_view s"
  by (simp_all add: fun_eq_iff page_view_def is_page_used_def add_skipped_def)

lemma unat_page_size [simp]: "unat page_size = 4096"
  by (simp add: page_size_def)

lemma unat_page_address:
  assumes "p < max_managed_pages"
  shows "unat (p * page_size) = unat p * 4096"
proof -
  have "unat p < 1048576" using assms by (simp add: word_less_nat_alt)
  then have "unat p * unat page_size < 2 ^ LENGTH(64)" by simp
  then show ?thesis by (subst unat_mult_lem [THEN iffD1]) simp_all
qed

lemma page_address [simp]:
  assumes "p < max_managed_pages"
  shows "p * page_size div page_size = p" "p * page_size mod page_size = 0"
    "p * page_size \<noteq> invalid_physical_address"
proof -
  have "unat (p * page_size div page_size) = unat p" "unat (p * page_size mod page_size) = 0"
    by (simp_all add: unat_div unat_mod unat_page_address [OF assms])
  then show "p * page_size div page_size = p" "p * page_size mod page_size = 0"
    by (simp_all only: unat_eq_iff unat_eq_zero)
  have "unat (p * page_size) < 1048576 * 4096"
    using assms by (simp add: unat_page_address [OF assms] word_less_nat_alt)
  then show "p * page_size \<noteq> invalid_physical_address"
    by (auto simp: invalid_physical_address_def)
qed

lemma alloc_pages_cases:
  assumes inv: "pmm_inv s" and alloc: "alloc_pages n s = (a, s')"
  obtains (Found) p where "a = p * page_size" "run_free s p n"
      "\<And>q. page_view s' q = (if p \<le> q \<and> q < p + n then (True, 1) else page_view s q)"
  | (Failed) "a = invalid_physical_address" "s' = s" "\<And>p. \<not> run_free s p n"
proof (cases "n = 0 \<or> n > max_managed_pages")
  case True
  then have "\<not> run_free s p n" for p
    by (auto simp: run_free_def word_less_nat_alt)
  with True alloc Failed show ?thesis by (auto simp: alloc_pages_def)
next
  case False
  show ?thesis
  proof (cases "alloc_search s n 0")
    case None
    then have "\<not> run_free s p n" for p
      using alloc_search_complete [of s p n] inv by (auto simp: pmm_inv_def)
    with None False alloc Failed show ?thesis by (auto simp: alloc_pages_def)
  next
    case (Some p)
    then have run: "run_free s p n" by (rule alloc_search_Some)
    then have pn: "unat (p + n) = unat p + unat n" "unat p + unat n \<le> 1048576"
      by (simp_all add: run_free_def unat_add_below)
    have "fold (\<lambda>i. mark_page_used (p + i)) (u64_range 0 n) s
        = fold mark_page_used (map ((+) p) (u64_range 0 n)) s"
      by (simp add: fold_map o_def)
    also have "map ((+) p) (u64_range 0 n) = u64_range p (p + n)"
      by (rule map_plus_u64_range) (use pn(2) in simp)
    finally have eq: "a = p * page_size"
      "s' = (fold mark_page_used (u64_range p (p + n)) s)
         \<lparr>next_search_page := (p + n) mod max_managed_pages\<rparr>"
      using alloc False Some by (auto simp: alloc_pages_def Let_def)
    have "p + n \<le> max_managed_pages" using pn by (simp add: word_le_nat_alt)
    then have "page_view s' q = (if p \<le> q \<and> q < p + n then view_used (page_view s q) else page_view s q)" for q
      by (simp add: eq page_view_loops)
    moreover have "view_used (page_view s q) = (True, 1)" if "p \<le> q" "q < p + n" for q
      using that run by (auto simp: run_free_def view_used_def free_set_view)
    ultimately show ?thesis using Found eq(1) run by simp
  qed
qed

lemma page_view_free_pages:
  assumes "p < max_managed_pages" and "unat p + unat n \<le> unat max_managed_pages"
  shows "page_view (free_pages (p * page_size) n s) q =
    (if p \<le> q \<and> q < p + n then view_release (page_view s q) else page_view s q)"
proof (cases "n = 0")
  case True
  then show ?thesis by (auto simp: free_pages_def)
next
  case False
  have pn: "unat (p + n) = unat p + unat n" using assms(2) by (rule unat_add_below)
  then have "\<not> p + n < p" "\<not> p + n > max_managed_pages"
    using assms(2) by (simp_all add: word_less_nat_alt)
  then show ?thesis using assms(1) False
    by (simp add: free_pages_def Let_def page_index_valid_def page_view_loops)
qed

section \<open>Boot policy: which pages initialisation hands out\<close>

text \<open>A page inside a region, and a page that overlaps it, in unbounded arithmetic.\<close>

definition page_inside :: "u64 \<Rightarrow> u64 \<Rightarrow> u64 \<Rightarrow> bool" where
  "page_inside p base len \<longleftrightarrow>
     unat base \<le> unat p * 4096 \<and> unat p * 4096 + 4096 \<le> unat base + unat len
     \<and> unat base + unat len < 2 ^ 64"

definition page_overlaps :: "u64 \<Rightarrow> u64 \<Rightarrow> u64 \<Rightarrow> bool" where
  "page_overlaps p base len \<longleftrightarrow>
     unat base < unat p * 4096 + 4096 \<and> unat p * 4096 < unat base + unat len \<and> len \<noteq> 0"

lemma and_not_page_mask: "v AND NOT (page_size - 1) = push_bit 12 (drop_bit 12 v)" for v :: u64
proof (rule bit_word_eqI)
  fix n assume "n < LENGTH(64)"
  have "page_size - 1 = mask 12" by (simp add: page_size_def mask_eq_exp_minus_1)
  then show "bit (v AND NOT (page_size - 1)) n = bit (push_bit 12 (drop_bit 12 v)) n"
    using \<open>n < LENGTH(64)\<close> by (auto simp: bit_simps)
qed

lemma unat_align_down: "unat (align_down v page_size) = unat v div 4096 * 4096"
proof -
  have "unat v div 4096 * 4096 \<le> unat v" by simp
  then have "unat v div 4096 * 4096 < 2 ^ 64" using unat_u64_less [of v] by linarith
  moreover have "align_down v page_size = v div 4096 * 4096"
    by (simp add: align_down_def and_not_page_mask push_bit_eq_mult drop_bit_eq_div)
  ultimately show ?thesis by (simp add: unat_word_ariths unat_div)
qed

lemma unat_align_up:
  assumes "unat v + 4095 < 2 ^ 64"
  shows "unat (align_up v page_size) = (unat v + 4095) div 4096 * 4096"
proof -
  have "align_up v page_size = align_down (v + (page_size - 1)) page_size"
    by (simp add: align_up_def align_down_def add_diff_eq)
  moreover have "unat (v + (page_size - 1)) = unat v + 4095"
    using assms by (subst unat_add_no_wrap) (simp_all add: page_size_def)
  ultimately show ?thesis by (simp add: unat_align_down)
qed

lemma page_view_free_range:
  assumes base: "unat base + 4095 < 2 ^ 64" and q: "page_index_valid q"
  shows "page_view (free_range base len r s) q =
    (if page_inside q base len then view_free (page_view s q) else page_view s q)"
proof (cases "len = 0 \<or> base + len < base")
  case True
  then have "\<not> page_inside q base len"
    using unat_add_no_wrap [of base len] by (auto simp: page_inside_def word_less_nat_alt)
  with True show ?thesis by (simp add: free_range_def)
next
  case False
  then have bl: "unat (base + len) = unat base + unat len"
    by (metis linorder_not_less unat_plus_simple)
  then have lt: "unat base + unat len < 2 ^ 64" using unat_u64_less [of "base + len"] by simp
  define st where "st = align_up base page_size div page_size"
  define en where "en = align_down (base + len) page_size div page_size"
  have st: "unat st = (unat base + 4095) div 4096"
    by (simp add: st_def unat_div unat_align_up [OF base])
  have en: "unat en = (unat base + unat len) div 4096"
    by (simp add: en_def unat_div unat_align_down bl)
  have inside: "page_inside q base len \<longleftrightarrow> st \<le> q \<and> q < en"
    using lt by (simp add: page_inside_def word_le_nat_alt word_less_nat_alt st en) linarith
  have cmp: "align_down (base + len) page_size \<le> align_up base page_size \<longleftrightarrow> en \<le> st"
    by (simp add: word_le_nat_alt st en unat_align_down unat_align_up [OF base] bl)
  have qm: "q < max_managed_pages" using q by (simp add: page_index_valid_def)
  have "page_view (free_range base len r s) q =
    (if st \<le> q \<and> q < en then view_free (page_view s q) else page_view s q)"
    using False qm
    by (auto simp: free_range_def Let_def cmp page_view_loops st_def [symmetric] en_def [symmetric])
  then show ?thesis by (simp add: inside)
qed

lemma page_view_reserve_range:
  assumes bound: "unat base + unat len + 4095 < 2 ^ 64" and q: "page_index_valid q"
  shows "page_view (reserve_range base len s) q =
    (if page_overlaps q base len then view_used (page_view s q) else page_view s q)"
proof (cases "len = 0")
  case True
  then show ?thesis by (simp add: reserve_range_def page_overlaps_def)
next
  case False
  have bl: "unat (base + len) = unat base + unat len"
    by (rule unat_add_no_wrap) (use bound in simp)
  then have nw: "\<not> base + len < base" by (simp add: word_less_nat_alt)
  define st where "st = align_down base page_size div page_size"
  define en where "en = align_up (base + len) page_size div page_size"
  have st: "unat st = unat base div 4096" by (simp add: st_def unat_div unat_align_down)
  have en: "unat en = (unat base + unat len + 4095) div 4096"
    using bound by (simp add: en_def unat_div unat_align_up bl)
  have "page_overlaps q base len \<longleftrightarrow> st \<le> q \<and> q < en"
    using False by (simp add: page_overlaps_def word_le_nat_alt word_less_nat_alt st en) linarith
  moreover have "q < max_managed_pages" using q by (simp add: page_index_valid_def)
  ultimately show ?thesis using False nw
    by (auto simp: reserve_range_def Let_def page_view_loops st_def [symmetric] en_def [symmetric])
qed

definition boot_free :: "MemoryRegion list \<Rightarrow> u64 \<Rightarrow> bool" where
  "boot_free rs p \<longleftrightarrow>
     (\<exists>r \<in> set rs. is_initially_allocatable (region_kind r)
                \<and> page_inside p (region_base r) (region_length r))"

lemma fst_view_simps [simp]:
  "fst (view_free v) = False" "fst (view_used v) = True"
  by (auto simp: view_free_def view_used_def)

lemma page_view_init_regions:
  assumes "\<forall>r \<in> set rs. unat (region_base r) + 4095 < 2 ^ 64" and "page_index_valid q"
  shows "fst (page_view (fold init_region rs s) q) \<longleftrightarrow> fst (page_view s q) \<and> \<not> boot_free rs q"
  using assms
proof (induction rs arbitrary: s)
  case Nil
  then show ?case by (simp add: boot_free_def)
next
  case (Cons r rs)
  have "fst (page_view (init_region r s) q) \<longleftrightarrow> fst (page_view s q)
      \<and> \<not> (is_initially_allocatable (region_kind r) \<and> page_inside q (region_base r) (region_length r))"
    using Cons.prems by (simp add: init_region_def page_view_free_range)
  then show ?case using Cons by (auto simp: boot_free_def)
qed

lemma free_set_pmm_init:
  assumes regions: "\<forall>r \<in> set (map_regions m). unat (region_base r) + 4095 < 2 ^ 64"
    and kernel: "unat kb + unat (kernel_physical_size ks ke) + 4095 < 2 ^ 64"
  shows "p \<in> free_set (pmm_init ks ke kb m s) \<longleftrightarrow>
    page_index_valid p \<and> boot_free (map_regions m) p \<and> p \<noteq> 0
    \<and> \<not> page_overlaps p kb (kernel_physical_size ks ke)"
proof (cases "page_index_valid p")
  case True
  have zero: "page_overlaps p 0 page_size \<longleftrightarrow> p = 0"
    by (simp add: page_overlaps_def page_size_def unat_eq_zero)
  have "fst (page_view (reserve_all_pages s) p)"
    using True by (simp add: page_view_def is_page_used_reserve_all_pages)
  moreover have "unat (0 :: u64) + unat page_size + 4095 < 2 ^ 64" by simp
  ultimately show ?thesis
    using True regions kernel
    by (simp add: free_set_view pmm_init_def Let_def page_view_reserve_range
        page_view_init_regions zero)
qed (simp add: free_set_view)

section \<open>The page allocator as an interface\<close>

text \<open>
  What the slice allocator, the heap, the virtual memory manager and the file systems rely on: a
  page handed out was available and is no longer, a failed request changes nothing and means that
  nothing was available, and a page given back once is available again.
\<close>

locale page_provider =
  fixes alloc :: "'s \<Rightarrow> u64 \<times> 's"
    and release :: "u64 \<Rightarrow> 's \<Rightarrow> 's"
    and avail :: "'s \<Rightarrow> u64 set"
    and sole :: "'s \<Rightarrow> u64 set"
    and invar :: "'s \<Rightarrow> bool"
  assumes alloc_invar: "invar s \<Longrightarrow> alloc s = (a, s') \<Longrightarrow> invar s'"
    and release_invar: "invar s \<Longrightarrow> invar (release a s)"
    and alloc_ok: "invar s \<Longrightarrow> alloc s = (a, s') \<Longrightarrow> a \<noteq> invalid_physical_address \<Longrightarrow>
      a \<in> avail s \<and> avail s' = avail s - {a} \<and> sole s' = insert a (sole s)"
    and alloc_fail: "invar s \<Longrightarrow> alloc s = (invalid_physical_address, s') \<Longrightarrow>
      avail s = {} \<and> s' = s"
    and release_sole: "invar s \<Longrightarrow> a \<in> sole s \<Longrightarrow>
      avail (release a s) = insert a (avail s) \<and> sole (release a s) = sole s - {a}"
    and avail_address: "invar s \<Longrightarrow> a \<in> avail s \<union> sole s \<Longrightarrow>
      a mod page_size = 0 \<and> a \<noteq> invalid_physical_address"
    and avail_sole: "invar s \<Longrightarrow> avail s \<inter> sole s = {}"
begin

lemma alloc_progress:
  "invar s \<Longrightarrow> avail s \<noteq> {} \<Longrightarrow> alloc s = (a, s') \<Longrightarrow> a \<noteq> invalid_physical_address"
  using alloc_fail by blast

lemma alloc_twice_distinct:
  assumes "invar s" "alloc s = (a, s1)" "alloc s1 = (b, s2)"
    "a \<noteq> invalid_physical_address" "b \<noteq> invalid_physical_address"
  shows "a \<noteq> b"
  using assms alloc_ok [of s a s1] alloc_ok [of s1 b s2] alloc_invar [of s a s1] by auto

lemma alloc_release:
  assumes "invar s" "alloc s = (a, s')" "a \<noteq> invalid_physical_address"
  shows "avail (release a s') = avail s"
proof -
  from assms(1,2) have "invar s'" by (rule alloc_invar)
  moreover from assms have "a \<in> avail s" "avail s' = avail s - {a}" "a \<in> sole s'"
    using alloc_ok by auto
  ultimately show ?thesis using release_sole by auto
qed

end

definition pmm_avail :: "pmm \<Rightarrow> u64 set" where
  "pmm_avail s = (\<lambda>p. p * page_size) ` free_set s"

definition pmm_sole :: "pmm \<Rightarrow> u64 set" where
  "pmm_sole s = (\<lambda>p. p * page_size) ` {p. page_index_valid p \<and> page_view s p = (True, 1)}"

lemma pmm_page_address_inj:
  "page_index_valid p \<Longrightarrow> page_index_valid q \<Longrightarrow> p * page_size = q * page_size \<longleftrightarrow> p = q"
  by (metis page_address(1) page_index_valid_def)

lemma pmm_address_image_diff:
  assumes "P \<subseteq> Collect page_index_valid" and "page_index_valid p"
  shows "(\<lambda>p. p * page_size) ` (P - {p}) = (\<lambda>p. p * page_size) ` P - {p * page_size}"
proof -
  have "inj_on (\<lambda>p. p * page_size) (insert p P)"
    using assms by (auto simp: inj_on_def pmm_page_address_inj subset_iff)
  then show ?thesis by (auto simp: inj_on_def)
qed

lemma free_set_valid: "free_set s \<subseteq> Collect page_index_valid"
  by (auto simp: free_set_def)

lemma view_set_valid: "{q. page_index_valid q \<and> P q} \<subseteq> Collect page_index_valid"
  by auto

lemma mem_pmm_avail: "page_index_valid p \<Longrightarrow> p * page_size \<in> pmm_avail s \<longleftrightarrow> \<not> fst (page_view s p)"
  by (auto simp: pmm_avail_def free_set_view pmm_page_address_inj)

lemma mem_pmm_sole: "page_index_valid p \<Longrightarrow> p * page_size \<in> pmm_sole s \<longleftrightarrow> page_view s p = (True, 1)"
  by (auto simp: pmm_sole_def pmm_page_address_inj)

lemma pmm_avail_sole_page:
  "a \<in> pmm_avail s \<union> pmm_sole s \<Longrightarrow> \<exists>p. page_index_valid p \<and> a = p * page_size"
  by (auto simp: pmm_avail_def pmm_sole_def free_set_def)

lemma run_free_one: "run_free s p 1 \<longleftrightarrow> p \<in> free_set s"
proof (cases "p < max_managed_pages")
  case True
  then have "{p ..< p + 1} = {p}"
    by (intro set_eqI) (simp only: atLeastLessThan_iff word_interval_one singleton_iff)
  moreover have "unat p + 1 \<le> 1048576" using True by (simp add: word_less_nat_alt)
  ultimately show ?thesis by (simp add: run_free_def)
next
  case False
  then show ?thesis using run_free_page [of s p 1] by (auto simp: free_set_def page_index_valid_def)
qed

lemma alloc_page_cases:
  assumes "pmm_inv s" and "alloc_page s = (a, s')"
  obtains (Found) p where "a = p * page_size" "p \<in> free_set s"
      "\<And>q. page_view s' q = (if q = p then (True, 1) else page_view s q)"
  | (Failed) "a = invalid_physical_address" "s' = s" "free_set s = {}"
proof (rule alloc_pages_cases [OF assms [unfolded alloc_page_def]])
  fix p assume p: "a = p * page_size" "run_free s p 1"
    and view: "\<And>q. page_view s' q = (if p \<le> q \<and> q < p + 1 then (True, 1) else page_view s q)"
  from view have "page_view s' q = (if q = p then (True, 1) else page_view s q)" for q
    unfolding word_interval_one [OF run_free_page [OF p(2)]] .
  with p show ?thesis by (intro Found) (simp_all only: run_free_one)
next
  assume "a = invalid_physical_address" "s' = s" "\<And>p. \<not> run_free s p 1"
  then show ?thesis by (intro Failed) (simp_all only: run_free_one, blast)
qed

lemma page_view_free_page:
  assumes "page_index_valid p"
  shows "page_view (free_page (p * page_size) s) q =
    (if q = p then view_release (page_view s p) else page_view s q)"
proof -
  from assms have p: "p < max_managed_pages" by (simp add: page_index_valid_def)
  have "page_view (free_page (p * page_size) s) q =
      (if p \<le> q \<and> q < p + 1 then view_release (page_view s q) else page_view s q)"
    unfolding free_page_def
    by (rule page_view_free_pages [OF p]) (use p in \<open>simp add: word_less_nat_alt\<close>)
  then show ?thesis unfolding word_interval_one [OF p] by simp
qed

lemma view_release_one [simp]: "view_release (True, 1) = (False, 0)"
  by (simp add: view_release_def)

interpretation pmm: page_provider alloc_page free_page pmm_avail pmm_sole pmm_inv
proof unfold_locales
  fix s s' :: pmm and a :: u64
  assume inv: "pmm_inv s"
  show "pmm_inv s'" if "alloc_page s = (a, s')"
    using inv that by (auto simp: alloc_page_def intro: alloc_pages_inv)
  show "pmm_inv (free_page a s)" using inv by (simp add: free_page_def free_pages_inv)
  show "a \<in> pmm_avail s \<and> pmm_avail s' = pmm_avail s - {a} \<and> pmm_sole s' = insert a (pmm_sole s)"
    if "alloc_page s = (a, s')" and "a \<noteq> invalid_physical_address"
    using inv that(1)
  proof (cases rule: alloc_page_cases)
    case (Found p)
    then have p: "page_index_valid p" by (simp add: free_set_def)
    have "free_set s' = free_set s - {p}" using Found by (auto simp: free_set_view split: if_splits)
    then have "pmm_avail s' = pmm_avail s - {a}"
      by (simp only: pmm_avail_def Found(1) pmm_address_image_diff [OF free_set_valid p])
    moreover have "{q. page_index_valid q \<and> page_view s' q = (True, 1)} =
        insert p {q. page_index_valid q \<and> page_view s q = (True, 1)}"
      using Found(2) by (auto simp: Found(3) free_set_view)
    then have "pmm_sole s' = insert a (pmm_sole s)"
      by (simp only: pmm_sole_def Found(1) image_insert)
    moreover have "a \<in> pmm_avail s" using Found(1,2) by (simp add: pmm_avail_def)
    ultimately show ?thesis by simp
  qed (use that in auto)
  show "pmm_avail s = {} \<and> s' = s" if "alloc_page s = (invalid_physical_address, s')"
    using inv that
  proof (cases rule: alloc_page_cases)
    case (Found p)
    then have "p < max_managed_pages" by (simp add: free_set_def page_index_valid_def)
    with Found(1) page_address(3) [of p] show ?thesis by simp
  qed (simp add: pmm_avail_def)
  show "pmm_avail (free_page a s) = insert a (pmm_avail s)
      \<and> pmm_sole (free_page a s) = pmm_sole s - {a}" if "a \<in> pmm_sole s"
  proof -
    from that obtain p where p: "page_index_valid p" "a = p * page_size" "page_view s p = (True, 1)"
      by (auto simp: pmm_sole_def)
    then have view: "page_view (free_page a s) q = (if q = p then (False, 0) else page_view s q)" for q
      by (simp add: page_view_free_page)
    then have "free_set (free_page a s) = insert p (free_set s)"
      using p by (auto simp: free_set_view split: if_splits)
    then have "pmm_avail (free_page a s) = insert a (pmm_avail s)"
      using p by (simp add: pmm_avail_def)
    moreover have "{q. page_index_valid q \<and> page_view (free_page a s) q = (True, 1)} =
        {q. page_index_valid q \<and> page_view s q = (True, 1)} - {p}"
      by (auto simp: view)
    then have "pmm_sole (free_page a s) = pmm_sole s - {a}"
      by (simp only: pmm_sole_def p(2) pmm_address_image_diff [OF view_set_valid p(1)])
    ultimately show ?thesis by simp
  qed
  show "a mod page_size = 0 \<and> a \<noteq> invalid_physical_address" if "a \<in> pmm_avail s \<union> pmm_sole s"
    using pmm_avail_sole_page [OF that] by (auto simp: page_index_valid_def)
  show "pmm_avail s \<inter> pmm_sole s = {}"
    by (auto simp: pmm_avail_def pmm_sole_def free_set_view pmm_page_address_inj)
qed

section \<open>Properties\<close>

text \<open>A small machine for the witnesses: three usable pages, at 0x1000, 0x2000 and 0x3000.\<close>

definition example_map :: MemoryMap where
  "example_map = \<lparr>regions = Some (\<lambda>_. \<lparr>region_base = 0x1000, region_length = 0x3000,
     region_kind = Usable\<rparr>), region_count = 1, source_region_at = None\<rparr>"

definition blank_pmm :: pmm where
  "blank_pmm = \<lparr>page_bitmap = (\<lambda>_. 0), page_refcounts = (\<lambda>_. 0),
     allocator_stats = \<lparr>managed_pages = 0, free_page_count = 0, used_page_count = 0,
       reclaimed_bootloader_pages = 0, skipped_pages = 0\<rparr>, next_search_page = 0\<rparr>"

definition example_pmm :: pmm where
  "example_pmm = pmm_init 0 0 0 example_map blank_pmm"

lemma example_pmm_inv: "pmm_inv example_pmm"
  by (simp add: example_pmm_def pmm_init_inv)

lemma map_regions_example:
  "map_regions example_map = [\<lparr>region_base = 0x1000, region_length = 0x3000, region_kind = Usable\<rparr>]"
  by (simp add: map_regions_def memory_region_at_def example_map_def)

lemma free_set_example: "p \<in> free_set example_pmm \<longleftrightarrow> p = 1 \<or> p = 2 \<or> p = 3"
proof -
  have "p \<in> free_set example_pmm \<longleftrightarrow> page_index_valid p \<and> 1 \<le> unat p \<and> unat p \<le> 3 \<and> p \<noteq> 0"
    unfolding example_pmm_def
    by (subst free_set_pmm_init)
      (auto simp: map_regions_example boot_free_def page_inside_def page_overlaps_def
        kernel_physical_size_def is_initially_allocatable_def)
  also have "\<dots> \<longleftrightarrow> unat p = 1 \<or> unat p = 2 \<or> unat p = 3"
    by (auto simp: page_index_valid_def word_less_nat_alt)
  also have "\<dots> \<longleftrightarrow> p = 1 \<or> p = 2 \<or> p = 3"
    using unat_eq_iff [of p 1] unat_eq_iff [of p 2] unat_eq_iff [of p 3] by simp
  finally show ?thesis .
qed

text \<open>C1. Initialisation establishes the allocator invariant, and after it a managed page is free
  exactly when it lies wholly inside a usable or bootloader-reclaimable region, is not page zero and
  does not overlap the kernel image.  The hypotheses keep every region base, and the end of the
  kernel image, below the last page of the 64-bit address space, where \<open>align_up\<close> wraps.\<close>

theorem pmm_init_correct:
  assumes "\<forall>r \<in> set (map_regions m). unat (region_base r) + 4095 < 2 ^ 64"
    and "unat kb + unat (kernel_physical_size ks ke) + 4095 < 2 ^ 64"
  shows "pmm_inv (pmm_init ks ke kb m s) \<and>
    (\<forall>p. p \<in> free_set (pmm_init ks ke kb m s) \<longleftrightarrow>
       page_index_valid p \<and> boot_free (map_regions m) p \<and> p \<noteq> 0
       \<and> \<not> page_overlaps p kb (kernel_physical_size ks ke))"
  using free_set_pmm_init [OF assms] pmm_init_inv by blast

theorem pmm_init_correct_witness:
  "pmm_inv example_pmm \<and> (2 :: u64) \<in> free_set example_pmm \<and> (0 :: u64) \<notin> free_set example_pmm"
proof -
  have "\<forall>r \<in> set (map_regions example_map). unat (region_base r) + 4095 < 2 ^ 64"
    "unat (0 :: u64) + unat (kernel_physical_size 0 0) + 4095 < 2 ^ 64"
    by (simp_all add: map_regions_example kernel_physical_size_def)
  from pmm_init_correct [OF this, of blank_pmm] show ?thesis
    by (simp add: example_pmm_def [symmetric] map_regions_example boot_free_def page_inside_def
        page_overlaps_def kernel_physical_size_def is_initially_allocatable_def page_index_valid_def
        max_managed_pages_def)
qed

text \<open>C2. Every operation of the allocator keeps its invariant: the free and used counters are the
  numbers of free and used pages, a free page has no references, and the search hint stays in
  range.\<close>

theorem pmm_operations_invariant:
  assumes "pmm_inv s"
  shows "pmm_inv (snd (alloc_pages n s)) \<and> pmm_inv (retain_page a s)
    \<and> pmm_inv (free_pages a n s) \<and> pmm_inv (free_acpi_reclaimable m s)"
  using assms alloc_pages_inv [of s n "fst (alloc_pages n s)"] retain_page_inv free_pages_inv
    free_acpi_reclaimable_inv by simp

theorem pmm_operations_invariant_witness:
  "pmm_inv example_pmm \<and> pmm_inv (snd (alloc_pages 2 example_pmm))
   \<and> pmm_inv (free_pages 0x1000 1 (snd (alloc_pages 2 example_pmm)))"
  using pmm_operations_invariant [OF example_pmm_inv]
    pmm_operations_invariant [of "snd (alloc_pages 2 example_pmm)"] example_pmm_inv
  by blast

text \<open>C3. An allocation of \<open>n\<close> pages returns the address of a run of \<open>n\<close> free managed pages, marks
  exactly those used with one reference and changes no other page; it fails only when no such run
  exists, and then changes nothing.\<close>

theorem alloc_pages_correct:
  assumes "pmm_inv s" and "alloc_pages n s = (a, s')"
  shows "(\<exists>p. a = p * page_size \<and> a \<noteq> invalid_physical_address \<and> run_free s p n \<and>
      (\<forall>q. page_view s' q = (if p \<le> q \<and> q < p + n then (True, 1) else page_view s q)))
    \<or> (a = invalid_physical_address \<and> s' = s \<and> (\<forall>p. \<not> run_free s p n))"
  using assms
proof (cases rule: alloc_pages_cases)
  case (Found p)
  then have "p * page_size \<noteq> invalid_physical_address"
    using run_free_page by (intro page_address) blast
  with Found show ?thesis by blast
qed blast

theorem alloc_pages_correct_witness:
  "pmm_inv example_pmm \<and> (\<exists>p. fst (alloc_pages 2 example_pmm) = p * page_size
     \<and> fst (alloc_pages 2 example_pmm) \<noteq> invalid_physical_address \<and> run_free example_pmm p 2)"
proof -
  have "{1 ..< 1 + 2 :: u64} \<subseteq> free_set example_pmm"
  proof
    fix q :: u64 assume "q \<in> {1 ..< 1 + 2}"
    then have "unat q = 1 \<or> unat q = 2" by (auto simp: word_le_nat_alt word_less_nat_alt)
    then show "q \<in> free_set example_pmm"
      using unat_eq_iff [of q 1] unat_eq_iff [of q 2] by (auto simp: free_set_example)
  qed
  then have "run_free example_pmm 1 2" by (simp add: run_free_def)
  moreover have "alloc_pages 2 example_pmm
      = (fst (alloc_pages 2 example_pmm), snd (alloc_pages 2 example_pmm))" by simp
  ultimately show ?thesis using alloc_pages_correct [OF example_pmm_inv] example_pmm_inv by blast
qed

text \<open>Freeing what an allocation returned restores the state of every page.\<close>

theorem alloc_free_roundtrip:
  assumes inv: "pmm_inv s" and alloc: "alloc_pages n s = (a, s')"
    and ok: "a \<noteq> invalid_physical_address" and q: "page_index_valid q"
  shows "page_view (free_pages a n s') q = page_view s q"
  using inv alloc
proof (cases rule: alloc_pages_cases)
  case (Found p)
  have "page_view s q = (False, 0)" if "p \<le> q" "q < p + n"
  proof -
    have "q \<in> free_set s" using that Found(2) by (auto simp: run_free_def)
    with inv show ?thesis by (auto simp: pmm_inv_def free_set_def page_view_def)
  qed
  moreover have "page_view (free_pages a n s') q =
      (if p \<le> q \<and> q < p + n then view_release (page_view s' q) else page_view s' q)"
    using Found(2) run_free_page [OF Found(2)]
    by (simp add: Found(1) page_view_free_pages run_free_def)
  ultimately show ?thesis by (simp add: Found(3))
qed (use ok in simp)

theorem alloc_free_roundtrip_witness:
  "fst (alloc_page example_pmm) \<noteq> invalid_physical_address \<and>
   page_view (free_pages (fst (alloc_page example_pmm)) 1 (snd (alloc_page example_pmm))) 2
     = page_view example_pmm 2"
proof -
  have "pmm_avail example_pmm \<noteq> {}"
    using free_set_example [of 1] by (auto simp: pmm_avail_def)
  then have ok: "fst (alloc_page example_pmm) \<noteq> invalid_physical_address"
    using pmm.alloc_progress [OF example_pmm_inv] prod.collapse by metis
  moreover have "alloc_pages 1 example_pmm = (fst (alloc_page example_pmm), snd (alloc_page example_pmm))"
    by (simp add: alloc_page_def)
  moreover have "page_index_valid 2" by (simp add: page_index_valid_def max_managed_pages_def)
  ultimately show ?thesis using alloc_free_roundtrip [OF example_pmm_inv] by blast
qed

lemma page_view_retain_page:
  assumes p: "page_index_valid p" and v: "page_view s p = (True, c)" and "c \<noteq> 0xFFFF"
  shows "page_view (retain_page (p * page_size) s) p = (True, c + 1)"
proof -
  have "p < max_managed_pages" "is_page_used s p" "page_refcounts s (unat p) = c"
    using p v by (simp_all add: page_index_valid_def page_view_def)
  with p \<open>c \<noteq> 0xFFFF\<close> show ?thesis
    by (simp add: retain_page_def Let_def page_view_refcount_upd)
qed

lemma u16_of_nat_neq_max: "k < 65535 \<Longrightarrow> (of_nat k :: u16) \<noteq> 0xFFFF"
proof
  assume "k < 65535" "(of_nat k :: u16) = 0xFFFF"
  then have "unat (of_nat k :: u16) = 65535" by simp
  moreover have "unat (of_nat k :: u16) = k"
    using \<open>k < 65535\<close> by (simp add: unat_of_nat take_bit_nat_eq_self)
  ultimately show False using \<open>k < 65535\<close> by simp
qed

lemma page_view_retain_many:
  assumes p: "page_index_valid p" and v: "page_view s p = (True, 1)" and "k < 65535"
  shows "page_view ((retain_page (p * page_size) ^^ k) s) p = (True, of_nat (k + 1))"
  using \<open>k < 65535\<close>
proof (induction k)
  case (Suc k)
  then have "page_view ((retain_page (p * page_size) ^^ k) s) p = (True, of_nat (k + 1))" by simp
  moreover have "(of_nat (k + 1) :: u16) \<noteq> 0xFFFF" using Suc.prems by (intro u16_of_nat_neq_max) simp
  ultimately show ?case using page_view_retain_page [OF p] by simp
qed (use v in simp)

lemma view_release_of_nat:
  "0 < k \<Longrightarrow> k < 65535 \<Longrightarrow> view_release (True, of_nat (Suc k)) = (True, of_nat k)"
proof -
  assume k: "0 < k" "k < 65535"
  then have "unat (of_nat (Suc k) :: u16) = Suc k"
    by (subst unat_of_nat) (simp add: take_bit_nat_eq_self)
  then have "(of_nat (Suc k) :: u16) > 1" using k by (simp add: word_less_nat_alt)
  then show ?thesis by (simp add: view_release_def)
qed

lemma page_view_release_many:
  assumes p: "page_index_valid p" and v: "page_view s p = (True, of_nat (k + 1))"
    and "k < 65535" and "j \<le> k"
  shows "page_view ((free_page (p * page_size) ^^ j) s) p = (True, of_nat (k + 1 - j))"
  using \<open>j \<le> k\<close>
proof (induction j)
  case (Suc j)
  then have "page_view ((free_page (p * page_size) ^^ j) s) p = (True, of_nat (Suc (k - j)))"
    by (simp add: Suc_diff_le)
  moreover have "view_release (True, of_nat (Suc (k - j))) = (True, of_nat (k - j))"
    using Suc.prems \<open>k < 65535\<close> by (intro view_release_of_nat) auto
  ultimately show ?case using p by (simp add: page_view_free_page)
qed (use v in simp)

text \<open>C4. A page that is allocated once and retained \<open>k\<close> more times (with \<open>k\<close> below the saturation
  point of the 16-bit count) survives its first \<open>k\<close> releases with the expected count and is free
  after the next one.\<close>

theorem shared_page_lifetime:
  assumes inv: "pmm_inv s" and alloc: "alloc_page s = (a, s')"
    and ok: "a \<noteq> invalid_physical_address" and "k < 65535" and "j \<le> k + 1"
  shows "page_view ((free_page a ^^ j) ((retain_page a ^^ k) s')) (a div page_size) =
    (if j \<le> k then (True, of_nat (k + 1 - j)) else (False, 0))"
  using inv alloc
proof (cases rule: alloc_page_cases)
  case (Found p)
  then have p: "page_index_valid p" and a: "a div page_size = p"
    by (simp_all add: free_set_def page_index_valid_def)
  have "page_view ((retain_page a ^^ k) s') p = (True, of_nat (k + 1))"
    using page_view_retain_many [OF p, of s' k] Found \<open>k < 65535\<close> by simp
  then have rel: "i \<le> k \<Longrightarrow>
      page_view ((free_page a ^^ i) ((retain_page a ^^ k) s')) p = (True, of_nat (k + 1 - i))" for i
    using page_view_release_many [OF p] \<open>k < 65535\<close> Found(1) by simp
  show ?thesis
  proof (cases "j \<le> k")
    case True
    with rel a show ?thesis by simp
  next
    case False
    with \<open>j \<le> k + 1\<close> have "j = Suc k" by simp
    then show ?thesis using rel [of k] p a Found(1) by (simp add: page_view_free_page)
  qed
qed (use ok in simp)

theorem shared_page_lifetime_witness:
  "fst (alloc_page example_pmm) \<noteq> invalid_physical_address \<and>
   page_view ((free_page (fst (alloc_page example_pmm)) ^^ 1)
       ((retain_page (fst (alloc_page example_pmm)) ^^ 1) (snd (alloc_page example_pmm))))
     (fst (alloc_page example_pmm) div page_size) = (True, 1)"
proof -
  have "pmm_avail example_pmm \<noteq> {}"
    using free_set_example [of 1] by (auto simp: pmm_avail_def)
  then have ok: "fst (alloc_page example_pmm) \<noteq> invalid_physical_address"
    using pmm.alloc_progress [OF example_pmm_inv] prod.collapse by metis
  have "alloc_page example_pmm = (fst (alloc_page example_pmm), snd (alloc_page example_pmm))"
    by simp
  from shared_page_lifetime [OF example_pmm_inv this ok, of 1 1] ok show ?thesis by simp
qed

text \<open>The 16-bit reference count saturates: retaining a page whose count is 65535 does nothing,
  so the matching release drops a reference that was never counted.\<close>

theorem retain_page_saturates:
  assumes "page_index_valid p" and "page_view s p = (True, 0xFFFF)"
  shows "retain_page (p * page_size) s = s
    \<and> page_view (free_page (p * page_size) (retain_page (p * page_size) s)) p = (True, 0xFFFE)"
proof -
  have "p < max_managed_pages" "is_page_used s p" "page_refcounts s (unat p) = 0xFFFF"
    using assms by (simp_all add: page_index_valid_def page_view_def)
  with assms show ?thesis
    by (simp add: retain_page_def Let_def page_view_free_page view_release_def word_less_nat_alt)
qed

theorem retain_page_saturates_witness:
  "page_view (free_page (1 * page_size) (retain_page (1 * page_size)
     (blank_pmm\<lparr>page_bitmap := (\<lambda>_. 2), page_refcounts := (\<lambda>_. 0xFFFF)\<rparr>))) 1 = (True, 0xFFFE)"
proof -
  have "page_index_valid 1"
    "page_view (blank_pmm\<lparr>page_bitmap := (\<lambda>_. 2), page_refcounts := (\<lambda>_. 0xFFFF)\<rparr>) 1 = (True, 0xFFFF)"
    by (simp_all add: page_index_valid_def max_managed_pages_def page_view_def is_page_used_def)
  from retain_page_saturates [OF this] show ?thesis by (rule conjunct2)
qed

text \<open>\<open>free_range\<close> does not guard \<open>align_up\<close> against wrap-around: a region of a few bytes in the
  last page of the address space makes it free every managed page, page zero included.\<close>

theorem free_range_wraps:
  "free_set (free_range 0xFFFFFFFFFFFFFF00 16 r s) = Collect page_index_valid"
proof -
  have up: "align_up 0xFFFFFFFFFFFFFF00 page_size = 0"
    and down: "align_down 0xFFFFFFFFFFFFFF10 page_size = 0xFFFFFFFFFFFFF000"
    and pages: "0xFFFFFFFFFFFFF000 div page_size > max_managed_pages" "max_managed_pages \<noteq> 0"
    by (simp_all add: align_up_def align_down_def page_size_def max_managed_pages_def)
  have "page_view (free_range 0xFFFFFFFFFFFFFF00 16 r s) q = view_free (page_view s q)"
    if "page_index_valid q" for q
    using that pages by (simp add: free_range_def Let_def up down page_view_loops page_index_valid_def)
  then show ?thesis by (auto simp: free_set_view)
qed

end
