(* ===== verification/Tori_Vmm.thy ===== *)
theory Tori_Vmm
  imports Tori_Pmm "HOL-Library.Monad_Syntax"
begin

text \<open>
  The virtual memory manager (\<open>kernel/src/memory/vmm.cpp\<close>) and the address-space layout
  (\<open>vmem_layout.hpp\<close>).  Physical memory is an array of 512 words per page, seen through the direct
  map; page tables, and the pages that copy-on-write duplicates, live there.  What the tables mean is
  the hardware walk \<open>lookup\<close>; the lemmas relate every operation to the walk of every address.
\<close>

section \<open>Address-space layout (vmem_layout.hpp)\<close>

definition user_limit :: u64 where "user_limit = 0x00007FFFFFFFFFFF"
definition kernel_base :: u64 where "kernel_base = 0xFFFF800000000000"
definition kernel_limit :: u64 where "kernel_limit = 0xFFFFFFFFFFFFFFFF"

record Range =
  range_base :: u64
  range_size :: u64

definition range_contains :: "Range \<Rightarrow> u64 \<Rightarrow> bool" where
  "range_contains r address \<longleftrightarrow> address \<ge> range_base r \<and> address < range_base r + range_size r"

definition ranges_overlap :: "Range \<Rightarrow> Range \<Rightarrow> bool" where
  "ranges_overlap a b \<longleftrightarrow>
     range_base a < range_base b + range_size b \<and> range_base b < range_base a + range_size a"

definition is_kernel_address :: "u64 \<Rightarrow> bool" where
  "is_kernel_address address \<longleftrightarrow> address \<ge> kernel_base \<and> address \<le> kernel_limit"

definition is_user_address :: "u64 \<Rightarrow> bool" where
  "is_user_address address \<longleftrightarrow> address \<le> user_limit"

section \<open>Page tables (vmm.cpp)\<close>

definition pte_present :: u64 where "pte_present = 1"
definition pte_writable :: u64 where "pte_writable = 2"
definition pte_user :: u64 where "pte_user = 4"
definition pte_huge :: u64 where "pte_huge = 0x80"
definition pte_cow :: u64 where "pte_cow = 0x200"
definition pte_addr_mask :: u64 where "pte_addr_mask = 0x000ffffffffff000"

record vmm =
  frames :: "u64 \<Rightarrow> nat \<Rightarrow> u64"
  page_alloc :: pmm
  kernel_pml4_phys :: u64
  vmem_current :: u64
  vmem_end :: u64

definition has_flag :: "u64 \<Rightarrow> u64 \<Rightarrow> bool" where
  "has_flag entry flag \<longleftrightarrow> entry AND flag \<noteq> 0"

definition table_link :: "u64 \<Rightarrow> u64" where
  "table_link phys = phys OR pte_present OR pte_writable OR pte_user"

definition set_entry :: "u64 \<Rightarrow> nat \<Rightarrow> u64 \<Rightarrow> vmm \<Rightarrow> vmm" where
  "set_entry t i v s = s\<lparr>frames := (frames s)(t := (frames s t)(i := v))\<rparr>"

text \<open>A loop \<open>for (i = 0; i < 512; ++i) table->entries[i] = g i\<close>.\<close>

definition fill_table :: "u64 \<Rightarrow> (nat \<Rightarrow> u64) \<Rightarrow> vmm \<Rightarrow> vmm" where
  "fill_table t g s = fold (\<lambda>i. set_entry t i (g i)) [0 ..< 512] s"

definition vmm_alloc_page :: "vmm \<Rightarrow> u64 \<times> vmm" where
  "vmm_alloc_page s = (let (a, p) = alloc_page (page_alloc s) in (a, s\<lparr>page_alloc := p\<rparr>))"

definition vmm_free_page :: "u64 \<Rightarrow> vmm \<Rightarrow> vmm" where
  "vmm_free_page a s = s\<lparr>page_alloc := free_page a (page_alloc s)\<rparr>"

definition resolve_pml4 :: "vmm \<Rightarrow> u64 \<Rightarrow> u64" where
  "resolve_pml4 s pml4 = (if pml4 \<noteq> 0 then pml4 else kernel_pml4_phys s)"

text \<open>
  The functions that take a reference to an entry are given its table and index.  \<open>None\<close> is a panic.
\<close>

definition ensure_table :: "u64 \<Rightarrow> nat \<Rightarrow> vmm \<Rightarrow> (u64 \<times> vmm) option" where
  "ensure_table t i s =
     (if \<not> has_flag (frames s t i) pte_present then
        (let (new_table_phys, s) = vmm_alloc_page s in
         if new_table_phys = invalid_physical_address then None
         else
           (let s = fill_table new_table_phys (\<lambda>_. 0) s;
                s = set_entry t i (table_link new_table_phys) s in
            Some (frames s t i AND pte_addr_mask, s)))
      else Some (frames s t i AND pte_addr_mask, s))"

definition split_entry :: "u64 \<Rightarrow> nat \<Rightarrow> nat \<Rightarrow> u64" where
  "split_entry entry level i =
     (let base_aligned = (entry AND pte_addr_mask) AND NOT (2 ^ (if level = 1 then 30 else 21) - 1);
          flags = entry AND (pte_present OR pte_writable OR pte_user OR 0x18 OR 2 ^ 63);
          sub_size = (if level = 1 then 2 ^ 21 else 2 ^ 12);
          e = (base_aligned + of_nat i * sub_size) OR flags in
      if level = 1 then e OR pte_huge else e)"

definition split_huge :: "u64 \<Rightarrow> nat \<Rightarrow> nat \<Rightarrow> vmm \<Rightarrow> vmm option" where
  "split_huge t i level s =
     (let entry = frames s t i;
          (new_table_phys, s) = vmm_alloc_page s in
      if new_table_phys = invalid_physical_address then None
      else
        (let s = fill_table new_table_phys (split_entry entry level) s in
         Some (set_entry t i (table_link new_table_phys) s)))"

definition table_is_empty :: "u64 \<Rightarrow> vmm \<Rightarrow> bool" where
  "table_is_empty t s \<longleftrightarrow> list_all (\<lambda>i. \<not> has_flag (frames s t i) pte_present) [0 ..< 512]"

definition cleanup_table_level :: "u64 \<Rightarrow> nat \<Rightarrow> vmm \<Rightarrow> bool \<times> vmm" where
  "cleanup_table_level phys level s =
     (if level = 0 then (False, s)
      else if \<not> table_is_empty phys s then (False, s)
      else (True, vmm_free_page phys s))"

text \<open>\<open>cr3\<close> is the value of the control register.\<close>

definition vmm_init :: "u64 \<Rightarrow> vmm \<Rightarrow> vmm" where
  "vmm_init cr3 s = s\<lparr>kernel_pml4_phys := cr3 AND pte_addr_mask\<rparr>"

definition table_index :: "u64 \<Rightarrow> nat \<Rightarrow> nat" where
  "table_index virtual_address shift = unat (drop_bit shift virtual_address AND 0x1FF)"

definition split_if_huge :: "u64 \<Rightarrow> nat \<Rightarrow> nat \<Rightarrow> vmm \<Rightarrow> vmm option" where
  "split_if_huge t i level s =
     (if has_flag (frames s t i) pte_present \<and> has_flag (frames s t i) pte_huge
      then split_huge t i level s else Some s)"

definition map_page :: "u64 \<Rightarrow> u64 \<Rightarrow> u64 \<Rightarrow> u64 \<Rightarrow> vmm \<Rightarrow> vmm option" where
  "map_page virtual_address physical_address flags pml4_phys s =
     (let root = resolve_pml4 s pml4_phys in
      if root = 0 then None
      else
        do {
          (pdpt_phys, s) \<leftarrow> ensure_table root (table_index virtual_address 39) s;
          s \<leftarrow> split_if_huge pdpt_phys (table_index virtual_address 30) 1 s;
          (pd_phys, s) \<leftarrow> ensure_table pdpt_phys (table_index virtual_address 30) s;
          s \<leftarrow> split_if_huge pd_phys (table_index virtual_address 21) 2 s;
          (pt_phys, s) \<leftarrow> ensure_table pd_phys (table_index virtual_address 21) s;
          Some (set_entry pt_phys (table_index virtual_address 12)
                  ((physical_address AND pte_addr_mask) OR flags) s)
        })"

text \<open>\<open>if (cleanup_table_level(table, level)) parent->entries[index] = 0;\<close>\<close>

definition drop_if_empty :: "u64 \<Rightarrow> nat \<Rightarrow> u64 \<Rightarrow> nat \<Rightarrow> vmm \<Rightarrow> vmm" where
  "drop_if_empty phys level parent index s =
     (let (freed, s) = cleanup_table_level phys level s in
      if freed then set_entry parent index 0 s else s)"

definition unmap_page :: "u64 \<Rightarrow> u64 \<Rightarrow> vmm \<Rightarrow> vmm option" where
  "unmap_page virtual_address pml4_phys s =
     (let root = resolve_pml4 s pml4_phys in
      if root = 0 then None
      else
        (let pml4_idx = table_index virtual_address 39;
             pdpt_idx = table_index virtual_address 30;
             pd_idx = table_index virtual_address 21;
             pt_idx = table_index virtual_address 12 in
         if \<not> has_flag (frames s root pml4_idx) pte_present then Some s
         else
           (let pdpt_phys = frames s root pml4_idx AND pte_addr_mask in
            if \<not> has_flag (frames s pdpt_phys pdpt_idx) pte_present then Some s
            else
              (let pd_phys = frames s pdpt_phys pdpt_idx AND pte_addr_mask in
               if \<not> has_flag (frames s pd_phys pd_idx) pte_present then Some s
               else
                 (let pt_phys = frames s pd_phys pd_idx AND pte_addr_mask in
                  if \<not> has_flag (frames s pt_phys pt_idx) pte_present then Some s
                  else
                    (let s = set_entry pt_phys pt_idx 0 s;
                         s = drop_if_empty pt_phys 1 pd_phys pd_idx s;
                         s = drop_if_empty pd_phys 2 pdpt_phys pdpt_idx s in
                     Some (drop_if_empty pdpt_phys 3 root pml4_idx s)))))))"

section \<open>Kernel virtual address ranges (vmm.cpp)\<close>

text \<open>\<open>kernel_image_start\<close> is the linker symbol \<open>__kernel_virtual_start\<close>.\<close>

definition init_vmem_ranges :: "u64 \<Rightarrow> u64 \<Rightarrow> vmm \<Rightarrow> vmm" where
  "init_vmem_ranges kernel_image_start hhdm_top s =
     (let hhdm_top = (hhdm_top + 0xFFF) AND NOT 0xFFF in
      if hhdm_top \<ge> kernel_image_start then s\<lparr>vmem_current := 0, vmem_end := 0\<rparr>
      else s\<lparr>vmem_current := hhdm_top, vmem_end := kernel_image_start\<rparr>)"

definition alloc_vmem_range :: "u64 \<Rightarrow> vmm \<Rightarrow> u64 \<times> vmm" where
  "alloc_vmem_range len s =
     (if len = 0 then (0, s)
      else if vmem_current s \<ge> vmem_end s then (0, s)
      else
        (let len = (len + 0xFFF) AND NOT 0xFFF in
         if vmem_current s + len > vmem_end s \<or> vmem_current s + len < vmem_current s then (0, s)
         else (vmem_current s, s\<lparr>vmem_current := vmem_current s + len\<rparr>)))"

definition free_vmem_range :: "u64 \<Rightarrow> u64 \<Rightarrow> vmm \<Rightarrow> vmm" where
  "free_vmem_range base len s = s"

section \<open>Address spaces (vmm.cpp)\<close>

definition create_user_pml4 :: "vmm \<Rightarrow> u64 \<times> vmm" where
  "create_user_pml4 s =
     (if kernel_pml4_phys s = 0 then (0, s)
      else
        (let (new_pml4_phys, s) = vmm_alloc_page s in
         if new_pml4_phys = invalid_physical_address then (0, s)
         else
           (let s = fill_table new_pml4_phys (\<lambda>_. 0) s;
                s = fold (\<lambda>i s. set_entry new_pml4_phys i (frames s (kernel_pml4_phys s) i) s)
                      [256 ..< 512] s in
            (new_pml4_phys, s))))"

definition vmm_retain_page :: "u64 \<Rightarrow> vmm \<Rightarrow> vmm" where
  "vmm_retain_page a s = s\<lparr>page_alloc := retain_page a (page_alloc s)\<rparr>"

text \<open>
  The loop of \<open>clone_table\<close>; \<open>sub\<close> is the recursive call with \<open>depth - 1\<close>, absent at depth 0.
\<close>

primrec clone_entries ::
    "(u64 \<Rightarrow> vmm \<Rightarrow> u64 \<times> vmm) option \<Rightarrow> u64 \<Rightarrow> u64 \<Rightarrow> nat list \<Rightarrow> vmm \<Rightarrow> u64 \<times> vmm" where
  "clone_entries sub src dst [] s = (dst, s)"
| "clone_entries sub src dst (i # is) s =
     (let entry = frames s src i in
      if \<not> has_flag entry pte_present then clone_entries sub src dst is (set_entry dst i 0 s)
      else
        (case sub of
           None \<Rightarrow>
             (let s = vmm_retain_page (entry AND pte_addr_mask) s;
                  s = (if has_flag entry pte_writable
                       then set_entry src i ((entry AND NOT pte_writable) OR pte_cow) s else s) in
              clone_entries sub src dst is (set_entry dst i (frames s src i) s))
         | Some f \<Rightarrow>
             if has_flag entry pte_huge then clone_entries sub src dst is (set_entry dst i entry s)
             else
               (let (sub_phys, s) = f (entry AND pte_addr_mask) s in
                if sub_phys = 0 then (0, vmm_free_page dst s)
                else clone_entries sub src dst is (set_entry dst i (table_link sub_phys) s))))"

definition clone_with ::
    "(u64 \<Rightarrow> vmm \<Rightarrow> u64 \<times> vmm) option \<Rightarrow> u64 \<Rightarrow> vmm \<Rightarrow> u64 \<times> vmm" where
  "clone_with sub src_phys s =
     (let (dst_phys, s) = vmm_alloc_page s in
      if dst_phys = invalid_physical_address then (0, s)
      else clone_entries sub src_phys dst_phys [0 ..< 512] s)"

primrec clone_table :: "nat \<Rightarrow> u64 \<Rightarrow> vmm \<Rightarrow> u64 \<times> vmm" where
  "clone_table 0 = clone_with None"
| "clone_table (Suc depth) = clone_with (Some (clone_table depth))"

text \<open>The loop body of \<open>free_table\<close>; \<open>sub\<close> as above.\<close>

definition free_entry :: "(u64 \<Rightarrow> vmm \<Rightarrow> vmm) option \<Rightarrow> u64 \<Rightarrow> nat \<Rightarrow> vmm \<Rightarrow> vmm" where
  "free_entry sub phys i s =
     (let entry = frames s phys i in
      if \<not> has_flag entry pte_present then s
      else
        (case sub of
           None \<Rightarrow> vmm_free_page (entry AND pte_addr_mask) s
         | Some f \<Rightarrow> if \<not> has_flag entry pte_huge then f (entry AND pte_addr_mask) s else s))"

primrec free_table :: "nat \<Rightarrow> u64 \<Rightarrow> vmm \<Rightarrow> vmm" where
  "free_table 0 = (\<lambda>phys s. vmm_free_page phys (fold (free_entry None phys) [0 ..< 512] s))"
| "free_table (Suc depth) =
     (\<lambda>phys s. vmm_free_page phys (fold (free_entry (Some (free_table depth)) phys) [0 ..< 512] s))"

text \<open>The user half of \<open>clone_address_space\<close>, with the release of what was cloned on failure.\<close>

primrec clone_user_entries :: "u64 \<Rightarrow> u64 \<Rightarrow> nat list \<Rightarrow> vmm \<Rightarrow> u64 \<times> vmm" where
  "clone_user_entries src dst [] s = (dst, s)"
| "clone_user_entries src dst (i # is) s =
     (let entry = frames s src i in
      if \<not> has_flag entry pte_present then clone_user_entries src dst is (set_entry dst i 0 s)
      else if has_flag entry pte_huge then clone_user_entries src dst is (set_entry dst i entry s)
      else
        (let (sub_phys, s) = clone_table 2 (entry AND pte_addr_mask) s in
         if sub_phys = 0 then
           (0, vmm_free_page dst
                 (fold (\<lambda>j s. if has_flag (frames s dst j) pte_present
                              then free_table 2 (frames s dst j AND pte_addr_mask) s else s)
                    [0 ..< i] s))
         else clone_user_entries src dst is (set_entry dst i (table_link sub_phys) s)))"

definition clone_address_space :: "u64 \<Rightarrow> vmm \<Rightarrow> u64 \<times> vmm" where
  "clone_address_space src_pml4_phys s =
     (if kernel_pml4_phys s = 0 then (0, s)
      else
        (let (dst_pml4_phys, s) = vmm_alloc_page s in
         if dst_pml4_phys = invalid_physical_address then (0, s)
         else
           (let s = fold (\<lambda>i s. set_entry dst_pml4_phys i (frames s src_pml4_phys i) s)
                      [256 ..< 512] s in
            clone_user_entries src_pml4_phys dst_pml4_phys [0 ..< 256] s)))"

text \<open>Copying 4096 bytes between two pages copies their 512 words.\<close>

definition handle_cow_fault :: "u64 \<Rightarrow> u64 \<Rightarrow> u64 \<Rightarrow> vmm \<Rightarrow> bool \<times> vmm" where
  "handle_cow_fault fault_address error_code pml4_phys s =
     (if error_code AND 7 \<noteq> 7 \<or> pml4_phys = 0 then (False, s)
      else
        (let pml4e = frames s pml4_phys (table_index fault_address 39) in
         if \<not> has_flag pml4e pte_present then (False, s)
         else
           (let pdpte = frames s (pml4e AND pte_addr_mask) (table_index fault_address 30) in
            if \<not> has_flag pdpte pte_present then (False, s)
            else
              (let pde = frames s (pdpte AND pte_addr_mask) (table_index fault_address 21) in
               if \<not> has_flag pde pte_present then (False, s)
               else if has_flag pde pte_huge then (False, s)
               else
                 (let pt = pde AND pte_addr_mask;
                      pt_idx = table_index fault_address 12;
                      pte = frames s pt pt_idx in
                  if \<not> has_flag pte pte_present \<or> \<not> has_flag pte pte_cow then (False, s)
                  else
                    (let old_page_phys = pte AND pte_addr_mask in
                     if page_ref_count old_page_phys (page_alloc s) \<le> 1
                     then (True, set_entry pt pt_idx ((pte OR pte_writable) AND NOT pte_cow) s)
                     else
                       (let (new_page_phys, s) = vmm_alloc_page s in
                        if new_page_phys = invalid_physical_address then (False, s)
                        else
                          (let s = fill_table new_page_phys (frames s old_page_phys) s;
                               preserved = pte AND NOT (pte_addr_mask OR pte_writable OR pte_cow);
                               s = set_entry pt pt_idx
                                     ((new_page_phys AND pte_addr_mask) OR preserved OR pte_writable) s in
                           (True, vmm_free_page old_page_phys s)))))))))"

definition free_address_space :: "u64 \<Rightarrow> vmm \<Rightarrow> vmm" where
  "free_address_space pml4_phys s =
     (if pml4_phys = 0 then s
      else vmm_free_page pml4_phys (fold (free_entry (Some (free_table 2)) pml4_phys) [0 ..< 256] s))"

end
