(* ===== verification/Tori_Vmm_Walk.thy ===== *)
theory Tori_Vmm_Walk
  imports Tori_Vmm
begin

text \<open>
  What the page tables of \<open>Tori_Vmm\<close> mean: the hardware walk \<open>lookup\<close>, trees of tables, and how
  mapping, unmapping, splitting a large page, copy-on-write and the creation of an address space
  change the walk of every address.
\<close>

declare upt_rec_numeral [simp del]

section \<open>Bits of page-table entries\<close>

lemma bit_exp_u64: "bit (2 ^ k :: u64) n \<longleftrightarrow> n = k \<and> k < 64"
  by (auto simp: bit_exp_iff)

lemma pte_flags_exp:
  "pte_present = 2 ^ 0" "pte_writable = 2 ^ 1" "pte_user = 2 ^ 2" "pte_huge = 2 ^ 7" "pte_cow = 2 ^ 9"
  by (simp_all add: pte_present_def pte_writable_def pte_user_def pte_huge_def pte_cow_def)

lemma bit_pte_flags:
  "bit pte_present n \<longleftrightarrow> n = 0" "bit pte_writable n \<longleftrightarrow> n = 1" "bit pte_user n \<longleftrightarrow> n = 2"
  "bit pte_huge n \<longleftrightarrow> n = 7" "bit pte_cow n \<longleftrightarrow> n = 9"
  unfolding pte_flags_exp bit_exp_u64 by simp_all

lemma bit_pte_addr_mask: "bit pte_addr_mask n \<longleftrightarrow> 12 \<le> n \<and> n < 52"
proof -
  have eq: "pte_addr_mask = push_bit 12 (mask 40)"
    by (simp add: pte_addr_mask_def mask_eq_exp_minus_1)
  show ?thesis unfolding eq by (auto simp: bit_push_bit_iff bit_mask_iff)
qed

lemma bit_low_mask: "bit (2 ^ k - 1 :: u64) n \<longleftrightarrow> n < k \<and> n < 64"
  unfolding mask_eq_exp_minus_1 [symmetric] by (auto simp: bit_mask_iff)

lemma bit_0x18: "bit (0x18 :: u64) n \<longleftrightarrow> n = 3 \<or> n = 4"
proof -
  have "(0x18 :: u64) = 2 ^ 3 OR 2 ^ 4" by simp
  then show ?thesis by (simp only: bit_or_iff bit_exp_u64) auto
qed

lemmas pte_bits = bit_pte_flags bit_pte_addr_mask bit_0x18 bit_exp_u64 bit_and_iff bit_or_iff bit_not_iff

lemma has_flag_bit:
  "has_flag e pte_present \<longleftrightarrow> bit e 0" "has_flag e pte_writable \<longleftrightarrow> bit e 1"
  "has_flag e pte_user \<longleftrightarrow> bit e 2" "has_flag e pte_huge \<longleftrightarrow> bit e 7" "has_flag e pte_cow \<longleftrightarrow> bit e 9"
  unfolding has_flag_def pte_flags_exp and_exp_iff by (rule refl)+

lemma table_link_bits: "bit (table_link a) n \<longleftrightarrow> bit a n \<or> n = 0 \<or> n = 1 \<or> n = 2"
  by (auto simp: table_link_def pte_bits)

lemma page_address_bits:
  assumes "page_index_valid p"
  shows "bit (p * page_size) n \<longleftrightarrow> 12 \<le> n \<and> n < 32 \<and> bit p (n - 12)"
proof -
  have "p * page_size = push_bit 12 p" by (simp add: push_bit_eq_mult page_size_def)
  moreover have "p = take_bit 20 p"
  proof -
    have "unat p < 2 ^ 20" using assms by (simp add: page_index_valid_def max_managed_pages_def word_less_nat_alt)
    then have "unat (take_bit 20 p) = unat p" by (simp add: unsigned_take_bit_eq take_bit_nat_eq_self)
    then show ?thesis by simp
  qed
  then have "bit p m \<Longrightarrow> m < 20" for m by (metis bit_take_bit_iff)
  then have "n - 12 < 20" if "bit p (n - 12)" using that .
  ultimately show ?thesis by (auto simp: bit_push_bit_iff)
qed

lemma table_link_addr: "page_index_valid p \<Longrightarrow> table_link (p * page_size) AND pte_addr_mask = p * page_size"
  by (rule bit_eqI) (auto simp: table_link_bits page_address_bits pte_bits)

section \<open>The hardware walk\<close>

text \<open>
  A table at level 3 is a PML4, at level 0 a page table.  The walk of the remaining indices returns
  the address of the 4 KiB page, the writable and user bits that every entry on the path grants, and
  the cache and no-execute bits of the last entry.  A large page at level 2 covers 1 GiB, at level 1
  2 MiB; the manager never looks at bit 7 of a PML4 entry.
\<close>

fun huge_page :: "u64 \<Rightarrow> nat list \<Rightarrow> u64" where
  "huge_page e [pt] = ((e AND pte_addr_mask) AND NOT (2 ^ 21 - 1)) + of_nat pt * 2 ^ 12"
| "huge_page e [pd, pt] =
     ((e AND pte_addr_mask) AND NOT (2 ^ 30 - 1)) + of_nat pd * 2 ^ 21 + of_nat pt * 2 ^ 12"
| "huge_page e _ = 0"

definition leaf_flags :: "u64 \<Rightarrow> u64" where
  "leaf_flags e = e AND (0x18 OR 2 ^ 63)"

fun lookup :: "(u64 \<Rightarrow> nat \<Rightarrow> u64) \<Rightarrow> nat \<Rightarrow> u64 \<Rightarrow> nat list \<Rightarrow> u64 \<Rightarrow> (u64 \<times> u64 \<times> u64) option" where
  "lookup f l t [] acc = None"
| "lookup f 0 t (i # is) acc =
     (let e = f t i in
      if \<not> has_flag e pte_present then None
      else Some (e AND pte_addr_mask, acc AND e AND (pte_writable OR pte_user), leaf_flags e))"
| "lookup f (Suc l) t (i # is) acc =
     (let e = f t i in
      if \<not> has_flag e pte_present then None
      else if has_flag e pte_huge \<and> l < 2
      then Some (huge_page e is, acc AND e AND (pte_writable OR pte_user), leaf_flags e)
      else lookup f l (e AND pte_addr_mask) is (acc AND e))"

lemma split_base:
  assumes "i < 512" "k = 12 \<or> k = 21"
  shows "bit (((e AND pte_addr_mask) AND NOT (2 ^ (k + 9) - 1)) + of_nat i * 2 ^ k :: u64) n \<longleftrightarrow>
    (if n < k then False else if n < k + 9 then bit i (n - k) else bit e n \<and> n < 52)"
proof -
  have "take_bit 9 i = i" using assms(1) by (intro take_bit_nat_eq_self) simp
  then have small: "bit i m \<Longrightarrow> m < 9" for m by (metis bit_take_bit_iff)
  have i: "bit (of_nat i * 2 ^ k :: u64) m \<longleftrightarrow> k \<le> m \<and> m < 64 \<and> bit i (m - k)" for m
    by (auto simp: push_bit_eq_mult [symmetric] bit_push_bit_iff bit_of_nat_iff)
  have b: "bit ((e AND pte_addr_mask) AND NOT (2 ^ (k + 9) - 1) :: u64) m \<longleftrightarrow> bit e m \<and> k + 9 \<le> m \<and> m < 52" for m
    using assms(2) by (auto simp: pte_bits bit_low_mask)
  have "\<not> bit ((e AND pte_addr_mask) AND NOT (2 ^ (k + 9) - 1) :: u64) m \<or> \<not> bit (of_nat i * 2 ^ k :: u64) m" for m
    unfolding b i using small [of "m - k"] by auto
  then have "bit (((e AND pte_addr_mask) AND NOT (2 ^ (k + 9) - 1)) + of_nat i * 2 ^ k :: u64) n \<longleftrightarrow>
      bit ((e AND pte_addr_mask) AND NOT (2 ^ (k + 9) - 1) :: u64) n \<or> bit (of_nat i * 2 ^ k :: u64) n"
    by (rule bit_disjunctive_add_iff)
  then show ?thesis unfolding b i using small [of "n - k"] assms(2) by auto
qed

lemma bit_split_entry:
  assumes "i < 512"
  shows "bit (split_entry e level i) n \<longleftrightarrow>
    (let k = (if level = 1 then 21 else 12) in
     if n < k then (n < 5 \<and> bit e n \<or> level = 1 \<and> n = 7)
     else if n < k + 9 then bit i (n - k)
     else if n < 52 then bit e n else n = 63 \<and> bit e n)"
proof -
  have *: "bit ((((e AND pte_addr_mask) AND NOT (2 ^ 30 - 1)) + of_nat i * 2 ^ 21) :: u64) n \<longleftrightarrow>
      (if n < 21 then False else if n < 30 then bit i (n - 21) else bit e n \<and> n < 52)"
    "bit ((((e AND pte_addr_mask) AND NOT (2 ^ 21 - 1)) + of_nat i * 2 ^ 12) :: u64) n \<longleftrightarrow>
      (if n < 12 then False else if n < 21 then bit i (n - 12) else bit e n \<and> n < 52)"
    using split_base [OF assms, of 21 e n] split_base [OF assms, of 12 e n] by auto
  have f: "bit (e AND (pte_present OR pte_writable OR pte_user OR 0x18 OR 2 ^ 63)) n \<longleftrightarrow>
      bit e n \<and> (n < 5 \<or> n = 63)"
    by (simp only: pte_bits) auto
  show ?thesis
  proof (cases "level = 1")
    case True
    then show ?thesis unfolding split_entry_def Let_def if_P [OF True] bit_or_iff [of _ pte_huge] bit_or_iff [of "_ + _"]
      unfolding * f by (simp only: pte_bits if_True) auto
  next
    case False
    then show ?thesis unfolding split_entry_def Let_def if_not_P [OF False] bit_or_iff * f by auto
  qed
qed

lemma split_entry_flags:
  assumes "i < 512"
  shows "has_flag (split_entry e level i) pte_present \<longleftrightarrow> has_flag e pte_present"
    and "(acc AND table_link a) AND split_entry e level i AND (pte_writable OR pte_user)
         = acc AND e AND (pte_writable OR pte_user)"
    and "leaf_flags (split_entry e level i) = leaf_flags e"
    and "has_flag (split_entry e 1 i) pte_huge"
proof -
  show "has_flag (split_entry e level i) pte_present \<longleftrightarrow> has_flag e pte_present"
    by (simp add: has_flag_bit bit_split_entry [OF assms] Let_def)
  show "(acc AND table_link a) AND split_entry e level i AND (pte_writable OR pte_user)
      = acc AND e AND (pte_writable OR pte_user)"
    by (rule bit_eqI) (auto simp: pte_bits table_link_bits bit_split_entry [OF assms] Let_def)
  show "leaf_flags (split_entry e level i) = leaf_flags e"
    unfolding leaf_flags_def
    by (rule bit_eqI, simp only: pte_bits bit_split_entry [OF assms] Let_def) auto
  show "has_flag (split_entry e 1 i) pte_huge"
    by (simp add: has_flag_bit bit_split_entry [OF assms])
qed

lemma split_entry_address:
  assumes "i < 512"
  shows "huge_page (split_entry e 1 i) [j] = huge_page e [i, j]"
    and "split_entry e 2 i AND pte_addr_mask = huge_page e [i]"
proof -
  have "(split_entry e 1 i AND pte_addr_mask) AND NOT (2 ^ 21 - 1)
      = ((e AND pte_addr_mask) AND NOT (2 ^ 30 - 1)) + of_nat i * 2 ^ 21"
  proof (rule bit_eqI)
    fix n
    show "bit ((split_entry e 1 i AND pte_addr_mask) AND NOT (2 ^ 21 - 1)) n
        \<longleftrightarrow> bit (((e AND pte_addr_mask) AND NOT (2 ^ 30 - 1)) + of_nat i * 2 ^ 21) n"
      using split_base [OF assms, of 21 e n]
      by (simp only: pte_bits bit_low_mask bit_split_entry [OF assms] Let_def) auto
  qed
  then show "huge_page (split_entry e 1 i) [j] = huge_page e [i, j]" by simp
  show "split_entry e 2 i AND pte_addr_mask = huge_page e [i]"
    using split_base [OF assms, of 12 e]
    by (intro bit_eqI) (auto simp: pte_bits bit_split_entry [OF assms] Let_def)
qed

section \<open>Trees of tables\<close>

definition child :: "(u64 \<Rightarrow> nat \<Rightarrow> u64) \<Rightarrow> nat \<Rightarrow> u64 \<Rightarrow> nat \<Rightarrow> u64 option" where
  "child f l t i =
     (if has_flag (f t i) pte_present \<and> \<not> (has_flag (f t i) pte_huge \<and> l < 2)
      then Some (f t i AND pte_addr_mask) else None)"

text \<open>The tables below (and including) a table at level \<open>l\<close>.\<close>

primrec tables :: "(u64 \<Rightarrow> nat \<Rightarrow> u64) \<Rightarrow> nat \<Rightarrow> u64 \<Rightarrow> u64 set" where
  "tables f 0 t = {t}"
| "tables f (Suc l) t = insert t (\<Union>i \<in> {..<512}. case child f l t i of None \<Rightarrow> {} | Some c \<Rightarrow> tables f l c)"

text \<open>No table is reached along two paths.\<close>

primrec table_tree :: "(u64 \<Rightarrow> nat \<Rightarrow> u64) \<Rightarrow> nat \<Rightarrow> u64 \<Rightarrow> bool" where
  "table_tree f 0 t \<longleftrightarrow> True"
| "table_tree f (Suc l) t \<longleftrightarrow>
     (\<forall>i < 512. \<forall>c. child f l t i = Some c \<longrightarrow>
        table_tree f l c \<and> t \<notin> tables f l c \<and>
        (\<forall>j < 512. \<forall>d. j \<noteq> i \<longrightarrow> child f l t j = Some d \<longrightarrow> tables f l c \<inter> tables f l d = {}))"

lemma tables_self [simp]: "t \<in> tables f l t"
  by (cases l) simp_all

lemma tables_child: "child f l t i = Some c \<Longrightarrow> i < 512 \<Longrightarrow> tables f l c \<subseteq> tables f (Suc l) t"
  by force

text \<open>Only the contents of the tables below matter.\<close>

lemma tables_cong: "(\<And>x. x \<in> tables f l t \<Longrightarrow> f' x = f x) \<Longrightarrow> tables f' l t = tables f l t"
proof (induction l arbitrary: t)
  case (Suc l)
  have ft: "f' t = f t" using Suc.prems [of t] by simp
  then have ch: "child f' l t i = child f l t i" for i by (simp add: child_def)
  have "tables f' l c = tables f l c" if "child f l t i = Some c" "i < 512" for i c
    using tables_child [OF that] Suc.prems by (intro Suc.IH) blast
  then show ?case by (auto simp: ch split: option.splits)
qed simp

lemma table_tree_cong:
  "(\<And>x. x \<in> tables f l t \<Longrightarrow> f' x = f x) \<Longrightarrow> table_tree f' l t \<longleftrightarrow> table_tree f l t"
proof (induction l arbitrary: t)
  case (Suc l)
  have ft: "f' t = f t" using Suc.prems [of t] by simp
  then have ch: "child f' l t i = child f l t i" for i by (simp add: child_def)
  have agree: "f' x = f x" if "child f l t i = Some c" "i < 512" "x \<in> tables f l c" for i c x
    using tables_child [OF that(1,2)] that(3) Suc.prems by blast
  have "tables f' l c = tables f l c" "table_tree f' l c = table_tree f l c"
    if "child f l t i = Some c" "i < 512" for i c
    using agree [OF that] by (auto intro!: tables_cong Suc.IH)
  then show ?case by (simp add: ch cong: conj_cong imp_cong)
qed simp

lemma lookup_child:
  "lookup f (Suc l) t (i # is) acc =
     (case child f l t i of
        Some c \<Rightarrow> lookup f l c is (acc AND f t i)
      | None \<Rightarrow>
          if has_flag (f t i) pte_present
          then Some (huge_page (f t i) is, acc AND f t i AND (pte_writable OR pte_user), leaf_flags (f t i))
          else None)"
  by (simp add: child_def Let_def)

declare lookup.simps(3) [simp del]

lemma lookup_cong:
  "(\<And>x. x \<in> tables f l t \<Longrightarrow> f' x = f x) \<Longrightarrow> set is \<subseteq> {..<512} \<Longrightarrow>
   lookup f' l t is acc = lookup f l t is acc"
proof (induction l arbitrary: t "is" acc)
  case 0
  then show ?case by (cases "is") simp_all
next
  case (Suc l)
  have ft: "f' t = f t" using Suc.prems(1) [of t] by simp
  then have ch: "child f' l t i = child f l t i" for i by (simp add: child_def)
  show ?case
  proof (cases "is")
    case (Cons i js)
    have "lookup f' l c js (acc AND f t i) = lookup f l c js (acc AND f t i)" if "child f l t i = Some c" for c
      using tables_child [OF that] Suc.prems Cons by (intro Suc.IH) auto
    then show ?thesis by (simp add: Cons lookup_child ch ft split: option.splits)
  qed simp
qed

lemma table_treeD:
  assumes "table_tree f (Suc l) t" "i < 512" "child f l t i = Some c"
  shows "table_tree f l c" "t \<notin> tables f l c"
    and "j < 512 \<Longrightarrow> child f l t j = Some d \<Longrightarrow> j \<noteq> i \<Longrightarrow> tables f l c \<inter> tables f l d = {}"
  using assms by simp_all

lemma tablesE:
  assumes "x \<in> tables f (Suc l) t"
  obtains "x = t" | i c where "i < 512" "child f l t i = Some c" "x \<in> tables f l c"
  using assms by (auto split: option.splits)

text \<open>
  Changing the tables below one child: \<open>f'\<close> agrees with \<open>f\<close> on the table itself and outside the
  child's tables and the new tables \<open>N\<close>.
\<close>

lemma subtree_change:
  assumes tree: "table_tree f (Suc l) t" and i: "i < 512" "child f l t i = Some c"
    and new: "N \<inter> tables f (Suc l) t = {}"
    and agree: "\<forall>x. x \<notin> tables f l c \<union> N \<longrightarrow> f' x = f x"
    and sub: "table_tree f' l c" "tables f' l c \<subseteq> tables f l c \<union> N"
  shows "table_tree f' (Suc l) t \<and> tables f' (Suc l) t \<subseteq> tables f (Suc l) t \<union> N"
    and "set js \<subseteq> {..<512} \<Longrightarrow> j < 512 \<Longrightarrow> lookup f' (Suc l) t (j # js) acc =
      (if j = i then lookup f' l c js (acc AND f t i) else lookup f (Suc l) t (j # js) acc)"
proof -
  have t: "t \<notin> tables f l c" "t \<notin> N" using table_treeD(2) [OF tree i] new by auto
  then have ft: "f' t = f t" using agree by simp
  then have ch: "child f' l t j = child f l t j" for j by (simp add: child_def)
  have other: "tables f l d \<inter> (tables f l c \<union> N) = {}" if "j < 512" "j \<noteq> i" "child f l t j = Some d" for j d
    using table_treeD(3) [OF tree i that(1,3,2)] tables_child [OF that(3,1)] new by blast
  then have same: "tables f' l d = tables f l d" "table_tree f' l d = table_tree f l d"
    "set js \<subseteq> {..<512} \<Longrightarrow> lookup f' l d js acc = lookup f l d js acc"
    if "j < 512" "j \<noteq> i" "child f l t j = Some d" for j d js acc
    using agree that by (intro tables_cong table_tree_cong lookup_cong; blast)+
  have below: "tables f l d \<subseteq> tables f (Suc l) t" if "j < 512" "child f l t j = Some d" for j d
    using that tables_child by blast
  have disj: "tables f' l d \<inter> tables f' l e = {}"
    if "j < 512" "k < 512" "j \<noteq> k" "child f l t j = Some d" "child f l t k = Some e" for j k d e
  proof (cases "j = i \<or> k = i")
    case True
    then show ?thesis
      using other [of j d] other [of k e] same(1) [of j d] same(1) [of k e] that i(2) sub(2) by auto blast+
  next
    case False
    then show ?thesis using table_treeD(3) [OF tree that(1,4,2,5)] same(1) that by auto
  qed
  have "table_tree f' l d \<and> t \<notin> tables f' l d" if "j < 512" "child f l t j = Some d" for j d
  proof (cases "j = i")
    case True
    then show ?thesis using that i(2) sub t by auto
  next
    case False
    then show ?thesis using table_treeD(1,2) [OF tree that] same(1,2) [OF that(1) False that(2)] by simp
  qed
  then have "table_tree f' (Suc l) t" using disj by (simp add: ch)
  moreover have "tables f' (Suc l) t \<subseteq> tables f (Suc l) t \<union> N"
  proof
    fix x assume "x \<in> tables f' (Suc l) t"
    then show "x \<in> tables f (Suc l) t \<union> N"
    proof (rule tablesE)
      fix j d assume j: "j < 512" "child f' l t j = Some d" "x \<in> tables f' l d"
      show ?thesis
      proof (cases "j = i")
        case True
        then show ?thesis using j i sub(2) below [OF i] by (auto simp: ch)
      next
        case False
        then show ?thesis using j same(1) [of j d] below [of j d] by (auto simp: ch)
      qed
    qed simp
  qed
  ultimately show "table_tree f' (Suc l) t \<and> tables f' (Suc l) t \<subseteq> tables f (Suc l) t \<union> N" by simp
  show "lookup f' (Suc l) t (j # js) acc =
      (if j = i then lookup f' l c js (acc AND f t i) else lookup f (Suc l) t (j # js) acc)"
    if "set js \<subseteq> {..<512}" "j < 512"
    using i same that by (simp add: lookup_child ch ft split: option.splits)
qed

lemma frames_fill_table:
  "frames (fill_table t g s) = (frames s)(t := (\<lambda>i. if i < 512 then g i else frames s t i))"
  "page_alloc (fill_table t g s) = page_alloc s" "kernel_pml4_phys (fill_table t g s) = kernel_pml4_phys s"
proof -
  have "frames (fold (\<lambda>i. set_entry t i (g i)) [0 ..< n] s) =
      (frames s)(t := (\<lambda>i. if i < n then g i else frames s t i))
    \<and> page_alloc (fold (\<lambda>i. set_entry t i (g i)) [0 ..< n] s) = page_alloc s
    \<and> kernel_pml4_phys (fold (\<lambda>i. set_entry t i (g i)) [0 ..< n] s) = kernel_pml4_phys s" for n
    by (induction n) (auto simp: set_entry_def fun_eq_iff less_Suc_eq)
  then show "frames (fill_table t g s) = (frames s)(t := (\<lambda>i. if i < 512 then g i else frames s t i))"
    "page_alloc (fill_table t g s) = page_alloc s" "kernel_pml4_phys (fill_table t g s) = kernel_pml4_phys s"
    unfolding fill_table_def by blast+
qed

lemma frames_set_entry [simp]:
  "frames (set_entry t i v s) = (frames s)(t := (frames s t)(i := v))"
  "page_alloc (set_entry t i v s) = page_alloc s" "kernel_pml4_phys (set_entry t i v s) = kernel_pml4_phys s"
  by (simp_all add: set_entry_def)

lemma child_link: "page_index_valid p \<Longrightarrow> f t i = table_link (p * page_size) \<Longrightarrow>
   child f l t i = Some (p * page_size)"
  by (simp add: child_def has_flag_bit table_link_bits table_link_addr page_address_bits)

text \<open>Hanging a new table without children below an entry that had no child.\<close>

lemma add_child:
  assumes tree: "table_tree f (Suc l) t" and i: "i < 512" "child f l t i = None"
    and a: "page_index_valid p" "a = p * page_size" "a \<notin> tables f (Suc l) t"
    and f': "f' = f(a := g, t := (f t)(i := table_link a))"
    and g: "\<forall>k l'. l = Suc l' \<longrightarrow> k < 512 \<longrightarrow> child f' l' a k = None"
  shows "child f' l t i = Some a" "table_tree f' (Suc l) t"
    "tables f' (Suc l) t \<subseteq> insert a (tables f (Suc l) t)"
    "j \<noteq> i \<Longrightarrow> j < 512 \<Longrightarrow> set js \<subseteq> {..<512} \<Longrightarrow>
       lookup f' (Suc l) t (j # js) acc = lookup f (Suc l) t (j # js) acc"
    "lookup f' (Suc l) t (i # js) acc = lookup f' l a js (acc AND table_link a)"
proof -
  have "a \<noteq> t" using a(3) by auto
  show c: "child f' l t i = Some a" using a \<open>a \<noteq> t\<close> by (simp add: f' child_link)
  have ch: "child f' l t j = child f l t j" if "j \<noteq> i" for j
    using that by (simp add: f' child_def)
  have new: "tables f' l a = {a}" "table_tree f' l a"
    using g by (cases l; simp)+
  have out: "t \<notin> tables f l d" "a \<notin> tables f l d" if "j < 512" "child f l t j = Some d" for j d
    using table_treeD(2) [OF tree that] tables_child [OF that(2,1)] a(3) by auto
  have same: "tables f' l d = tables f l d" "table_tree f' l d = table_tree f l d"
    "set js \<subseteq> {..<512} \<Longrightarrow> lookup f' l d js acc = lookup f l d js acc"
    if "j < 512" "child f l t j = Some d" for j d js acc
    using out [OF that] by (intro tables_cong table_tree_cong lookup_cong; auto simp: f')+
  have sub: "(j = i \<longrightarrow> d = a) \<and> (j \<noteq> i \<longrightarrow> child f l t j = Some d \<and> tables f' l d = tables f l d)"
    if "j < 512" "child f' l t j = Some d" for j d
    using that c ch [of j] same(1) [of j d] by (cases "j = i") auto
  have one: "table_tree f' l d \<and> t \<notin> tables f' l d" if "j < 512" "child f' l t j = Some d" for j d
    using sub [OF that] new \<open>a \<noteq> t\<close> same(2) [of j d] out(1) [of j d] table_treeD(1) [OF tree, of j d] that
    by (cases "j = i") auto
  have two: "tables f' l d \<inter> tables f' l e = {}"
    if "j < 512" "k < 512" "j \<noteq> k" "child f' l t j = Some d" "child f' l t k = Some e" for j k d e
    using sub [OF that(1,4)] sub [OF that(2,5)] new(1) out(2) [of j d] out(2) [of k e] that
      table_treeD(3) [OF tree, of j d k e]
    by (cases "j = i"; cases "k = i") auto
  show "table_tree f' (Suc l) t" using one two by simp
  show "tables f' (Suc l) t \<subseteq> insert a (tables f (Suc l) t)"
  proof
    fix x assume "x \<in> tables f' (Suc l) t"
    then show "x \<in> insert a (tables f (Suc l) t)"
    proof (rule tablesE)
      fix j d assume j: "j < 512" "child f' l t j = Some d" "x \<in> tables f' l d"
      show ?thesis
      proof (cases "j = i")
        case True
        then show ?thesis using j c new by auto
      next
        case False
        then show ?thesis using j ch same(1) [of j d] tables_child [of f l t j d] by auto
      qed
    qed simp
  qed
  show "lookup f' (Suc l) t (j # js) acc = lookup f (Suc l) t (j # js) acc"
    if "j \<noteq> i" "j < 512" "set js \<subseteq> {..<512}"
  proof -
    have "f' t j = f t j" using that(1) by (simp add: f')
    then show ?thesis using same(3) [OF that(2) _ that(3)] by (simp add: lookup_child ch [OF that(1)] split: option.splits)
  qed
  show "lookup f' (Suc l) t (i # js) acc = lookup f' l a js (acc AND table_link a)"
    by (simp add: lookup_child c) (simp add: f')
qed

section \<open>Descending one level\<close>

definition enter_table :: "nat \<Rightarrow> u64 \<Rightarrow> nat \<Rightarrow> vmm \<Rightarrow> (u64 \<times> vmm) option" where
  "enter_table l t i s =
     do { s \<leftarrow> (if l < 2 then split_if_huge t i (2 - l) s else Some s); ensure_table t i s }"

text \<open>
  \<open>grows l t s s' N\<close>: from \<open>s\<close> to \<open>s'\<close> the manager took the pages \<open>N\<close>, changed only them and the
  tables below \<open>t\<close>, and \<open>t\<close> is still the root of a tree of tables.
\<close>

definition vmm_ok :: "nat \<Rightarrow> u64 \<Rightarrow> vmm \<Rightarrow> bool" where
  "vmm_ok l t s \<longleftrightarrow> table_tree (frames s) l t \<and> pmm_inv (page_alloc s)
     \<and> tables (frames s) l t \<inter> pmm_avail (page_alloc s) = {}"

definition grows :: "nat \<Rightarrow> u64 \<Rightarrow> vmm \<Rightarrow> vmm \<Rightarrow> u64 set \<Rightarrow> bool" where
  "grows l t s s' N \<longleftrightarrow>
     pmm_inv (page_alloc s') \<and> N \<subseteq> pmm_avail (page_alloc s)
     \<and> pmm_avail (page_alloc s') = pmm_avail (page_alloc s) - N
     \<and> (\<forall>x. x \<notin> tables (frames s) l t \<union> N \<longrightarrow> frames s' x = frames s x)
     \<and> table_tree (frames s') l t \<and> tables (frames s') l t \<subseteq> tables (frames s) l t \<union> N
     \<and> kernel_pml4_phys s' = kernel_pml4_phys s"

lemma grows_ok: "vmm_ok l t s \<Longrightarrow> grows l t s s' N \<Longrightarrow> vmm_ok l t s'"
  unfolding vmm_ok_def grows_def by blast

lemma grows_refl: "vmm_ok l t s \<Longrightarrow> grows l t s s {}"
  by (simp add: vmm_ok_def grows_def)

lemma grows_trans:
  assumes "grows l t s s1 N" "grows l t s1 s2 M"
  shows "grows l t s s2 (N \<union> M)"
proof -
  have a: "N \<subseteq> pmm_avail (page_alloc s)" "pmm_avail (page_alloc s1) = pmm_avail (page_alloc s) - N"
    "\<forall>x. x \<notin> tables (frames s) l t \<union> N \<longrightarrow> frames s1 x = frames s x"
    "tables (frames s1) l t \<subseteq> tables (frames s) l t \<union> N" "kernel_pml4_phys s1 = kernel_pml4_phys s"
    using assms(1) by (simp_all add: grows_def)
  have b: "pmm_inv (page_alloc s2)" "M \<subseteq> pmm_avail (page_alloc s1)"
    "pmm_avail (page_alloc s2) = pmm_avail (page_alloc s1) - M"
    "\<forall>x. x \<notin> tables (frames s1) l t \<union> M \<longrightarrow> frames s2 x = frames s1 x" "table_tree (frames s2) l t"
    "tables (frames s2) l t \<subseteq> tables (frames s1) l t \<union> M" "kernel_pml4_phys s2 = kernel_pml4_phys s1"
    using assms(2) by (simp_all add: grows_def)
  have "frames s2 x = frames s x" if "x \<notin> tables (frames s) l t \<union> (N \<union> M)" for x
  proof -
    have "x \<notin> tables (frames s1) l t \<union> M" using that a(4) by auto
    then show ?thesis using a(3) b(4) that by simp
  qed
  moreover have "N \<union> M \<subseteq> pmm_avail (page_alloc s)" using a b(2) by auto
  moreover have "tables (frames s2) l t \<subseteq> tables (frames s) l t \<union> (N \<union> M)" using a(4) b(6) by auto
  moreover have "pmm_avail (page_alloc s2) = pmm_avail (page_alloc s) - (N \<union> M)" using a(2) b(3) by auto
  ultimately show ?thesis using a(5) b(1,5,7) by (simp add: grows_def)
qed

lemma grows_below:
  assumes ok: "vmm_ok (Suc l) t s" and i: "i < 512" "child (frames s) l t i = Some c"
    and sub: "grows l c s s' N"
  shows "grows (Suc l) t s s' N"
    and "set js \<subseteq> {..<512} \<Longrightarrow> j < 512 \<Longrightarrow> lookup (frames s') (Suc l) t (j # js) acc =
      (if j = i then lookup (frames s') l c js (acc AND frames s t i)
       else lookup (frames s) (Suc l) t (j # js) acc)"
proof -
  have tree: "table_tree (frames s) (Suc l) t" using ok by (simp only: vmm_ok_def)
  have new: "N \<inter> tables (frames s) (Suc l) t = {}" using ok sub unfolding vmm_ok_def grows_def by blast
  have agree: "\<forall>x. x \<notin> tables (frames s) l c \<union> N \<longrightarrow> frames s' x = frames s x"
    and tree': "table_tree (frames s') l c" "tables (frames s') l c \<subseteq> tables (frames s) l c \<union> N"
    using sub unfolding grows_def by blast+
  note change = subtree_change [OF tree i new agree tree']
  have "tables (frames s) l c \<subseteq> tables (frames s) (Suc l) t" by (rule tables_child [OF i(2,1)])
  then have "\<forall>x. x \<notin> tables (frames s) (Suc l) t \<union> N \<longrightarrow> frames s' x = frames s x" using agree by blast
  then show "grows (Suc l) t s s' N" using change(1) sub unfolding grows_def by blast
  show "lookup (frames s') (Suc l) t (j # js) acc =
      (if j = i then lookup (frames s') l c js (acc AND frames s t i)
       else lookup (frames s) (Suc l) t (j # js) acc)" if "set js \<subseteq> {..<512}" "j < 512"
    by (rule change(2) [OF that])
qed

lemma vmm_ok_child:
  assumes "vmm_ok (Suc l) t s" "i < 512" "child (frames s) l t i = Some c"
  shows "vmm_ok l c s"
proof -
  have tree: "table_tree (frames s) (Suc l) t" using assms(1) by (simp only: vmm_ok_def)
  show ?thesis using assms(1) table_treeD(1) [OF tree assms(2,3)] tables_child [OF assms(3,2)]
    unfolding vmm_ok_def by blast
qed

lemma vmm_alloc_page_cases:
  assumes "vmm_alloc_page s = (a, s1)" "pmm_inv (page_alloc s)" "a \<noteq> invalid_physical_address"
  obtains p where "page_index_valid p" "a = p * page_size" "a \<in> pmm_avail (page_alloc s)"
    "pmm_avail (page_alloc s1) = pmm_avail (page_alloc s) - {a}" "pmm_inv (page_alloc s1)"
    "frames s1 = frames s" "kernel_pml4_phys s1 = kernel_pml4_phys s"
proof -
  obtain p' where p': "alloc_page (page_alloc s) = (a, p')" "s1 = s\<lparr>page_alloc := p'\<rparr>"
    using assms(1) by (auto simp: vmm_alloc_page_def split: prod.splits)
  have "a \<in> pmm_avail (page_alloc s)" "pmm_avail p' = pmm_avail (page_alloc s) - {a}"
    using pmm.alloc_ok [OF assms(2) p'(1) assms(3)] by auto
  moreover obtain p where "page_index_valid p" "a = p * page_size"
    using pmm_avail_sole_page [of a "page_alloc s"] \<open>a \<in> pmm_avail (page_alloc s)\<close> by auto
  ultimately show ?thesis using that p'(2) pmm.alloc_invar [OF assms(2) p'(1)] by simp
qed

lemma fresh_child:
  assumes ok: "vmm_ok (Suc l) t s" and i: "i < 512" "child (frames s) l t i = None"
    and alloc: "vmm_alloc_page s = (a, s1)" "a \<noteq> invalid_physical_address"
    and s': "s' = set_entry t i (table_link a) (fill_table a g s1)"
    and g: "\<forall>k l'. l = Suc l' \<longrightarrow> k < 512 \<longrightarrow> child (frames s') l' a k = None"
    and look: "\<forall>js acc. length js = Suc l \<longrightarrow> set js \<subseteq> {..<512} \<longrightarrow>
      lookup (frames s') l a js (acc AND table_link a) = lookup (frames s) (Suc l) t (i # js) acc"
  shows "child (frames s') l t i = Some a \<and> grows (Suc l) t s s' {a} \<and>
    (\<forall>j js acc. length js = Suc l \<longrightarrow> j < 512 \<longrightarrow> set js \<subseteq> {..<512} \<longrightarrow>
      lookup (frames s') (Suc l) t (j # js) acc = lookup (frames s) (Suc l) t (j # js) acc)"
proof -
  from ok have inv: "pmm_inv (page_alloc s)" and tree: "table_tree (frames s) (Suc l) t"
    and apart: "tables (frames s) (Suc l) t \<inter> pmm_avail (page_alloc s) = {}" by (simp_all only: vmm_ok_def)
  obtain p where p: "page_index_valid p" "a = p * page_size" "a \<in> pmm_avail (page_alloc s)"
    "pmm_avail (page_alloc s1) = pmm_avail (page_alloc s) - {a}" "pmm_inv (page_alloc s1)"
    "frames s1 = frames s" "kernel_pml4_phys s1 = kernel_pml4_phys s"
    by (rule vmm_alloc_page_cases [OF alloc(1) inv alloc(2)])
  have a: "a \<notin> tables (frames s) (Suc l) t" using apart p(3) by blast
  then have at: "a \<noteq> t" by auto
  have f': "frames s' = (frames s)(a := (\<lambda>k. if k < 512 then g k else frames s a k),
      t := (frames s t)(i := table_link a))"
    unfolding s' frames_set_entry frames_fill_table p(6) using at by simp
  note add = add_child [OF tree i p(1,2) a f' g]
  have "frames s' x = frames s x" if "x \<notin> tables (frames s) (Suc l) t \<union> {a}" for x
    using that by (auto simp: f')
  moreover have "page_alloc s' = page_alloc s1" "kernel_pml4_phys s' = kernel_pml4_phys s"
    by (simp_all add: s' frames_fill_table p(7))
  ultimately have "grows (Suc l) t s s' {a}"
    using add(2,3) p(3,4,5) by (simp del: tables.simps table_tree.simps add: grows_def)
  moreover have "lookup (frames s') (Suc l) t (j # js) acc = lookup (frames s) (Suc l) t (j # js) acc"
    if "length js = Suc l" "j < 512" "set js \<subseteq> {..<512}" for j js acc
    using add(4) [of j js acc] add(5) [of js acc] look that by (cases "j = i") simp_all
  ultimately show ?thesis using add(1) by blast
qed

lemma lookup_zero_table: "\<forall>k < 512. f a k = 0 \<Longrightarrow> set js \<subseteq> {..<512} \<Longrightarrow> lookup f l a js acc = None"
  by (cases l; cases js) (auto simp: lookup_child child_def has_flag_def)

lemma alloc_not_table:
  assumes "vmm_ok (Suc l) t s" "vmm_alloc_page s = (a, s1)" "a \<noteq> invalid_physical_address"
  shows "a \<noteq> t" "table_link a AND pte_addr_mask = a" "frames s1 = frames s"
proof -
  have inv: "pmm_inv (page_alloc s)" using assms(1) by (simp add: vmm_ok_def)
  obtain p where p: "page_index_valid p" "a = p * page_size" "a \<in> pmm_avail (page_alloc s)" "frames s1 = frames s"
    by (rule vmm_alloc_page_cases [OF assms(2) inv assms(3)])
  then show "table_link a AND pte_addr_mask = a" "frames s1 = frames s" by (simp_all add: table_link_addr)
  have "t \<notin> pmm_avail (page_alloc s)" using assms(1) unfolding vmm_ok_def by (meson disjoint_iff tables_self)
  with p(3) show "a \<noteq> t" by blast
qed

lemma ensure_new_table:
  assumes ok: "vmm_ok (Suc l) t s" and i: "i < 512" and absent: "\<not> has_flag (frames s t i) pte_present"
    and enter: "ensure_table t i s = Some (c, s')"
  shows "\<exists>N. child (frames s') l t i = Some c \<and> grows (Suc l) t s s' N \<and>
    (\<forall>j js acc. length js = Suc l \<longrightarrow> j < 512 \<longrightarrow> set js \<subseteq> {..<512} \<longrightarrow>
      lookup (frames s') (Suc l) t (j # js) acc = lookup (frames s) (Suc l) t (j # js) acc)"
proof -
  obtain a s1 where al: "vmm_alloc_page s = (a, s1)" by (cases "vmm_alloc_page s")
  have a: "a \<noteq> invalid_physical_address" and s': "s' = set_entry t i (table_link a) (fill_table a (\<lambda>_. 0) s1)"
    and c: "c = table_link a AND pte_addr_mask"
    using enter absent al by (auto simp: ensure_table_def split: if_splits)
  note fresh = alloc_not_table [OF ok al a]
  have none: "child (frames s) l t i = None" using absent by (simp add: child_def)
  have zero: "\<forall>k < 512. frames s' a k = 0"
    using fresh(1) by (simp add: s' frames_fill_table)
  then have no_child: "\<forall>k l'. l = Suc l' \<longrightarrow> k < 512 \<longrightarrow> child (frames s') l' a k = None"
    by (simp add: child_def has_flag_def)
  have "lookup (frames s') l a js (acc AND table_link a) = lookup (frames s) (Suc l) t (i # js) acc"
    if "set js \<subseteq> {..<512}" for js acc
    using lookup_zero_table [where f = "frames s'" and a = a, OF zero that] none absent by (simp add: lookup_child)
  then have look: "\<forall>js acc. length js = Suc l \<longrightarrow> set js \<subseteq> {..<512} \<longrightarrow>
      lookup (frames s') l a js (acc AND table_link a) = lookup (frames s) (Suc l) t (i # js) acc"
    by blast
  have "c = a" using c fresh(2) by simp
  then show ?thesis using fresh_child [OF ok i none al a s' no_child look] by blast
qed

lemma split_new_table:
  assumes ok: "vmm_ok (Suc l) t s" and l: "l < 2" and i: "i < 512"
    and huge: "has_flag (frames s t i) pte_present" "has_flag (frames s t i) pte_huge"
    and split: "split_huge t i (2 - l) s = Some s'" and c: "c = frames s' t i AND pte_addr_mask"
  shows "\<exists>N. child (frames s') l t i = Some c \<and> grows (Suc l) t s s' N \<and>
    (\<forall>j js acc. length js = Suc l \<longrightarrow> j < 512 \<longrightarrow> set js \<subseteq> {..<512} \<longrightarrow>
      lookup (frames s') (Suc l) t (j # js) acc = lookup (frames s) (Suc l) t (j # js) acc)"
proof -
  let ?e = "frames s t i"
  obtain a s1 where al: "vmm_alloc_page s = (a, s1)" by (cases "vmm_alloc_page s")
  have a: "a \<noteq> invalid_physical_address"
    and s': "s' = set_entry t i (table_link a) (fill_table a (split_entry ?e (2 - l)) s1)"
    using split al by (auto simp: split_huge_def Let_def split: if_splits)
  note fresh = alloc_not_table [OF ok al a]
  have c: "c = a" using fresh(2) by (simp add: c s')
  have none: "child (frames s) l t i = None" using huge l by (simp add: child_def)
  have sub: "frames s' a k = split_entry ?e (2 - l) k" if "k < 512" for k
    using that fresh(1) by (simp add: s' frames_fill_table)
  have none_below: "child (frames s') l' a k = None" if "l = Suc l'" "k < 512" for k l'
  proof -
    have "l = 1" "l' = 0" using that(1) l by auto
    then show ?thesis using sub [OF that(2)] split_entry_flags(4) [OF that(2), of ?e] by (simp add: child_def)
  qed
  then have no_child: "\<forall>k l'. l = Suc l' \<longrightarrow> k < 512 \<longrightarrow> child (frames s') l' a k = None" by blast
  have "lookup (frames s') l a js (acc AND table_link a) = lookup (frames s) (Suc l) t (i # js) acc"
    if idx: "length js = Suc l" "set js \<subseteq> {..<512}" for js acc
  proof -
    obtain k ks where js: "js = k # ks" "k < 512" "length ks = l" using idx by (cases js) auto
    note flags = split_entry_flags [OF js(2)]
    show ?thesis
    proof (cases "l = 0")
      case True
      then have "ks = []" using js by simp
      then show ?thesis using True none huge js flags sub [OF js(2)] split_entry_address(2) [OF js(2)]
        by (simp add: lookup_child)
    next
      case False
      then have l1: "l = Suc 0" using l by simp
      then obtain k' where "ks = [k']" using js(3) by (auto simp: length_Suc_conv)
      then show ?thesis using l1 none huge js flags sub [OF js(2)] none_below [of 0 k] split_entry_address(1) [OF js(2)]
        by (simp add: lookup_child)
    qed
  qed
  then have look: "\<forall>js acc. length js = Suc l \<longrightarrow> set js \<subseteq> {..<512} \<longrightarrow>
      lookup (frames s') l a js (acc AND table_link a) = lookup (frames s) (Suc l) t (i # js) acc"
    by blast
  show ?thesis using fresh_child [OF ok i none al a s' no_child look] c by blast
qed

lemma enter_table_correct:
  assumes ok: "vmm_ok (Suc l) t s" and i: "i < 512" and enter: "enter_table l t i s = Some (c, s')"
  shows "\<exists>N. child (frames s') l t i = Some c \<and> grows (Suc l) t s s' N \<and>
    (\<forall>j js acc. length js = Suc l \<longrightarrow> j < 512 \<longrightarrow> set js \<subseteq> {..<512} \<longrightarrow>
      lookup (frames s') (Suc l) t (j # js) acc = lookup (frames s) (Suc l) t (j # js) acc)"
proof (cases "child (frames s) l t i")
  case (Some d)
  then have "s' = s" "c = d"
    using enter by (auto simp: enter_table_def split_if_huge_def ensure_table_def child_def split: if_splits)
  with Some grows_refl [OF ok] show ?thesis by blast
next
  case None
  show ?thesis
  proof (cases "has_flag (frames s t i) pte_present")
    case False
    then have "ensure_table t i s = Some (c, s')"
      using enter by (auto simp: enter_table_def split_if_huge_def split: if_splits)
    then show ?thesis by (rule ensure_new_table [OF ok i False])
  next
    case True
    then have huge: "has_flag (frames s t i) pte_huge" "l < 2" using None by (auto simp: child_def split: if_splits)
    then obtain s1 where s1: "split_huge t i (2 - l) s = Some s1" "ensure_table t i s1 = Some (c, s')"
      using enter True by (auto simp: enter_table_def split_if_huge_def bind_eq_Some_conv)
    have "frames s1 t i = table_link (fst (vmm_alloc_page s))"
      using s1(1) by (auto simp: split_huge_def Let_def split: prod.splits if_splits)
    then have "has_flag (frames s1 t i) pte_present" by (simp add: has_flag_bit table_link_bits)
    then have "s' = s1" "c = frames s1 t i AND pte_addr_mask"
      using s1(2) by (auto simp: ensure_table_def)
    then show ?thesis using split_new_table [OF ok huge(2) i True huge(1) s1(1)] by simp
  qed
qed

section \<open>Mapping a page\<close>

fun map_in :: "nat \<Rightarrow> u64 \<Rightarrow> nat list \<Rightarrow> u64 \<Rightarrow> vmm \<Rightarrow> vmm option" where
  "map_in l t [] e s = None"
| "map_in 0 t (i # is) e s = Some (set_entry t i e s)"
| "map_in (Suc l) t (i # is) e s = do { (c, s) \<leftarrow> enter_table l t i s; map_in l c is e s }"

definition page_path :: "u64 \<Rightarrow> nat list" where
  "page_path va = [table_index va 39, table_index va 30, table_index va 21, table_index va 12]"

definition translate :: "vmm \<Rightarrow> u64 \<Rightarrow> u64 \<Rightarrow> (u64 \<times> u64 \<times> u64) option" where
  "translate s root va = lookup (frames s) 3 root (page_path va) (pte_writable OR pte_user)"

lemma table_index_less [simp]: "table_index va k < 512"
proof -
  have "drop_bit k va AND 0x1FF = take_bit 9 (drop_bit k va)" by (simp add: take_bit_eq_mask mask_eq_exp_minus_1)
  then have "unat (drop_bit k va AND 0x1FF) = take_bit 9 (unat (drop_bit k va))"
    by (simp add: unsigned_take_bit_eq)
  then show ?thesis unfolding table_index_def using take_bit_nat_less_exp [of 9 "unat (drop_bit k va)"] by simp
qed

lemma page_path: "length (page_path va) = Suc 3" "set (page_path va) \<subseteq> {..<512}"
  by (simp_all add: page_path_def)

lemma map_page_in:
  "resolve_pml4 s pml4 \<noteq> 0 \<Longrightarrow> map_page va pa flags pml4 s =
     map_in 3 (resolve_pml4 s pml4) (page_path va) ((pa AND pte_addr_mask) OR flags) s"
  by (simp add: map_page_def page_path_def enter_table_def numeral_3_eq_3 Let_def case_prod_unfold)

lemma map_in_correct:
  assumes "vmm_ok l t s" "length is = Suc l" "set is \<subseteq> {..<512}" "map_in l t is e s = Some s'"
  shows "(\<exists>N. grows l t s s' N) \<and>
    (\<forall>js acc. length js = Suc l \<longrightarrow> set js \<subseteq> {..<512} \<longrightarrow> js \<noteq> is \<longrightarrow>
       lookup (frames s') l t js acc = lookup (frames s) l t js acc) \<and>
    (\<forall>acc. has_flag e pte_present \<longrightarrow> (\<exists>g. lookup (frames s') l t is acc =
       Some (e AND pte_addr_mask, (acc AND g) AND e AND (pte_writable OR pte_user), leaf_flags e)))"
  using assms
proof (induction l arbitrary: t s "is")
  case 0
  then obtain i where i: "is = [i]" "i < 512" by (auto simp: length_Suc_conv)
  have s': "s' = set_entry t i e s" using 0(4) i by simp
  have "grows 0 t s s' {}" using 0(1) by (simp add: grows_def vmm_ok_def s')
  moreover have "lookup (frames s') 0 t js acc = lookup (frames s) 0 t js acc"
    if js: "length js = Suc 0" "js \<noteq> is" for js acc
  proof -
    obtain j where "js = [j]" "j \<noteq> i" using js i by (auto simp: length_Suc_conv)
    then show ?thesis by (simp add: s')
  qed
  moreover have "lookup (frames s') 0 t is acc =
       Some (e AND pte_addr_mask, (acc AND - 1) AND e AND (pte_writable OR pte_user), leaf_flags e)"
    if "has_flag e pte_present" for acc using that by (simp add: i s')
  ultimately show ?case by blast
next
  case (Suc l)
  then obtain i ks where i: "is = i # ks" "length ks = Suc l" "i < 512" "set ks \<subseteq> {..<512}"
    by (cases "is") auto
  then obtain c s1 where c: "enter_table l t i s = Some (c, s1)" "map_in l c ks e s1 = Some s'"
    using Suc.prems(4) by (auto simp: bind_eq_Some_conv)
  from enter_table_correct [OF Suc.prems(1) i(3) c(1)]
  obtain N where N: "child (frames s1) l t i = Some c" "grows (Suc l) t s s1 N"
    and look: "\<And>j js acc. length js = Suc l \<Longrightarrow> j < 512 \<Longrightarrow> set js \<subseteq> {..<512} \<Longrightarrow>
      lookup (frames s1) (Suc l) t (j # js) acc = lookup (frames s) (Suc l) t (j # js) acc"
    by blast
  have ok1: "vmm_ok (Suc l) t s1" by (rule grows_ok [OF Suc.prems(1) N(2)])
  have okc: "vmm_ok l c s1" by (rule vmm_ok_child [OF ok1 i(3) N(1)])
  note IH = Suc.IH [OF okc i(2,4) c(2)]
  then obtain M where M: "grows l c s1 s' M" by blast
  note below = grows_below [OF ok1 i(3) N(1) M]
  have "grows (Suc l) t s s' (N \<union> M)" by (rule grows_trans [OF N(2) below(1)])
  moreover have "lookup (frames s') (Suc l) t js acc = lookup (frames s) (Suc l) t js acc"
    if js: "length js = Suc (Suc l)" "set js \<subseteq> {..<512}" "js \<noteq> is" for js acc
  proof -
    obtain j js' where j: "js = j # js'" "length js' = Suc l" "j < 512" "set js' \<subseteq> {..<512}"
      using js by (cases js) auto
    have "lookup (frames s') (Suc l) t (j # js') acc = lookup (frames s1) (Suc l) t (j # js') acc"
    proof (cases "j = i")
      case True
      then have "js' \<noteq> ks" using js(3) j(1) i(1) by simp
      then show ?thesis using True below(2) [OF j(4,3), of acc] IH j(2,4) N(1) by (simp add: lookup_child)
    qed (use below(2) [OF j(4,3), of acc] in simp)
    then show ?thesis using look [OF j(2,3,4)] j(1) by simp
  qed
  moreover have "\<exists>g. lookup (frames s') (Suc l) t is acc =
       Some (e AND pte_addr_mask, (acc AND g) AND e AND (pte_writable OR pte_user), leaf_flags e)"
    if pres: "has_flag e pte_present" for acc
  proof -
    obtain g where "lookup (frames s') l c ks (acc AND frames s1 t i) =
       Some (e AND pte_addr_mask, ((acc AND frames s1 t i) AND g) AND e AND (pte_writable OR pte_user), leaf_flags e)"
      using IH pres by blast
    then show ?thesis using below(2) [OF i(4,3), of acc]
      by (intro exI [of _ "frames s1 t i AND g"]) (simp add: i(1) and.assoc)
  qed
  ultimately show ?case by blast
qed

section \<open>Unmapping a page\<close>

lemma pmm_avail_free_page: "pmm_avail (free_page a p) \<subseteq> insert a (pmm_avail p)"
proof (cases "a mod page_size = 0 \<and> page_index_valid (a div page_size)")
  case True
  then have valid: "page_index_valid (a div page_size)" and a: "a = (a div page_size) * page_size"
    using word_mod_div_equality [of a page_size] by simp_all
  let ?q = "a div page_size"
  have view: "page_view (free_page a p) q = (if q = ?q then view_release (page_view p ?q) else page_view p q)" for q
    using page_view_free_page [OF valid, of p q] a by simp
  show ?thesis
  proof
    fix x assume "x \<in> pmm_avail (free_page a p)"
    then obtain q where q: "page_index_valid q" "x = q * page_size" "\<not> fst (page_view (free_page a p) q)"
      by (auto simp: pmm_avail_def free_set_view)
    show "x \<in> insert a (pmm_avail p)"
    proof (cases "q = ?q")
      case True
      then show ?thesis using q(2) a by simp
    next
      case False
      then show ?thesis using q view by (simp add: mem_pmm_avail)
    qed
  qed
next
  case False
  then have "free_page a p = p" by (auto simp: free_page_def free_pages_def Let_def)
  then show ?thesis by auto
qed

fun unmap_in :: "nat \<Rightarrow> u64 \<Rightarrow> nat list \<Rightarrow> vmm \<Rightarrow> vmm" where
  "unmap_in l t [] s = s"
| "unmap_in 0 t (i # is) s = set_entry t i 0 s"
| "unmap_in (Suc l) t (i # is) s =
     (let c = frames s t i AND pte_addr_mask in drop_if_empty c (Suc l) t i (unmap_in l c is s))"

text \<open>Every entry on the path is present and no large page is met.\<close>

fun mapped_small :: "(u64 \<Rightarrow> nat \<Rightarrow> u64) \<Rightarrow> nat \<Rightarrow> u64 \<Rightarrow> nat list \<Rightarrow> bool" where
  "mapped_small f l t [] \<longleftrightarrow> False"
| "mapped_small f 0 t (i # is) \<longleftrightarrow> has_flag (f t i) pte_present"
| "mapped_small f (Suc l) t (i # is) \<longleftrightarrow> (\<exists>c. child f l t i = Some c \<and> mapped_small f l c is)"

lemma childD: "child f l t i = Some c \<Longrightarrow> has_flag (f t i) pte_present \<and> f t i AND pte_addr_mask = c"
  by (simp add: child_def split: if_splits)

lemma unmap_page_present:
  assumes "resolve_pml4 s pml4 \<noteq> 0" and "has_flag (frames s (resolve_pml4 s pml4) (table_index va 39)) pte_present"
    and "frames s (resolve_pml4 s pml4) (table_index va 39) AND pte_addr_mask = pdpt"
    and "has_flag (frames s pdpt (table_index va 30)) pte_present"
    and "frames s pdpt (table_index va 30) AND pte_addr_mask = pd"
    and "has_flag (frames s pd (table_index va 21)) pte_present"
    and "frames s pd (table_index va 21) AND pte_addr_mask = pt"
    and "has_flag (frames s pt (table_index va 12)) pte_present"
  shows "unmap_page va pml4 s = Some (unmap_in 3 (resolve_pml4 s pml4) (page_path va) s)"
  using assms
  by (simp add: unmap_page_def page_path_def numeral_3_eq_3 numeral_2_eq_2 Let_def)

lemma unmap_page_in:
  assumes "resolve_pml4 s pml4 \<noteq> 0" and "mapped_small (frames s) 3 (resolve_pml4 s pml4) (page_path va)"
  shows "unmap_page va pml4 s = Some (unmap_in 3 (resolve_pml4 s pml4) (page_path va) s)"
proof -
  from assms(2) obtain c1 c2 c3 where
    "child (frames s) 2 (resolve_pml4 s pml4) (table_index va 39) = Some c1"
    "child (frames s) 1 c1 (table_index va 30) = Some c2" "child (frames s) 0 c2 (table_index va 21) = Some c3"
    "has_flag (frames s c3 (table_index va 12)) pte_present"
    by (auto simp: page_path_def numeral_3_eq_3 numeral_2_eq_2)
  note path = this(1-3) [THEN childD] this(4)
  show ?thesis by (rule unmap_page_present [OF assms(1), of va c1 c2 c3]) (use path in simp_all)
qed

lemma remove_child:
  assumes tree: "table_tree f (Suc l) t" and i: "i < 512" "child f l t i = Some c"
    and f': "f' = f(t := (f t)(i := 0))"
  shows "table_tree f' (Suc l) t" "tables f' (Suc l) t \<subseteq> tables f (Suc l) t - tables f l c"
    "j < 512 \<Longrightarrow> set js \<subseteq> {..<512} \<Longrightarrow> lookup f' (Suc l) t (j # js) acc =
       (if j = i then None else lookup f (Suc l) t (j # js) acc)"
proof -
  have ch: "child f' l t j = (if j = i then None else child f l t j)" for j
    by (simp add: f' child_def has_flag_def)
  have out: "t \<notin> tables f l d" if "j < 512" "child f l t j = Some d" for j d
    using table_treeD(2) [OF tree that] .
  have same: "tables f' l d = tables f l d" "table_tree f' l d = table_tree f l d"
    "set js \<subseteq> {..<512} \<Longrightarrow> lookup f' l d js acc = lookup f l d js acc"
    if "j < 512" "child f l t j = Some d" for j d js acc
    using out [OF that] by (intro tables_cong table_tree_cong lookup_cong; auto simp: f')+
  have "table_tree f' l d \<and> t \<notin> tables f' l d" if "j < 512" "child f' l t j = Some d" for j d
    using that same [of j d] table_treeD(1,2) [OF tree, of j d] by (auto simp: ch split: if_splits)
  moreover have "tables f' l d \<inter> tables f' l e = {}"
    if "j < 512" "k < 512" "j \<noteq> k" "child f' l t j = Some d" "child f' l t k = Some e" for j k d e
    using that same(1) [of j d] same(1) [of k e] table_treeD(3) [OF tree, of j d k e]
    by (auto simp: ch split: if_splits)
  ultimately show "table_tree f' (Suc l) t" by simp
  show "tables f' (Suc l) t \<subseteq> tables f (Suc l) t - tables f l c"
  proof
    fix x assume "x \<in> tables f' (Suc l) t"
    then show "x \<in> tables f (Suc l) t - tables f l c"
    proof (rule tablesE)
      assume "x = t"
      then show ?thesis using out [OF i] by simp
    next
      fix j d assume j: "j < 512" "child f' l t j = Some d" "x \<in> tables f' l d"
      then have "j \<noteq> i" "child f l t j = Some d" by (auto simp: ch split: if_splits)
      then show ?thesis
        using j same(1) [of j d] table_treeD(3) [OF tree i, of j d] tables_child [of f l t j d] by auto
    qed
  qed
  show "lookup f' (Suc l) t (j # js) acc = (if j = i then None else lookup f (Suc l) t (j # js) acc)"
    if "j < 512" "set js \<subseteq> {..<512}"
  proof (cases "j = i")
    case True
    then show ?thesis by (simp add: lookup_child ch) (simp add: f' has_flag_def)
  next
    case False
    then have "f' t j = f t j" by (simp add: f')
    then show ?thesis using False same(3) [OF that(1) _ that(2)] by (simp add: lookup_child ch split: option.splits)
  qed
qed

definition shrinks :: "nat \<Rightarrow> u64 \<Rightarrow> vmm \<Rightarrow> vmm \<Rightarrow> bool" where
  "shrinks l t s s' \<longleftrightarrow>
     pmm_inv (page_alloc s')
     \<and> pmm_avail (page_alloc s') \<subseteq> pmm_avail (page_alloc s) \<union> (tables (frames s) l t - tables (frames s') l t)
     \<and> (\<forall>x. x \<notin> tables (frames s) l t \<longrightarrow> frames s' x = frames s x)
     \<and> table_tree (frames s') l t \<and> tables (frames s') l t \<subseteq> tables (frames s) l t"

lemma shrinks_ok: "vmm_ok l t s \<Longrightarrow> shrinks l t s s' \<Longrightarrow> vmm_ok l t s'"
  unfolding vmm_ok_def shrinks_def by blast

lemma empty_table:
  assumes "table_is_empty c s"
  shows "tables (frames s) l c = {c}" and "set js \<subseteq> {..<512} \<Longrightarrow> lookup (frames s) l c js acc = None"
proof -
  have e: "\<not> has_flag (frames s c k) pte_present" if "k < 512" for k
    using assms that by (simp add: table_is_empty_def list_all_iff)
  then show "tables (frames s) l c = {c}" by (cases l) (auto simp: child_def split: option.splits)
  show "lookup (frames s) l c js acc = None" if "set js \<subseteq> {..<512}"
    using that e by (cases l; cases js) (auto simp: lookup_child child_def)
qed

lemma vmm_free_page_simps [simp]:
  "frames (vmm_free_page a s) = frames s" "page_alloc (vmm_free_page a s) = free_page a (page_alloc s)"
  by (simp_all add: vmm_free_page_def)

lemma shrinks_below:
  assumes ok: "vmm_ok (Suc l) t s" and i: "i < 512" "child (frames s) l t i = Some c"
    and sub: "shrinks l c s s'"
  shows "shrinks (Suc l) t s s'" "child (frames s') l t i = Some c"
    and "set js \<subseteq> {..<512} \<Longrightarrow> j < 512 \<Longrightarrow> lookup (frames s') (Suc l) t (j # js) acc =
      (if j = i then lookup (frames s') l c js (acc AND frames s t i)
       else lookup (frames s) (Suc l) t (j # js) acc)"
proof -
  have tree: "table_tree (frames s) (Suc l) t" using ok by (simp only: vmm_ok_def)
  have agree: "\<forall>x. x \<notin> tables (frames s) l c \<union> {} \<longrightarrow> frames s' x = frames s x"
    and sub': "table_tree (frames s') l c" "tables (frames s') l c \<subseteq> tables (frames s) l c \<union> {}"
    and avail: "pmm_avail (page_alloc s') \<subseteq>
      pmm_avail (page_alloc s) \<union> (tables (frames s) l c - tables (frames s') l c)"
    using sub by (simp_all add: shrinks_def)
  have t: "t \<notin> tables (frames s) l c" by (rule table_treeD(2) [OF tree i])
  then have ft: "frames s' t = frames s t" using agree by simp
  then have ch: "child (frames s') l t j = child (frames s) l t j" for j by (simp add: child_def)
  then show c': "child (frames s') l t i = Some c" using i(2) by simp
  have N: "{} \<inter> tables (frames s) (Suc l) t = {}" by simp
  note change = subtree_change [OF tree i N agree sub']
  have tree': "table_tree (frames s') (Suc l) t" using change(1) by blast
  have "tables (frames s) l c - tables (frames s') l c \<subseteq> - tables (frames s') (Suc l) t"
  proof
    fix x assume x: "x \<in> tables (frames s) l c - tables (frames s') l c"
    have "x \<notin> tables (frames s') (Suc l) t"
    proof
      assume "x \<in> tables (frames s') (Suc l) t"
      then show False
      proof (rule tablesE)
        assume "x = t"
        then show False using x t by simp
      next
        fix j d assume j: "j < 512" "child (frames s') l t j = Some d" "x \<in> tables (frames s') l d"
        then have d: "child (frames s) l t j = Some d" by (simp only: ch)
        show False
        proof (cases "j = i")
          case True
          then show False using j x d i by simp
        next
          case False
          have disj: "tables (frames s) l c \<inter> tables (frames s) l d = {}"
            by (rule table_treeD(3) [OF tree i j(1) d False])
          have "tables (frames s') l d = tables (frames s) l d"
            by (rule tables_cong) (use agree disj in auto)
          then show False using disj j(3) x by auto
        qed
      qed
    qed
    then show "x \<in> - tables (frames s') (Suc l) t" by simp
  qed
  moreover have "tables (frames s) l c \<subseteq> tables (frames s) (Suc l) t" by (rule tables_child [OF i(2,1)])
  ultimately show "shrinks (Suc l) t s s'"
    using change(1) agree avail sub unfolding shrinks_def by blast
  show "lookup (frames s') (Suc l) t (j # js) acc =
      (if j = i then lookup (frames s') l c js (acc AND frames s t i)
       else lookup (frames s) (Suc l) t (j # js) acc)" if "set js \<subseteq> {..<512}" "j < 512"
    by (rule change(2) [OF that])
qed

lemma shrinks_drop:
  assumes ok: "vmm_ok (Suc l) t s" and sh: "shrinks (Suc l) t s s1" and i: "i < 512"
    "child (frames s1) l t i = Some c" and empty: "table_is_empty c s1"
  shows "shrinks (Suc l) t s (set_entry t i 0 (vmm_free_page c s1))"
proof -
  let ?s = "set_entry t i 0 (vmm_free_page c s1)"
  have tree: "table_tree (frames s1) (Suc l) t" using sh by (simp only: shrinks_def)
  have f: "frames ?s = (frames s1)(t := (frames s1 t)(i := 0))" by simp
  note rem = remove_child [OF tree i f]
  have "tables (frames s1) l c = {c}" by (rule empty_table(1) [OF empty])
  then have tabs: "tables (frames ?s) (Suc l) t \<subseteq> tables (frames s1) (Suc l) t - {c}" using rem(2) by simp
  have c: "c \<in> tables (frames s1) (Suc l) t" using tables_child [OF i(2,1)] tables_self [of c "frames s1" l] by blast
  have "pmm_avail (page_alloc ?s) \<subseteq> insert c (pmm_avail (page_alloc s1))"
    by (simp add: pmm_avail_free_page)
  moreover have "pmm_inv (page_alloc ?s)" using sh by (simp add: shrinks_def pmm.release_invar)
  moreover have "frames ?s x = frames s x" if "x \<notin> tables (frames s) (Suc l) t" for x
  proof -
    have "x \<noteq> t" using that by auto
    then show ?thesis using sh that unfolding shrinks_def by simp
  qed
  ultimately show ?thesis using rem(1) tabs c sh unfolding shrinks_def by blast
qed

lemma unmap_in_correct:
  assumes "vmm_ok l t s" "length is = Suc l" "set is \<subseteq> {..<512}" "mapped_small (frames s) l t is"
  shows "shrinks l t s (unmap_in l t is s) \<and>
    (\<forall>js acc. length js = Suc l \<longrightarrow> set js \<subseteq> {..<512} \<longrightarrow>
       lookup (frames (unmap_in l t is s)) l t js acc =
         (if js = is then None else lookup (frames s) l t js acc))"
  using assms
proof (induction l arbitrary: t s "is")
  case 0
  then obtain i where i: "is = [i]" "i < 512" by (auto simp: length_Suc_conv)
  have "shrinks 0 t s (unmap_in 0 t is s)" using 0(1) by (simp add: i shrinks_def vmm_ok_def)
  moreover have "lookup (frames (unmap_in 0 t is s)) 0 t js acc =
      (if js = is then None else lookup (frames s) 0 t js acc)" if "length js = Suc 0" for js acc
  proof -
    obtain j where "js = [j]" using \<open>length js = Suc 0\<close> by (auto simp: length_Suc_conv)
    then show ?thesis by (cases "j = i") (simp_all add: i has_flag_def)
  qed
  ultimately show ?case by blast
next
  case (Suc l)
  then obtain i ks where i: "is = i # ks" "length ks = Suc l" "i < 512" "set ks \<subseteq> {..<512}"
    by (cases "is") auto
  obtain c where c: "child (frames s) l t i = Some c" "mapped_small (frames s) l c ks"
    using Suc.prems(4) i by auto
  have okc: "vmm_ok l c s" by (rule vmm_ok_child [OF Suc.prems(1) i(3) c(1)])
  define s1 where "s1 = unmap_in l c ks s"
  note IH = Suc.IH [OF okc i(2,4) c(2), folded s1_def]
  then have sh: "shrinks l c s s1" by blast
  note below = shrinks_below [OF Suc.prems(1) i(3) c(1) sh]
  have look1: "lookup (frames s1) (Suc l) t js acc = (if js = is then None else lookup (frames s) (Suc l) t js acc)"
    if js: "length js = Suc (Suc l)" "set js \<subseteq> {..<512}" for js acc
  proof -
    obtain j js' where j: "js = j # js'" "length js' = Suc l" "j < 512" "set js' \<subseteq> {..<512}"
      using js by (cases js) auto
    show ?thesis using below(3) [OF j(4,3), of acc] IH j c(1) i(1) by (auto simp: lookup_child)
  qed
  show ?case
  proof (cases "table_is_empty c s1")
    case False
    then have "unmap_in (Suc l) t is s = s1"
      using childD [OF c(1)] by (simp add: i(1) drop_if_empty_def cleanup_table_level_def Let_def s1_def)
    then show ?thesis using below(1) look1 by simp
  next
    case True
    let ?s = "set_entry t i 0 (vmm_free_page c s1)"
    have s2: "unmap_in (Suc l) t is s = ?s"
      using childD [OF c(1)] True by (simp add: i(1) drop_if_empty_def cleanup_table_level_def Let_def s1_def)
    have f: "frames ?s = (frames s1)(t := (frames s1 t)(i := 0))" by simp
    have tree: "table_tree (frames s1) (Suc l) t" using below(1) by (simp only: shrinks_def)
    have "lookup (frames ?s) (Suc l) t js acc = (if js = is then None else lookup (frames s) (Suc l) t js acc)"
      if js: "length js = Suc (Suc l)" "set js \<subseteq> {..<512}" for js acc
    proof -
      obtain j js' where j: "js = j # js'" "length js' = Suc l" "j < 512" "set js' \<subseteq> {..<512}"
        using js by (cases js) auto
      have "lookup (frames s1) (Suc l) t (i # js') acc = None"
        using empty_table(2) [OF True j(4)] below(2) by (simp add: lookup_child)
      then show ?thesis using remove_child(3) [OF tree i(3) below(2) f j(3,4), of acc] j(1) look1 [OF js, of acc]
        by (simp del: frames_set_entry split: if_splits)
    qed
    then show ?thesis unfolding s2 using shrinks_drop [OF Suc.prems(1) below(1) i(3) below(2) True] by blast
  qed
qed

section \<open>Copy-on-write\<close>

text \<open>The page table that holds the last entry of an address, when no large page is on the way.\<close>

definition leaf_table :: "vmm \<Rightarrow> u64 \<Rightarrow> u64 \<Rightarrow> u64 option" where
  "leaf_table s root va =
     do {
       pdpt \<leftarrow> child (frames s) 2 root (table_index va 39);
       pd \<leftarrow> child (frames s) 1 pdpt (table_index va 30);
       child (frames s) 0 pd (table_index va 21)
     }"

lemma leaf_table_in_tables:
  assumes "leaf_table s root va = Some pt"
  shows "pt \<in> tables (frames s) 3 root"
proof -
  obtain pdpt pd where c: "child (frames s) 2 root (table_index va 39) = Some pdpt"
    "child (frames s) 1 pdpt (table_index va 30) = Some pd" "child (frames s) 0 pd (table_index va 21) = Some pt"
    using assms by (auto simp: leaf_table_def bind_eq_Some_conv)
  have "pt \<in> tables (frames s) 1 pd" using tables_child [OF c(3)] by auto
  then have "pt \<in> tables (frames s) 2 pdpt" using tables_child [of "frames s" 1 pdpt _ pd, OF c(2)]
    by (auto simp: numeral_2_eq_2)
  then show ?thesis using tables_child [OF c(1)] by (auto simp: numeral_3_eq_3 numeral_2_eq_2)
qed

lemma cow_unfold:
  assumes "leaf_table s root va = Some pt" and "root \<noteq> 0"
  shows "handle_cow_fault va ec root s =
    (let pt_idx = table_index va 12; pte = frames s pt pt_idx in
     if ec AND 7 \<noteq> 7 \<or> \<not> has_flag pte pte_present \<or> \<not> has_flag pte pte_cow then (False, s)
     else if page_ref_count (pte AND pte_addr_mask) (page_alloc s) \<le> 1
     then (True, set_entry pt pt_idx ((pte OR pte_writable) AND NOT pte_cow) s)
     else
       (let (a, s1) = vmm_alloc_page s in
        if a = invalid_physical_address then (False, s1)
        else (True, vmm_free_page (pte AND pte_addr_mask)
          (set_entry pt pt_idx ((a AND pte_addr_mask) OR (pte AND NOT (pte_addr_mask OR pte_writable OR pte_cow))
             OR pte_writable) (fill_table a (frames s1 (pte AND pte_addr_mask)) s1)))))"
proof -
  obtain pdpt pd where c: "child (frames s) 2 root (table_index va 39) = Some pdpt"
    "child (frames s) 1 pdpt (table_index va 30) = Some pd" "child (frames s) 0 pd (table_index va 21) = Some pt"
    using assms by (auto simp: leaf_table_def bind_eq_Some_conv)
  have nh: "\<not> has_flag (frames s pd (table_index va 21)) pte_huge" using c(3) by (auto simp: child_def split: if_splits)
  note path = c [THEN childD]
  show ?thesis using path nh assms(2)
    by (simp add: handle_cow_fault_def Let_def case_prod_unfold)
qed

lemma page_ref_count_view:
  "page_ref_count a p =
     (if a mod page_size = 0 \<and> page_index_valid (a div page_size) \<and> fst (page_view p (a div page_size))
      then ucast (snd (page_view p (a div page_size))) else 0)"
  by (simp add: page_ref_count_def page_view_def Let_def)

lemma unat_ucast_u16: "unat (ucast (c :: u16) :: u64) = unat c"
proof -
  have "unat c < 2 ^ 16" using unsigned_less [of c] by simp
  then show ?thesis by (simp add: unsigned_ucast_eq take_bit_nat_eq_self)
qed

lemma view_release_count:
  "1 < (ucast (snd v) :: u64) \<Longrightarrow> fst v \<Longrightarrow> fst (view_release v) \<and> (ucast (snd (view_release v)) :: u64) = ucast (snd v) - 1"
proof -
  assume gt: "1 < (ucast (snd v) :: u64)" and used: "fst v"
  obtain c where v: "v = (True, c)" using used by (cases v) simp
  note u = unat_ucast_u16 [of c]
  then have "1 < unat c" using gt by (simp add: v word_less_nat_alt)
  then have c: "1 < c" by (simp add: word_less_nat_alt)
  have "unat (ucast (c - 1) :: u64) = unat (ucast c - 1 :: u64)"
  proof -
    have "unat (c - 1) = unat c - 1" using c by (intro unat_minus_one) auto
    moreover have "unat (ucast (c - 1) :: u64) = unat (c - 1)" by (rule unat_ucast_u16)
    moreover have "unat (ucast c - 1 :: u64) = unat c - 1"
      using gt u by (subst unat_minus_one) (auto simp: v)
    ultimately show ?thesis by simp
  qed
  then have "(ucast (c - 1) :: u64) = ucast c - 1" by (simp only: unat_eq_iff)
  then show ?thesis using c by (simp add: v view_release_def)
qed


lemma cow_entry_bits:
  assumes "page_index_valid p" "a = p * page_size"
  shows "((a AND pte_addr_mask) OR (e AND NOT (pte_addr_mask OR pte_writable OR pte_cow)) OR pte_writable) AND pte_addr_mask = a"
    "((e OR pte_writable) AND NOT pte_cow) AND pte_addr_mask = e AND pte_addr_mask"
  using assms by (auto intro!: bit_eqI simp: pte_bits page_address_bits)

section \<open>New address spaces\<close>

lemma frames_copy_entries:
  assumes "r \<noteq> kernel_pml4_phys s"
  shows "frames (fold (\<lambda>i s. set_entry r i (frames s (kernel_pml4_phys s) i) s) xs s) x j =
     (if x = r \<and> j \<in> set xs then frames s (kernel_pml4_phys s) j else frames s x j)"
  using assms
proof (induction xs arbitrary: s)
  case (Cons i xs)
  let ?s = "set_entry r i (frames s (kernel_pml4_phys s) i) s"
  have "r \<noteq> kernel_pml4_phys ?s" using Cons.prems by simp
  from Cons.IH [OF this] show ?case using Cons.prems by simp
qed simp

lemma create_user_frames:
  assumes ok: "vmm_ok 3 k s" and k: "k = kernel_pml4_phys s" and new: "create_user_pml4 s = (r, s')" "r \<noteq> 0"
  shows "r \<notin> tables (frames s) 3 k"
    and "frames s' = (frames s)(r := (\<lambda>i. if i < 256 then 0 else if i < 512 then frames s k i else frames s r i))"
proof -
  obtain a s1 where al: "vmm_alloc_page s = (a, s1)" by (cases "vmm_alloc_page s")
  have inv: "pmm_inv (page_alloc s)" using ok by (simp only: vmm_ok_def)
  have kz: "kernel_pml4_phys s \<noteq> 0" and a: "a \<noteq> invalid_physical_address" "r = a"
    and s': "s' = fold (\<lambda>i s. set_entry a i (frames s (kernel_pml4_phys s) i) s) [256 ..< 512] (fill_table a (\<lambda>_. 0) s1)"
    using new al by (auto simp: create_user_pml4_def Let_def split: if_splits)
  obtain p where p: "a \<in> pmm_avail (page_alloc s)" "frames s1 = frames s" "kernel_pml4_phys s1 = kernel_pml4_phys s"
    by (rule vmm_alloc_page_cases [OF al inv a(1)]) blast
  show out: "r \<notin> tables (frames s) 3 k" using ok p(1) a(2) unfolding vmm_ok_def by blast
  then have "a \<noteq> k" using a(2) by auto
  then show "frames s' = (frames s)(r := (\<lambda>i. if i < 256 then 0 else if i < 512 then frames s k i else frames s r i))"
  proof -
    have k1: "a \<noteq> kernel_pml4_phys (fill_table a (\<lambda>_. 0) s1)" using \<open>a \<noteq> k\<close> by (simp add: frames_fill_table p k)
    have "frames s' x j = ((frames s)(r := (\<lambda>i. if i < 256 then 0 else if i < 512 then frames s k i else frames s r i))) x j" for x j
      unfolding s' frames_copy_entries [OF k1]
      using \<open>a \<noteq> k\<close> by (simp add: frames_fill_table p(2,3) k a(2) p(2) [THEN fun_cong, THEN fun_cong])
    then show ?thesis by blast
  qed
qed

section \<open>Address ranges\<close>

lemma page_round_up:
  assumes "unat n + 4095 < 2 ^ 64"
  shows "unat n \<le> unat ((n + 0xFFF) AND NOT 0xFFF :: u64)"
proof -
  have "(n + 0xFFF) AND NOT 0xFFF = align_up n page_size"
    by (simp add: align_up_def page_size_def add_diff_eq [symmetric])
  then show ?thesis by (simp add: unat_align_up [OF assms])
qed

lemma alloc_vmem_range_cases:
  assumes "alloc_vmem_range n s = (a, s')" "a \<noteq> 0" "unat n + 4095 < 2 ^ 64"
  shows "a = vmem_current s \<and> unat a + unat n \<le> unat (vmem_current s') \<and> vmem_current s' \<le> vmem_end s'
    \<and> vmem_end s' = vmem_end s"
proof -
  define r where "r = (n + 0xFFF) AND NOT (0xFFF :: u64)"
  have r: "unat n \<le> unat r" unfolding r_def by (rule page_round_up [OF assms(3)])
  have c: "a = vmem_current s" "s' = s\<lparr>vmem_current := vmem_current s + r\<rparr>"
    "vmem_current s + r \<le> vmem_end s" "vmem_current s \<le> vmem_current s + r"
    using assms(1,2) unfolding alloc_vmem_range_def Let_def r_def [symmetric] by (auto split: if_splits)
  have "unat (vmem_current s + r) = unat (vmem_current s) + unat r"
    by (rule unat_add_ge_self [OF c(4)])
  then show ?thesis using r c by simp
qed

lemma vmem_range_wraps:
  assumes "vmem_current s < vmem_end s"
  shows "alloc_vmem_range 0xFFFFFFFFFFFFFFFF s = (vmem_current s, s)"
proof -
  have "(0xFFFFFFFFFFFFFFFF + 0xFFF) AND NOT 0xFFF = (0 :: u64)" by code_simp
  with assms show ?thesis by (simp only: alloc_vmem_range_def) (auto simp: Let_def)
qed

lemma unmap_in_clears:
  assumes "frames (unmap_in l (frames s t i AND pte_addr_mask) is s) d k = 0"
  shows "frames (unmap_in (Suc l) t (i # is) s) d k = 0"
  using assms by (auto simp: Let_def drop_if_empty_def cleanup_table_level_def)

lemma unmap_huge_clears_data:
  assumes "resolve_pml4 s pml4 \<noteq> 0" "child (frames s) 2 (resolve_pml4 s pml4) (table_index va 39) = Some pdpt"
    "child (frames s) 1 pdpt (table_index va 30) = Some pd"
    "has_flag (frames s pd (table_index va 21)) pte_present" "has_flag (frames s pd (table_index va 21)) pte_huge"
    "has_flag (frames s (frames s pd (table_index va 21) AND pte_addr_mask) (table_index va 12)) pte_present"
  shows "\<exists>s'. unmap_page va pml4 s = Some s'
    \<and> frames s' (frames s pd (table_index va 21) AND pte_addr_mask) (table_index va 12) = 0"
proof -
  note path = assms(2,3) [THEN childD]
  have "frames (unmap_in 3 (resolve_pml4 s pml4) (page_path va) s)
      (frames s pd (table_index va 21) AND pte_addr_mask) (table_index va 12) = 0"
    using path unfolding page_path_def numeral_3_eq_3 by (intro unmap_in_clears) simp
  moreover have "unmap_page va pml4 s = Some (unmap_in 3 (resolve_pml4 s pml4) (page_path va) s)"
    by (rule unmap_page_present [OF assms(1), of va pdpt pd "frames s pd (table_index va 21) AND pte_addr_mask"]) (use path assms(4,6) in simp_all)
  ultimately show ?thesis by blast
qed

end
