(* ===== verification/Tori_Vmm_Props.thy ===== *)
theory Tori_Vmm_Props
  imports Tori_Vmm_Walk
begin

text \<open>The properties of the virtual memory manager, stated over the walk of \<open>Tori_Vmm_Walk\<close>.\<close>

section \<open>Properties\<close>

text \<open>A machine for the witnesses: one table per level, chained through their entries 0.\<close>

definition example_vmm :: "u64 \<Rightarrow> u64 \<Rightarrow> vmm" where
  "example_vmm pde pte = \<lparr>frames = (\<lambda>x i. if i \<noteq> 0 then 0 else if x = 0x10000 then 0x11007
       else if x = 0x11000 then 0x12007 else if x = 0x12000 then pde else if x = 0x13000 then pte else 0),
     page_alloc = example_pmm, kernel_pml4_phys = 0x10000,
     vmem_current = 0xFFFF900000000000, vmem_end = 0xFFFFFFFF80000000\<rparr>"

lemma single_child:
  assumes "\<And>i. child f l t i = (if i = 0 then Some c else None)"
  shows "tables f (Suc l) t = insert t (tables f l c)"
    and "table_tree f (Suc l) t \<longleftrightarrow> table_tree f l c \<and> t \<notin> tables f l c"
proof -
  have "(\<Union>i \<in> {..<512}. case child f l t i of None \<Rightarrow> {} | Some c \<Rightarrow> tables f l c) = tables f l c"
    by (auto simp: assms intro!: bexI [of _ 0] split: if_splits)
  then show "tables f (Suc l) t = insert t (tables f l c)" by simp
  show "table_tree f (Suc l) t \<longleftrightarrow> table_tree f l c \<and> t \<notin> tables f l c" by (simp add: assms)
qed

lemma example_avail: "a \<in> pmm_avail example_pmm \<longleftrightarrow> a = 0x1000 \<or> a = 0x2000 \<or> a = 0x3000"
proof -
  have "free_set example_pmm = {1, 2, 3}" using free_set_example by blast
  then have "pmm_avail example_pmm = {0x1000, 0x2000, 0x3000}" by (simp add: pmm_avail_def page_size_def)
  then show ?thesis by blast
qed

lemma example_children:
  "child (frames (example_vmm 0x13007 pte)) 2 0x10000 i = (if i = 0 then Some 0x11000 else None)"
  "child (frames (example_vmm 0x13007 pte)) (Suc 0) 0x11000 i = (if i = 0 then Some 0x12000 else None)"
  "child (frames (example_vmm 0x13007 pte)) 0 0x12000 i = (if i = 0 then Some 0x13000 else None)"
  by (simp_all add: example_vmm_def child_def has_flag_def pte_present_def pte_huge_def pte_addr_mask_def)

lemma example_tables:
  "tables (frames (example_vmm 0x13007 pte)) 3 0x10000 = {0x10000, 0x11000, 0x12000, 0x13000}"
  "table_tree (frames (example_vmm 0x13007 pte)) 3 0x10000"
proof -
  note c = example_children [of pte]
  have l2: "tables (frames (example_vmm 0x13007 pte)) (Suc 0) 0x12000 = {0x12000, 0x13000}"
    "table_tree (frames (example_vmm 0x13007 pte)) (Suc 0) 0x12000"
    by (subst single_child [OF c(3)]; simp)+
  have l3: "tables (frames (example_vmm 0x13007 pte)) 2 0x11000 = {0x11000, 0x12000, 0x13000}"
    "table_tree (frames (example_vmm 0x13007 pte)) 2 0x11000"
    unfolding numeral_2_eq_2 by (subst single_child [OF c(2)]; simp only: l2; simp)+
  show "tables (frames (example_vmm 0x13007 pte)) 3 0x10000 = {0x10000, 0x11000, 0x12000, 0x13000}"
    "table_tree (frames (example_vmm 0x13007 pte)) 3 0x10000"
    unfolding numeral_3_eq_3 numeral_2_eq_2 [symmetric] by (subst single_child [OF c(1)]; simp only: l3; simp)+
qed

lemma example_vmm_ok: "vmm_ok 3 0x10000 (example_vmm 0x13007 pte)"
proof -
  have alloc: "page_alloc (example_vmm 0x13007 pte) = example_pmm" by (simp add: example_vmm_def)
  show ?thesis unfolding vmm_ok_def alloc example_tables(1)
    using example_tables(2) example_pmm_inv by (auto simp: example_avail)
qed

lemma table_index_zero [simp]: "table_index 0 k = 0"
  by (simp add: table_index_def)

text \<open>C8. Mapping a page: afterwards the walk of the address reaches the given physical page with the
  given permissions (restricted by the tables above it), the walk of every address in another page,
  also one inside a large page that had to be split, is unchanged, and the tables still form a tree
  of pages that are not available for allocation.\<close>

theorem map_page_correct:
  assumes ok: "vmm_ok 3 (resolve_pml4 s pml4) s" and root: "resolve_pml4 s pml4 \<noteq> 0"
    and flags: "flags AND pte_addr_mask = 0" "has_flag flags pte_present"
    and map: "map_page va pa flags pml4 s = Some s'"
  shows "vmm_ok 3 (resolve_pml4 s pml4) s'
    \<and> (\<exists>g. translate s' (resolve_pml4 s pml4) va =
        Some (pa AND pte_addr_mask, g AND flags AND (pte_writable OR pte_user), leaf_flags flags))
    \<and> (\<forall>va'. page_path va' \<noteq> page_path va \<longrightarrow>
        translate s' (resolve_pml4 s pml4) va' = translate s (resolve_pml4 s pml4) va')"
proof -
  let ?root = "resolve_pml4 s pml4" and ?e = "(pa AND pte_addr_mask) OR flags"
  have "map_in 3 ?root (page_path va) ?e s = Some s'" using map map_page_in [OF root] by simp
  note main = map_in_correct [OF ok page_path this]
  have bits: "\<not> (bit flags n \<and> bit pte_addr_mask n)" for n
  proof
    assume "bit flags n \<and> bit pte_addr_mask n"
    then have "bit (flags AND pte_addr_mask) n" by (simp add: bit_and_iff)
    then show False by (simp add: flags(1))
  qed
  have addr: "?e AND pte_addr_mask = pa AND pte_addr_mask"
    using bits by (intro bit_eqI) (auto simp: bit_and_iff bit_or_iff)
  have perm: "?e AND (pte_writable OR pte_user) = flags AND (pte_writable OR pte_user)"
    by (rule bit_eqI) (auto simp: pte_bits)
  have leaf: "leaf_flags ?e = leaf_flags flags"
    unfolding leaf_flags_def by (rule bit_eqI, simp only: pte_bits) auto
  have "has_flag ?e pte_present" using flags(2) by (simp add: has_flag_bit pte_bits)
  then obtain g where "translate s' ?root va =
      Some (?e AND pte_addr_mask, ((pte_writable OR pte_user) AND g) AND ?e AND (pte_writable OR pte_user), leaf_flags ?e)"
    unfolding translate_def using main by blast
  moreover have "vmm_ok 3 ?root s'" using main grows_ok [OF ok] by blast
  moreover have "translate s' ?root va' = translate s ?root va'" if "page_path va' \<noteq> page_path va" for va'
    unfolding translate_def using main page_path [of va'] that by blast
  ultimately show ?thesis unfolding addr leaf perm by blast
qed

theorem map_page_correct_witness:
  "\<exists>s'. map_page 0 0x5000 7 0x10000 (example_vmm 0x13007 0) = Some s'
     \<and> (\<exists>g. translate s' 0x10000 0 = Some (0x5000, g AND 7 AND (pte_writable OR pte_user), leaf_flags 7))"
proof -
  let ?s = "example_vmm 0x13007 0"
  have root: "resolve_pml4 ?s 0x10000 = 0x10000" by (simp add: resolve_pml4_def)
  have m: "map_page 0 0x5000 7 0x10000 ?s = Some (set_entry 0x13000 0 0x5007 ?s)"
    by (simp add: map_page_def root ensure_table_def split_if_huge_def)
      (simp add: example_vmm_def has_flag_def pte_present_def pte_huge_def pte_addr_mask_def)
  have "(7 :: u64) AND pte_addr_mask = 0" "has_flag 7 pte_present" "(0x5000 :: u64) AND pte_addr_mask = 0x5000"
    by (simp_all add: pte_addr_mask_def has_flag_def pte_present_def)
  with map_page_correct [of ?s "0x10000" 7 0 "0x5000", unfolded root, OF example_vmm_ok _ _ _ m] m
  show ?thesis by auto
qed

text \<open>Unmapping a page that is mapped by a page-table entry: the walk of its address fails
  afterwards, the walk of every address in another page is unchanged, and the tables that became
  empty are released and no longer part of the tree.\<close>

theorem unmap_page_correct:
  assumes ok: "vmm_ok 3 (resolve_pml4 s pml4) s" and root: "resolve_pml4 s pml4 \<noteq> 0"
    and mapped: "mapped_small (frames s) 3 (resolve_pml4 s pml4) (page_path va)"
  shows "\<exists>s'. unmap_page va pml4 s = Some s' \<and> vmm_ok 3 (resolve_pml4 s pml4) s'
    \<and> (\<forall>va'. translate s' (resolve_pml4 s pml4) va' =
        (if page_path va' = page_path va then None else translate s (resolve_pml4 s pml4) va'))"
proof -
  let ?root = "resolve_pml4 s pml4"
  note main = unmap_in_correct [OF ok page_path mapped]
  have "vmm_ok 3 ?root (unmap_in 3 ?root (page_path va) s)" using main shrinks_ok [OF ok] by blast
  moreover have "translate (unmap_in 3 ?root (page_path va) s) ?root va' =
      (if page_path va' = page_path va then None else translate s ?root va')" for va'
    unfolding translate_def using main page_path [of va'] by blast
  ultimately show ?thesis using unmap_page_in [OF root mapped] by blast
qed

theorem unmap_page_correct_witness:
  "\<exists>s'. unmap_page 0 0x10000 (example_vmm 0x13007 0x5007) = Some s' \<and> translate s' 0x10000 0 = None"
proof -
  let ?s = "example_vmm 0x13007 0x5007"
  have root: "resolve_pml4 ?s 0x10000 = 0x10000" by (simp add: resolve_pml4_def)
  have "mapped_small (frames ?s) 3 0x10000 (page_path 0)"
    unfolding page_path_def numeral_3_eq_3
    using example_children [of "0x5007" 0] by (simp add: numeral_2_eq_2) (simp add: example_vmm_def has_flag_def pte_present_def)
  with unmap_page_correct [of ?s "0x10000" 0, unfolded root, OF example_vmm_ok]
  show ?thesis by auto
qed

text \<open>C9. A handled copy-on-write fault: the entry becomes writable and loses its copy-on-write mark,
  the page it maps has the contents of the old page, and the old page is untouched; if the old page
  was shared, the entry maps a page of its own and the old page has one reference less.\<close>

theorem cow_fault_correct:
  assumes ok: "vmm_ok 3 root s" and root: "root \<noteq> 0" and pt: "leaf_table s root va = Some pt"
    and pte: "pte = frames s pt (table_index va 12)" and data: "pte AND pte_addr_mask \<notin> tables (frames s) 3 root"
    and fault: "handle_cow_fault va ec root s = (True, s')" and pte': "pte' = frames s' pt (table_index va 12)"
  shows "has_flag pte' pte_present \<and> has_flag pte' pte_writable \<and> \<not> has_flag pte' pte_cow
    \<and> has_flag pte' pte_user = has_flag pte pte_user
    \<and> (\<forall>i < 512. frames s' (pte' AND pte_addr_mask) i = frames s (pte AND pte_addr_mask) i)
    \<and> frames s' (pte AND pte_addr_mask) = frames s (pte AND pte_addr_mask)
    \<and> (page_ref_count (pte AND pte_addr_mask) (page_alloc s) > 1 \<longrightarrow>
        pte' AND pte_addr_mask \<noteq> pte AND pte_addr_mask
        \<and> page_ref_count (pte AND pte_addr_mask) (page_alloc s') = page_ref_count (pte AND pte_addr_mask) (page_alloc s) - 1
        \<and> page_ref_count (pte' AND pte_addr_mask) (page_alloc s') = 1)"
proof -
  let ?i = "table_index va 12" and ?old = "pte AND pte_addr_mask"
  have in_tables: "pt \<in> tables (frames s) 3 root" by (rule leaf_table_in_tables [OF pt])
  then have old_pt: "?old \<noteq> pt" using data by blast
  have f: "has_flag pte pte_present" "has_flag pte pte_cow"
    using fault unfolding cow_unfold [OF pt root] pte by (auto simp: Let_def split: if_splits prod.splits)
  show ?thesis
  proof (cases "page_ref_count ?old (page_alloc s) \<le> 1")
    case True
    then have s': "s' = set_entry pt ?i ((pte OR pte_writable) AND NOT pte_cow) s"
      using fault unfolding cow_unfold [OF pt root] pte by (auto simp: Let_def split: if_splits prod.splits)
    have e: "pte' = (pte OR pte_writable) AND NOT pte_cow" by (simp add: pte' s')
    have addr: "pte' AND pte_addr_mask = ?old" unfolding e by (rule bit_eqI) (auto simp: pte_bits)
    have "frames s' ?old = frames s ?old" using old_pt by (simp add: s')
    moreover have "has_flag pte' pte_present" "has_flag pte' pte_writable" "\<not> has_flag pte' pte_cow"
      "has_flag pte' pte_user = has_flag pte pte_user"
      using f unfolding e by (simp_all add: has_flag_bit pte_bits)
    ultimately show ?thesis unfolding addr using True by (simp add: not_less)
  next
    case False
    then have gt: "1 < page_ref_count ?old (page_alloc s)" by simp
    obtain a s1 where al: "vmm_alloc_page s = (a, s1)" by (cases "vmm_alloc_page s")
    let ?e = "(a AND pte_addr_mask) OR (pte AND NOT (pte_addr_mask OR pte_writable OR pte_cow)) OR pte_writable"
    have a: "a \<noteq> invalid_physical_address"
      and s': "s' = vmm_free_page ?old (set_entry pt ?i ?e (fill_table a (frames s1 ?old) s1))"
      using fault False al f unfolding cow_unfold [OF pt root] pte by (auto simp: Let_def split: if_splits prod.splits)
    have inv: "pmm_inv (page_alloc s)" and apart: "tables (frames s) 3 root \<inter> pmm_avail (page_alloc s) = {}"
      using ok by (simp_all only: vmm_ok_def)
    obtain p' where p': "alloc_page (page_alloc s) = (a, p')" "s1 = s\<lparr>page_alloc := p'\<rparr>"
      using al by (auto simp: vmm_alloc_page_def split: prod.splits)
    from inv p'(1) a obtain p where p: "a = p * page_size" "p \<in> free_set (page_alloc s)"
      "\<And>q. page_view p' q = (if q = p then (True, 1) else page_view (page_alloc s) q)"
      by (cases rule: alloc_page_cases) auto
    then have valid: "page_index_valid p" "p < max_managed_pages" by (simp_all add: free_set_def page_index_valid_def)
    have "a \<in> pmm_avail (page_alloc s)" using p(1,2) by (simp add: pmm_avail_def)
    then have a_pt: "a \<noteq> pt" using apart in_tables by blast
    define q where "q = ?old div page_size"
    have q: "page_index_valid q" "?old mod page_size = 0" "fst (page_view (page_alloc s) q)"
      "1 < (ucast (snd (page_view (page_alloc s) q)) :: u64)"
      using gt by (simp_all add: page_ref_count_view q_def split: if_splits)
    then have old: "?old = q * page_size" using word_mod_div_equality [of ?old page_size] by (simp add: q_def)
    have "p \<noteq> q" using p(2) q(3) by (auto simp: free_set_view)
    then have a_old: "a \<noteq> ?old" unfolding p(1) old using valid(1) q(1) pmm_page_address_inj by simp
    have alloc': "page_alloc s' = free_page (q * page_size) p'" by (simp add: s' frames_fill_table p' old)
    have view: "page_view (page_alloc s') x = (if x = q then view_release (page_view (page_alloc s) q)
        else if x = p then (True, 1) else page_view (page_alloc s) x)" for x
      unfolding alloc' page_view_free_page [OF q(1)] using \<open>p \<noteq> q\<close> by (simp add: p(3))
    have count: "page_ref_count (x * page_size) r = (if fst (page_view r x) then ucast (snd (page_view r x)) else 0)"
      if "page_index_valid x" for x r
      using that by (simp add: page_ref_count_view page_index_valid_def)
    have e: "pte' = ?e" using a_pt by (simp add: pte' s')
    have addr: "pte' AND pte_addr_mask = a" unfolding e by (rule cow_entry_bits(1) [OF valid(1) p(1)])
    have "frames s' a i = frames s ?old i" if "i < 512" for i
      using that a_pt by (simp add: s' frames_fill_table p')
    moreover have "frames s' ?old = frames s ?old" using old_pt a_old by (simp add: s' frames_fill_table p')
    moreover have "has_flag pte' pte_present" "has_flag pte' pte_writable" "\<not> has_flag pte' pte_cow"
      "has_flag pte' pte_user = has_flag pte pte_user"
      using f page_address_bits [OF valid(1)] unfolding e p(1) by (simp_all add: has_flag_bit pte_bits)
    moreover have "page_ref_count ?old (page_alloc s') = page_ref_count ?old (page_alloc s) - 1"
      unfolding old count [OF q(1)] view using view_release_count [OF q(4,3)] q(3) by simp
    moreover have "page_ref_count a (page_alloc s') = 1"
      unfolding p(1) count [OF valid(1)] view using \<open>p \<noteq> q\<close> by simp
    ultimately show ?thesis unfolding addr using a_old by blast
  qed
qed

theorem cow_fault_correct_witness:
  "\<exists>s'. handle_cow_fault 0 7 0x10000 (example_vmm 0x13007 0x100000205) = (True, s')
     \<and> has_flag (frames s' 0x13000 0) pte_writable"
proof -
  let ?s = "example_vmm 0x13007 0x100000205"
  have pt: "leaf_table ?s 0x10000 0 = Some 0x13000"
    using example_children [of "0x100000205" 0] by (simp add: leaf_table_def)
  have pte: "0x100000205 = frames ?s 0x13000 (table_index 0 12)" by (simp add: example_vmm_def)
  have addr: "(0x100000205 :: u64) AND pte_addr_mask = 0x100000000" by (simp add: pte_addr_mask_def)
  have data: "(0x100000205 :: u64) AND pte_addr_mask \<notin> tables (frames ?s) 3 0x10000"
    unfolding addr example_tables by simp
  have count: "page_ref_count 0x100000000 (page_alloc ?s) = 0"
    by (simp add: page_ref_count_def page_index_valid_def max_managed_pages_def page_size_def)
  have "handle_cow_fault 0 7 0x10000 ?s =
      (True, set_entry 0x13000 0 ((0x100000205 OR pte_writable) AND NOT pte_cow) ?s)"
  proof -
    have z: "table_index 0 12 = 0" by (rule table_index_zero)
    have f: "has_flag 0x100000205 pte_present" "has_flag 0x100000205 pte_cow" "(7 :: u64) AND 7 = 7"
      by (simp_all add: has_flag_def pte_present_def pte_cow_def)
    have e: "frames ?s 0x13000 0 = 0x100000205" by (simp add: example_vmm_def)
    have nz: "(0x10000 :: u64) \<noteq> 0" by simp
    show ?thesis unfolding cow_unfold [OF pt nz] z Let_def e addr count using f by simp
  qed
  from cow_fault_correct [OF example_vmm_ok _ pt pte data this refl] this show ?thesis by auto
qed

text \<open>A new user address space shares exactly the kernel half: an address of the upper half is
  translated as in the kernel's own tables, an address of the lower half is not mapped.\<close>

theorem create_user_pml4_correct:
  assumes "vmm_ok 3 (kernel_pml4_phys s) s" and "create_user_pml4 s = (root, s')" and "root \<noteq> 0"
  shows "translate s' root va =
    (if table_index va 39 < 256 then None else translate s (kernel_pml4_phys s) va)"
proof -
  let ?k = "kernel_pml4_phys s" and ?i = "table_index va 39"
  let ?js = "[table_index va 30, table_index va 21, table_index va 12]"
  note out = create_user_frames(1) [OF assms(1) refl assms(2,3)]
  note f = create_user_frames(2) [OF assms(1) refl assms(2,3)]
  have i: "?i < 512" "set ?js \<subseteq> {..<512}" by simp_all
  have entry: "frames s' root ?i = (if ?i < 256 then 0 else frames s ?k ?i)" by (simp add: f)
  show ?thesis
  proof (cases "?i < 256")
    case True
    then show ?thesis using entry
      by (simp add: translate_def page_path_def numeral_3_eq_3 lookup_child child_def has_flag_def)
  next
    case False
    then have e: "frames s' root ?i = frames s ?k ?i" using entry by simp
    then have ch: "child (frames s') 2 root ?i = child (frames s) 2 ?k ?i" by (simp add: child_def)
    have "lookup (frames s') 2 c ?js acc = lookup (frames s) 2 c ?js acc"
      if "child (frames s) 2 ?k ?i = Some c" for c acc
    proof (rule lookup_cong [OF _ i(2)])
      fix x assume "x \<in> tables (frames s) 2 c"
      then have "x \<in> tables (frames s) 3 ?k" using tables_child [OF that i(1)] by (auto simp: numeral_3_eq_3)
      then have "x \<noteq> root" using out by blast
      then show "frames s' x = frames s x" by (simp add: f)
    qed
    then show ?thesis using False e
      by (simp add: translate_def page_path_def numeral_3_eq_3 lookup_child ch [simplified numeral_2_eq_2]
          numeral_2_eq_2 split: option.splits)
  qed
qed

theorem create_user_pml4_correct_witness:
  "\<exists>root s'. create_user_pml4 (example_vmm 0x13007 0x5007) = (root, s') \<and> root \<noteq> 0 \<and> translate s' root 0 = None"
proof -
  let ?s = "example_vmm 0x13007 0x5007"
  obtain a p where al: "alloc_page example_pmm = (a, p)" by (cases "alloc_page example_pmm")
  have "pmm_avail example_pmm \<noteq> {}" using example_avail [of "0x1000"] by auto
  then have a: "a \<noteq> invalid_physical_address" using pmm.alloc_progress [OF example_pmm_inv _ al] by blast
  then have "a \<in> pmm_avail example_pmm" using pmm.alloc_ok [OF example_pmm_inv al] by blast
  then have nz: "a \<noteq> 0" by (auto simp: example_avail)
  have "vmm_alloc_page ?s = (a, ?s\<lparr>page_alloc := p\<rparr>)" by (simp add: vmm_alloc_page_def example_vmm_def al)
  then have root: "fst (create_user_pml4 ?s) = a"
    using a by (simp add: create_user_pml4_def Let_def) (simp add: example_vmm_def)
  obtain s' where c: "create_user_pml4 ?s = (a, s')" using root by (cases "create_user_pml4 ?s") simp
  have k: "vmm_ok 3 (kernel_pml4_phys ?s) ?s" using example_vmm_ok by (simp add: example_vmm_def)
  from create_user_pml4_correct [OF k c nz, of 0] c nz show ?thesis by auto
qed

text \<open>Kernel address ranges: two successive allocations (of sizes that do not overflow when rounded
  to pages) are disjoint, in order, and inside the configured window.\<close>

theorem vmem_ranges_disjoint:
  assumes "alloc_vmem_range m s = (a, s1)" "a \<noteq> 0" "alloc_vmem_range n s1 = (b, s2)" "b \<noteq> 0"
    and "unat m + 4095 < 2 ^ 64" "unat n + 4095 < 2 ^ 64"
  shows "vmem_current s \<le> a \<and> unat a + unat m \<le> unat b \<and> unat b + unat n \<le> unat (vmem_end s)"
  using alloc_vmem_range_cases [OF assms(1,2,5)] alloc_vmem_range_cases [OF assms(3,4,6)]
  by (auto simp: word_le_nat_alt)

theorem vmem_ranges_disjoint_witness:
  "unat (fst (alloc_vmem_range 0x1000 (example_vmm 0 0))) + 0x1000
     \<le> unat (fst (alloc_vmem_range 0x10 (snd (alloc_vmem_range 0x1000 (example_vmm 0 0)))))"
proof -
  have a: "alloc_vmem_range 0x1000 (example_vmm 0 0) =
      (0xFFFF900000000000, example_vmm 0 0\<lparr>vmem_current := 0xFFFF900000001000\<rparr>)"
    by (simp add: alloc_vmem_range_def example_vmm_def)
  have b: "alloc_vmem_range 0x10 (example_vmm 0 0\<lparr>vmem_current := 0xFFFF900000001000\<rparr>) =
      (0xFFFF900000001000, example_vmm 0 0\<lparr>vmem_current := 0xFFFF900000002000\<rparr>)"
    by (simp add: alloc_vmem_range_def example_vmm_def)
  from vmem_ranges_disjoint [OF a _ b] show ?thesis by (simp add: a b)
qed

end
