(* ===== verification/Tori_Kalloc.thy ===== *)
theory Tori_Kalloc
  imports Tori_Pmm "HOL-Library.Monad_Syntax"
begin

text \<open>
  The kernel allocators: slices of fixed sizes (\<open>kernel/src/memory/slice_allocator.cpp\<close>), the heap of
  variable blocks (\<open>heap.cpp\<close>) and the choice between them (\<open>allocator.cpp\<close>).  Both keep their lists
  inside the memory they manage, so the model has one memory of bytes, of which headers, footers and
  links are 8-byte little-endian words at any address.  Pointers are 64-bit words, 0 is \<open>nullptr\<close>.
  An operation without a result (\<open>None\<close>) walks a list that does not end.
\<close>

section \<open>Memory\<close>

type_synonym bytes = "u64 \<Rightarrow> u8"

definition load64 :: "bytes \<Rightarrow> u64 \<Rightarrow> u64" where
  "load64 m a = of_nat (horner_sum unat 256 (map (\<lambda>i. m (a + of_nat i)) [0 ..< 8]))"

definition store64 :: "u64 \<Rightarrow> u64 \<Rightarrow> bytes \<Rightarrow> bytes" where
  "store64 a v m = (\<lambda>x. if unat (x - a) < 8 then ucast (drop_bit (8 * unat (x - a)) v) else m x)"

section \<open>State\<close>

record SizeClass =
  class_size :: u64
  class_alignment :: u64
  class_free_list :: u64
  class_total_slices :: u64
  class_free_slices :: u64
  class_backing_pages :: u64

record slice_stats =
  slice_backing_pages :: u64
  slice_total :: u64
  slice_free_count :: u64
  slice_failed :: u64

record HeapRegion =
  heap_base :: u64
  heap_limit :: u64

text \<open>\<open>regions\<close> has the first \<open>region_count\<close> entries of the array.\<close>

record kheap =
  mem :: bytes
  hhdm :: u64
  pages :: pmm
  classes :: "SizeClass list"
  slice_counts :: slice_stats
  regions :: "HeapRegion list"
  free_list :: u64
  heap_backing_pages :: u64
  heap_failed_allocations :: u64

definition new_class :: "u64 \<Rightarrow> SizeClass" where
  "new_class n = \<lparr>class_size = n, class_alignment = 16, class_free_list = 0, class_total_slices = 0,
     class_free_slices = 0, class_backing_pages = 0\<rparr>"

definition initial_classes :: "SizeClass list" where
  "initial_classes = map new_class [16, 32, 64, 128, 256, 512, 1024, 2048]"

definition zero_stats :: slice_stats where
  "zero_stats = \<lparr>slice_backing_pages = 0, slice_total = 0, slice_free_count = 0, slice_failed = 0\<rparr>"

section \<open>Slices\<close>

definition is_power_of_two :: "u64 \<Rightarrow> bool" where
  "is_power_of_two v \<longleftrightarrow> v \<noteq> 0 \<and> v AND (v - 1) = 0"

definition class_for :: "u64 \<Rightarrow> u64 \<Rightarrow> kheap \<Rightarrow> nat option" where
  "class_for n alignment s =
     (if n = 0 \<or> \<not> is_power_of_two alignment then None
      else
        (let required = (if n > 8 then n else 8) in
         find (\<lambda>i. required \<le> class_size (classes s ! i) \<and> alignment \<le> class_alignment (classes s ! i))
           [0 ..< length (classes s)]))"

definition grow_class :: "nat \<Rightarrow> kheap \<Rightarrow> bool \<times> kheap" where
  "grow_class i s =
     (let (physical_page, pm) = alloc_page (pages s); s = s\<lparr>pages := pm\<rparr> in
      if physical_page = invalid_physical_address
      then (False, s\<lparr>slice_counts := (slice_counts s)\<lparr>slice_failed := slice_failed (slice_counts s) + 1\<rparr>\<rparr>)
      else
        (let page = physical_to_virtual (hhdm s) physical_page;
             c = classes s ! i;
             slice_count = page_size div class_size c;
             (m, l) = fold (\<lambda>index (m, l). let node = page + index * class_size c in (store64 node l m, node))
                        (u64_range 0 slice_count) (mem s, class_free_list c);
             c = c\<lparr>class_free_list := l, class_backing_pages := class_backing_pages c + 1,
                   class_total_slices := class_total_slices c + slice_count,
                   class_free_slices := class_free_slices c + slice_count\<rparr>;
             t = slice_counts s;
             t = t\<lparr>slice_backing_pages := slice_backing_pages t + 1, slice_total := slice_total t + slice_count,
                   slice_free_count := slice_free_count t + slice_count\<rparr> in
         (True, s\<lparr>mem := m, classes := (classes s)[i := c], slice_counts := t\<rparr>)))"

definition slice_init :: "u64 \<Rightarrow> kheap \<Rightarrow> kheap" where
  "slice_init hhdm_offset s = s\<lparr>hhdm := hhdm_offset, slice_counts := zero_stats,
     classes := map (\<lambda>c. c\<lparr>class_free_list := 0, class_total_slices := 0, class_free_slices := 0,
                            class_backing_pages := 0\<rparr>) (classes s)\<rparr>"

text \<open>The end of \<open>alloc\<close>: the first slice of the list.\<close>

definition pop_slice :: "nat \<Rightarrow> kheap \<Rightarrow> u64 \<times> kheap" where
  "pop_slice i s =
     (let c = classes s ! i; node = class_free_list c; t = slice_counts s in
      (node, s\<lparr>classes := (classes s)[i := c\<lparr>class_free_list := load64 (mem s) node,
                                             class_free_slices := class_free_slices c - 1\<rparr>],
               slice_counts := t\<lparr>slice_free_count := slice_free_count t - 1\<rparr>\<rparr>))"

definition slice_alloc :: "u64 \<Rightarrow> u64 \<Rightarrow> kheap \<Rightarrow> u64 \<times> kheap" where
  "slice_alloc n alignment s =
     (case class_for n alignment s of
        None \<Rightarrow> (0, s\<lparr>slice_counts := (slice_counts s)\<lparr>slice_failed := slice_failed (slice_counts s) + 1\<rparr>\<rparr>)
      | Some i \<Rightarrow>
          if class_free_list (classes s ! i) = 0
          then (let (ok, s) = grow_class i s in if \<not> ok then (0, s) else pop_slice i s)
          else pop_slice i s)"

definition slice_free :: "u64 \<Rightarrow> u64 \<Rightarrow> kheap \<Rightarrow> kheap" where
  "slice_free pointer n s =
     (if pointer = 0 then s
      else
        (case class_for n 8 s of
           None \<Rightarrow> s
         | Some i \<Rightarrow>
             (let c = classes s ! i; t = slice_counts s in
              s\<lparr>mem := store64 pointer (class_free_list c) (mem s),
                classes := (classes s)[i := c\<lparr>class_free_list := pointer,
                                              class_free_slices := class_free_slices c + 1\<rparr>],
                slice_counts := t\<lparr>slice_free_count := slice_free_count t + 1\<rparr>\<rparr>)))"

section \<open>Blocks of the heap\<close>

definition allocated_flag :: u64 where "allocated_flag = 1"
definition size_mask :: u64 where "size_mask = NOT allocated_flag"
definition min_block_size :: u64 where "min_block_size = 32"
definition grow_page_count :: u64 where "grow_page_count = 16"
definition max_regions :: nat where "max_regions = 16"

definition block_header :: "u64 \<Rightarrow> u64" where "block_header p = p - 8"
definition block_payload :: "u64 \<Rightarrow> u64" where "block_payload hdr = hdr + 8"

definition block_size :: "bytes \<Rightarrow> u64 \<Rightarrow> u64" where
  "block_size m hdr = load64 m hdr AND size_mask"

definition block_allocated :: "bytes \<Rightarrow> u64 \<Rightarrow> bool" where
  "block_allocated m hdr \<longleftrightarrow> load64 m hdr AND allocated_flag \<noteq> 0"

definition next_block :: "bytes \<Rightarrow> u64 \<Rightarrow> u64" where
  "next_block m hdr = hdr + block_size m hdr"

definition block_footer :: "bytes \<Rightarrow> u64 \<Rightarrow> u64" where
  "block_footer m hdr = hdr + block_size m hdr - 8"

definition set_block :: "u64 \<Rightarrow> u64 \<Rightarrow> bool \<Rightarrow> bytes \<Rightarrow> bytes" where
  "set_block hdr n allocated m =
     (let m = store64 hdr (n OR (if allocated then allocated_flag else 0)) m in
      store64 (block_footer m hdr) (load64 m hdr) m)"

definition read_shift :: "bytes \<Rightarrow> u64 \<Rightarrow> u64" where "read_shift m p = load64 m (p - 8)"
definition write_shift :: "u64 \<Rightarrow> u64 \<Rightarrow> bytes \<Rightarrow> bytes" where "write_shift p shift = store64 (p - 8) shift"

definition payload_from_user_ptr :: "bytes \<Rightarrow> u64 \<Rightarrow> u64" where
  "payload_from_user_ptr m p = p - read_shift m p"

definition header_from_user_ptr :: "bytes \<Rightarrow> u64 \<Rightarrow> u64" where
  "header_from_user_ptr m p = block_header (payload_from_user_ptr m p)"

section \<open>The free list of the heap\<close>

text \<open>\<open>prev\<close> points to the variable \<open>free_list\<close> (\<open>None\<close>) or to the \<open>next\<close> field of a node.\<close>

definition link_get :: "u64 option \<Rightarrow> kheap \<Rightarrow> u64" where
  "link_get l s = (case l of None \<Rightarrow> free_list s | Some a \<Rightarrow> load64 (mem s) a)"

definition link_set :: "u64 option \<Rightarrow> u64 \<Rightarrow> kheap \<Rightarrow> kheap" where
  "link_set l v s = (case l of None \<Rightarrow> s\<lparr>free_list := v\<rparr> | Some a \<Rightarrow> s\<lparr>mem := store64 a v (mem s)\<rparr>)"

partial_function (option) walk_links :: "(u64 \<Rightarrow> bool) \<Rightarrow> u64 option \<Rightarrow> kheap \<Rightarrow> u64 option option" where
  "walk_links stop l s =
     (if link_get l s \<noteq> 0 \<and> \<not> stop (link_get l s) then walk_links stop (Some (link_get l s)) s else Some l)"

definition remove_from_free_list :: "u64 \<Rightarrow> kheap \<Rightarrow> kheap option" where
  "remove_from_free_list target s = do {
     l \<leftarrow> walk_links (\<lambda>p. p = target) None s;
     Some (if link_get l s \<noteq> 0 then link_set l (load64 (mem s) target) s else s)
   }"

definition add_to_free_list :: "u64 \<Rightarrow> kheap \<Rightarrow> kheap option" where
  "add_to_free_list node s = do {
     l \<leftarrow> walk_links (\<lambda>p. \<not> p < node) None s;
     (let s = s\<lparr>mem := store64 node (link_get l s) (mem s)\<rparr> in Some (link_set l node s))
   }"

definition region_is_empty :: "u64 \<Rightarrow> bool" where
  "region_is_empty n \<longleftrightarrow> n < 8 + 8 + 8 + 1"

definition init_region_as_free_block :: "u64 \<Rightarrow> u64 \<Rightarrow> kheap \<Rightarrow> kheap option" where
  "init_region_as_free_block base n s =
     (if region_is_empty n then Some s
      else add_to_free_list (block_payload base) (s\<lparr>mem := set_block base n False (mem s)\<rparr>))"

definition try_add_region :: "u64 \<Rightarrow> u64 \<Rightarrow> kheap \<Rightarrow> bool \<times> kheap" where
  "try_add_region base limit s =
     (if length (regions s) \<ge> max_regions then (False, s)
      else (True, s\<lparr>regions := regions s @ [\<lparr>heap_base = base, heap_limit = limit\<rparr>]\<rparr>))"

definition grow_heap :: "kheap \<Rightarrow> (bool \<times> kheap) option" where
  "grow_heap s =
     (let (phys, pm) = alloc_pages grow_page_count (pages s); s = s\<lparr>pages := pm\<rparr> in
      if phys = invalid_physical_address then Some (False, s)
      else
        (let virt = physical_to_virtual (hhdm s) phys; region_size = grow_page_count * page_size;
             (ok, s) = try_add_region virt (virt + region_size) s in
         if \<not> ok then Some (False, s\<lparr>pages := free_pages phys grow_page_count (pages s)\<rparr>)
         else do {
           s \<leftarrow> init_region_as_free_block virt region_size
                 (s\<lparr>heap_backing_pages := heap_backing_pages s + grow_page_count\<rparr>);
           Some (True, s)
         }))"

definition heap_align_up :: "u64 \<Rightarrow> u64 \<Rightarrow> u64" where
  "heap_align_up v alignment = (v + alignment - 1) AND NOT (alignment - 1)"

section \<open>Heap operations\<close>

definition heap_init :: "kheap \<Rightarrow> kheap" where
  "heap_init s = s\<lparr>regions := [], free_list := 0, heap_backing_pages := 0, heap_failed_allocations := 0\<rparr>"

definition heap_user_ptr :: "u64 \<Rightarrow> u64 \<Rightarrow> u64" where
  "heap_user_ptr alignment node = heap_align_up (node + 8) alignment"

definition total_used :: "u64 \<Rightarrow> u64 \<Rightarrow> u64 \<Rightarrow> u64" where
  "total_used n alignment node =
     (let t = (heap_user_ptr alignment node - block_header node) + n + 8 in
      if t < min_block_size then min_block_size else t)"

text \<open>The walk along the free list: the first node whose block is large enough, or 0.\<close>

partial_function (option) heap_find :: "u64 \<Rightarrow> u64 \<Rightarrow> u64 \<Rightarrow> kheap \<Rightarrow> u64 option" where
  "heap_find n alignment node s =
     (if node = 0 then Some 0
      else if total_used n alignment node \<le> block_size (mem s) (block_header node) then Some node
      else heap_find n alignment (load64 (mem s) node) s)"

text \<open>The block of \<open>node\<close> is taken off the list, split if the rest is large enough, and handed out.\<close>

definition heap_take :: "u64 \<Rightarrow> u64 \<Rightarrow> u64 \<Rightarrow> kheap \<Rightarrow> (u64 \<times> kheap) option" where
  "heap_take n alignment node s =
     (let hdr = block_header node; bsize = block_size (mem s) hdr; used = total_used n alignment node;
          user_ptr = heap_user_ptr alignment node; remaining = bsize - used in do {
        s \<leftarrow> remove_from_free_list node s;
        s \<leftarrow> (if remaining \<ge> min_block_size
              then (let m = set_block (hdr + used) remaining False (set_block hdr used True (mem s)) in
                    add_to_free_list (block_payload (hdr + used)) (s\<lparr>mem := m\<rparr>))
              else Some (s\<lparr>mem := set_block hdr bsize True (mem s)\<rparr>));
        Some (user_ptr, s\<lparr>mem := write_shift user_ptr (user_ptr - node) (mem s)\<rparr>)
      })"

partial_function (option) heap_alloc_loop :: "u64 \<Rightarrow> u64 \<Rightarrow> kheap \<Rightarrow> (u64 \<times> kheap) option" where
  "heap_alloc_loop n alignment s =
     Option.bind (heap_find n alignment (free_list s) s) (\<lambda>node.
       if node \<noteq> 0 then heap_take n alignment node s
       else Option.bind (grow_heap s) (\<lambda>(ok, s).
         if \<not> ok then Some (0, s\<lparr>heap_failed_allocations := heap_failed_allocations s + 1\<rparr>)
         else heap_alloc_loop n alignment s))"

definition heap_alloc :: "u64 \<Rightarrow> u64 \<Rightarrow> kheap \<Rightarrow> (u64 \<times> kheap) option" where
  "heap_alloc n alignment s =
     (if n = 0 then Some (0, s)
      else heap_alloc_loop n (if alignment < 8 then 8 else alignment) s)"

definition in_region :: "u64 \<Rightarrow> HeapRegion \<Rightarrow> bool" where
  "in_region p r \<longleftrightarrow> p \<ge> heap_base r \<and> p < heap_limit r"

definition heap_contains :: "u64 \<Rightarrow> kheap \<Rightarrow> bool" where
  "heap_contains p s \<longleftrightarrow> p \<noteq> 0 \<and> list_ex (in_region p) (regions s)"

text \<open>The two merges of \<open>free\<close>; the second returns the header of the merged block.\<close>

definition merge_next :: "u64 \<Rightarrow> u64 \<Rightarrow> kheap \<Rightarrow> kheap option" where
  "merge_next hdr bsize s =
     (let nxt = next_block (mem s) hdr in
      if list_ex (in_region nxt) (regions s) \<and> \<not> block_allocated (mem s) nxt then do {
        s \<leftarrow> remove_from_free_list (block_payload nxt) s;
        Some (s\<lparr>mem := set_block hdr (bsize + block_size (mem s) nxt) False (mem s)\<rparr>)
      }
      else Some s)"

definition merge_prev :: "u64 \<Rightarrow> kheap \<Rightarrow> (u64 \<times> kheap) option" where
  "merge_prev hdr s =
     (case find (in_region hdr) (regions s) of
        None \<Rightarrow> Some (hdr, s)
      | Some r \<Rightarrow>
          (let region_start = heap_base r; prev_size = load64 (mem s) (hdr - 8) AND size_mask; prv = hdr - prev_size in
           if region_start \<noteq> 0 \<and> hdr > region_start + 8 \<and> prev_size > 0
             \<and> prv \<ge> region_start \<and> \<not> block_allocated (mem s) prv
           then do {
             s \<leftarrow> remove_from_free_list (block_payload prv) s;
             Some (prv, s\<lparr>mem := set_block prv (block_size (mem s) prv + block_size (mem s) hdr) False (mem s)\<rparr>)
           }
           else Some (hdr, s)))"

definition heap_free :: "u64 \<Rightarrow> kheap \<Rightarrow> kheap option" where
  "heap_free p s =
     (if p = 0 \<or> \<not> heap_contains p s then Some s
      else
        (let hdr = header_from_user_ptr (mem s) p in
         if \<not> block_allocated (mem s) hdr then Some s
         else
           (let bsize = block_size (mem s) hdr; s = s\<lparr>mem := set_block hdr bsize False (mem s)\<rparr> in do {
              s \<leftarrow> merge_next hdr bsize s;
              (hdr, s) \<leftarrow> merge_prev hdr s;
              add_to_free_list (block_payload hdr) s
            })))"

section \<open>The choice of the allocator\<close>

definition page_count_for_size :: "u64 \<Rightarrow> u64" where
  "page_count_for_size n = (n + page_size - 1) div page_size"

definition heap_threshold :: u64 where "heap_threshold = 1024 * 1024"

definition mem_kalloc :: "u64 \<Rightarrow> u64 \<Rightarrow> kheap \<Rightarrow> (u64 \<times> kheap) option" where
  "mem_kalloc n alignment s =
     (if n = 0 then Some (0, s)
      else if n \<le> 2048 \<and> alignment \<le> 16 then Some (slice_alloc n alignment s)
      else if n \<le> heap_threshold then heap_alloc n alignment s
      else if alignment > page_size then Some (0, s)
      else
        (let (physical, pm) = alloc_pages (page_count_for_size n) (pages s); s = s\<lparr>pages := pm\<rparr> in
         Some (if physical = invalid_physical_address then (0, s)
               else (physical_to_virtual (hhdm s) physical, s))))"

definition mem_kfree :: "u64 \<Rightarrow> u64 \<Rightarrow> kheap \<Rightarrow> kheap option" where
  "mem_kfree p n s =
     (if p = 0 \<or> n = 0 then Some s
      else if n \<le> 2048 then Some (slice_free p n s)
      else if heap_contains p s then heap_free p s
      else Some (s\<lparr>pages := free_pages (virtual_to_physical (hhdm s) p) (page_count_for_size n) (pages s)\<rparr>))"

end
