(* ===== verification/Tori_Kalloc_Props.thy ===== *)
theory Tori_Kalloc_Props
  imports Tori_Kalloc
begin

text \<open>
  Words in byte memory, the lists of free slices as stacks, and the pointers the heap hands out.
\<close>

section \<open>Words in memory\<close>

lemma horner_bytes:
  "horner_sum unat 256 (map (\<lambda>i. ucast (drop_bit (8 * i) (v :: u64)) :: u8) [0 ..< k]) = unat v mod 2 ^ (8 * k)"
proof (induction k)
  case (Suc k)
  have "unat (ucast (drop_bit (8 * k) v) :: u8) = unat v div 2 ^ (8 * k) mod 256"
  proof -
    have "unat (drop_bit (8 * k) v) = unat v div 2 ^ (8 * k)"
      using unat_u64_less [of v] by (simp add: unsigned_drop_bit_eq take_bit_nat_eq_self drop_bit_eq_div [of _ "unat v"])
    then show ?thesis by (simp add: unsigned_ucast_eq take_bit_eq_mod [of 8 "unat v div _"])
  qed
  moreover have "(256 :: nat) ^ k = 2 ^ (8 * k)" by (simp add: power_mult)
  moreover have "unat v mod (2 ^ (8 * k) * 256) = 2 ^ (8 * k) * (unat v div 2 ^ (8 * k) mod 256) + unat v mod 2 ^ (8 * k)"
    by (rule mod_mult2_eq)
  moreover have "(2 :: nat) ^ (8 * Suc k) = 2 ^ (8 * k) * 256" by (simp add: power_add)
  ultimately show ?case using Suc by (simp add: horner_sum_append)
qed simp

lemma load_store_same [simp]: "load64 (store64 a v m) a = v"
proof -
  have "store64 a v m (a + of_nat i) = ucast (drop_bit (8 * i) v)" if "i < 8" for i
  proof -
    have "unat (of_nat i :: u64) = i" using that by (simp add: unat_of_nat take_bit_nat_eq_self)
    then show ?thesis using that by (simp add: store64_def)
  qed
  then have "map (\<lambda>i. store64 a v m (a + of_nat i)) [0 ..< 8] = map (\<lambda>i. ucast (drop_bit (8 * i) v)) [0 ..< 8]"
    by (intro map_cong refl) simp
  then have "load64 (store64 a v m) a = of_nat (unat v mod 2 ^ (8 * 8))"
    by (simp only: load64_def horner_bytes)
  then show ?thesis using unat_u64_less [of v] by simp
qed

text \<open>The words at two addresses share no byte.\<close>

definition apart8 :: "u64 \<Rightarrow> u64 \<Rightarrow> bool" where
  "apart8 a b \<longleftrightarrow> (\<forall>i < 8. 8 \<le> unat (b + of_nat i - a))"

lemma load_store_apart: "apart8 a b \<Longrightarrow> load64 (store64 a v m) b = load64 m b"
proof -
  assume "apart8 a b"
  then have "map (\<lambda>i. store64 a v m (b + of_nat i)) [0 ..< 8] = map (\<lambda>i. m (b + of_nat i)) [0 ..< 8]"
    by (intro map_cong refl) (auto simp: apart8_def store64_def not_less)
  then show ?thesis by (simp only: load64_def)
qed

lemma apart8I:
  assumes "unat a + 8 \<le> unat b \<or> unat b + 8 \<le> unat a" "unat a + 8 \<le> 2 ^ 64" "unat b + 8 \<le> 2 ^ 64"
  shows "apart8 a b"
  unfolding apart8_def
proof (intro allI impI)
  fix i :: nat assume i: "i < 8"
  have "unat (of_nat i :: u64) = i" using i by (simp add: unat_of_nat take_bit_nat_eq_self)
  then have "unat (b + of_nat i) = unat b + i" using assms(3) i by (simp add: unat_word_ariths)
  then show "8 \<le> unat (b + of_nat i - a)" using assms i unat_u64_less [of a] by (auto simp: unat_sub_if')
qed

section \<open>Free slices\<close>

fun slist :: "bytes \<Rightarrow> u64 \<Rightarrow> u64 list \<Rightarrow> bool" where
  "slist m p [] \<longleftrightarrow> p = 0"
| "slist m p (x # xs) \<longleftrightarrow> p = x \<and> x \<noteq> 0 \<and> slist m (load64 m x) xs"

lemma slist_store: "\<forall>x \<in> set xs. apart8 a x \<Longrightarrow> slist (store64 a v m) p xs = slist m p xs"
  by (induction xs arbitrary: p) (auto simp: load_store_apart)

text \<open>The free list of a class.\<close>

definition class_list :: "nat \<Rightarrow> kheap \<Rightarrow> u64 list \<Rightarrow> bool" where
  "class_list i s xs \<longleftrightarrow> i < length (classes s) \<and> slist (mem s) (class_free_list (classes s ! i)) xs"

lemma class_for_less: "class_for n al s = Some i \<Longrightarrow> i < length (classes s)"
  by (auto simp: class_for_def Let_def find_Some_iff split: if_splits)

text \<open>The alignment does not matter to the choice of a class.\<close>

lemma class_for_alignment:
  assumes "\<forall>c \<in> set (classes s). class_alignment c = 16" "is_power_of_two al" "al \<le> 16"
  shows "class_for n al s = class_for n 8 s"
proof -
  let ?r = "if n > 8 then n else 8 :: u64"
  have "is_power_of_two 8" by (simp add: is_power_of_two_def)
  moreover have "find (\<lambda>i. ?r \<le> class_size (classes s ! i) \<and> al \<le> class_alignment (classes s ! i)) [0 ..< length (classes s)] =
      find (\<lambda>i. ?r \<le> class_size (classes s ! i) \<and> 8 \<le> class_alignment (classes s ! i)) [0 ..< length (classes s)]"
    by (rule find_cong [OF refl]) (use assms in auto)
  ultimately show ?thesis using assms(2) by (simp add: class_for_def Let_def)
qed

lemma class_for_cong:
  assumes "map class_size (classes t) = map class_size (classes s)"
    "map class_alignment (classes t) = map class_alignment (classes s)"
  shows "class_for n al t = class_for n al s"
proof -
  have l: "length (classes t) = length (classes s)" using assms(1) by (metis length_map)
  have "class_size (classes t ! i) = class_size (classes s ! i)" "class_alignment (classes t ! i) = class_alignment (classes s ! i)"
    if "i < length (classes s)" for i
    using assms that l by (metis nth_map)+
  then have "find (\<lambda>i. r \<le> class_size (classes t ! i) \<and> al \<le> class_alignment (classes t ! i)) [0 ..< length (classes t)] =
      find (\<lambda>i. r \<le> class_size (classes s ! i) \<and> al \<le> class_alignment (classes s ! i)) [0 ..< length (classes s)]" for r
    by (intro find_cong) (auto simp: l)
  then show ?thesis by (simp add: class_for_def Let_def)
qed

lemma pop_slice_effect:
  assumes "class_list i s (x # xs)"
  shows "fst (pop_slice i s) = x" "class_list i (snd (pop_slice i s)) xs"
    "j \<noteq> i \<Longrightarrow> class_list j (snd (pop_slice i s)) ys = class_list j s ys"
    "map class_size (classes (snd (pop_slice i s))) = map class_size (classes s)"
    "map class_alignment (classes (snd (pop_slice i s))) = map class_alignment (classes s)"
  using assms by (auto simp: pop_slice_def Let_def class_list_def nth_list_update map_update list_update_same_conv)

lemma slice_free_effect:
  assumes "class_for n 8 s = Some i" "p \<noteq> 0" "class_list i s xs" "\<forall>x \<in> set xs. apart8 p x"
  shows "class_list i (slice_free p n s) (p # xs)"
    "j \<noteq> i \<Longrightarrow> \<forall>y \<in> set ys. apart8 p y \<Longrightarrow> class_list j (slice_free p n s) ys = class_list j s ys"
  using assms by (auto simp: slice_free_def Let_def class_list_def slist_store)

section \<open>Pointers of the heap\<close>

lemma heap_take_pointer:
  assumes "heap_take n al node s = Some (p, t)"
  shows "p = heap_user_ptr al node" "read_shift (mem t) p = p - node"
  using assms by (auto simp: heap_take_def Let_def bind_eq_Some_conv write_shift_def read_shift_def)

lemma heap_alloc_loop_pointer:
  assumes "heap_alloc_loop n al s = Some (p, t)" "p \<noteq> 0"
  shows "\<exists>node. node \<noteq> 0 \<and> p = heap_user_ptr al node \<and> header_from_user_ptr (mem t) p = block_header node"
proof -
  let ?P = "\<lambda>n al s r. fst r \<noteq> 0 \<longrightarrow> (\<exists>node. node \<noteq> 0 \<and> fst r = heap_user_ptr al node
    \<and> header_from_user_ptr (mem (snd r)) (fst r) = block_header node)"
  have "?P n al s (p, t)"
  proof (rule heap_alloc_loop.raw_induct [of ?P, OF _ assms(1)])
    fix f :: "u64 \<Rightarrow> u64 \<Rightarrow> kheap \<Rightarrow> (u64 \<times> kheap) option" and n al s r
    assume IH: "\<And>n al s r. f n al s = Some r \<Longrightarrow> ?P n al s r"
      and eq: "Option.bind (heap_find n al (free_list s) s) (\<lambda>node.
        if node \<noteq> 0 then heap_take n al node s
        else Option.bind (grow_heap s) (\<lambda>(ok, s).
          if \<not> ok then Some (0, s\<lparr>heap_failed_allocations := heap_failed_allocations s + 1\<rparr>) else f n al s)) = Some r"
    from eq obtain node where node: "heap_find n al (free_list s) s = Some node" by (auto simp: bind_eq_Some_conv)
    show "?P n al s r"
    proof (cases "node = 0")
      case False
      then have "heap_take n al node s = Some (fst r, snd r)" using eq node by simp
      from heap_take_pointer [OF this] False show ?thesis
        by (auto simp: header_from_user_ptr_def payload_from_user_ptr_def)
    next
      case True
      then show ?thesis using eq node IH by (auto simp: bind_eq_Some_conv split: if_splits)
    qed
  qed
  with assms(2) show ?thesis by simp
qed

lemma heap_align_up_mod:
  assumes "k < 64"
  shows "unat (heap_align_up v (2 ^ k)) mod 2 ^ k = 0"
proof -
  have "heap_align_up v (2 ^ k) AND (2 ^ k - 1) = 0"
    by (simp add: heap_align_up_def and.assoc)
  then have "take_bit k (heap_align_up v (2 ^ k)) = 0"
    by (simp add: take_bit_eq_mask mask_eq_decr_exp)
  then have "unat (take_bit k (heap_align_up v (2 ^ k))) = 0" by (simp only: unsigned_0)
  then have "take_bit k (unat (heap_align_up v (2 ^ k))) = 0" by (simp only: unsigned_take_bit_eq)
  then show ?thesis by (simp only: take_bit_eq_mod)
qed

section \<open>Properties\<close>

text \<open>A pointer the heap hands out is aligned as asked (to 8 bytes at least), and the word stored before it
  leads back to the header of its block, which is how \<open>free\<close> finds it.\<close>

theorem heap_alloc_pointer:
  assumes "heap_alloc n (2 ^ k) s = Some (p, t)" and "p \<noteq> 0" and "k < 64"
  shows "unat p mod 2 ^ k = 0 \<and> unat p mod 8 = 0
    \<and> (\<exists>node. header_from_user_ptr (mem t) p = block_header node \<and> p = heap_user_ptr (if k < 3 then 8 else 2 ^ k) node)"
proof -
  let ?k = "if k < 3 then 3 else k"
  have "(2 ^ k :: u64) < 8 \<longleftrightarrow> k < 3"
  proof -
    have "unat (2 ^ k :: u64) = 2 ^ k" using assms(3) unat_of_nat [where 'a = 64, of "2 ^ k"]
        power_strict_increasing [of k 64 "2 :: nat"] by (simp add: take_bit_nat_eq_self)
    then have "(2 ^ k :: u64) < 8 \<longleftrightarrow> (2 :: nat) ^ k < 2 ^ 3" by (simp add: word_less_nat_alt)
    also have "\<dots> \<longleftrightarrow> k < 3" by (rule power_strict_increasing_iff) simp
    finally show ?thesis .
  qed
  then have "heap_alloc_loop n (2 ^ ?k) s = Some (p, t)" using assms(1,2) by (auto simp: heap_alloc_def split: if_splits)
  from heap_alloc_loop_pointer [OF this assms(2)] obtain node
    where n: "p = heap_user_ptr (2 ^ ?k) node" "header_from_user_ptr (mem t) p = block_header node" by blast
  have "unat p mod 2 ^ ?k = 0" using heap_align_up_mod [of ?k] assms(3) by (simp add: n(1) heap_user_ptr_def)
  then have "2 ^ ?k dvd unat p" by (simp add: dvd_eq_mod_eq_0)
  moreover have "2 ^ k dvd (2 ^ ?k :: nat)" "(8 :: nat) dvd 2 ^ ?k" using le_imp_power_dvd [of 3 k "2 :: nat"] le_imp_power_dvd [of k 3 "2 :: nat"] by auto
  ultimately have "2 ^ k dvd unat p" "8 dvd unat p" by (meson dvd_trans)+
  then show ?thesis using n by (auto simp: dvd_eq_mod_eq_0)
qed

text \<open>C7. A small allocation takes the first slice of the class for its size, and \<open>kfree\<close> with the same size puts
  it back in front of that list; the other classes keep their lists.\<close>

theorem kalloc_kfree_small:
  assumes "\<forall>c \<in> set (classes s). class_alignment c = 16" and "0 < n" "n \<le> 2048" "is_power_of_two al" "al \<le> 16"
    and "class_for n al s = Some i" and "class_list i s (x # xs)" and "\<forall>y \<in> set xs. apart8 x y"
  shows "\<exists>t u. mem_kalloc n al s = Some (x, t) \<and> class_list i t xs
    \<and> mem_kfree x n t = Some u \<and> class_list i u (x # xs)
    \<and> (\<forall>j ys. j \<noteq> i \<and> class_list j s ys \<and> (\<forall>y \<in> set ys. apart8 x y) \<longrightarrow> class_list j t ys \<and> class_list j u ys)"
proof -
  note pop = pop_slice_effect [OF assms(7)]
  let ?t = "snd (pop_slice i s)"
  have x: "x \<noteq> 0" "class_free_list (classes s ! i) = x" using assms(7) by (auto simp: class_list_def)
  have "mem_kalloc n al s = Some (x, ?t)"
    using assms(2-6) x pop(1) by (simp add: mem_kalloc_def slice_alloc_def prod_eq_iff)
  moreover have "class_for n 8 ?t = Some i"
    using class_for_alignment [OF assms(1,4,5)] assms(6) class_for_cong [OF pop(4,5)] by simp
  note free = slice_free_effect [OF this x(1) pop(2) assms(8)]
  moreover have "mem_kfree x n ?t = Some (slice_free x n ?t)" using assms(2,3) x by (simp add: mem_kfree_def)
  ultimately show ?thesis using pop(2,3) by blast
qed

text \<open>A small request with a large alignment comes from the heap, but \<open>kfree\<close> gives it to the slices.\<close>

lemma kalloc_kfree_mismatch:
  assumes "0 < n" "n \<le> 2048" "16 < al" "p \<noteq> 0"
  shows "mem_kalloc n al s = heap_alloc n al s" "mem_kfree p n t = Some (slice_free p n t)"
proof -
  have "n \<le> heap_threshold" using assms(2) by (simp add: heap_threshold_def word_le_nat_alt)
  moreover have "\<not> al \<le> 16" "n \<noteq> 0" using assms by auto
  ultimately show "mem_kalloc n al s = heap_alloc n al s" by (simp add: mem_kalloc_def)
  show "mem_kfree p n t = Some (slice_free p n t)" using assms by (simp add: mem_kfree_def)
qed

text \<open>An odd size loses its last bit to the flag.\<close>

lemma set_block_size:
  assumes "apart8 (block_footer (store64 hdr (n OR (if a then allocated_flag else 0)) m) hdr) hdr"
  shows "block_size (set_block hdr n a m) hdr = n AND NOT 1"
    "block_allocated (set_block hdr n a m) hdr \<longleftrightarrow> a \<or> odd n"
proof -
  have l: "load64 (set_block hdr n a m) hdr = n OR (if a then allocated_flag else 0)"
    using assms by (simp add: set_block_def Let_def load_store_apart)
  show "block_size (set_block hdr n a m) hdr = n AND NOT 1"
    by (rule bit_eqI) (auto simp: block_size_def l size_mask_def allocated_flag_def bit_simps)
  have "x AND 1 \<noteq> 0 \<longleftrightarrow> odd x" for x :: u64 by (simp add: and_one_eq odd_iff_mod_2_eq_one)
  then show "block_allocated (set_block hdr n a m) hdr \<longleftrightarrow> a \<or> odd n"
    by (simp add: block_allocated_def l allocated_flag_def even_or_iff)
qed

text \<open>A machine with one free block of 64 KiB at 0x10000 and one free slice of 16 bytes at 0x8000.\<close>

definition example_heap :: kheap where
  "example_heap = \<lparr>mem = store64 0x10008 0 (store64 0x10000 0x10000 (\<lambda>_. 0)), hhdm = 0, pages = example_pmm,
     classes = (new_class 16)\<lparr>class_free_list := 0x8000, class_free_slices := 1\<rparr> #
       map new_class [32, 64, 128, 256, 512, 1024, 2048],
     slice_counts = zero_stats, regions = [\<lparr>heap_base = 0x10000, heap_limit = 0x20000\<rparr>],
     free_list = 0x10008, heap_backing_pages = 16, heap_failed_allocations = 0\<rparr>"

lemma load64_zero: "load64 (\<lambda>_. 0) a = 0"
  by (simp add: load64_def upt_rec)

lemma example_heap_words: "load64 (mem example_heap) 0x10000 = 0x10000" "load64 (mem example_heap) 0x10008 = 0"
  "load64 (mem example_heap) 0x8000 = 0"
proof -
  have a: "apart8 0x10008 0x10000" "apart8 0x10008 0x8000" "apart8 0x10000 0x8000"
    by (rule apart8I; simp)+
  show "load64 (mem example_heap) 0x10000 = 0x10000" "load64 (mem example_heap) 0x10008 = 0"
    "load64 (mem example_heap) 0x8000 = 0"
    using a by (simp_all add: example_heap_def load_store_apart load64_zero)
qed

lemma example_heap_alloc: "\<exists>t. heap_alloc 3000 (2 ^ 4) example_heap = Some (0x10010, t)"
proof -
  have w: "load64 (mem example_heap) (0x10008 - 8) = 0x10000" "load64 (mem example_heap) 0x10008 = 0"
    using example_heap_words by simp_all
  have u: "heap_user_ptr 16 0x10008 = 0x10010" by (simp add: heap_user_ptr_def heap_align_up_def)
  then have t: "total_used 3000 16 0x10008 = 3024"
    by (simp add: total_used_def Let_def block_header_def min_block_size_def)
  have b: "block_size (mem example_heap) (block_header 0x10008) = 0x10000"
    by (simp add: block_size_def block_header_def example_heap_words(1) size_mask_def allocated_flag_def)
  have l: "free_list example_heap = 0x10008" by (simp add: example_heap_def)
  have f: "heap_find 3000 16 0x10008 example_heap = Some 0x10008"
    by (subst heap_find.simps) (simp add: t b)
  have rm: "remove_from_free_list 0x10008 example_heap = Some (example_heap\<lparr>free_list := 0\<rparr>)"
    by (simp add: remove_from_free_list_def walk_links.simps [of _ None] link_get_def link_set_def l w)
  have "\<exists>t. heap_take 3000 16 0x10008 example_heap = Some (0x10010, t)"
    by (simp add: heap_take_def Let_def rm t b u min_block_size_def add_to_free_list_def walk_links.simps [of _ None]
        link_get_def link_set_def)
  then have "\<exists>t. heap_alloc_loop 3000 16 example_heap = Some (0x10010, t)"
    by (subst heap_alloc_loop.simps) (simp add: l f)
  then show ?thesis by (simp add: heap_alloc_def)
qed

theorem heap_alloc_pointer_witness:
  "\<exists>t node. heap_alloc 3000 (2 ^ 4) example_heap = Some (0x10010, t) \<and> unat (0x10010 :: u64) mod 2 ^ 4 = 0
     \<and> header_from_user_ptr (mem t) 0x10010 = block_header node"
proof -
  obtain t where t: "heap_alloc 3000 (2 ^ 4) example_heap = Some (0x10010, t)" using example_heap_alloc by blast
  have "(0x10010 :: u64) \<noteq> 0" "(4 :: nat) < 64" by simp_all
  from heap_alloc_pointer [OF t this] obtain node
    where n: "unat (0x10010 :: u64) mod 2 ^ 4 = 0" "header_from_user_ptr (mem t) 0x10010 = block_header node" by auto
  show ?thesis by (intro exI conjI) (rule t n)+
qed

theorem kalloc_kfree_small_witness:
  "\<exists>t u. mem_kalloc 10 8 example_heap = Some (0x8000, t) \<and> mem_kfree 0x8000 10 t = Some u
     \<and> class_list 0 u [0x8000]"
proof -
  have "\<forall>c \<in> set (classes example_heap). class_alignment c = 16" by (simp add: example_heap_def new_class_def)
  moreover have "is_power_of_two 8" by (simp add: is_power_of_two_def)
  moreover have "class_for 10 8 example_heap = Some 0"
    by (simp add: class_for_def is_power_of_two_def example_heap_def new_class_def upt_rec)
  moreover have "class_list 0 example_heap [0x8000]"
    using example_heap_words(3) by (simp add: class_list_def) (simp add: example_heap_def)
  ultimately show ?thesis using kalloc_kfree_small [of example_heap 10 8 0 "0x8000" "[]"] by auto
qed

end
