(* ===== verification/Tori_String.thy ===== *)
theory Tori_String
  imports Tori_Prelude
begin

text \<open>
  Strings and memory (\<open>kernel/include/tori/kernel/string.hpp\<close>, \<open>kernel/src/runtime/memory.cpp\<close>).  A C
  string is the list of its characters before the terminator.  Memory is an array of bytes indexed
  by address; a copying loop runs over its indices in the order of the code.
\<close>

section \<open>Strings\<close>

primrec string_length :: "string \<Rightarrow> nat" where
  "string_length [] = 0"
| "string_length (c # cs) = Suc (string_length cs)"

text \<open>The loop stops at the first terminator or difference; then the two current characters decide.\<close>

fun string_equals :: "string \<Rightarrow> string \<Rightarrow> bool" where
  "string_equals (a # as) (b # bs) = (if a = b then string_equals as bs else False)"
| "string_equals [] [] = True"
| "string_equals [] (b # bs) = False"
| "string_equals (a # as) [] = False"

text \<open>What is in \<open>dst\<close> after the loop, up to the terminator it stores; \<open>max_len - 1\<close> wraps at 0.\<close>

fun copy_upto :: "string \<Rightarrow> nat \<Rightarrow> string" where
  "copy_upto [] n = []"
| "copy_upto (c # cs) 0 = []"
| "copy_upto (c # cs) (Suc n) = c # copy_upto cs n"

definition copy_string :: "string \<Rightarrow> u64 \<Rightarrow> string" where
  "copy_string src max_len = copy_upto src (unat (max_len - 1))"

lemma string_length_eq [simp]: "string_length s = length s"
  by (induction s) simp_all

lemma string_equals_eq [simp]: "string_equals a b \<longleftrightarrow> a = b"
  by (induction a b rule: string_equals.induct) simp_all

lemma copy_upto_take: "copy_upto s n = take n s"
  by (induction s n rule: copy_upto.induct) simp_all

lemma copy_string_take: "copy_string s n = take (unat (n - 1)) s"
  by (simp add: copy_string_def copy_upto_take)

text \<open>A string that fits is copied whole.\<close>

lemma copy_string_fits: "length s < 256 \<Longrightarrow> copy_string s 256 = s"
  by (simp add: copy_string_take)

section \<open>Memory\<close>

type_synonym memory = "nat \<Rightarrow> u8"

definition copy_memory :: "nat \<Rightarrow> nat \<Rightarrow> nat \<Rightarrow> memory \<Rightarrow> memory" where
  "copy_memory dst src n m = fold (\<lambda>i m. m(dst + i := m (src + i))) [0 ..< n] m"

definition zero_memory :: "nat \<Rightarrow> nat \<Rightarrow> memory \<Rightarrow> memory" where
  "zero_memory dst n m = fold (\<lambda>i m. m(dst + i := 0)) [0 ..< n] m"

definition memcpy :: "nat \<Rightarrow> nat \<Rightarrow> nat \<Rightarrow> memory \<Rightarrow> memory" where
  "memcpy destination source count m =
     fold (\<lambda>index m. m(destination + index := m (source + index))) [0 ..< count] m"

definition memset :: "nat \<Rightarrow> 32 word \<Rightarrow> nat \<Rightarrow> memory \<Rightarrow> memory" where
  "memset destination value count m =
     fold (\<lambda>index m. m(destination + index := ucast value)) [0 ..< count] m"

definition memmove :: "nat \<Rightarrow> nat \<Rightarrow> nat \<Rightarrow> memory \<Rightarrow> memory" where
  "memmove destination source count m =
     (if destination < source then
        fold (\<lambda>index m. m(destination + index := m (source + index))) [0 ..< count] m
      else if destination > source then
        fold (\<lambda>index m. m(destination + (index - 1) := m (source + (index - 1)))) (rev [1 ..< count + 1]) m
      else m)"

text \<open>What every copy means: the destination gets what the source had before.\<close>

definition copied :: "nat \<Rightarrow> nat \<Rightarrow> nat \<Rightarrow> memory \<Rightarrow> memory" where
  "copied dst src n m = (\<lambda>a. if dst \<le> a \<and> a < dst + n then m (src + (a - dst)) else m a)"

lemma copy_forward:
  assumes "dst \<le> src \<or> src + n \<le> dst"
  shows "fold (\<lambda>i m. m(dst + i := m (src + i))) [0 ..< n] m = copied dst src n m"
  using assms
proof (induction n)
  case (Suc n)
  then have "dst \<le> src \<or> src + n \<le> dst" by auto
  note IH = Suc.IH [OF this]
  have "copied dst src n m (src + n) = m (src + n)" using Suc.prems by (auto simp: copied_def)
  then have "fold (\<lambda>i m. m(dst + i := m (src + i))) [0 ..< Suc n] m =
      (copied dst src n m)(dst + n := m (src + n))"
    by (simp add: IH)
  also have "\<dots> = copied dst src (Suc n) m" by (auto simp: copied_def fun_eq_iff)
  finally show ?case .
qed (auto simp: copied_def fun_eq_iff)

lemma copy_backward:
  assumes "src < dst"
  shows "fold (\<lambda>i m. m(dst + (i - 1) := m (src + (i - 1)))) (rev [1 ..< Suc n]) m = copied dst src n m"
proof -
  have "fold (\<lambda>i m. m(dst + (i - 1) := m (src + (i - 1)))) (rev [Suc k ..< Suc n]) m a =
      (if dst + k \<le> a \<and> a < dst + n then m (src + (a - dst)) else m a)" if "k \<le> n" for k a
    using that
  proof (induction "n - k" arbitrary: k a)
    case (Suc d)
    then have k: "k < n" "d = n - Suc k" "Suc k \<le> n" by auto
    have "[Suc k ..< Suc n] = Suc k # [Suc (Suc k) ..< Suc n]" using k(1) by (simp add: upt_rec)
    then show ?case using Suc.hyps(1) [OF k(2,3)] k(1) assms by (auto simp del: upt_Suc)
  qed auto
  from this [of 0] show ?thesis by (auto simp: copied_def fun_eq_iff)
qed

text \<open>\<open>memmove\<close> copies as if through a temporary buffer, however the two regions overlap;
  \<open>memcpy\<close> and \<open>copy_memory\<close> do so when the regions do not overlap with the source first.\<close>

theorem memory_copies:
  "memmove dst src n m = copied dst src n m
   \<and> (src + n \<le> dst \<or> dst \<le> src \<longrightarrow> memcpy dst src n m = copied dst src n m
        \<and> copy_memory dst src n m = copied dst src n m)"
proof -
  have "memmove dst src n m = copied dst src n m"
  proof (cases dst src rule: linorder_cases)
    case less
    then show ?thesis using copy_forward [of dst src n m] by (simp add: memmove_def)
  next
    case equal
    then show ?thesis by (auto simp: memmove_def copied_def fun_eq_iff)
  next
    case greater
    then show ?thesis using copy_backward [of src dst n m] by (simp add: memmove_def)
  qed
  then show ?thesis using copy_forward [of dst src n m] by (auto simp: memcpy_def copy_memory_def)
qed

theorem memory_copies_witness:
  "memcpy 8 0 4 (\<lambda>a. of_nat a) 9 = 1"
proof -
  have "memcpy 8 0 4 (\<lambda>a. of_nat a) = copied 8 0 4 (\<lambda>a. of_nat a)"
    using memory_copies [of 8 0 4 "\<lambda>a. of_nat a"] by simp
  then show ?thesis by (simp add: copied_def)
qed

end
