(* ===== verification/Tori_Vfs.thy ===== *)
theory Tori_Vfs
  imports Tori_String "HOL-Library.Monad_Syntax"
begin

text \<open>
  The virtual file system (\<open>kernel/src/fs/vfs.cpp\<close>, \<open>vfs.hpp\<close>).  A pointer is a number and
  \<open>nullptr\<close> is 0.  The tables \<open>vnode->ops\<close> points to are an argument \<open>tab\<close> of the operations, from
  the value of that field to the functions of the table; \<open>'f\<close> is the private data of the file
  systems.  A call returns its error code with the value of its output parameter and the new state;
  \<open>None\<close> is undefined behaviour: a null pointer is dereferenced or called, or a local array overrun.
  Output pointers the callers always pass are taken to be non-null.
\<close>

section \<open>Constants and objects (vfs.hpp)\<close>

definition E_SUCCESS :: int where "E_SUCCESS = 0"
definition E_NOT_FOUND :: int where "E_NOT_FOUND = - 1"
definition E_EXISTS :: int where "E_EXISTS = - 2"
definition E_NOT_DIR :: int where "E_NOT_DIR = - 3"
definition E_IS_DIR :: int where "E_IS_DIR = - 4"
definition E_INVALID :: int where "E_INVALID = - 5"
definition E_NO_SPACE :: int where "E_NO_SPACE = - 6"
definition E_IO :: int where "E_IO = - 7"
definition E_BAD_FD :: int where "E_BAD_FD = - 8"
definition E_NOT_EMPTY :: int where "E_NOT_EMPTY = - 9"

lemmas error_codes = E_SUCCESS_def E_NOT_FOUND_def E_EXISTS_def E_NOT_DIR_def E_IS_DIR_def
  E_INVALID_def E_NO_SPACE_def E_IO_def E_BAD_FD_def E_NOT_EMPTY_def

definition O_RDONLY :: u32 where "O_RDONLY = 0"
definition O_WRONLY :: u32 where "O_WRONLY = 1"
definition O_RDWR :: u32 where "O_RDWR = 2"
definition O_CREAT :: u32 where "O_CREAT = 4"
definition max_mounts :: nat where "max_mounts = 16"
definition max_fds :: nat where "max_fds = 256"

datatype VnodeType = File | Directory

record Stat =
  stat_type :: VnodeType
  stat_size :: u64

record Dirent =
  dirent_name :: string
  dirent_type :: VnodeType

type_synonym vptr = nat

record Vnode =
  vnode_type :: VnodeType
  vnode_ops :: nat
  private_data :: nat
  ref_count :: u64
  mount_parent :: vptr

record FileDescriptor =
  fd_vnode :: vptr
  fd_offset :: u64
  fd_flags :: u32
  fd_used :: bool

record MountEntry =
  mount_point :: vptr
  mounted_root :: vptr
  mount_used :: bool

text \<open>\<open>current_process\<close> is the process of the thread of the current task, if there is one.\<close>

record 'f vfs =
  vnodes :: "vptr \<Rightarrow> Vnode"
  mount_table :: "MountEntry list"
  kernel_fd_table :: "FileDescriptor list"
  process_fd_table :: "nat \<Rightarrow> FileDescriptor list"
  current_process :: "nat option"
  root_vnode :: vptr
  initialized :: bool
  fs_data :: 'f

record 'f VnodeOps =
  op_lookup :: "vptr \<Rightarrow> string \<Rightarrow> 'f vfs \<Rightarrow> (int \<times> vptr \<times> 'f vfs) option"
  op_create :: "vptr \<Rightarrow> string \<Rightarrow> 'f vfs \<Rightarrow> (int \<times> vptr \<times> 'f vfs) option"
  op_mkdir :: "(vptr \<Rightarrow> string \<Rightarrow> 'f vfs \<Rightarrow> (int \<times> 'f vfs) option) option"
  op_rmdir :: "vptr \<Rightarrow> string \<Rightarrow> 'f vfs \<Rightarrow> (int \<times> 'f vfs) option"
  op_unlink :: "vptr \<Rightarrow> string \<Rightarrow> 'f vfs \<Rightarrow> (int \<times> 'f vfs) option"
  op_read :: "(vptr \<Rightarrow> u64 \<Rightarrow> memory \<Rightarrow> u64 \<Rightarrow> 'f vfs \<Rightarrow> (int \<times> u64 \<times> memory \<times> 'f vfs) option) option"
  op_write :: "(vptr \<Rightarrow> u64 \<Rightarrow> memory \<Rightarrow> u64 \<Rightarrow> 'f vfs \<Rightarrow> (int \<times> u64 \<times> 'f vfs) option) option"
  op_readdir :: "(vptr \<Rightarrow> u64 \<Rightarrow> Dirent \<Rightarrow> 'f vfs \<Rightarrow> (int \<times> Dirent \<times> u64 \<times> 'f vfs) option) option"
  op_stat :: "(vptr \<Rightarrow> Stat \<Rightarrow> 'f vfs \<Rightarrow> (int \<times> Stat) option) option"

type_synonym 'f optab = "nat \<Rightarrow> 'f VnodeOps"

definition deref :: "'f vfs \<Rightarrow> vptr \<Rightarrow> Vnode option" where
  "deref s v = (if v = 0 then None else Some (vnodes s v))"

section \<open>Tables (vfs.cpp)\<close>

definition get_current_fd_table :: "'f vfs \<Rightarrow> FileDescriptor list" where
  "get_current_fd_table s =
     (case current_process s of Some p \<Rightarrow> process_fd_table s p | None \<Rightarrow> kernel_fd_table s)"

text \<open>A store through the pointer \<open>get_current_fd_table\<close> returns.\<close>

definition set_fd :: "nat \<Rightarrow> FileDescriptor \<Rightarrow> 'f vfs \<Rightarrow> 'f vfs" where
  "set_fd fd f s =
     (case current_process s of
        Some p \<Rightarrow> s\<lparr>process_fd_table := (process_fd_table s)(p := (process_fd_table s p)[fd := f])\<rparr>
      | None \<Rightarrow> s\<lparr>kernel_fd_table := (kernel_fd_table s)[fd := f]\<rparr>)"

text \<open>The loops that return the first index with a property.\<close>

fun first_index :: "('a \<Rightarrow> bool) \<Rightarrow> nat \<Rightarrow> 'a list \<Rightarrow> nat option" where
  "first_index P i [] = None"
| "first_index P i (x # xs) = (if P x then Some i else first_index P (Suc i) xs)"

definition find_free_fd :: "'f vfs \<Rightarrow> nat option" where
  "find_free_fd s = first_index (\<lambda>f. \<not> fd_used f) 0 (get_current_fd_table s)"

definition find_mount_by_root :: "vptr \<Rightarrow> 'f vfs \<Rightarrow> nat option" where
  "find_mount_by_root root s = first_index (\<lambda>m. mount_used m \<and> mounted_root m = root) 0 (mount_table s)"

definition find_free_mount_entry :: "'f vfs \<Rightarrow> nat option" where
  "find_free_mount_entry s = first_index (\<lambda>m. \<not> mount_used m) 0 (mount_table s)"

definition find_mount_by_point :: "vptr \<Rightarrow> 'f vfs \<Rightarrow> nat option" where
  "find_mount_by_point point s = first_index (\<lambda>m. mount_used m \<and> mount_point m = point) 0 (mount_table s)"

definition resolve_mount :: "'f vfs \<Rightarrow> vptr \<Rightarrow> vptr" where
  "resolve_mount s vnode =
     (case find_mount_by_point vnode s of Some idx \<Rightarrow> mounted_root (mount_table s ! idx) | None \<Rightarrow> vnode)"

section \<open>Path resolution (vfs.cpp)\<close>

definition is_slash :: "char \<Rightarrow> bool" where
  "is_slash c \<longleftrightarrow> c = CHR ''/''"

lemma rest_shorter:
  "dropWhile is_slash p \<noteq> [] \<Longrightarrow>
   length (dropWhile (\<lambda>c. \<not> is_slash c) (dropWhile is_slash p)) < length p"
proof -
  assume ne: "dropWhile is_slash p \<noteq> []"
  then obtain c cs where c: "dropWhile is_slash p = c # cs" by (meson neq_Nil_conv)
  then have "\<not> is_slash c" using hd_dropWhile [OF ne] by simp
  then show ?thesis
    using c length_dropWhile_le [of is_slash p] length_dropWhile_le [of "\<lambda>c. \<not> is_slash c" cs] by simp
qed

text \<open>The loop of \<open>split_and_resolve\<close>, from the current vnode and the rest of the path.\<close>

function split_loop :: "'f optab \<Rightarrow> vptr \<Rightarrow> string \<Rightarrow> 'f vfs \<Rightarrow> (int \<times> vptr \<times> 'f vfs) option" where
  "split_loop tab current path s =
     (let p = dropWhile is_slash path in
      if p = [] then Some (E_SUCCESS, current, s)
      else
        (let component = takeWhile (\<lambda>c. \<not> is_slash c) p in
         if length component > 255 then Some (E_INVALID, 0, s)
         else
           (case deref s current of
              None \<Rightarrow> None
            | Some v \<Rightarrow>
                if vnode_type v \<noteq> Directory then Some (E_NOT_DIR, 0, s)
                else
                  (case op_lookup (tab (vnode_ops v)) current component s of
                     None \<Rightarrow> None
                   | Some (err, next, s) \<Rightarrow>
                       if err < 0 then Some (err, 0, s)
                       else split_loop tab (resolve_mount s next) (dropWhile (\<lambda>c. \<not> is_slash c) p) s))))"
  by pat_completeness auto
termination
  by (relation "measure (\<lambda>(tab, current, path, s). length path)") (auto intro: rest_shorter)

declare split_loop.simps [simp del]

definition split_and_resolve :: "'f optab \<Rightarrow> vptr \<Rightarrow> string option \<Rightarrow> 'f vfs \<Rightarrow> (int \<times> vptr \<times> 'f vfs) option" where
  "split_and_resolve tab base path s =
     (case path of
        None \<Rightarrow> Some (E_SUCCESS, base, s)
      | Some p \<Rightarrow> if p = [] then Some (E_SUCCESS, base, s) else split_loop tab base p s)"

definition resolve :: "'f optab \<Rightarrow> vptr \<Rightarrow> string option \<Rightarrow> 'f vfs \<Rightarrow> (int \<times> vptr \<times> 'f vfs) option" where
  "resolve tab base path s =
     (if \<not> initialized s then Some (E_INVALID, 0, s)
      else
        (case path of
           None \<Rightarrow> Some (E_SUCCESS, base, s)
         | Some p \<Rightarrow>
             if p = [] then Some (E_SUCCESS, base, s)
             else if is_slash (hd p) then
               if root_vnode s = 0 then Some (E_NOT_FOUND, 0, s)
               else
                 (let p = dropWhile is_slash p in
                  if p = [] then Some (E_SUCCESS, root_vnode s, s)
                  else split_and_resolve tab (root_vnode s) (Some p) s)
             else split_and_resolve tab base (Some p) s))"

text \<open>The search for the last separator: the path before it and the name after it.\<close>

definition split_last :: "string \<Rightarrow> (string \<times> string) option" where
  "split_last path =
     (if list_ex is_slash path
      then Some (rev (tl (dropWhile (\<lambda>c. \<not> is_slash c) (rev path))),
                 rev (takeWhile (\<lambda>c. \<not> is_slash c) (rev path)))
      else None)"

section \<open>Operations (vfs.cpp)\<close>

definition vfs_init :: "'f vfs \<Rightarrow> 'f vfs" where
  "vfs_init s = s\<lparr>mount_table := map (\<lambda>m. m\<lparr>mount_used := False\<rparr>) (mount_table s),
     kernel_fd_table := map (\<lambda>f. f\<lparr>fd_used := False\<rparr>) (kernel_fd_table s),
     root_vnode := 0, initialized := True\<rparr>"

definition vnode_ref :: "vptr \<Rightarrow> 'f vfs \<Rightarrow> 'f vfs" where
  "vnode_ref v s =
     (if v \<noteq> 0
      then s\<lparr>vnodes := (vnodes s)(v := (vnodes s v)\<lparr>ref_count := ref_count (vnodes s v) + 1\<rparr>)\<rparr>
      else s)"

definition vnode_unref :: "vptr \<Rightarrow> 'f vfs \<Rightarrow> 'f vfs" where
  "vnode_unref v s =
     (if v \<noteq> 0 \<and> ref_count (vnodes s v) > 0
      then s\<lparr>vnodes := (vnodes s)(v := (vnodes s v)\<lparr>ref_count := ref_count (vnodes s v) - 1\<rparr>)\<rparr>
      else s)"

text \<open>The directory part of \<open>mkdir\<close>: the parent and the last name.\<close>

definition mkdir_parent :: "'f optab \<Rightarrow> vptr \<Rightarrow> string \<Rightarrow> 'f vfs \<Rightarrow> (int \<times> vptr \<times> string \<times> 'f vfs) option" where
  "mkdir_parent tab start path s =
     (case split_last path of
        None \<Rightarrow> Some (E_SUCCESS, start, path, s)
      | Some (parent_path, name) \<Rightarrow>
          if length parent_path \<ge> 256 then Some (E_INVALID, 0, name, s)
          else do {
            (err, parent, s) \<leftarrow> resolve tab start (Some parent_path) s;
            Some (err, parent, name, s)
          })"

definition vfs_mkdir :: "'f optab \<Rightarrow> vptr \<Rightarrow> string option \<Rightarrow> 'f vfs \<Rightarrow> (int \<times> 'f vfs) option" where
  "vfs_mkdir tab base path s =
     (case path of
        None \<Rightarrow> Some (E_INVALID, s)
      | Some p \<Rightarrow>
          if \<not> initialized s \<or> base = 0 then Some (E_INVALID, s)
          else if p \<noteq> [] \<and> is_slash (hd p) \<and> root_vnode s = 0 then Some (E_NOT_FOUND, s)
          else
            (let absolute = (p \<noteq> [] \<and> is_slash (hd p));
                 start = (if absolute then root_vnode s else base);
                 path' = (if absolute then dropWhile is_slash p else p) in
             if absolute \<and> path' = [] then Some (E_INVALID, s)
             else do {
               (err, parent, name, s) \<leftarrow> mkdir_parent tab start path' s;
               if err < 0 then Some (err, s)
               else do {
                 v \<leftarrow> deref s parent;
                 if vnode_type v \<noteq> Directory then Some (E_NOT_DIR, s)
                 else
                   (case op_mkdir (tab (vnode_ops v)) of
                      None \<Rightarrow> Some (E_INVALID, s)
                    | Some f \<Rightarrow> f parent name s)
               }
             }))"

record 'f FilesystemOps =
  fs_mount :: "'f vfs \<Rightarrow> (int \<times> vptr \<times> 'f vfs) option"
  fs_unmount :: "vptr \<Rightarrow> 'f vfs \<Rightarrow> (int \<times> 'f vfs) option"

text \<open>The value of \<open>out_root\<close> is \<open>None\<close> where the call does not store one.\<close>

definition vfs_mount ::
  "'f FilesystemOps option \<Rightarrow> vptr \<Rightarrow> 'f vfs \<Rightarrow> (int \<times> vptr option \<times> 'f vfs) option" where
  "vfs_mount fs_ops target s =
     (case fs_ops of
        None \<Rightarrow> Some (E_INVALID, None, s)
      | Some fs_ops \<Rightarrow>
          if \<not> initialized s then Some (E_INVALID, None, s)
          else do {
            (err, new_root, s) \<leftarrow> fs_mount fs_ops s;
            if err < 0 then Some (err, None, s)
            else if new_root = 0 then Some (E_IO, None, s)
            else if target = 0 then
              if root_vnode s \<noteq> 0 then do {
                (_, s) \<leftarrow> fs_unmount fs_ops new_root s;
                Some (E_EXISTS, None, s)
              }
              else Some (E_SUCCESS, Some new_root, s\<lparr>root_vnode := new_root\<rparr>)
            else
              (case find_free_mount_entry s of
                 None \<Rightarrow> do {
                   (_, s) \<leftarrow> fs_unmount fs_ops new_root s;
                   Some (E_NO_SPACE, None, s)
                 }
               | Some idx \<Rightarrow>
                   (let s = s\<lparr>vnodes := (vnodes s)(new_root := (vnodes s new_root)\<lparr>mount_parent := target\<rparr>)\<rparr>;
                        s = s\<lparr>mount_table := (mount_table s)[idx :=
                               \<lparr>mount_point = target, mounted_root = new_root, mount_used = True\<rparr>]\<rparr> in
                    Some (E_SUCCESS, Some new_root, s)))
          })"

definition vfs_unmount :: "vptr \<Rightarrow> 'f vfs \<Rightarrow> int \<times> 'f vfs" where
  "vfs_unmount mount_root s =
     (if \<not> initialized s \<or> mount_root = 0 then (E_INVALID, s)
      else
        (case find_mount_by_root mount_root s of
           None \<Rightarrow> (E_NOT_FOUND, s)
         | Some idx \<Rightarrow>
             (let s = s\<lparr>mount_table := (mount_table s)[idx := (mount_table s ! idx)\<lparr>mount_used := False\<rparr>]\<rparr>;
                  s = (if mount_root = root_vnode s then s\<lparr>root_vnode := 0\<rparr> else s) in
              (E_SUCCESS, s))))"

definition vfs_set_root :: "vptr \<Rightarrow> 'f vfs \<Rightarrow> int \<times> 'f vfs" where
  "vfs_set_root new_root s =
     (if \<not> initialized s \<or> new_root = 0 then (E_INVALID, s)
      else (E_SUCCESS, s\<lparr>root_vnode := new_root\<rparr>))"

text \<open>The branch of \<open>open\<close> for a missing file: nothing bounds the copy into \<open>parent_path[256]\<close>.\<close>

definition open_create :: "'f optab \<Rightarrow> vptr \<Rightarrow> string \<Rightarrow> 'f vfs \<Rightarrow> (int \<times> vptr \<times> 'f vfs) option" where
  "open_create tab base path s = do {
     (err, parent, name, s) \<leftarrow>
       (case split_last path of
          None \<Rightarrow> Some (E_SUCCESS, base, path, s)
        | Some (parent_path, name) \<Rightarrow>
            if length parent_path \<ge> 256 then None
            else do {
              (err, parent, s) \<leftarrow> resolve tab base (Some parent_path) s;
              Some (err, parent, name, s)
            });
     if err < 0 then Some (err, 0, s)
     else do {
       v \<leftarrow> deref s parent;
       op_create (tab (vnode_ops v)) parent name s
     }
   }"

text \<open>The end of \<open>open\<close>: a descriptor for the vnode.\<close>

definition install_fd :: "vptr \<Rightarrow> u32 \<Rightarrow> 'f vfs \<Rightarrow> int \<times> nat \<times> 'f vfs" where
  "install_fd vnode flags s =
     (case find_free_fd s of
        None \<Rightarrow> (E_NO_SPACE, 0, s)
      | Some fd \<Rightarrow>
          (E_SUCCESS, fd, set_fd fd \<lparr>fd_vnode = vnode, fd_offset = 0, fd_flags = flags, fd_used = True\<rparr>
                            (vnode_ref vnode s)))"

definition vfs_open :: "'f optab \<Rightarrow> vptr \<Rightarrow> string option \<Rightarrow> u32 \<Rightarrow> 'f vfs \<Rightarrow> (int \<times> nat \<times> 'f vfs) option" where
  "vfs_open tab base path flags s =
     (case path of
        None \<Rightarrow> Some (E_INVALID, 0, s)
      | Some p \<Rightarrow>
          if \<not> initialized s then Some (E_INVALID, 0, s)
          else do {
            (err, vnode, s) \<leftarrow> resolve tab base (Some p) s;
            (err, vnode, s) \<leftarrow>
              (if err = E_NOT_FOUND \<and> flags AND O_CREAT \<noteq> 0 then open_create tab base p s
               else Some (err, vnode, s));
            Some (if err < 0 then (err, 0, s) else install_fd vnode flags s)
          })"

definition fd_ok :: "int \<Rightarrow> 'f vfs \<Rightarrow> bool" where
  "fd_ok fd s \<longleftrightarrow> \<not> (fd < 0 \<or> fd \<ge> int max_fds) \<and> fd_used (get_current_fd_table s ! nat fd)"

definition vfs_close :: "int \<Rightarrow> 'f vfs \<Rightarrow> int \<times> 'f vfs" where
  "vfs_close fd s =
     (if \<not> fd_ok fd s then (E_BAD_FD, s)
      else
        (let f = get_current_fd_table s ! nat fd in
         (E_SUCCESS, set_fd (nat fd) (f\<lparr>fd_used := False\<rparr>) (vnode_unref (fd_vnode f) s))))"

text \<open>A store to \<open>f->offset\<close>.\<close>

definition set_offset :: "int \<Rightarrow> u64 \<Rightarrow> 'f vfs \<Rightarrow> 'f vfs" where
  "set_offset fd off s = set_fd (nat fd) ((get_current_fd_table s ! nat fd)\<lparr>fd_offset := off\<rparr>) s"

text \<open>\<open>buf\<close> is the caller's buffer, from its first byte on.\<close>

definition vfs_read ::
  "'f optab \<Rightarrow> int \<Rightarrow> memory \<Rightarrow> u64 \<Rightarrow> 'f vfs \<Rightarrow> (int \<times> u64 \<times> memory \<times> 'f vfs) option" where
  "vfs_read tab fd buf count s =
     (if \<not> fd_ok fd s then Some (E_BAD_FD, 0, buf, s)
      else
        (let f = get_current_fd_table s ! nat fd in do {
           v \<leftarrow> deref s (fd_vnode f);
           if vnode_type v \<noteq> File then Some (E_IS_DIR, 0, buf, s)
           else
             (case op_read (tab (vnode_ops v)) of
                None \<Rightarrow> Some (E_INVALID, 0, buf, s)
              | Some rd \<Rightarrow> do {
                  (err, nread, buf, s) \<leftarrow> rd (fd_vnode f) (fd_offset f) buf count s;
                  Some (if err = 0 then (err, nread, buf, set_offset fd (fd_offset f + nread) s)
                        else (err, 0, buf, s))
                })
         }))"

definition vfs_write ::
  "'f optab \<Rightarrow> int \<Rightarrow> memory \<Rightarrow> u64 \<Rightarrow> 'f vfs \<Rightarrow> (int \<times> u64 \<times> 'f vfs) option" where
  "vfs_write tab fd buf count s =
     (if \<not> fd_ok fd s then Some (E_BAD_FD, 0, s)
      else
        (let f = get_current_fd_table s ! nat fd in do {
           v \<leftarrow> deref s (fd_vnode f);
           if vnode_type v \<noteq> File then Some (E_IS_DIR, 0, s)
           else
             (case op_write (tab (vnode_ops v)) of
                None \<Rightarrow> Some (E_INVALID, 0, s)
              | Some wr \<Rightarrow> do {
                  (err, nwritten, s) \<leftarrow> wr (fd_vnode f) (fd_offset f) buf count s;
                  Some (if err = 0 then (err, nwritten, set_offset fd (fd_offset f + nwritten) s)
                        else (err, 0, s))
                })
         }))"

text \<open>The callee stores the next offset into the descriptor.\<close>

definition vfs_readdir :: "'f optab \<Rightarrow> int \<Rightarrow> Dirent \<Rightarrow> 'f vfs \<Rightarrow> (int \<times> Dirent \<times> 'f vfs) option" where
  "vfs_readdir tab fd entry s =
     (if \<not> fd_ok fd s then Some (E_BAD_FD, entry, s)
      else
        (let f = get_current_fd_table s ! nat fd in do {
           v \<leftarrow> deref s (fd_vnode f);
           if vnode_type v \<noteq> Directory then Some (E_NOT_DIR, entry, s)
           else
             (case op_readdir (tab (vnode_ops v)) of
                None \<Rightarrow> Some (E_INVALID, entry, s)
              | Some rd \<Rightarrow> do {
                  (err, entry, off, s) \<leftarrow> rd (fd_vnode f) (fd_offset f) entry s;
                  Some (err, entry, set_offset fd off s)
                })
         }))"

definition vfs_stat :: "'f optab \<Rightarrow> int \<Rightarrow> Stat \<Rightarrow> 'f vfs \<Rightarrow> (int \<times> Stat) option" where
  "vfs_stat tab fd st s =
     (if \<not> fd_ok fd s then Some (E_BAD_FD, st)
      else
        (let f = get_current_fd_table s ! nat fd in do {
           v \<leftarrow> deref s (fd_vnode f);
           (case op_stat (tab (vnode_ops v)) of
              None \<Rightarrow> Some (E_INVALID, st)
            | Some g \<Rightarrow> g (fd_vnode f) st s)
         }))"

text \<open>\<open>blank\<close> is the uninitialised local \<open>Stat s\<close>; \<open>ops->stat\<close> is called without a test.\<close>

definition vfs_seek ::
  "'f optab \<Rightarrow> int \<Rightarrow> int \<Rightarrow> int \<Rightarrow> Stat \<Rightarrow> 'f vfs \<Rightarrow> (int \<times> u64 \<times> 'f vfs) option" where
  "vfs_seek tab fd offset whence blank s =
     (if \<not> fd_ok fd s then Some (E_BAD_FD, 0, s)
      else
        (let f = get_current_fd_table s ! nat fd in do {
           (err, new_offset) \<leftarrow>
             (if whence = 0 then Some (E_SUCCESS, word_of_int offset)
              else if whence = 1 then Some (E_SUCCESS, fd_offset f + word_of_int offset)
              else do {
                v \<leftarrow> deref s (fd_vnode f);
                g \<leftarrow> op_stat (tab (vnode_ops v));
                (err, st) \<leftarrow> g (fd_vnode f) blank s;
                Some (err, stat_size st + word_of_int offset)
              });
           Some (if err < 0 then (err, 0, s) else (E_SUCCESS, new_offset, set_offset fd new_offset s))
         }))"

section \<open>What path resolution means\<close>

text \<open>The names of a path: the non-empty pieces between its slashes.\<close>

fun pieces :: "string \<Rightarrow> string list" where
  "pieces [] = [[]]"
| "pieces (c # cs) = (if is_slash c then [] # pieces cs else (c # hd (pieces cs)) # tl (pieces cs))"

definition path_names :: "string \<Rightarrow> string list" where
  "path_names p = filter (\<lambda>n. n \<noteq> []) (pieces p)"

text \<open>One lookup per name, each in the directory the previous one found.\<close>

primrec walk :: "'f optab \<Rightarrow> vptr \<Rightarrow> string list \<Rightarrow> 'f vfs \<Rightarrow> (int \<times> vptr \<times> 'f vfs) option" where
  "walk tab v [] s = Some (E_SUCCESS, v, s)"
| "walk tab v (n # ns) s =
     (if length n > 255 then Some (E_INVALID, 0, s)
      else if v = 0 then None
      else if vnode_type (vnodes s v) \<noteq> Directory then Some (E_NOT_DIR, 0, s)
      else
        (case op_lookup (tab (vnode_ops (vnodes s v))) v n s of
           None \<Rightarrow> None
         | Some (err, w, s) \<Rightarrow> if err < 0 then Some (err, 0, s) else walk tab (resolve_mount s w) ns s))"

definition absolute :: "string \<Rightarrow> bool" where
  "absolute p \<longleftrightarrow> p \<noteq> [] \<and> is_slash (hd p)"

lemma pieces_not_Nil [simp]: "pieces p \<noteq> []"
  by (cases p) auto

lemma pieces_name:
  "pieces p = takeWhile (\<lambda>c. \<not> is_slash c) p #
     (case dropWhile (\<lambda>c. \<not> is_slash c) p of [] \<Rightarrow> [] | _ # cs \<Rightarrow> pieces cs)"
  by (induction p) auto

lemma path_names_slash [simp]: "is_slash c \<Longrightarrow> path_names (c # cs) = path_names cs"
  by (simp add: path_names_def)

lemma path_names_Nil [simp]: "path_names [] = []"
  by (simp add: path_names_def)

lemma path_names_dropWhile [simp]: "path_names (dropWhile is_slash p) = path_names p"
  by (induction p) auto

lemma filter_pieces_rest:
  "\<forall>c cs. r = c # cs \<longrightarrow> is_slash c \<Longrightarrow>
   filter (\<lambda>n. n \<noteq> []) (case r of [] \<Rightarrow> [] | _ # cs \<Rightarrow> pieces cs) = path_names r"
  by (cases r) (auto simp: path_names_def)

lemma path_names_rest:
  assumes "p \<noteq> []" "\<not> is_slash (hd p)"
  shows "path_names p = takeWhile (\<lambda>c. \<not> is_slash c) p # path_names (dropWhile (\<lambda>c. \<not> is_slash c) p)"
proof -
  let ?r = "dropWhile (\<lambda>c. \<not> is_slash c) p"
  have t: "takeWhile (\<lambda>c. \<not> is_slash c) p \<noteq> []" using assms by (cases p) auto
  have "\<forall>c cs. ?r = c # cs \<longrightarrow> is_slash c"
    by (metis hd_dropWhile list.distinct(1) list.sel(1))
  note r = filter_pieces_rest [OF this]
  have "path_names p = filter (\<lambda>n. n \<noteq> [])
      (takeWhile (\<lambda>c. \<not> is_slash c) p # (case ?r of [] \<Rightarrow> [] | _ # cs \<Rightarrow> pieces cs))"
    by (simp only: path_names_def pieces_name [of p])
  then show ?thesis by (simp only: filter.simps r t not_False_eq_True if_True)
qed

lemma split_loop_walk: "split_loop tab v p s = walk tab v (path_names p) s"
proof (induction tab v p s rule: split_loop.induct)
  case (1 tab v p s)
  let ?q = "dropWhile is_slash p"
  show ?case
  proof (cases "?q = []")
    case True
    then have "path_names p = []" by (metis path_names_Nil path_names_dropWhile)
    with True show ?thesis by (simp add: split_loop.simps [of tab v p])
  next
    case False
    then have "path_names p =
        takeWhile (\<lambda>c. \<not> is_slash c) ?q # path_names (dropWhile (\<lambda>c. \<not> is_slash c) ?q)"
      using path_names_rest [OF False hd_dropWhile [OF False]] by simp
    moreover have "split_loop tab (resolve_mount t w) (dropWhile (\<lambda>c. \<not> is_slash c) ?q) t =
        walk tab (resolve_mount t w) (path_names (dropWhile (\<lambda>c. \<not> is_slash c) ?q)) t"
      if "\<not> length (takeWhile (\<lambda>c. \<not> is_slash c) ?q) > 255" "deref s v = Some x"
        "\<not> vnode_type x \<noteq> Directory" "\<not> e < 0"
        "op_lookup (tab (vnode_ops x)) v (takeWhile (\<lambda>c. \<not> is_slash c) ?q) s = Some (e, w, t)" for e w t x
      by (rule 1 [OF refl False refl that(1,2,3,5) refl refl that(4)])
    ultimately show ?thesis using False
      by (auto simp: split_loop.simps [of tab v p] Let_def deref_def split: option.split)
  qed
qed

lemma resolve_walk:
  "resolve tab base (Some p) s =
     (if \<not> initialized s then Some (E_INVALID, 0, s)
      else if absolute p \<and> root_vnode s = 0 then Some (E_NOT_FOUND, 0, s)
      else walk tab (if absolute p then root_vnode s else base) (path_names p) s)"
proof -
  have "path_names p = []" if "dropWhile is_slash p = []"
    using that by (metis path_names_Nil path_names_dropWhile)
  then show ?thesis
    by (auto simp: resolve_def split_and_resolve_def absolute_def split_loop_walk Let_def)
qed

section \<open>What the virtual file system asks of a file system\<close>

text \<open>The operations of a file system leave the tables of the virtual file system alone.\<close>

definition same_tables :: "'f vfs \<Rightarrow> 'f vfs \<Rightarrow> bool" where
  "same_tables s s' \<longleftrightarrow> mount_table s' = mount_table s \<and> kernel_fd_table s' = kernel_fd_table s
     \<and> process_fd_table s' = process_fd_table s \<and> current_process s' = current_process s
     \<and> root_vnode s' = root_vnode s \<and> initialized s' = initialized s"

lemma same_tables_refl [simp]: "same_tables s s"
  by (simp add: same_tables_def)

lemma same_tables_trans [trans]: "same_tables s t \<Longrightarrow> same_tables t u \<Longrightarrow> same_tables s u"
  by (simp add: same_tables_def)

lemma same_tables_fds [simp]:
  "same_tables s s' \<Longrightarrow> get_current_fd_table s' = get_current_fd_table s"
  by (simp add: same_tables_def get_current_fd_table_def split: option.split)

lemma same_tables_ref [simp]: "same_tables s (vnode_ref v s)" "same_tables s (vnode_unref v s)"
  by (simp_all add: same_tables_def vnode_ref_def vnode_unref_def)

locale vnode_provider =
  fixes tab :: "'f optab"
  assumes lookup_tables: "op_lookup (tab k) v n s = Some (e, w, s') \<Longrightarrow> same_tables s s'"
    and create_tables: "op_create (tab k) v n s = Some (e, w, s') \<Longrightarrow> same_tables s s'"
    and read_tables: "op_read (tab k) = Some rd \<Longrightarrow> rd v off buf len s = Some (e, c, buf', s') \<Longrightarrow> same_tables s s'"
    and write_tables: "op_write (tab k) = Some wr \<Longrightarrow> wr v off buf len s = Some (e, c, s') \<Longrightarrow> same_tables s s'"
begin

lemma walk_tables: "walk tab v ns s = Some (e, w, s') \<Longrightarrow> same_tables s s'"
proof (induction ns arbitrary: v s)
  case (Cons n ns)
  then show ?case
    by (auto split: if_splits option.splits intro: lookup_tables same_tables_trans)
qed simp

lemma resolve_tables: "resolve tab base (Some p) s = Some (e, w, s') \<Longrightarrow> same_tables s s'"
  by (auto simp: resolve_walk split: if_splits dest: walk_tables)

lemma open_create_tables: "open_create tab base p s = Some (e, w, s') \<Longrightarrow> same_tables s s'"
  by (auto simp: open_create_def bind_eq_Some_conv split: option.splits if_splits prod.splits
      dest!: resolve_tables create_tables intro: same_tables_trans)

text \<open>An \<open>open\<close> that succeeds differs from one that fails only by the descriptor it installs.\<close>

lemma open_installs:
  assumes "vfs_open tab base path flags s = Some (E_SUCCESS, fd, s')"
  shows "\<exists>v t. same_tables s t \<and> install_fd v flags t = (E_SUCCESS, fd, s')"
  using assms
  by (auto simp: vfs_open_def bind_eq_Some_conv error_codes split: option.splits if_splits prod.splits
      dest!: resolve_tables open_create_tables dest: same_tables_trans)

end

section \<open>Descriptors\<close>

lemma first_index_Some:
  "first_index P i xs = Some k \<Longrightarrow>
   i \<le> k \<and> k < i + length xs \<and> P (xs ! (k - i)) \<and> (\<forall>j < k - i. \<not> P (xs ! j))"
proof (induction xs arbitrary: i)
  case (Cons x xs)
  show ?case
  proof (cases "P x")
    case False
    then have "first_index P (Suc i) xs = Some k" using Cons.prems by simp
    note k = Cons.IH [OF this]
    then have e: "k - i = Suc (k - Suc i)" by linarith
    have "\<not> P ((x # xs) ! j)" if "j < k - i" for j using that False k by (cases j) auto
    then show ?thesis using k e by auto
  qed (use Cons.prems in auto)
qed simp

lemma first_index_None: "first_index P i xs = None \<longleftrightarrow> (\<forall>x \<in> set xs. \<not> P x)"
  by (induction xs arbitrary: i) auto

lemma get_set_fd [simp]: "get_current_fd_table (set_fd fd f s) = (get_current_fd_table s)[fd := f]"
  by (simp add: get_current_fd_table_def set_fd_def split: option.split)

lemma install_fd_Some:
  assumes "install_fd v flags s = (E_SUCCESS, fd, s')"
  shows "fd < length (get_current_fd_table s) \<and> \<not> fd_used (get_current_fd_table s ! fd)
    \<and> (\<forall>i < fd. fd_used (get_current_fd_table s ! i))
    \<and> s' = set_fd fd \<lparr>fd_vnode = v, fd_offset = 0, fd_flags = flags, fd_used = True\<rparr> (vnode_ref v s)"
  using assms first_index_Some [of "\<lambda>f. \<not> fd_used f" 0 "get_current_fd_table s" fd]
  by (auto simp: install_fd_def find_free_fd_def error_codes split: option.splits)

text \<open>The tables of the other processes, and the kernel's when a process runs.\<close>

definition other_fds :: "'f vfs \<Rightarrow> (nat \<Rightarrow> FileDescriptor list) \<times> FileDescriptor list" where
  "other_fds s =
     (case current_process s of
        Some p \<Rightarrow> ((process_fd_table s)(p := []), kernel_fd_table s)
      | None \<Rightarrow> (process_fd_table s, []))"

lemma other_fds_set_fd [simp]: "other_fds (set_fd fd f s) = other_fds s"
  by (auto simp: other_fds_def set_fd_def fun_eq_iff split: option.split)

lemma other_fds_same [simp]: "same_tables s s' \<Longrightarrow> other_fds s' = other_fds s"
  by (simp add: other_fds_def same_tables_def split: option.split)

text \<open>C10. Resolving a path makes one lookup per non-empty name between its slashes, from the root for
  an absolute path and from \<open>base\<close> otherwise, following mounts, and stops at the first error; so
  repeated and trailing slashes never matter.\<close>

theorem resolve_correct:
  "resolve tab base (Some p) s =
     (if \<not> initialized s then Some (E_INVALID, 0, s)
      else if absolute p \<and> root_vnode s = 0 then Some (E_NOT_FOUND, 0, s)
      else walk tab (if absolute p then root_vnode s else base) (path_names p) s)"
  by (rule resolve_walk)

text \<open>The steps of the two cases of \<open>open\<close> with a null base.\<close>

lemma path_names_single:
  assumes "name \<noteq> []" "\<not> list_ex is_slash name"
  shows "path_names name = [name]" "\<not> absolute name"
proof -
  have t: "takeWhile (\<lambda>c. \<not> is_slash c) name = name" "dropWhile (\<lambda>c. \<not> is_slash c) name = []"
    using assms(2) by (simp_all add: list_ex_iff)
  have h: "\<not> is_slash (hd name)" using assms by (cases name) auto
  show "path_names name = [name]" using path_names_rest [OF assms(1) h] by (simp only: t path_names_Nil)
  show "\<not> absolute name" using h by (simp add: absolute_def)
qed

lemma split_last_root:
  assumes "\<not> list_ex is_slash name"
  shows "split_last (CHR ''/'' # name) = Some ([], name)"
proof -
  have n: "\<not> is_slash c" if "c \<in> set (rev name)" for c using assms that by (simp add: list_ex_iff)
  have "takeWhile (\<lambda>c. \<not> is_slash c) (rev name @ [CHR ''/'']) = rev name"
    using n by (subst takeWhile_append2) (auto simp: is_slash_def)
  moreover have "dropWhile (\<lambda>c. \<not> is_slash c) (rev name @ [CHR ''/'']) = [CHR ''/'']"
    using n by (subst dropWhile_append2) (auto simp: is_slash_def)
  ultimately show ?thesis by (simp add: split_last_def is_slash_def)
qed

text \<open>\<open>open\<close> with a null base, which is how the system call runs it, dereferences null for every
  relative path, and when it has to create a missing file in the root directory, for then the
  directory part of \<open>/name\<close> is empty and resolves to the base.\<close>

theorem open_null_base:
  assumes "initialized s" and "name \<noteq> []" and "\<not> list_ex is_slash name" and "length name \<le> 255"
  shows "vfs_open tab 0 (Some name) flags s = None \<and>
    (resolve tab 0 (Some (CHR ''/'' # name)) s = Some (E_NOT_FOUND, w, t) \<and> initialized t
       \<and> flags AND O_CREAT \<noteq> 0 \<longrightarrow> vfs_open tab 0 (Some (CHR ''/'' # name)) flags s = None)"
  using assms path_names_single [OF assms(2,3)] split_last_root [OF assms(3)]
  by (auto simp: vfs_open_def resolve_walk [of tab 0 name] open_create_def resolve_def [of tab 0 "Some []"]
      deref_def error_codes)

theorem open_null_base_witness:
  "vfs_open (\<lambda>_. undefined) 0 (Some ''init'') O_RDONLY
     \<lparr>vnodes = undefined, mount_table = [], kernel_fd_table = [], process_fd_table = (\<lambda>_. []),
      current_process = None, root_vnode = 0, initialized = True, fs_data = ()\<rparr> = None"
  by (rule open_null_base [THEN conjunct1]) (simp_all add: is_slash_def)

end
