(* ===== verification/Tori_Ramfs.thy ===== *)
theory Tori_Ramfs
  imports Tori_Vfs Tori_Pmm
begin

text \<open>
  The memory file system (\<open>kernel/src/fs/ramfs.cpp\<close>) over the virtual file system and the physical
  page allocator.  \<open>kalloc\<close> returns a new address, or 0 when \<open>kalloc_ok\<close> says that it fails;
  \<open>live\<close> tells which addresses are allocated, and \<open>stale\<close> becomes true when a freed vnode is
  accessed.  Arrays are lists of their used elements, and the blocks that hold them are not tracked.
  The direct map makes \<open>frames\<close> the contents of the physical pages.
\<close>

section \<open>State\<close>

record RamfsEntry =
  entry_name :: string
  entry_vnode :: vptr

record RamfsDir =
  dir_entries :: "RamfsEntry list"
  dir_capacity :: u64

record RamfsFile =
  file_pages :: "u64 list"
  file_size :: u64

type_synonym frames = "u64 \<Rightarrow> nat \<Rightarrow> u8"

record ramfs =
  kalloc_next :: nat
  kalloc_ok :: "nat \<Rightarrow> bool"
  live :: "nat \<Rightarrow> bool"
  stale :: bool
  ram_dirs :: "nat \<Rightarrow> RamfsDir"
  ram_files :: "nat \<Rightarrow> RamfsFile"
  frames :: frames
  page_allocator :: pmm

type_synonym 'a ramvfs = "'a ramfs_scheme vfs"

definition with_fs :: "('f \<Rightarrow> 'f) \<Rightarrow> 'f vfs \<Rightarrow> 'f vfs" where
  "with_fs f s = s\<lparr>fs_data := f (fs_data s)\<rparr>"

definition set_vnode :: "vptr \<Rightarrow> Vnode \<Rightarrow> 'f vfs \<Rightarrow> 'f vfs" where
  "set_vnode v n s = s\<lparr>vnodes := (vnodes s)(v := n)\<rparr>"

definition set_dir :: "nat \<Rightarrow> RamfsDir \<Rightarrow> 'a ramvfs \<Rightarrow> 'a ramvfs" where
  "set_dir d r = with_fs (\<lambda>f. f\<lparr>ram_dirs := (ram_dirs f)(d := r)\<rparr>)"

definition set_file :: "nat \<Rightarrow> RamfsFile \<Rightarrow> 'a ramvfs \<Rightarrow> 'a ramvfs" where
  "set_file d r = with_fs (\<lambda>f. f\<lparr>ram_files := (ram_files f)(d := r)\<rparr>)"

definition kalloc :: "'a ramvfs \<Rightarrow> nat \<times> 'a ramvfs" where
  "kalloc s =
     (let n = kalloc_next (fs_data s) in
      if kalloc_ok (fs_data s) n
      then (n, with_fs (\<lambda>f. f\<lparr>kalloc_next := Suc n, live := (live f)(n := True)\<rparr>) s)
      else (0, with_fs (\<lambda>f. f\<lparr>kalloc_next := Suc n\<rparr>) s))"

definition kfree :: "nat \<Rightarrow> 'a ramvfs \<Rightarrow> 'a ramvfs" where
  "kfree p = with_fs (\<lambda>f. f\<lparr>live := (live f)(p := False)\<rparr>)"

text \<open>An access to the object at an address.\<close>

definition touch :: "nat \<Rightarrow> 'a ramvfs \<Rightarrow> 'a ramvfs" where
  "touch p = with_fs (\<lambda>f. f\<lparr>stale := (stale f \<or> \<not> live f p)\<rparr>)"

section \<open>Directories\<close>

definition kPageSize :: nat where "kPageSize = 4096"

definition alloc_dir :: "'a ramvfs \<Rightarrow> nat \<times> 'a ramvfs" where
  "alloc_dir s =
     (let (dir, s) = kalloc s in
      if dir = 0 then (0, s) else (dir, set_dir dir \<lparr>dir_entries = [], dir_capacity = 0\<rparr> s))"

definition alloc_file :: "'a ramvfs \<Rightarrow> nat \<times> 'a ramvfs" where
  "alloc_file s =
     (let (file, s) = kalloc s in
      if file = 0 then (0, s) else (file, set_file file \<lparr>file_pages = [], file_size = 0\<rparr> s))"

definition create_vnode :: "VnodeType \<Rightarrow> 'a ramvfs \<Rightarrow> vptr \<times> 'a ramvfs" where
  "create_vnode type s =
     (let (vnode, s) = kalloc s in
      if vnode = 0 then (0, s)
      else (vnode, set_vnode vnode ((vnodes s vnode)\<lparr>vnode_type := type, private_data := 0,
                     ref_count := 1, mount_parent := 0\<rparr>) s))"

text \<open>The loop that doubles the capacity; without a result it does not end.\<close>

partial_function (option) grow_cap :: "u64 \<Rightarrow> u64 \<Rightarrow> u64 option" where
  "grow_cap new_cap needed = (if new_cap < needed then grow_cap (new_cap * 2) needed else Some new_cap)"

definition ensure_dir_capacity :: "nat \<Rightarrow> u64 \<Rightarrow> 'a ramvfs \<Rightarrow> (int \<times> 'a ramvfs) option" where
  "ensure_dir_capacity d needed s =
     (let dir = ram_dirs (fs_data s) d in
      if needed \<le> dir_capacity dir then Some (0, s)
      else do {
        new_cap \<leftarrow> grow_cap (if dir_capacity dir \<noteq> 0 then dir_capacity dir * 2 else 8) needed;
        (let (new_entries, s) = kalloc s in
         Some (if new_entries = 0 then (E_NO_SPACE, s)
               else (0, set_dir d (dir\<lparr>dir_capacity := new_cap\<rparr>) s)))
      })"

definition dir_add_entry :: "nat \<Rightarrow> string \<Rightarrow> vptr \<Rightarrow> 'a ramvfs \<Rightarrow> (int \<times> 'a ramvfs) option" where
  "dir_add_entry d name vnode s = do {
     (err, s) \<leftarrow> ensure_dir_capacity d (of_nat (length (dir_entries (ram_dirs (fs_data s) d))) + 1) s;
     Some (if err < 0 then (err, s)
           else
             (let dir = ram_dirs (fs_data s) d;
                  e = \<lparr>entry_name = copy_string name 256, entry_vnode = vnode\<rparr> in
              (0, set_dir d (dir\<lparr>dir_entries := dir_entries dir @ [e]\<rparr>) (vnode_ref vnode s))))
   }"

definition dir_find_entry :: "RamfsDir \<Rightarrow> string \<Rightarrow> nat option" where
  "dir_find_entry dir name = first_index (\<lambda>e. string_equals (entry_name e) name) 0 (dir_entries dir)"

definition dir_remove_entry :: "nat \<Rightarrow> nat \<Rightarrow> 'a ramvfs \<Rightarrow> 'a ramvfs" where
  "dir_remove_entry d idx s =
     (let dir = ram_dirs (fs_data s) d in
      if idx \<ge> length (dir_entries dir) then s
      else
        (let v = entry_vnode (dir_entries dir ! idx);
             s = vnode_unref v (touch v s);
             moved = fold (\<lambda>i es. es[i - 1 := es ! i]) [idx + 1 ..< length (dir_entries dir)] (dir_entries dir) in
         set_dir d (dir\<lparr>dir_entries := butlast moved\<rparr>) s))"

section \<open>Vnode operations\<close>

definition dir_of :: "vptr \<Rightarrow> 'a ramvfs \<Rightarrow> nat" where
  "dir_of v s = private_data (vnodes s v)"

definition ramfs_lookup :: "vptr \<Rightarrow> string \<Rightarrow> 'a ramvfs \<Rightarrow> (int \<times> vptr \<times> 'a ramvfs) option" where
  "ramfs_lookup dir name s =
     (let ramdir = ram_dirs (fs_data s) (dir_of dir s) in
      case dir_find_entry ramdir name of
        None \<Rightarrow> Some (E_NOT_FOUND, 0, s)
      | Some idx \<Rightarrow> Some (0, entry_vnode (dir_entries ramdir ! idx), s))"

definition ramfs_create :: "vptr \<Rightarrow> string \<Rightarrow> 'a ramvfs \<Rightarrow> (int \<times> vptr \<times> 'a ramvfs) option" where
  "ramfs_create dir name s =
     (if dir_find_entry (ram_dirs (fs_data s) (dir_of dir s)) name \<noteq> None then Some (E_EXISTS, 0, s)
      else
        (let ramdir = dir_of dir s; ops = vnode_ops (vnodes s dir); (vnode, s) = create_vnode File s in
         if vnode = 0 then Some (E_NO_SPACE, 0, s)
         else
           (let s = set_vnode vnode ((vnodes s vnode)\<lparr>vnode_ops := ops\<rparr>) s; (file, s) = alloc_file s in
            if file = 0 then Some (E_NO_SPACE, 0, kfree vnode s)
            else
              (let s = set_vnode vnode ((vnodes s vnode)\<lparr>private_data := file\<rparr>) s in do {
                 (err, s) \<leftarrow> dir_add_entry ramdir name vnode s;
                 Some (if err < 0 then (err, 0, kfree vnode (kfree file s)) else (0, vnode, s))
               }))))"

definition ramfs_mkdir :: "vptr \<Rightarrow> string \<Rightarrow> 'a ramvfs \<Rightarrow> (int \<times> 'a ramvfs) option" where
  "ramfs_mkdir dir name s =
     (if dir_find_entry (ram_dirs (fs_data s) (dir_of dir s)) name \<noteq> None then Some (E_EXISTS, s)
      else
        (let ramdir = dir_of dir s; ops = vnode_ops (vnodes s dir); (vnode, s) = create_vnode Directory s in
         if vnode = 0 then Some (E_NO_SPACE, s)
         else
           (let s = set_vnode vnode ((vnodes s vnode)\<lparr>vnode_ops := ops\<rparr>) s; (subdir, s) = alloc_dir s in
            if subdir = 0 then Some (E_NO_SPACE, kfree vnode s)
            else
              (let s = set_vnode vnode ((vnodes s vnode)\<lparr>private_data := subdir\<rparr>) s in do {
                 (err, s) \<leftarrow> dir_add_entry ramdir name vnode s;
                 Some (if err < 0 then (err, kfree vnode (kfree subdir s)) else (0, s))
               }))))"

definition ramfs_rmdir :: "vptr \<Rightarrow> string \<Rightarrow> 'a ramvfs \<Rightarrow> (int \<times> 'a ramvfs) option" where
  "ramfs_rmdir dir name s =
     (let ramdir = dir_of dir s in
      case dir_find_entry (ram_dirs (fs_data s) ramdir) name of
        None \<Rightarrow> Some (E_NOT_FOUND, s)
      | Some idx \<Rightarrow>
          (let target = entry_vnode (dir_entries (ram_dirs (fs_data s) ramdir) ! idx) in
           if vnode_type (vnodes s target) \<noteq> Directory then Some (E_NOT_DIR, s)
           else
             (let target_dir = dir_of target s in
              if length (dir_entries (ram_dirs (fs_data s) target_dir)) > 0 then Some (E_NOT_EMPTY, s)
              else Some (0, dir_remove_entry ramdir idx (kfree target (kfree target_dir s))))))"

definition free_file_pages :: "u64 list \<Rightarrow> pmm \<Rightarrow> pmm" where
  "free_file_pages = fold (\<lambda>p m. if p \<noteq> 0 then free_page p m else m)"

definition ramfs_unlink :: "vptr \<Rightarrow> string \<Rightarrow> 'a ramvfs \<Rightarrow> (int \<times> 'a ramvfs) option" where
  "ramfs_unlink dir name s =
     (let ramdir = dir_of dir s in
      case dir_find_entry (ram_dirs (fs_data s) ramdir) name of
        None \<Rightarrow> Some (E_NOT_FOUND, s)
      | Some idx \<Rightarrow>
          (let target = entry_vnode (dir_entries (ram_dirs (fs_data s) ramdir) ! idx) in
           if vnode_type (vnodes s target) \<noteq> File then Some (E_IS_DIR, s)
           else
             (let file = private_data (vnodes s target);
                  s = with_fs (\<lambda>f. f\<lparr>page_allocator :=
                        free_file_pages (file_pages (ram_files f file)) (page_allocator f)\<rparr>) s in
              Some (0, dir_remove_entry ramdir idx (kfree target (kfree file s))))))"

text \<open>One round of the loops of \<open>ramfs_read\<close> and \<open>ramfs_write\<close>.\<close>

definition page_idx :: "u64 \<Rightarrow> nat \<Rightarrow> nat" where
  "page_idx offset pos = unat (offset + of_nat pos) div kPageSize"

definition page_off :: "u64 \<Rightarrow> nat \<Rightarrow> nat" where
  "page_off offset pos = unat (offset + of_nat pos) mod kPageSize"

definition chunk :: "u64 \<Rightarrow> nat \<Rightarrow> nat \<Rightarrow> nat" where
  "chunk offset len pos =
     (let c = kPageSize - page_off offset pos in if c > len - pos then len - pos else c)"

lemma chunk_pos: "pos < len \<Longrightarrow> 0 < chunk offset len pos"
  by (simp add: chunk_def Let_def page_off_def kPageSize_def)

function read_loop :: "RamfsFile \<Rightarrow> frames \<Rightarrow> u64 \<Rightarrow> nat \<Rightarrow> nat \<Rightarrow> memory \<Rightarrow> nat \<times> memory" where
  "read_loop file fr offset len pos buf =
     (if pos < len then
        (let i = page_idx offset pos;
             buf = (if i < length (file_pages file) \<and> file_pages file ! i \<noteq> 0
                    then fold (\<lambda>k b. b(pos + k := fr (file_pages file ! i) (page_off offset pos + k)))
                           [0 ..< chunk offset len pos] buf
                    else buf) in
         read_loop file fr offset len (pos + chunk offset len pos) buf)
      else (pos, buf))"
  by pat_completeness auto
termination
  by (relation "measure (\<lambda>(file, fr, offset, len, pos, buf). len - pos)")
    (auto simp: chunk_pos diff_less_mono2)

declare read_loop.simps [simp del]

definition ramfs_read ::
  "vptr \<Rightarrow> u64 \<Rightarrow> memory \<Rightarrow> u64 \<Rightarrow> 'a ramvfs \<Rightarrow> (int \<times> u64 \<times> memory \<times> 'a ramvfs) option" where
  "ramfs_read node offset buf count s =
     (let file = ram_files (fs_data s) (private_data (vnodes s node)) in
      if offset \<ge> file_size file then Some (0, 0, buf, s)
      else
        (let available = file_size file - offset;
             count = (if count > available then available else count);
             (pos, buf) = read_loop file (frames (fs_data s)) offset (unat count) 0 buf in
         Some (0, of_nat pos, buf, s)))"

text \<open>The pages of the file, the allocator and the frames during the loop of \<open>ramfs_write\<close>; an index
  past the array is undefined.\<close>

type_synonym wstate = "u64 list \<times> pmm \<times> frames"

function write_loop :: "u64 \<Rightarrow> memory \<Rightarrow> nat \<Rightarrow> nat \<Rightarrow> wstate \<Rightarrow> (int \<times> wstate) option" where
  "write_loop offset buf len pos (pages, pm, fr) =
     (if pos < len then
        (let i = page_idx offset pos in
         if i \<ge> length pages then None
         else
           (let (phys, pm) = (if pages ! i = 0 then alloc_page pm else (pages ! i, pm)) in
            if pages ! i = 0 \<and> phys = invalid_physical_address then Some (E_NO_SPACE, (pages, pm, fr))
            else
              (let pages = pages[i := phys];
                   dst = fold (\<lambda>k b. b(page_off offset pos + k := buf (pos + k)))
                           [0 ..< chunk offset len pos] (fr phys) in
               write_loop offset buf len (pos + chunk offset len pos) (pages, pm, fr(phys := dst)))))
      else Some (0, (pages, pm, fr)))"
  by pat_completeness auto
termination
  by (relation "measure (\<lambda>(offset, buf, len, pos, w). len - pos)")
    (auto simp: chunk_pos diff_less_mono2)

declare write_loop.simps [simp del]

text \<open>The array of pages grows to \<open>needed_pages\<close>, new places 0.\<close>

definition needed_pages :: "u64 \<Rightarrow> u64 \<Rightarrow> nat" where
  "needed_pages offset count = unat (offset + count + of_nat kPageSize - 1) div kPageSize"

definition ensure_pages :: "nat \<Rightarrow> nat \<Rightarrow> 'a ramvfs \<Rightarrow> int \<times> 'a ramvfs" where
  "ensure_pages n needed s =
     (let file = ram_files (fs_data s) n in
      if needed > length (file_pages file) then
        (let (new_pages, s) = kalloc s in
         if new_pages = 0 then (E_NO_SPACE, s)
         else (0, set_file n (file\<lparr>file_pages := file_pages file @
                   replicate (needed - length (file_pages file)) 0\<rparr>) s))
      else (0, s))"

definition ramfs_write ::
  "vptr \<Rightarrow> u64 \<Rightarrow> memory \<Rightarrow> u64 \<Rightarrow> 'a ramvfs \<Rightarrow> (int \<times> u64 \<times> 'a ramvfs) option" where
  "ramfs_write node offset buf count s =
     (let n = private_data (vnodes s node); stop = offset + count;
          (err, s) = ensure_pages n (needed_pages offset count) s in
      if err < 0 then Some (err, 0, s)
      else
        (let f = fs_data s; file = ram_files f n in do {
           (err, pages, pm, fr) \<leftarrow>
             write_loop offset buf (unat count) 0 (file_pages file, page_allocator f, frames f);
           (let s = with_fs (\<lambda>f. f\<lparr>page_allocator := pm, frames := fr\<rparr>) s;
                file = file\<lparr>file_pages := pages\<rparr> in
            Some (if err < 0 then (err, 0, set_file n file s)
                  else (0, count, set_file n (if stop > file_size file then file\<lparr>file_size := stop\<rparr> else file) s)))
         }))"

definition ramfs_readdir ::
  "vptr \<Rightarrow> u64 \<Rightarrow> Dirent \<Rightarrow> 'a ramvfs \<Rightarrow> (int \<times> Dirent \<times> u64 \<times> 'a ramvfs) option" where
  "ramfs_readdir dir offset entry s =
     (let ramdir = ram_dirs (fs_data s) (dir_of dir s) in
      if unat offset \<ge> length (dir_entries ramdir) then Some (E_NOT_FOUND, entry, offset, s)
      else
        (let e = dir_entries ramdir ! unat offset in
         Some (0, \<lparr>dirent_name = copy_string (entry_name e) 256,
                   dirent_type = vnode_type (vnodes s (entry_vnode e))\<rparr>, offset + 1, s)))"

definition ramfs_stat :: "vptr \<Rightarrow> Stat \<Rightarrow> 'a ramvfs \<Rightarrow> (int \<times> Stat) option" where
  "ramfs_stat node st s =
     Some (0, \<lparr>stat_type = vnode_type (vnodes s node),
       stat_size = (if vnode_type (vnodes s node) = File
                    then file_size (ram_files (fs_data s) (private_data (vnodes s node))) else 0)\<rparr>)"

definition ramfs_vnode_ops :: "'a ramfs_scheme VnodeOps" where
  "ramfs_vnode_ops = \<lparr>op_lookup = ramfs_lookup, op_create = ramfs_create, op_mkdir = Some ramfs_mkdir,
     op_rmdir = ramfs_rmdir, op_unlink = ramfs_unlink, op_read = Some ramfs_read,
     op_write = Some ramfs_write, op_readdir = Some ramfs_readdir, op_stat = Some ramfs_stat\<rparr>"

text \<open>The address of \<open>ramfs_vnode_ops\<close> is 1; the argument is the table at each address.\<close>

definition ramfs_ops_ptr :: nat where "ramfs_ops_ptr = 1"

definition ramfs_mount :: "'a ramvfs \<Rightarrow> (int \<times> vptr \<times> 'a ramvfs) option" where
  "ramfs_mount s =
     (let (root, s) = create_vnode Directory s in
      if root = 0 then Some (E_NO_SPACE, 0, s)
      else
        (let (dir, s) = alloc_dir s in
         if dir = 0 then Some (E_NO_SPACE, 0, kfree root s)
         else Some (0, root, set_vnode root ((vnodes s root)\<lparr>vnode_ops := ramfs_ops_ptr,
                                private_data := dir\<rparr>) s)))"

definition ramfs_unmount :: "vptr \<Rightarrow> 'a ramvfs \<Rightarrow> (int \<times> 'a ramvfs) option" where
  "ramfs_unmount root s =
     (let s = (if vnode_type (vnodes s root) = Directory then kfree (dir_of root s) s else s) in
      Some (0, kfree root s))"

definition ramfs_fs_ops :: "'a ramfs_scheme FilesystemOps" where
  "ramfs_fs_ops = \<lparr>fs_mount = ramfs_mount, fs_unmount = ramfs_unmount\<rparr>"

end
