(* ===== verification/Tori_Ramfs_Props.thy ===== *)
theory Tori_Ramfs_Props
  imports Tori_Ramfs
begin

text \<open>
  What the memory file system does: the bytes of a file as a partial function of the offset, the
  effect of a write and of a read on it, and the effect of the directory operations on lookups.
\<close>

section \<open>The bytes of a file\<close>

definition byte_at :: "u64 list \<Rightarrow> frames \<Rightarrow> nat \<Rightarrow> u8 option" where
  "byte_at pages fr a =
     (if a div 4096 < length pages \<and> pages ! (a div 4096) \<noteq> 0
      then Some (fr (pages ! (a div 4096)) (a mod 4096)) else None)"

text \<open>The pages of a file are its own, and none of them is free.\<close>

definition pages_ok :: "u64 list \<Rightarrow> pmm \<Rightarrow> bool" where
  "pages_ok pages pm \<longleftrightarrow> pmm_inv pm \<and> 0 \<notin> pmm_avail pm
     \<and> (\<forall>i < length pages. pages ! i \<noteq> 0 \<longrightarrow> pages ! i \<notin> pmm_avail pm
          \<and> (\<forall>j < length pages. i \<noteq> j \<longrightarrow> pages ! i \<noteq> pages ! j))"

lemma fold_store:
  "fold (\<lambda>k b. b(p + k := g k)) [0 ..< c] b = (\<lambda>a. if p \<le> a \<and> a < p + c then g (a - p) else b a)"
  by (induction c) (auto simp: fun_eq_iff)

lemma chunk_bounds:
  assumes "pos < len"
  shows "chunk off len pos \<le> 4096 - page_off off pos" "pos + chunk off len pos \<le> len" "page_off off pos < 4096"
  using assms by (auto simp: chunk_def Let_def page_off_def kPageSize_def)

lemma page_position:
  assumes "unat off + pos < 2 ^ 64"
  shows "page_idx off pos = (unat off + pos) div 4096" "page_off off pos = (unat off + pos) mod 4096"
proof -
  have "unat (of_nat pos :: u64) = pos" using assms by (simp add: unat_of_nat take_bit_nat_eq_self)
  then have "unat (off + of_nat pos) = unat off + pos" using assms by (simp add: unat_word_ariths)
  then show "page_idx off pos = (unat off + pos) div 4096" "page_off off pos = (unat off + pos) mod 4096"
    by (simp_all add: page_idx_def page_off_def kPageSize_def)
qed

lemma in_chunk:
  fixes x c a :: nat
  assumes "c \<le> 4096 - x mod 4096"
  shows "x \<le> a \<and> a < x + c \<longleftrightarrow> a div 4096 = x div 4096 \<and> x mod 4096 \<le> a mod 4096 \<and> a mod 4096 < x mod 4096 + c"
proof
  assume a: "x \<le> a \<and> a < x + c"
  have x: "x = 4096 * (x div 4096) + x mod 4096" by simp
  have "x div 4096 \<le> a div 4096" using a by (simp add: div_le_mono)
  moreover have "a < 4096 * (x div 4096) + 4096" using a assms x mod_less_divisor [of 4096 x] by linarith
  then have "a div 4096 < Suc (x div 4096)" by (simp add: less_mult_imp_div_less)
  ultimately have d: "a div 4096 = x div 4096" by simp
  have "a = 4096 * (x div 4096) + a mod 4096" by (metis d mult_div_mod_eq)
  with a x d show "a div 4096 = x div 4096 \<and> x mod 4096 \<le> a mod 4096 \<and> a mod 4096 < x mod 4096 + c"
    by linarith
next
  assume a: "a div 4096 = x div 4096 \<and> x mod 4096 \<le> a mod 4096 \<and> a mod 4096 < x mod 4096 + c"
  have "x = 4096 * (x div 4096) + x mod 4096" "a = 4096 * (a div 4096) + a mod 4096" by simp_all
  with a show "x \<le> a \<and> a < x + c" by linarith
qed

section \<open>Reading\<close>

lemma read_round:
  assumes "\<And>k. pos \<le> k \<Longrightarrow> k < pos + c \<Longrightarrow> f k div 4096 = i \<and> f k mod 4096 = o' + (k - pos)"
  shows "(if i < length ps \<and> ps ! i \<noteq> 0
      then fold (\<lambda>k b. b(pos + k := fr (ps ! i) (o' + k))) [0 ..< c] buf else buf) =
    (\<lambda>k. if pos \<le> k \<and> k < pos + c
       then (case byte_at ps fr (f k) of Some b \<Rightarrow> b | None \<Rightarrow> buf k) else buf k)"
proof (rule ext)
  fix k
  show "(if i < length ps \<and> ps ! i \<noteq> 0
      then fold (\<lambda>k b. b(pos + k := fr (ps ! i) (o' + k))) [0 ..< c] buf else buf) k =
    (if pos \<le> k \<and> k < pos + c then (case byte_at ps fr (f k) of Some b \<Rightarrow> b | None \<Rightarrow> buf k) else buf k)"
  proof (cases "pos \<le> k \<and> k < pos + c")
    case True
    with assms [of k] have "byte_at ps fr (f k) =
        (if i < length ps \<and> ps ! i \<noteq> 0 then Some (fr (ps ! i) (o' + (k - pos))) else None)"
      by (simp only: byte_at_def)
    with True show ?thesis by (simp add: fold_store)
  next
    case False
    then show ?thesis by (simp only: fold_store if_False split: if_split) simp
  qed
qed

lemma read_loop_bytes:
  assumes "unat off + len \<le> 2 ^ 64" "pos \<le> len"
  shows "read_loop file fr off len pos buf = (len, \<lambda>k. if pos \<le> k \<and> k < len
     then (case byte_at (file_pages file) fr (unat off + k) of Some b \<Rightarrow> b | None \<Rightarrow> buf k) else buf k)"
  using assms
proof (induction "len - pos" arbitrary: pos buf rule: less_induct)
  case less
  show ?case
  proof (cases "pos < len")
    case False
    with less.prems show ?thesis by (subst read_loop.simps) (auto simp: fun_eq_iff)
  next
    case True
    let ?x = "unat off + pos" and ?c = "chunk off len pos" and ?ps = "file_pages file"
    have i: "page_idx off pos = ?x div 4096" "page_off off pos = ?x mod 4096"
      using page_position [of off pos] True less.prems by auto
    have c: "?c \<le> 4096 - ?x mod 4096" "pos + ?c \<le> len" using chunk_bounds [OF True, of off] i by auto
    let ?b = "\<lambda>k. if pos \<le> k \<and> k < pos + ?c
       then (case byte_at ?ps fr (unat off + k) of Some b \<Rightarrow> b | None \<Rightarrow> buf k) else buf k"
    have "(unat off + k) div 4096 = ?x div 4096 \<and> (unat off + k) mod 4096 = ?x mod 4096 + (k - pos)"
      if "pos \<le> k" "k < pos + ?c" for k
      using in_chunk [OF c(1), of "unat off + k"] that
        mult_div_mod_eq [of 4096 "unat off + k"] mult_div_mod_eq [of 4096 ?x] by linarith
    then have "(if page_idx off pos < length ?ps \<and> ?ps ! page_idx off pos \<noteq> 0
        then fold (\<lambda>k b. b(pos + k := fr (?ps ! page_idx off pos) (page_off off pos + k))) [0 ..< ?c] buf
        else buf) = ?b"
      unfolding i by (rule read_round)
    then have "read_loop file fr off len pos buf = read_loop file fr off len (pos + ?c) ?b"
      using True by (subst read_loop.simps) (simp only: Let_def if_True)
    also have "\<dots> = (len, \<lambda>k. if pos + ?c \<le> k \<and> k < len
        then (case byte_at ?ps fr (unat off + k) of Some b \<Rightarrow> b | None \<Rightarrow> ?b k) else ?b k)"
      using less.hyps [of "pos + ?c" ?b] less.prems(1) c(2) True chunk_pos [OF True, of off] by simp
    finally show ?thesis using c(2) by (auto simp: fun_eq_iff split: option.split)
  qed
qed

section \<open>Writing\<close>

text \<open>One round of the loop: the page \<open>phys\<close> is at index \<open>i\<close> and no other place holds it.\<close>

lemma byte_at_store:
  assumes i: "x div 4096 < length pages" and p: "phys \<noteq> 0" and c: "c \<le> 4096 - x mod 4096"
    and other: "\<forall>j < length pages. j \<noteq> x div 4096 \<longrightarrow> pages ! j \<noteq> phys"
    and same: "pages ! (x div 4096) \<noteq> 0 \<longrightarrow> pages ! (x div 4096) = phys"
  shows "byte_at (pages[x div 4096 := phys])
      (fr(phys := \<lambda>o'. if x mod 4096 \<le> o' \<and> o' < x mod 4096 + c then g (o' - x mod 4096) else fr phys o')) a =
    (if x \<le> a \<and> a < x + c then Some (g (a - x))
     else if a div 4096 = x div 4096 then Some (fr phys (a mod 4096)) else byte_at pages fr a)"
proof (cases "a div 4096 = x div 4096")
  case True
  then have "a mod 4096 - x mod 4096 = a - x"
    using mult_div_mod_eq [of 4096 a] mult_div_mod_eq [of 4096 x] by linarith
  with True i p in_chunk [OF c, of a] show ?thesis by (auto simp: byte_at_def)
next
  case False
  with in_chunk [OF c, of a] other show ?thesis by (auto simp: byte_at_def)
qed

text \<open>What the loop leaves behind: the bytes of the range are written, the other bytes the file had
  and the pages that are neither free nor of the file are kept.\<close>

definition written :: "nat \<Rightarrow> nat \<Rightarrow> (nat \<Rightarrow> u8) \<Rightarrow> wstate \<Rightarrow> wstate \<Rightarrow> bool" where
  "written lo hi g = (\<lambda>(pages, pm, fr) (pages', pm', fr').
     pages_ok pages' pm' \<and> length pages' = length pages \<and> pmm_avail pm' \<subseteq> pmm_avail pm
     \<and> set pages' \<subseteq> set pages \<union> pmm_avail pm
     \<and> (\<forall>a. lo \<le> a \<and> a < hi \<longrightarrow> byte_at pages' fr' a = Some (g a))
     \<and> (\<forall>a b. \<not> (lo \<le> a \<and> a < hi) \<and> byte_at pages fr a = Some b \<longrightarrow> byte_at pages' fr' a = Some b)
     \<and> (\<forall>p. p \<notin> pmm_avail pm \<and> p \<notin> set pages \<longrightarrow> fr' p = fr p))"

lemma written_trans:
  assumes 1: "written lo mid g (pages, pm, fr) (pages', pm', fr')"
    and 2: "written mid hi g (pages', pm', fr') (pages'', pm'', fr'')"
    and le: "lo \<le> mid" "mid \<le> hi"
  shows "written lo hi g (pages, pm, fr) (pages'', pm'', fr'')"
proof -
  have b: "byte_at pages'' fr'' a = Some (g a)" if "lo \<le> a" "a < hi" for a
  proof (cases "a < mid")
    case True
    then have "byte_at pages' fr' a = Some (g a)" using 1 that by (simp add: written_def)
    with 2 True show ?thesis by (simp add: written_def)
  qed (use 2 that in \<open>simp add: written_def\<close>)
  have k: "byte_at pages'' fr'' a = Some b" if "\<not> (lo \<le> a \<and> a < hi)" "byte_at pages fr a = Some b" for a b
  proof -
    have "\<not> (lo \<le> a \<and> a < mid)" "\<not> (mid \<le> a \<and> a < hi)" using that(1) le by auto
    moreover from this(1) have "byte_at pages' fr' a = Some b" using 1 that(2) unfolding written_def by blast
    ultimately show ?thesis using 2 unfolding written_def by blast
  qed
  have f: "fr'' p = fr p" if "p \<notin> pmm_avail pm" "p \<notin> set pages" for p
  proof -
    have "fr' p = fr p" "p \<notin> pmm_avail pm'" "p \<notin> set pages'" using 1 that by (auto simp: written_def)
    with 2 show ?thesis by (simp add: written_def)
  qed
  have "set pages'' \<subseteq> set pages \<union> pmm_avail pm" using 1 2 by (auto simp: written_def)
  with 1 2 b k f show ?thesis by (auto simp: written_def)
qed

text \<open>The page a round writes to: the one the file has at the index, or a new one.\<close>

lemma write_round:
  assumes ok: "pages_ok pages pm" and i: "x div 4096 < length pages" and c: "c \<le> 4096 - x mod 4096"
    and a: "(phys, pm') = (if pages ! (x div 4096) = 0 then alloc_page pm else (pages ! (x div 4096), pm))"
    and v: "\<not> (pages ! (x div 4096) = 0 \<and> phys = invalid_physical_address)"
  shows "written x (x + c) g (pages, pm, fr) (pages[x div 4096 := phys], pm', fr(phys := \<lambda>o'.
    if x mod 4096 \<le> o' \<and> o' < x mod 4096 + c then g (x + (o' - x mod 4096)) else fr phys o'))"
proof -
  let ?i = "x div 4096"
  have p: "phys \<noteq> 0 \<and> pmm_inv pm' \<and> phys \<notin> pmm_avail pm' \<and> pmm_avail pm' \<subseteq> pmm_avail pm
    \<and> (phys = pages ! ?i \<or> phys \<in> pmm_avail pm)
    \<and> (\<forall>j < length pages. j \<noteq> ?i \<longrightarrow> pages ! j \<noteq> phys)"
  proof (cases "pages ! ?i = 0")
    case True
    then have al: "alloc_page pm = (phys, pm')" "phys \<noteq> invalid_physical_address" using a v by auto
    have inv: "pmm_inv pm" using ok by (simp add: pages_ok_def)
    note al' = pmm.alloc_ok [OF inv al] pmm.alloc_invar [OF inv al(1)]
    have "phys \<noteq> 0" using al' ok by (auto simp: pages_ok_def)
    moreover have "pages ! j \<noteq> phys" if "j < length pages" for j
      using al' ok that \<open>phys \<noteq> 0\<close> by (auto simp: pages_ok_def)
    ultimately show ?thesis using al' by auto
  next
    case False
    then have "phys = pages ! ?i" "pm' = pm" using a by auto
    with False ok i show ?thesis by (auto simp: pages_ok_def)
  qed
  have same: "pages ! ?i \<noteq> 0 \<longrightarrow> pages ! ?i = phys" using a by auto
  note b = byte_at_store [OF i _ c _ same, of fr "\<lambda>k. g (x + k)"]
  have "pages_ok (pages[?i := phys]) pm'"
    using ok p i unfolding pages_ok_def by (auto simp: nth_list_update)
  moreover have "set (pages[?i := phys]) \<subseteq> set pages \<union> pmm_avail pm"
    using p i set_update_subset_insert [of pages ?i phys] by (auto dest: nth_mem)
  moreover have "byte_at pages fr a = Some (fr phys (a mod 4096))"
    if "byte_at pages fr a = Some y" "a div 4096 = ?i" for a y
    using that same by (auto simp: byte_at_def split: if_splits)
  moreover have "q \<noteq> phys" if "q \<notin> pmm_avail pm" "q \<notin> set pages" for q
    using p i that by (auto dest: nth_mem)
  ultimately show ?thesis using p by (auto simp: written_def b)
qed

lemma write_loop_step:
  assumes "pos < len" and i: "page_idx off pos = x div 4096" "page_off off pos = x mod 4096"
    and a: "(phys, pm') = (if pages ! (x div 4096) = 0 then alloc_page pm else (pages ! (x div 4096), pm))"
  shows "write_loop off buf len pos (pages, pm, fr) =
    (if x div 4096 \<ge> length pages then None
     else if pages ! (x div 4096) = 0 \<and> phys = invalid_physical_address then Some (E_NO_SPACE, (pages, pm', fr))
     else write_loop off buf len (pos + chunk off len pos) (pages[x div 4096 := phys], pm', fr(phys := \<lambda>o'.
       if x mod 4096 \<le> o' \<and> o' < x mod 4096 + chunk off len pos
       then buf (pos + (o' - x mod 4096)) else fr phys o')))"
proof (cases "pages ! (x div 4096) = 0")
  case True
  then have "alloc_page pm = (phys, pm')" using a by simp
  with True assms(1) show ?thesis
    by (subst write_loop.simps) (simp add: i Let_def fold_store)
next
  case False
  then have "phys = pages ! (x div 4096)" "pm' = pm" using a by simp_all
  with False assms(1) show ?thesis
    by (subst write_loop.simps) (simp add: i Let_def fold_store cong: if_cong)
qed

lemma write_loop_written:
  assumes "pages_ok pages pm" "unat off + len \<le> 2 ^ 64" "pos \<le> len"
    "write_loop off buf len pos (pages, pm, fr) = Some (0, w)"
  shows "written (unat off + pos) (unat off + len) (\<lambda>a. buf (a - unat off)) (pages, pm, fr) w"
  using assms
proof (induction "len - pos" arbitrary: pos pages pm fr rule: less_induct)
  case less
  let ?g = "\<lambda>a. buf (a - unat off)"
  show ?case
  proof (cases "pos < len")
    case False
    with less.prems have "w = (pages, pm, fr)" "pos = len" by (simp_all add: write_loop.simps)
    with less.prems(1) show ?thesis by (auto simp: written_def)
  next
    case True
    let ?x = "unat off + pos" and ?c = "chunk off len pos"
    have i: "page_idx off pos = ?x div 4096" "page_off off pos = ?x mod 4096"
      using page_position [of off pos] True less.prems by auto
    have c: "?c \<le> 4096 - ?x mod 4096" "pos + ?c \<le> len" "0 < ?c"
      using chunk_bounds [OF True, of off] chunk_pos [OF True, of off] i by auto
    obtain phys pm' where a: "(phys, pm') =
        (if pages ! (?x div 4096) = 0 then alloc_page pm else (pages ! (?x div 4096), pm))"
      by (metis surj_pair)
    let ?fr = "fr(phys := \<lambda>o'. if ?x mod 4096 \<le> o' \<and> o' < ?x mod 4096 + ?c
        then buf (pos + (o' - ?x mod 4096)) else fr phys o')"
    have step: "?x div 4096 < length pages"
      "\<not> (pages ! (?x div 4096) = 0 \<and> phys = invalid_physical_address)"
      "write_loop off buf len (pos + ?c) (pages[?x div 4096 := phys], pm', ?fr) = Some (0, w)"
      using less.prems(4) unfolding write_loop_step [OF True i a]
      by (simp_all add: error_codes split: if_splits)
    have round: "written ?x (?x + ?c) ?g (pages, pm, fr) (pages[?x div 4096 := phys], pm', ?fr)"
      using write_round [OF less.prems(1) step(1) c(1) a step(2), of ?g fr] by (simp add: add.assoc cong: if_cong)
    then have ok: "pages_ok (pages[?x div 4096 := phys]) pm'" by (simp add: written_def)
    obtain pages'' pm'' fr'' where w: "w = (pages'', pm'', fr'')" by (cases w)
    have "written (unat off + (pos + ?c)) (unat off + len) ?g (pages[?x div 4096 := phys], pm', ?fr) w"
      by (rule less.hyps [OF _ ok less.prems(2) c(2) step(3)]) (use c in auto)
    then show ?thesis using round c unfolding w by (auto simp: add.assoc intro: written_trans)
  qed
qed

lemma write_loop_code:
  "write_loop off buf len pos (pages, pm, fr) = Some (e, w') \<Longrightarrow> e = 0 \<or> e = E_NO_SPACE"
proof (induction "len - pos" arbitrary: pos pages pm fr rule: less_induct)
  case less
  let ?x = "unat (off + of_nat pos)" and ?c = "chunk off len pos"
  show ?case
  proof (cases "pos < len")
    case True
    have i: "page_idx off pos = ?x div 4096" "page_off off pos = ?x mod 4096"
      by (simp_all add: page_idx_def page_off_def kPageSize_def)
    obtain phys pm' where a: "(phys, pm') =
        (if pages ! (?x div 4096) = 0 then alloc_page pm else (pages ! (?x div 4096), pm))"
      by (metis surj_pair)
    have "len - (pos + ?c) < len - pos" using True chunk_pos [OF True, of off] by simp
    note IH = less.hyps [OF this]
    from less.prems show ?thesis unfolding write_loop_step [OF True i a]
      by (auto split: if_split_asm dest: IH)
  qed (use less.prems in \<open>simp add: write_loop.simps\<close>)
qed

text \<open>With an entry for every page of the range the loop stays inside the array; when it gives up, no
  page is free.\<close>

lemma write_loop_returns:
  assumes "pages_ok pages pm" "unat off + len \<le> 2 ^ 64" "unat off + len \<le> 4096 * length pages"
  shows "\<exists>e pages' pm' fr'. write_loop off buf len pos (pages, pm, fr) = Some (e, pages', pm', fr')
    \<and> (e = 0 \<or> e = E_NO_SPACE \<and> pmm_avail pm' = {})"
  using assms
proof (induction "len - pos" arbitrary: pos pages pm fr rule: less_induct)
  case less
  show ?case
  proof (cases "pos < len")
    case False
    then show ?thesis by (simp add: write_loop.simps)
  next
    case True
    let ?x = "unat off + pos" and ?c = "chunk off len pos"
    have i: "page_idx off pos = ?x div 4096" "page_off off pos = ?x mod 4096"
      using page_position [of off pos] True less.prems by auto
    have x: "?x div 4096 < length pages" using less.prems(3) True by (simp add: less_mult_imp_div_less)
    have c: "?c \<le> 4096 - ?x mod 4096" "0 < ?c"
      using chunk_bounds [OF True, of off] chunk_pos [OF True, of off] i by auto
    obtain phys pm' where a: "(phys, pm') =
        (if pages ! (?x div 4096) = 0 then alloc_page pm else (pages ! (?x div 4096), pm))"
      by (metis surj_pair)
    show ?thesis
    proof (cases "pages ! (?x div 4096) = 0 \<and> phys = invalid_physical_address")
      case full: True
      then have "alloc_page pm = (invalid_physical_address, pm')" using a by simp
      then have "pmm_avail pm' = {}" using pmm.alloc_fail [of pm pm'] less.prems(1) by (simp add: pages_ok_def)
      then show ?thesis using full x unfolding write_loop_step [OF True i a] by simp
    next
      case False
      let ?fr = "fr(phys := \<lambda>o'. if ?x mod 4096 \<le> o' \<and> o' < ?x mod 4096 + ?c
          then buf (pos + (o' - ?x mod 4096)) else fr phys o')"
      have "pages_ok (pages[?x div 4096 := phys]) pm'"
        using write_round [OF less.prems(1) x c(1) a False, of undefined undefined] by (simp add: written_def)
      then have "\<exists>e pages' pm'' fr'. write_loop off buf len (pos + ?c) (pages[?x div 4096 := phys], pm', ?fr)
          = Some (e, pages', pm'', fr') \<and> (e = 0 \<or> e = E_NO_SPACE \<and> pmm_avail pm'' = {})"
        using less.hyps [of "pos + ?c"] True c less.prems by simp
      moreover have "write_loop off buf len pos (pages, pm, fr) =
          write_loop off buf len (pos + ?c) (pages[?x div 4096 := phys], pm', ?fr)"
        unfolding write_loop_step [OF True i a] if_not_P [OF False] using x by simp
      ultimately show ?thesis by simp
    qed
  qed
qed

section \<open>The tables of the virtual file system\<close>

named_theorems ram_tables \<open>operations that keep the tables of the virtual file system\<close>

lemma same_tables_with_fs [ram_tables]: "same_tables s (with_fs f t) = same_tables s t"
  by (simp add: same_tables_def with_fs_def)

lemma same_tables_set_vnode [ram_tables]: "same_tables s (set_vnode v n t) = same_tables s t"
  by (simp add: same_tables_def set_vnode_def)

lemma same_tables_refs [ram_tables]:
  "same_tables s (vnode_ref v t) = same_tables s t" "same_tables s (vnode_unref v t) = same_tables s t"
  by (simp_all add: same_tables_def vnode_ref_def vnode_unref_def)

lemma same_tables_simple [ram_tables]:
  "same_tables s (set_dir d r t) = same_tables s t" "same_tables s (set_file d q t) = same_tables s t"
  "same_tables s (kfree p t) = same_tables s t" "same_tables s (touch p t) = same_tables s t"
  by (simp_all add: set_dir_def set_file_def kfree_def touch_def ram_tables)

lemma same_tables_kalloc [ram_tables]: "same_tables s (snd (kalloc t)) = same_tables s t"
  by (simp add: kalloc_def Let_def ram_tables)

lemma same_tables_alloc [ram_tables]:
  "same_tables s (snd (alloc_dir t)) = same_tables s t" "same_tables s (snd (alloc_file t)) = same_tables s t"
  "same_tables s (snd (create_vnode y t)) = same_tables s t" "same_tables s (snd (ensure_pages n m t)) = same_tables s t"
  by (simp_all add: alloc_dir_def alloc_file_def create_vnode_def ensure_pages_def Let_def case_prod_beta ram_tables)

lemma dir_add_entry_tables:
  "dir_add_entry d name v t = Some (e, s') \<Longrightarrow> same_tables s s' = same_tables s t"
  by (auto simp: dir_add_entry_def ensure_dir_capacity_def Let_def case_prod_beta bind_eq_Some_conv
      ram_tables split: if_splits)

lemma ramfs_create_tables:
  "ramfs_create dir name s = Some (e, w, s') \<Longrightarrow> same_tables s s'"
  by (auto simp: ramfs_create_def Let_def case_prod_beta bind_eq_Some_conv ram_tables
      split: if_splits dest!: dir_add_entry_tables [of _ _ _ _ _ _ s])

lemma ramfs_write_tables:
  "ramfs_write v off buf len s = Some (e, c, s') \<Longrightarrow> same_tables s s'"
  by (auto simp: ramfs_write_def Let_def case_prod_beta bind_eq_Some_conv ram_tables split: if_splits)

definition ramfs_table :: "'a ramfs_scheme optab" where
  "ramfs_table = (\<lambda>_. ramfs_vnode_ops)"

interpretation ram: vnode_provider ramfs_table
proof unfold_locales
  fix k v :: nat and n and s s' :: "'a ramvfs" and e w rd wr off buf len c buf'
  show "same_tables s s'" if "op_lookup (ramfs_table k) v n s = Some (e, w, s')"
    using that by (auto simp: ramfs_table_def ramfs_vnode_ops_def ramfs_lookup_def Let_def split: option.splits)
  show "same_tables s s'" if "op_create (ramfs_table k) v n s = Some (e, w, s')"
    using that by (auto simp: ramfs_table_def ramfs_vnode_ops_def intro: ramfs_create_tables)
  show "same_tables s s'" if "op_read (ramfs_table k) = Some rd" "rd v off buf len s = Some (e, c, buf', s')"
    using that by (auto simp: ramfs_table_def ramfs_vnode_ops_def ramfs_read_def Let_def case_prod_beta split: if_splits)
  show "same_tables s s'" if "op_write (ramfs_table k) = Some wr" "wr v off buf len s = Some (e, c, s')"
    using that by (auto simp: ramfs_table_def ramfs_vnode_ops_def intro: ramfs_write_tables)
qed

section \<open>Directories\<close>

text \<open>The loop that closes the gap removes exactly one element.\<close>

lemma shift_down:
  assumes "idx < length es" "idx \<le> m" "m < length es"
  shows "fold (\<lambda>i es. es[i - 1 := es ! i]) [idx + 1 ..< Suc m] es =
    take idx es @ drop (Suc idx) (take (Suc m) es) @ [es ! m] @ drop (Suc m) es"
  using assms(2,3)
proof (induction m rule: nat_induct_at_least)
  case base
  then show ?case using assms(1) by (simp add: id_take_nth_drop [symmetric])
next
  case (Suc m)
  define l where "l = take idx es @ drop (Suc idx) (take (Suc m) es)"
  have len: "length l = m" using Suc by (simp add: l_def)
  have IH: "fold (\<lambda>i es. es[i - 1 := es ! i]) [idx + 1 ..< Suc m] es = l @ es ! m # drop (Suc m) es"
    using Suc by (simp add: l_def)
  have d: "drop (Suc m) es = es ! Suc m # drop (Suc (Suc m)) es" using Suc by (simp add: Cons_nth_drop_Suc)
  have "drop (Suc idx) (take (Suc (Suc m)) es) = drop (Suc idx) (take (Suc m) es) @ [es ! Suc m]"
    using Suc by (simp add: take_Suc_conv_app_nth [of "Suc m"])
  moreover have "[idx + 1 ..< Suc (Suc m)] = [idx + 1 ..< Suc m] @ [Suc m]" using Suc.hyps by simp
  moreover have "(l @ es ! m # drop (Suc m) es)[m := (l @ es ! m # drop (Suc m) es) ! Suc m] =
      l @ es ! Suc m # drop (Suc m) es"
    using len d by (simp add: nth_append list_update_append)
  ultimately show ?case using IH d by (simp add: l_def)
qed

lemma removed_entries:
  assumes "idx < length es"
  shows "butlast (fold (\<lambda>i es. es[i - 1 := es ! i]) [idx + 1 ..< length es] es) = take idx es @ drop (Suc idx) es"
proof -
  obtain m where m: "length es = Suc m" using assms by (cases "length es") auto
  then show ?thesis using shift_down [OF assms, of m] assms by (simp add: butlast_append)
qed

text \<open>The vnode a name stands for in a directory.\<close>

definition entry_of :: "RamfsDir \<Rightarrow> string \<Rightarrow> vptr option" where
  "entry_of dir name = map_option (\<lambda>idx. entry_vnode (dir_entries dir ! idx)) (dir_find_entry dir name)"

lemma entry_of_map_of:
  "entry_of dir name = map_of (map (\<lambda>e. (entry_name e, entry_vnode e)) (dir_entries dir)) name"
proof -
  have "map_option (\<lambda>k. entry_vnode (es ! (k - i))) (first_index (\<lambda>e. entry_name e = name) i es) =
      map_of (map (\<lambda>e. (entry_name e, entry_vnode e)) es) name" for i es
  proof (induction es arbitrary: i)
    case (Cons e es)
    have "es ! (k - Suc i) = (e # es) ! (k - i)" if "first_index (\<lambda>e. entry_name e = name) (Suc i) es = Some k" for k
      using first_index_Some [OF that] by (simp add: nth_Cons')
    with Cons [of "Suc i"] show ?case
      by (cases "first_index (\<lambda>e. entry_name e = name) (Suc i) es") auto
  qed simp
  from this [of _ 0] show ?thesis by (simp add: entry_of_def dir_find_entry_def)
qed

abbreviation ram_dir :: "nat \<Rightarrow> 'a ramvfs \<Rightarrow> RamfsDir" where
  "ram_dir d s \<equiv> ram_dirs (fs_data s) d"

text \<open>Growing the array: the loop is never entered for a directory whose entries fit.\<close>

lemma grow_cap_enough: "needed \<le> cap \<Longrightarrow> grow_cap cap needed = Some cap"
  by (subst grow_cap.simps) (auto dest: leD)

lemma kalloc_fields:
  "ram_dirs (fs_data (snd (kalloc s))) = ram_dirs (fs_data s)"
  "ram_files (fs_data (snd (kalloc s))) = ram_files (fs_data s)"
  "vnodes (snd (kalloc s)) = vnodes s" "fst (kalloc s) = 0 \<or> fst (kalloc s) = kalloc_next (fs_data s)"
  "page_allocator (fs_data (snd (kalloc s))) = page_allocator (fs_data s)"
  "frames (fs_data (snd (kalloc s))) = frames (fs_data s)"
  by (simp_all add: kalloc_def Let_def with_fs_def)

lemma dir_add_entry_effect:
  assumes "dir_add_entry d name v s = Some (e, s')" "\<not> e < 0"
  shows "dir_entries (ram_dirs (fs_data s') d) =
      dir_entries (ram_dirs (fs_data s) d) @ [\<lparr>entry_name = copy_string name 256, entry_vnode = v\<rparr>]"
    and "d' \<noteq> d \<Longrightarrow> ram_dirs (fs_data s') d' = ram_dirs (fs_data s) d'"
    and "w \<noteq> v \<Longrightarrow> vnodes s' w = vnodes s w" and "vnode_type (vnodes s' v) = vnode_type (vnodes s v)"
  using assms
  by (auto simp: dir_add_entry_def ensure_dir_capacity_def Let_def case_prod_beta bind_eq_Some_conv
      kalloc_fields set_dir_def with_fs_def vnode_ref_def error_codes split: if_splits)

text \<open>A new file or directory is one new entry; nothing else in any directory changes.\<close>

lemma ramfs_create_effect:
  assumes "ramfs_create dir name s = Some (0, v, s')" and "dir < kalloc_next (fs_data s)"
  shows "dir_find_entry (ram_dirs (fs_data s) (dir_of dir s)) name = None"
    and "dir_of dir s' = dir_of dir s" and "vnode_type (vnodes s' v) = File"
    and "dir_entries (ram_dirs (fs_data s') (dir_of dir s)) = dir_entries (ram_dirs (fs_data s) (dir_of dir s))
           @ [\<lparr>entry_name = copy_string name 256, entry_vnode = v\<rparr>]"
    and "d \<noteq> dir_of dir s \<Longrightarrow> ram_dirs (fs_data s') d = ram_dirs (fs_data s) d"
    and "w < kalloc_next (fs_data s) \<Longrightarrow> vnodes s' w = vnodes s w"
proof -
  let ?d = "dir_of dir s"
  define s1 where "s1 = snd (create_vnode File s)"
  define v1 where "v1 = fst (create_vnode File s)"
  define s2 where "s2 = set_vnode v1 ((vnodes s1 v1)\<lparr>vnode_ops := vnode_ops (vnodes s dir)\<rparr>) s1"
  define s3 where "s3 = snd (alloc_file s2)"
  define s4 where "s4 = set_vnode v1 ((vnodes s3 v1)\<lparr>private_data := fst (alloc_file s2)\<rparr>) s3"
  obtain e where add: "dir_add_entry ?d name v1 s4 = Some (e, s')" "\<not> e < 0" "v = v1" "v1 \<noteq> 0"
    and none: "dir_find_entry (ram_dirs (fs_data s) ?d) name = None"
    using assms(1)
    by (auto simp: ramfs_create_def Let_def case_prod_beta bind_eq_Some_conv s1_def v1_def s2_def s3_def
        s4_def error_codes split: if_splits)
  have v1: "v1 = kalloc_next (fs_data s)"
    using add(4) kalloc_fields(4) [of s] by (auto simp: v1_def create_vnode_def Let_def case_prod_beta)
  have dirs: "ram_dirs (fs_data s4) = ram_dirs (fs_data s)"
    by (simp add: s4_def s3_def s2_def s1_def alloc_file_def create_vnode_def Let_def case_prod_beta
        kalloc_fields set_file_def set_vnode_def with_fs_def)
  have vn: "vnodes s4 w = vnodes s w" "vnode_type (vnodes s4 v1) = File" if "w < kalloc_next (fs_data s)" for w
    using that v1 add(4)
    by (auto simp: s4_def s3_def s2_def s1_def v1_def alloc_file_def create_vnode_def Let_def case_prod_beta
        kalloc_fields set_file_def set_vnode_def with_fs_def split: if_splits)
  note eff = dir_add_entry_effect [OF add(1,2)]
  show "dir_find_entry (ram_dirs (fs_data s) ?d) name = None" by (rule none)
  show "dir_of dir s' = ?d" using eff(3) [of dir] assms(2) v1 vn(1) [OF assms(2)] by (simp add: dir_of_def)
  show "vnode_type (vnodes s' v) = File" using eff(4) vn(2) [OF assms(2)] add(3) by simp
  show "vnodes s' w = vnodes s w" if "w < kalloc_next (fs_data s)" using eff(3) [of w] that v1 vn(1) [OF that] by simp
  show "dir_entries (ram_dirs (fs_data s') ?d) = dir_entries (ram_dirs (fs_data s) ?d)
      @ [\<lparr>entry_name = copy_string name 256, entry_vnode = v\<rparr>]" using eff(1) dirs add(3) by simp
  show "ram_dirs (fs_data s') d = ram_dirs (fs_data s) d" if "d \<noteq> ?d" using eff(2) [OF that] dirs by simp
qed

lemma dir_remove_entry_effect:
  assumes "idx < length (dir_entries (ram_dirs (fs_data s) d))"
  shows "dir_entries (ram_dirs (fs_data (dir_remove_entry d idx s)) d) =
      take idx (dir_entries (ram_dirs (fs_data s) d)) @ drop (Suc idx) (dir_entries (ram_dirs (fs_data s) d))"
    and "\<not> live (fs_data s) (entry_vnode (dir_entries (ram_dirs (fs_data s) d) ! idx)) \<Longrightarrow>
      stale (fs_data (dir_remove_entry d idx s))"
  using assms removed_entries [OF assms]
  by (simp_all add: dir_remove_entry_def Let_def set_dir_def touch_def with_fs_def vnode_unref_def)

lemma map_of_drop_key:
  "k \<notin> fst ` set ys \<Longrightarrow> k \<notin> fst ` set zs \<Longrightarrow> map_of (ys @ zs) = (map_of (ys @ (k, v) # zs))(k := None)"
proof (induction ys)
  case Nil
  then have "map_of zs k = None" by (simp add: map_of_eq_None_iff)
  then show ?case by (auto simp: fun_eq_iff)
qed (auto simp: fun_eq_iff)

lemma map_of_removed:
  assumes "distinct (map fst xs)" "idx < length xs" "fst (xs ! idx) = k"
  shows "map_of (take idx xs @ drop (Suc idx) xs) = (map_of xs)(k := None)"
proof -
  have xs: "xs = take idx xs @ xs ! idx # drop (Suc idx) xs" using assms(2) by (rule id_take_nth_drop)
  have d: "distinct (map fst (take idx xs @ xs ! idx # drop (Suc idx) xs))" using assms(1) xs by simp
  have n: "k \<notin> fst ` set (take idx xs)" "k \<notin> fst ` set (drop (Suc idx) xs)" using d assms(3) by auto
  have "xs ! idx = (k, snd (xs ! idx))" using assms(3) by (metis prod.collapse)
  then show ?thesis using map_of_drop_key [OF n, of "snd (xs ! idx)"] xs by metis
qed

definition dir_map :: "nat \<Rightarrow> 'a ramvfs \<Rightarrow> string \<Rightarrow> vptr option" where
  "dir_map d s = entry_of (ram_dirs (fs_data s) d)"

definition dir_names :: "nat \<Rightarrow> 'a ramvfs \<Rightarrow> string list" where
  "dir_names d s = map entry_name (dir_entries (ram_dirs (fs_data s) d))"

lemma dir_map_names: "dir_map d s name = None \<longleftrightarrow> name \<notin> set (dir_names d s)"
  by (simp add: dir_map_def dir_names_def entry_of_map_of map_of_eq_None_iff image_image)

lemma dir_find_map: "dir_find_entry (ram_dirs (fs_data s) d) name = None \<longleftrightarrow> dir_map d s name = None"
  by (simp add: dir_map_def entry_of_def)

lemma dir_find_Some:
  assumes "dir_find_entry r name = Some idx"
  shows "idx < length (dir_entries r)" "entry_name (dir_entries r ! idx) = name"
  using first_index_Some [of _ 0 _ idx] assms by (auto simp: dir_find_entry_def)

text \<open>Removing the entry that \<open>dir_find_entry\<close> finds deletes the name.\<close>

lemma dir_map_removed:
  assumes "dir_find_entry (ram_dirs (fs_data s) d) name = Some idx" "distinct (dir_names d s)"
    and "dir_entries (ram_dirs (fs_data s') d) =
      take idx (dir_entries (ram_dirs (fs_data s) d)) @ drop (Suc idx) (dir_entries (ram_dirs (fs_data s) d))"
  shows "dir_map d s' = (dir_map d s)(name := None)"
proof -
  let ?xs = "map (\<lambda>e. (entry_name e, entry_vnode e)) (dir_entries (ram_dirs (fs_data s) d))"
  have "map_of (take idx ?xs @ drop (Suc idx) ?xs) = (map_of ?xs)(name := None)"
    by (rule map_of_removed) (use assms(2) dir_find_Some [OF assms(1)] in \<open>auto simp: dir_names_def comp_def\<close>)
  then show ?thesis by (simp add: dir_map_def fun_eq_iff entry_of_map_of assms(3) take_map drop_map)
qed

lemma ramfs_unlink_effect:
  assumes "ramfs_unlink dir name s = Some (0, s') \<or> ramfs_rmdir dir name s = Some (0, s')"
    and "distinct (dir_names (dir_of dir s) s)"
  shows "dir_map (dir_of dir s) s' = (dir_map (dir_of dir s) s)(name := None) \<and> stale (fs_data s')"
proof -
  let ?d = "dir_of dir s"
  obtain idx t where t: "dir_find_entry (ram_dirs (fs_data s) ?d) name = Some idx" "s' = dir_remove_entry ?d idx t"
    "ram_dirs (fs_data t) = ram_dirs (fs_data s)"
    "\<not> live (fs_data t) (entry_vnode (dir_entries (ram_dirs (fs_data s) ?d) ! idx))"
    using assms(1)
    by (auto simp: ramfs_unlink_def ramfs_rmdir_def Let_def kfree_def with_fs_def error_codes
        split: option.splits if_splits)
  have "idx < length (dir_entries (ram_dirs (fs_data t) ?d))" using dir_find_Some(1) [OF t(1)] t(3) by simp
  note rem = dir_remove_entry_effect [OF this]
  show ?thesis
    using dir_map_removed [OF t(1) assms(2), of s'] rem t by simp
qed

section \<open>Properties\<close>

definition pages_of :: "nat \<Rightarrow> 'a ramvfs \<Rightarrow> u64 list" where
  "pages_of n s = file_pages (ram_files (fs_data s) n)"

definition file_byte :: "nat \<Rightarrow> 'a ramvfs \<Rightarrow> nat \<Rightarrow> u8 option" where
  "file_byte n s = byte_at (pages_of n s) (frames (fs_data s))"

definition file_ok :: "nat \<Rightarrow> 'a ramvfs \<Rightarrow> bool" where
  "file_ok n s \<longleftrightarrow> pages_ok (pages_of n s) (page_allocator (fs_data s))"

text \<open>Two files share no page, and the second one's pages are not free.\<close>

definition apart :: "nat \<Rightarrow> nat \<Rightarrow> 'a ramvfs \<Rightarrow> bool" where
  "apart n m s \<longleftrightarrow> n \<noteq> m \<and>
     (\<forall>p \<in> set (pages_of m s). p \<noteq> 0 \<longrightarrow> p \<notin> set (pages_of n s) \<and> p \<notin> pmm_avail (page_allocator (fs_data s)))"

lemma pages_ok_extend: "pages_ok pages pm \<Longrightarrow> pages_ok (pages @ replicate k 0) pm"
  by (auto simp: pages_ok_def nth_append)

lemma byte_at_extend [simp]: "byte_at (pages @ replicate k 0) fr a = byte_at pages fr a"
  by (auto simp: byte_at_def nth_append)

lemma byte_at_frames:
  "\<forall>p \<in> set pages. p \<noteq> 0 \<longrightarrow> fr' p = fr p \<Longrightarrow> byte_at pages fr' a = byte_at pages fr a"
  by (auto simp: byte_at_def)

lemma ensure_pages_effect:
  assumes "ensure_pages n needed s = (e, t)"
  shows "vnodes t = vnodes s" "page_allocator (fs_data t) = page_allocator (fs_data s)"
    "frames (fs_data t) = frames (fs_data s)" "m \<noteq> n \<Longrightarrow> ram_files (fs_data t) m = ram_files (fs_data s) m"
    "file_size (ram_files (fs_data t) n) = file_size (ram_files (fs_data s) n)"
    "\<exists>k. pages_of n t = pages_of n s @ replicate k 0"
    "\<not> e < 0 \<Longrightarrow> needed \<le> length (pages_of n t)" "e = 0 \<or> e = E_NO_SPACE"
proof -
  have "\<exists>k. pages_of n s = pages_of n s @ replicate k 0" by (rule exI [of _ 0]) simp
  then show "\<exists>k. pages_of n t = pages_of n s @ replicate k 0"
    using assms by (auto simp: ensure_pages_def Let_def case_prod_beta kalloc_fields pages_of_def set_file_def
        with_fs_def split: if_splits)
qed (use assms in \<open>auto simp: ensure_pages_def Let_def case_prod_beta kalloc_fields pages_of_def set_file_def
        with_fs_def error_codes split: if_splits\<close>)

lemma needed_pages_enough:
  assumes "unat off + unat cnt + 4096 \<le> 2 ^ 64"
  shows "unat off + unat cnt \<le> 4096 * needed_pages off cnt"
proof -
  have s: "unat (off + cnt) = unat off + unat cnt" using assms by (simp add: unat_word_ariths)
  have "unat (off + cnt + 4095) = unat off + unat cnt + 4095" using assms s by (simp add: unat_word_ariths)
  moreover have "off + cnt + of_nat kPageSize - 1 = off + cnt + 4095" by (simp add: kPageSize_def)
  ultimately have "needed_pages off cnt = (unat off + unat cnt + 4095) div 4096"
    by (simp only: needed_pages_def kPageSize_def)
  then show ?thesis by linarith
qed

lemma ramfs_write_effect:
  assumes w: "ramfs_write v off buf cnt s = Some (0, c, s')" and ok: "file_ok (private_data (vnodes s v)) s"
    and fits: "unat off + unat cnt + 4096 \<le> 2 ^ 64"
  defines "n \<equiv> private_data (vnodes s v)"
  shows "c = cnt" "vnodes s' = vnodes s" "file_ok n s'"
    "unat off + unat cnt \<le> unat (file_size (ram_files (fs_data s') n))"
    "\<And>a. unat off \<le> a \<Longrightarrow> a < unat off + unat cnt \<Longrightarrow> file_byte n s' a = Some (buf (a - unat off))"
    "\<And>a x. \<not> (unat off \<le> a \<and> a < unat off + unat cnt) \<Longrightarrow> file_byte n s a = Some x \<Longrightarrow> file_byte n s' a = Some x"
    "\<And>m a. apart n m s \<Longrightarrow> file_byte m s' a = file_byte m s a"
proof -
  obtain e t where t: "ensure_pages n (needed_pages off cnt) s = (e, t)" by fastforce
  note et = ensure_pages_effect [OF t]
  obtain k where k: "pages_of n t = pages_of n s @ replicate k 0" using et(6) by blast
  let ?f = "ram_files (fs_data t) n"
  have ret: "(if a < 0 then (a, 0, X) else (0, cnt, Y)) = (0, c, s') \<longleftrightarrow> \<not> a < 0 \<and> c = cnt \<and> s' = Y"
    for a :: int and X Y by auto
  have "\<not> e < 0" using w by (auto simp: ramfs_write_def Let_def t n_def [symmetric] split: if_split_asm)
  then obtain a pages pm fr where a: "write_loop off buf (unat cnt) 0
        (pages_of n t, page_allocator (fs_data s), frames (fs_data s)) = Some (a, pages, pm, fr)" "\<not> a < 0"
    and s': "s' = set_file n (if off + cnt > file_size ?f then ?f\<lparr>file_pages := pages, file_size := off + cnt\<rparr>
        else ?f\<lparr>file_pages := pages\<rparr>) (with_fs (\<lambda>f. f\<lparr>page_allocator := pm, frames := fr\<rparr>) t)"
    and c: "c = cnt"
    using w et(2,3)
    by (auto simp: ramfs_write_def Let_def t n_def [symmetric] pages_of_def bind_eq_Some_conv ret
        split del: if_split)
  have wl: "write_loop off buf (unat cnt) 0
        (pages_of n t, page_allocator (fs_data s), frames (fs_data s)) = Some (0, pages, pm, fr)"
    using write_loop_code [OF a(1)] a by (auto simp: error_codes)
  show "c = cnt" by (rule c)
  show "vnodes s' = vnodes s" using et(1) s' by (simp add: set_file_def with_fs_def)
  have "pages_ok (pages_of n t) (page_allocator (fs_data s))"
    using ok pages_ok_extend by (simp add: file_ok_def n_def [symmetric] k)
  from write_loop_written [OF this _ _ wl] fits
  have wr: "written (unat off) (unat off + unat cnt) (\<lambda>a. buf (a - unat off))
      (pages_of n t, page_allocator (fs_data s), frames (fs_data s)) (pages, pm, fr)" by simp
  have p': "pages_of n s' = pages" "frames (fs_data s') = fr" "page_allocator (fs_data s') = pm"
    by (simp_all add: s' pages_of_def set_file_def with_fs_def)
  show "file_ok n s'" using wr by (simp add: file_ok_def p' written_def)
  have "unat (off + cnt) = unat off + unat cnt" using fits by (simp add: unat_word_ariths)
  then show "unat off + unat cnt \<le> unat (file_size (ram_files (fs_data s') n))"
    by (auto simp: s' set_file_def with_fs_def word_less_nat_alt)
  show "file_byte n s' a = Some (buf (a - unat off))" if "unat off \<le> a" "a < unat off + unat cnt" for a
    using wr that by (simp add: file_byte_def p' written_def)
  show "file_byte n s' a = Some x" if "\<not> (unat off \<le> a \<and> a < unat off + unat cnt)" "file_byte n s a = Some x" for a x
    using wr that unfolding written_def file_byte_def p' k by (simp only: prod.case byte_at_extend) blast
  show "file_byte m s' a = file_byte m s a" if m: "apart n m s" for m a
  proof -
    have pm: "pages_of m s' = pages_of m s" using m et(4) by (simp add: s' apart_def pages_of_def set_file_def with_fs_def)
    have "fr p = frames (fs_data s) p" if "p \<in> set (pages_of m s)" "p \<noteq> 0" for p
      using wr m that by (auto simp: written_def apart_def k)
    then show ?thesis unfolding file_byte_def pm p'(2) by (intro byte_at_frames) simp
  qed
qed

text \<open>Reading back the written range, in any state with the vnodes and the data the write left.\<close>

lemma ramfs_read_written:
  assumes "ramfs_write v off buf cnt s = Some (0, c, s')" and "file_ok (private_data (vnodes s v)) s"
    and "unat off + unat cnt + 4096 \<le> 2 ^ 64" and "vnodes t = vnodes s'" "fs_data t = fs_data s'"
  shows "\<exists>b. ramfs_read v off buf' cnt t = Some (0, cnt, b, t) \<and> (\<forall>k < unat cnt. b k = buf k)"
proof (cases "cnt = 0")
  case True
  then show ?thesis by (simp add: ramfs_read_def Let_def read_loop.simps)
next
  case False
  note eff = ramfs_write_effect [OF assms(1-3)]
  let ?f = "ram_files (fs_data s') (private_data (vnodes s v))"
  have "0 < unat cnt" using False by (simp add: unat_gt_0)
  with eff(4) have lt: "\<not> file_size ?f \<le> off" by (simp add: word_le_nat_alt)
  then have "unat (file_size ?f - off) = unat (file_size ?f) - unat off" by (simp add: unat_sub)
  then have le: "\<not> cnt > file_size ?f - off" using eff(4) by (simp add: word_less_nat_alt)
  have "byte_at (file_pages ?f) (frames (fs_data s')) (unat off + k) = Some (buf k)" if "k < unat cnt" for k
    using eff(5) [of "unat off + k"] that by (simp add: file_byte_def pages_of_def)
  then show ?thesis
    using lt le read_loop_bytes [of off "unat cnt" 0 ?f "frames (fs_data s')" buf'] assms(3-5)
    by (simp add: ramfs_read_def Let_def eff(2))
qed

lemma ramfs_create_map:
  assumes c: "ramfs_create dir name s = Some (0, v, s1)" and d: "dir < kalloc_next (fs_data s)" and len: "length name < 256"
  shows "name \<notin> set (dir_names (dir_of dir s) s)"
    "dir_map (dir_of dir s1) s1 = (dir_map (dir_of dir s) s)(name \<mapsto> v)"
    "d' \<noteq> dir_of dir s \<Longrightarrow> dir_map d' s1 = dir_map d' s"
proof -
  note eff = ramfs_create_effect [OF c d]
  have "dir_map (dir_of dir s) s name = None" using eff(1) by (simp add: dir_find_map)
  then show n: "name \<notin> set (dir_names (dir_of dir s) s)" by (simp add: dir_map_names)
  then have "map_of (map (\<lambda>e. (entry_name e, entry_vnode e)) (dir_entries (ram_dirs (fs_data s) (dir_of dir s)))) name = None"
    by (simp add: map_of_eq_None_iff dir_names_def image_image)
  then show "dir_map (dir_of dir s1) s1 = (dir_map (dir_of dir s) s)(name \<mapsto> v)"
    by (auto simp: dir_map_def fun_eq_iff entry_of_map_of eff(2,4) copy_string_fits [OF len] map_add_def
        split: option.split)
  show "d' \<noteq> dir_of dir s \<Longrightarrow> dir_map d' s1 = dir_map d' s" using eff(5) by (simp add: dir_map_def)
qed

text \<open>C12. A directory implements a finite map from names to vnodes: looking a name up reads the map,
  creating a file whose name fits adds the name and leaves every other directory alone, and removing
  a file or an empty directory deletes the name, provided that no name occurs twice.\<close>

theorem ramfs_directory_refines:
  assumes "dir < kalloc_next (fs_data s)" and "length name < 256"
  shows "ramfs_lookup dir name s =
      Some (case dir_map (dir_of dir s) s name of None \<Rightarrow> (E_NOT_FOUND, 0, s) | Some v \<Rightarrow> (0, v, s))
    \<and> (ramfs_create dir name s = Some (0, v, s1) \<longrightarrow>
         dir_map (dir_of dir s) s name = None \<and> dir_map (dir_of dir s1) s1 = (dir_map (dir_of dir s) s)(name \<mapsto> v)
         \<and> vnode_type (vnodes s1 v) = File
         \<and> (distinct (dir_names (dir_of dir s) s) \<longrightarrow> distinct (dir_names (dir_of dir s1) s1))
         \<and> (\<forall>d. d \<noteq> dir_of dir s \<longrightarrow> dir_map d s1 = dir_map d s))
    \<and> (distinct (dir_names (dir_of dir s) s) \<and>
         (ramfs_unlink dir name s = Some (0, s2) \<or> ramfs_rmdir dir name s = Some (0, s2)) \<longrightarrow>
         dir_map (dir_of dir s) s2 = (dir_map (dir_of dir s) s)(name := None))"
proof (intro conjI impI allI)
  show "ramfs_lookup dir name s =
      Some (case dir_map (dir_of dir s) s name of None \<Rightarrow> (E_NOT_FOUND, 0, s) | Some v \<Rightarrow> (0, v, s))"
    by (simp add: ramfs_lookup_def Let_def dir_map_def entry_of_def split: option.split)
next
  assume c: "ramfs_create dir name s = Some (0, v, s1)"
  note eff = ramfs_create_effect [OF c assms(1)] and m = ramfs_create_map [OF c assms]
  show "dir_map (dir_of dir s) s name = None" using eff(1) by (simp add: dir_find_map)
  show "dir_map (dir_of dir s1) s1 = (dir_map (dir_of dir s) s)(name \<mapsto> v)" by (rule m(2))
  show "vnode_type (vnodes s1 v) = File" by (rule eff(3))
  show "distinct (dir_names (dir_of dir s1) s1)" if "distinct (dir_names (dir_of dir s) s)"
    using that m(1) by (simp add: dir_names_def eff(2,4) copy_string_fits [OF assms(2)])
  show "dir_map d s1 = dir_map d s" if "d \<noteq> dir_of dir s" for d by (rule m(3) [OF that])
next
  assume "distinct (dir_names (dir_of dir s) s) \<and>
    (ramfs_unlink dir name s = Some (0, s2) \<or> ramfs_rmdir dir name s = Some (0, s2))"
  then show "dir_map (dir_of dir s) s2 = (dir_map (dir_of dir s) s)(name := None)"
    using ramfs_unlink_effect by blast
qed

text \<open>A small machine for the witnesses: vnode 1 is an empty root directory, vnode 5 a file with one page.\<close>

definition example_ram :: "ramfs vfs" where
  "example_ram = \<lparr>vnodes = (\<lambda>v. if v = 5
       then \<lparr>vnode_type = File, vnode_ops = 1, private_data = 6, ref_count = 1, mount_parent = 0\<rparr>
       else \<lparr>vnode_type = Directory, vnode_ops = 1, private_data = 2, ref_count = 1, mount_parent = 0\<rparr>),
     mount_table = replicate 16 \<lparr>mount_point = 0, mounted_root = 0, mount_used = False\<rparr>,
     kernel_fd_table = replicate 256 \<lparr>fd_vnode = 0, fd_offset = 0, fd_flags = 0, fd_used = False\<rparr>,
     process_fd_table = (\<lambda>_. []), current_process = None, root_vnode = 1, initialized = True,
     fs_data = \<lparr>kalloc_next = 10, kalloc_ok = (\<lambda>_. True), live = (\<lambda>p. p < 10), stale = False,
       ram_dirs = (\<lambda>_. \<lparr>dir_entries = [], dir_capacity = 0\<rparr>),
       ram_files = (\<lambda>_. \<lparr>file_pages = [0x5000], file_size = 0\<rparr>),
       frames = (\<lambda>_ _. 0), page_allocator = example_pmm\<rparr>\<rparr>"

lemma example_ram_file: "file_ok 6 example_ram"
  using free_set_example example_pmm_inv
  by (auto simp: file_ok_def pages_of_def example_ram_def pages_ok_def pmm_avail_def page_size_def)

lemma example_create: "\<exists>s. ramfs_create 1 ''a'' example_ram = Some (0, 10, s)"
  by (simp add: ramfs_create_def example_ram_def dir_of_def dir_find_entry_def create_vnode_def alloc_file_def
      kalloc_def with_fs_def set_vnode_def set_file_def dir_add_entry_def ensure_dir_capacity_def
      grow_cap_enough Let_def)

lemma example_write: "\<exists>s. ramfs_write 5 1 (\<lambda>k. of_nat k) 3 example_ram = Some (0, 3, s)"
  by (simp add: ramfs_write_def example_ram_def ensure_pages_def needed_pages_def kPageSize_def
      write_loop.simps page_idx_def page_off_def chunk_def Let_def)

theorem ramfs_directory_refines_witness:
  "\<exists>s. ramfs_create 1 ''a'' example_ram = Some (0, 10, s)
     \<and> ramfs_lookup 1 ''a'' s = Some (0, 10, s) \<and> ramfs_lookup 1 ''a'' example_ram = Some (E_NOT_FOUND, 0, example_ram)"
proof -
  obtain s where s: "ramfs_create 1 ''a'' example_ram = Some (0, 10, s)" using example_create by blast
  have "1 < kalloc_next (fs_data example_ram)" by (simp add: example_ram_def)
  from ramfs_directory_refines [OF this, of "''a''" 10 s undefined] s
  have m: "dir_map (dir_of 1 example_ram) example_ram ''a'' = None"
    "dir_map (dir_of 1 s) s = (dir_map (dir_of 1 example_ram) example_ram)(''a'' \<mapsto> 10)"
    "ramfs_lookup 1 ''a'' example_ram = Some (E_NOT_FOUND, 0, example_ram)" by auto
  have "ramfs_lookup 1 ''a'' s = Some (0, 10, s)"
    using m(2) by (auto simp: ramfs_lookup_def Let_def dir_map_def entry_of_def fun_eq_iff
        dest!: spec [of _ "''a''"] split: option.split)
  with s m show ?thesis by blast
qed

text \<open>Removing a file or a directory always writes to the vnode it has just freed: the entry is
  dropped, with its reference, after \<open>kfree\<close>.\<close>

theorem ramfs_remove_use_after_free:
  assumes "distinct (dir_names (dir_of dir s) s)"
    and "ramfs_unlink dir name s = Some (0, s') \<or> ramfs_rmdir dir name s = Some (0, s')"
  shows "stale (fs_data s')"
  using ramfs_unlink_effect [OF assms(2,1)] by simp

theorem ramfs_remove_use_after_free_witness:
  "\<exists>s s'. ramfs_create 1 ''a'' example_ram = Some (0, 10, s) \<and> ramfs_unlink 1 ''a'' s = Some (0, s')
     \<and> \<not> stale (fs_data example_ram) \<and> stale (fs_data s')"
proof -
  obtain s where s: "ramfs_create 1 ''a'' example_ram = Some (0, 10, s)" using example_create by blast
  have d: "1 < kalloc_next (fs_data example_ram)" by (simp add: example_ram_def)
  note eff = ramfs_create_effect [OF s d]
  have e: "dir_entries (ram_dirs (fs_data s) (dir_of 1 s)) = [\<lparr>entry_name = ''a'', entry_vnode = 10\<rparr>]"
    using eff(2,4) by (simp add: example_ram_def dir_of_def copy_string_fits)
  have "ramfs_unlink 1 ''a'' s \<noteq> None \<and> fst (the (ramfs_unlink 1 ''a'' s)) = 0"
    using eff(3) by (simp add: ramfs_unlink_def dir_find_entry_def e Let_def del: One_nat_def)
  then obtain s' where u: "ramfs_unlink 1 ''a'' s = Some (0, s')" by (cases "ramfs_unlink 1 ''a'' s") auto
  have "stale (fs_data s')"
    by (rule ramfs_remove_use_after_free [of 1 s "''a''"]) (use u in \<open>auto simp: dir_names_def e simp del: One_nat_def\<close>)
  with s u show ?thesis by (auto simp: example_ram_def)
qed

text \<open>C11. Reading back a range that was written returns the bytes that were written; the other bytes
  of the file and every file that shares no page with it keep theirs.  The range may end anywhere
  below the last page of the 64-bit offsets, where the rounding of \<open>ramfs_write\<close> would wrap.\<close>

theorem ramfs_write_read:
  assumes "ramfs_write v off buf cnt s = Some (0, c, s')" and "file_ok (private_data (vnodes s v)) s"
    and "unat off + unat cnt + 4096 \<le> 2 ^ 64"
  shows "c = cnt \<and> file_ok (private_data (vnodes s v)) s'
    \<and> (\<exists>b. ramfs_read v off buf' cnt s' = Some (0, cnt, b, s') \<and> (\<forall>k < unat cnt. b k = buf k))
    \<and> (\<forall>a x. \<not> (unat off \<le> a \<and> a < unat off + unat cnt) \<and> file_byte (private_data (vnodes s v)) s a = Some x
         \<longrightarrow> file_byte (private_data (vnodes s v)) s' a = Some x)
    \<and> (\<forall>m a. apart (private_data (vnodes s v)) m s \<longrightarrow> file_byte m s' a = file_byte m s a)"
  using ramfs_write_effect(1,3,6,7) [OF assms] ramfs_read_written [OF assms, of s'] by auto

theorem ramfs_write_read_witness:
  "\<exists>s' b. ramfs_write 5 1 (\<lambda>k. of_nat k) 3 example_ram = Some (0, 3, s')
     \<and> ramfs_read 5 1 (\<lambda>_. 9) 3 s' = Some (0, 3, b, s') \<and> b 2 = 2"
proof -
  obtain s' where w: "ramfs_write 5 1 (\<lambda>k. of_nat k) 3 example_ram = Some (0, 3, s')" using example_write by blast
  have "file_ok (private_data (vnodes example_ram 5)) example_ram"
    using example_ram_file by (simp add: example_ram_def)
  from ramfs_write_read [OF w this, of "\<lambda>_. 9"]
  obtain b where "ramfs_read 5 1 (\<lambda>_. 9) 3 s' = Some (0, 3, b, s')" "\<forall>k < unat (3 :: u64). b k = of_nat k" by auto
  moreover from this(2) have "b 2 = 2" by simp
  ultimately show ?thesis using w by blast
qed

text \<open>Writing is defined, and either succeeds or reports that there is no space, when the range ends
  below the last page of the offsets.  When it ends exactly at the top of the 64-bit offsets, which a
  seek can reach, its end wraps to 0 and the loop indexes past the array of pages.\<close>

theorem ramfs_write_defined:
  assumes "file_ok (private_data (vnodes s v)) s"
  shows "(unat off + unat cnt + 4096 \<le> 2 ^ 64 \<longrightarrow>
      (\<exists>e c s'. ramfs_write v off buf cnt s = Some (e, c, s') \<and> (e = 0 \<or> e = E_NO_SPACE)))
    \<and> (off + cnt = 0 \<and> cnt \<noteq> 0 \<and> length (pages_of (private_data (vnodes s v)) s) \<le> unat off div 4096 \<longrightarrow>
      ramfs_write v off buf cnt s = None)"
proof (intro conjI impI)
  let ?n = "private_data (vnodes s v)"
  assume fits: "unat off + unat cnt + 4096 \<le> 2 ^ 64"
  obtain e t where t: "ensure_pages ?n (needed_pages off cnt) s = (e, t)" by fastforce
  note et = ensure_pages_effect [OF t]
  show "\<exists>e c s'. ramfs_write v off buf cnt s = Some (e, c, s') \<and> (e = 0 \<or> e = E_NO_SPACE)"
  proof (cases "e < 0")
    case True
    then show ?thesis using et(8) by (auto simp: ramfs_write_def Let_def t)
  next
    case False
    obtain k where k: "pages_of ?n t = pages_of ?n s @ replicate k 0" using et(6) by blast
    have "pages_ok (pages_of ?n t) (page_allocator (fs_data t))"
      using assms pages_ok_extend by (simp add: file_ok_def k et(2))
    moreover have "unat off + unat cnt \<le> 4096 * length (pages_of ?n t)"
      using needed_pages_enough [OF fits] et(7) [OF False] by linarith
    ultimately obtain e' p' m' f' where "write_loop off buf (unat cnt) 0 (pages_of ?n t, page_allocator (fs_data t),
        frames (fs_data t)) = Some (e', p', m', f')" "e' = 0 \<or> e' = E_NO_SPACE"
      using write_loop_returns [of "pages_of ?n t" "page_allocator (fs_data t)" off "unat cnt" buf 0 "frames (fs_data t)"]
        fits by auto
    with False show ?thesis by (auto simp: ramfs_write_def Let_def t pages_of_def error_codes)
  qed
next
  let ?n = "private_data (vnodes s v)"
  assume w: "off + cnt = 0 \<and> cnt \<noteq> 0 \<and> length (pages_of ?n s) \<le> unat off div 4096"
  have "needed_pages off cnt = 0" using w by (simp add: needed_pages_def kPageSize_def)
  then have "ensure_pages ?n (needed_pages off cnt) s = (0, s)" by (simp add: ensure_pages_def Let_def)
  moreover have "0 < unat cnt" using w by (simp add: unat_gt_0)
  ultimately show "ramfs_write v off buf cnt s = None"
    using w by (simp add: ramfs_write_def Let_def write_loop.simps page_idx_def kPageSize_def pages_of_def)
qed

theorem ramfs_write_defined_witness:
  "ramfs_write 5 0xFFFFFFFFFFFFFFFF (\<lambda>_. 0) 1 example_ram = None"
proof -
  have "file_ok (private_data (vnodes example_ram 5)) example_ram"
    using example_ram_file by (simp add: example_ram_def)
  from ramfs_write_defined [OF this, of "0xFFFFFFFFFFFFFFFF" 1 "\<lambda>_. 0"] show ?thesis
    by (simp add: pages_of_def example_ram_def)
qed

text \<open>Making room for one more entry returns for every directory whose entries fit its array and
  whose capacity is below half the 64-bit range: the doubling loop ends, and on success the new
  entry fits.\<close>

theorem ensure_dir_capacity_returns:
  assumes "length (dir_entries (ram_dir d s)) \<le> unat (dir_capacity (ram_dir d s))" and "unat (dir_capacity (ram_dir d s)) < 2 ^ 63"
  shows "\<exists>e s'. ensure_dir_capacity d (of_nat (length (dir_entries (ram_dir d s))) + 1) s = Some (e, s')
    \<and> (e = 0 \<and> length (dir_entries (ram_dir d s)) < unat (dir_capacity (ram_dir d s')) \<or> e = E_NO_SPACE)
    \<and> dir_entries (ram_dir d s') = dir_entries (ram_dir d s)"
proof -
  let ?c = "dir_capacity (ram_dir d s)" and ?k = "length (dir_entries (ram_dir d s))"
  let ?needed = "of_nat ?k + 1 :: u64" and ?new = "if ?c \<noteq> 0 then ?c * 2 else 8"
  have "unat (of_nat ?k :: u64) = ?k" using assms by (simp add: unat_of_nat take_bit_nat_eq_self)
  then have needed: "unat ?needed = Suc ?k" using assms by (simp add: unat_word_ariths)
  have new: "Suc ?k \<le> unat ?new"
  proof (cases "?c = 0")
    case False
    then have "0 < unat ?c" by (simp add: unat_gt_0)
    moreover have "unat (?c * 2) = unat ?c * 2" using assms(2) by (simp add: unat_word_ariths)
    ultimately show ?thesis using assms(1) False by simp
  qed (use assms(1) in simp)
  then have "grow_cap ?new ?needed = Some ?new" using needed by (intro grow_cap_enough) (simp add: word_le_nat_alt)
  then show ?thesis using new needed
    by (auto simp: ensure_dir_capacity_def Let_def case_prod_beta kalloc_fields set_dir_def with_fs_def
        word_le_nat_alt)
qed

theorem ensure_dir_capacity_returns_witness:
  "\<exists>e s'. ensure_dir_capacity 2 (of_nat 0 + 1) example_ram = Some (e, s')"
  using ensure_dir_capacity_returns [of example_ram 2] by (auto simp: example_ram_def)

text \<open>Opening a file gives the lowest unused descriptor of the current table, at offset 0, and touches
  no other descriptor and no table of another process; closing it frees that descriptor again.\<close>

theorem ramfs_open_close:
  assumes "vfs_open ramfs_table base path flags s = Some (E_SUCCESS, fd, s')"
    and "length (get_current_fd_table s) = max_fds"
  shows "fd < max_fds \<and> \<not> fd_used (get_current_fd_table s ! fd) \<and> (\<forall>i < fd. fd_used (get_current_fd_table s ! i))
    \<and> (\<exists>v. get_current_fd_table s' =
         (get_current_fd_table s)[fd := \<lparr>fd_vnode = v, fd_offset = 0, fd_flags = flags, fd_used = True\<rparr>])
    \<and> other_fds s' = other_fds s
    \<and> fst (vfs_close (int fd) s') = E_SUCCESS \<and> \<not> fd_ok (int fd) (snd (vfs_close (int fd) s'))
    \<and> (\<forall>i. i \<noteq> fd \<longrightarrow> get_current_fd_table (snd (vfs_close (int fd) s')) ! i = get_current_fd_table s ! i)"
proof -
  obtain v t where t: "same_tables s t" "install_fd v flags t = (E_SUCCESS, fd, s')"
    using ram.open_installs [OF assms(1)] by blast
  note inst = install_fd_Some [OF t(2)]
  let ?f = "\<lparr>fd_vnode = v, fd_offset = 0, fd_flags = flags, fd_used = True\<rparr>"
  have st: "get_current_fd_table s' = (get_current_fd_table s)[fd := ?f]" "other_fds s' = other_fds s"
    using inst t(1) by (simp_all add: same_tables_fds [OF same_tables_ref(1)] other_fds_same [OF same_tables_ref(1)])
  have fd: "fd < max_fds" "fd < length (get_current_fd_table s)" using inst t(1) assms(2) by simp_all
  then have ok: "fd_ok (int fd) s'" by (simp add: fd_ok_def st(1))
  then have "get_current_fd_table (snd (vfs_close (int fd) s')) =
      (get_current_fd_table s)[fd := ?f\<lparr>fd_used := False\<rparr>]"
    using fd by (simp add: vfs_close_def Let_def st(1) same_tables_fds [OF same_tables_ref(2)])
  then show ?thesis using inst t(1) fd ok st by (auto simp: vfs_close_def Let_def fd_ok_def)
qed

theorem ramfs_open_close_witness:
  "\<exists>s'. vfs_open ramfs_table 1 (Some ''/'') O_RDONLY example_ram = Some (E_SUCCESS, 0, s')
     \<and> fst (vfs_close 0 s') = E_SUCCESS"
proof -
  have "\<exists>s'. vfs_open ramfs_table 1 (Some ''/'') O_RDONLY example_ram = Some (E_SUCCESS, 0, s')"
    by (simp add: vfs_open_def resolve_def is_slash_def example_ram_def install_fd_def find_free_fd_def
        get_current_fd_table_def error_codes numeral_eq_Suc)
  then obtain s' where s': "vfs_open ramfs_table 1 (Some ''/'') O_RDONLY example_ram = Some (E_SUCCESS, 0, s')"
    by blast
  with ramfs_open_close [OF s'] show ?thesis
    by (auto simp: example_ram_def get_current_fd_table_def max_fds_def)
qed

end
