(* ===== verification/Tori_Overlayfs.thy ===== *)
theory Tori_Overlayfs
  imports Tori_Ramfs_Props
begin

text \<open>
  The overlay file system (\<open>kernel/src/fs/overlayfs.cpp\<close>) over the layers it is given.  The state
  adds the layers and the \<open>OverlayVnode\<close>s to the one of the memory file system, whose \<open>kalloc\<close> it
  shares; the operations of the layers are reached through the table \<open>tab\<close>.  As elsewhere
  \<open>None\<close> is undefined behaviour, or a loop that does not end.
\<close>

section \<open>State\<close>

definition WHITEOUT_PREFIX :: string where "WHITEOUT_PREFIX = ''.wh.''"
definition MAX_LAYERS :: nat where "MAX_LAYERS = 8"

record MergedEntry =
  merged_name :: string
  merged_type :: VnodeType

text \<open>\<open>merged\<close> is the used part of the array; \<open>merged_room\<close> is its size, 0 for a null pointer.\<close>

record OverlayVnode =
  layer_roots :: "vptr list"
  merged :: "MergedEntry list"
  merged_room :: nat
  cached :: bool

record Layer =
  layer_root :: vptr
  layer_writable :: bool

record overlay = ramfs +
  g_layers :: "Layer list"
  g_layer_count :: nat
  g_initialized :: bool
  overlay_vnodes :: "nat \<Rightarrow> OverlayVnode"

type_synonym 'a ovvfs = "'a overlay_scheme vfs"
type_synonym 'a ovtab = "'a overlay_scheme optab"

definition set_ovn :: "nat \<Rightarrow> OverlayVnode \<Rightarrow> 'a ovvfs \<Rightarrow> 'a ovvfs" where
  "set_ovn p o' = with_fs (\<lambda>f. f\<lparr>overlay_vnodes := (overlay_vnodes f)(p := o')\<rparr>)"

definition ovn_of :: "vptr \<Rightarrow> 'a ovvfs \<Rightarrow> OverlayVnode" where
  "ovn_of v s = overlay_vnodes (fs_data s) (private_data (vnodes s v))"

definition writable :: "nat \<Rightarrow> 'a ovvfs \<Rightarrow> bool" where
  "writable i s = layer_writable (g_layers (fs_data s) ! i)"

section \<open>Names\<close>

definition has_whiteout_prefix :: "string \<Rightarrow> bool" where
  "has_whiteout_prefix name = list_all (\<lambda>i. i < length name \<and> name ! i = WHITEOUT_PREFIX ! i) [0 ..< 4]"

definition make_whiteout_name :: "string \<Rightarrow> nat \<Rightarrow> string" where
  "make_whiteout_name name out_size = copy_upto (WHITEOUT_PREFIX @ name) (out_size - 1)"

fun name_eq :: "string \<Rightarrow> string \<Rightarrow> bool" where
  "name_eq (a # as) (b # bs) = (if a \<noteq> b then False else name_eq as bs)"
| "name_eq [] [] = True"
| "name_eq [] (b # bs) = False"
| "name_eq (a # as) [] = False"

section \<open>Allocation\<close>

definition alloc_overlay_vnode :: "'a ovvfs \<Rightarrow> nat \<times> 'a ovvfs" where
  "alloc_overlay_vnode s =
     (let (ovn, s) = kalloc s in
      if ovn = 0 then (0, s)
      else (ovn, set_ovn ovn \<lparr>layer_roots = replicate MAX_LAYERS 0, merged = [], merged_room = 0,
                                cached = False\<rparr> s))"

definition alloc_vnode :: "VnodeType \<Rightarrow> nat \<Rightarrow> 'a ovvfs \<Rightarrow> vptr \<times> 'a ovvfs" where
  "alloc_vnode type priv s =
     (let (vn, s) = kalloc s in
      if vn = 0 then (0, s)
      else (vn, set_vnode vn ((vnodes s vn)\<lparr>vnode_type := type, private_data := priv, ref_count := 0,
                  mount_parent := 0\<rparr>) s))"

text \<open>\<open>v->ops->lookup(v, name, &result)\<close>.\<close>

definition layer_lookup :: "'a ovtab \<Rightarrow> vptr \<Rightarrow> string \<Rightarrow> 'a ovvfs \<Rightarrow> (int \<times> vptr \<times> 'a ovvfs) option" where
  "layer_lookup tab v name s = do {
     x \<leftarrow> deref s v;
     op_lookup (tab (vnode_ops x)) v name s
   }"

text \<open>The loop over the layers \<open>us\<close> above one that looks for a whiteout.\<close>

primrec whiteout_in :: "'a ovtab \<Rightarrow> vptr list \<Rightarrow> string \<Rightarrow> nat list \<Rightarrow> 'a ovvfs \<Rightarrow> (bool \<times> 'a ovvfs) option" where
  "whiteout_in tab roots wh_name [] s = Some (False, s)"
| "whiteout_in tab roots wh_name (u # us) s =
     (if \<not> writable u s \<or> roots ! u = 0 then whiteout_in tab roots wh_name us s
      else do {
        (err, wh, s) \<leftarrow> layer_lookup tab (roots ! u) wh_name s;
        if err = 0 then Some (True, vnode_unref wh s) else whiteout_in tab roots wh_name us s
      })"

section \<open>Merged directories\<close>

partial_function (option) count_entries ::
  "'a ovtab \<Rightarrow> vptr \<Rightarrow> u64 \<Rightarrow> Dirent \<Rightarrow> nat \<Rightarrow> 'a ovvfs \<Rightarrow> (nat \<times> 'a ovvfs) option" where
  "count_entries tab v off d n s =
     Option.bind (deref s v) (\<lambda>x.
     Option.bind (op_readdir (tab (vnode_ops x))) (\<lambda>f.
     Option.bind (f v off d s) (\<lambda>(err, d, off, s).
       if err = 0 then count_entries tab v off d (Suc n) s else Some (n, s))))"

primrec count_layers ::
  "'a ovtab \<Rightarrow> vptr list \<Rightarrow> Dirent \<Rightarrow> nat list \<Rightarrow> nat \<Rightarrow> 'a ovvfs \<Rightarrow> (nat \<times> 'a ovvfs) option" where
  "count_layers tab roots d [] n s = Some (n, s)"
| "count_layers tab roots d (li # ls) n s =
     (if roots ! li = 0 then count_layers tab roots d ls n s
      else do {
        (n, s) \<leftarrow> count_entries tab (roots ! li) 0 d n s;
        count_layers tab roots d ls n s
      })"

text \<open>What the second loop does with one entry \<open>d\<close> of layer \<open>li\<close>; a store past the array is undefined.\<close>

definition merge_entry ::
  "'a ovtab \<Rightarrow> vptr list \<Rightarrow> nat \<Rightarrow> nat \<Rightarrow> Dirent \<Rightarrow> MergedEntry list \<Rightarrow> 'a ovvfs \<Rightarrow>
   (MergedEntry list \<times> 'a ovvfs) option" where
  "merge_entry tab roots room li d es s =
     (if has_whiteout_prefix (dirent_name d) then Some (es, s)
      else do {
        (whiteout, s) \<leftarrow> whiteout_in tab roots (make_whiteout_name (dirent_name d) 256) [0 ..< li] s;
        if whiteout then Some (es, s)
        else if list_ex (\<lambda>e. name_eq (merged_name e) (dirent_name d)) es then Some (es, s)
        else if length es \<ge> room then None
        else Some (es @ [\<lparr>merged_name = copy_string (dirent_name d) 256, merged_type = dirent_type d\<rparr>], s)
      })"

partial_function (option) merge_layer ::
  "'a ovtab \<Rightarrow> vptr list \<Rightarrow> nat \<Rightarrow> nat \<Rightarrow> u64 \<Rightarrow> Dirent \<Rightarrow> MergedEntry list \<Rightarrow> 'a ovvfs \<Rightarrow>
   (MergedEntry list \<times> 'a ovvfs) option" where
  "merge_layer tab roots room li off d es s =
     Option.bind (deref s (roots ! li)) (\<lambda>x.
     Option.bind (op_readdir (tab (vnode_ops x))) (\<lambda>f.
     Option.bind (f (roots ! li) off d s) (\<lambda>(err, d, off, s).
       if err = 0
       then Option.bind (merge_entry tab roots room li d es s) (\<lambda>(es, s).
              merge_layer tab roots room li off d es s)
       else Some (es, s))))"

primrec merge_layers ::
  "'a ovtab \<Rightarrow> vptr list \<Rightarrow> nat \<Rightarrow> Dirent \<Rightarrow> nat list \<Rightarrow> MergedEntry list \<Rightarrow> 'a ovvfs \<Rightarrow>
   (MergedEntry list \<times> 'a ovvfs) option" where
  "merge_layers tab roots room d [] es s = Some (es, s)"
| "merge_layers tab roots room d (li # ls) es s =
     (if roots ! li = 0 then merge_layers tab roots room d ls es s
      else do {
        (es, s) \<leftarrow> merge_layer tab roots room li 0 d es s;
        merge_layers tab roots room d ls es s
      })"

text \<open>\<open>d\<close> is the uninitialised local \<open>Dirent\<close>.\<close>

definition build_merged_list :: "'a ovtab \<Rightarrow> Dirent \<Rightarrow> nat \<Rightarrow> 'a ovvfs \<Rightarrow> 'a ovvfs option" where
  "build_merged_list tab d p s =
     (let ovn = overlay_vnodes (fs_data s) p; layers = [0 ..< g_layer_count (fs_data s)] in
      if cached ovn then Some s
      else do {
        (max_total, s) \<leftarrow> count_layers tab (layer_roots ovn) d layers 0 s;
        if max_total = 0 then Some (set_ovn p (ovn\<lparr>merged := [], merged_room := 0, cached := True\<rparr>) s)
        else
          (let (ptr, s) = kalloc s in
           if ptr = 0 then Some (set_ovn p (ovn\<lparr>merged := [], merged_room := 0, cached := True\<rparr>) s)
           else do {
             (es, s) \<leftarrow> merge_layers tab (layer_roots ovn) max_total d layers [] s;
             Some (set_ovn p (ovn\<lparr>merged := es, merged_room := max_total, cached := True\<rparr>) s)
           })
      })"

section \<open>Vnode operations\<close>

text \<open>The address of \<open>overlay_vnode_ops\<close> is 2.\<close>

definition overlay_ops_ptr :: nat where "overlay_ops_ptr = 2"

text \<open>The loop of \<open>overlay_lookup\<close>: whether the name was found, its type and the roots of the child.\<close>

primrec lookup_layers ::
  "'a ovtab \<Rightarrow> vptr list \<Rightarrow> string \<Rightarrow> string \<Rightarrow> nat list \<Rightarrow> bool \<times> VnodeType \<times> vptr list \<Rightarrow> 'a ovvfs \<Rightarrow>
   ((bool \<times> VnodeType \<times> vptr list) \<times> 'a ovvfs) option" where
  "lookup_layers tab parent name wh_name [] acc s = Some (acc, s)"
| "lookup_layers tab parent name wh_name (i # is) acc s =
     (if parent ! i = 0 then lookup_layers tab parent name wh_name is acc s
      else do {
        (whiteout, s) \<leftarrow> whiteout_in tab parent wh_name [0 ..< i] s;
        if whiteout then Some (acc, s)
        else do {
          (err, real, s) \<leftarrow> layer_lookup tab (parent ! i) name s;
          if err = 0 then do {
            rv \<leftarrow> deref s real;
            (case acc of (found, type, roots) \<Rightarrow>
              let type = (if \<not> found then vnode_type rv else type) in
              if type = File then Some ((True, type, roots[i := real]), s)
              else if vnode_type rv = Directory
              then lookup_layers tab parent name wh_name is (True, type, roots[i := real]) s
              else Some ((True, type, roots), vnode_unref real s))
          }
          else lookup_layers tab parent name wh_name is acc s
        }
      })"

definition overlay_lookup :: "'a ovtab \<Rightarrow> vptr \<Rightarrow> string \<Rightarrow> 'a ovvfs \<Rightarrow> (int \<times> vptr \<times> 'a ovvfs) option" where
  "overlay_lookup tab dir name s =
     (let parent = layer_roots (ovn_of dir s); (child, s) = alloc_overlay_vnode s in
      if child = 0 then Some (E_NO_SPACE, 0, s)
      else do {
        ((found, type, roots), s) \<leftarrow> lookup_layers tab parent name (make_whiteout_name name 256)
          [0 ..< g_layer_count (fs_data s)] (False, File, replicate MAX_LAYERS 0) s;
        if \<not> found then Some (E_NOT_FOUND, 0, kfree child s)
        else
          (let s = set_ovn child ((overlay_vnodes (fs_data s) child)\<lparr>layer_roots := roots\<rparr>) s;
               (vn, s) = alloc_vnode type child s in
           if vn = 0
           then Some (E_NO_SPACE, 0, kfree child
                  (fold (\<lambda>i s. if roots ! i \<noteq> 0 then vnode_unref (roots ! i) s else s)
                     [0 ..< g_layer_count (fs_data s)] s))
           else Some (0, vn, set_vnode vn ((vnodes s vn)\<lparr>vnode_ops := overlay_ops_ptr\<rparr>) s))
      })"

text \<open>The first layer that is writable and has the directory, or the first that has it.\<close>

definition writable_layer :: "OverlayVnode \<Rightarrow> 'a ovvfs \<Rightarrow> nat option" where
  "writable_layer ovn s =
     find (\<lambda>i. \<not> (\<not> writable i s \<or> layer_roots ovn ! i = 0)) [0 ..< g_layer_count (fs_data s)]"

definition first_layer :: "OverlayVnode \<Rightarrow> 'a ovvfs \<Rightarrow> nat option" where
  "first_layer ovn s = find (\<lambda>i. layer_roots ovn ! i \<noteq> 0) [0 ..< g_layer_count (fs_data s)]"

definition overlay_create :: "'a ovtab \<Rightarrow> vptr \<Rightarrow> string \<Rightarrow> 'a ovvfs \<Rightarrow> (int \<times> vptr \<times> 'a ovvfs) option" where
  "overlay_create tab dir name s =
     (let ovn = ovn_of dir s in
      case writable_layer ovn s of
        None \<Rightarrow> Some (E_IO, 0, s)
      | Some i \<Rightarrow> do {
          x \<leftarrow> deref s (layer_roots ovn ! i);
          (err, real, s) \<leftarrow> op_create (tab (vnode_ops x)) (layer_roots ovn ! i) name s;
          if err < 0 then Some (err, 0, s)
          else
            (let (child, s) = alloc_overlay_vnode s in
             if child = 0 then Some (E_NO_SPACE, 0, vnode_unref real s)
             else
               (let s = set_ovn child ((overlay_vnodes (fs_data s) child)\<lparr>layer_roots :=
                          (layer_roots (overlay_vnodes (fs_data s) child))[i := real]\<rparr>) s in do {
                  rv \<leftarrow> deref s real;
                  (let (vn, s) = alloc_vnode (vnode_type rv) child s in
                   if vn = 0 then Some (E_NO_SPACE, 0, kfree child (vnode_unref real s))
                   else Some (0, vn, set_vnode vn ((vnodes s vn)\<lparr>vnode_ops := overlay_ops_ptr\<rparr>) s))
                }))
        })"

definition overlay_mkdir :: "'a ovtab \<Rightarrow> vptr \<Rightarrow> string \<Rightarrow> 'a ovvfs \<Rightarrow> (int \<times> 'a ovvfs) option" where
  "overlay_mkdir tab dir name s =
     (let ovn = ovn_of dir s in
      case writable_layer ovn s of
        None \<Rightarrow> Some (E_IO, s)
      | Some i \<Rightarrow> do {
          x \<leftarrow> deref s (layer_roots ovn ! i);
          f \<leftarrow> op_mkdir (tab (vnode_ops x));
          f (layer_roots ovn ! i) name s
        })"

definition overlay_rmdir :: "'a ovtab \<Rightarrow> vptr \<Rightarrow> string \<Rightarrow> 'a ovvfs \<Rightarrow> (int \<times> 'a ovvfs) option" where
  "overlay_rmdir tab dir name s =
     (let ovn = ovn_of dir s in
      case writable_layer ovn s of
        None \<Rightarrow> Some (E_NOT_FOUND, s)
      | Some i \<Rightarrow> do {
          (err, real, s) \<leftarrow> layer_lookup tab (layer_roots ovn ! i) name s;
          if err = 0 then
            (let s = vnode_unref real s in do {
               x \<leftarrow> deref s (layer_roots ovn ! i);
               op_rmdir (tab (vnode_ops x)) (layer_roots ovn ! i) name s
             })
          else Some (E_NOT_FOUND, s)
        })"

text \<open>The inner loop of \<open>overlay_unlink\<close>: a whiteout in the first writable layer of \<open>js\<close>.\<close>

primrec make_whiteout :: "'a ovtab \<Rightarrow> vptr list \<Rightarrow> string \<Rightarrow> nat list \<Rightarrow> 'a ovvfs \<Rightarrow> (int \<times> 'a ovvfs) option" where
  "make_whiteout tab roots wh_name [] s = Some (E_IO, s)"
| "make_whiteout tab roots wh_name (j # js) s =
     (if \<not> writable j s \<or> roots ! j = 0 then make_whiteout tab roots wh_name js s
      else do {
        (err, wh, s) \<leftarrow> layer_lookup tab (roots ! j) wh_name s;
        if err = 0 then Some (E_EXISTS, vnode_unref wh s)
        else do {
          x \<leftarrow> deref s (roots ! j);
          (err, wh_vnode, s) \<leftarrow> op_create (tab (vnode_ops x)) (roots ! j) wh_name s;
          Some (err, s)
        }
      })"

primrec unlink_layers :: "'a ovtab \<Rightarrow> vptr list \<Rightarrow> string \<Rightarrow> nat list \<Rightarrow> 'a ovvfs \<Rightarrow> (int \<times> 'a ovvfs) option" where
  "unlink_layers tab roots name [] s = Some (E_NOT_FOUND, s)"
| "unlink_layers tab roots name (i # is) s =
     (if roots ! i = 0 then unlink_layers tab roots name is s
      else do {
        (err, real, s) \<leftarrow> layer_lookup tab (roots ! i) name s;
        if err \<noteq> 0 then unlink_layers tab roots name is s
        else if writable i s then
          (let s = vnode_unref real s in do {
             x \<leftarrow> deref s (roots ! i);
             op_unlink (tab (vnode_ops x)) (roots ! i) name s
           })
        else make_whiteout tab roots (make_whiteout_name name 256) [0 ..< i] (vnode_unref real s)
      })"

definition overlay_unlink :: "'a ovtab \<Rightarrow> vptr \<Rightarrow> string \<Rightarrow> 'a ovvfs \<Rightarrow> (int \<times> 'a ovvfs) option" where
  "overlay_unlink tab dir name s =
     unlink_layers tab (layer_roots (ovn_of dir s)) name [0 ..< g_layer_count (fs_data s)] s"

definition overlay_read ::
  "'a ovtab \<Rightarrow> vptr \<Rightarrow> u64 \<Rightarrow> memory \<Rightarrow> u64 \<Rightarrow> 'a ovvfs \<Rightarrow> (int \<times> u64 \<times> memory \<times> 'a ovvfs) option" where
  "overlay_read tab node offset buf count s =
     (let ovn = ovn_of node s in
      case first_layer ovn s of
        None \<Rightarrow> Some (E_INVALID, 0, buf, s)
      | Some i \<Rightarrow> do {
          x \<leftarrow> deref s (layer_roots ovn ! i);
          (case op_read (tab (vnode_ops x)) of
             None \<Rightarrow> Some (E_INVALID, 0, buf, s)
           | Some f \<Rightarrow> f (layer_roots ovn ! i) offset buf count s)
        })"

definition overlay_write ::
  "'a ovtab \<Rightarrow> vptr \<Rightarrow> u64 \<Rightarrow> memory \<Rightarrow> u64 \<Rightarrow> 'a ovvfs \<Rightarrow> (int \<times> u64 \<times> 'a ovvfs) option" where
  "overlay_write tab node offset buf count s =
     (let ovn = ovn_of node s in
      case first_layer ovn s of
        None \<Rightarrow> Some (E_INVALID, 0, s)
      | Some i \<Rightarrow> do {
          x \<leftarrow> deref s (layer_roots ovn ! i);
          (case op_write (tab (vnode_ops x)) of
             None \<Rightarrow> Some (E_INVALID, 0, s)
           | Some f \<Rightarrow> f (layer_roots ovn ! i) offset buf count s)
        })"

definition overlay_readdir ::
  "'a ovtab \<Rightarrow> Dirent \<Rightarrow> vptr \<Rightarrow> u64 \<Rightarrow> Dirent \<Rightarrow> 'a ovvfs \<Rightarrow> (int \<times> Dirent \<times> u64 \<times> 'a ovvfs) option" where
  "overlay_readdir tab d dir offset entry s =
     (let p = private_data (vnodes s dir) in do {
        s \<leftarrow> (if \<not> cached (overlay_vnodes (fs_data s) p) then build_merged_list tab d p s else Some s);
        (let ovn = overlay_vnodes (fs_data s) p in
         if unat offset \<ge> length (merged ovn) then Some (E_NOT_FOUND, entry, offset, s)
         else Some (0, \<lparr>dirent_name = copy_string (merged_name (merged ovn ! unat offset)) 256,
                        dirent_type = merged_type (merged ovn ! unat offset)\<rparr>, offset + 1, s))
      })"

definition overlay_stat :: "'a ovtab \<Rightarrow> vptr \<Rightarrow> Stat \<Rightarrow> 'a ovvfs \<Rightarrow> (int \<times> Stat) option" where
  "overlay_stat tab node st s =
     (let ovn = ovn_of node s in
      case first_layer ovn s of
        None \<Rightarrow> Some (E_INVALID, st)
      | Some i \<Rightarrow> do {
          x \<leftarrow> deref s (layer_roots ovn ! i);
          (case op_stat (tab (vnode_ops x)) of
             None \<Rightarrow> Some (E_INVALID, st)
           | Some f \<Rightarrow> f (layer_roots ovn ! i) st s)
        })"

definition overlay_vnode_ops :: "'a ovtab \<Rightarrow> Dirent \<Rightarrow> 'a overlay_scheme VnodeOps" where
  "overlay_vnode_ops tab d = \<lparr>op_lookup = overlay_lookup tab, op_create = overlay_create tab,
     op_mkdir = Some (overlay_mkdir tab), op_rmdir = overlay_rmdir tab, op_unlink = overlay_unlink tab,
     op_read = Some (overlay_read tab), op_write = Some (overlay_write tab),
     op_readdir = Some (overlay_readdir tab d), op_stat = Some (overlay_stat tab)\<rparr>"

section \<open>Mounting\<close>

definition overlay_mount :: "'a ovvfs \<Rightarrow> (int \<times> vptr \<times> 'a ovvfs) option" where
  "overlay_mount s =
     (if \<not> g_initialized (fs_data s) \<or> g_layer_count (fs_data s) = 0 then Some (E_INVALID, 0, s)
      else
        (let (ovn, s) = alloc_overlay_vnode s in
         if ovn = 0 then Some (E_NO_SPACE, 0, s)
         else
           (let layers = [0 ..< g_layer_count (fs_data s)];
                s = fold (\<lambda>i s. let r = layer_root (g_layers (fs_data s) ! i);
                                    o' = overlay_vnodes (fs_data s) ovn in
                            vnode_ref r (set_ovn ovn (o'\<lparr>layer_roots := (layer_roots o')[i := r]\<rparr>) s)) layers s;
                (root, s) = alloc_vnode Directory ovn s in
            if root = 0
            then Some (E_NO_SPACE, 0, kfree ovn
                   (fold (\<lambda>i s. vnode_unref (layer_roots (overlay_vnodes (fs_data s) ovn) ! i) s) layers s))
            else Some (0, root, set_vnode root ((vnodes s root)\<lparr>vnode_ops := overlay_ops_ptr\<rparr>) s))))"

definition overlay_unmount :: "vptr \<Rightarrow> 'a ovvfs \<Rightarrow> (int \<times> 'a ovvfs) option" where
  "overlay_unmount root s =
     (let p = private_data (vnodes s root);
          s = (if p \<noteq> 0
               then kfree p (fold (\<lambda>i s. let r = layer_roots (overlay_vnodes (fs_data s) p) ! i in
                                     if r \<noteq> 0 then vnode_unref r s else s)
                               [0 ..< g_layer_count (fs_data s)] s)
               else s) in
      Some (0, kfree root s))"

definition overlay_init :: "Layer list \<Rightarrow> nat \<Rightarrow> 'a ovvfs \<Rightarrow> int \<times> 'a ovvfs" where
  "overlay_init layers count s =
     (if count = 0 \<or> count > MAX_LAYERS then (- 1, s)
      else (0, with_fs (\<lambda>f. f\<lparr>g_layers := fold (\<lambda>i ls. ls[i := layers ! i]) [0 ..< count] (g_layers f),
                 g_layer_count := count, g_initialized := True\<rparr>) s))"

definition overlay_shutdown :: "'a ovvfs \<Rightarrow> 'a ovvfs" where
  "overlay_shutdown = with_fs (\<lambda>f. f\<lparr>g_initialized := False, g_layer_count := 0\<rparr>)"

definition overlay_fs_ops :: "'a overlay_scheme FilesystemOps" where
  "overlay_fs_ops = \<lparr>fs_mount = overlay_mount, fs_unmount = overlay_unmount\<rparr>"

end
