(* ===== verification/Tori_Overlay_Props.thy ===== *)
theory Tori_Overlay_Props
  imports Tori_Overlayfs
begin

text \<open>
  The overlay over memory file systems: how the boot code of \<open>kernel/src/kernel/main.cpp\<close> sets up the
  root, and what removing a file of a read-only layer does.
\<close>

section \<open>The root file system at boot\<close>

text \<open>The tables of operations in the kernel: those of the overlay at its address, else the memory
  file system's.\<close>

definition kernel_table :: "Dirent \<Rightarrow> 'a ovtab" where
  "kernel_table d = (\<lambda>k. if k = overlay_ops_ptr then overlay_vnode_ops ramfs_table d else ramfs_vnode_ops)"

text \<open>The part of \<open>kernel_main\<close> that mounts the root; \<open>populate\<close> is the loop over the boot modules that
  fills the lower layer, and a panic has no result.\<close>

definition boot_root :: "(vptr \<Rightarrow> 'a ovvfs \<Rightarrow> 'a ovvfs) \<Rightarrow> 'a ovvfs \<Rightarrow> (vptr \<times> 'a ovvfs) option" where
  "boot_root populate s = do {
     (err, lower, s) \<leftarrow> vfs_mount (Some ramfs_fs_ops) 0 (vfs_init s);
     if err < 0 then None
     else
       (let lower_root = (case lower of None \<Rightarrow> 0 | Some r \<Rightarrow> r); s = populate lower_root s in do {
          (err, upper, s) \<leftarrow> vfs_mount (Some ramfs_fs_ops) 0 s;
          if err < 0 \<and> err \<noteq> E_EXISTS then None
          else
            (let upper_root = (case upper of None \<Rightarrow> 0 | Some r \<Rightarrow> r);
                 layers = [\<lparr>layer_root = lower_root, layer_writable = False\<rparr>,
                           \<lparr>layer_root = upper_root, layer_writable = True\<rparr>];
                 (err, s) = overlay_init layers 2 s in
             if err < 0 then None
             else do {
               (err, overlay_root, s) \<leftarrow> overlay_mount s;
               if err < 0 \<or> overlay_root = 0 then None
               else
                 (let (err, s) = vfs_set_root overlay_root s in
                  if err < 0 then None else Some (overlay_root, s))
             })
        })
   }"

named_theorems ram_more \<open>operations that keep what extends the state of the memory file system\<close>

lemma more_simple [ram_more]:
  "ramfs.more (fs_data (set_vnode v n s)) = ramfs.more (fs_data s)"
  "ramfs.more (fs_data (set_dir d r s)) = ramfs.more (fs_data s)"
  "ramfs.more (fs_data (set_file d q s)) = ramfs.more (fs_data s)"
  "ramfs.more (fs_data (kfree p s)) = ramfs.more (fs_data s)"
  "ramfs.more (fs_data (vnode_ref v s)) = ramfs.more (fs_data s)"
  "ramfs.more (fs_data (vnode_unref v s)) = ramfs.more (fs_data s)"
  "ramfs.more (fs_data (snd (kalloc s))) = ramfs.more (fs_data s)"
  by (simp_all add: set_vnode_def set_dir_def set_file_def kfree_def vnode_ref_def vnode_unref_def kalloc_def
      with_fs_def Let_def)

lemma more_alloc [ram_more]:
  "ramfs.more (fs_data (snd (alloc_dir s))) = ramfs.more (fs_data s)"
  "ramfs.more (fs_data (snd (alloc_file s))) = ramfs.more (fs_data s)"
  "ramfs.more (fs_data (snd (create_vnode y s))) = ramfs.more (fs_data s)"
  by (simp_all add: alloc_dir_def alloc_file_def create_vnode_def Let_def case_prod_beta ram_more)

lemma ramfs_mount_cases:
  assumes "ramfs_mount s = Some (e, r, t)"
  shows "same_tables s t" "ramfs.more (fs_data t) = ramfs.more (fs_data s)"
    "e = 0 \<and> r \<noteq> 0 \<or> e = E_NO_SPACE"
  using assms unfolding ramfs_mount_def Let_def case_prod_beta
  by (auto simp: ram_tables ram_more split: if_split_asm)

lemma ramfs_unmount_frame:
  assumes "ramfs_unmount r s = Some (e, t)"
  shows "same_tables s t" "ramfs.more (fs_data t) = ramfs.more (fs_data s)"
  using assms by (auto simp: ramfs_unmount_def Let_def ram_tables ram_more)

text \<open>A second root mount fails and stores no root.\<close>

lemma vfs_mount_root:
  assumes "vfs_mount (Some ramfs_fs_ops) 0 s = Some (e, r, t)" "initialized s"
  shows "root_vnode s \<noteq> 0 \<Longrightarrow> \<not> (e < 0 \<and> e \<noteq> E_EXISTS) \<Longrightarrow> e = E_EXISTS \<and> r = None \<and> root_vnode t = root_vnode s"
    and "root_vnode s = 0 \<Longrightarrow> \<not> e < 0 \<Longrightarrow> root_vnode t \<noteq> 0 \<and> r = Some (root_vnode t)"
    and "initialized t" and "ramfs.more (fs_data t) = ramfs.more (fs_data s)"
proof -
  obtain e1 r1 s1 where m: "ramfs_mount s = Some (e1, r1, s1)"
    using assms by (auto simp: vfs_mount_def ramfs_fs_ops_def bind_eq_Some_conv)
  note c = ramfs_mount_cases [OF m]
  have u: "same_tables s1 t1 \<and> ramfs.more (fs_data t1) = ramfs.more (fs_data s1)"
    if "ramfs_unmount r1 s1 = Some (e2, t1)" for e2 t1 using ramfs_unmount_frame [OF that] by simp
  show "e = E_EXISTS \<and> r = None \<and> root_vnode t = root_vnode s" if "root_vnode s \<noteq> 0" "\<not> (e < 0 \<and> e \<noteq> E_EXISTS)"
    using assms m c that by (auto simp: vfs_mount_def ramfs_fs_ops_def bind_eq_Some_conv error_codes
        same_tables_def split: if_splits dest!: u)
  show "root_vnode t \<noteq> 0 \<and> r = Some (root_vnode t)" if "root_vnode s = 0" "\<not> e < 0"
    using assms m c that by (auto simp: vfs_mount_def ramfs_fs_ops_def bind_eq_Some_conv error_codes
        same_tables_def split: if_splits)
  show "initialized t" "ramfs.more (fs_data t) = ramfs.more (fs_data s)"
    using assms m c by (auto simp: vfs_mount_def ramfs_fs_ops_def bind_eq_Some_conv error_codes
        same_tables_def split: if_splits dest!: u)
qed

lemma overlay_fields_more:
  fixes f g :: "'a overlay_scheme"
  assumes "ramfs.more f = ramfs.more g"
  shows "g_layers f = g_layers g" "g_layer_count f = g_layer_count g" "overlay_vnodes f = overlay_vnodes g"
  using assms by (cases f; cases g; simp)+

text \<open>What the two allocations of a mount leave behind.\<close>

lemma vnodes_set_vnode: "vnodes (set_vnode v n s) v = n"
  by (simp add: set_vnode_def)

lemma set_ovn_effect:
  "overlay_vnodes (fs_data (set_ovn p o' s)) p = o'" "g_layers (fs_data (set_ovn p o' s)) = g_layers (fs_data s)"
  "g_layer_count (fs_data (set_ovn p o' s)) = g_layer_count (fs_data s)" "same_tables t (set_ovn p o' s) = same_tables t s"
  by (simp_all add: set_ovn_def with_fs_def same_tables_def)

lemma alloc_overlay_vnode_effect:
  assumes "fst (alloc_overlay_vnode s) \<noteq> 0"
  defines "t \<equiv> snd (alloc_overlay_vnode s)"
  shows "layer_roots (overlay_vnodes (fs_data t) (fst (alloc_overlay_vnode s))) = replicate MAX_LAYERS 0"
    "g_layers (fs_data t) = g_layers (fs_data s)" "g_layer_count (fs_data t) = g_layer_count (fs_data s)"
    "same_tables s t"
  using assms(1) overlay_fields_more [OF more_simple(7) [of s]]
  unfolding t_def alloc_overlay_vnode_def Let_def case_prod_beta
  by (cases "fst (kalloc s) = 0"; simp add: set_ovn_effect ram_tables)+

lemma alloc_vnode_effect:
  assumes "fst (alloc_vnode y q s) \<noteq> 0"
  defines "t \<equiv> snd (alloc_vnode y q s)" and "v \<equiv> fst (alloc_vnode y q s)"
  shows "vnode_type (vnodes t v) = y" "private_data (vnodes t v) = q" "same_tables s t"
    "ramfs.more (fs_data t) = ramfs.more (fs_data s)"
  using assms(1) unfolding t_def v_def alloc_vnode_def Let_def case_prod_beta
  by (cases "fst (kalloc s) = 0"; simp add: vnodes_set_vnode ram_tables ram_more)+

definition attach_layer :: "nat \<Rightarrow> nat \<Rightarrow> 'a ovvfs \<Rightarrow> 'a ovvfs" where
  "attach_layer ovn i s = (let r = layer_root (g_layers (fs_data s) ! i); o' = overlay_vnodes (fs_data s) ovn in
     vnode_ref r (set_ovn ovn (o'\<lparr>layer_roots := (layer_roots o')[i := r]\<rparr>) s))"

lemma attach_layer_effect:
  "layer_roots (overlay_vnodes (fs_data (attach_layer p i s)) p) =
     (layer_roots (overlay_vnodes (fs_data s) p))[i := layer_root (g_layers (fs_data s) ! i)]"
  "g_layers (fs_data (attach_layer p i s)) = g_layers (fs_data s)"
  "g_layer_count (fs_data (attach_layer p i s)) = g_layer_count (fs_data s)"
  "initialized (attach_layer p i s) = initialized s"
  by (simp_all add: attach_layer_def Let_def set_ovn_def with_fs_def vnode_ref_def)

text \<open>An overlay whose only writable layer is null.\<close>

lemma overlay_mount_null_upper:
  assumes m: "overlay_mount s = Some (e, root, t)" and ok: "\<not> (e < 0 \<or> root = 0)"
    and l: "g_layer_count (fs_data s) = 2" "layer_writable (g_layers (fs_data s) ! 0) = False"
      "layer_root (g_layers (fs_data s) ! 1) = 0"
  shows "writable_layer (ovn_of root t) t = None" "vnode_type (vnodes t root) = Directory"
    "vnode_ops (vnodes t root) = overlay_ops_ptr" "root \<noteq> 0" "initialized t = initialized s"
proof -
  have two: "[0 ..< 2] = [0, 1 :: nat]" by (simp add: upt_rec)
  define q where "q = fst (alloc_overlay_vnode s)"
  define s1 where "s1 = snd (alloc_overlay_vnode s)"
  define s2 where "s2 = attach_layer q (Suc 0) (attach_layer q 0 s1)"
  define s3 where "s3 = snd (alloc_vnode Directory q s2)"
  have q: "q \<noteq> 0" using m ok
    by (auto simp: overlay_mount_def Let_def case_prod_beta q_def split: if_split_asm)
  note e1 = alloc_overlay_vnode_effect [of s, folded q_def s1_def, OF q]
  have "Some (e, root, t) = (if fst (alloc_vnode Directory q s2) = 0
      then Some (E_NO_SPACE, 0, kfree q (fold (\<lambda>i s. vnode_unref (layer_roots (overlay_vnodes (fs_data s) q) ! i) s)
        [0, 1] s3))
      else Some (0, fst (alloc_vnode Directory q s2), set_vnode (fst (alloc_vnode Directory q s2))
        ((vnodes s3 (fst (alloc_vnode Directory q s2)))\<lparr>vnode_ops := overlay_ops_ptr\<rparr>) s3))"
    using m ok q e1(3) l(1)
    by (auto simp: overlay_mount_def Let_def case_prod_beta q_def [symmetric] s1_def [symmetric] two
        attach_layer_def [unfolded Let_def, symmetric] s2_def [symmetric] s3_def [symmetric]
        simp del: upt_Suc split: if_split_asm)
  then have r: "root = fst (alloc_vnode Directory q s2)" "root \<noteq> 0"
    "t = set_vnode root ((vnodes s3 root)\<lparr>vnode_ops := overlay_ops_ptr\<rparr>) s3"
    using ok by (auto split: if_split_asm)
  note e3 = alloc_vnode_effect [of Directory q s2, folded s3_def, folded r(1), OF r(2)]
  note f3 = overlay_fields_more [OF e3(4)]
  have t: "vnodes t root = (vnodes s3 root)\<lparr>vnode_ops := overlay_ops_ptr\<rparr>" "fs_data t = fs_data s3"
    "initialized t = initialized s3" by (simp_all add: r(3) set_vnode_def)
  show "vnode_type (vnodes t root) = Directory" "vnode_ops (vnodes t root) = overlay_ops_ptr" "root \<noteq> 0"
    using t e3(1) r(2) by simp_all
  show "initialized t = initialized s"
    using t(3) e3(3) e1(4) by (simp add: same_tables_def s2_def attach_layer_effect)
  have "layer_roots (ovn_of root t) ! 1 = 0"
    by (simp add: ovn_of_def t e3(2) f3(3) s2_def attach_layer_effect e1 l(3) [unfolded One_nat_def] MAX_LAYERS_def)
  moreover have "g_layers (fs_data t) = g_layers (fs_data s)" "g_layer_count (fs_data t) = 2"
    by (simp_all add: t f3 s2_def attach_layer_effect e1 l)
  ultimately show "writable_layer (ovn_of root t) t = None"
    using l(2) by (simp add: writable_layer_def writable_def two)
qed

text \<open>The root file system the kernel boots with cannot be changed: its upper layer is null, because
  the second root mount fails with \<open>E_EXISTS\<close> and stores no root, so creating a file or a directory
  in it always reports an I/O error, whatever was loaded into the lower layer.\<close>

theorem boot_root_read_only:
  fixes s :: "'a ovvfs"
  assumes "boot_root populate s = Some (root, t)" and "length (g_layers (fs_data s)) = MAX_LAYERS"
    and "\<forall>v s. same_tables s (populate v s) \<and> ramfs.more (fs_data (populate v s)) = ramfs.more (fs_data s)"
    and "\<not> list_ex is_slash name" and "name \<noteq> []"
  shows "overlay_create ramfs_table root name t = Some (E_IO, 0, t)
    \<and> vfs_mkdir (kernel_table d) root (Some name) t = Some (E_IO, t)"
proof -
  obtain e1 lower s1 where m1: "vfs_mount (Some ramfs_fs_ops) 0 (vfs_init s) = Some (e1, lower, s1)" "\<not> e1 < 0"
    and b: "boot_root populate s = Some (root, t)"
    using assms(1) by (auto simp: boot_root_def bind_eq_Some_conv split: if_splits)
  note r1 = vfs_mount_root [OF m1(1)]
  have i1: "initialized (vfs_init s)" "root_vnode (vfs_init s) = 0" "fs_data (vfs_init s) = fs_data s"
    by (simp_all add: vfs_init_def)
  define lr where "lr = (case lower of None \<Rightarrow> 0 | Some r \<Rightarrow> r)"
  define p where "p = populate lr s1"
  have p: "same_tables s1 p" "ramfs.more (fs_data p) = ramfs.more (fs_data s1)"
    using assms(3) by (simp_all add: p_def)
  have ip: "initialized p" "root_vnode p \<noteq> 0" "ramfs.more (fs_data p) = ramfs.more (fs_data s)"
    using p r1 i1 m1(2) by (auto simp: same_tables_def)
  obtain e2 upper s2 where m2: "vfs_mount (Some ramfs_fs_ops) 0 p = Some (e2, upper, s2)" "\<not> (e2 < 0 \<and> e2 \<noteq> E_EXISTS)"
    using b m1 by (auto simp: boot_root_def bind_eq_Some_conv Let_def lr_def p_def split: if_splits)
  note r2 = vfs_mount_root [OF m2(1) ip(1)]
  have up: "upper = None" "initialized s2" "g_layers (fs_data s2) = g_layers (fs_data s)"
    using r2 ip m2(2) overlay_fields_more(1) [of "fs_data s2" "fs_data s"] by auto
  define s3 where "s3 = snd (overlay_init [\<lparr>layer_root = lr, layer_writable = False\<rparr>,
      \<lparr>layer_root = 0, layer_writable = True\<rparr>] 2 s2)"
  obtain e4 s4 where m4: "overlay_mount s3 = Some (e4, root, s4)" "\<not> (e4 < 0 \<or> root = 0)"
    and t: "t = s4\<lparr>root_vnode := root\<rparr>"
    using b m1 m2 up(1)
    by (auto simp: boot_root_def bind_eq_Some_conv Let_def lr_def p_def s3_def case_prod_beta vfs_set_root_def
        error_codes split: if_splits)
  have s3: "g_layer_count (fs_data s3) = 2" "layer_writable (g_layers (fs_data s3) ! 0) = False"
      "layer_root (g_layers (fs_data s3) ! 1) = 0" "initialized s3"
    using up assms(2) by (auto simp: s3_def overlay_init_def with_fs_def MAX_LAYERS_def upt_rec)
  note ov = overlay_mount_null_upper [OF m4 s3(1-3)]
  have "writable_layer (ovn_of root t) t = None" using ov(1)
    by (simp add: t writable_layer_def ovn_of_def writable_def)
  moreover have "split_last name = None" using assms(4) by (simp add: split_last_def)
  moreover have "\<not> is_slash (hd name)" using assms(4,5) by (cases name) auto
  ultimately show ?thesis using ov s3(4)
    by (simp add: Let_def overlay_create_def overlay_mkdir_def vfs_mkdir_def mkdir_parent_def deref_def t kernel_table_def
        overlay_vnode_ops_def error_codes)
qed

text \<open>A kernel before it mounts its root.\<close>

definition blank_kernel :: "overlay vfs" where
  "blank_kernel = \<lparr>vnodes = (\<lambda>_. \<lparr>vnode_type = File, vnode_ops = 0, private_data = 0, ref_count = 0, mount_parent = 0\<rparr>),
     mount_table = replicate 16 \<lparr>mount_point = 0, mounted_root = 0, mount_used = False\<rparr>,
     kernel_fd_table = replicate 256 \<lparr>fd_vnode = 0, fd_offset = 0, fd_flags = 0, fd_used = False\<rparr>,
     process_fd_table = (\<lambda>_. []), current_process = None, root_vnode = 0, initialized = False,
     fs_data = \<lparr>kalloc_next = 1, kalloc_ok = (\<lambda>_. True), live = (\<lambda>_. False), stale = False,
       ram_dirs = (\<lambda>_. \<lparr>dir_entries = [], dir_capacity = 0\<rparr>),
       ram_files = (\<lambda>_. \<lparr>file_pages = [], file_size = 0\<rparr>),
       frames = (\<lambda>_ _. 0), page_allocator = example_pmm,
       g_layers = replicate 8 \<lparr>layer_root = 0, layer_writable = False\<rparr>, g_layer_count = 0, g_initialized = False,
       overlay_vnodes = (\<lambda>_. \<lparr>layer_roots = [], merged = [], merged_room = 0, cached = False\<rparr>)\<rparr>\<rparr>"

lemma blank_kernel_boots: "\<exists>r t. boot_root (\<lambda>_ s. s) blank_kernel = Some (r, t)"
  by (simp add: boot_root_def blank_kernel_def vfs_init_def vfs_mount_def ramfs_fs_ops_def ramfs_mount_def
      create_vnode_def alloc_dir_def kalloc_def with_fs_def set_vnode_def set_dir_def ramfs_unmount_def kfree_def
      dir_of_def overlay_init_def overlay_mount_def alloc_overlay_vnode_def alloc_vnode_def set_ovn_def vnode_ref_def
      vfs_set_root_def MAX_LAYERS_def error_codes Let_def upt_rec)

theorem boot_root_read_only_witness:
  "\<exists>r t. boot_root (\<lambda>_ s. s) blank_kernel = Some (r, t)
     \<and> overlay_create ramfs_table r ''a'' t = Some (E_IO, 0, t)"
proof -
  obtain r t where t: "boot_root (\<lambda>_ s. s) blank_kernel = Some (r, t)" using blank_kernel_boots by blast
  have "overlay_create ramfs_table r ''a'' t = Some (E_IO, 0, t) \<and>
      vfs_mkdir (kernel_table undefined) r (Some ''a'') t = Some (E_IO, t)"
    by (rule boot_root_read_only [OF t]) (simp_all add: blank_kernel_def MAX_LAYERS_def is_slash_def)
  with t show ?thesis by blast
qed

section \<open>Removing a file of a read-only layer\<close>

text \<open>A directory of an overlay with a writable layer above a read-only one.\<close>

definition two_layers :: "vptr \<Rightarrow> vptr \<Rightarrow> vptr \<Rightarrow> 'a ovvfs \<Rightarrow> bool" where
  "two_layers dir u l s \<longleftrightarrow> g_layer_count (fs_data s) = 2 \<and> writable 0 s \<and> \<not> writable 1 s
     \<and> layer_roots (ovn_of dir s) ! 0 = u \<and> layer_roots (ovn_of dir s) ! 1 = l
     \<and> u \<noteq> 0 \<and> l \<noteq> 0 \<and> dir_of u s \<noteq> dir_of l s
     \<and> dir < kalloc_next (fs_data s) \<and> u < kalloc_next (fs_data s)"

lemma layer_lookup_ramfs:
  "v \<noteq> 0 \<Longrightarrow> layer_lookup ramfs_table v name s =
     Some (case dir_map (dir_of v s) s name of None \<Rightarrow> (E_NOT_FOUND, 0, s) | Some w \<Rightarrow> (0, w, s))"
  by (simp add: layer_lookup_def deref_def ramfs_table_def ramfs_vnode_ops_def ramfs_lookup_def Let_def
      dir_map_def entry_of_def split: option.split)

lemma ensure_dir_capacity_more:
  assumes "ensure_dir_capacity d n s = Some (e, t)"
  shows "ramfs.more (fs_data t) = ramfs.more (fs_data s)"
  using assms by (auto simp: ensure_dir_capacity_def Let_def case_prod_beta bind_eq_Some_conv ram_more
      split: if_split_asm)

lemma dir_add_entry_more:
  assumes "dir_add_entry d name v s = Some (e, t)"
  shows "ramfs.more (fs_data t) = ramfs.more (fs_data s)"
  using assms by (auto simp: dir_add_entry_def Let_def bind_eq_Some_conv ram_more
      split: if_split_asm dest!: ensure_dir_capacity_more)

lemma ramfs_create_more:
  assumes "ramfs_create dir name s = Some (e, w, t)"
  shows "ramfs.more (fs_data t) = ramfs.more (fs_data s)"
  using assms by (auto simp: ramfs_create_def Let_def case_prod_beta bind_eq_Some_conv ram_more
      split: if_split_asm dest!: dir_add_entry_more)

lemma ramfs_create_op: "op_create (ramfs_table k) = ramfs_create"
  by (simp add: ramfs_table_def ramfs_vnode_ops_def)

lemma unref_effect:
  "private_data (vnodes (vnode_unref v s) w) = private_data (vnodes s w)" "fs_data (vnode_unref v s) = fs_data s"
  by (simp_all add: vnode_unref_def)

lemma alloc_overlay_vnode_frame:
  "vnodes (snd (alloc_overlay_vnode s)) = vnodes s"
  "ram_dirs (fs_data (snd (alloc_overlay_vnode s))) = ram_dirs (fs_data s)"
  "g_layers (fs_data (snd (alloc_overlay_vnode s))) = g_layers (fs_data s)"
  "g_layer_count (fs_data (snd (alloc_overlay_vnode s))) = g_layer_count (fs_data s)"
  using overlay_fields_more [OF more_simple(7) [of s]]
  by (simp_all add: alloc_overlay_vnode_def Let_def case_prod_beta kalloc_fields set_ovn_def with_fs_def)

text \<open>A whiteout in the upper layer hides the name in the lower one.\<close>

lemma lookup_hidden:
  assumes roots: "parent ! 0 = u" "parent ! 1 = l" "u \<noteq> 0" "l \<noteq> 0" and w: "writable 0 s"
    and none: "dir_map (dir_of u s) s name = None" and wh: "dir_map (dir_of u s) s wh_name = Some x"
  shows "\<exists>t. lookup_layers ramfs_table parent name wh_name [0, 1] (False, ty, rs) s = Some ((False, ty, rs), t)"
  using assms by (simp add: layer_lookup_ramfs error_codes)

text \<open>C17. Removing a file that only a read-only layer has puts a whiteout, a file with the prefixed name, into the
  directory of the writable layer above it and changes neither the other names there nor the directory of the
  read-only layer.  The overlay then no longer finds the name: a lookup gives \<open>E_NOT_FOUND\<close>, or \<open>E_NO_SPACE\<close> if
  its vnode cannot be allocated.  The name of the whiteout has to fit.\<close>

theorem overlay_unlink_hides:
  fixes s :: "'a ovvfs"
  assumes two: "two_layers dir u l s" and len: "length name < 252"
    and up: "dir_map (dir_of u s) s name = None" and low: "dir_map (dir_of l s) s name = Some v"
    and un: "overlay_unlink ramfs_table dir name s = Some (0, t)"
  shows "(\<exists>w. dir_map (dir_of u t) t = (dir_map (dir_of u s) s)(WHITEOUT_PREFIX @ name \<mapsto> w) \<and> vnode_type (vnodes t w) = File)
    \<and> dir_map (dir_of l s) t = dir_map (dir_of l s) s
    \<and> (\<exists>t'. overlay_lookup ramfs_table dir name t
         = Some (if fst (alloc_overlay_vnode t) = 0 then E_NO_SPACE else E_NOT_FOUND, 0, t'))"
proof -
  let ?wh = "make_whiteout_name name 256" and ?s = "vnode_unref v s"
  have twol: "[0 ..< 2] = [0, 1 :: nat]" by (simp add: upt_rec)
  have wh: "?wh = WHITEOUT_PREFIX @ name" "length ?wh < 256" "?wh \<noteq> name"
    using len by (simp_all add: make_whiteout_name_def copy_upto_take WHITEOUT_PREFIX_def)
  note t2 = two [unfolded two_layers_def]
  have d: "dir_of u ?s = dir_of u s" "ovn_of dir ?s = ovn_of dir s" "writable 0 ?s = writable 0 s"
    by (simp_all add: dir_of_def ovn_of_def writable_def unref_effect)
  have "make_whiteout ramfs_table (layer_roots (ovn_of dir s)) ?wh [0] ?s = Some (0, t)"
    using un t2 up low by (simp add: overlay_unlink_def twol layer_lookup_ramfs error_codes)
  moreover have "layer_roots (ovn_of dir s) ! 0 = u" "u \<noteq> 0" "writable 0 ?s" using t2 d by auto
  ultimately obtain w where c: "ramfs_create u ?wh ?s = Some (0, w, t)"
    by (cases "dir_map (dir_of u ?s) ?s ?wh")
      (auto simp: layer_lookup_ramfs deref_def ramfs_create_op error_codes bind_eq_Some_conv)
  have u: "u < kalloc_next (fs_data ?s)" using t2 by (simp add: unref_effect)
  note eff = ramfs_create_effect [OF c u] and cm = ramfs_create_map [OF c u wh(2)]
  have m: "dir_map (dir_of u t) t = (dir_map (dir_of u s) s)(?wh \<mapsto> w)"
    using cm(2) d by (simp add: dir_map_def unref_effect)
  have lo: "dir_map (dir_of l s) t = dir_map (dir_of l s) s"
    using cm(3) [of "dir_of l s"] t2 d by (simp add: dir_map_def unref_effect)
  note f = overlay_fields_more [OF ramfs_create_more [OF c]]
  have o': "ovn_of dir t = ovn_of dir s" "writable 0 t" "g_layer_count (fs_data t) = 2"
    using t2 f eff(6) [of dir] by (simp_all add: ovn_of_def writable_def unref_effect)
  let ?a = "snd (alloc_overlay_vnode t)" and ?p = "layer_roots (ovn_of dir t)"
  have a: "dir_map (dir_of u ?a) ?a = dir_map (dir_of u t) t" "writable 0 ?a"
    using o'(2) by (simp_all add: dir_map_def dir_of_def alloc_overlay_vnode_frame writable_def fun_eq_iff)
  have "\<exists>t'. lookup_layers ramfs_table ?p name ?wh [0, 1] (False, File, replicate MAX_LAYERS 0) ?a =
      Some ((False, File, replicate MAX_LAYERS 0), t')"
    by (rule lookup_hidden [where u = u and l = l and x = w]) (use t2 o' a m up wh(3) in auto)
  then have "\<exists>t'. overlay_lookup ramfs_table dir name t
      = Some (if fst (alloc_overlay_vnode t) = 0 then E_NO_SPACE else E_NOT_FOUND, 0, t')"
    by (auto simp: overlay_lookup_def Let_def case_prod_beta alloc_overlay_vnode_frame o'(3) twol
        simp del: lookup_layers.simps One_nat_def)
  then show ?thesis using m lo eff(3) wh(1) by auto
qed

text \<open>An overlay directory 3 over the writable directory 1 and the read-only directory 2, which has \<open>a\<close>.\<close>

definition example_overlay :: "overlay vfs" where
  "example_overlay = blank_kernel\<lparr>
     vnodes := (\<lambda>v. \<lparr>vnode_type = Directory, vnode_ops = 1, private_data = v + 10, ref_count = 1, mount_parent = 0\<rparr>),
     fs_data := (fs_data blank_kernel)\<lparr>kalloc_next := 20,
       ram_dirs := (\<lambda>d. \<lparr>dir_entries = (if d = 12 then [\<lparr>entry_name = ''a'', entry_vnode = 4\<rparr>] else []), dir_capacity = 8\<rparr>),
       g_layers := [\<lparr>layer_root = 1, layer_writable = True\<rparr>, \<lparr>layer_root = 2, layer_writable = False\<rparr>],
       g_layer_count := 2,
       overlay_vnodes := (\<lambda>_. \<lparr>layer_roots = [1, 2], merged = [], merged_room = 0, cached = False\<rparr>)\<rparr>\<rparr>"

lemma example_overlay_unlink: "\<exists>t. overlay_unlink ramfs_table 3 ''a'' example_overlay = Some (0, t)"
  by (simp add: overlay_unlink_def ovn_of_def example_overlay_def blank_kernel_def upt_rec layer_lookup_def deref_def
      ramfs_table_def ramfs_vnode_ops_def ramfs_lookup_def dir_find_entry_def dir_of_def writable_def
      make_whiteout_name_def copy_upto_take WHITEOUT_PREFIX_def vnode_unref_def ramfs_create_def create_vnode_def
      alloc_file_def kalloc_def with_fs_def set_vnode_def set_file_def dir_add_entry_def ensure_dir_capacity_def
      error_codes Let_def)

theorem overlay_unlink_hides_witness:
  "\<exists>t e t'. overlay_unlink ramfs_table 3 ''a'' example_overlay = Some (0, t)
     \<and> overlay_lookup ramfs_table 3 ''a'' t = Some (e, 0, t') \<and> (e = E_NOT_FOUND \<or> e = E_NO_SPACE)
     \<and> WHITEOUT_PREFIX @ ''a'' \<in> dom (dir_map (dir_of 1 t) t) \<and> dir_map 12 t ''a'' = Some 4"
proof -
  obtain t where t: "overlay_unlink ramfs_table 3 ''a'' example_overlay = Some (0, t)"
    using example_overlay_unlink by blast
  have two: "two_layers 3 1 2 example_overlay"
    by (simp add: two_layers_def example_overlay_def writable_def ovn_of_def dir_of_def)
  have m: "dir_map (dir_of 1 example_overlay) example_overlay ''a'' = None"
    "dir_map (dir_of 2 example_overlay) example_overlay ''a'' = Some 4" "dir_of 2 example_overlay = 12"
    by (simp_all add: dir_map_def dir_of_def entry_of_def dir_find_entry_def example_overlay_def)
  have len: "length ''a'' < 252" by simp
  note h = overlay_unlink_hides [OF two len m(1,2) t]
  then have "dir_map 12 t ''a'' = Some 4" using m(2,3) by simp
  moreover have "WHITEOUT_PREFIX @ ''a'' \<in> dom (dir_map (dir_of 1 t) t)" using h by auto
  ultimately show ?thesis using h t by (auto split: if_splits)
qed

end
