(* ===== verification/Tori_Links.thy ===== *)
theory Tori_Links
  imports Tori_Prelude
begin

text \<open>
  Doubly linked lists: what the links of the nodes say of a sequence.  The lists of processes and of
  tasks are such lists; a node is at an address, and 0 is \<open>nullptr\<close>.
\<close>

type_synonym ptr = nat

definition hd_or :: "ptr list \<Rightarrow> ptr \<Rightarrow> ptr" where
  "hd_or xs d = (if xs = [] then d else hd xs)"

definition last_or :: "ptr list \<Rightarrow> ptr \<Rightarrow> ptr" where
  "last_or xs d = (if xs = [] then d else last xs)"

lemma hd_last_or [simp]:
  "hd_or [] d = d" "hd_or (x # xs) d = x" "last_or [] d = d" "last_or (x # xs) d = last_or xs x"
  "last_or (xs @ [x]) d = x" "hd_or (xs @ ys) d = hd_or xs (hd_or ys d)" "last_or (xs @ ys) d = last_or ys (last_or xs d)"
  by (auto simp: hd_or_def last_or_def)

text \<open>The nodes \<open>xs\<close> are linked by \<open>n\<close> and \<open>v\<close>, from the one before them to the one after them.\<close>

fun seg :: "(ptr \<Rightarrow> ptr) \<Rightarrow> (ptr \<Rightarrow> ptr) \<Rightarrow> ptr \<Rightarrow> ptr list \<Rightarrow> ptr \<Rightarrow> bool" where
  "seg n v before [] after \<longleftrightarrow> True"
| "seg n v before (x # xs) after \<longleftrightarrow> v x = before \<and> n x = hd_or xs after \<and> seg n v x xs after"

lemma seg_append [simp]:
  "seg n v b (xs @ ys) a \<longleftrightarrow> seg n v b xs (hd_or ys a) \<and> seg n v (last_or xs b) ys a"
  by (induction xs arbitrary: b) auto

lemma seg_upd_other [simp]:
  "p \<notin> set xs \<Longrightarrow> seg (n(p := y)) v b xs a = seg n v b xs a"
  "p \<notin> set xs \<Longrightarrow> seg n (v(p := y)) b xs a = seg n v b xs a"
  by (induction xs arbitrary: b) auto

lemma seg_new_after:
  "seg n v b xs a \<Longrightarrow> distinct xs \<Longrightarrow> xs \<noteq> [] \<Longrightarrow> seg (n(last xs := a')) v b xs a'"
proof (induction xs arbitrary: b)
  case (Cons x xs)
  then show ?case by (cases xs) auto
qed simp

lemma seg_new_before:
  "seg n v b xs a \<Longrightarrow> distinct xs \<Longrightarrow> xs \<noteq> [] \<Longrightarrow> seg n (v(hd xs := b')) b' xs a"
  by (cases xs) auto

lemma last_or_0: "0 \<notin> set xs \<Longrightarrow> last_or xs 0 = 0 \<longleftrightarrow> xs = []"
  by (metis last_in_set last_or_def)

lemma hd_or_0: "0 \<notin> set xs \<Longrightarrow> hd_or xs 0 = 0 \<longleftrightarrow> xs = []"
  by (metis hd_in_set hd_or_def)

text \<open>A list with a head and a tail.\<close>

definition dlist :: "(ptr \<Rightarrow> ptr) \<Rightarrow> (ptr \<Rightarrow> ptr) \<Rightarrow> ptr \<Rightarrow> ptr \<Rightarrow> ptr list \<Rightarrow> bool" where
  "dlist n v h t xs \<longleftrightarrow> distinct xs \<and> 0 \<notin> set xs \<and> seg n v 0 xs 0 \<and> h = hd_or xs 0 \<and> t = last_or xs 0"

lemma dlist_append:
  assumes "dlist n v h t xs" "c \<notin> set xs" "c \<noteq> 0"
  shows "dlist (if t \<noteq> 0 then n(c := 0, t := c) else n(c := 0)) (v(c := t)) (if t \<noteq> 0 then h else c) c (xs @ [c])"
proof (cases "xs = []")
  case True
  with assms show ?thesis by (simp add: dlist_def)
next
  case False
  then have "last xs \<in> set xs" by simp
  then have "last xs \<noteq> 0" "last xs \<noteq> c" using assms by (metis dlist_def)+
  moreover have "t = last xs" using assms False by (simp add: dlist_def last_or_def)
  moreover have "seg (n(c := 0)) (v(c := t)) 0 xs 0" using assms by (simp add: dlist_def)
  from seg_new_after [OF this _ False, of c] have "seg (n(c := 0, last xs := c)) (v(c := t)) 0 xs c"
    using assms by (simp add: dlist_def)
  ultimately show ?thesis
    using assms False by (simp add: dlist_def last_or_def hd_or_def)
qed

lemma dlist_pop:
  assumes "dlist n v h t (x # xs)"
  shows "h = x" "n x = hd_or xs 0"
    "dlist (n(x := 0)) (if n x \<noteq> 0 then v(n x := 0, x := 0) else v(x := 0)) (n x) (if n x \<noteq> 0 then t else 0) xs"
proof -
  show h: "h = x" "n x = hd_or xs 0" using assms by (simp_all add: dlist_def)
  show "dlist (n(x := 0)) (if n x \<noteq> 0 then v(n x := 0, x := 0) else v(x := 0)) (n x) (if n x \<noteq> 0 then t else 0) xs"
  proof (cases xs)
    case Nil
    then show ?thesis using h by (simp add: dlist_def)
  next
    case (Cons y ys)
    then have "y \<noteq> 0" "x \<noteq> y" "x \<notin> set ys" "y \<notin> set ys" using assms by (auto simp: dlist_def)
    then show ?thesis using assms h Cons by (simp add: dlist_def)
  qed
qed

lemma dlist_remove:
  assumes "dlist n v h t (xs @ c # ys)"
  shows "v c = last_or xs 0" "n c = hd_or ys 0"
    "dlist ((if v c \<noteq> 0 then n(v c := n c) else n)(c := 0)) ((if n c \<noteq> 0 then v(n c := v c) else v)(c := 0))
       (if v c \<noteq> 0 then h else n c) (if n c \<noteq> 0 then t else v c) (xs @ ys)"
proof -
  have d: "distinct (xs @ c # ys)" "0 \<notin> set xs" "c \<noteq> 0" "0 \<notin> set ys"
    and s: "seg n v 0 xs c" "v c = last_or xs 0" "n c = hd_or ys 0" "seg n v c ys 0"
    and e: "h = hd_or xs c" "t = last_or ys c"
    using assms by (auto simp: dlist_def)
  show "v c = last_or xs 0" "n c = hd_or ys 0" by fact+
  have x: "seg (if xs = [] then n else n(last xs := n c)) v 0 xs (n c)"
    using seg_new_after [OF s(1)] d by simp
  have y: "seg n (if ys = [] then v else v(hd ys := v c)) (v c) ys 0"
    using seg_new_before [OF s(4)] d by simp
  have l: "c \<notin> set xs" "c \<notin> set ys" "xs \<noteq> [] \<Longrightarrow> last xs \<notin> set ys" "ys \<noteq> [] \<Longrightarrow> hd ys \<notin> set xs"
    using d by (simp, simp, (metis disjoint_iff distinct_append hd_in_set last_in_set distinct.simps(2) list.set_intros(2))+)
  have nn: "(if v c \<noteq> 0 then n(v c := n c) else n) = (if xs = [] then n else n(last xs := n c))"
    using s(2) last_or_0 [OF d(2)] by (simp add: last_or_def)
  have vv: "(if n c \<noteq> 0 then v(n c := v c) else v) = (if ys = [] then v else v(hd ys := v c))"
    using s(3) hd_or_0 [OF d(4)] by (simp add: hd_or_def)
  have "seg ((if v c \<noteq> 0 then n(v c := n c) else n)(c := 0)) ((if n c \<noteq> 0 then v(n c := v c) else v)(c := 0)) 0 xs (n c)"
    using x l unfolding nn vv by (cases "ys = []"; simp)
  moreover have "seg ((if v c \<noteq> 0 then n(v c := n c) else n)(c := 0)) ((if n c \<noteq> 0 then v(n c := v c) else v)(c := 0)) (v c) ys 0"
    using y l unfolding nn vv by (cases "xs = []"; simp)
  ultimately show "dlist ((if v c \<noteq> 0 then n(v c := n c) else n)(c := 0)) ((if n c \<noteq> 0 then v(n c := v c) else v)(c := 0))
       (if v c \<noteq> 0 then h else n c) (if n c \<noteq> 0 then t else v c) (xs @ ys)"
    using d s(2,3) e last_or_0 [OF d(2)] hd_or_0 [OF d(4)] by (auto simp: dlist_def hd_or_def last_or_def)
qed

end
