(* ===== verification/Tori_Clock.thy ===== *)
theory Tori_Clock
  imports Tori_Prelude
begin

text \<open>
  The clock (\<open>kernel/src/kernel/time.cpp\<close>): ticks counted on one processor, and the uptime they stand for.
\<close>

record clock =
  designated_bsp_id :: u32
  timer_frequency_hz :: u32
  global_tick_count :: u64

definition clock_init :: "u32 \<Rightarrow> u32 \<Rightarrow> clock \<Rightarrow> clock" where
  "clock_init bsp_id frequency_hz s =
     s\<lparr>designated_bsp_id := bsp_id, timer_frequency_hz := frequency_hz, global_tick_count := 0\<rparr>"

definition clock_tick :: "u32 \<Rightarrow> clock \<Rightarrow> clock" where
  "clock_tick current_lapic_id s =
     (if current_lapic_id = designated_bsp_id s then s\<lparr>global_tick_count := global_tick_count s + 1\<rparr> else s)"

definition uptime_ms :: "clock \<Rightarrow> u64" where
  "uptime_ms s =
     (if timer_frequency_hz s = 0 then 0 else (global_tick_count s * 1000) div ucast (timer_frequency_hz s))"

text \<open>After any sequence of ticks of the processors, those of the designated one are counted.\<close>

lemma clock_ticks:
  "fold clock_tick ids s =
     s\<lparr>global_tick_count := global_tick_count s + of_nat (count_list ids (designated_bsp_id s))\<rparr>"
  by (induction ids arbitrary: s) (auto simp: clock_tick_def algebra_simps)

text \<open>The uptime is exact as long as the product fits; at 1000 ticks per second that is the tick count.\<close>

lemma uptime_exact:
  assumes "unat (global_tick_count s) * 1000 < 2 ^ 64" and "timer_frequency_hz s \<noteq> 0"
  shows "unat (uptime_ms s) = unat (global_tick_count s) * 1000 div unat (timer_frequency_hz s)"
proof -
  have "unat (global_tick_count s * 1000) = unat (global_tick_count s) * 1000"
    using assms(1) by (simp add: unat_word_ariths)
  moreover have "unat (ucast (timer_frequency_hz s) :: u64) = unat (timer_frequency_hz s)"
    using unsigned_less [where 'a = nat and w = "timer_frequency_hz s"]
    by (simp add: unsigned_ucast_eq take_bit_nat_eq_self)
  ultimately show ?thesis using assms(2) by (simp add: uptime_ms_def unat_div)
qed

end
