(* ===== verification/Tori_Sched.thy ===== *)
theory Tori_Sched
  imports Tori_Vmm Tori_Links Tori_Clock
begin

text \<open>
  Tasks and the scheduler (\<open>kernel/src/kernel/task.cpp\<close>, \<open>task.hpp\<close>, \<open>context_switch.S\<close> and the entry
  stacks of \<open>gdt.cpp\<close>).  Tasks are at addresses, 0 is \<open>nullptr\<close>; \<open>kalloc\<close> returns a new address or 0
  when \<open>alloc_ok\<close> says that it fails.  \<open>words\<close> holds the 8-byte words of kernel memory, all accessed at
  aligned addresses here.  The registers that a switch saves are those of the processor that runs the
  code, and \<open>lapic\<close> is its identifier.  A call that switches returns in the state in which the next
  task continues.
\<close>

section \<open>State\<close>

definition CONFIG_MAX_CPUS :: nat where "CONFIG_MAX_CPUS = 128"
definition CONFIG_KERNEL_STACK_SIZE :: u64 where "CONFIG_KERNEL_STACK_SIZE = 16384"

datatype TaskState = Ready | Running | Blocked | TaskDead

record KernelStack =
  stack_base :: u64
  stack_top :: u64
  physical_page :: u64
  page_count :: u64

text \<open>Functions and the objects behind \<open>void*\<close> are addresses.\<close>

record Task =
  task_id :: u64
  task_name :: string
  task_state :: TaskState
  task_stack :: KernelStack
  task_context :: u64
  task_entry :: u64
  task_arg :: u64
  task_next :: ptr
  task_prev :: ptr
  creation_time :: u64
  ready_next :: ptr
  ready_prev :: ptr
  task_thread :: ptr
  task_cr3 :: u64

text \<open>The part of a processor that \<open>context_switch\<close> saves and loads.\<close>

record Cpu =
  cpu_rbx :: u64
  cpu_rbp :: u64
  cpu_r12 :: u64
  cpu_r13 :: u64
  cpu_r14 :: u64
  cpu_r15 :: u64
  cpu_rsp :: u64
  cpu_rip :: u64
  cpu_cr3 :: u64

text \<open>\<open>boot_stack\<close> is the address of the array \<open>stack\<close>.\<close>

record PerCPU =
  syscall_rsp :: u64
  user_rsp_save :: u64
  tss_rsp0 :: u64
  boot_stack :: u64

record sched_sys =
  current_tasks :: "nat \<Rightarrow> ptr"
  all_tasks_head :: ptr
  all_tasks_tail :: ptr
  next_task_id :: u64
  total_task_count :: u64
  idle_task :: ptr
  need_reschedule :: "nat \<Rightarrow> bool"
  scheduler_active :: bool
  rq_head :: ptr
  rq_tail :: ptr
  tasks :: "ptr \<Rightarrow> Task"
  lapic :: nat
  percpu :: "nat \<Rightarrow> PerCPU"
  cpu :: Cpu
  sched_clock :: clock
  alloc_next :: nat
  alloc_ok :: "nat \<Rightarrow> bool"
  freed :: "ptr \<Rightarrow> bool"
  words :: "u64 \<Rightarrow> u64"
  memory_manager :: vmm

definition set_task :: "ptr \<Rightarrow> (Task \<Rightarrow> Task) \<Rightarrow> 'a sched_sys_scheme \<Rightarrow> 'a sched_sys_scheme" where
  "set_task t f s = s\<lparr>tasks := (tasks s)(t := f (tasks s t))\<rparr>"

definition proc_kalloc :: "'a sched_sys_scheme \<Rightarrow> ptr \<times> 'a sched_sys_scheme" where
  "proc_kalloc s =
     (let n = alloc_next s in
      if alloc_ok s n then (n, s\<lparr>alloc_next := Suc n, freed := (freed s)(n := False)\<rparr>)
      else (0, s\<lparr>alloc_next := Suc n\<rparr>))"

definition proc_kfree :: "ptr \<Rightarrow> 'a sched_sys_scheme \<Rightarrow> 'a sched_sys_scheme" where
  "proc_kfree p s = s\<lparr>freed := (freed s)(p := True)\<rparr>"

section \<open>Lists and stacks\<close>

definition stack_pages :: u64 where "stack_pages = 4"
definition stack_size :: u64 where "stack_size = stack_pages * 4096"

text \<open>The characters before the final 0.\<close>

definition copy_name :: "string option \<Rightarrow> nat \<Rightarrow> string" where
  "copy_name src max_len = (case src of None \<Rightarrow> [] | Some src \<Rightarrow> take (max_len - 1) src)"

definition list_add :: "ptr \<Rightarrow> 'a sched_sys_scheme \<Rightarrow> 'a sched_sys_scheme" where
  "list_add task s =
     (let s = set_task task (task_next_update (\<lambda>_. 0)) s;
          s = set_task task (task_prev_update (\<lambda>_. all_tasks_tail s)) s;
          s = (if all_tasks_tail s \<noteq> 0 then set_task (all_tasks_tail s) (task_next_update (\<lambda>_. task)) s
               else s\<lparr>all_tasks_head := task\<rparr>) in
      s\<lparr>all_tasks_tail := task\<rparr>)"

definition setup_task_stack :: "ptr \<Rightarrow> u64 \<Rightarrow> 'a sched_sys_scheme \<Rightarrow> 'a sched_sys_scheme" where
  "setup_task_stack task trampoline_addr s =
     (let top = stack_top (task_stack (tasks s task));
          w = (words s)(top - 8 := trampoline_addr);
          w = fold (\<lambda>i m. m(top - 8 * of_nat i := 0)) [2 ..< 8] w in
      set_task task (task_context_update (\<lambda>_. top - 56)) (s\<lparr>words := w\<rparr>))"

section \<open>The ready queue\<close>

definition ready_queue_init :: "'a sched_sys_scheme \<Rightarrow> 'a sched_sys_scheme" where
  "ready_queue_init s = s\<lparr>rq_head := 0, rq_tail := 0\<rparr>"

definition ready_queue_push :: "ptr \<Rightarrow> 'a sched_sys_scheme \<Rightarrow> 'a sched_sys_scheme" where
  "ready_queue_push task s =
     (let s = set_task task (ready_next_update (\<lambda>_. 0)) s;
          s = set_task task (ready_prev_update (\<lambda>_. rq_tail s)) s;
          s = (if rq_tail s \<noteq> 0 then set_task (rq_tail s) (ready_next_update (\<lambda>_. task)) s
               else s\<lparr>rq_head := task\<rparr>) in
      s\<lparr>rq_tail := task\<rparr>)"

definition ready_queue_pop :: "'a sched_sys_scheme \<Rightarrow> ptr \<times> 'a sched_sys_scheme" where
  "ready_queue_pop s =
     (let task = rq_head s in
      if task = 0 then (0, s)
      else
        (let s = s\<lparr>rq_head := ready_next (tasks s task)\<rparr>;
             s = (if rq_head s \<noteq> 0 then set_task (rq_head s) (ready_prev_update (\<lambda>_. 0)) s
                  else s\<lparr>rq_tail := 0\<rparr>);
             s = set_task task (ready_next_update (\<lambda>_. 0)) s in
         (task, set_task task (ready_prev_update (\<lambda>_. 0)) s)))"

definition ready_queue_remove :: "ptr \<Rightarrow> 'a sched_sys_scheme \<Rightarrow> 'a sched_sys_scheme" where
  "ready_queue_remove task s =
     (let s = (if ready_prev (tasks s task) \<noteq> 0
               then set_task (ready_prev (tasks s task)) (ready_next_update (\<lambda>_. ready_next (tasks s task))) s
               else s\<lparr>rq_head := ready_next (tasks s task)\<rparr>);
          s = (if ready_next (tasks s task) \<noteq> 0
               then set_task (ready_next (tasks s task)) (ready_prev_update (\<lambda>_. ready_prev (tasks s task))) s
               else s\<lparr>rq_tail := ready_prev (tasks s task)\<rparr>);
          s = set_task task (ready_next_update (\<lambda>_. 0)) s in
      set_task task (ready_prev_update (\<lambda>_. 0)) s)"

section \<open>Switching\<close>

text \<open>The second half of \<open>context_switch\<close>, which \<open>schedule_internal\<close> and \<open>start_scheduler\<close> repeat: the
  stack and the address space are loaded, six registers popped, and \<open>ret\<close> pops the address to go to.\<close>

definition restore_context :: "u64 \<Rightarrow> u64 \<Rightarrow> 'a sched_sys_scheme \<Rightarrow> 'a sched_sys_scheme" where
  "restore_context next_ctx next_cr3 s = s\<lparr>cpu :=
     \<lparr>cpu_rbx = words s next_ctx, cpu_rbp = words s (next_ctx + 8), cpu_r12 = words s (next_ctx + 16),
      cpu_r13 = words s (next_ctx + 24), cpu_r14 = words s (next_ctx + 32), cpu_r15 = words s (next_ctx + 40),
      cpu_rsp = next_ctx + 56, cpu_rip = words s (next_ctx + 48), cpu_cr3 = next_cr3\<rparr>\<rparr>"

text \<open>On entry the stack pointer is at the return address.\<close>

definition save_context :: "ptr \<Rightarrow> 'a sched_sys_scheme \<Rightarrow> 'a sched_sys_scheme" where
  "save_context prev s =
     (let c = cpu s; sp = cpu_rsp c in
      set_task prev (task_context_update (\<lambda>_. sp - 48))
        (s\<lparr>words := (words s)(sp - 8 := cpu_r15 c, sp - 16 := cpu_r14 c, sp - 24 := cpu_r13 c,
             sp - 32 := cpu_r12 c, sp - 40 := cpu_rbp c, sp - 48 := cpu_rbx c)\<rparr>))"

definition context_switch :: "ptr \<Rightarrow> u64 \<Rightarrow> u64 \<Rightarrow> 'a sched_sys_scheme \<Rightarrow> 'a sched_sys_scheme" where
  "context_switch prev next_ctx next_cr3 s = restore_context next_ctx next_cr3 (save_context prev s)"

definition set_kernel_entry_stack :: "nat \<Rightarrow> u64 \<Rightarrow> 'a sched_sys_scheme \<Rightarrow> 'a sched_sys_scheme" where
  "set_kernel_entry_stack cpu_index new_top s =
     (if cpu_index \<ge> CONFIG_MAX_CPUS then s
      else
        (let p = percpu s cpu_index;
             new_top = (if new_top = 0 then boot_stack p + CONFIG_KERNEL_STACK_SIZE else new_top) in
         s\<lparr>percpu := (percpu s)(cpu_index := p\<lparr>syscall_rsp := new_top, tss_rsp0 := new_top\<rparr>)\<rparr>))"

definition current_task :: "'a sched_sys_scheme \<Rightarrow> ptr" where
  "current_task s = (if lapic s \<ge> CONFIG_MAX_CPUS then 0 else current_tasks s (lapic s))"

definition set_current_task :: "ptr \<Rightarrow> 'a sched_sys_scheme \<Rightarrow> 'a sched_sys_scheme" where
  "set_current_task task s =
     (if lapic s < CONFIG_MAX_CPUS
      then set_kernel_entry_stack (lapic s) (if task \<noteq> 0 then stack_top (task_stack (tasks s task)) else 0)
             (s\<lparr>current_tasks := (current_tasks s)(lapic s := task)\<rparr>)
      else s)"

definition switch_to :: "ptr \<Rightarrow> ptr \<Rightarrow> 'a sched_sys_scheme \<Rightarrow> 'a sched_sys_scheme" where
  "switch_to current next_task s =
     (if next_task = current then set_task current (task_state_update (\<lambda>_. Running)) s
      else
        (let s = set_task next_task (task_state_update (\<lambda>_. Running)) s;
             s = set_current_task next_task s in
         if current = 0 then restore_context (task_context (tasks s next_task)) (task_cr3 (tasks s next_task)) s
         else context_switch current (task_context (tasks s next_task)) (task_cr3 (tasks s next_task)) s))"

definition schedule_internal :: "'a sched_sys_scheme \<Rightarrow> 'a sched_sys_scheme" where
  "schedule_internal s =
     (let current = current_task s; (next_task, s) = ready_queue_pop s in
      if next_task = 0 then
        (if current \<noteq> 0 \<and> task_state (tasks s current) = Running then s
         else if idle_task s = 0 then s
         else switch_to current (idle_task s) s)
      else switch_to current next_task s)"

section \<open>Tasks\<close>

text \<open>\<open>trampoline\<close> and \<open>idle_entry\<close> are addresses of code, \<open>hhdm\<close> the offset of the direct map.\<close>

definition create_task_internal ::
  "u64 \<Rightarrow> u64 \<Rightarrow> u64 \<Rightarrow> u64 \<Rightarrow> string option \<Rightarrow> 'a sched_sys_scheme \<Rightarrow> ptr \<times> 'a sched_sys_scheme" where
  "create_task_internal trampoline hhdm entry arg name s =
     (let (task, s) = proc_kalloc s in
      if task = 0 then (0, s)
      else
        (let (stack_phys, pm) = alloc_pages stack_pages (page_alloc (memory_manager s));
             s = s\<lparr>memory_manager := (memory_manager s)\<lparr>page_alloc := pm\<rparr>\<rparr> in
         if stack_phys = invalid_physical_address then (0, proc_kfree task s)
         else
           (let stack_virt = physical_to_virtual hhdm stack_phys;
                s = set_task task (\<lambda>t. t\<lparr>task_id := next_task_id s, task_name := copy_name name 32,
                      task_state := Ready,
                      task_stack := \<lparr>stack_base = stack_virt, stack_top = stack_virt + stack_size,
                                     physical_page = stack_phys, page_count = stack_pages\<rparr>,
                      task_entry := entry, task_arg := arg, creation_time := uptime_ms (sched_clock s),
                      task_thread := 0, task_cr3 := kernel_pml4_phys (memory_manager s)\<rparr>)
                      (s\<lparr>next_task_id := next_task_id s + 1\<rparr>);
                s = setup_task_stack task trampoline s;
                s = ready_queue_push task s;
                s = list_add task s in
            (task, s\<lparr>total_task_count := total_task_count s + 1\<rparr>))))"

text \<open>A panic has no result.\<close>

definition init_task_system :: "u64 \<Rightarrow> u64 \<Rightarrow> u64 \<Rightarrow> nat \<Rightarrow> 'a sched_sys_scheme \<Rightarrow> 'a sched_sys_scheme option" where
  "init_task_system trampoline hhdm idle_entry bsp_lapic_id s =
     (let s = s\<lparr>next_task_id := 1, total_task_count := 0, all_tasks_head := 0, all_tasks_tail := 0,
                current_tasks := (\<lambda>i. if i < CONFIG_MAX_CPUS then 0 else current_tasks s i)\<rparr>;
          s = ready_queue_init s;
          (bsp, s) = proc_kalloc s in
      if bsp = 0 then None
      else
        (let s = set_task bsp (\<lambda>t. t\<lparr>task_id := next_task_id s, task_name := copy_name (Some ''bsp-main'') 32,
                   task_state := Running,
                   task_stack := \<lparr>stack_base = 0, stack_top = 0, physical_page = 0, page_count = 0\<rparr>,
                   task_context := 0, task_entry := 0, task_arg := 0,
                   creation_time := uptime_ms (sched_clock s), task_thread := 0,
                   task_cr3 := kernel_pml4_phys (memory_manager s)\<rparr>) (s\<lparr>next_task_id := next_task_id s + 1\<rparr>);
             s = (if bsp_lapic_id < CONFIG_MAX_CPUS
                  then s\<lparr>current_tasks := (current_tasks s)(bsp_lapic_id := bsp)\<rparr> else s);
             s = list_add bsp s;
             s = s\<lparr>total_task_count := total_task_count s + 1\<rparr>;
             (idle, s) = create_task_internal trampoline hhdm idle_entry 0 (Some ''cpu0-idle'') s in
         Some (s\<lparr>idle_task := idle\<rparr>)))"

definition create_task ::
  "u64 \<Rightarrow> u64 \<Rightarrow> u64 \<Rightarrow> u64 \<Rightarrow> string option \<Rightarrow> 'a sched_sys_scheme \<Rightarrow> ptr \<times> 'a sched_sys_scheme" where
  "create_task trampoline hhdm entry arg name s = create_task_internal trampoline hhdm entry arg name s"

definition task_count :: "'a sched_sys_scheme \<Rightarrow> u64" where
  "task_count s = total_task_count s"

text \<open>What follows the return of the entry function of a task.\<close>

definition task_exit :: "'a sched_sys_scheme \<Rightarrow> 'a sched_sys_scheme" where
  "task_exit s = schedule_internal (set_task (current_task s) (task_state_update (\<lambda>_. TaskDead)) s)"

definition yield :: "'a sched_sys_scheme \<Rightarrow> 'a sched_sys_scheme" where
  "yield s = schedule_internal (if current_task s \<noteq> 0 then ready_queue_push (current_task s) s else s)"

definition block :: "'a sched_sys_scheme \<Rightarrow> 'a sched_sys_scheme" where
  "block s = schedule_internal (if current_task s \<noteq> 0
     then set_task (current_task s) (task_state_update (\<lambda>_. Blocked)) s else s)"

definition wake :: "ptr \<Rightarrow> 'a sched_sys_scheme \<Rightarrow> 'a sched_sys_scheme" where
  "wake task s =
     (if task_state (tasks s task) = Blocked
      then ready_queue_push task (set_task task (task_state_update (\<lambda>_. Ready)) s) else s)"

definition start_scheduler :: "'a sched_sys_scheme \<Rightarrow> 'a sched_sys_scheme option" where
  "start_scheduler s =
     (let (next_task, s) = ready_queue_pop s in
      if next_task = 0 then None
      else
        (let s = s\<lparr>scheduler_active := True\<rparr>;
             s = set_task next_task (task_state_update (\<lambda>_. Running)) s;
             s = set_current_task next_task s in
         Some (restore_context (task_context (tasks s next_task)) (task_cr3 (tasks s next_task)) s)))"

definition flag_preempt :: "'a sched_sys_scheme \<Rightarrow> 'a sched_sys_scheme" where
  "flag_preempt s =
     (if lapic s < CONFIG_MAX_CPUS then s\<lparr>need_reschedule := (need_reschedule s)(lapic s := True)\<rparr> else s)"

definition sched_needs_preempt :: "'a sched_sys_scheme \<Rightarrow> bool" where
  "sched_needs_preempt s \<longleftrightarrow> lapic s < CONFIG_MAX_CPUS \<and> need_reschedule s (lapic s)"

definition sched_do_preempt :: "'a sched_sys_scheme \<Rightarrow> 'a sched_sys_scheme" where
  "sched_do_preempt s =
     (if lapic s \<ge> CONFIG_MAX_CPUS then s
      else
        (let s = s\<lparr>need_reschedule := (need_reschedule s)(lapic s := False)\<rparr> in
         if \<not> scheduler_active s then s
         else
           (let current = current_task s in
            if current = 0 then s
            else
              schedule_internal
                (if task_state (tasks s current) = Running
                 then ready_queue_push current (set_task current (task_state_update (\<lambda>_. Ready)) s)
                 else s))))"

definition sched_enqueue :: "ptr \<Rightarrow> 'a sched_sys_scheme \<Rightarrow> 'a sched_sys_scheme" where
  "sched_enqueue task s =
     (let s = (if task_id (tasks s task) = 0
               then set_task task (task_id_update (\<lambda>_. next_task_id s)) (s\<lparr>next_task_id := next_task_id s + 1\<rparr>)
               else s);
          s = set_task task (task_state_update (\<lambda>_. Ready)) s;
          s = ready_queue_push task s;
          s = list_add task s in
      s\<lparr>total_task_count := total_task_count s + 1\<rparr>)"

end
