(* ===== verification/Tori_Process.thy ===== *)
theory Tori_Process
  imports Tori_Sched Tori_Vfs
begin

text \<open>
  Processes and threads (\<open>kernel/src/process/process.cpp\<close>, \<open>process.hpp\<close>, \<open>thread.hpp\<close>), over the state of
  the scheduler.  Objects are at addresses, 0 is \<open>nullptr\<close>.  The task of a thread is its first member, so
  it is the task at the address of the thread.
\<close>

section \<open>State\<close>

definition max_pids :: nat where "max_pids = 32768"

datatype ProcessState = Alive | Zombie | Dead

record Process =
  pid :: u64
  proc_state :: ProcessState
  exit_status :: int
  pml4_phys :: u64
  fd_table :: "FileDescriptor list"
  parent :: ptr
  list_next :: ptr
  list_prev :: ptr
  thread_list :: ptr
  child_head :: ptr
  child_tail :: ptr
  child_next :: ptr
  child_prev :: ptr
  wait_task :: ptr
  brk :: u64
  brk_base :: u64

record Thread =
  thread_process :: ptr
  user_rsp :: u64
  user_rip :: u64
  user_rsp0 :: u64
  thread_next :: ptr
  thread_prev :: ptr

record proc_sys = sched_sys +
  pid_bitmap :: "nat \<Rightarrow> u64"
  next_pid_hint :: nat
  process_list :: ptr
  system_initialized :: bool
  procs :: "ptr \<Rightarrow> Process"
  threads :: "ptr \<Rightarrow> Thread"

definition set_proc :: "ptr \<Rightarrow> (Process \<Rightarrow> Process) \<Rightarrow> 'a proc_sys_scheme \<Rightarrow> 'a proc_sys_scheme" where
  "set_proc p f s = s\<lparr>procs := (procs s)(p := f (procs s p))\<rparr>"

section \<open>Lists of processes\<close>

definition link_child :: "ptr \<Rightarrow> ptr \<Rightarrow> 'a proc_sys_scheme \<Rightarrow> 'a proc_sys_scheme" where
  "link_child par child s =
     (let s = set_proc child (child_next_update (\<lambda>_. 0)) s;
          s = set_proc child (child_prev_update (\<lambda>_. child_tail (procs s par))) s;
          s = (if child_tail (procs s par) \<noteq> 0
               then set_proc (child_tail (procs s par)) (child_next_update (\<lambda>_. child)) s
               else set_proc par (child_head_update (\<lambda>_. child)) s) in
      set_proc par (child_tail_update (\<lambda>_. child)) s)"

definition unlink_child :: "ptr \<Rightarrow> ptr \<Rightarrow> 'a proc_sys_scheme \<Rightarrow> 'a proc_sys_scheme" where
  "unlink_child par child s =
     (let s = (if child_prev (procs s child) \<noteq> 0
               then set_proc (child_prev (procs s child)) (child_next_update (\<lambda>_. child_next (procs s child))) s
               else set_proc par (child_head_update (\<lambda>_. child_next (procs s child))) s);
          s = (if child_next (procs s child) \<noteq> 0
               then set_proc (child_next (procs s child)) (child_prev_update (\<lambda>_. child_prev (procs s child))) s
               else set_proc par (child_tail_update (\<lambda>_. child_prev (procs s child))) s);
          s = set_proc child (child_next_update (\<lambda>_. 0)) s in
      set_proc child (child_prev_update (\<lambda>_. 0)) s)"

definition unlink_global :: "ptr \<Rightarrow> 'a proc_sys_scheme \<Rightarrow> 'a proc_sys_scheme" where
  "unlink_global p s =
     (let s = (if list_prev (procs s p) \<noteq> 0
               then set_proc (list_prev (procs s p)) (list_next_update (\<lambda>_. list_next (procs s p))) s
               else s\<lparr>process_list := list_next (procs s p)\<rparr>);
          s = (if list_next (procs s p) \<noteq> 0
               then set_proc (list_next (procs s p)) (list_prev_update (\<lambda>_. list_prev (procs s p))) s
               else s);
          s = set_proc p (list_next_update (\<lambda>_. 0)) s in
      set_proc p (list_prev_update (\<lambda>_. 0)) s)"

section \<open>Process identifiers\<close>

definition init_process_system :: "'a proc_sys_scheme \<Rightarrow> 'a proc_sys_scheme" where
  "init_process_system s = s\<lparr>pid_bitmap := (\<lambda>i. if i < max_pids div 64 then 0 else pid_bitmap s i),
     next_pid_hint := 0, process_list := 0, system_initialized := True\<rparr>"

definition pid_used :: "'a proc_sys_scheme \<Rightarrow> nat \<Rightarrow> bool" where
  "pid_used s p \<longleftrightarrow> pid_bitmap s (p div 64) AND push_bit (p mod 64) 1 \<noteq> 0"

definition invalid_pid :: u64 where "invalid_pid = NOT 0"

definition pid_alloc :: "'a proc_sys_scheme \<Rightarrow> u64 \<times> 'a proc_sys_scheme" where
  "pid_alloc s =
     (if \<not> system_initialized s then (invalid_pid, s)
      else
        (case find (\<lambda>p. \<not> pid_used s p) (map (\<lambda>offset. (next_pid_hint s + offset) mod max_pids) [0 ..< max_pids]) of
           None \<Rightarrow> (invalid_pid, s)
         | Some p \<Rightarrow>
             (of_nat p, s\<lparr>pid_bitmap := (pid_bitmap s)(p div 64 :=
                            pid_bitmap s (p div 64) OR push_bit (p mod 64) 1),
                          next_pid_hint := (p + 1) mod max_pids\<rparr>)))"

definition pid_free :: "u64 \<Rightarrow> 'a proc_sys_scheme \<Rightarrow> 'a proc_sys_scheme" where
  "pid_free p s =
     (if unat p \<ge> max_pids \<or> \<not> system_initialized s then s
      else s\<lparr>pid_bitmap := (pid_bitmap s)(unat p div 64 :=
               pid_bitmap s (unat p div 64) AND NOT (push_bit (unat p mod 64) 1))\<rparr>)"

section \<open>Processes\<close>

text \<open>A walk along a list has no result when the list is circular.\<close>

partial_function (option) find_from :: "u64 \<Rightarrow> ptr \<Rightarrow> 'a proc_sys_scheme \<Rightarrow> ptr option" where
  "find_from p cur s =
     (if cur = 0 then Some 0
      else if pid (procs s cur) = p then Some cur
      else find_from p (list_next (procs s cur)) s)"

definition find_process :: "u64 \<Rightarrow> 'a proc_sys_scheme \<Rightarrow> ptr option" where
  "find_process p s = find_from p (process_list s) s"

definition find_init_process :: "'a proc_sys_scheme \<Rightarrow> ptr option" where
  "find_init_process s = find_process 0 s"

text \<open>An object of zero bytes.\<close>

definition zero_process :: Process where
  "zero_process = \<lparr>pid = 0, proc_state = Alive, exit_status = 0, pml4_phys = 0,
     fd_table = replicate max_fds \<lparr>fd_vnode = 0, fd_offset = 0, fd_flags = 0, fd_used = False\<rparr>,
     parent = 0, list_next = 0, list_prev = 0, thread_list = 0, child_head = 0, child_tail = 0, child_next = 0,
     child_prev = 0, wait_task = 0, brk = 0, brk_base = 0\<rparr>"

definition process_create :: "u64 \<Rightarrow> ptr \<Rightarrow> 'a proc_sys_scheme \<Rightarrow> ptr \<times> 'a proc_sys_scheme" where
  "process_create pml4 par s =
     (let (p, s) = proc_kalloc s in
      if p = 0 then (0, s)
      else
        (let s = set_proc p (\<lambda>_. zero_process) s; (new_pid, s) = pid_alloc s in
         if new_pid = invalid_pid then (0, proc_kfree p s)
         else
           (let s = set_proc p (\<lambda>q. q\<lparr>pid := new_pid, proc_state := Alive, exit_status := 0,
                      pml4_phys := pml4, parent := par, thread_list := 0, list_next := process_list s, list_prev := 0\<rparr>) s;
                s = (if par \<noteq> 0 then link_child par p s else s);
                s = (if process_list s \<noteq> 0 then set_proc (process_list s) (list_prev_update (\<lambda>_. p)) s else s) in
            (p, s\<lparr>process_list := p\<rparr>))))"

definition reap_process :: "ptr \<Rightarrow> 'a proc_sys_scheme \<Rightarrow> 'a proc_sys_scheme" where
  "reap_process p s =
     (if p = 0 \<or> proc_state (procs s p) \<noteq> Zombie then s
      else
        (let s = (if parent (procs s p) \<noteq> 0 then unlink_child (parent (procs s p)) p s else s);
             s = unlink_global p s;
             s = s\<lparr>memory_manager := free_address_space (pml4_phys (procs s p)) (memory_manager s)\<rparr>;
             s = pid_free (pid (procs s p)) s in
         proc_kfree p s))"

partial_function (option) reparent_from :: "ptr \<Rightarrow> ptr \<Rightarrow> ptr \<Rightarrow> 'a proc_sys_scheme \<Rightarrow> 'a proc_sys_scheme option" where
  "reparent_from dying new_parent child s =
     (if child = 0 then Some s
      else reparent_from dying new_parent (child_next (procs s child))
             (link_child new_parent child
               (set_proc child (parent_update (\<lambda>_. new_parent)) (unlink_child dying child s))))"

definition reparent_children :: "ptr \<Rightarrow> ptr \<Rightarrow> 'a proc_sys_scheme \<Rightarrow> 'a proc_sys_scheme option" where
  "reparent_children dying new_parent s =
     (if dying = 0 \<or> new_parent = 0 then Some s
      else reparent_from dying new_parent (child_head (procs s dying)) s)"

partial_function (option) reap_from :: "ptr \<Rightarrow> 'a proc_sys_scheme \<Rightarrow> 'a proc_sys_scheme option" where
  "reap_from child s =
     (if child = 0 then Some s
      else reap_from (child_next (procs s child))
             (if proc_state (procs s child) = Zombie then reap_process child s else s))"

definition reap_zombies_of_init :: "'a proc_sys_scheme \<Rightarrow> 'a proc_sys_scheme option" where
  "reap_zombies_of_init s =
     (case find_init_process s of
        None \<Rightarrow> None
      | Some ini \<Rightarrow> if ini = 0 then Some s else reap_from (child_head (procs s ini)) s)"

section \<open>Threads\<close>

text \<open>\<open>trampoline\<close> is the address of the assembly routine \<open>thread_trampoline\<close>, \<open>hhdm\<close> the offset of the
  direct map.\<close>

definition thread_create :: "u64 \<Rightarrow> u64 \<Rightarrow> ptr \<Rightarrow> u64 \<Rightarrow> u64 \<Rightarrow> 'a proc_sys_scheme \<Rightarrow> ptr \<times> 'a proc_sys_scheme" where
  "thread_create trampoline hhdm process entry stack_end s =
     (let (t, s) = proc_kalloc s in
      if t = 0 then (0, s)
      else
        (let (stack_phys, pm) = alloc_pages stack_pages (page_alloc (memory_manager s));
             s = s\<lparr>memory_manager := (memory_manager s)\<lparr>page_alloc := pm\<rparr>\<rparr> in
         if stack_phys = invalid_physical_address then (0, proc_kfree t s)
         else
           (let stack_virt = physical_to_virtual hhdm stack_phys;
                top = stack_virt + stack_size;
                s = s\<lparr>threads := (threads s)(t := \<lparr>thread_process = process, user_rsp = stack_end, user_rip = entry,
                      user_rsp0 = top, thread_next = 0, thread_prev = 0\<rparr>)\<rparr>;
                s = set_task t (\<lambda>task. task\<lparr>task_id := 0, task_state := Ready,
                      task_stack := \<lparr>stack_base = stack_virt, stack_top = top, physical_page = stack_phys,
                                     page_count = stack_pages\<rparr>,
                      task_entry := 0, task_arg := 0, task_thread := t,
                      task_cr3 := (if process \<noteq> 0 then pml4_phys (procs s process)
                                   else kernel_pml4_phys (memory_manager s))\<rparr>) s;
                w = fold (\<lambda>i m. m(stack_virt + 8 * of_nat i := 0)) [0 ..< unat stack_size div 8] (words s);
                w = w(top - 8 := trampoline);
                w = fold (\<lambda>i m. m(top - 8 * of_nat i := 0)) [2 ..< 8] w in
            (t, set_task t (task_context_update (\<lambda>_. top - 56)) (s\<lparr>words := w\<rparr>)))))"

end
