(* ===== verification/Tori_Elf.thy ===== *)
theory Tori_Elf
  imports Tori_Vmm
begin

unbundle bit_operations_syntax

text \<open>
  The ELF loader (\<open>kernel/src/process/elf.cpp\<close>, \<open>elf.hpp\<close>).  The read operation of the file is a
  parameter: for an offset and a count it gives an error code and the bytes it stored.  Bytes of a page
  are the bytes of the words the virtual memory manager keeps in it.
\<close>

definition ERR_IO :: int where "ERR_IO = 5"
definition ERR_NO_MEM :: int where "ERR_NO_MEM = 12"
definition ERR_INVALID :: int where "ERR_INVALID = 22"

type_synonym file_read = "u64 \<Rightarrow> u64 \<Rightarrow> int \<times> u8 list"

record Elf64_Ehdr =
  e_ident :: "u8 list"
  e_type :: u16
  e_machine :: u16
  e_version :: u32
  e_entry :: u64
  e_phoff :: u64
  e_phentsize :: u16
  e_phnum :: u16

record Elf64_Phdr =
  p_type :: u32
  p_flags :: u32
  p_offset :: u64
  p_vaddr :: u64
  p_filesz :: u64
  p_memsz :: u64

record ElfLoadResult =
  elf_entry :: u64
  elf_stack_top :: u64
  elf_brk_base :: u64

definition user_stack_base :: u64 where "user_stack_base = 0x00007FFFF0000000"
definition user_stack_pages :: u64 where "user_stack_pages = 16"
definition user_stack_size :: u64 where "user_stack_size = user_stack_pages * 4096"
definition user_stack_top :: u64 where "user_stack_top = user_stack_base + user_stack_size"
definition default_load_address :: u64 where "default_load_address = 0x400000"

section \<open>Bytes of memory\<close>

definition load_byte :: "vmm \<Rightarrow> u64 \<Rightarrow> u8" where
  "load_byte s a = ucast (drop_bit (8 * unat (a AND 7)) (frames s (a AND NOT 0xFFF) (unat (a AND 0xFFF) div 8)))"

definition store_byte :: "u64 \<Rightarrow> u8 \<Rightarrow> vmm \<Rightarrow> vmm" where
  "store_byte a b s =
     (let page = a AND NOT 0xFFF; i = unat (a AND 0xFFF) div 8; sh = 8 * unat (a AND 7) in
      set_entry page i ((frames s page i AND NOT (push_bit sh 0xFF)) OR push_bit sh (ucast b)) s)"

definition store_bytes :: "u64 \<Rightarrow> u8 list \<Rightarrow> vmm \<Rightarrow> vmm" where
  "store_bytes a bs s = fold (\<lambda>k. store_byte (a + of_nat k) (bs ! k)) [0 ..< length bs] s"

text \<open>A little-endian field of \<open>n\<close> bytes.\<close>

definition le_field :: "(nat \<Rightarrow> u8) \<Rightarrow> nat \<Rightarrow> nat \<Rightarrow> u64" where
  "le_field g off n = fold (\<lambda>k acc. acc OR push_bit (8 * k) (ucast (g (off + k)))) [0 ..< n] 0"

definition read_ehdr :: "u8 list \<Rightarrow> Elf64_Ehdr" where
  "read_ehdr bs = (let g = (\<lambda>i. bs ! i) in
     \<lparr>e_ident = take 16 bs, e_type = ucast (le_field g 16 2), e_machine = ucast (le_field g 18 2),
      e_version = ucast (le_field g 20 4), e_entry = le_field g 24 8, e_phoff = le_field g 32 8,
      e_phentsize = ucast (le_field g 54 2), e_phnum = ucast (le_field g 56 2)\<rparr>)"

definition read_phdr :: "vmm \<Rightarrow> u64 \<Rightarrow> nat \<Rightarrow> Elf64_Phdr" where
  "read_phdr s phdrs i = (let g = (\<lambda>k. load_byte s (phdrs + of_nat (56 * i + k))) in
     \<lparr>p_type = ucast (le_field g 0 4), p_flags = ucast (le_field g 4 4), p_offset = le_field g 8 8,
      p_vaddr = le_field g 16 8, p_filesz = le_field g 32 8, p_memsz = le_field g 40 8\<rparr>)"

section \<open>The loader\<close>

definition ehdr_valid :: "Elf64_Ehdr \<Rightarrow> bool" where
  "ehdr_valid h \<longleftrightarrow> take 4 (e_ident h) = [0x7F, 69, 76, 70] \<and> e_ident h ! 4 = 2 \<and> e_ident h ! 5 = 1
     \<and> e_version h = 1 \<and> e_machine h = 0x3E \<and> (e_type h = 2 \<or> e_type h = 3) \<and> e_phentsize h = 56"

text \<open>The pages of a loop \<open>for (page = a; page < b; page += 0x1000)\<close> between page addresses.\<close>

definition page_range :: "u64 \<Rightarrow> u64 \<Rightarrow> u64 list" where
  "page_range a b = map (\<lambda>k. a + of_nat k * 0x1000) [0 ..< (unat b - unat a) div 4096]"

text \<open>A fresh zeroed page at a virtual address; \<open>Inl\<close> is the error of the loader.\<close>

definition map_zero_page :: "u64 \<Rightarrow> u64 \<Rightarrow> u64 \<Rightarrow> vmm \<Rightarrow> ((int + u64) \<times> vmm) option" where
  "map_zero_page page flags pml4_phys s =
     (let (phys, s) = vmm_alloc_page s in
      if phys = invalid_physical_address then Some (Inl (- ERR_NO_MEM), s)
      else do {
        s \<leftarrow> map_page page phys flags pml4_phys (fill_table phys (\<lambda>_. 0) s);
        Some (Inr phys, s)
      })"

text \<open>The position in the file while a segment is loaded.\<close>

record elf_pos =
  file_offset :: u64
  remaining_file :: u64
  max_end :: u64

definition segment_flags :: "Elf64_Phdr \<Rightarrow> u64" where
  "segment_flags ph = pte_present OR pte_user
     OR (if p_flags ph AND 2 \<noteq> 0 then pte_writable else 0)
     OR (if p_flags ph AND 1 = 0 then 2 ^ 63 else 0)"

text \<open>The body of the loop over the pages of a segment; \<open>page_start\<close>, \<open>page_end\<close> and \<open>first_page_off\<close> are
  those of the segment.  The number of bytes the file gave is not looked at.\<close>

definition load_page ::
  "file_read \<Rightarrow> u64 \<Rightarrow> Elf64_Phdr \<Rightarrow> u64 \<Rightarrow> u64 \<Rightarrow> u64 \<Rightarrow> u64 \<Rightarrow> elf_pos \<Rightarrow> vmm \<Rightarrow> ((int + elf_pos) \<times> vmm) option" where
  "load_page rd pml4_phys ph page_start page_end first_page_off page st s = do {
     (r, s) \<leftarrow> map_zero_page page (segment_flags ph) pml4_phys s;
     case r of Inl err \<Rightarrow> Some (Inl err, s)
     | Inr phys \<Rightarrow>
         (let st = (if page_end > max_end st then st\<lparr>max_end := page_end\<rparr> else st) in
          if remaining_file st > 0 then
            (let page_off = (if page = page_start then first_page_off else 0);
                 space = 0x1000 - page_off;
                 copy_size = (if remaining_file st < space then remaining_file st else space) in
             if copy_size > 0 then
               (let (err, bytes) = rd (file_offset st) copy_size;
                    s = store_bytes (phys + page_off) bytes s in
                if err < 0 then Some (Inl (- ERR_IO), s)
                else Some (Inr (st\<lparr>file_offset := file_offset st + copy_size,
                                   remaining_file := remaining_file st - copy_size\<rparr>), s))
             else Some (Inr st, s))
          else Some (Inr st, s))
   }"

fun load_pages ::
  "file_read \<Rightarrow> u64 \<Rightarrow> Elf64_Phdr \<Rightarrow> u64 \<Rightarrow> u64 \<Rightarrow> u64 \<Rightarrow> u64 list \<Rightarrow> elf_pos \<Rightarrow> vmm
     \<Rightarrow> ((int + elf_pos) \<times> vmm) option" where
  "load_pages rd pml4 ph a b o1 [] st s = Some (Inr st, s)"
| "load_pages rd pml4 ph a b o1 (page # pages) st s = do {
     (r, s) \<leftarrow> load_page rd pml4 ph a b o1 page st s;
     case r of Inl err \<Rightarrow> Some (Inl err, s) | Inr st \<Rightarrow> load_pages rd pml4 ph a b o1 pages st s
   }"

definition page_end_of :: "u64 \<Rightarrow> u64 \<Rightarrow> u64" where
  "page_end_of vaddr memsz = (vaddr + memsz + 0xFFF) AND NOT 0xFFF"

text \<open>One program header; the result is \<open>max_end\<close>.\<close>

definition load_segment ::
  "file_read \<Rightarrow> u64 \<Rightarrow> u64 \<Rightarrow> Elf64_Phdr \<Rightarrow> u64 \<Rightarrow> vmm \<Rightarrow> ((int + u64) \<times> vmm) option" where
  "load_segment rd pml4_phys load_bias ph mx s =
     (if p_type ph \<noteq> 1 then Some (Inr mx, s)
      else
        (let vaddr = p_vaddr ph + load_bias;
             page_start = vaddr AND NOT 0xFFF;
             page_end = page_end_of vaddr (p_memsz ph);
             st = \<lparr>file_offset = p_offset ph, remaining_file = p_filesz ph, max_end = mx\<rparr> in do {
           (r, s) \<leftarrow> load_pages rd pml4_phys ph page_start page_end (vaddr AND 0xFFF)
                       (page_range page_start page_end) st s;
           Some (case r of Inl err \<Rightarrow> Inl err | Inr st \<Rightarrow> Inr (max_end st), s)
         }))"

fun load_segments ::
  "file_read \<Rightarrow> u64 \<Rightarrow> u64 \<Rightarrow> u64 \<Rightarrow> nat list \<Rightarrow> u64 \<Rightarrow> vmm \<Rightarrow> ((int + u64) \<times> vmm) option" where
  "load_segments rd pml4 bias phdrs [] mx s = Some (Inr mx, s)"
| "load_segments rd pml4 bias phdrs (i # is) mx s = do {
     (r, s) \<leftarrow> load_segment rd pml4 bias (read_phdr s phdrs i) mx s;
     case r of Inl err \<Rightarrow> Some (Inl err, s) | Inr mx \<Rightarrow> load_segments rd pml4 bias phdrs is mx s
   }"

text \<open>The loop over the pages of the stack; the result is \<open>last_stack_phys\<close>.\<close>

fun map_stack :: "u64 \<Rightarrow> u64 list \<Rightarrow> u64 \<Rightarrow> vmm \<Rightarrow> ((int + u64) \<times> vmm) option" where
  "map_stack pml4 [] phys s = Some (Inr phys, s)"
| "map_stack pml4 (page # pages) last_phys s = do {
     (r, s) \<leftarrow> map_zero_page page (pte_present OR pte_user OR pte_writable OR 2 ^ 63) pml4 s;
     case r of Inl err \<Rightarrow> Some (Inl err, s) | Inr phys \<Rightarrow> map_stack pml4 pages phys s
   }"

definition initial_stack :: "u64 \<Rightarrow> vmm \<Rightarrow> u64 \<times> vmm" where
  "initial_stack last_stack_phys s =
     ((user_stack_top - 0x1000) + 509 * 8,
      set_entry last_stack_phys 509 0 (set_entry last_stack_phys 510 0 (set_entry last_stack_phys 511 0 s)))"

definition elf_free_pages :: "u64 \<Rightarrow> u64 \<Rightarrow> vmm \<Rightarrow> vmm" where
  "elf_free_pages a n s = s\<lparr>page_alloc := free_pages a n (page_alloc s)\<rparr>"

text \<open>From the allocation of the buffer for the program headers on.\<close>

definition elf_load_image :: "file_read \<Rightarrow> u64 \<Rightarrow> Elf64_Ehdr \<Rightarrow> vmm \<Rightarrow> ((int + ElfLoadResult) \<times> vmm) option" where
  "elf_load_image rd pml4_phys ehdr s =
     (let load_bias = (if e_type ehdr = 3 then default_load_address else 0);
          phdrs_size = ucast (e_phnum ehdr) * 56;
          n = (phdrs_size + 0xFFF) div 0x1000;
          phdrs_pages = (if n = 0 then 1 else n);
          (buf, pm) = alloc_pages phdrs_pages (page_alloc s);
          s = s\<lparr>page_alloc := pm\<rparr> in
      if buf = invalid_physical_address then Some (Inl (- ERR_NO_MEM), s)
      else
        (let (err, bytes) = rd (e_phoff ehdr) phdrs_size;
             s = store_bytes buf bytes s in
         if err < 0 \<or> of_nat (length bytes) \<noteq> phdrs_size
         then Some (Inl (- ERR_IO), elf_free_pages buf phdrs_pages s)
         else do {
           (r, s) \<leftarrow> load_segments rd pml4_phys load_bias buf [0 ..< unat (e_phnum ehdr)] 0 s;
           case r of Inl err \<Rightarrow> Some (Inl err, elf_free_pages buf phdrs_pages s)
           | Inr mx \<Rightarrow> do {
               (r, s) \<leftarrow> map_stack pml4_phys (page_range user_stack_base user_stack_top) 0 s;
               case r of Inl err \<Rightarrow> Some (Inl err, elf_free_pages buf phdrs_pages s)
               | Inr last_phys \<Rightarrow>
                   (let (stack_top, s) = initial_stack last_phys s in
                    Some (Inr \<lparr>elf_entry = e_entry ehdr + load_bias, elf_stack_top = stack_top, elf_brk_base = mx\<rparr>,
                          elf_free_pages buf phdrs_pages s))
             }
         }))"

text \<open>A null \<open>file\<close> is \<open>None\<close>; the result that is stored in \<open>*out\<close> is returned.\<close>

definition elf64_load :: "file_read option \<Rightarrow> u64 \<Rightarrow> vmm \<Rightarrow> ((int + ElfLoadResult) \<times> vmm) option" where
  "elf64_load file pml4_phys s =
     (case file of None \<Rightarrow> Some (Inl (- ERR_INVALID), s)
      | Some rd \<Rightarrow>
          (let (err, bytes) = rd 0 64 in
           if err < 0 \<or> length bytes \<noteq> 64 then Some (Inl (- ERR_IO), s)
           else if \<not> ehdr_valid (read_ehdr bytes) then Some (Inl (- ERR_INVALID), s)
           else elf_load_image rd pml4_phys (read_ehdr bytes) s))"

section \<open>What the loader returns\<close>

text \<open>A step that passes an error on.\<close>

lemma try_result:
  "(case r of Inl e \<Rightarrow> Some (Inl e, u) | Inr x \<Rightarrow> f x) = Some (Inr y, t) \<longleftrightarrow> (\<exists>x. r = Inr x \<and> f x = Some (Inr y, t))"
  "(case r of Inl e \<Rightarrow> Some (Inl e, u) | Inr x \<Rightarrow> f x) = Some (Inl d, t)
     \<longleftrightarrow> r = Inl d \<and> u = t \<or> (\<exists>x. r = Inr x \<and> f x = Some (Inl d, t))"
  "(case r of Inl e \<Rightarrow> Inl e | Inr x \<Rightarrow> Inr (g x)) = Inr y \<longleftrightarrow> (\<exists>x. r = Inr x \<and> g x = y)"
  "(case r of Inl e \<Rightarrow> Inl e | Inr x \<Rightarrow> Inr (g x)) = Inl d \<longleftrightarrow> r = Inl d"
  by (cases r; auto)+

lemma page_end_aligned: "page_end_of v n AND 0xFFF = 0"
  by (simp add: page_end_of_def and.assoc)

lemma load_page_end:
  "load_page rd pml4 ph a b o1 page st s = Some (Inr st', s') \<Longrightarrow> max_end st' = max (max_end st) b"
  by (auto simp: load_page_def bind_eq_Some_conv try_result Let_def split_beta max_def split: if_split_asm)

lemma load_pages_end:
  "load_pages rd pml4 ph a b o1 pages st s = Some (Inr st', s')
     \<Longrightarrow> max_end st' = (if pages = [] then max_end st else max (max_end st) b)"
proof (induction pages arbitrary: st s)
  case (Cons page pages)
  from Cons.prems obtain st1 s1 where "load_page rd pml4 ph a b o1 page st s = Some (Inr st1, s1)"
    "load_pages rd pml4 ph a b o1 pages st1 s1 = Some (Inr st', s')"
    by (auto simp: bind_eq_Some_conv try_result)
  then show ?case using Cons.IH load_page_end by fastforce
qed simp

lemma load_segment_end:
  assumes "load_segment rd pml4 bias ph mx s = Some (Inr mx1, s1)"
  shows "mx1 = mx \<or> mx1 = max mx (page_end_of (p_vaddr ph + bias) (p_memsz ph))"
proof (cases "p_type ph = 1")
  case True
  define a b where "a = (p_vaddr ph + bias) AND NOT 0xFFF" and "b = page_end_of (p_vaddr ph + bias) (p_memsz ph)"
  from assms True obtain st where
    "load_pages rd pml4 ph a b ((p_vaddr ph + bias) AND 0xFFF) (page_range a b)
       \<lparr>file_offset = p_offset ph, remaining_file = p_filesz ph, max_end = mx\<rparr> s = Some (Inr st, s1)" "mx1 = max_end st"
    unfolding load_segment_def Let_def a_def [symmetric] b_def [symmetric]
    by (auto simp: bind_eq_Some_conv try_result)
  then show ?thesis using load_pages_end by (fastforce simp: b_def)
next
  case False
  then show ?thesis using assms by (simp add: load_segment_def)
qed

lemma load_segments_end:
  "load_segments rd pml4 bias phdrs is mx s = Some (Inr mx', s') \<Longrightarrow> mx AND 0xFFF = 0 \<Longrightarrow> mx' AND 0xFFF = 0 \<and> mx \<le> mx'"
proof (induction "is" arbitrary: mx s)
  case (Cons i "is")
  from Cons.prems(1) obtain mx1 s1 where 1: "load_segment rd pml4 bias (read_phdr s phdrs i) mx s = Some (Inr mx1, s1)"
    "load_segments rd pml4 bias phdrs is mx1 s1 = Some (Inr mx', s')"
    by (auto simp: bind_eq_Some_conv try_result)
  note load_segment_end [OF 1(1)]
  then have "mx1 AND 0xFFF = 0 \<and> mx \<le> mx1" using Cons.prems(2) page_end_aligned by (auto simp: max_def)
  then show ?case using Cons.IH [OF 1(2)] by auto
qed simp

lemma map_zero_page_error: "map_zero_page page fl pml4 s = Some (Inl e, t) \<Longrightarrow> e = - ERR_NO_MEM"
  by (auto simp: map_zero_page_def Let_def split_beta bind_eq_Some_conv try_result split: if_split_asm)

lemma load_page_error: "load_page rd pml4 ph a b o1 page st s = Some (Inl e, t) \<Longrightarrow> e \<in> {- ERR_IO, - ERR_NO_MEM}"
  by (auto simp: load_page_def bind_eq_Some_conv try_result Let_def split_beta dest: map_zero_page_error
      split: if_split_asm)

lemma load_pages_error:
  "load_pages rd pml4 ph a b o1 pages st s = Some (Inl e, t) \<Longrightarrow> e \<in> {- ERR_IO, - ERR_NO_MEM}"
  by (induction pages arbitrary: st s) (auto simp: bind_eq_Some_conv try_result dest: load_page_error)

lemma load_segment_error:
  "load_segment rd pml4 bias ph mx s = Some (Inl e, t) \<Longrightarrow> e \<in> {- ERR_IO, - ERR_NO_MEM}"
  by (auto simp: load_segment_def bind_eq_Some_conv try_result Let_def split_beta dest: load_pages_error split: if_split_asm)

lemma load_segments_error:
  "load_segments rd pml4 bias phdrs is mx s = Some (Inl e, t) \<Longrightarrow> e \<in> {- ERR_IO, - ERR_NO_MEM}"
  by (induction "is" arbitrary: mx s) (auto simp: bind_eq_Some_conv try_result dest: load_segment_error)

lemma map_stack_error: "map_stack pml4 pages phys s = Some (Inl e, t) \<Longrightarrow> e = - ERR_NO_MEM"
  by (induction pages arbitrary: phys s) (auto simp: bind_eq_Some_conv try_result dest: map_zero_page_error)

lemma elf_load_image_error:
  "elf_load_image rd pml4 h s = Some (Inl e, t) \<Longrightarrow> e \<in> {- ERR_IO, - ERR_NO_MEM}"
  by (auto simp: elf_load_image_def bind_eq_Some_conv try_result Let_def split_beta dest: load_segments_error map_stack_error
      split: if_split_asm)

lemma elf_load_image_result:
  assumes "elf_load_image rd pml4 h s = Some (Inr r, t)"
  shows "elf_entry r = e_entry h + (if e_type h = 3 then 0x400000 else 0)"
    and "elf_stack_top r = 0x7FFFF000FFE8" and "elf_brk_base r AND 0xFFF = 0"
proof -
  obtain buf s1 mx s2 lp s3 where
    1: "load_segments rd pml4 (if e_type h = 3 then default_load_address else 0) buf [0 ..< unat (e_phnum h)] 0 s1 = Some (Inr mx, s2)"
    and r: "r = \<lparr>elf_entry = e_entry h + (if e_type h = 3 then default_load_address else 0),
      elf_stack_top = fst (initial_stack lp s3), elf_brk_base = mx\<rparr>"
    using assms by (auto simp: elf_load_image_def bind_eq_Some_conv try_result Let_def split_beta split: if_split_asm)
  show "elf_entry r = e_entry h + (if e_type h = 3 then 0x400000 else 0)" by (simp add: r default_load_address_def)
  show "elf_stack_top r = 0x7FFFF000FFE8"
    by (simp add: r initial_stack_def user_stack_top_def user_stack_base_def user_stack_size_def user_stack_pages_def)
  show "elf_brk_base r AND 0xFFF = 0" using load_segments_end [OF 1] by (simp add: r)
qed

section \<open>Enough memory\<close>

text \<open>The allocator has at least \<open>n\<close> free pages.\<close>

definition enough :: "nat \<Rightarrow> vmm \<Rightarrow> bool" where
  "enough n s \<longleftrightarrow> pmm_inv (page_alloc s) \<and> n \<le> card (pmm_avail (page_alloc s))"

lemma enough_cong: "page_alloc t = page_alloc s \<Longrightarrow> enough n t = enough n s"
  by (simp add: enough_def)

lemma set_entry_page_alloc [simp]: "page_alloc (set_entry t i v s) = page_alloc s"
  by (simp add: set_entry_def)

lemma fill_table_page_alloc [simp]: "page_alloc (fill_table t g s) = page_alloc s"
proof -
  have "page_alloc (fold (\<lambda>i. set_entry t i (g i)) xs s) = page_alloc s" for xs
    by (induction xs arbitrary: s) simp_all
  then show ?thesis by (simp add: fill_table_def)
qed

lemma alloc_enough:
  assumes "enough (Suc n) s" and "vmm_alloc_page s = (a, t)"
  shows "a \<noteq> invalid_physical_address \<and> enough n t"
proof -
  obtain p where p: "alloc_page (page_alloc s) = (a, p)" "t = s\<lparr>page_alloc := p\<rparr>"
    using assms(2) by (auto simp: vmm_alloc_page_def split: prod.split_asm)
  have inv: "pmm_inv (page_alloc s)" and c: "Suc n \<le> card (pmm_avail (page_alloc s))"
    using assms(1) by (auto simp: enough_def)
  then have "pmm_avail (page_alloc s) \<noteq> {}" by auto
  then have a: "a \<noteq> invalid_physical_address" using pmm.alloc_progress [OF inv _ p(1)] by blast
  from pmm.alloc_ok [OF inv p(1) a] c pmm.alloc_invar [OF inv p(1)]
  show ?thesis using a p(2) by (auto simp: enough_def card_Diff_singleton)
qed

lemma enough_mono: "enough (Suc n) s \<Longrightarrow> enough n s"
  by (simp add: enough_def)

lemma ensure_table_enough:
  assumes "enough (Suc n) s"
  shows "\<exists>a t. ensure_table x i s = Some (a, t) \<and> enough n t"
proof -
  obtain a t where "vmm_alloc_page s = (a, t)" by fastforce
  then show ?thesis using alloc_enough [OF assms] enough_mono [OF assms]
    by (auto simp: ensure_table_def Let_def cong: enough_cong intro: enough_cong [THEN iffD2])
qed

lemma split_if_huge_enough:
  assumes "enough (Suc n) s"
  shows "\<exists>t. split_if_huge x i l s = Some t \<and> enough n t"
proof -
  obtain a t where "vmm_alloc_page s = (a, t)" by fastforce
  then show ?thesis using alloc_enough [OF assms] enough_mono [OF assms]
    by (auto simp: split_if_huge_def split_huge_def Let_def intro: enough_cong [THEN iffD2])
qed

lemma map_page_enough:
  assumes "enough (n + 5) s" and "pml4 \<noteq> 0"
  shows "\<exists>t. map_page v p fl pml4 s = Some t \<and> enough n t"
proof -
  have 0: "enough (Suc (Suc (Suc (Suc (Suc n))))) s" using assms(1) by (simp add: eval_nat_numeral)
  obtain a1 s1 where 1: "ensure_table pml4 (table_index v 39) s = Some (a1, s1)" "enough (Suc (Suc (Suc (Suc n)))) s1"
    using ensure_table_enough [OF 0] by blast
  obtain s2 where 2: "split_if_huge a1 (table_index v 30) 1 s1 = Some s2" "enough (Suc (Suc (Suc n))) s2"
    using split_if_huge_enough [OF 1(2)] by blast
  obtain a3 s3 where 3: "ensure_table a1 (table_index v 30) s2 = Some (a3, s3)" "enough (Suc (Suc n)) s3"
    using ensure_table_enough [OF 2(2)] by blast
  obtain s4 where 4: "split_if_huge a3 (table_index v 21) 2 s3 = Some s4" "enough (Suc n) s4"
    using split_if_huge_enough [OF 3(2)] by blast
  obtain a5 s5 where 5: "ensure_table a3 (table_index v 21) s4 = Some (a5, s5)" "enough n s5"
    using ensure_table_enough [OF 4(2)] by blast
  show ?thesis
    using 1(1) 2(1) 3(1) 4(1) 5 assms(2)
    by (simp add: map_page_def resolve_pml4_def Let_def del: One_nat_def) (simp add: enough_def)
qed

lemma map_zero_page_enough:
  assumes "enough (n + 6) s" and "pml4 \<noteq> 0"
  shows "\<exists>p t. map_zero_page page fl pml4 s = Some (Inr p, t) \<and> enough n t"
proof -
  obtain a t where a: "vmm_alloc_page s = (a, t)" by fastforce
  have "enough (Suc (n + 5)) s" using assms(1) by (simp add: eval_nat_numeral)
  from alloc_enough [OF this a] have "a \<noteq> invalid_physical_address"
    "enough (n + 5) (fill_table a (\<lambda>_. 0) t)" by (auto simp: enough_def)
  moreover from this(2) obtain u where "map_page page a fl pml4 (fill_table a (\<lambda>_. 0) t) = Some u" "enough n u"
    using map_page_enough [OF _ assms(2)] by blast
  ultimately show ?thesis using a by (simp add: map_zero_page_def)
qed

lemma map_stack_enough:
  "enough (n + 6 * length pages) s \<Longrightarrow> pml4 \<noteq> 0 \<Longrightarrow> \<exists>p t. map_stack pml4 pages phys s = Some (Inr p, t) \<and> enough n t"
proof (induction pages arbitrary: phys s)
  case (Cons page pages)
  have "enough ((n + 6 * length pages) + 6) s" using Cons.prems(1) by (simp add: algebra_simps)
  from map_zero_page_enough [OF this Cons.prems(2)] obtain p t where
    "map_zero_page page (pte_present OR pte_user OR pte_writable OR 2 ^ 63) pml4 s = Some (Inr p, t)"
    "enough (n + 6 * length pages) t" by blast
  then show ?case using Cons.IH [OF _ Cons.prems(2)] by simp
qed auto

text \<open>A program without segments loads when there are pages for the buffer, the stack and its tables.\<close>

lemma elf_load_image_returns:
  assumes "enough 97 s" and "pml4 \<noteq> 0" and "e_phnum h = 0" and "rd (e_phoff h) 0 = (0, [])"
  shows "\<exists>r t. elf_load_image rd pml4 h s = Some (Inr r, t)"
proof -
  obtain a p where a: "alloc_pages 1 (page_alloc s) = (a, p)" by fastforce
  have "vmm_alloc_page s = (a, s\<lparr>page_alloc := p\<rparr>)" using a by (simp add: vmm_alloc_page_def alloc_page_def)
  from alloc_enough [OF _ this, of 96] have e: "a \<noteq> invalid_physical_address" "enough 96 (s\<lparr>page_alloc := p\<rparr>)"
    using assms(1) by simp_all
  have "length (page_range user_stack_base user_stack_top) = 16"
    by (simp add: page_range_def user_stack_top_def user_stack_base_def user_stack_size_def user_stack_pages_def)
  then obtain q t where "map_stack pml4 (page_range user_stack_base user_stack_top) 0 (s\<lparr>page_alloc := p\<rparr>) = Some (Inr q, t)"
    using map_stack_enough [of 0 "page_range user_stack_base user_stack_top" "s\<lparr>page_alloc := p\<rparr>" pml4 0] e(2) assms(2)
    by auto
  then show ?thesis
    using a e(1) assms(3,4) by (simp add: elf_load_image_def Let_def store_bytes_def split_beta)
qed

text \<open>Loading a file whose header cannot be read, or is not that of a little-endian x86-64 program, reports
  an I/O error or an invalid argument and changes nothing; later failures are only I/O errors and lack
  of memory.  A successful load returns the entry point, moved by the load address for a
  position-independent program, a page-aligned program break, and a stack pointer that is 8 modulo 16.\<close>

theorem elf64_load_outcome:
  "(let (err, bytes) = rd 0 64; h = read_ehdr bytes in
    case elf64_load (Some rd) pml4 s of
      Some (Inl e, t) \<Rightarrow>
        if err < 0 \<or> length bytes \<noteq> 64 then e = - 5 \<and> t = s
        else if \<not> ehdr_valid h then e = - 22 \<and> t = s
        else e = - 5 \<or> e = - 12
    | Some (Inr r, t) \<Rightarrow>
        0 \<le> err \<and> length bytes = 64 \<and> ehdr_valid h
        \<and> elf_entry r = e_entry h + (if e_type h = 3 then 0x400000 else 0)
        \<and> elf_brk_base r AND 0xFFF = 0 \<and> elf_stack_top r = 0x7FFFF000FFE8 \<and> elf_stack_top r mod 16 = 8
    | None \<Rightarrow> 0 \<le> err \<and> length bytes = 64 \<and> ehdr_valid h)"
proof (cases "rd 0 64")
  case (Pair err bytes)
  let ?h = "read_ehdr bytes"
  show ?thesis
  proof (cases "err < 0 \<or> length bytes \<noteq> 64 \<or> \<not> ehdr_valid ?h")
    case True
    then show ?thesis by (auto simp: Pair elf64_load_def ERR_IO_def ERR_INVALID_def)
  next
    case False
    then have e: "elf64_load (Some rd) pml4 s = elf_load_image rd pml4 ?h s" by (simp add: Pair elf64_load_def)
    show ?thesis
      using False elf_load_image_error [of rd pml4 ?h s] elf_load_image_result [of rd pml4 ?h s]
      unfolding Pair e by (auto simp: Let_def ERR_IO_def ERR_NO_MEM_def split: option.split sum.split)
  qed
qed

text \<open>A machine with all pages free, and the header of a program without segments.\<close>

definition example_elf_vmm :: vmm where
  "example_elf_vmm = \<lparr>frames = (\<lambda>_ _. 0),
     page_alloc = \<lparr>page_bitmap = (\<lambda>_. 0), page_refcounts = (\<lambda>_. 0),
       allocator_stats = \<lparr>managed_pages = max_managed_pages, free_page_count = max_managed_pages, used_page_count = 0,
         reclaimed_bootloader_pages = 0, skipped_pages = 0\<rparr>, next_search_page = 0\<rparr>,
     kernel_pml4_phys = 0x10000, vmem_current = 0, vmem_end = 0\<rparr>"

definition example_header :: "u8 list" where
  "example_header = [0x7F, 69, 76, 70, 2, 1, 1, 0, 0, 0, 0, 0, 0, 0, 0, 0, 3, 0, 0x3E, 0, 1, 0, 0, 0, 0x10, 0, 0, 0,
     0, 0, 0, 0, 64] @ replicate 21 0 @ [56] @ replicate 9 0"

lemma example_elf_enough: "enough 97 example_elf_vmm"
proof -
  let ?p = "page_alloc example_elf_vmm"
  have f: "free_set ?p = {p. p < max_managed_pages}"
    by (auto simp: free_set_def page_index_valid_def is_page_used_def example_elf_vmm_def)
  have u: "unat (of_nat x :: u64) = x" if "x < 1048576" for x :: nat
    using that by (simp add: unsigned_of_nat take_bit_nat_eq_self)
  have "{p :: u64. p < max_managed_pages} = of_nat ` {..< 1048576}"
  proof (intro equalityI subsetI)
    fix p :: u64 assume "p \<in> {p. p < max_managed_pages}"
    then have "unat p < 1048576" by (simp add: max_managed_pages_def word_less_nat_alt)
    then show "p \<in> of_nat ` {..< 1048576}" by (intro image_eqI [of _ _ "unat p"]) simp_all
  next
    fix p :: u64 assume "p \<in> of_nat ` {..< 1048576}"
    then obtain x where "p = of_nat x" "x < 1048576" by blast
    then show "p \<in> {p. p < max_managed_pages}" using u [of x] by (simp add: max_managed_pages_def word_less_nat_alt)
  qed
  moreover have "inj_on (of_nat :: nat \<Rightarrow> u64) {..< 1048576}"
    by (rule inj_on_inverseI [of _ unat]) (use u in blast)
  ultimately have c: "card (free_set ?p) = 1048576" using f by (simp add: card_image)
  have "inj_on (\<lambda>p. p * page_size) (free_set ?p)"
    by (auto simp: inj_on_def free_set_def pmm_page_address_inj)
  then have "card (pmm_avail ?p) = 1048576" by (simp add: pmm_avail_def card_image c)
  moreover have "pmm_inv ?p"
    using c by (simp add: pmm_inv_def) (simp add: example_elf_vmm_def max_managed_pages_def)
  ultimately show ?thesis by (simp add: enough_def)
qed

theorem elf64_load_outcome_witness:
  "(\<exists>r t. elf64_load (Some (\<lambda>off n. (0, take (unat n) example_header))) 0x10000 example_elf_vmm = Some (Inr r, t)
      \<and> elf_entry r = 0x400010 \<and> elf_stack_top r mod 16 = 8)
    \<and> elf64_load (Some (\<lambda>off n. (0, replicate 64 0))) 0x10000 example_elf_vmm = Some (Inl (- 22), example_elf_vmm)"
proof
  let ?rd = "\<lambda>off n. (0, take (unat n) example_header)"
  let ?h = "read_ehdr example_header"
  have l: "length example_header = 64" by (simp add: example_header_def)
  have v: "ehdr_valid ?h" and h: "e_phnum ?h = 0" "e_entry ?h = 0x10" "e_type ?h = 3"
    by code_simp+
  have "\<exists>r t. elf_load_image ?rd 0x10000 ?h example_elf_vmm = Some (Inr r, t)"
    by (rule elf_load_image_returns [OF example_elf_enough _ h(1)]) simp_all
  then obtain r t where "elf64_load (Some ?rd) 0x10000 example_elf_vmm = Some (Inr r, t)"
    using v l by (auto simp: elf64_load_def)
  then show "\<exists>r t. elf64_load (Some ?rd) 0x10000 example_elf_vmm = Some (Inr r, t)
      \<and> elf_entry r = 0x400010 \<and> elf_stack_top r mod 16 = 8"
    using elf64_load_outcome [where rd = ?rd and ?pml4.0 = "0x10000" and s = example_elf_vmm] h l by (auto simp: Let_def)
  have "\<not> ehdr_valid (read_ehdr (replicate 64 0))" by code_simp
  then show "elf64_load (Some (\<lambda>off n. (0, replicate 64 0))) 0x10000 example_elf_vmm = Some (Inl (- 22), example_elf_vmm)"
    by (simp add: elf64_load_def ERR_INVALID_def)
qed

end
