(* ===== verification/Tori_Keyboard.thy ===== *)
theory Tori_Keyboard
  imports Tori_Prelude
begin

text \<open>
  The keyboard (\<open>kernel/src/arch/x86_64/ps2.cpp\<close>) and the line editor of the terminal
  (\<open>kernel/src/terminal/terminal.cpp\<close>).  The interrupt handler gets the byte it reads from the port as
  an argument.  A C \<open>char\<close> is its code.  The echo on the framebuffer is left out.
\<close>

section \<open>Scan codes\<close>

text \<open>The tables have 128 entries; those not listed are 0.\<close>

definition s1_normal :: "u8 list" where
  "s1_normal = [
     0, 27, 49, 50, 51, 52, 53, 54, 55, 56, 57, 48, 45, 61, 8, 9,
     113, 119, 101, 114, 116, 121, 117, 105, 111, 112, 91, 93, 10, 0, 97, 115,
     100, 102, 103, 104, 106, 107, 108, 59, 39, 96, 0, 92, 122, 120, 99, 118,
     98, 110, 109, 44, 46, 47, 0, 42, 0, 32, 0, 0, 0, 0, 0, 0] @ replicate 64 0"

definition s1_shift :: "u8 list" where
  "s1_shift = [
     0, 27, 33, 64, 35, 36, 37, 94, 38, 42, 40, 41, 95, 43, 8, 9,
     81, 87, 69, 82, 84, 89, 85, 73, 79, 80, 123, 125, 10, 0, 65, 83,
     68, 70, 71, 72, 74, 75, 76, 58, 34, 126, 0, 124, 90, 88, 67, 86,
     66, 78, 77, 60, 62, 63, 0, 42, 0, 32, 0, 0, 0, 0, 0, 0] @ replicate 64 0"

definition buf_size :: nat where "buf_size = 256"

record keyboard =
  g_shift_pressed :: bool
  g_extended :: bool
  g_buf :: "u8 list"
  g_head :: nat
  g_tail :: nat

definition buf_push :: "u8 \<Rightarrow> keyboard \<Rightarrow> bool \<times> keyboard" where
  "buf_push c k =
     (let nxt = (g_head k + 1) mod buf_size in
      if nxt = g_tail k then (False, k)
      else (True, k\<lparr>g_buf := (g_buf k)[g_head k := c], g_head := nxt\<rparr>))"

definition handle_irq :: "u8 \<Rightarrow> keyboard \<Rightarrow> keyboard" where
  "handle_irq sc k =
     (if sc = 0xE0 then k\<lparr>g_extended := True\<rparr>
      else
        (let extended = g_extended k; k = k\<lparr>g_extended := False\<rparr>;
             make = (sc AND 0x80 = 0); code = sc AND 0x7F in
         if code = 0x2A \<or> code = 0x36 then k\<lparr>g_shift_pressed := make\<rparr>
         else if \<not> make then k
         else if extended then k
         else if code \<ge> 128 then k
         else
           (let ascii = (if g_shift_pressed k then s1_shift ! unat code else s1_normal ! unat code) in
            if ascii = 0 then k else snd (buf_push ascii k))))"

definition read_char :: "keyboard \<Rightarrow> u8 \<times> keyboard" where
  "read_char k =
     (if g_head k = g_tail k then (0, k)
      else (g_buf k ! g_tail k, k\<lparr>g_tail := (g_tail k + 1) mod buf_size\<rparr>))"

definition has_char :: "keyboard \<Rightarrow> bool" where
  "has_char k \<longleftrightarrow> g_head k \<noteq> g_tail k"

section \<open>The terminal\<close>

definition line_buf_size :: nat where "line_buf_size = 256"

record terminal =
  g_line :: "u8 list"
  g_pos :: nat
  g_line_ready :: bool

definition terminal_init :: "terminal \<Rightarrow> terminal" where
  "terminal_init t = t\<lparr>g_pos := 0, g_line_ready := False, g_line := (g_line t)[0 := 0]\<rparr>"

definition put_char :: "u8 \<Rightarrow> terminal \<Rightarrow> terminal" where
  "put_char c t =
     (if g_line_ready t then t
      else if c = 8 then (if g_pos t > 0 then t\<lparr>g_pos := g_pos t - 1\<rparr> else t)
      else if c = 10 then t\<lparr>g_line := (g_line t)[g_pos t := 10], g_line_ready := True\<rparr>
      else if sint c < 0x20 \<or> sint c > 0x7E then t
      else if g_pos t < line_buf_size - 1 then t\<lparr>g_line := (g_line t)[g_pos t := c], g_pos := g_pos t + 1\<rparr>
      else t)"

text \<open>The copied line and its length, or no line; without a result the loop does not end.  \<open>max - 1\<close> wraps
  at 0, where the copy would leave both arrays.\<close>

definition copy_length :: "nat \<Rightarrow> nat \<Rightarrow> nat" where
  "copy_length pos max_len = (if pos < max_len then pos else (max_len + 2 ^ 64 - 1) mod 2 ^ 64)"

partial_function (option) read_line ::
  "nat \<Rightarrow> keyboard \<Rightarrow> terminal \<Rightarrow> (u8 list option \<times> keyboard \<times> terminal) option" where
  "read_line max_len k t =
     (if has_char k then
        (let (c, k) = read_char k; t = put_char c t in
         if g_line_ready t then
           (let len = copy_length (g_pos t) max_len in
            if len > line_buf_size then None
            else Some (Some (take len (g_line t)), k, t\<lparr>g_pos := 0, g_line_ready := False\<rparr>))
         else read_line max_len k t)
      else Some (None, k, t))"

section \<open>The ring buffer as a queue\<close>

definition kbd_ok :: "keyboard \<Rightarrow> bool" where
  "kbd_ok k \<longleftrightarrow> length (g_buf k) = 256 \<and> g_head k < 256 \<and> g_tail k < 256"

definition used :: "keyboard \<Rightarrow> nat" where
  "used k = (g_head k + 256 - g_tail k) mod 256"

definition queue :: "keyboard \<Rightarrow> u8 list" where
  "queue k = map (\<lambda>i. g_buf k ! ((g_tail k + i) mod 256)) [0 ..< used k]"

lemma length_queue [simp]: "length (queue k) = used k"
  by (simp add: queue_def)

lemma used_cases:
  assumes "kbd_ok k"
  shows "used k = (if g_tail k \<le> g_head k then g_head k - g_tail k else g_head k + 256 - g_tail k)"
  using assms by (auto simp: used_def kbd_ok_def mod_if)

lemma has_char_queue: "kbd_ok k \<Longrightarrow> has_char k \<longleftrightarrow> queue k \<noteq> []"
  using used_cases [of k] by (auto simp: has_char_def kbd_ok_def queue_def)

lemma read_char_queue:
  assumes "kbd_ok k" "queue k = c # q"
  shows "fst (read_char k) = c \<and> kbd_ok (snd (read_char k)) \<and> queue (snd (read_char k)) = q"
proof -
  let ?k = "k\<lparr>g_tail := (g_tail k + 1) mod 256\<rparr>"
  have h: "g_head k \<noteq> g_tail k" using assms has_char_queue [of k] by (simp add: has_char_def)
  have u: "used k = Suc (length q)" using assms(2) length_queue [of k] by simp
  have ok: "kbd_ok ?k" using assms(1) by (simp add: kbd_ok_def)
  have u': "used ?k = length q"
    using u used_cases [OF assms(1)] used_cases [OF ok] assms(1) h by (auto simp: kbd_ok_def mod_if split: if_splits)
  have "c = g_buf k ! g_tail k" using assms u by (simp add: queue_def kbd_ok_def upt_conv_Cons del: upt_Suc)
  moreover have "q = queue ?k"
  proof (rule nth_equalityI)
    show "length q = length (queue ?k)" using u' by simp
    fix i assume i: "i < length q"
    have "q ! i = queue k ! Suc i" using assms(2) by simp
    also have "\<dots> = g_buf k ! ((g_tail k + Suc i) mod 256)" using i u by (simp add: queue_def del: upt_Suc)
    also have "\<dots> = queue ?k ! i" using i u' by (simp add: queue_def mod_simps)
    finally show "q ! i = queue ?k ! i" .
  qed
  ultimately show ?thesis using h ok by (simp add: read_char_def buf_size_def)
qed

lemma buf_push_queue:
  assumes "kbd_ok k"
  shows "kbd_ok (snd (buf_push c k))
    \<and> (if length (queue k) = 255 then buf_push c k = (False, k)
       else fst (buf_push c k) \<and> queue (snd (buf_push c k)) = queue k @ [c])"
proof -
  let ?k = "k\<lparr>g_buf := (g_buf k)[g_head k := c], g_head := (g_head k + 1) mod 256\<rparr>"
  have full: "(g_head k + 1) mod 256 = g_tail k \<longleftrightarrow> used k = 255"
    using assms used_cases [OF assms] by (auto simp: kbd_ok_def mod_if)
  have ok: "kbd_ok ?k" using assms by (simp add: kbd_ok_def)
  have "queue ?k = queue k @ [c]" if "used k \<noteq> 255"
  proof -
    have u: "used ?k = Suc (used k)"
      using that full used_cases [OF assms] used_cases [OF ok] assms by (auto simp: kbd_ok_def mod_if split: if_splits)
    have lt: "used k < 255" using that used_cases [OF assms] assms by (auto simp: kbd_ok_def)
    have "(g_tail k + used k) mod 256 = g_head k"
      using used_cases [OF assms] assms by (auto simp: kbd_ok_def)
    moreover have "(g_tail k + i) mod 256 \<noteq> g_head k" if "i < used k" for i
      using that lt used_cases [OF assms] assms by (auto simp: kbd_ok_def mod_if split: if_splits)
    then have "(g_buf k)[g_head k := c] ! ((g_tail k + i) mod 256) = g_buf k ! ((g_tail k + i) mod 256)"
      if "i < used k" for i using that by (metis nth_list_update_neq)
    ultimately show ?thesis using u assms by (simp add: queue_def kbd_ok_def)
  qed
  then show ?thesis using assms full ok by (simp add: buf_push_def buf_size_def)
qed

section \<open>Editing a line\<close>

definition printable :: "u8 \<Rightarrow> bool" where
  "printable c \<longleftrightarrow> \<not> (sint c < 0x20 \<or> sint c > 0x7E)"

text \<open>Typing characters after the text \<open>acc\<close>: the unfinished line, or the finished one and the rest.\<close>

fun type_line :: "u8 list \<Rightarrow> u8 list \<Rightarrow> u8 list + u8 list \<times> u8 list" where
  "type_line acc [] = Inl acc"
| "type_line acc (c # cs) =
     (if c = 8 then type_line (butlast acc) cs
      else if c = 10 then Inr (acc, cs)
      else if printable c \<and> length acc < 255 then type_line (acc @ [c]) cs
      else type_line acc cs)"

definition term_ok :: "terminal \<Rightarrow> bool" where
  "term_ok t \<longleftrightarrow> length (g_line t) = 256 \<and> g_pos t < 256 \<and> \<not> g_line_ready t"

definition typed :: "terminal \<Rightarrow> u8 list" where
  "typed t = take (g_pos t) (g_line t)"

lemma length_typed: "term_ok t \<Longrightarrow> length (typed t) = g_pos t"
  by (simp add: typed_def term_ok_def)

lemma put_char_typed:
  assumes "term_ok t" "c \<noteq> 10"
  shows "term_ok (put_char c t)"
    "typed (put_char c t) = (if c = 8 then butlast (typed t)
       else if printable c \<and> length (typed t) < 255 then typed t @ [c] else typed t)"
  using assms length_typed [OF assms(1)]
  by (auto simp: put_char_def term_ok_def typed_def printable_def line_buf_size_def butlast_take
      take_Suc_conv_app_nth not_less)

lemma put_char_newline:
  assumes "term_ok t"
  shows "g_line_ready (put_char 10 t)" "g_pos (put_char 10 t) = g_pos t" "length (g_line (put_char 10 t)) = 256"
    "n \<le> g_pos t \<Longrightarrow> take n (g_line (put_char 10 t)) = take n (typed t)"
  using assms by (auto simp: put_char_def term_ok_def typed_def min_absorb1 min_absorb2)

text \<open>C18. The keyboard buffer is a queue of at most 255 characters that drops what does not fit, and reading a
  line returns: it takes characters off the queue, applying backspaces, ignoring what is not printable or
  past 255 characters, up to the first newline, whose line it copies, cut to the caller's buffer; with no
  newline it empties the queue and keeps the text typed so far.\<close>

theorem read_line_correct:
  assumes "kbd_ok k" and "term_ok t" and "0 < max_len" "max_len \<le> 256"
  shows "\<exists>r k' t'. read_line max_len k t = Some (r, k', t') \<and> kbd_ok k' \<and> term_ok t' \<and>
    (case type_line (typed t) (queue k) of
       Inl acc \<Rightarrow> r = None \<and> queue k' = [] \<and> typed t' = acc
     | Inr (l, rest) \<Rightarrow> r = Some (take (max_len - 1) l) \<and> queue k' = rest \<and> typed t' = [])"
  using assms(1,2)
proof (induction "queue k" arbitrary: k t)
  case Nil
  then show ?case using has_char_queue [of k] by (subst read_line.simps) simp
next
  case (Cons c q)
  note rd = read_char_queue [OF Cons.prems(1) Cons.hyps(2) [symmetric]]
  have has: "has_char k" using has_char_queue [OF Cons.prems(1)] Cons.hyps(2) by auto
  let ?k = "snd (read_char k)" and ?t = "put_char c t"
  have unfold: "read_line max_len k t =
      (if g_line_ready ?t then
         (let len = copy_length (g_pos ?t) max_len in
          if len > line_buf_size then None
          else Some (Some (take len (g_line ?t)), ?k, ?t\<lparr>g_pos := 0, g_line_ready := False\<rparr>))
       else read_line max_len ?k ?t)"
    using has rd by (subst read_line.simps) (simp add: case_prod_beta Let_def)
  show ?case
  proof (cases "c = 10")
    case True
    note nl = put_char_newline [OF Cons.prems(2)]
    have "(max_len + 2 ^ 64 - 1) mod 2 ^ 64 = max_len - 1" using assms(3,4) by (simp add: mod_if)
    then have len: "copy_length (g_pos t) max_len = min (g_pos t) (max_len - 1)"
      using assms(3) by (auto simp: copy_length_def)
    have "take (min (g_pos t) (max_len - 1)) (g_line (put_char 10 t)) = take (max_len - 1) (typed t)"
      using nl(4) [of "min (g_pos t) (max_len - 1)"] length_typed [OF Cons.prems(2)] by (auto simp: min_def)
    moreover have "\<not> min (g_pos t) (max_len - 1) > line_buf_size" using assms(4) unfolding line_buf_size_def by linarith
    ultimately have "read_line max_len k t = Some (Some (take (max_len - 1) (typed t)), ?k,
        (put_char 10 t)\<lparr>g_pos := 0, g_line_ready := False\<rparr>)"
      unfolding unfold using True nl(1,2) by (simp add: len Let_def del: min_less_iff_conj)
    then show ?thesis using True rd nl Cons.hyps(2) [symmetric] by (simp add: term_ok_def typed_def)
  next
    case False
    note pc = put_char_typed [OF Cons.prems(2) False]
    have "\<not> g_line_ready ?t" using pc(1) by (simp add: term_ok_def)
    then have "read_line max_len k t = read_line max_len ?k ?t" unfolding unfold by simp
    moreover have "type_line (typed t) (queue k) = type_line (typed ?t) (queue ?k)"
      using Cons.hyps(2) [symmetric] False pc(2) rd by simp
    ultimately show ?thesis using Cons.hyps(1) [of ?k ?t] rd pc(1) by simp
  qed
qed

definition example_keyboard :: keyboard where
  "example_keyboard = fold handle_irq [0x2A, 0x1E, 0xAA, 0x30, 0x0E, 0x2E, 0x1C]
     \<lparr>g_shift_pressed = False, g_extended = False, g_buf = replicate 256 0, g_head = 0, g_tail = 0\<rparr>"

definition example_terminal :: terminal where
  "example_terminal = \<lparr>g_line = replicate 256 0, g_pos = 0, g_line_ready = False\<rparr>"

lemma example_keyboard_queue: "queue example_keyboard = [65, 98, 8, 99, 10]" "kbd_ok example_keyboard"
  by code_simp+

theorem read_line_correct_witness:
  "\<exists>k' t'. read_line 80 example_keyboard example_terminal = Some (Some [65, 99], k', t') \<and> queue k' = []"
proof -
  have t: "term_ok example_terminal" "typed example_terminal = []"
    by (simp_all add: term_ok_def typed_def example_terminal_def)
  have "type_line [] [65, 98, 8, 99, 10] = Inr ([65, 99], [])" by (simp add: printable_def)
  with read_line_correct [OF example_keyboard_queue(2) t(1), of 80] show ?thesis
    by (auto simp: example_keyboard_queue(1) t(2))
qed

end
