(* ===== verification/Tori_Bytes.thy ===== *)
theory Tori_Bytes
  imports Tori_Prelude
begin

unbundle bit_operations_syntax

text \<open>
  Byte memory and the little-endian fields of packed structures in it, for the components that read
  tables which other programs wrote: the firmware and the compiler.
\<close>

type_synonym bytes = "u64 \<Rightarrow> u8"

definition bytes_at :: "bytes \<Rightarrow> u64 \<Rightarrow> nat \<Rightarrow> u8 list" where
  "bytes_at m a n = map (\<lambda>i. m (a + of_nat i)) [0 ..< n]"

primrec le_value :: "u8 list \<Rightarrow> u64" where
  "le_value [] = 0"
| "le_value (b # bs) = ucast b OR push_bit 8 (le_value bs)"

definition get16 :: "bytes \<Rightarrow> u64 \<Rightarrow> u16" where "get16 m a = ucast (le_value (bytes_at m a 2))"
definition get32 :: "bytes \<Rightarrow> u64 \<Rightarrow> u32" where "get32 m a = ucast (le_value (bytes_at m a 4))"
definition get64 :: "bytes \<Rightarrow> u64 \<Rightarrow> u64" where "get64 m a = le_value (bytes_at m a 8)"

primrec to_bytes :: "nat \<Rightarrow> u64 \<Rightarrow> u8 list" where
  "to_bytes 0 w = []"
| "to_bytes (Suc n) w = ucast w # to_bytes n (drop_bit 8 w)"

lemma length_to_bytes [simp]: "length (to_bytes n w) = n"
  by (induction n arbitrary: w) simp_all

lemma le_value_to_bytes: "le_value (to_bytes n w) = take_bit (8 * n) w"
proof (induction n arbitrary: w)
  case (Suc n)
  show ?case
  proof (rule bit_word_eqI)
    fix k
    assume "k < LENGTH(64)"
    then show "bit (le_value (to_bytes (Suc n) w)) k = bit (take_bit (8 * Suc n) w) k"
      by (cases "k < 8") (auto simp: Suc bit_simps not_less)
  qed
qed simp

lemma bytes_at_part:
  assumes "bytes_at m a n = xs" "i + k \<le> n"
  shows "bytes_at m (a + of_nat i) k = take k (drop i xs)"
  using assms by (intro nth_equalityI) (auto simp: bytes_at_def add.assoc simp flip: of_nat_add)

lemma bytes_at_nth: "bytes_at m a n = xs \<Longrightarrow> i < n \<Longrightarrow> m (a + of_nat i) = xs ! i"
  by (auto simp: bytes_at_def)

lemma le_value_fields [simp]:
  "ucast (le_value (to_bytes 2 (ucast (h :: u16)))) = h"
  "ucast (le_value (to_bytes 4 (ucast (w :: u32)))) = w"
  "le_value (to_bytes 8 d) = d"
  by (rule bit_word_eqI, auto simp: le_value_to_bytes bit_simps dest: bit_imp_le_length)+

end
