(* ===== verification/Tori_Descriptors.thy ===== *)
theory Tori_Descriptors
  imports Tori_Sched Tori_Bytes "HOL-Library.Monad_Syntax"
begin

unbundle bit_operations_syntax

text \<open>
  The tables that the processor reads (\<open>kernel/src/arch/x86_64/gdt.cpp\<close>, the first half of \<open>idt.cpp\<close>): segment
  descriptors, the task state segment of each processor, the gates of the interrupts, and the registers
  that point to them.  The addresses of the arrays are parameters.
\<close>

section \<open>Segment descriptors\<close>

record GDTEntry =
  limit_low :: u16
  base_low :: u16
  base_mid :: u8
  access_byte :: u8
  flags_limit_high :: u8
  base_high :: u8

definition GDT_KERNEL_CODE :: nat where "GDT_KERNEL_CODE = 1"
definition GDT_KERNEL_DATA :: nat where "GDT_KERNEL_DATA = 2"
definition GDT_USER_DATA_32 :: nat where "GDT_USER_DATA_32 = 3"
definition GDT_USER_DATA :: nat where "GDT_USER_DATA = 4"
definition GDT_USER_CODE :: nat where "GDT_USER_CODE = 5"
definition GDT_TSS_FIRST :: nat where "GDT_TSS_FIRST = 6"

lemmas gdt_indices = GDT_KERNEL_CODE_def GDT_KERNEL_DATA_def GDT_USER_DATA_32_def GDT_USER_DATA_def
  GDT_USER_CODE_def GDT_TSS_FIRST_def

definition gdt_selector :: "nat \<Rightarrow> u16" where
  "gdt_selector idx = of_nat (idx * 8)"

record TSS =
  tss_reserved0 :: u32
  tss_rsp :: "u64 list"
  tss_reserved1 :: u64
  tss_ist :: "u64 list"
  tss_reserved2 :: u64
  tss_reserved3 :: u16
  iopb_offset :: u16

definition sizeof_TSS :: nat where "sizeof_TSS = 104"
definition gdt_total_entries :: nat where "gdt_total_entries = 6 + 2 * CONFIG_MAX_CPUS"
definition CONFIG_DOUBLE_FAULT_STACK_SIZE :: u64 where "CONFIG_DOUBLE_FAULT_STACK_SIZE = 4096"

text \<open>The members of \<open>PerCPU\<close> by their offsets: two words, the task state segment and the two stacks.\<close>

definition sizeof_PerCPU :: u64 where
  "sizeof_PerCPU = 16 + of_nat sizeof_TSS + CONFIG_KERNEL_STACK_SIZE + CONFIG_DOUBLE_FAULT_STACK_SIZE"

definition percpu_address :: "u64 \<Rightarrow> nat \<Rightarrow> u64" where
  "percpu_address pb cpu_index = pb + of_nat cpu_index * sizeof_PerCPU"

definition tss_address :: "u64 \<Rightarrow> nat \<Rightarrow> u64" where
  "tss_address pb cpu_index = percpu_address pb cpu_index + 16"

definition boot_stack_top :: "u64 \<Rightarrow> nat \<Rightarrow> u64" where
  "boot_stack_top pb cpu_index = percpu_address pb cpu_index + 16 + of_nat sizeof_TSS + CONFIG_KERNEL_STACK_SIZE"

definition df_stack_top :: "u64 \<Rightarrow> nat \<Rightarrow> u64" where
  "df_stack_top pb cpu_index = boot_stack_top pb cpu_index + CONFIG_DOUBLE_FAULT_STACK_SIZE"

text \<open>The tables and the registers of one processor.\<close>

record IDTEntry =
  offset_low :: u16
  gate_selector :: u16
  gate_ist :: u8
  type_attr :: u8
  offset_mid :: u16
  offset_high :: u32
  gate_zero :: u32

record cpu_tables =
  gdt :: "GDTEntry list"
  tss :: "nat \<Rightarrow> TSS"
  area_syscall_rsp :: "nat \<Rightarrow> u64"
  gdt_initialized :: bool
  idt :: "IDTEntry list"
  gdtr :: "u16 \<times> u64"
  idtr :: "u16 \<times> u64"
  seg_cs :: u16
  seg_data :: u16
  task_register :: u16
  gs_base :: u64
  kernel_gs_base :: u64

definition make_gdt_entry :: "u32 \<Rightarrow> u32 \<Rightarrow> u8 \<Rightarrow> u8 \<Rightarrow> GDTEntry" where
  "make_gdt_entry base limit access flags =
     \<lparr>limit_low = ucast (limit AND 0xFFFF), base_low = ucast (base AND 0xFFFF),
      base_mid = ucast (drop_bit 16 base AND 0xFF), access_byte = access,
      flags_limit_high = push_bit 4 (flags AND 0xF) OR ucast (drop_bit 16 limit AND 0xF),
      base_high = ucast (drop_bit 24 base AND 0xFF)\<rparr>"

text \<open>An entry through the type \<open>GDTEntryHigh\<close>: the same eight bytes as two words.\<close>

definition entry_high :: "u32 \<Rightarrow> u32 \<Rightarrow> GDTEntry" where
  "entry_high base_upper reserved =
     \<lparr>limit_low = ucast base_upper, base_low = ucast (drop_bit 16 base_upper), base_mid = ucast reserved,
      access_byte = ucast (drop_bit 8 reserved), flags_limit_high = ucast (drop_bit 16 reserved),
      base_high = ucast (drop_bit 24 reserved)\<rparr>"

definition write_tss_descriptor :: "nat \<Rightarrow> u64 \<Rightarrow> GDTEntry list \<Rightarrow> GDTEntry list" where
  "write_tss_descriptor gdt_index tss_base g =
     g[gdt_index := \<lparr>limit_low = of_nat (sizeof_TSS - 1), base_low = ucast (tss_base AND 0xFFFF),
                     base_mid = ucast (drop_bit 16 tss_base AND 0xFF), access_byte = 0x89, flags_limit_high = 0,
                     base_high = ucast (drop_bit 24 tss_base AND 0xFF)\<rparr>,
       gdt_index + 1 := entry_high (ucast (drop_bit 32 tss_base)) 0]"

definition blank_tss :: TSS where
  "blank_tss = \<lparr>tss_reserved0 = 0, tss_rsp = replicate 3 0, tss_reserved1 = 0, tss_ist = replicate 7 0,
     tss_reserved2 = 0, tss_reserved3 = 0, iopb_offset = 0\<rparr>"

definition init_tss :: "u64 \<Rightarrow> nat \<Rightarrow> cpu_tables \<Rightarrow> cpu_tables" where
  "init_tss pb cpu_index s =
     (let t = blank_tss;
          t = t\<lparr>tss_rsp := (tss_rsp t)[0 := boot_stack_top pb cpu_index]\<rparr>;
          t = t\<lparr>tss_ist := (tss_ist t)[0 := df_stack_top pb cpu_index]\<rparr> in
      s\<lparr>tss := (tss s)(cpu_index := t),
        gdt := write_tss_descriptor (GDT_TSS_FIRST + cpu_index * 2) (tss_address pb cpu_index) (gdt s)\<rparr>)"

definition setup_percpu :: "u64 \<Rightarrow> nat \<Rightarrow> cpu_tables \<Rightarrow> cpu_tables" where
  "setup_percpu pb cpu_index s =
     s\<lparr>area_syscall_rsp := (area_syscall_rsp s)(cpu_index := boot_stack_top pb cpu_index)\<rparr>"

definition blank_gdt_entry :: GDTEntry where
  "blank_gdt_entry = \<lparr>limit_low = 0, base_low = 0, base_mid = 0, access_byte = 0, flags_limit_high = 0, base_high = 0\<rparr>"

definition fixed_entries :: "GDTEntry list \<Rightarrow> GDTEntry list" where
  "fixed_entries g =
     g[GDT_KERNEL_CODE := make_gdt_entry 0 0 0x9A 2,
       GDT_KERNEL_DATA := make_gdt_entry 0 0 0x92 0,
       GDT_USER_DATA_32 := make_gdt_entry 0 0 0xF2 0,
       GDT_USER_DATA := make_gdt_entry 0 0 0xF2 0,
       GDT_USER_CODE := make_gdt_entry 0 0 0xFA 2]"

definition init_cpus :: "u64 \<Rightarrow> nat \<Rightarrow> cpu_tables \<Rightarrow> cpu_tables" where
  "init_cpus pb n = fold (\<lambda>cpu s. init_tss pb cpu (setup_percpu pb cpu s)) [0 ..< n]"

text \<open>Loading the selector of a data segment into \<open>gs\<close> also loads its base, which is 0.\<close>

definition init_gdt :: "u64 \<Rightarrow> u64 \<Rightarrow> cpu_tables \<Rightarrow> cpu_tables" where
  "init_gdt pb gdt_address s =
     (let s = (if gdt_initialized s then s
               else (init_cpus pb CONFIG_MAX_CPUS
                       (s\<lparr>gdt := fixed_entries (replicate gdt_total_entries blank_gdt_entry)\<rparr>))
                    \<lparr>gdt_initialized := True\<rparr>) in
      s\<lparr>gdtr := (of_nat (gdt_total_entries * 8 - 1), gdt_address),
        seg_cs := gdt_selector GDT_KERNEL_CODE, seg_data := gdt_selector GDT_KERNEL_DATA, gs_base := 0\<rparr>)"

text \<open>A register of the processor that is written as two halves.\<close>

definition wrmsr_value :: "u32 \<Rightarrow> u32 \<Rightarrow> u64" where
  "wrmsr_value lo hi = ucast lo OR push_bit 32 (ucast hi)"

definition load_percpu_gs_base :: "u64 \<Rightarrow> nat \<Rightarrow> cpu_tables \<Rightarrow> cpu_tables" where
  "load_percpu_gs_base pb cpu_index s =
     (let base = percpu_address pb cpu_index; lo = ucast base; hi = ucast (drop_bit 32 base) in
      s\<lparr>gs_base := wrmsr_value lo hi, kernel_gs_base := wrmsr_value lo hi\<rparr>)"

text \<open>\<open>ltr\<close> faults unless the descriptor is that of an available segment, and marks it as busy.\<close>

definition ltr :: "u16 \<Rightarrow> cpu_tables \<Rightarrow> cpu_tables option" where
  "ltr selector s =
     (let k = unat selector div 8 in
      if k \<ge> length (gdt s) \<or> access_byte (gdt s ! k) \<noteq> 0x89 then None
      else Some (s\<lparr>gdt := (gdt s)[k := (gdt s ! k)\<lparr>access_byte := 0x8B\<rparr>], task_register := selector\<rparr>))"

definition load_tss :: "u64 \<Rightarrow> nat \<Rightarrow> cpu_tables \<Rightarrow> cpu_tables option" where
  "load_tss pb cpu_index s =
     (if cpu_index \<ge> CONFIG_MAX_CPUS then Some s
      else do {
        s \<leftarrow> ltr (of_nat ((GDT_TSS_FIRST + cpu_index * 2) * 8)) s;
        Some (load_percpu_gs_base pb cpu_index s)
      })"

section \<open>Gates\<close>

definition make_gate :: "u64 \<Rightarrow> IDTEntry" where
  "make_gate addr =
     \<lparr>offset_low = ucast (addr AND 0xFFFF), gate_selector = gdt_selector GDT_KERNEL_CODE, gate_ist = 0,
      type_attr = 0x8E, offset_mid = ucast (drop_bit 16 addr AND 0xFFFF),
      offset_high = ucast (drop_bit 32 addr AND 0xFFFFFFFF), gate_zero = 0\<rparr>"

definition init_idt :: "(nat \<Rightarrow> u64) \<Rightarrow> u64 \<Rightarrow> cpu_tables \<Rightarrow> cpu_tables" where
  "init_idt isr_stub_table idt_address s =
     (let g = map (\<lambda>i. make_gate (isr_stub_table i)) [0 ..< 256];
          g = g[8 := (g ! 8)\<lparr>gate_ist := 1\<rparr>] in
      s\<lparr>idt := g, idtr := (of_nat (256 * 16 - 1), idt_address)\<rparr>)"

text \<open>The processor \<open>cpu_index\<close> sets up its tables, the boot processor in \<open>kernel_main\<close> and the others in
  \<open>ap_main\<close>.  The tables are shared, the registers are those of the processor that ran last.\<close>

definition boot_tables :: "(nat \<Rightarrow> u64) \<Rightarrow> u64 \<Rightarrow> u64 \<Rightarrow> u64 \<Rightarrow> nat \<Rightarrow> cpu_tables \<Rightarrow> cpu_tables option" where
  "boot_tables isr_stub_table idt_address pb gdt_address cpu_index s = do {
     s \<leftarrow> load_tss pb cpu_index (init_gdt pb gdt_address s);
     Some (init_idt isr_stub_table idt_address s)
   }"

section \<open>What the processor reads\<close>

text \<open>The base address and the limit of a descriptor of sixteen bytes, and the address of a gate.\<close>

definition system_base :: "GDTEntry \<Rightarrow> GDTEntry \<Rightarrow> u64" where
  "system_base e h = ucast (base_low e) OR push_bit 16 (ucast (base_mid e)) OR push_bit 24 (ucast (base_high e))
     OR push_bit 32 (ucast (limit_low h)) OR push_bit 48 (ucast (base_low h))"

definition segment_limit :: "GDTEntry \<Rightarrow> nat" where
  "segment_limit e = unat (limit_low e) + unat (flags_limit_high e AND 0xF) * 2 ^ 16"

definition gate_offset :: "IDTEntry \<Rightarrow> u64" where
  "gate_offset g = ucast (offset_low g) OR push_bit 16 (ucast (offset_mid g)) OR push_bit 32 (ucast (offset_high g))"

text \<open>The bytes of a task state segment, and whether a program at the lowest privilege may use a port of one
  byte: the bit of the port in the permission map, which begins at \<open>iopb_offset\<close> in the segment, is clear,
  and the two bytes that the processor reads lie within the limit.\<close>

definition tss_bytes :: "TSS \<Rightarrow> u8 list" where
  "tss_bytes t = to_bytes 4 (ucast (tss_reserved0 t)) @ concat (map (to_bytes 8) (tss_rsp t)) @ to_bytes 8 (tss_reserved1 t)
     @ concat (map (to_bytes 8) (tss_ist t)) @ to_bytes 8 (tss_reserved2 t) @ to_bytes 2 (ucast (tss_reserved3 t))
     @ to_bytes 2 (ucast (iopb_offset t))"

definition port_permitted :: "TSS \<Rightarrow> nat \<Rightarrow> nat \<Rightarrow> bool" where
  "port_permitted t limit port =
     (let k = unat (iopb_offset t) + port div 8 in k + 1 \<le> limit \<and> \<not> bit (tss_bytes t ! k) (port mod 8))"

section \<open>Decoding\<close>

lemma field_masks: "(0xFF :: u64) = mask 8" "(0xFFFF :: u64) = mask 16" "(0xFFFFFFFF :: u64) = mask 32"
  by (simp_all add: mask_eq_exp_minus_1)

lemma word_split:
  "system_base \<lparr>limit_low = l, base_low = ucast (b AND 0xFFFF), base_mid = ucast (drop_bit 16 b AND 0xFF), access_byte = x,
      flags_limit_high = f, base_high = ucast (drop_bit 24 b AND 0xFF)\<rparr> (entry_high (ucast (drop_bit 32 b)) r) = b"
proof (rule bit_word_eqI)
  fix n
  assume "n < LENGTH(64)"
  then have "n < 16 \<or> (16 \<le> n \<and> n < 24) \<or> (24 \<le> n \<and> n < 32) \<or> (32 \<le> n \<and> n < 48) \<or> (48 \<le> n \<and> n < 64)" by auto
  then show "bit (system_base \<lparr>limit_low = l, base_low = ucast (b AND 0xFFFF), base_mid = ucast (drop_bit 16 b AND 0xFF),
      access_byte = x, flags_limit_high = f, base_high = ucast (drop_bit 24 b AND 0xFF)\<rparr> (entry_high (ucast (drop_bit 32 b)) r)) n
    = bit b n"
    unfolding field_masks by (elim disjE conjE) (simp_all add: system_base_def entry_high_def bit_simps less_diff_conv2)
qed

lemma tss_descriptor_decodes:
  assumes "i + 1 < length g"
  shows "system_base (write_tss_descriptor i b g ! i) (write_tss_descriptor i b g ! (i + 1)) = b"
    "segment_limit (write_tss_descriptor i b g ! i) = 103" "access_byte (write_tss_descriptor i b g ! i) = 0x89"
    "length (write_tss_descriptor i b g) = length g"
    "j \<noteq> i \<Longrightarrow> j \<noteq> i + 1 \<Longrightarrow> write_tss_descriptor i b g ! j = g ! j"
  using assms by (simp_all add: write_tss_descriptor_def word_split segment_limit_def sizeof_TSS_def)

lemma gate_decodes: "gate_offset (make_gate a) = a"
proof (rule bit_word_eqI)
  fix n
  assume "n < LENGTH(64)"
  then have "n < 16 \<or> (16 \<le> n \<and> n < 32) \<or> (32 \<le> n \<and> n < 64)" by auto
  then show "bit (gate_offset (make_gate a)) n = bit a n"
    unfolding make_gate_def field_masks by (elim disjE conjE) (simp_all add: gate_offset_def bit_simps less_diff_conv2)
qed

lemma wrmsr_halves: "wrmsr_value (ucast b) (ucast (drop_bit 32 b)) = b"
proof (rule bit_word_eqI)
  fix n
  assume "n < LENGTH(64)"
  then show "bit (wrmsr_value (ucast b) (ucast (drop_bit 32 b))) n = bit b n"
    by (cases "n < 32") (auto simp: wrmsr_value_def bit_simps)
qed

section \<open>The tables after initialisation\<close>

definition cpu_tss :: "u64 \<Rightarrow> nat \<Rightarrow> TSS" where
  "cpu_tss pb i = blank_tss\<lparr>tss_rsp := [boot_stack_top pb i, 0, 0], tss_ist := [df_stack_top pb i, 0, 0, 0, 0, 0, 0]\<rparr>"

text \<open>What the processor \<open>i\<close> finds: its descriptor leads to its task state segment, which names its own stacks.\<close>

definition tables_ready :: "u8 \<Rightarrow> u64 \<Rightarrow> cpu_tables \<Rightarrow> nat \<Rightarrow> bool" where
  "tables_ready a pb s i \<longleftrightarrow>
     system_base (gdt s ! (6 + i * 2)) (gdt s ! (7 + i * 2)) = tss_address pb i
     \<and> segment_limit (gdt s ! (6 + i * 2)) = 103 \<and> access_byte (gdt s ! (6 + i * 2)) = a
     \<and> tss s i = cpu_tss pb i \<and> area_syscall_rsp s i = boot_stack_top pb i"

lemma init_loop:
  assumes "6 + 2 * n \<le> length (gdt s)"
  shows "length (gdt (init_cpus pb n s)) = length (gdt s)
    \<and> (\<forall>i. i < 6 \<or> i \<ge> 6 + 2 * n \<longrightarrow> gdt (init_cpus pb n s) ! i = gdt s ! i)
    \<and> (\<forall>i<n. tables_ready 0x89 pb (init_cpus pb n s) i)"
  using assms
proof (induction n)
  case (Suc n)
  let ?t = "init_cpus pb n s" and ?u = "init_cpus pb (Suc n) s"
  have len: "length (gdt ?t) = length (gdt s)" using Suc by simp
  then have room: "6 + n * 2 + 1 < length (gdt ?t)" using Suc.prems by simp
  have step: "gdt ?u = write_tss_descriptor (6 + n * 2) (tss_address pb n) (gdt ?t)"
    "tss ?u = (tss ?t)(n := cpu_tss pb n)" "area_syscall_rsp ?u = (area_syscall_rsp ?t)(n := boot_stack_top pb n)"
    by (simp_all add: init_cpus_def init_tss_def setup_percpu_def GDT_TSS_FIRST_def cpu_tss_def blank_tss_def numeral_eq_Suc)
  note d = tss_descriptor_decodes [OF room, where b = "tss_address pb n"]
  have same: "gdt ?u ! i = gdt ?t ! i" if "i < 6 + n * 2 \<or> i \<ge> 8 + n * 2" for i
    unfolding step by (rule d(5)) (use that in linarith)+
  have "tables_ready 0x89 pb ?u i" if "i < Suc n" for i
  proof (cases "i = n")
    case True
    then show ?thesis using d(1-3) by (simp add: tables_ready_def step)
  next
    case False
    then have "tables_ready 0x89 pb ?t i" using Suc that by simp
    then show ?thesis using same [of "6 + i * 2"] same [of "7 + i * 2"] that False
      by (simp add: tables_ready_def step(2,3))
  qed
  moreover have "gdt ?u ! i = gdt s ! i" if "i < 6 \<or> i \<ge> 6 + 2 * Suc n" for i
    using same [of i] Suc that by auto
  ultimately show ?case using d(4) len by (simp add: step(1))
qed (simp add: init_cpus_def)

lemma init_gdt_tables:
  assumes "\<not> gdt_initialized s" and "i < CONFIG_MAX_CPUS"
  shows "tables_ready 0x89 pb (init_gdt pb ga s) i"
proof -
  have "6 + 2 * CONFIG_MAX_CPUS \<le> length (gdt (s\<lparr>gdt := fixed_entries (replicate gdt_total_entries blank_gdt_entry)\<rparr>))"
    by (simp add: fixed_entries_def gdt_total_entries_def)
  from init_loop [OF this, of pb] assms show ?thesis
    by (simp add: init_gdt_def tables_ready_def)
qed

lemma init_gdt_segments:
  assumes "\<not> gdt_initialized s"
  shows "length (gdt (init_gdt pb ga s)) = 6 + 2 * CONFIG_MAX_CPUS"
    "take 6 (gdt (init_gdt pb ga s)) = [blank_gdt_entry, make_gdt_entry 0 0 0x9A 2, make_gdt_entry 0 0 0x92 0,
      make_gdt_entry 0 0 0xF2 0, make_gdt_entry 0 0 0xF2 0, make_gdt_entry 0 0 0xFA 2]"
proof -
  let ?g = "fixed_entries (replicate gdt_total_entries blank_gdt_entry)"
  have len: "6 + 2 * CONFIG_MAX_CPUS \<le> length (gdt (s\<lparr>gdt := ?g\<rparr>))"
    by (simp add: fixed_entries_def gdt_total_entries_def)
  have "length ?g = 6 + 2 * CONFIG_MAX_CPUS" by (simp add: fixed_entries_def gdt_total_entries_def)
  then show "length (gdt (init_gdt pb ga s)) = 6 + 2 * CONFIG_MAX_CPUS"
    using init_loop [OF len, of pb] assms by (simp add: init_gdt_def)
  have "take 6 (gdt (init_gdt pb ga s)) = take 6 ?g"
    using init_loop [OF len, of pb] len assms by (intro nth_equalityI) (simp_all add: init_gdt_def)
  also have "\<dots> = take 6 (fixed_entries (replicate 6 blank_gdt_entry @ replicate (2 * CONFIG_MAX_CPUS) blank_gdt_entry))"
    by (simp only: gdt_total_entries_def replicate_add)
  also have "\<dots> = fixed_entries (replicate 6 blank_gdt_entry)"
    by (simp add: fixed_entries_def gdt_indices list_update_append)
  also have "\<dots> = [blank_gdt_entry, make_gdt_entry 0 0 0x9A 2, make_gdt_entry 0 0 0x92 0,
      make_gdt_entry 0 0 0xF2 0, make_gdt_entry 0 0 0xF2 0, make_gdt_entry 0 0 0xFA 2]"
    by (simp add: fixed_entries_def gdt_indices numeral_eq_Suc)
  finally show "take 6 (gdt (init_gdt pb ga s)) = [blank_gdt_entry, make_gdt_entry 0 0 0x9A 2, make_gdt_entry 0 0 0x92 0,
      make_gdt_entry 0 0 0xF2 0, make_gdt_entry 0 0 0xF2 0, make_gdt_entry 0 0 0xFA 2]" .
qed

lemma init_idt_gates:
  assumes "i < 256"
  shows "gate_offset (idt (init_idt stubs ia s) ! i) = stubs i"
    "gate_ist (idt (init_idt stubs ia s) ! i) = (if i = 8 then 1 else 0)"
    "gate_selector (idt (init_idt stubs ia s) ! i) = 8" "type_attr (idt (init_idt stubs ia s) ! i) = 0x8E"
proof -
  have o: "gate_offset (g\<lparr>gate_ist := x\<rparr>) = gate_offset g" for g x by (simp add: gate_offset_def)
  show "gate_offset (idt (init_idt stubs ia s) ! i) = stubs i"
    using assms by (cases "i = 8") (simp_all add: init_idt_def o gate_decodes)
  show "gate_ist (idt (init_idt stubs ia s) ! i) = (if i = 8 then 1 else 0)"
    "gate_selector (idt (init_idt stubs ia s) ! i) = 8" "type_attr (idt (init_idt stubs ia s) ! i) = 0x8E"
    using assms by (simp_all add: init_idt_def nth_list_update make_gate_def gdt_selector_def GDT_KERNEL_CODE_def)
qed

section \<open>Properties\<close>

text \<open>The shared tables when the processors of \<open>B\<close> have set up theirs.\<close>

definition booted :: "u64 \<Rightarrow> nat set \<Rightarrow> cpu_tables \<Rightarrow> bool" where
  "booted pb B s \<longleftrightarrow> gdt_initialized s \<and> length (gdt s) = 6 + 2 * CONFIG_MAX_CPUS
     \<and> gdt s ! 1 = make_gdt_entry 0 0 0x9A 2 \<and> gdt s ! 2 = make_gdt_entry 0 0 0x92 0
     \<and> (\<forall>i<CONFIG_MAX_CPUS. tables_ready (if i \<in> B then 0x8B else 0x89) pb s i)"

lemma init_gdt_booted:
  assumes "if gdt_initialized s then booted pb B s else B = {}"
  shows "booted pb B (init_gdt pb ga s)"
proof (cases "gdt_initialized s")
  case True
  then show ?thesis using assms by (simp add: booted_def init_gdt_def tables_ready_def)
next
  case False
  let ?t = "init_gdt pb ga s"
  have "gdt_initialized ?t" using False by (simp add: init_gdt_def)
  moreover note init_gdt_segments(1) [OF False, of pb ga]
  moreover have "gdt ?t ! i = take 6 (gdt ?t) ! i" if "i < 6" for i using that by simp
  then have "gdt ?t ! 1 = make_gdt_entry 0 0 0x9A 2" "gdt ?t ! 2 = make_gdt_entry 0 0 0x92 0"
    by (simp_all add: init_gdt_segments(2) [OF False])
  ultimately show ?thesis using False assms init_gdt_tables [OF False] by (simp add: booted_def)
qed

lemma unat_tss_selector:
  assumes "i < CONFIG_MAX_CPUS"
  shows "unat (of_nat ((GDT_TSS_FIRST + i * 2) * 8) :: u16) = (6 + i * 2) * 8"
proof -
  have "(6 + i * 2) * 8 < 2 ^ 16" using assms by (simp add: CONFIG_MAX_CPUS_def)
  then show ?thesis by (simp only: unat_of_nat GDT_TSS_FIRST_def) (simp add: take_bit_nat_def)
qed

lemma ltr_booted:
  assumes "booted pb B s" and "ci < CONFIG_MAX_CPUS" and "ci \<notin> B" and k: "unat sel div 8 = 6 + ci * 2"
  shows "\<exists>t. ltr sel s = Some t \<and> booted pb (insert ci B) t
    \<and> t = s\<lparr>gdt := gdt t, task_register := sel\<rparr>"
proof -
  let ?k = "6 + ci * 2" and ?g = "(gdt s)[6 + ci * 2 := (gdt s ! (6 + ci * 2))\<lparr>access_byte := 0x8B\<rparr>]"
  let ?t = "s\<lparr>gdt := ?g, task_register := sel\<rparr>"
  note b = assms(1) [unfolded booted_def]
  have kl: "?k < length (gdt s)" using b assms(2) by simp
  have "access_byte (gdt s ! ?k) = 0x89" using b assms(2,3) by (simp add: tables_ready_def)
  then have "ltr sel s = Some ?t" using kl by (simp add: ltr_def k Let_def)
  moreover have "tables_ready (if i \<in> insert ci B then 0x8B else 0x89) pb ?t i" if "i < CONFIG_MAX_CPUS" for i
  proof -
    have odd: "7 + i * 2 \<noteq> ?k" by presburger
    have t: "tables_ready (if i \<in> B then 0x8B else 0x89) pb s i" using b that by simp
    show ?thesis
    proof (cases "i = ci")
      case True
      then show ?thesis using t kl by (simp add: tables_ready_def system_base_def segment_limit_def)
    next
      case False
      then show ?thesis using t odd by (simp add: tables_ready_def)
    qed
  qed
  moreover have "?g ! 1 = gdt s ! 1" "?g ! 2 = gdt s ! 2" by simp_all
  ultimately show ?thesis using b by (auto simp: booted_def)
qed

lemma boot_tables_booted:
  assumes "if gdt_initialized s then booted pb B s else B = {}" and "ci < CONFIG_MAX_CPUS" and "ci \<notin> B"
  shows "\<exists>t. boot_tables stubs ia pb ga ci s = Some t \<and> booted pb (insert ci B) t
    \<and> gdtr t = (of_nat (8 * length (gdt t) - 1), ga) \<and> seg_cs t = 8 \<and> seg_data t = 16
    \<and> task_register t = of_nat ((6 + ci * 2) * 8) \<and> gs_base t = percpu_address pb ci
    \<and> kernel_gs_base t = percpu_address pb ci
    \<and> (\<exists>u. t = init_idt stubs ia u)"
proof -
  let ?u = "init_gdt pb ga s"
  have "unat (of_nat ((GDT_TSS_FIRST + ci * 2) * 8) :: u16) div 8 = 6 + ci * 2"
    unfolding unat_tss_selector [OF assms(2)] by simp
  from ltr_booted [OF init_gdt_booted [OF assms(1), of ga] assms(2,3) this] obtain v where
    v: "ltr (of_nat ((GDT_TSS_FIRST + ci * 2) * 8)) ?u = Some v" "booted pb (insert ci B) v"
      "v = ?u\<lparr>gdt := gdt v, task_register := of_nat ((GDT_TSS_FIRST + ci * 2) * 8)\<rparr>" by blast
  let ?t = "init_idt stubs ia (load_percpu_gs_base pb ci v)"
  have "boot_tables stubs ia pb ga ci s = Some ?t" using v(1) assms(2) by (simp add: boot_tables_def load_tss_def)
  moreover have "booted pb (insert ci B) ?t"
    using v(2) by (simp add: booted_def tables_ready_def init_idt_def load_percpu_gs_base_def Let_def)
  moreover have "length (gdt ?t) = gdt_total_entries"
    using v(2) by (simp add: booted_def init_idt_def load_percpu_gs_base_def Let_def gdt_total_entries_def)
  moreover have "gdtr v = gdtr ?u" "seg_cs v = seg_cs ?u" "seg_data v = seg_data ?u"
    "task_register v = of_nat ((GDT_TSS_FIRST + ci * 2) * 8)" by (subst v(3), simp)+
  ultimately show ?thesis
    by (intro exI [of _ ?t])
      (auto simp: init_idt_def load_percpu_gs_base_def Let_def wrmsr_halves init_gdt_def gdt_selector_def gdt_indices mult.commute)
qed

definition boot_all :: "(nat \<Rightarrow> u64) \<Rightarrow> u64 \<Rightarrow> u64 \<Rightarrow> u64 \<Rightarrow> nat list \<Rightarrow> cpu_tables \<Rightarrow> cpu_tables option" where
  "boot_all stubs ia pb ga cis s = fold (\<lambda>ci r. Option.bind r (boot_tables stubs ia pb ga ci)) cis (Some s)"

lemma boot_all_booted:
  assumes "\<not> gdt_initialized s" and "distinct cis" and "set cis \<subseteq> {..<CONFIG_MAX_CPUS}"
  shows "\<exists>t. boot_all stubs ia pb ga cis s = Some t
    \<and> (if gdt_initialized t then booted pb (set cis) t else set cis = {})"
  using assms(2,3)
proof (induction cis rule: rev_induct)
  case (snoc ci cis)
  then obtain u where u: "boot_all stubs ia pb ga cis s = Some u" "if gdt_initialized u then booted pb (set cis) u else set cis = {}"
    by auto
  from boot_tables_booted [OF u(2), of ci stubs ia ga] snoc.prems obtain t where
    "boot_tables stubs ia pb ga ci u = Some t" "booted pb (insert ci (set cis)) t" by auto
  then show ?case using u(1) by (simp add: boot_all_def booted_def)
qed (use assms(1) in \<open>simp add: boot_all_def\<close>)


definition example_descriptors :: cpu_tables where
  "example_descriptors = \<lparr>gdt = [], tss = \<lambda>_. blank_tss, area_syscall_rsp = \<lambda>_. 0, gdt_initialized = False, idt = [], gdtr = (0, 0),
     idtr = (0, 0), seg_cs = 0, seg_data = 0, task_register = 0, gs_base = 0, kernel_gs_base = 0\<rparr>"


lemma to_bytes_0: "to_bytes n 0 = replicate n 0"
  by (induction n) simp_all

lemma cpu_tss_bytes:
  "tss_bytes ((cpu_tss pb i)\<lparr>tss_rsp := [r, 0, 0]\<rparr>)
     = replicate 4 0 @ to_bytes 8 r @ replicate 24 0 @ to_bytes 8 (df_stack_top pb i) @ replicate 60 0"
  by (simp add: tss_bytes_def cpu_tss_def blank_tss_def to_bytes_0 replicate_add [symmetric] flip: append_assoc)
    (simp add: numeral_eq_Suc)

text \<open>C37. The task state segment has no permission map of its own: the offset of the map stays 0, so that the processor
  takes the bytes of the segment itself as the map.  Whatever stack is set for entries from user mode, a
  program in user mode may use every port whose bit lies outside the two stack pointers, among them those of the
  keyboard controller, the second interrupt controller and the disks.\<close>

theorem user_ports_open:
  assumes "\<not> gdt_initialized s" and "ci < CONFIG_MAX_CPUS"
    and "port < 824" and "\<not> (32 \<le> port \<and> port < 96)" and "\<not> (288 \<le> port \<and> port < 352)"
  shows "let t = init_gdt pb ga s; e = gdt t ! (6 + ci * 2) in
    port_permitted ((tss t ci)\<lparr>tss_rsp := (tss_rsp (tss t ci))[0 := kernel_stack]\<rparr>) (segment_limit e) port"
proof -
  let ?t = "init_gdt pb ga s"
  have r: "tables_ready 0x89 pb ?t ci" by (rule init_gdt_tables [OF assms(1,2)])
  then have t: "tss ?t ci = cpu_tss pb ci" "segment_limit (gdt ?t ! (6 + ci * 2)) = 103" by (simp_all add: tables_ready_def)
  have u: "(cpu_tss pb ci)\<lparr>tss_rsp := (tss_rsp (cpu_tss pb ci))[0 := kernel_stack]\<rparr> = (cpu_tss pb ci)\<lparr>tss_rsp := [kernel_stack, 0, 0]\<rparr>"
    "iopb_offset ((cpu_tss pb ci)\<lparr>tss_rsp := [kernel_stack, 0, 0]\<rparr>) = 0"
    by (simp_all add: cpu_tss_def blank_tss_def)
  define k where "k = port div 8"
  have k: "k < 103" "\<not> (4 \<le> k \<and> k < 12)" "\<not> (36 \<le> k \<and> k < 44)" using assms(3-5) unfolding k_def by linarith+
  then have "tss_bytes ((cpu_tss pb ci)\<lparr>tss_rsp := [kernel_stack, 0, 0]\<rparr>) ! k = 0"
    unfolding cpu_tss_bytes by (auto simp: nth_append)
  then show ?thesis
    using k(1) unfolding Let_def t u port_permitted_def by (simp add: u(2) k_def)
qed

theorem user_ports_open_witness:
  "let t = init_gdt 0xffffffff80100000 0x1000 example_descriptors; e = gdt t ! (6 + 0 * 2) in
   port_permitted ((tss t 0)\<lparr>tss_rsp := (tss_rsp (tss t 0))[0 := 0xffff800000205000]\<rparr>) (segment_limit e) 0x64
   \<and> port_permitted ((tss t 0)\<lparr>tss_rsp := (tss_rsp (tss t 0))[0 := 0xffff800000205000]\<rparr>) (segment_limit e) 0x1F7"
proof -
  have a: "\<not> gdt_initialized example_descriptors" "0 < CONFIG_MAX_CPUS" by (simp_all add: example_descriptors_def CONFIG_MAX_CPUS_def)
  show ?thesis
    using user_ports_open [OF a, of "0x64" "0xffffffff80100000" "0x1000" "0xffff800000205000"]
      user_ports_open [OF a, of "0x1F7" "0xffffffff80100000" "0x1000" "0xffff800000205000"]
    by (simp add: Let_def)
qed

end
