(* ===== verification/Tori_Syscall.thy ===== *)
theory Tori_Syscall
  imports Tori_Process Tori_Elf Tori_Keyboard Tori_Vmm_Walk
    Tori_Descriptors
begin

unbundle bit_operations_syntax

text \<open>
  The system calls (\<open>kernel/src/process/syscall.cpp\<close>, \<open>syscall.hpp\<close>) over the state of the processes, the
  file systems, the terminal and the address spaces.  User memory is what the page tables that the
  processor has loaded lead to.  \<open>None\<close> is a run without a result: a fault the kernel does not handle, or
  a wait that never ends.  A handler that gives up the processor continues in the state in which the
  other tasks leave the system (\<open>others\<close>).
\<close>

section \<open>Constants\<close>

definition ERR_PERM :: int where "ERR_PERM = 1"
definition ERR_NO_ENTRY :: int where "ERR_NO_ENTRY = 2"
definition ERR_CHILD :: int where "ERR_CHILD = 10"

definition SYS_write :: u64 where "SYS_write = 0"
definition SYS_exit :: u64 where "SYS_exit = 1"
definition SYS_fork :: u64 where "SYS_fork = 2"
definition SYS_exec :: u64 where "SYS_exec = 3"
definition SYS_spawn :: u64 where "SYS_spawn = 4"
definition SYS_getpid :: u64 where "SYS_getpid = 5"
definition SYS_waitpid :: u64 where "SYS_waitpid = 6"
definition SYS_getppid :: u64 where "SYS_getppid = 7"
definition SYS_read :: u64 where "SYS_read = 8"
definition SYS_open :: u64 where "SYS_open = 9"
definition SYS_close :: u64 where "SYS_close = 10"
definition SYS_lseek :: u64 where "SYS_lseek = 11"
definition SYS_brk :: u64 where "SYS_brk = 12"

section \<open>State\<close>

record SyscallFrame =
  fr_rip :: u64
  fr_rflags :: u64
  fr_rdi :: u64
  fr_rsi :: u64
  fr_rdx :: u64
  fr_r10 :: u64
  fr_r8 :: u64
  fr_r9 :: u64
  fr_rbx :: u64
  fr_rbp :: u64
  fr_r12 :: u64
  fr_r13 :: u64
  fr_r14 :: u64
  fr_r15 :: u64
  fr_rax :: u64
  fr_rsp :: u64

text \<open>\<open>serial\<close> holds the characters written to the serial port.\<close>

record 'f sys = proc_sys +
  files :: "'f vfs"
  keys :: keyboard
  tty :: terminal
  serial :: "u8 list"

text \<open>What the handlers take from elsewhere: the operations of the file systems, the offset of the direct
  map, the addresses of two assembly routines, the uninitialised \<open>Stat\<close> of \<open>seek\<close>, and what the other
  tasks do until this one runs again.\<close>

record 'f env =
  optab :: "'f optab"
  hhdm :: u64
  trampoline :: u64
  fork_return :: u64
  blank_stat :: Stat
  others :: "'f sys \<Rightarrow> 'f sys"

text \<open>Conversions between registers and \<open>int\<close>.\<close>

definition to_int :: "u64 \<Rightarrow> int" where
  "to_int w = sint (ucast w :: u32)"

definition of_err :: "int \<Rightarrow> u64" where
  "of_err e = word_of_int e"

definition with_mm :: "vmm \<Rightarrow> 'f sys \<Rightarrow> 'f sys" where
  "with_mm m s = s\<lparr>memory_manager := m\<rparr>"

section \<open>User memory\<close>

text \<open>The kernel may read every present page and write those that are writable: it runs with write
  protection on, and a fault in kernel mode does not have the user bit that \<open>handle_cow_fault\<close> asks for.\<close>

definition user_load :: "u64 \<Rightarrow> 'f sys \<Rightarrow> u8 option" where
  "user_load a s =
     (case translate (memory_manager s) (cpu_cr3 (cpu s)) a of
        None \<Rightarrow> None
      | Some (pa, _, _) \<Rightarrow> Some (load_byte (memory_manager s) (pa OR (a AND 0xFFF))))"

definition user_store :: "u64 \<Rightarrow> u8 \<Rightarrow> 'f sys \<Rightarrow> 'f sys option" where
  "user_store a b s =
     (case translate (memory_manager s) (cpu_cr3 (cpu s)) a of
        None \<Rightarrow> None
      | Some (pa, flags, _) \<Rightarrow>
          if has_flag flags pte_writable
          then Some (with_mm (store_byte (pa OR (a AND 0xFFF)) b (memory_manager s)) s)
          else None)"

fun user_loads :: "u64 \<Rightarrow> nat \<Rightarrow> 'f sys \<Rightarrow> u8 list option" where
  "user_loads a 0 s = Some []"
| "user_loads a (Suc n) s = do { b \<leftarrow> user_load a s; bs \<leftarrow> user_loads (a + 1) n s; Some (b # bs) }"

fun user_stores :: "u64 \<Rightarrow> u8 list \<Rightarrow> 'f sys \<Rightarrow> 'f sys option" where
  "user_stores a [] s = Some s"
| "user_stores a (b # bs) s = do { s \<leftarrow> user_store a b s; user_stores (a + 1) bs s }"

text \<open>The characters copied, without the final 0; at most \<open>n\<close> are looked at.\<close>

fun copy_chars :: "u64 \<Rightarrow> nat \<Rightarrow> 'f sys \<Rightarrow> string option" where
  "copy_chars a 0 s = Some []"
| "copy_chars a (Suc n) s = do {
     b \<leftarrow> user_load a s;
     if b = 0 then Some [] else do { cs \<leftarrow> copy_chars (a + 1) n s; Some (char_of (unat b) # cs) }
   }"

definition copy_string_from_user :: "u64 \<Rightarrow> nat \<Rightarrow> 'f sys \<Rightarrow> (int + string) option" where
  "copy_string_from_user user_src max_len s =
     (if user_src = 0 then Some (Inl (- ERR_INVALID))
      else map_option Inr (copy_chars user_src (max_len - 1) s))"

section \<open>Files\<close>

text \<open>The file layer with the descriptor tables of the processes; the one of the current task is used.\<close>

definition vfs_view :: "'f sys \<Rightarrow> 'f vfs" where
  "vfs_view s = (files s)\<lparr>process_fd_table := (\<lambda>p. fd_table (procs s p)),
     current_process :=
       (let t = current_task s; th = task_thread (tasks s t); p = thread_process (threads s th) in
        if t = 0 \<or> th = 0 \<or> p = 0 then None else Some p)\<rparr>"

definition put_vfs :: "'f vfs \<Rightarrow> 'f sys \<Rightarrow> 'f sys" where
  "put_vfs v s = s\<lparr>files := v, procs := (\<lambda>p. (procs s p)\<lparr>fd_table := process_fd_table v p\<rparr>)\<rparr>"

text \<open>The read operation of a vnode as the loader calls it.  A read without a result counts as one that
  fails.\<close>

definition vnode_reader :: "'f optab \<Rightarrow> vptr \<Rightarrow> 'f vfs \<Rightarrow> file_read" where
  "vnode_reader tab v fs off n =
     (case op_read (tab (vnode_ops (vnodes fs v))) of
        None \<Rightarrow> (E_IO, [])
      | Some rd \<Rightarrow>
          (case rd v off (\<lambda>_. 0) n fs of
             None \<Rightarrow> (E_IO, [])
           | Some (err, nread, buf, _) \<Rightarrow> (err, map buf [0 ..< unat nread])))"

definition load_file :: "'f env \<Rightarrow> vptr \<Rightarrow> u64 \<Rightarrow> 'f sys \<Rightarrow> ((int + ElfLoadResult) \<times> 'f sys) option" where
  "load_file e v pml4 s = do {
     (r, m) \<leftarrow> elf64_load (if v = 0 then None else Some (vnode_reader (optab e) v (vfs_view s))) pml4 (memory_manager s);
     Some (r, put_vfs (vnode_unref v (vfs_view s)) (with_mm m s))
   }"

definition sys_write :: "'f env \<Rightarrow> ptr \<Rightarrow> SyscallFrame \<Rightarrow> 'f sys \<Rightarrow> (u64 \<times> 'f sys) option" where
  "sys_write e thread fr s =
     (let fd = to_int (fr_rdi fr); buf = fr_rsi fr; count = fr_rdx fr in
      if buf + count < buf \<or> count = 0 then Some (of_err (- ERR_INVALID), s)
      else do {
        bytes \<leftarrow> user_loads buf (unat count) s;
        (vfs_err, written, v) \<leftarrow> vfs_write (optab e) fd (\<lambda>i. if i < unat count then bytes ! i else 0) count (vfs_view s);
        let s = put_vfs v s;
        if vfs_err = E_SUCCESS then Some (written, s)
        else Some (count, s\<lparr>serial := serial s @ bytes\<rparr>)
      })"

text \<open>Reading the terminal polls it; between two tries the task yields.\<close>

partial_function (option) read_terminal :: "'f env \<Rightarrow> nat \<Rightarrow> 'f sys \<Rightarrow> (u8 list \<times> 'f sys) option" where
  "read_terminal e count s = do {
     (r, k, t) \<leftarrow> read_line count (keys s) (tty s);
     let s = s\<lparr>keys := k, tty := t\<rparr>;
     case r of Some line \<Rightarrow> Some (line, s)
     | None \<Rightarrow> read_terminal e count (others e (yield s))
   }"

definition sys_read :: "'f env \<Rightarrow> ptr \<Rightarrow> SyscallFrame \<Rightarrow> 'f sys \<Rightarrow> (u64 \<times> 'f sys) option" where
  "sys_read e thread fr s =
     (if thread_process (threads s thread) = 0 then Some (of_err (- ERR_PERM), s)
      else
        (let fd = to_int (fr_rdi fr); buf = fr_rsi fr; count = fr_rdx fr in
         if count = 0 then Some (0, s)
         else if fd = 0 then do {
           (line, s) \<leftarrow> read_terminal e (unat count) s;
           s \<leftarrow> user_stores buf (line @ [0]) s;
           Some (of_nat (length line), s)
         }
         else do {
           (err, out_read, bytes, v) \<leftarrow> vfs_read (optab e) fd (\<lambda>_. 0) count (vfs_view s);
           s \<leftarrow> user_stores buf (map bytes [0 ..< unat out_read]) (put_vfs v s);
           Some (if err < 0 then of_err err else out_read, s)
         }))"

definition sys_open :: "'f env \<Rightarrow> ptr \<Rightarrow> SyscallFrame \<Rightarrow> 'f sys \<Rightarrow> (u64 \<times> 'f sys) option" where
  "sys_open e thread fr s = do {
     r \<leftarrow> copy_string_from_user (fr_rdi fr) 256 s;
     case r of Inl err \<Rightarrow> Some (of_err err, s)
     | Inr path \<Rightarrow> do {
         (err, fd, v) \<leftarrow> vfs_open (optab e) 0 (Some path) (ucast (fr_rsi fr)) (vfs_view s);
         Some (if err < 0 then of_err err else of_nat fd, put_vfs v s)
       }
   }"

definition sys_close :: "ptr \<Rightarrow> SyscallFrame \<Rightarrow> 'f sys \<Rightarrow> u64 \<times> 'f sys" where
  "sys_close thread fr s =
     (let (err, v) = vfs_close (to_int (fr_rdi fr)) (vfs_view s) in
      (if err < 0 then of_err err else 0, put_vfs v s))"

definition sys_lseek :: "'f env \<Rightarrow> ptr \<Rightarrow> SyscallFrame \<Rightarrow> 'f sys \<Rightarrow> (u64 \<times> 'f sys) option" where
  "sys_lseek e thread fr s = do {
     (err, new_pos, v) \<leftarrow>
       vfs_seek (optab e) (to_int (fr_rdi fr)) (sint (fr_rsi fr)) (to_int (fr_rdx fr)) (blank_stat e) (vfs_view s);
     Some (if err < 0 then of_err err else new_pos, put_vfs v s)
   }"

section \<open>Processes\<close>

definition process_spawn :: "'f env \<Rightarrow> string option \<Rightarrow> 'f sys \<Rightarrow> (int \<times> 'f sys) option" where
  "process_spawn e path s =
     (case path of None \<Rightarrow> Some (- ERR_INVALID, s)
      | Some path \<Rightarrow> do {
          (err, file, v) \<leftarrow> resolve (optab e) 0 (Some path) (vfs_view s);
          let s = put_vfs v s;
          if err < 0 then Some (- ERR_NO_ENTRY, s)
          else
            (let (pml4, m) = create_user_pml4 (memory_manager s); s = with_mm m s in
             if pml4 = 0 then Some (- ERR_NO_MEM, put_vfs (vnode_unref file (vfs_view s)) s)
             else
               (let (proc, s) = process_create pml4 0 s in
                if proc = 0
                then Some (- ERR_NO_MEM, put_vfs (vnode_unref file (vfs_view s)) (with_mm (vmm_free_page pml4 (memory_manager s)) s))
                else do {
                  (r, s) \<leftarrow> load_file e file pml4 s;
                  case r of Inl err \<Rightarrow> Some (err, set_proc proc (proc_state_update (\<lambda>_. Dead)) s)
                  | Inr load_result \<Rightarrow>
                      (let (thread, s) = thread_create (trampoline e) (hhdm e) proc (elf_entry load_result)
                                           (elf_stack_top load_result) s in
                       if thread = 0 then Some (- ERR_NO_MEM, set_proc proc (proc_state_update (\<lambda>_. Dead)) s)
                       else
                         (let s = set_proc proc (\<lambda>p. p\<lparr>brk := elf_brk_base load_result,
                                    brk_base := elf_brk_base load_result, thread_list := thread\<rparr>) s;
                              s = sched_enqueue thread s in
                          Some (to_int (pid (procs s proc)), s)))
                }))
        })"

definition sys_exit :: "ptr \<Rightarrow> SyscallFrame \<Rightarrow> 'f sys \<Rightarrow> (u64 \<times> 'f sys) option" where
  "sys_exit thread fr s =
     (let status = to_int (fr_rdi fr); proc = thread_process (threads s thread);
          finish = (\<lambda>s. block (set_task thread (task_state_update (\<lambda>_. TaskDead)) s)) in
      if proc = 0 then Some (0, finish s)
      else
        (let s = set_proc proc (\<lambda>p. p\<lparr>exit_status := status, proc_state := Zombie\<rparr>) s in do {
           init \<leftarrow> find_init_process s;
           s \<leftarrow> (if init \<noteq> 0 \<and> init \<noteq> proc then reparent_children proc init s else Some s);
           let par = parent (procs s proc);
           let s = (if par \<noteq> 0 \<and> wait_task (procs s par) \<noteq> 0
                    then set_proc par (wait_task_update (\<lambda>_. 0)) (wake (wait_task (procs s par)) s) else s);
           Some (0, finish s)
         }))"

text \<open>The words of a frame, from its lowest address on.\<close>

definition frame_words :: "SyscallFrame \<Rightarrow> u64 list" where
  "frame_words fr = [fr_rip fr, fr_rflags fr, fr_rdi fr, fr_rsi fr, fr_rdx fr, fr_r10 fr, fr_r8 fr, fr_r9 fr,
     fr_rbx fr, fr_rbp fr, fr_r12 fr, fr_r13 fr, fr_r14 fr, fr_r15 fr, fr_rax fr, fr_rsp fr]"

definition store_words :: "u64 \<Rightarrow> u64 list \<Rightarrow> 'a sched_sys_scheme \<Rightarrow> 'a sched_sys_scheme" where
  "store_words a ws s = s\<lparr>words := fold (\<lambda>i m. m(a + 8 * of_nat i := ws ! i)) [0 ..< length ws] (words s)\<rparr>"

definition read_user_rsp :: "'a sched_sys_scheme \<Rightarrow> u64" where
  "read_user_rsp s = user_rsp_save (percpu s (lapic s))"

text \<open>The stack of the child: the frame at the top, and below it the context that returns to \<open>fork_return\<close>.\<close>

definition fork_stack :: "u64 \<Rightarrow> ptr \<Rightarrow> SyscallFrame \<Rightarrow> 'a sched_sys_scheme \<Rightarrow> 'a sched_sys_scheme" where
  "fork_stack ret task child_frame s =
     (let sp = stack_top (task_stack (tasks s task)) - 128;
          s = store_words sp (frame_words child_frame) s;
          s = store_words (sp - 56) [0, 0, 0, 0, 0, 0, ret] s in
      set_task task (task_context_update (\<lambda>_. sp - 56)) s)"

definition sys_fork :: "'f env \<Rightarrow> ptr \<Rightarrow> SyscallFrame \<Rightarrow> 'f sys \<Rightarrow> u64 \<times> 'f sys" where
  "sys_fork e thread fr s =
     (let par = thread_process (threads s thread) in
      if par = 0 then (of_err (- ERR_PERM), s)
      else
        (let (child_pml4, m) = clone_address_space (pml4_phys (procs s par)) (memory_manager s); s = with_mm m s in
         if child_pml4 = 0 then (of_err (- ERR_NO_MEM), s)
         else
           (let (chld, s) = process_create child_pml4 par s in
            if chld = 0
            then (of_err (- ERR_NO_MEM), with_mm (free_address_space child_pml4 (memory_manager s)) s)
            else
              (let s = set_proc chld (fd_table_update (\<lambda>_. fd_table (procs s par))) s;
                   usp = read_user_rsp s;
                   (child_thread, s) = thread_create (trampoline e) (hhdm e) chld (fr_rip fr) usp s in
               if child_thread = 0
               then (of_err (- ERR_NO_MEM),
                     with_mm (free_address_space child_pml4 (memory_manager s))
                       (set_proc chld (proc_state_update (\<lambda>_. Dead)) s))
               else
                 (let s = fork_stack (fork_return e) child_thread (fr\<lparr>fr_rax := 0, fr_rsp := usp\<rparr>) s;
                      s = set_proc chld (thread_list_update (\<lambda>_. child_thread)) s;
                      s = sched_enqueue child_thread s in
                  (pid (procs s chld), s))))))"

definition sys_exec :: "'f env \<Rightarrow> ptr \<Rightarrow> SyscallFrame \<Rightarrow> 'f sys \<Rightarrow> (u64 \<times> 'f sys) option" where
  "sys_exec e thread fr s =
     (let proc = thread_process (threads s thread) in
      if proc = 0 then Some (of_err (- ERR_PERM), s)
      else do {
        r \<leftarrow> copy_string_from_user (fr_rdi fr) 256 s;
        case r of Inl err \<Rightarrow> Some (of_err err, s)
        | Inr path \<Rightarrow> do {
            (err, file, v) \<leftarrow> resolve (optab e) 0 (Some path) (vfs_view s);
            let s = put_vfs v s;
            if err < 0 then Some (of_err (- ERR_NO_ENTRY), s)
            else
              (let (new_pml4, m) = create_user_pml4 (memory_manager s); s = with_mm m s in
               if new_pml4 = 0 then Some (of_err (- ERR_NO_MEM), put_vfs (vnode_unref file (vfs_view s)) s)
               else do {
                 (r, s) \<leftarrow> load_file e file new_pml4 s;
                 case r of Inl err \<Rightarrow> Some (of_err err, with_mm (free_address_space new_pml4 (memory_manager s)) s)
                 | Inr load_result \<Rightarrow>
                     (let s = with_mm (free_address_space (pml4_phys (procs s proc)) (memory_manager s)) s;
                          s = set_proc proc (\<lambda>p. p\<lparr>pml4_phys := new_pml4, brk := elf_brk_base load_result,
                                brk_base := elf_brk_base load_result\<rparr>) s;
                          s = s\<lparr>threads := (threads s)(thread := (threads s thread)
                                \<lparr>user_rip := elf_entry load_result, user_rsp := elf_stack_top load_result\<rparr>)\<rparr> in
                      Some (0, set_task thread (task_cr3_update (\<lambda>_. new_pml4)) s))
               })
          }
      })"

definition sys_spawn :: "'f env \<Rightarrow> ptr \<Rightarrow> SyscallFrame \<Rightarrow> 'f sys \<Rightarrow> (u64 \<times> 'f sys) option" where
  "sys_spawn e thread fr s = do {
     r \<leftarrow> copy_string_from_user (fr_rdi fr) 256 s;
     case r of Inl err \<Rightarrow> Some (of_err err, s)
     | Inr path \<Rightarrow> do { (p, s) \<leftarrow> process_spawn e (Some path) s; Some (of_err p, s) }
   }"

section \<open>Waiting\<close>

definition wanted :: "int \<Rightarrow> ptr \<Rightarrow> 'a proc_sys_scheme \<Rightarrow> bool" where
  "wanted target_pid cur s \<longleftrightarrow> target_pid \<le> 0 \<or> to_int (pid (procs s cur)) = target_pid"

partial_function (option) find_zombie :: "int \<Rightarrow> ptr \<Rightarrow> 'a proc_sys_scheme \<Rightarrow> ptr option" where
  "find_zombie target_pid cur s =
     (if cur = 0 then Some 0
      else if wanted target_pid cur s \<and> proc_state (procs s cur) = Zombie then Some cur
      else if wanted target_pid cur s \<and> target_pid > 0 then Some 0
      else find_zombie target_pid (child_next (procs s cur)) s)"

partial_function (option) has_children :: "int \<Rightarrow> ptr \<Rightarrow> 'a proc_sys_scheme \<Rightarrow> bool option" where
  "has_children target_pid cur s =
     (if cur = 0 then Some False
      else if wanted target_pid cur s then Some True
      else has_children target_pid (child_next (procs s cur)) s)"

text \<open>An \<open>int\<close> stored as four bytes.\<close>

definition int_bytes :: "int \<Rightarrow> u8 list" where
  "int_bytes i = map (\<lambda>k. ucast (drop_bit (8 * k) (word_of_int i :: u32))) [0 ..< 4]"

definition reap_zombie :: "ptr \<Rightarrow> u64 \<Rightarrow> 'f sys \<Rightarrow> (u64 \<times> 'f sys) option" where
  "reap_zombie z status_ptr s = do {
     s \<leftarrow> (if status_ptr \<noteq> 0 then user_stores status_ptr (int_bytes (exit_status (procs s z))) s else Some s);
     Some (of_err (to_int (pid (procs s z))), reap_process z s)
   }"

partial_function (option) waitpid_loop ::
  "'f env \<Rightarrow> ptr \<Rightarrow> int \<Rightarrow> u64 \<Rightarrow> int \<Rightarrow> 'f sys \<Rightarrow> (u64 \<times> 'f sys) option" where
  "waitpid_loop e proc target_pid status_ptr options s = do {
     z \<leftarrow> find_zombie target_pid (child_head (procs s proc)) s;
     if z \<noteq> 0 then reap_zombie z status_ptr s
     else do {
       has \<leftarrow> has_children target_pid (child_head (procs s proc)) s;
       if \<not> has then Some (of_err (- ERR_CHILD), s)
       else if options AND 1 \<noteq> 0 then Some (0, s)
       else waitpid_loop e proc target_pid status_ptr options
              (others e (block (set_proc proc (wait_task_update (\<lambda>_. current_task s)) s)))
     }
   }"

definition sys_waitpid :: "'f env \<Rightarrow> ptr \<Rightarrow> SyscallFrame \<Rightarrow> 'f sys \<Rightarrow> (u64 \<times> 'f sys) option" where
  "sys_waitpid e thread fr s =
     (let proc = thread_process (threads s thread) in
      if proc = 0 then Some (of_err (- ERR_PERM), s)
      else waitpid_loop e proc (to_int (fr_rdi fr)) (fr_rsi fr) (to_int (fr_rdx fr)) s)"

definition sys_getpid :: "ptr \<Rightarrow> 'a proc_sys_scheme \<Rightarrow> u64" where
  "sys_getpid thread s =
     (let p = thread_process (threads s thread) in if p \<noteq> 0 then pid (procs s p) else 0)"

definition sys_getppid :: "ptr \<Rightarrow> 'a proc_sys_scheme \<Rightarrow> u64" where
  "sys_getppid thread s =
     (let p = thread_process (threads s thread) in
      if p \<noteq> 0 \<and> parent (procs s p) \<noteq> 0 then pid (procs s (parent (procs s p))) else 0)"

section \<open>The program break\<close>

definition brk_flags :: u64 where
  "brk_flags = pte_present OR pte_writable OR pte_user OR 2 ^ 63"

text \<open>The pages mapped before a failure stay.\<close>

fun brk_pages :: "u64 \<Rightarrow> u64 list \<Rightarrow> vmm \<Rightarrow> (bool \<times> vmm) option" where
  "brk_pages pml4 [] m = Some (True, m)"
| "brk_pages pml4 (page # pages) m = do {
     (r, m) \<leftarrow> map_zero_page page brk_flags pml4 m;
     case r of Inl _ \<Rightarrow> Some (False, m) | Inr _ \<Rightarrow> brk_pages pml4 pages m
   }"

definition page_up :: "u64 \<Rightarrow> u64" where
  "page_up a = (a + 0xFFF) AND NOT 0xFFF"

definition sys_brk :: "ptr \<Rightarrow> SyscallFrame \<Rightarrow> 'f sys \<Rightarrow> (u64 \<times> 'f sys) option" where
  "sys_brk thread fr s =
     (let proc = thread_process (threads s thread); new_brk = fr_rdi fr in
      if proc = 0 then Some (of_err (- ERR_PERM), s)
      else if new_brk = 0 then Some (brk (procs s proc), s)
      else if new_brk < brk_base (procs s proc) then Some (brk (procs s proc), s)
      else
        (let old_end = page_up (brk (procs s proc)); new_end = page_up new_brk in do {
           (ok, m) \<leftarrow> (if new_end > old_end
                       then brk_pages (pml4_phys (procs s proc)) (page_range old_end new_end) (memory_manager s)
                       else Some (True, memory_manager s));
           let s = with_mm m s;
           if \<not> ok then Some (of_err (- ERR_NO_MEM), s)
           else Some (new_brk, set_proc proc (brk_update (\<lambda>_. new_brk)) s)
         }))"

section \<open>Dispatch\<close>

definition handle_syscall :: "'f env \<Rightarrow> u64 \<Rightarrow> SyscallFrame \<Rightarrow> 'f sys \<Rightarrow> (u64 \<times> 'f sys) option" where
  "handle_syscall e number fr s =
     (let task = current_task s; thread = task_thread (tasks s task) in
      if task = 0 \<or> thread = 0 then Some (of_err (- ERR_PERM), s)
      else if number = SYS_write then sys_write e thread fr s
      else if number = SYS_exit then sys_exit thread fr s
      else if number = SYS_fork then Some (sys_fork e thread fr s)
      else if number = SYS_exec then sys_exec e thread fr s
      else if number = SYS_spawn then sys_spawn e thread fr s
      else if number = SYS_getpid then Some (sys_getpid thread s, s)
      else if number = SYS_waitpid then sys_waitpid e thread fr s
      else if number = SYS_getppid then Some (sys_getppid thread s, s)
      else if number = SYS_read then sys_read e thread fr s
      else if number = SYS_open then sys_open e thread fr s
      else if number = SYS_close then Some (sys_close thread fr s)
      else if number = SYS_lseek then sys_lseek e thread fr s
      else if number = SYS_brk then sys_brk thread fr s
      else Some (of_err (- ERR_INVALID), s))"

section \<open>Entry and return\<close>

text \<open>The model-specific registers as a map from their numbers.\<close>

definition init_syscall :: "u64 \<Rightarrow> (u32 \<Rightarrow> u64) \<Rightarrow> u32 \<Rightarrow> u64" where
  "init_syscall entry_addr msr =
     (let star = push_bit 32 0x08 OR push_bit 48 0x18 in
      msr(0xC0000080 := msr 0xC0000080 OR 1, 0xC0000081 := star, 0xC0000082 := entry_addr, 0xC0000084 := 0x25700))"

text \<open>The registers of the user program.  On entry \<open>rcx\<close> holds the address to return to and \<open>r11\<close> the
  flags.\<close>

record UserRegs =
  ur_rax :: u64
  ur_rcx :: u64
  ur_r11 :: u64
  ur_rdi :: u64
  ur_rsi :: u64
  ur_rdx :: u64
  ur_r10 :: u64
  ur_r8 :: u64
  ur_r9 :: u64
  ur_rbx :: u64
  ur_rbp :: u64
  ur_r12 :: u64
  ur_r13 :: u64
  ur_r14 :: u64
  ur_r15 :: u64
  ur_rsp :: u64

fun push_all :: "u64 list \<Rightarrow> u64 \<Rightarrow> (u64 \<Rightarrow> u64) \<Rightarrow> u64 \<times> (u64 \<Rightarrow> u64)" where
  "push_all [] sp m = (sp, m)"
| "push_all (w # ws) sp m = push_all ws (sp - 8) (m(sp - 8 := w))"

text \<open>The two bases of \<open>gs\<close>, the one in use and the one that \<open>swapgs\<close> exchanges it with.  An access
  through \<open>gs\<close> reaches the area of a processor when the base is the address of the area; with another base
  the access is to other memory and has no result here.\<close>

record GsBases =
  active_gs :: u64
  shadow_gs :: u64

definition swap_gs :: "GsBases \<Rightarrow> GsBases" where
  "swap_gs g = \<lparr>active_gs = shadow_gs g, shadow_gs = active_gs g\<rparr>"

definition gs_area :: "u64 \<Rightarrow> GsBases \<Rightarrow> nat option" where
  "gs_area pb g = find (\<lambda>i. percpu_address pb i = active_gs g) [0 ..< CONFIG_MAX_CPUS]"

text \<open>The number of the call and the address of the frame, as they are passed to \<open>handle_syscall\<close>, with the
  bases of \<open>gs\<close>; \<open>pb\<close> is the address of the areas.\<close>

definition syscall_entry ::
  "u64 \<Rightarrow> UserRegs \<Rightarrow> GsBases \<Rightarrow> 'a sched_sys_scheme \<Rightarrow> (u64 \<times> u64 \<times> GsBases \<times> 'a sched_sys_scheme) option" where
  "syscall_entry pb r g s = do {
     let g = swap_gs g;
     i \<leftarrow> gs_area pb g;
     let s = s\<lparr>percpu := (percpu s)(i := (percpu s i)\<lparr>user_rsp_save := ur_rsp r\<rparr>)\<rparr>;
     let (sp, w) = push_all [user_rsp_save (percpu s i), ur_rax r,
              ur_r15 r, ur_r14 r, ur_r13 r, ur_r12 r, ur_rbp r, ur_rbx r,
              ur_r9 r, ur_r8 r, ur_r10 r, ur_rdx r, ur_rsi r, ur_rdi r, ur_r11 r, ur_rcx r]
            (syscall_rsp (percpu s i)) (words s);
     Some (ur_rax r, sp, g, s\<lparr>words := w\<rparr>)
   }"

text \<open>The frame at an address, by the offsets of its members.\<close>

definition read_frame :: "u64 \<Rightarrow> 'a sched_sys_scheme \<Rightarrow> SyscallFrame" where
  "read_frame a s = (let w = (\<lambda>off. words s (a + off)) in
     \<lparr>fr_rip = w 0, fr_rflags = w 8, fr_rdi = w 16, fr_rsi = w 24, fr_rdx = w 32, fr_r10 = w 40, fr_r8 = w 48,
      fr_r9 = w 56, fr_rbx = w 64, fr_rbp = w 72, fr_r12 = w 80, fr_r13 = w 88, fr_r14 = w 96, fr_r15 = w 104,
      fr_rax = w 112, fr_rsp = w 120\<rparr>)"

text \<open>The pops from \<open>fork_return\<close> on.  The stack pointer of the user is popped last, into the area of the
  processor, and loaded from there.\<close>

definition pop_user_frame ::
  "u64 \<Rightarrow> u64 \<Rightarrow> GsBases \<Rightarrow> 'a sched_sys_scheme \<Rightarrow> (UserRegs \<times> GsBases \<times> 'a sched_sys_scheme) option" where
  "pop_user_frame pb sp g s = do {
     let w = (\<lambda>k. words s (sp + 8 * k));
     i \<leftarrow> gs_area pb g;
     let s = s\<lparr>percpu := (percpu s)(i := (percpu s i)\<lparr>user_rsp_save := w 15\<rparr>)\<rparr>;
     let r = \<lparr>ur_rax = w 14, ur_rcx = w 0, ur_r11 = w 1, ur_rdi = w 2, ur_rsi = w 3, ur_rdx = w 4, ur_r10 = w 5,
        ur_r8 = w 6, ur_r9 = w 7, ur_rbx = w 8, ur_rbp = w 9, ur_r12 = w 10, ur_r13 = w 11, ur_r14 = w 12,
        ur_r15 = w 13, ur_rsp = user_rsp_save (percpu s i)\<rparr>;
     Some (r, swap_gs g, s)
   }"

definition syscall_return ::
  "u64 \<Rightarrow> u64 \<Rightarrow> u64 \<Rightarrow> GsBases \<Rightarrow> 'a sched_sys_scheme \<Rightarrow> (UserRegs \<times> GsBases \<times> 'a sched_sys_scheme) option" where
  "syscall_return pb result sp g s = pop_user_frame pb sp g (s\<lparr>words := (words s)(sp + 112 := result)\<rparr>)"

end
