(* ===== verification/Tori_Sched_Props.thy ===== *)
theory Tori_Sched_Props
  imports Tori_Sched
begin

text \<open>
  The ready queue as a sequence, the invariant of the scheduler under every sequence of its operations,
  the order in which tasks run, and what a switch saves and restores.
\<close>

section \<open>Queues\<close>

text \<open>A first-in first-out queue of elements that are in it at most once.\<close>

locale fifo =
  fixes rep :: "'s \<Rightarrow> 'e list \<Rightarrow> bool"
    and push :: "'e \<Rightarrow> 's \<Rightarrow> 's"
    and pop :: "'s \<Rightarrow> 'e \<times> 's"
    and elem :: "'e \<Rightarrow> bool"
  assumes push_rep: "rep s q \<Longrightarrow> elem e \<Longrightarrow> e \<notin> set q \<Longrightarrow> rep (push e s) (q @ [e])"
    and pop_rep: "rep s (e # q) \<Longrightarrow> fst (pop s) = e \<and> rep (snd (pop s)) q"
begin

text \<open>Pushing an element and popping one turns the sequence.\<close>

lemma turn:
  assumes "rep s q" "elem e" "e \<notin> set q"
  shows "fst (pop (push e s)) = hd (q @ [e])" "rep (snd (pop (push e s))) (tl (q @ [e]))"
  using push_rep [OF assms] pop_rep [of "push e s" "hd (q @ [e])" "tl (q @ [e])"] by auto

end

section \<open>The ready queue\<close>

definition rn :: "'a sched_sys_scheme \<Rightarrow> ptr \<Rightarrow> ptr" where "rn s = (\<lambda>p. ready_next (tasks s p))"
definition rp :: "'a sched_sys_scheme \<Rightarrow> ptr \<Rightarrow> ptr" where "rp s = (\<lambda>p. ready_prev (tasks s p))"
definition states :: "'a sched_sys_scheme \<Rightarrow> ptr \<Rightarrow> TaskState" where "states s = (\<lambda>p. task_state (tasks s p))"

lemmas task_views = rn_def rp_def states_def

definition ready :: "'a sched_sys_scheme \<Rightarrow> ptr list \<Rightarrow> bool" where
  "ready s q \<longleftrightarrow> dlist (rn s) (rp s) (rq_head s) (rq_tail s) q"

lemma push_fields:
  "rn (ready_queue_push t s) = (if rq_tail s \<noteq> 0 then (rn s)(t := 0, rq_tail s := t) else (rn s)(t := 0))"
  "rp (ready_queue_push t s) = (rp s)(t := rq_tail s)"
  "rq_head (ready_queue_push t s) = (if rq_tail s \<noteq> 0 then rq_head s else t)"
  "rq_tail (ready_queue_push t s) = t"
  by (auto simp: ready_queue_push_def set_task_def Let_def task_views fun_eq_iff)

lemma pop_fields:
  "fst (ready_queue_pop s) = rq_head s"
  "rq_head s \<noteq> 0 \<Longrightarrow> rn (snd (ready_queue_pop s)) = (rn s)(rq_head s := 0)"
  "rq_head s \<noteq> 0 \<Longrightarrow> rp (snd (ready_queue_pop s)) =
     (if rn s (rq_head s) \<noteq> 0 then (rp s)(rn s (rq_head s) := 0, rq_head s := 0) else (rp s)(rq_head s := 0))"
  "rq_head s \<noteq> 0 \<Longrightarrow> rq_head (snd (ready_queue_pop s)) = rn s (rq_head s)"
  "rq_head s \<noteq> 0 \<Longrightarrow> rq_tail (snd (ready_queue_pop s)) = (if rn s (rq_head s) \<noteq> 0 then rq_tail s else 0)"
  by (auto simp: ready_queue_pop_def set_task_def Let_def task_views fun_eq_iff)

lemma ready_push:
  assumes "ready s q" "t \<noteq> 0" "t \<notin> set q"
  shows "ready (ready_queue_push t s) (q @ [t])"
  using dlist_append [of "rn s" "rp s" "rq_head s" "rq_tail s" q t] assms by (simp add: ready_def push_fields)

lemma ready_pop:
  assumes "ready s (t # q)"
  shows "fst (ready_queue_pop s) = t \<and> ready (snd (ready_queue_pop s)) q"
proof -
  have "rq_head s \<noteq> 0" "rq_head s = t" using assms by (auto simp: ready_def dlist_def)
  then show ?thesis using dlist_pop(3) [OF assms [unfolded ready_def]]
    by (cases "rn s t = 0") (simp_all add: ready_def pop_fields)
qed

lemma ready_pop_empty: "ready s [] \<Longrightarrow> ready_queue_pop s = (0, s)"
  by (simp add: ready_def dlist_def ready_queue_pop_def Let_def)

interpretation rq: fifo ready ready_queue_push ready_queue_pop "\<lambda>t. t \<noteq> 0"
  by unfold_locales (auto intro: ready_push dest: ready_pop)

text \<open>A task is taken out of any place of the queue.\<close>

lemma remove_fields:
  assumes "rp s t \<noteq> t" "rn s t \<noteq> t"
  shows "rn (ready_queue_remove t s) = ((if rp s t \<noteq> 0 then (rn s)(rp s t := rn s t) else rn s)(t := 0))"
  "rp (ready_queue_remove t s) = ((if rn s t \<noteq> 0 then (rp s)(rn s t := rp s t) else rp s)(t := 0))"
  "rq_head (ready_queue_remove t s) = (if rp s t \<noteq> 0 then rq_head s else rn s t)"
  "rq_tail (ready_queue_remove t s) = (if rn s t \<noteq> 0 then rq_tail s else rp s t)"
  using assms by (cases "rp s t = 0"; cases "rn s t = 0";
    simp add: ready_queue_remove_def set_task_def Let_def task_views fun_eq_iff)+

lemma ready_remove:
  assumes "ready s (xs @ t # ys)"
  shows "ready (ready_queue_remove t s) (xs @ ys)"
proof -
  note d = dlist_remove [OF assms [unfolded ready_def]]
  have "t \<notin> set xs" "t \<notin> set ys" "t \<noteq> 0" using assms by (auto simp: ready_def dlist_def)
  then have "rp s t \<noteq> t" "rn s t \<noteq> t" unfolding d(1,2)
    by (metis last_in_set last_or_def neq0_conv, metis hd_in_set hd_or_def neq0_conv)
  then show ?thesis using d(3) by (simp add: ready_def remove_fields)
qed

section \<open>What the operations leave alone\<close>

lemma push_frame [simp]:
  "states (ready_queue_push t s) = states s" "current_tasks (ready_queue_push t s) = current_tasks s"
  "lapic (ready_queue_push t s) = lapic s" "idle_task (ready_queue_push t s) = idle_task s"
  "scheduler_active (ready_queue_push t s) = scheduler_active s" "alloc_next (ready_queue_push t s) = alloc_next s"
  "current_task (ready_queue_push t s) = current_task s" "words (ready_queue_push t s) = words s"
  "task_context (tasks (ready_queue_push t s) p) = task_context (tasks s p)"
  "task_cr3 (tasks (ready_queue_push t s) p) = task_cr3 (tasks s p)"
  by (auto simp: ready_queue_push_def set_task_def Let_def states_def fun_eq_iff current_task_def)

lemma pop_frame [simp]:
  "states (snd (ready_queue_pop s)) = states s" "current_tasks (snd (ready_queue_pop s)) = current_tasks s"
  "lapic (snd (ready_queue_pop s)) = lapic s" "idle_task (snd (ready_queue_pop s)) = idle_task s"
  "scheduler_active (snd (ready_queue_pop s)) = scheduler_active s" "alloc_next (snd (ready_queue_pop s)) = alloc_next s"
  "current_task (snd (ready_queue_pop s)) = current_task s" "words (snd (ready_queue_pop s)) = words s"
  "task_context (tasks (snd (ready_queue_pop s)) p) = task_context (tasks s p)"
  "task_cr3 (tasks (snd (ready_queue_pop s)) p) = task_cr3 (tasks s p)"
  by (auto simp: ready_queue_pop_def set_task_def Let_def states_def fun_eq_iff current_task_def)

lemma set_task_lists [simp]: "rq_head (set_task t g s) = rq_head s" "rq_tail (set_task t g s) = rq_tail s"
  by (simp_all add: set_task_def)

lemma set_task_links [simp]:
  "rn (set_task t (task_state_update f) s) = rn s" "rp (set_task t (task_state_update f) s) = rp s"
  "rn (set_task t (task_id_update h) s) = rn s" "rp (set_task t (task_id_update h) s) = rp s"
  "rn (set_task t (task_context_update h) s) = rn s" "rp (set_task t (task_context_update h) s) = rp s"
  "rn (set_task t (task_next_update k) s) = rn s" "rp (set_task t (task_next_update k) s) = rp s"
  "rn (set_task t (task_prev_update k) s) = rn s" "rp (set_task t (task_prev_update k) s) = rp s"
  by (auto simp: set_task_def task_views)

lemma readyI: "rn s = rn t \<Longrightarrow> rp s = rp t \<Longrightarrow> rq_head s = rq_head t \<Longrightarrow> rq_tail s = rq_tail t \<Longrightarrow> ready s = ready t"
  by (auto simp: ready_def)

lemma list_add_frame [simp]:
  "states (list_add t s) = states s" "current_tasks (list_add t s) = current_tasks s"
  "lapic (list_add t s) = lapic s" "idle_task (list_add t s) = idle_task s"
  "scheduler_active (list_add t s) = scheduler_active s" "alloc_next (list_add t s) = alloc_next s"
  "current_task (list_add t s) = current_task s" "words (list_add t s) = words s"
  "task_context (tasks (list_add t s) p) = task_context (tasks s p)"
  "task_cr3 (tasks (list_add t s) p) = task_cr3 (tasks s p)"
  by (auto simp: list_add_def set_task_def Let_def states_def fun_eq_iff current_task_def)

lemma ready_list_add [simp]: "ready (list_add t s) = ready s"
  by (intro readyI) (auto simp: list_add_def set_task_def Let_def task_views fun_eq_iff)

lemma set_state_frame [simp]:
  "states (set_task t (task_state_update f) s) = (states s)(t := f (states s t))"
  "current_tasks (set_task t g s) = current_tasks s" "lapic (set_task t g s) = lapic s"
  "idle_task (set_task t g s) = idle_task s" "scheduler_active (set_task t g s) = scheduler_active s"
  "alloc_next (set_task t g s) = alloc_next s" "current_task (set_task t g s) = current_task s"
  "states (set_task t (task_id_update h) s) = states s" "words (set_task t g s) = words s"
  by (auto simp: set_task_def states_def fun_eq_iff current_task_def)

lemma ready_set_task [simp]:
  "ready (set_task t (task_state_update f) s) = ready s" "ready (set_task t (task_id_update h) s) = ready s"
  by (rule readyI; simp)+

lemma update_frame [simp]:
  "ready (s\<lparr>need_reschedule := x\<rparr>) = ready s" "states (s\<lparr>need_reschedule := x\<rparr>) = states s"
  "current_task (s\<lparr>need_reschedule := x\<rparr>) = current_task s"
  "ready (s\<lparr>total_task_count := n\<rparr>) = ready s" "states (s\<lparr>total_task_count := n\<rparr>) = states s"
  "current_task (s\<lparr>total_task_count := n\<rparr>) = current_task s"
  "ready (s\<lparr>next_task_id := n\<rparr>) = ready s" "states (s\<lparr>next_task_id := n\<rparr>) = states s"
  "current_task (s\<lparr>next_task_id := n\<rparr>) = current_task s"
  "ready (s\<lparr>scheduler_active := a\<rparr>) = ready s" "states (s\<lparr>scheduler_active := a\<rparr>) = states s"
  "current_task (s\<lparr>scheduler_active := a\<rparr>) = current_task s"
  by (simp_all add: ready_def task_views current_task_def fun_eq_iff)

lemma restore_frame [simp]:
  "states (restore_context c r s) = states s" "current_tasks (restore_context c r s) = current_tasks s"
  "lapic (restore_context c r s) = lapic s" "idle_task (restore_context c r s) = idle_task s"
  "scheduler_active (restore_context c r s) = scheduler_active s" "alloc_next (restore_context c r s) = alloc_next s"
  "current_task (restore_context c r s) = current_task s" "ready (restore_context c r s) = ready s"
  by (simp_all add: restore_context_def task_views fun_eq_iff current_task_def ready_def)

lemma context_switch_frame [simp]:
  "states (context_switch p c r s) = states s" "current_tasks (context_switch p c r s) = current_tasks s"
  "lapic (context_switch p c r s) = lapic s" "idle_task (context_switch p c r s) = idle_task s"
  "scheduler_active (context_switch p c r s) = scheduler_active s" "alloc_next (context_switch p c r s) = alloc_next s"
  "current_task (context_switch p c r s) = current_task s"
  by (auto simp: context_switch_def save_context_def restore_context_def set_task_def states_def fun_eq_iff current_task_def Let_def)

lemma ready_context_switch [simp]: "ready (context_switch p c r s) = ready s"
  by (intro readyI) (auto simp: context_switch_def save_context_def restore_context_def set_task_def task_views Let_def)

lemma set_current_frame [simp]:
  "states (set_current_task t s) = states s" "lapic (set_current_task t s) = lapic s"
  "idle_task (set_current_task t s) = idle_task s" "tasks (set_current_task t s) = tasks s"
  "scheduler_active (set_current_task t s) = scheduler_active s" "alloc_next (set_current_task t s) = alloc_next s"
  "ready (set_current_task t s) = ready s"
  "current_task (set_current_task t s) = (if lapic s < CONFIG_MAX_CPUS then t else current_task s)"
  by (auto simp: set_current_task_def set_kernel_entry_stack_def task_views current_task_def ready_def Let_def)

section \<open>Scheduling\<close>

text \<open>The next task of the queue becomes the current one and runs; the rest stays queued.\<close>

lemma switch_to_frame:
  assumes "lapic s < CONFIG_MAX_CPUS" "c = current_task s"
  shows "ready (switch_to c n s) = ready s" "current_task (switch_to c n s) = n" "states (switch_to c n s) = (states s)(n := Running)"
    "lapic (switch_to c n s) = lapic s" "idle_task (switch_to c n s) = idle_task s"
    "scheduler_active (switch_to c n s) = scheduler_active s" "alloc_next (switch_to c n s) = alloc_next s"
  using assms by (auto simp: switch_to_def Let_def)

lemma schedule_next:
  assumes "ready s (n # q)" "lapic s < CONFIG_MAX_CPUS"
  shows "ready (schedule_internal s) q" "current_task (schedule_internal s) = n"
    "states (schedule_internal s) = (states s)(n := Running)" "lapic (schedule_internal s) = lapic s"
    "idle_task (schedule_internal s) = idle_task s" "scheduler_active (schedule_internal s) = scheduler_active s"
    "alloc_next (schedule_internal s) = alloc_next s"
proof -
  have n: "n \<noteq> 0" using assms(1) by (auto simp: ready_def dlist_def)
  have p: "fst (ready_queue_pop s) = n" "ready (snd (ready_queue_pop s)) q" using ready_pop [OF assms(1)] by auto
  have e: "schedule_internal s = switch_to (current_task s) n (snd (ready_queue_pop s))"
    using p n by (simp add: schedule_internal_def split_beta Let_def)
  have "lapic (snd (ready_queue_pop s)) < CONFIG_MAX_CPUS" using assms(2) by simp
  note f = switch_to_frame [OF this, of "current_task s" n, simplified]
  show "ready (schedule_internal s) q" "current_task (schedule_internal s) = n"
    "states (schedule_internal s) = (states s)(n := Running)" "lapic (schedule_internal s) = lapic s"
    "idle_task (schedule_internal s) = idle_task s" "scheduler_active (schedule_internal s) = scheduler_active s"
    "alloc_next (schedule_internal s) = alloc_next s"
    unfolding e by (simp_all add: f p)
qed

section \<open>The invariant\<close>

text \<open>The task \<open>c\<close> runs and \<open>q\<close> waits for the processor.  A task in the queue is not blocked and not
  dead, and the idle task is never missing, so that there is always a task to run.\<close>

definition sched_ok :: "'a sched_sys_scheme \<Rightarrow> ptr \<Rightarrow> ptr list \<Rightarrow> bool" where
  "sched_ok s c q \<longleftrightarrow> ready s q \<and> current_task s = c \<and> c \<noteq> 0 \<and> c \<notin> set q \<and> lapic s < CONFIG_MAX_CPUS
     \<and> states s c = Running \<and> (\<forall>t \<in> set q. states s t = Ready \<or> states s t = Running)
     \<and> idle_task s \<in> set (c # q) \<and> scheduler_active s \<and> (\<forall>t \<in> set (c # q). t < alloc_next s)"

lemma sched_ok_schedule:
  assumes "ready s (n # q)" "lapic s < CONFIG_MAX_CPUS" "\<forall>t \<in> set q. states s t = Ready \<or> states s t = Running"
    "idle_task s \<in> set (n # q)" "scheduler_active s" "\<forall>t \<in> set (n # q). t < alloc_next s"
  shows "sched_ok (schedule_internal s) n q"
proof -
  have "n \<noteq> 0" "n \<notin> set q" using assms(1) by (auto simp: ready_def dlist_def)
  then show ?thesis using assms schedule_next [OF assms(1,2)] by (simp add: sched_ok_def)
qed

text \<open>A task that gives up the processor and stays ready goes to the end of the queue.\<close>

lemma sched_ok_turn:
  assumes "sched_ok s c q" "ready t q" "states t = states s \<or> states t = (states s)(c := Ready)" "lapic t = lapic s"
    "idle_task t = idle_task s" "scheduler_active t" "alloc_next t = alloc_next s"
  shows "sched_ok (schedule_internal (ready_queue_push c t)) (hd (q @ [c])) (tl (q @ [c]))"
proof (rule sched_ok_schedule)
  show "ready (ready_queue_push c t) (hd (q @ [c]) # tl (q @ [c]))"
    using assms by (simp add: sched_ok_def ready_push)
  have "set (tl (q @ [c])) \<subseteq> set (q @ [c])" by (metis list.set_sel(2) snoc_eq_iff_butlast subsetI)
  moreover have "\<forall>x \<in> set (q @ [c]). states t x = Ready \<or> states t x = Running"
    using assms(1,3) by (fastforce simp: sched_ok_def)
  ultimately show "\<forall>x \<in> set (tl (q @ [c])). states (ready_queue_push c t) x = Ready \<or> states (ready_queue_push c t) x = Running"
    by auto
qed (use assms in \<open>auto simp: sched_ok_def\<close>)

lemma yield_turn:
  assumes "sched_ok s c q"
  shows "sched_ok (yield s) (hd (q @ [c])) (tl (q @ [c]))"
proof -
  have "yield s = schedule_internal (ready_queue_push c s)" using assms by (simp add: yield_def sched_ok_def)
  then show ?thesis using sched_ok_turn [OF assms, of s] assms by (simp add: sched_ok_def)
qed

lemma preempt_turn:
  assumes "sched_ok s c q"
  shows "sched_ok (sched_do_preempt s) (hd (q @ [c])) (tl (q @ [c]))"
proof -
  let ?t = "set_task c (task_state_update (\<lambda>_. Ready)) (s\<lparr>need_reschedule := (need_reschedule s)(lapic s := False)\<rparr>)"
  have "sched_do_preempt s = schedule_internal (ready_queue_push c ?t)"
    using assms by (simp add: sched_do_preempt_def sched_ok_def Let_def states_def)
  then show ?thesis using sched_ok_turn [OF assms, of ?t] assms by (simp add: sched_ok_def)
qed

lemma leave_turn:
  assumes "sched_ok s c q" "c \<noteq> idle_task s"
  shows "\<exists>n q'. q = n # q' \<and> sched_ok (schedule_internal (set_task c (task_state_update f) s)) n q'"
proof (cases q)
  case Nil
  with assms show ?thesis by (simp add: sched_ok_def)
next
  case (Cons n q')
  have "sched_ok (schedule_internal (set_task c (task_state_update f) s)) n q'"
    by (rule sched_ok_schedule) (use assms Cons in \<open>auto simp: sched_ok_def\<close>)
  with Cons show ?thesis by simp
qed

lemma wake_queues:
  assumes "sched_ok s c q" "t \<noteq> 0" "t < alloc_next s" "states s t = Blocked"
  shows "sched_ok (wake t s) c (q @ [t])"
proof -
  have "t \<noteq> c" "t \<notin> set q" using assms(1,4) by (auto simp: sched_ok_def)
  moreover have "wake t s = ready_queue_push t (set_task t (task_state_update (\<lambda>_. Ready)) s)"
    using assms(4) by (simp add: wake_def states_def)
  ultimately show ?thesis
    using assms ready_push [of "set_task t (task_state_update (\<lambda>_. Ready)) s" q t] by (auto simp: sched_ok_def)
qed

lemma wake_ok:
  assumes "sched_ok s c q" "t \<noteq> 0" "t < alloc_next s"
  shows "\<exists>q'. sched_ok (wake t s) c q'"
proof (cases "states s t = Blocked")
  case True
  then show ?thesis using wake_queues assms by blast
next
  case False
  then have "wake t s = s" by (simp add: wake_def states_def)
  then show ?thesis using assms(1) by auto
qed

lemma enqueue_ok:
  assumes "sched_ok s c q" "t \<noteq> 0" "t < alloc_next s" "t \<noteq> c" "t \<notin> set q"
  shows "sched_ok (sched_enqueue t s) c (q @ [t])"
proof -
  define s1 where "s1 = (if task_id (tasks s t) = 0
    then set_task t (task_id_update (\<lambda>_. next_task_id s)) (s\<lparr>next_task_id := next_task_id s + 1\<rparr>) else s)"
  have s1: "sched_ok s1 c q" "alloc_next s1 = alloc_next s" using assms(1) by (auto simp: s1_def sched_ok_def)
  let ?s2 = "set_task t (task_state_update (\<lambda>_. Ready)) s1"
  have "ready (ready_queue_push t ?s2) (q @ [t])" using s1 assms by (simp add: sched_ok_def ready_push)
  then have "sched_ok (list_add t (ready_queue_push t ?s2)) c (q @ [t])" using s1 assms by (auto simp: sched_ok_def)
  then show ?thesis by (auto simp: sched_enqueue_def Let_def s1_def [symmetric] sched_ok_def)
qed

lemma kalloc_frame [simp]:
  "ready (snd (proc_kalloc s)) = ready s" "states (snd (proc_kalloc s)) = states s"
  "current_task (snd (proc_kalloc s)) = current_task s" "lapic (snd (proc_kalloc s)) = lapic s"
  "idle_task (snd (proc_kalloc s)) = idle_task s" "scheduler_active (snd (proc_kalloc s)) = scheduler_active s"
  "alloc_next (snd (proc_kalloc s)) = Suc (alloc_next s)" "memory_manager (snd (proc_kalloc s)) = memory_manager s"
  by (simp_all add: proc_kalloc_def Let_def ready_def task_views current_task_def fun_eq_iff)

lemma memory_frame [simp]:
  "ready (s\<lparr>memory_manager := v\<rparr>) = ready s" "states (s\<lparr>memory_manager := v\<rparr>) = states s"
  "current_task (s\<lparr>memory_manager := v\<rparr>) = current_task s"
  "ready (proc_kfree p s) = ready s" "states (proc_kfree p s) = states s" "current_task (proc_kfree p s) = current_task s"
  "lapic (proc_kfree p s) = lapic s" "idle_task (proc_kfree p s) = idle_task s"
  "scheduler_active (proc_kfree p s) = scheduler_active s" "alloc_next (proc_kfree p s) = alloc_next s"
  by (simp_all add: ready_def task_views current_task_def proc_kfree_def fun_eq_iff)

lemma set_task_same_links:
  assumes "\<And>x. ready_next (g x) = ready_next x" "\<And>x. ready_prev (g x) = ready_prev x"
  shows "ready (set_task t g s) = ready s"
  using assms by (intro readyI) (auto simp: set_task_def task_views)

lemma states_set_task: "(\<And>x. task_state (g x) = st) \<Longrightarrow> states (set_task t g s) = (states s)(t := st)"
  by (auto simp: set_task_def states_def)

lemma setup_frame [simp]:
  "states (setup_task_stack t a s) = states s"
  "current_task (setup_task_stack t a s) = current_task s" "lapic (setup_task_stack t a s) = lapic s"
  "idle_task (setup_task_stack t a s) = idle_task s" "scheduler_active (setup_task_stack t a s) = scheduler_active s"
  "alloc_next (setup_task_stack t a s) = alloc_next s"
  by (auto simp: setup_task_stack_def Let_def set_task_def states_def current_task_def)

lemma ready_setup [simp]: "ready (setup_task_stack t a s) = ready s"
  by (rule readyI) (auto simp: setup_task_stack_def Let_def set_task_def task_views)

text \<open>A task is created at an address that is on no list, and queued last.\<close>

lemma create_ok:
  assumes "sched_ok s c q"
  shows "\<exists>q'. sched_ok (snd (create_task_internal tr h e a nm s)) c q'"
proof -
  obtain t s1 where k: "proc_kalloc s = (t, s1)" by fastforce
  obtain ph pm where p: "alloc_pages stack_pages (page_alloc (memory_manager s1)) = (ph, pm)" by fastforce
  let ?s2 = "s1\<lparr>memory_manager := (memory_manager s1)\<lparr>page_alloc := pm\<rparr>\<rparr>"
  have s1: "s1 = snd (proc_kalloc s)" and t: "t = 0 \<or> t = alloc_next s"
    using k by (auto simp: proc_kalloc_def Let_def split: if_splits)
  have s2: "sched_ok s1 c q" "sched_ok ?s2 c q" "sched_ok (proc_kfree t ?s2) c q"
    using assms unfolding s1 by (auto simp: sched_ok_def)
  consider "t = 0" | "t = alloc_next s" "t \<noteq> 0" "ph = invalid_physical_address"
    | "t = alloc_next s" "t \<noteq> 0" "ph \<noteq> invalid_physical_address" using t by blast
  then show ?thesis
  proof cases
    case 1
    then show ?thesis using s2 k by (auto simp: create_task_internal_def)
  next
    case 2
    then show ?thesis using s2 k p by (auto simp: create_task_internal_def Let_def)
  next
    case 3
    define g where "g = (\<lambda>x :: Task. x\<lparr>task_id := next_task_id ?s2, task_name := copy_name nm 32, task_state := Ready,
      task_stack := \<lparr>stack_base = physical_to_virtual h ph, stack_top = physical_to_virtual h ph + stack_size,
        physical_page = ph, page_count = stack_pages\<rparr>, task_entry := e, task_arg := a,
      creation_time := uptime_ms (sched_clock ?s2), task_thread := 0,
      task_cr3 := kernel_pml4_phys (memory_manager ?s2)\<rparr>)"
    define s3 where "s3 = set_task t g (?s2\<lparr>next_task_id := next_task_id ?s2 + 1\<rparr>)"
    have n: "t \<noteq> c" "t \<notin> set q" "t < alloc_next s1" using assms 3 s1 by (auto simp: sched_ok_def)
    have r: "ready s3 = ready ?s2" "states s3 = (states ?s2)(t := Ready)"
      unfolding s3_def by (simp_all add: set_task_same_links states_set_task g_def)
    have "sched_ok s3 c q" "alloc_next s3 = alloc_next s1" "states s3 t = Ready"
      using s2(2) n r by (auto simp: sched_ok_def s3_def)
    then have "sched_ok (list_add t (ready_queue_push t (setup_task_stack t tr s3))) c (q @ [t])"
      using n 3(2) ready_push [of "setup_task_stack t tr s3" q t] by (auto simp: sched_ok_def)
    moreover have "create_task_internal tr h e a nm s
      = (t, (list_add t (ready_queue_push t (setup_task_stack t tr s3)))
            \<lparr>total_task_count := total_task_count (list_add t (ready_queue_push t (setup_task_stack t tr s3))) + 1\<rparr>)"
      using 3 k p by (simp add: create_task_internal_def Let_def s3_def g_def)
    ultimately show ?thesis by (intro exI [of _ "q @ [t]"]) (simp add: sched_ok_def)
  qed
qed

section \<open>Every sequence of operations\<close>

text \<open>The steps of one processor after the scheduler has started.  The idle task never blocks or ends: its
  entry function is a loop.  A task given to \<open>sched_enqueue\<close> is new.\<close>

inductive sched_step :: "'a sched_sys_scheme \<Rightarrow> 'a sched_sys_scheme \<Rightarrow> bool" where
  Yield: "sched_step s (yield s)"
| Tick: "sched_step s (flag_preempt s)"
| Preempt: "sched_needs_preempt s \<Longrightarrow> sched_step s (sched_do_preempt s)"
| Block: "current_task s \<noteq> idle_task s \<Longrightarrow> sched_step s (block s)"
| Exit: "current_task s \<noteq> idle_task s \<Longrightarrow> sched_step s (task_exit s)"
| Wake: "t \<noteq> 0 \<Longrightarrow> t < alloc_next s \<Longrightarrow> sched_step s (wake t s)"
| Enqueue: "t \<noteq> 0 \<Longrightarrow> t < alloc_next s \<Longrightarrow> t \<noteq> current_task s \<Longrightarrow> (\<And>q. ready s q \<Longrightarrow> t \<notin> set q)
    \<Longrightarrow> sched_step s (sched_enqueue t s)"
| Create: "sched_step s (snd (create_task trampoline hhdm entry arg name s))"

lemma sched_step_ok:
  assumes "sched_step s t" "sched_ok s c q"
  shows "\<exists>c' q'. sched_ok t c' q'"
  using assms
proof cases
  case Yield
  then show ?thesis using yield_turn assms(2) by blast
next
  case Tick
  then have "sched_ok t c q" using assms(2) by (auto simp: flag_preempt_def sched_ok_def)
  then show ?thesis by blast
next
  case Preempt
  then show ?thesis using preempt_turn assms(2) by blast
next
  case Block
  then have "t = schedule_internal (set_task c (task_state_update (\<lambda>_. Blocked)) s)" "c \<noteq> idle_task s"
    using assms(2) by (simp_all add: block_def sched_ok_def)
  then show ?thesis using leave_turn [OF assms(2), of "\<lambda>_. Blocked"] by auto
next
  case Exit
  then have "t = schedule_internal (set_task c (task_state_update (\<lambda>_. TaskDead)) s)" "c \<noteq> idle_task s"
    using assms(2) by (simp_all add: task_exit_def sched_ok_def)
  then show ?thesis using leave_turn [OF assms(2), of "\<lambda>_. TaskDead"] by auto
next
  case (Wake x)
  then show ?thesis using wake_ok [OF assms(2)] by blast
next
  case (Enqueue x)
  moreover have "x \<noteq> c" "x \<notin> set q" using assms(2) Enqueue by (auto simp: sched_ok_def)
  ultimately show ?thesis using enqueue_ok [OF assms(2)] by blast
next
  case Create
  then show ?thesis using create_ok [OF assms(2)] unfolding create_task_def by blast
qed

text \<open>Starting the scheduler on a queue of tasks that are ready establishes the invariant; the first task
  of the queue continues from its saved context.\<close>

lemma start_ok:
  assumes "ready s (n # q)" "lapic s < CONFIG_MAX_CPUS" "\<forall>t \<in> set (n # q). states s t = Ready \<and> t < alloc_next s"
    "idle_task s \<in> set (n # q)"
  shows "\<exists>t. start_scheduler s = Some t \<and> sched_ok t n q \<and> cpu_rip (cpu t) = words s (task_context (tasks s n) + 48)
    \<and> cpu_cr3 (cpu t) = task_cr3 (tasks s n)"
proof -
  define u where "u = (snd (ready_queue_pop s))\<lparr>scheduler_active := True\<rparr>"
  define v where "v = set_current_task n (set_task n (task_state_update (\<lambda>_. Running)) u)"
  have n: "n \<noteq> 0" "n \<notin> set q" using assms(1) by (auto simp: ready_def dlist_def)
  have p: "fst (ready_queue_pop s) = n" "ready (snd (ready_queue_pop s)) q" using ready_pop [OF assms(1)] by auto
  have e: "start_scheduler s = Some (restore_context (task_context (tasks v n)) (task_cr3 (tasks v n)) v)"
    using p n by (simp add: start_scheduler_def split_beta Let_def v_def u_def)
  have "sched_ok v n q" using assms n p by (auto simp: sched_ok_def v_def u_def)
  then have "sched_ok (restore_context (task_context (tasks v n)) (task_cr3 (tasks v n)) v) n q"
    by (simp add: sched_ok_def)
  moreover have "task_context (tasks v n) = task_context (tasks s n)" "task_cr3 (tasks v n) = task_cr3 (tasks s n)"
    "words v = words s"
    by (simp_all add: v_def u_def set_task_def set_current_task_def set_kernel_entry_stack_def Let_def)
  ultimately show ?thesis using e by (simp add: restore_context_def)
qed

text \<open>A state with the tasks 2 running, 3 and the idle task 1 queued.\<close>

definition example_task :: Task where
  "example_task = \<lparr>task_id = 1, task_name = [], task_state = Running,
     task_stack = \<lparr>stack_base = 0, stack_top = 0, physical_page = 0, page_count = 0\<rparr>, task_context = 0x9000,
     task_entry = 0, task_arg = 0, task_next = 0, task_prev = 0, creation_time = 0, ready_next = 0, ready_prev = 0,
     task_thread = 0, task_cr3 = 0\<rparr>"

definition example_cpu :: Cpu where
  "example_cpu = \<lparr>cpu_rbx = 1, cpu_rbp = 2, cpu_r12 = 3, cpu_r13 = 4, cpu_r14 = 5, cpu_r15 = 6, cpu_rsp = 0x5000,
     cpu_rip = 0, cpu_cr3 = 0\<rparr>"

definition example_sched :: sched_sys where
  "example_sched = \<lparr>current_tasks = (\<lambda>_. 2), all_tasks_head = 1, all_tasks_tail = 3, next_task_id = 4,
     total_task_count = 3, idle_task = 1, need_reschedule = (\<lambda>_. False), scheduler_active = True,
     rq_head = 3, rq_tail = 1,
     tasks = (\<lambda>_. example_task)(3 := example_task\<lparr>ready_next := 1\<rparr>, 1 := example_task\<lparr>ready_prev := 3\<rparr>),
     lapic = 0, percpu = (\<lambda>_. \<lparr>syscall_rsp = 0, user_rsp_save = 0, tss_rsp0 = 0, boot_stack = 0\<rparr>), cpu = example_cpu,
     sched_clock = \<lparr>designated_bsp_id = 0, timer_frequency_hz = 1000, global_tick_count = 0\<rparr>,
     alloc_next = 4, alloc_ok = (\<lambda>_. True), freed = (\<lambda>_. False), words = (\<lambda>_. 0),
     memory_manager = \<lparr>frames = (\<lambda>_ _. 0), page_alloc = \<lparr>page_bitmap = (\<lambda>_. 0), page_refcounts = (\<lambda>_. 0),
       allocator_stats = \<lparr>managed_pages = 0, free_page_count = 0, used_page_count = 0,
         reclaimed_bootloader_pages = 0, skipped_pages = 0\<rparr>, next_search_page = 0\<rparr>,
       kernel_pml4_phys = 0, vmem_current = 0, vmem_end = 0\<rparr>\<rparr>"

lemma example_sched_ok: "sched_ok example_sched 2 [3, 1]"
  by (simp add: sched_ok_def ready_def dlist_def task_views current_task_def example_sched_def example_task_def
      CONFIG_MAX_CPUS_def)

text \<open>C13. On one processor every sequence of scheduler operations keeps the scheduler in order: one task
  runs, the ready queue holds distinct other tasks that are neither blocked nor dead, and the idle task
  is among them, so the search for a next task never fails.\<close>

theorem sched_steps_ok:
  assumes "sched_step\<^sup>*\<^sup>* s t" "sched_ok s c q"
  shows "\<exists>c' q'. sched_ok t c' q'"
  using assms
proof (induction arbitrary: c q rule: rtranclp_induct)
  case (step u v)
  then obtain c' q' where "sched_ok u c' q'" by blast
  then show ?case using sched_step_ok [OF step(2)] by blast
qed auto

theorem sched_steps_ok_witness:
  "sched_ok example_sched 2 [3, 1] \<and> (\<exists>c q. sched_ok (wake 2 (block example_sched)) c q)"
proof -
  have "sched_step example_sched (block example_sched)"
    by (rule Block) (simp add: current_task_def example_sched_def CONFIG_MAX_CPUS_def)
  moreover have "alloc_next (block example_sched) = 4"
    using schedule_next(7) [of "set_task 2 (task_state_update (\<lambda>_. Blocked)) example_sched" 3 "[1]"] example_sched_ok
    by (simp add: block_def sched_ok_def) (simp add: example_sched_def)
  then have "sched_step (block example_sched) (wake 2 (block example_sched))" by (intro Wake) simp_all
  ultimately have "sched_step\<^sup>*\<^sup>* example_sched (wake 2 (block example_sched))" by simp
  from sched_steps_ok [OF this example_sched_ok] show ?thesis using example_sched_ok by blast
qed

section \<open>Turns\<close>

text \<open>A turn ends by a call of \<open>yield\<close> or by the timer.\<close>

definition take_turn :: "bool \<Rightarrow> 'a sched_sys_scheme \<Rightarrow> 'a sched_sys_scheme" where
  "take_turn preempted s = (if preempted then sched_do_preempt s else yield s)"

lemma take_turn_rotates:
  assumes "sched_ok s (hd xs) (tl xs)" "xs \<noteq> []"
  shows "sched_ok (take_turn p s) (hd (rotate1 xs)) (tl (rotate1 xs))"
  using assms yield_turn preempt_turn by (cases xs) (auto simp: take_turn_def)

lemma turns_rotate:
  assumes "sched_ok s (hd xs) (tl xs)" "xs \<noteq> []"
  shows "sched_ok (fold take_turn ps s) (hd (rotate (length ps) xs)) (tl (rotate (length ps) xs))"
  using assms
proof (induction ps arbitrary: s xs)
  case (Cons p ps)
  have "sched_ok (take_turn p s) (hd (rotate1 xs)) (tl (rotate1 xs))" using take_turn_rotates Cons.prems by blast
  from Cons.IH [OF this] show ?case using Cons.prems by (simp add: rotate_def funpow_swap1)
qed simp

text \<open>C14. The scheduler is fair: whatever the turns end by, the task at place \<open>k\<close> of the queue runs after
  exactly \<open>k\<close> turns, and then again whenever every other task has had its turn.\<close>

theorem round_robin:
  assumes "sched_ok s c q"
  shows "current_task (fold take_turn ps s) = (c # q) ! (length ps mod Suc (length q))
    \<and> sched_ok (fold take_turn ps s) (current_task (fold take_turn ps s)) (tl (rotate (length ps) (c # q)))"
proof -
  have "sched_ok (fold take_turn ps s) (hd (rotate (length ps) (c # q))) (tl (rotate (length ps) (c # q)))"
    using turns_rotate [of s "c # q" ps] assms by simp
  moreover have "hd (rotate (length ps) (c # q)) = (c # q) ! (length ps mod Suc (length q))"
    by (metis hd_rotate_conv_nth length_Cons list.distinct(1))
  ultimately show ?thesis by (simp add: sched_ok_def)
qed

theorem round_robin_witness:
  "sched_ok example_sched 2 [3, 1] \<and> current_task (fold take_turn [True, False] example_sched) = 1
   \<and> current_task (fold take_turn [True, False, False] example_sched) = 2"
  using example_sched_ok round_robin [OF example_sched_ok, of "[True, False]"]
    round_robin [OF example_sched_ok, of "[True, False, False]"] by simp

section \<open>Registers\<close>

definition saved :: "Cpu \<Rightarrow> u64 list" where
  "saved c = [cpu_rbx c, cpu_rbp c, cpu_r12 c, cpu_r13 c, cpu_r14 c, cpu_r15 c]"

lemma all_6: "(\<forall>i < 6. P i) \<longleftrightarrow> P 0 \<and> P 1 \<and> P 2 \<and> P 3 \<and> P 4 \<and> P (5 :: nat)"
proof
  assume "P 0 \<and> P 1 \<and> P 2 \<and> P 3 \<and> P 4 \<and> P 5"
  moreover have "i = 0 \<or> i = 1 \<or> i = 2 \<or> i = 3 \<or> i = 4 \<or> i = 5" if "i < 6" for i :: nat using that by linarith
  ultimately show "\<forall>i < 6. P i" by metis
qed simp

lemma all_7: "(\<forall>i < 7. P i) \<longleftrightarrow> (\<forall>i < 6. P i) \<and> P (6 :: nat)"
proof -
  have "i < 7 \<longleftrightarrow> i < 6 \<or> i = 6" for i :: nat by linarith
  then show ?thesis by auto
qed

lemma save_words: "\<forall>i < 6. words (save_context t s) (cpu_rsp (cpu s) - 48 + 8 * of_nat i) = saved (cpu s) ! i"
  unfolding all_6 by (simp add: save_context_def Let_def saved_def)

lemma save_other:
  "\<forall>i < 6. a \<noteq> cpu_rsp (cpu s) - 48 + 8 * of_nat i \<Longrightarrow> words (save_context t s) a = words s a"
  unfolding all_6 by (simp add: save_context_def Let_def)

lemma restored:
  "\<forall>i < 6. words s (c + 8 * of_nat i) = saved r ! i
   \<Longrightarrow> cpu (restore_context c k s) = r\<lparr>cpu_rip := words s (c + 48), cpu_rsp := c + 56, cpu_cr3 := k\<rparr>"
  unfolding all_6 by (simp add: restore_context_def saved_def)

text \<open>C15. A task that was switched out continues as if \<open>context_switch\<close> had returned: when its six words of
  registers and the return address on its stack and its saved context are still in place, switching to it
  restores the callee-saved registers and the stack pointer, goes to the return address, and loads its
  address space.\<close>

theorem context_switch_resumes:
  assumes "r = cpu s" "s1 = context_switch t other_ctx other_cr3 s"
    and "\<forall>i < 7. words s2 (cpu_rsp r - 48 + 8 * of_nat i) = words s1 (cpu_rsp r - 48 + 8 * of_nat i)"
    and "task_context (tasks s2 t) = task_context (tasks s1 t)"
    and "\<forall>i < 6. \<forall>j < 7. cpu_rsp (cpu s2) - 48 + 8 * of_nat i \<noteq> cpu_rsp r - 48 + 8 * of_nat j"
  shows "cpu (context_switch u (task_context (tasks s2 t)) new_cr3 s2)
    = r\<lparr>cpu_rip := words s (cpu_rsp r), cpu_rsp := cpu_rsp r + 8, cpu_cr3 := new_cr3\<rparr>"
proof -
  let ?b = "cpu_rsp r - 48" and ?t = "save_context u s2"
  have ctx: "task_context (tasks s2 t) = ?b"
    using assms(1,2,4) by (simp add: context_switch_def restore_context_def save_context_def set_task_def Let_def)
  have w1: "words s1 = words (save_context t s)" using assms(2) by (simp add: context_switch_def restore_context_def)
  have keep: "words ?t (?b + 8 * of_nat j) = words s1 (?b + 8 * of_nat j)" if "j < 7" for j
  proof -
    have "words ?t (?b + 8 * of_nat j) = words s2 (?b + 8 * of_nat j)"
      by (rule save_other) (use assms(5) that in metis)
    then show ?thesis using assms(3) that by metis
  qed
  have "\<forall>i < 6. words ?t (?b + 8 * of_nat i) = saved r ! i"
    using keep save_words [of t s] assms(1) by (simp add: w1)
  then have "cpu (restore_context ?b new_cr3 ?t)
      = r\<lparr>cpu_rip := words ?t (?b + 48), cpu_rsp := ?b + 56, cpu_cr3 := new_cr3\<rparr>" by (rule restored)
  moreover have "words ?t (?b + 48) = words s (cpu_rsp r)"
    using keep [of 6] by (simp add: w1 save_context_def Let_def assms(1))
  ultimately show ?thesis by (simp add: context_switch_def ctx)
qed

definition example_switched :: sched_sys where
  "example_switched = (context_switch 2 0x9000 7 example_sched)\<lparr>cpu := example_cpu\<lparr>cpu_rsp := 0xA000\<rparr>\<rparr>"

theorem context_switch_resumes_witness:
  "cpu (context_switch 3 (task_context (tasks example_switched 2)) 8 example_switched)
    = example_cpu\<lparr>cpu_rip := 0, cpu_rsp := 0x5008, cpu_cr3 := 8\<rparr>"
proof -
  have e: "cpu_rsp example_cpu = 0x5000" "cpu example_sched = example_cpu" "words example_sched = (\<lambda>_. 0)"
    "cpu_rsp (cpu example_switched) = 0xA000"
    by (simp_all add: example_cpu_def example_sched_def example_switched_def)
  have "\<forall>i < 6. \<forall>j < 7. cpu_rsp (cpu example_switched) - 48 + 8 * of_nat i \<noteq> cpu_rsp example_cpu - 48 + 8 * of_nat j"
    unfolding e all_6 all_7 by simp
  then show ?thesis
    using context_switch_resumes [of example_cpu example_sched "context_switch 2 0x9000 7 example_sched" 2 "0x9000" 7 example_switched 3 8] e
    by (simp add: example_switched_def)
qed

section \<open>An interrupted yield\<close>

lemma switch_to_links:
  "rn (switch_to c n s) = rn s" "rp (switch_to c n s) = rp s"
  "rq_head (switch_to c n s) = rq_head s" "rq_tail (switch_to c n s) = rq_tail s"
  by (auto simp: switch_to_def context_switch_def save_context_def restore_context_def set_current_task_def
      set_kernel_entry_stack_def set_task_def task_views Let_def)

text \<open>The links of one task set to other values.  No operation of a turn reads \<open>ready_prev\<close>.\<close>

definition set_links :: "ptr \<Rightarrow> ptr \<Rightarrow> ptr \<Rightarrow> 'a sched_sys_scheme \<Rightarrow> 'a sched_sys_scheme" where
  "set_links c n p s = set_task c (\<lambda>t. t\<lparr>ready_prev := p, ready_next := n\<rparr>) s"

abbreviation set_prev :: "ptr \<Rightarrow> ptr \<Rightarrow> 'a sched_sys_scheme \<Rightarrow> 'a sched_sys_scheme" where
  "set_prev c p s \<equiv> set_links c (rn s c) p s"

lemma set_links_fields [simp]:
  "current_task (set_links c n p s) = current_task s" "rq_head (set_links c n p s) = rq_head s"
  "rq_tail (set_links c n p s) = rq_tail s" "lapic (set_links c n p s) = lapic s" "idle_task (set_links c n p s) = idle_task s"
  "scheduler_active (set_links c n p s) = scheduler_active s" "states (set_links c n p s) = states s"
  by (auto simp: set_links_def set_task_def current_task_def states_def)

lemma set_links_same: "set_links c (rn s c) (rp s c) s = s"
  by (simp add: set_links_def set_task_def task_views)

text \<open>Pushing a task that is queued last links it to itself; pushing another one behind it repairs the link to the
  next task.\<close>

lemma push_last:
  assumes "rq_tail s = c" "c \<noteq> 0"
  shows "ready_queue_push c s = set_links c c c s"
  using assms by (cases s) (simp add: ready_queue_push_def set_links_def set_task_def Let_def)

lemma push_repairs:
  assumes "rq_tail s = c" "c \<noteq> 0" "b \<noteq> c"
  shows "ready_queue_push b (set_links c n p s) = set_prev c p (ready_queue_push b s)"
  using assms by (auto simp: ready_queue_push_def set_links_def set_task_def Let_def task_views fun_eq_iff)

lemma push_set_prev:
  assumes "b \<noteq> c"
  shows "ready_queue_push b (set_prev c p s) = set_prev c p (ready_queue_push b s)"
  using assms by (auto simp: ready_queue_push_def set_links_def set_task_def Let_def task_views fun_eq_iff)

lemma pop_state:
  assumes "rq_head s \<noteq> 0"
  shows "snd (ready_queue_pop s) = s\<lparr>rq_head := rn s (rq_head s), rq_tail := (if rn s (rq_head s) \<noteq> 0 then rq_tail s else 0),
    tasks := (\<lambda>q. (tasks s q)\<lparr>ready_next := (if q = rq_head s then 0 else rn s q),
      ready_prev := (if q = rq_head s \<or> q = rn s (rq_head s) \<and> q \<noteq> 0 then 0 else rp s q)\<rparr>)\<rparr>"
  using assms by (auto simp: ready_queue_pop_def set_task_def Let_def task_views fun_eq_iff)

lemma pop_set_prev:
  "fst (ready_queue_pop (set_prev c p s)) = fst (ready_queue_pop s)"
  "\<exists>p'. snd (ready_queue_pop (set_prev c p s)) = set_prev c p' (snd (ready_queue_pop s))
     \<and> (rq_head s = c \<and> c \<noteq> 0 \<longrightarrow> p' = rp (snd (ready_queue_pop s)) c)"
proof -
  show "fst (ready_queue_pop (set_prev c p s)) = fst (ready_queue_pop s)" by (simp add: pop_fields)
  show "\<exists>p'. snd (ready_queue_pop (set_prev c p s)) = set_prev c p' (snd (ready_queue_pop s))
     \<and> (rq_head s = c \<and> c \<noteq> 0 \<longrightarrow> p' = rp (snd (ready_queue_pop s)) c)"
  proof (cases "rq_head s = 0")
    case True
    then have "snd (ready_queue_pop s) = s" "snd (ready_queue_pop (set_prev c p s)) = set_prev c p s"
      by (simp_all add: ready_queue_pop_def)
    then show ?thesis using True by auto
  next
    case False
    let ?p' = "if rq_head s = c \<or> rn s (rq_head s) = c \<and> c \<noteq> 0 then 0 else p"
    have r: "rn (set_prev c p s) = rn s" "rp (set_prev c p s) = (rp s)(c := p)"
      by (auto simp: set_links_def set_task_def task_views)
    have t: "tasks (set_links c n q u) = (\<lambda>x. if x = c then (tasks u c)\<lparr>ready_prev := q, ready_next := n\<rparr> else tasks u x)"
      "set_links c n q u = u\<lparr>tasks := tasks (set_links c n q u)\<rparr>" for n q and u :: "'a sched_sys_scheme"
      by (auto simp: set_links_def set_task_def)
    have h: "rq_head (set_prev c p s) \<noteq> 0" using False by simp
    have "tasks (snd (ready_queue_pop (set_prev c p s))) = tasks (set_prev c ?p' (snd (ready_queue_pop s)))"
      unfolding pop_state [OF h] pop_state [OF False] r by (rule ext) (simp add: t(1) task_views)
    then have "snd (ready_queue_pop (set_prev c p s)) = set_prev c ?p' (snd (ready_queue_pop s))"
      unfolding pop_state [OF h] pop_state [OF False] r by (simp add: set_links_def set_task_def)
    moreover have "rq_head s = c \<and> c \<noteq> 0 \<longrightarrow> ?p' = rp (snd (ready_queue_pop s)) c"
      by (simp add: pop_fields)
    ultimately show ?thesis by blast
  qed
qed

text \<open>A switch of tasks does not look at links.\<close>

lemma switch_to_set_links:
  "switch_to a b (set_links c n p s) = set_links c n p (switch_to a b s)"
proof -
  have st: "set_task a (task_state_update f) (set_links c n p s) = set_links c n p (set_task a (task_state_update f) s)"
    for a f and s :: "'a sched_sys_scheme"
    by (auto simp: set_links_def set_task_def fun_eq_iff)
  have cx: "save_context a (set_links c n p s) = set_links c n p (save_context a s)" for a and s :: "'a sched_sys_scheme"
    by (auto simp: save_context_def set_links_def set_task_def fun_eq_iff Let_def)
  have rc: "restore_context x y (set_links c n p s) = set_links c n p (restore_context x y s)" for x y and s :: "'a sched_sys_scheme"
    by (simp add: restore_context_def set_links_def set_task_def)
  have ct: "set_current_task a (set_links c n p s) = set_links c n p (set_current_task a s)" for a and s :: "'a sched_sys_scheme"
    by (auto simp: set_current_task_def set_kernel_entry_stack_def set_links_def set_task_def Let_def)
  have f: "task_context (tasks (set_links c n p s) a) = task_context (tasks s a)" "task_cr3 (tasks (set_links c n p s) a) = task_cr3 (tasks s a)"
    for a and s :: "'a sched_sys_scheme"
    by (simp_all add: set_links_def set_task_def)
  show ?thesis by (simp add: switch_to_def Let_def st ct cx rc f context_switch_def)
qed

lemma schedule_set_links:
  assumes "rq_head s \<noteq> 0" "rq_head s \<noteq> c"
  shows "\<exists>p'. schedule_internal (set_links c n p s) = set_links c n p' (schedule_internal s)"
proof -
  let ?p' = "if rn s (rq_head s) = c \<and> c \<noteq> 0 then 0 else p"
  have r: "rn (set_links c n p s) = (rn s)(c := n)" "rp (set_links c n p s) = (rp s)(c := p)"
    by (auto simp: set_links_def set_task_def task_views)
  have t: "tasks (set_links c n q u) = (\<lambda>x. if x = c then (tasks u c)\<lparr>ready_prev := q, ready_next := n\<rparr> else tasks u x)" for q u
    by (auto simp: set_links_def set_task_def)
  have h: "rq_head (set_links c n p s) \<noteq> 0" using assms by simp
  have "tasks (snd (ready_queue_pop (set_links c n p s))) = tasks (set_links c n ?p' (snd (ready_queue_pop s)))"
    unfolding pop_state [OF h] pop_state [OF assms(1)] r using assms(2) by (intro ext) (simp add: t task_views)
  then have "snd (ready_queue_pop (set_links c n p s)) = set_links c n ?p' (snd (ready_queue_pop s))"
    unfolding pop_state [OF h] pop_state [OF assms(1)] r using assms(2) by (simp add: set_links_def set_task_def)
  then show ?thesis
    using assms by (auto simp: schedule_internal_def split_beta Let_def pop_fields switch_to_set_links)
qed

lemma schedule_set_prev:
  assumes "rq_head s \<noteq> 0"
  shows "\<exists>p'. schedule_internal (set_prev c p s) = set_prev c p' (schedule_internal s)
    \<and> (rq_head s = c \<longrightarrow> p' = rp (schedule_internal s) c)"
proof -
  obtain p' where p': "snd (ready_queue_pop (set_prev c p s)) = set_prev c p' (snd (ready_queue_pop s))"
    "rq_head s = c \<longrightarrow> p' = rp (snd (ready_queue_pop s)) c"
    using pop_set_prev(2) [where c = c and p = p and s = s] assms by auto
  have "schedule_internal s = switch_to (current_task s) (rq_head s) (snd (ready_queue_pop s))"
    using assms by (simp add: schedule_internal_def split_beta Let_def pop_fields)
  moreover have "schedule_internal (set_prev c p s) = switch_to (current_task s) (rq_head s) (set_prev c p' (snd (ready_queue_pop s)))"
    using assms by (simp add: schedule_internal_def split_beta Let_def pop_fields p')
  ultimately show ?thesis using p'(2) by (auto simp: switch_to_set_links switch_to_links)
qed

text \<open>What a turn does before it looks for the next task.\<close>

definition give_up :: "bool \<Rightarrow> ptr \<Rightarrow> 'a sched_sys_scheme \<Rightarrow> 'a sched_sys_scheme" where
  "give_up preempted x s = (if preempted
     then set_task x (task_state_update (\<lambda>_. Ready)) (s\<lparr>need_reschedule := (need_reschedule s)(lapic s := False)\<rparr>) else s)"

lemma take_turn_eq:
  assumes "current_task s = x" "x \<noteq> 0" "lapic s < CONFIG_MAX_CPUS" "scheduler_active s" "states s x = Running"
  shows "take_turn b s = schedule_internal (ready_queue_push x (give_up b x s))"
  using assms by (auto simp: take_turn_def give_up_def yield_def sched_do_preempt_def Let_def current_task_def states_def)

lemma give_up_set_links: "give_up b x (set_links c n p s) = set_links c n p (give_up b x s)"
  by (auto simp: give_up_def set_links_def set_task_def fun_eq_iff)

lemma give_up_links [simp]:
  "rn (give_up b x s) = rn s" "rp (give_up b x s) = rp s" "rq_head (give_up b x s) = rq_head s" "rq_tail (give_up b x s) = rq_tail s"
  by (auto simp: give_up_def set_task_def task_views fun_eq_iff)

lemma give_up_frame [simp]:
  "states (give_up b x s) = (if b then (states s)(x := Ready) else states s)" "lapic (give_up b x s) = lapic s"
  "idle_task (give_up b x s) = idle_task s" "scheduler_active (give_up b x s) = scheduler_active s"
  "alloc_next (give_up b x s) = alloc_next s" "current_task (give_up b x s) = current_task s"
  by (auto simp: give_up_def set_task_def states_def current_task_def fun_eq_iff)

text \<open>A turn of another task than \<open>c\<close> from a state in which only the links of \<open>c\<close> are wrong.\<close>

lemma turn_wrong_links:
  assumes ok: "sched_ok h x (y # ys)" and x: "x \<noteq> c" "c \<noteq> 0"
    and s: "s = set_prev c p h \<or> s = set_links c n p h \<and> rq_tail h = c"
  shows "\<exists>p'. take_turn b s = set_prev c p' (take_turn b h) \<and> (y = c \<longrightarrow> take_turn b s = take_turn b h)"
proof -
  let ?g = "ready_queue_push x (give_up b x h)"
  have h: "current_task h = x" "x \<noteq> 0" "lapic h < CONFIG_MAX_CPUS" "scheduler_active h" "states h x = Running"
    "ready h (y # ys)"
    using ok by (auto simp: sched_ok_def)
  have t: "take_turn b h = schedule_internal ?g" by (rule take_turn_eq [OF h(1-5)])
  have "take_turn b s = schedule_internal (ready_queue_push x (give_up b x s))"
    by (rule take_turn_eq) (use s h in auto)
  moreover have "ready_queue_push x (give_up b x s) = set_prev c p ?g"
    using s
  proof
    assume "s = set_prev c p h"
    then have "give_up b x s = set_prev c p (give_up b x h)" by (simp add: give_up_set_links)
    then show ?thesis using x push_set_prev [where b = x and c = c and p = p and s = "give_up b x h"] by simp
  next
    assume "s = set_links c n p h \<and> rq_tail h = c"
    then have "give_up b x s = set_links c n p (give_up b x h)" "rq_tail (give_up b x h) = c" by (simp_all add: give_up_set_links)
    then show ?thesis using x by (simp add: push_repairs)
  qed
  ultimately have s': "take_turn b s = schedule_internal (set_prev c p ?g)" by simp
  have "ready (give_up b x h) (y # ys)" using h(6) by (simp add: ready_def)
  then have "ready ?g (y # ys @ [x])" using ready_push [of "give_up b x h" "y # ys" x] ok by (simp add: sched_ok_def)
  then have hd: "rq_head ?g = y" "y \<noteq> 0" by (auto simp: ready_def dlist_def)
  then obtain p' where p': "schedule_internal (set_prev c p ?g) = set_prev c p' (schedule_internal ?g)"
    "y = c \<longrightarrow> p' = rp (schedule_internal ?g) c"
    using schedule_set_prev [where s = ?g and c = c and p = p] by auto
  then show ?thesis unfolding s' t using set_links_same by metis
qed

lemma turns_wrong_links:
  assumes "sched_ok h x (xs @ c # zs)" "x \<noteq> c" "c \<notin> set xs" "s = set_prev c p h \<or> s = set_links c n p h \<and> rq_tail h = c"
    and "length ps = Suc (length xs)"
  shows "fold take_turn ps s = fold take_turn ps h"
  using assms
proof (induction xs arbitrary: s h x zs p n ps)
  case Nil
  then obtain b where "ps = [b]" by (cases ps) auto
  moreover have "c \<noteq> 0" using Nil.prems(1) by (auto simp: sched_ok_def ready_def dlist_def)
  ultimately show ?case using turn_wrong_links [of h x c zs c s p n b] Nil.prems by auto
next
  case (Cons y xs)
  then obtain b ps' where ps: "ps = b # ps'" "length ps' = Suc (length xs)" by (cases ps) auto
  have c: "c \<noteq> 0" using Cons.prems(1) by (auto simp: sched_ok_def ready_def dlist_def)
  obtain p' where p': "take_turn b s = set_prev c p' (take_turn b h)"
    using turn_wrong_links [of h x y "xs @ c # zs" c s p n b] Cons.prems c by auto
  have ok: "sched_ok (take_turn b h) y (xs @ c # (zs @ [x]))"
    using take_turn_rotates [of h "x # y # xs @ c # zs" b] Cons.prems(1) by simp
  have "fold take_turn ps' (take_turn b s) = fold take_turn ps' (take_turn b h)"
    by (rule Cons.IH [OF ok]) (use Cons.prems p' ps in auto)
  then show ?case by (simp add: ps)
qed

lemma turns_idle:
  assumes "sched_ok s (hd xs) (tl xs)" "xs \<noteq> []"
  shows "idle_task (fold take_turn ps s) = idle_task s"
  using assms
proof (induction ps arbitrary: s xs)
  case (Cons b ps)
  obtain x ys where xs: "xs = x # ys" using Cons.prems(2) by (cases xs) auto
  let ?g = "ready_queue_push x (give_up b x s)"
  have h: "current_task s = x" "x \<noteq> 0" "lapic s < CONFIG_MAX_CPUS" "scheduler_active s" "states s x = Running"
    "ready (give_up b x s) ys" "x \<notin> set ys"
    using Cons.prems(1) by (auto simp: xs sched_ok_def ready_def)
  have "ready ?g (hd (ys @ [x]) # tl (ys @ [x]))" using ready_push [OF h(6,2,7)] by (cases ys) simp_all
  then have "idle_task (schedule_internal ?g) = idle_task s" using schedule_next(5) h(3) by fastforce
  then have "idle_task (take_turn b s) = idle_task s" by (simp add: take_turn_eq [OF h(1-5)])
  moreover have "sched_ok (take_turn b s) (hd (rotate1 xs)) (tl (rotate1 xs))" by (rule take_turn_rotates [OF Cons.prems])
  ultimately show ?case using Cons.IH [of "take_turn b s" "rotate1 xs"] Cons.prems(2) by simp
qed simp

text \<open>C16. A timer interrupt inside \<open>yield\<close>, between the push and the search for the next task, loses the
  task: it is pushed a second time, and when all other tasks in the queue have had a turn, ended in whichever way, the rest of the
  interrupted \<open>yield\<close> gives up the processor without the task being in the queue.  No turn ever runs it again, and
  \<open>wake\<close> does nothing because it is not marked as blocked.  The task is any but the idle task, which does not yield.\<close>

theorem yield_race_loses_task:
  assumes ok: "sched_ok s c q" "c \<noteq> idle_task s"
    and s1: "s1 = sched_do_preempt (ready_queue_push c s)"
    and s2: "s2 = fold take_turn ps s1" "length ps = length q"
    and s3: "s3 = schedule_internal s2"
  shows "current_task s2 = c \<and> wake c s3 = s3 \<and> (\<forall>ps. current_task (fold take_turn ps s3) \<noteq> c)
    \<and> (\<exists>c' q'. sched_ok s3 c' q' \<and> c \<notin> set (c' # q'))"
proof -
  obtain b bs where q: "q = b # bs" using ok by (cases q) (auto simp: sched_ok_def)
  have s: "ready s q" "current_task s = c" "c \<noteq> 0" "c \<notin> set q" "lapic s < CONFIG_MAX_CPUS" "states s c = Running"
    "scheduler_active s" "idle_task s \<in> set q"
    using ok by (auto simp: sched_ok_def)
  let ?t = "give_up True c (ready_queue_push c s)"
  have t: "ready ?t (b # bs @ [c])" using s ready_push [of s q c] by (simp add: ready_def q)
  then have tail: "rq_tail ?t = c" by (simp add: ready_def dlist_def)
  define h where "h = schedule_internal ?t"
  have "sched_ok (schedule_internal (give_up True c (ready_queue_push c s))) b (bs @ [c])"
    by (rule sched_ok_schedule [OF t]) (use ok s in \<open>auto simp: q sched_ok_def\<close>)
  then have h: "sched_ok h b (bs @ c # [])" by (simp add: h_def)
  have "take_turn True (ready_queue_push c s) = schedule_internal (ready_queue_push c ?t)"
    by (rule take_turn_eq) (use s in simp_all)
  then have "s1 = schedule_internal (set_links c c c ?t)" using s1 push_last [OF tail s(3)] by (simp add: take_turn_def)
  moreover have hd: "rq_head ?t = b" "b \<noteq> 0" "b \<noteq> c" using t by (auto simp: ready_def dlist_def)
  ultimately obtain p where p: "s1 = set_links c c p h" using schedule_set_links [of ?t c c c] by (auto simp: h_def)
  have "rq_tail h = c" using h by (simp add: sched_ok_def ready_def dlist_def)
  then have s2h: "s2 = fold take_turn ps h"
    unfolding s2(1) by (intro turns_wrong_links [OF h]) (use hd s p s2(2) in \<open>auto simp: q\<close>)
  have "rotate (length ps) (b # bs @ [c]) = c # q" using rotate_append [of q "[c]"] s2(2) by (simp add: q)
  then have ok2: "sched_ok s2 c q" using turns_rotate [of h "b # bs @ [c]" ps] h by (simp add: s2h)
  have "idle_task s2 = idle_task s"
    using turns_idle [of h "b # bs @ [c]" ps] h schedule_next(5) [OF t] s by (simp add: s2h h_def)
  then have "idle_task s2 \<in> set (b # bs)" using s(8) by (simp add: q)
  then have ok3: "sched_ok s3 b bs" unfolding s3
    by (intro sched_ok_schedule) (use ok2 in \<open>auto simp: q sched_ok_def\<close>)
  have "states s3 c = Running" using schedule_next(3) [of s2 b bs] ok2 hd by (simp add: s3 q sched_ok_def)
  then have "wake c s3 = s3" by (simp add: wake_def states_def)
  moreover have "current_task (fold take_turn ps s3) \<noteq> c" for ps
  proof -
    have "sched_ok (fold take_turn ps s3) (hd (rotate (length ps) (b # bs))) (tl (rotate (length ps) (b # bs)))"
      using turns_rotate [of s3 "b # bs" ps] ok3 by simp
    then have "current_task (fold take_turn ps s3) = hd (rotate (length ps) (b # bs))" by (simp add: sched_ok_def)
    moreover have "hd (rotate (length ps) (b # bs)) \<in> set (b # bs)"
      by (metis hd_in_set list.distinct(1) rotate_is_Nil_conv set_rotate)
    ultimately show ?thesis using s(4) by (auto simp: q)
  qed
  moreover have "c \<notin> set (b # bs)" using s(4) by (simp add: q)
  ultimately show ?thesis using ok2 ok3 by (auto simp: sched_ok_def)
qed

theorem yield_race_loses_task_witness:
  "sched_ok example_sched 2 [3, 1] \<and> 2 \<noteq> idle_task example_sched
   \<and> (\<forall>ps. current_task (fold take_turn ps (schedule_internal (fold take_turn [False, True]
        (sched_do_preempt (ready_queue_push 2 example_sched))))) \<noteq> 2)"
proof -
  have "2 \<noteq> idle_task example_sched" by (simp add: example_sched_def)
  with yield_race_loses_task [OF example_sched_ok this refl refl _ refl, of "[False, True]"] example_sched_ok
  show ?thesis by simp
qed

end
