(* ===== verification/Tori_Process_Props.thy ===== *)
theory Tori_Process_Props
  imports Tori_Process Tori_Sched_Props
begin

text \<open>
  The lists of children as sequences, and the allocation of process identifiers.
\<close>

section \<open>Children\<close>

definition cn :: "'a proc_sys_scheme \<Rightarrow> ptr \<Rightarrow> ptr" where "cn s = (\<lambda>p. child_next (procs s p))"
definition cp :: "'a proc_sys_scheme \<Rightarrow> ptr \<Rightarrow> ptr" where "cp s = (\<lambda>p. child_prev (procs s p))"
definition ch :: "'a proc_sys_scheme \<Rightarrow> ptr \<Rightarrow> ptr" where "ch s = (\<lambda>p. child_head (procs s p))"
definition ct :: "'a proc_sys_scheme \<Rightarrow> ptr \<Rightarrow> ptr" where "ct s = (\<lambda>p. child_tail (procs s p))"

lemmas child_links = cn_def cp_def ch_def ct_def

definition children :: "'a proc_sys_scheme \<Rightarrow> ptr \<Rightarrow> ptr list \<Rightarrow> bool" where
  "children s par xs \<longleftrightarrow> dlist (cn s) (cp s) (ch s par) (ct s par) xs"

lemma set_proc_fields:
  "child_next (procs (set_proc p (child_next_update f) s) q) = (if q = p then f (child_next (procs s p)) else child_next (procs s q))"
  "child_prev (procs (set_proc p (child_next_update f) s) q) = child_prev (procs s q)"
  "child_head (procs (set_proc p (child_next_update f) s) q) = child_head (procs s q)"
  "child_tail (procs (set_proc p (child_next_update f) s) q) = child_tail (procs s q)"
  "parent (procs (set_proc p (child_next_update f) s) q) = parent (procs s q)"
  "child_next (procs (set_proc p (child_prev_update f) s) q) = child_next (procs s q)"
  "child_prev (procs (set_proc p (child_prev_update f) s) q) = (if q = p then f (child_prev (procs s p)) else child_prev (procs s q))"
  "child_head (procs (set_proc p (child_prev_update f) s) q) = child_head (procs s q)"
  "child_tail (procs (set_proc p (child_prev_update f) s) q) = child_tail (procs s q)"
  "parent (procs (set_proc p (child_prev_update f) s) q) = parent (procs s q)"
  "child_next (procs (set_proc p (child_head_update f) s) q) = child_next (procs s q)"
  "child_prev (procs (set_proc p (child_head_update f) s) q) = child_prev (procs s q)"
  "child_head (procs (set_proc p (child_head_update f) s) q) = (if q = p then f (child_head (procs s p)) else child_head (procs s q))"
  "child_tail (procs (set_proc p (child_head_update f) s) q) = child_tail (procs s q)"
  "parent (procs (set_proc p (child_head_update f) s) q) = parent (procs s q)"
  "child_next (procs (set_proc p (child_tail_update f) s) q) = child_next (procs s q)"
  "child_prev (procs (set_proc p (child_tail_update f) s) q) = child_prev (procs s q)"
  "child_head (procs (set_proc p (child_tail_update f) s) q) = child_head (procs s q)"
  "child_tail (procs (set_proc p (child_tail_update f) s) q) = (if q = p then f (child_tail (procs s p)) else child_tail (procs s q))"
  "parent (procs (set_proc p (child_tail_update f) s) q) = parent (procs s q)"
  "child_next (procs (set_proc p (parent_update f) s) q) = child_next (procs s q)"
  "child_prev (procs (set_proc p (parent_update f) s) q) = child_prev (procs s q)"
  "child_head (procs (set_proc p (parent_update f) s) q) = child_head (procs s q)"
  "child_tail (procs (set_proc p (parent_update f) s) q) = child_tail (procs s q)"
  "parent (procs (set_proc p (parent_update f) s) q) = (if q = p then f (parent (procs s p)) else parent (procs s q))"
  by (simp_all add: set_proc_def)

lemma link_child_fields:
  "cn (link_child par c s) = (if ct s par \<noteq> 0 then (cn s)(c := 0, ct s par := c) else (cn s)(c := 0))"
  "cp (link_child par c s) = (cp s)(c := ct s par)"
  "ch (link_child par c s) = (if ct s par \<noteq> 0 then ch s else (ch s)(par := c))"
  "ct (link_child par c s) = (ct s)(par := c)"
  "parent (procs (link_child par c s) q) = parent (procs s q)"
  by (auto simp: link_child_def Let_def set_proc_fields fun_eq_iff child_links)

lemma link_child_appends:
  assumes "children s par xs" "c \<notin> set xs" "c \<noteq> 0"
  shows "children (link_child par c s) par (xs @ [c])"
  using dlist_append [OF assms [unfolded children_def]] by (cases "ct s par = 0") (simp_all add: children_def link_child_fields)

lemma unlink_child_fields:
  assumes "cp s c \<noteq> c" "cn s c \<noteq> c"
  shows "cn (unlink_child par c s) = ((if cp s c \<noteq> 0 then (cn s)(cp s c := cn s c) else cn s)(c := 0))"
  "cp (unlink_child par c s) = ((if cn s c \<noteq> 0 then (cp s)(cn s c := cp s c) else cp s)(c := 0))"
  "ch (unlink_child par c s) = (if cp s c \<noteq> 0 then ch s else (ch s)(par := cn s c))"
  "ct (unlink_child par c s) = (if cn s c \<noteq> 0 then ct s else (ct s)(par := cp s c))"
  "parent (procs (unlink_child par c s) q) = parent (procs s q)"
  using assms by (cases "cp s c = 0"; cases "cn s c = 0"; simp add: unlink_child_def Let_def set_proc_fields fun_eq_iff child_links)+

lemma unlink_child_removes:
  assumes "children s par (ys @ c # zs)"
  shows "children (unlink_child par c s) par (ys @ zs)"
proof -
  note d = dlist_remove [OF assms [unfolded children_def]]
  have "c \<notin> set ys" "c \<notin> set zs" "c \<noteq> 0" using assms by (auto simp: children_def dlist_def dlist_def)
  then have "cp s c \<noteq> c" "cn s c \<noteq> c" unfolding d(1,2)
    by (metis last_in_set last_or_def neq0_conv, metis hd_in_set hd_or_def neq0_conv)
  then show ?thesis using d(3) by (cases "cp s c = 0"; cases "cn s c = 0"; simp add: children_def unlink_child_fields)
qed

text \<open>The operations on one list leave a list without common nodes alone.\<close>

lemma children_frame:
  assumes "children s q ys" "set ys \<inter> insert c (set xs) = {}" "children s par xs" "q \<noteq> par"
  shows "children (link_child par c s) q ys" "c \<in> set xs \<Longrightarrow> children (unlink_child par c s) q ys"
proof -
  have t: "ct s par = 0 \<or> ct s par \<in> set xs" using assms(3)
    by (cases "xs = []") (auto simp: children_def dlist_def last_or_def)
  have "ct s par \<notin> set ys \<or> ct s par = 0" using t assms(2) by auto
  then show "children (link_child par c s) q ys"
    using assms by (cases "ct s par = 0") (auto simp: children_def dlist_def link_child_fields)
  assume "c \<in> set xs"
  then obtain as bs where xs: "xs = as @ c # bs" by (meson split_list)
  have l: "cp s c = last_or as 0" "cn s c = hd_or bs 0" and d: "distinct xs" using assms(3) by (auto simp: children_def dlist_def xs)
  have i: "cp s c = 0 \<or> cp s c \<in> set as" "cn s c = 0 \<or> cn s c \<in> set bs"
    using l by (auto simp: last_or_def hd_or_def)
  have c0: "c \<noteq> 0" using assms(3) xs by (auto simp: children_def dlist_def)
  have ne: "cp s c \<noteq> c" "cn s c \<noteq> c" using i d xs c0 by auto
  show "children (unlink_child par c s) q ys"
  proof -
    have n: "cp s c \<noteq> 0 \<longrightarrow> cp s c \<notin> set ys" "cn s c \<noteq> 0 \<longrightarrow> cn s c \<notin> set ys" "c \<notin> set ys"
      using i assms(2) xs by auto
    have "seg (cn (unlink_child par c s)) (cp (unlink_child par c s)) 0 ys 0"
      using n assms(1) unfolding unlink_child_fields [OF ne]
      by (cases "cp s c = 0"; cases "cn s c = 0"; simp add: children_def dlist_def)
    then show ?thesis using assms(1,4) by (simp add: children_def dlist_def unlink_child_fields(3,4) [OF ne])
  qed
qed

lemma children_parent: "children (set_proc c (parent_update f) s) q ys = children s q ys"
proof -
  have "child_next (procs (set_proc c (parent_update f) s) p) = child_next (procs s p)"
    "child_prev (procs (set_proc c (parent_update f) s) p) = child_prev (procs s p)"
    "child_head (procs (set_proc c (parent_update f) s) p) = child_head (procs s p)"
    "child_tail (procs (set_proc c (parent_update f) s) p) = child_tail (procs s p)" for p
    by (simp_all add: set_proc_def)
  then show ?thesis by (simp add: children_def dlist_def child_links)
qed

lemma reparent_from_moves:
  assumes "children s dying xs" "children s new ys" "set xs \<inter> set ys = {}" "dying \<noteq> new"
  shows "\<exists>t. reparent_from dying new (hd_or xs 0) s = Some t \<and> children t dying [] \<and> children t new (ys @ xs)
    \<and> (\<forall>c. parent (procs t c) = (if c \<in> set xs then new else parent (procs s c)))"
  using assms
proof (induction xs arbitrary: s ys)
  case Nil
  then show ?case by (subst reparent_from.simps) simp
next
  case (Cons x xs)
  let ?u = "unlink_child dying x s"
  let ?p = "set_proc x (parent_update (\<lambda>_. new)) ?u"
  let ?l = "link_child new x ?p"
  have x: "x \<noteq> 0" "x \<notin> set ys" "x \<notin> set xs" "cn s x = hd_or xs 0" "cp s x = 0"
    using Cons.prems by (auto simp: children_def dlist_def)
  have ne: "cp s x \<noteq> x" "cn s x \<noteq> x" using x by (metis hd_in_set hd_or_def)+
  have u: "children ?u dying xs" using unlink_child_removes [of s dying "[]" x xs] Cons.prems(1) by simp
  have un: "children ?u new ys"
    by (rule children_frame(2) [OF Cons.prems(2) _ Cons.prems(1)]) (use Cons.prems in auto)
  have l: "children ?l new (ys @ [x])"
    by (rule link_child_appends) (use un x in \<open>auto simp: children_parent\<close>)
  have ld: "children ?l dying xs"
    by (rule children_frame(1) [where xs = ys]) (use u un x Cons.prems in \<open>auto simp: children_parent\<close>)
  have "\<exists>t. reparent_from dying new (hd_or xs 0) ?l = Some t \<and> children t dying [] \<and> children t new ((ys @ [x]) @ xs)
    \<and> (\<forall>c. parent (procs t c) = (if c \<in> set xs then new else parent (procs ?l c)))"
    by (rule Cons.IH [OF ld l]) (use Cons.prems x in auto)
  moreover have "parent (procs ?l c) = (if c = x then new else parent (procs s c))" for c
    by (simp add: link_child_fields set_proc_def unlink_child_fields [OF ne])
  moreover have "reparent_from dying new (hd_or (x # xs) 0) s = reparent_from dying new (hd_or xs 0) ?l"
    using x by (subst reparent_from.simps) (simp add: child_links)
  ultimately show ?case by auto
qed

section \<open>Process identifiers\<close>

lemma pid_used_bit: "pid_used s p \<longleftrightarrow> bit (pid_bitmap s (p div 64)) (p mod 64)"
  by (simp add: pid_used_def and_exp_iff push_bit_eq_mult)

lemma pid_used_set:
  "pid_used (s\<lparr>pid_bitmap := (pid_bitmap s)(p div 64 := pid_bitmap s (p div 64) OR push_bit (p mod 64) 1),
     next_pid_hint := h\<rparr>) q \<longleftrightarrow> q = p \<or> pid_used s q"
proof -
  have "q mod 64 = p mod 64 \<Longrightarrow> q div 64 = p div 64 \<Longrightarrow> q = p" by (metis div_mult_mod_eq)
  then show ?thesis by (auto simp: pid_used_bit bit_or_iff bit_exp_iff)
qed

lemma pid_used_clear:
  "pid_used (s\<lparr>pid_bitmap := (pid_bitmap s)(p div 64 := pid_bitmap s (p div 64) AND NOT (push_bit (p mod 64) 1))\<rparr>) q
     \<longleftrightarrow> q \<noteq> p \<and> pid_used s q"
proof -
  have "q mod 64 = p mod 64 \<Longrightarrow> q div 64 = p div 64 \<Longrightarrow> q = p" by (metis div_mult_mod_eq)
  then show ?thesis by (auto simp: pid_used_bit bit_and_iff bit_not_iff bit_exp_iff)
qed

text \<open>Every identifier is tried, whatever the hint.\<close>

lemma pid_candidates: "set (map (\<lambda>offset. (h + offset) mod max_pids) [0 ..< max_pids]) = {..< max_pids}"
proof
  show "{..< max_pids} \<subseteq> set (map (\<lambda>offset. (h + offset) mod max_pids) [0 ..< max_pids])"
  proof
    fix p assume p: "p \<in> {..< max_pids}"
    let ?o = "(p + (max_pids - h mod max_pids)) mod max_pids"
    have m: "0 < max_pids" by (simp add: max_pids_def)
    have "(h + ?o) mod max_pids = (h mod max_pids + (p + (max_pids - h mod max_pids))) mod max_pids"
      by (metis mod_add_left_eq mod_add_right_eq)
    also have "h mod max_pids + (p + (max_pids - h mod max_pids)) = p + max_pids"
      using m mod_less_divisor [of max_pids h] by linarith
    finally have "(h + ?o) mod max_pids = p" using p by simp
    then show "p \<in> set (map (\<lambda>offset. (h + offset) mod max_pids) [0 ..< max_pids])"
      using m by (auto simp: image_iff intro!: bexI [of _ ?o])
  qed
qed (auto simp: max_pids_def)

lemma pid_alloc_cases:
  assumes "system_initialized s"
  obtains (Full) "pid_alloc s = (invalid_pid, s)" "\<forall>p < max_pids. pid_used s p"
  | (Found) p where "p < max_pids" "\<not> pid_used s p" "fst (pid_alloc s) = of_nat p"
      "\<forall>q. pid_used (snd (pid_alloc s)) q \<longleftrightarrow> q = p \<or> pid_used s q" "system_initialized (snd (pid_alloc s))"
proof (cases "find (\<lambda>p. \<not> pid_used s p) (map (\<lambda>offset. (next_pid_hint s + offset) mod max_pids) [0 ..< max_pids])")
  case None
  then have "\<forall>p \<in> {..< max_pids}. pid_used s p"
    unfolding find_None_iff pid_candidates by blast
  then show ?thesis using Full None assms by (simp add: pid_alloc_def)
next
  case (Some p)
  then have "p \<in> set (map (\<lambda>offset. (next_pid_hint s + offset) mod max_pids) [0 ..< max_pids])" "\<not> pid_used s p"
    unfolding find_Some_iff by (metis nth_mem)+
  then have "p < max_pids" unfolding pid_candidates by simp
  then show ?thesis using Found [of p] Some assms \<open>\<not> pid_used s p\<close>
    by (simp add: pid_alloc_def pid_used_set [simplified])
qed

section \<open>Properties\<close>

text \<open>Reparenting returns and moves all children of a dying process, in order, behind those of the new
  parent, and makes it their parent; no other process changes its parent.\<close>

theorem reparent_children_correct:
  assumes "children s dying xs" "children s new ys" "set xs \<inter> set ys = {}" "dying \<noteq> new" "dying \<noteq> 0" "new \<noteq> 0"
  shows "\<exists>t. reparent_children dying new s = Some t \<and> children t dying [] \<and> children t new (ys @ xs)
    \<and> (\<forall>c. parent (procs t c) = (if c \<in> set xs then new else parent (procs s c)))"
  using reparent_from_moves [OF assms(1-4)] assms by (simp add: reparent_children_def dlist_def children_def dlist_def child_links)

definition example_procs :: proc_sys where
  "example_procs = sched_sys.extend example_sched (proc_sys.fields (\<lambda>_. 0) 0 0 True
     (\<lambda>p. if p = 2 then zero_process\<lparr>child_head := 5, child_tail := 6\<rparr>
          else if p = 5 then zero_process\<lparr>child_next := 6, parent := 2\<rparr>
          else if p = 6 then zero_process\<lparr>child_prev := 5, parent := 2\<rparr> else zero_process)
     (\<lambda>_. \<lparr>thread_process = 0, user_rsp = 0, user_rip = 0, user_rsp0 = 0, thread_next = 0, thread_prev = 0\<rparr>))"

theorem reparent_children_correct_witness:
  "\<exists>t. reparent_children 2 3 example_procs = Some t \<and> children t 3 [5, 6] \<and> parent (procs t 6) = 3"
proof -
  have "children example_procs 2 [5, 6]" "children example_procs 3 []"
    by (simp_all add: children_def dlist_def child_links example_procs_def zero_process_def sched_sys.defs proc_sys.defs)
  from reparent_children_correct [OF this] show ?thesis by auto
qed

text \<open>\<open>pid_alloc\<close> returns an identifier that was free and makes it used, changing no other; it fails only
  when all 32768 are used.  \<open>pid_free\<close> makes exactly that identifier free again.\<close>

theorem pid_alloc_correct:
  assumes "system_initialized s" and "pid_alloc s = (r, s')"
  shows "(r = invalid_pid \<and> s' = s \<and> (\<forall>p < max_pids. pid_used s p)
      \<or> unat r < max_pids \<and> \<not> pid_used s (unat r) \<and> (\<forall>q. pid_used s' q \<longleftrightarrow> q = unat r \<or> pid_used s q)
        \<and> (\<forall>q. pid_used (pid_free r s') q \<longleftrightarrow> pid_used s q))"
  using assms(1)
proof (cases rule: pid_alloc_cases)
  case (Found p)
  then have "r = of_nat p" "s' = snd (pid_alloc s)" using assms(2) by simp_all
  moreover have "unat (of_nat p :: u64) = p"
    using Found(1) by (simp add: unat_of_nat take_bit_nat_eq_self max_pids_def)
  moreover have "pid_used (pid_free (of_nat p) s') q \<longleftrightarrow> q \<noteq> p \<and> pid_used s' q" for q
    using Found(1,5) calculation by (simp add: pid_free_def pid_used_clear [simplified])
  ultimately show ?thesis using Found by auto
qed (use assms(2) in auto)

theorem pid_alloc_correct_witness:
  "system_initialized example_procs \<and> unat (fst (pid_alloc example_procs)) < max_pids"
proof -
  have "system_initialized example_procs" "\<not> pid_used example_procs 0" "0 < max_pids"
    by (simp_all add: example_procs_def pid_used_def max_pids_def sched_sys.defs proc_sys.defs)
  then show ?thesis using pid_alloc_correct [of example_procs "fst (pid_alloc example_procs)" "snd (pid_alloc example_procs)"]
    by auto
qed

end
