(* ===== verification/Tori_Syscall_Props.thy ===== *)
theory Tori_Syscall_Props
  imports Tori_Syscall Tori_Process_Props
begin

text \<open>
  What the system calls do to processes, tasks and memory together: how a child of \<open>fork\<close> starts, what
  \<open>exit\<close> and \<open>waitpid\<close> do to the family of a process, and what the kernel cannot store.
\<close>

declare upt_rec_numeral [simp del]

section \<open>New processes and threads\<close>

text \<open>The part of the state that belongs to the scheduler, and the threads.\<close>

definition sched_part :: "'a proc_sys_scheme \<Rightarrow> (ptr \<Rightarrow> Task) \<times> ptr \<times> ptr \<times> (u64 \<Rightarrow> u64) \<times> (nat \<Rightarrow> PerCPU) \<times> nat \<times> (ptr \<Rightarrow> Thread)
    \<times> vmm \<times> (nat \<Rightarrow> bool)" where
  "sched_part s = (tasks s, rq_head s, rq_tail s, words s, percpu s, lapic s, threads s, memory_manager s, alloc_ok s)"

lemma set_proc_part [simp]:
  "sched_part (set_proc p f s) = sched_part s" "alloc_next (set_proc p f s) = alloc_next s"
  "memory_manager (set_proc p f s) = memory_manager s" "process_list (set_proc p f s) = process_list s"
  by (simp_all add: set_proc_def sched_part_def)

lemma ready_set_proc [simp]: "ready (set_proc p f s) = ready s" "states (set_proc p f s) = states s"
  by (simp_all add: set_proc_def ready_def task_views fun_eq_iff)

lemma link_child_part [simp]:
  "sched_part (link_child p c s) = sched_part s" "alloc_next (link_child p c s) = alloc_next s"
  "process_list (link_child p c s) = process_list s"
  by (simp_all add: link_child_def Let_def)

text \<open>The links of the lists are not looked at below.\<close>

definition same_process :: "Process \<Rightarrow> Process \<Rightarrow> bool" where
  "same_process p q \<longleftrightarrow> pid p = pid q \<and> proc_state p = proc_state q \<and> pml4_phys p = pml4_phys q
     \<and> fd_table p = fd_table q \<and> parent p = parent q \<and> wait_task p = wait_task q \<and> exit_status p = exit_status q"

lemma same_process_refl [simp]: "same_process p p"
  by (simp add: same_process_def)

lemma same_process_trans: "same_process p q \<Longrightarrow> same_process q r \<Longrightarrow> same_process p r"
  by (simp add: same_process_def)

lemma set_proc_same:
  "(\<And>x. same_process (f x) x) \<Longrightarrow> same_process (procs (set_proc p f s) q) (procs s q)"
  by (simp add: set_proc_def)

lemma link_child_same: "same_process (procs (link_child p c s) q) (procs s q)"
  by (auto simp: link_child_def Let_def set_proc_def same_process_def)

lemma pid_alloc_part [simp]:
  "sched_part (snd (pid_alloc s)) = sched_part s" "alloc_next (snd (pid_alloc s)) = alloc_next s"
  "procs (snd (pid_alloc s)) = procs s" "process_list (snd (pid_alloc s)) = process_list s"
  by (simp_all add: pid_alloc_def sched_part_def split: option.split)

lemma pid_alloc_cong:
  "pid_bitmap s = pid_bitmap t \<Longrightarrow> next_pid_hint s = next_pid_hint t \<Longrightarrow> system_initialized s = system_initialized t
   \<Longrightarrow> fst (pid_alloc s) = fst (pid_alloc t)"
  by (simp add: pid_alloc_def pid_used_def split: option.split)

lemma process_create_new:
  assumes "process_create pml4 par s = (c, s')" "c \<noteq> 0"
  shows "c = alloc_next s" "alloc_next s' = Suc (alloc_next s)" "sched_part s' = sched_part s"
    "pid (procs s' c) = fst (pid_alloc s)" "pid (procs s' c) \<noteq> invalid_pid"
    "proc_state (procs s' c) = Alive" "pml4_phys (procs s' c) = pml4" "parent (procs s' c) = par"
    "\<And>q. q \<noteq> c \<Longrightarrow> same_process (procs s' q) (procs s q)"
proof -
  obtain p s1 where k: "proc_kalloc s = (p, s1)" by fastforce
  let ?z = "set_proc p (\<lambda>_. zero_process) s1"
  obtain n s2 where a: "pid_alloc ?z = (n, s2)" by fastforce
  define f where "f = (\<lambda>q :: Process. q\<lparr>pid := n, proc_state := Alive, exit_status := 0, pml4_phys := pml4, parent := par,
    thread_list := 0, list_next := process_list s2, list_prev := 0\<rparr>)"
  define s3 where "s3 = set_proc p f s2"
  define s4 where "s4 = (if par \<noteq> 0 then link_child par p s3 else s3)"
  define s5 where "s5 = (if process_list s4 \<noteq> 0 then set_proc (process_list s4) (list_prev_update (\<lambda>_. p)) s4 else s4)"
  have p: "p \<noteq> 0" "n \<noteq> invalid_pid" "c = p" "s' = s5\<lparr>process_list := p\<rparr>"
    using assms k a by (auto simp: process_create_def Let_def s5_def s4_def s3_def f_def split: if_splits)
  have s1: "p = alloc_next s" "s1 = s\<lparr>alloc_next := Suc (alloc_next s), freed := (freed s)(p := False)\<rparr>"
    using k p(1) by (auto simp: proc_kalloc_def Let_def split: if_splits)
  have s2: "s2 = snd (pid_alloc ?z)" "n = fst (pid_alloc ?z)" using a by simp_all
  show "c = alloc_next s" using p s1 by simp
  show "alloc_next s' = Suc (alloc_next s)" using p s1 by (simp add: s5_def s4_def s3_def s2)
  have "sched_part s' = sched_part s5" "sched_part s1 = sched_part s" using p s1 by (simp_all add: sched_part_def)
  then show "sched_part s' = sched_part s" by (simp add: s5_def s4_def s3_def s2)
  have "same_process (procs s5 q) (procs s4 q)" for q
    by (auto simp: s5_def set_proc_def same_process_def)
  moreover have "same_process (procs s4 q) (procs s3 q)" for q by (simp add: s4_def link_child_same)
  ultimately have "same_process (procs s5 q) (procs s3 q)" for q using same_process_trans by blast
  then have l: "same_process (procs s' q) (procs s3 q)" for q using p by simp
  have g: "procs s3 p = f (procs s2 p)" by (simp add: s3_def set_proc_def)
  have "fst (pid_alloc ?z) = fst (pid_alloc s)" by (rule pid_alloc_cong) (simp_all add: set_proc_def s1)
  then show "pid (procs s' c) = fst (pid_alloc s)" "pid (procs s' c) \<noteq> invalid_pid"
    "proc_state (procs s' c) = Alive" "pml4_phys (procs s' c) = pml4" "parent (procs s' c) = par"
    using l [of p] g p s2 by (auto simp: same_process_def f_def)
  show "same_process (procs s' q) (procs s q)" if "q \<noteq> c" for q
  proof -
    have "procs s3 q = procs s q" using that p s1 by (simp add: s3_def s2 set_proc_def)
    then show ?thesis using l [of q] by simp
  qed
qed

lemma thread_create_new:
  assumes "thread_create tr h p en st s = (t, s')" "t \<noteq> 0"
  shows "t = alloc_next s" "procs s' = procs s" "rq_head s' = rq_head s" "rq_tail s' = rq_tail s"
    "threads s' = (threads s)(t := \<lparr>thread_process = p, user_rsp = st, user_rip = en,
       user_rsp0 = stack_top (task_stack (tasks s' t)), thread_next = 0, thread_prev = 0\<rparr>)"
    "task_id (tasks s' t) = 0" "task_thread (tasks s' t) = t"
    "task_cr3 (tasks s' t) = (if p \<noteq> 0 then pml4_phys (procs s p) else kernel_pml4_phys (memory_manager s'))"
    "\<And>q. q \<noteq> t \<Longrightarrow> tasks s' q = tasks s q" "rn s' = rn s" "rp s' = rp s" "percpu s' = percpu s" "lapic s' = lapic s"
proof -
  obtain u s1 where k: "proc_kalloc s = (u, s1)" by fastforce
  obtain ph pm where a: "alloc_pages stack_pages (page_alloc (memory_manager s1)) = (ph, pm)" by fastforce
  define g where "g = (\<lambda>task :: Task. task\<lparr>task_id := 0, task_state := Ready,
    task_stack := \<lparr>stack_base = physical_to_virtual h ph, stack_top = physical_to_virtual h ph + stack_size,
      physical_page = ph, page_count = stack_pages\<rparr>, task_entry := 0, task_arg := 0, task_thread := u,
    task_cr3 := (if p \<noteq> 0 then pml4_phys (procs s1 p) else kernel_pml4_phys (memory_manager s1)),
    task_context := physical_to_virtual h ph + stack_size - 56\<rparr>)"
  define w where "w = fold (\<lambda>i m. m(physical_to_virtual h ph + stack_size - 8 * of_nat i := 0)) [2 ..< 8]
    ((fold (\<lambda>i m. m(physical_to_virtual h ph + 8 * of_nat i := 0)) [0 ..< unat stack_size div 8] (words s1))
      (physical_to_virtual h ph + stack_size - 8 := tr))"
  have "u \<noteq> 0" "ph \<noteq> invalid_physical_address" using assms k a by (auto simp: thread_create_def Let_def split: if_splits)
  then have u: "u = t" and s': "s' = s1\<lparr>memory_manager := (memory_manager s1)\<lparr>page_alloc := pm\<rparr>,
      threads := (threads s1)(t := \<lparr>thread_process = p, user_rsp = st, user_rip = en,
        user_rsp0 = physical_to_virtual h ph + stack_size, thread_next = 0, thread_prev = 0\<rparr>),
      tasks := (tasks s1)(t := g (tasks s1 t)), words := w\<rparr>"
    using assms k a by (auto simp: thread_create_def Let_def set_task_def g_def w_def simp del: upt_rec_numeral)
  have s1: "u = alloc_next s" "s1 = s\<lparr>alloc_next := Suc (alloc_next s), freed := (freed s)(u := False)\<rparr>"
    using k u assms(2) by (auto simp: proc_kalloc_def Let_def split: if_splits)
  show "t = alloc_next s" "procs s' = procs s" "rq_head s' = rq_head s" "rq_tail s' = rq_tail s"
    "threads s' = (threads s)(t := \<lparr>thread_process = p, user_rsp = st, user_rip = en,
       user_rsp0 = stack_top (task_stack (tasks s' t)), thread_next = 0, thread_prev = 0\<rparr>)"
    "task_id (tasks s' t) = 0" "task_thread (tasks s' t) = t"
    "task_cr3 (tasks s' t) = (if p \<noteq> 0 then pml4_phys (procs s p) else kernel_pml4_phys (memory_manager s'))"
    "\<And>q. q \<noteq> t \<Longrightarrow> tasks s' q = tasks s q" "rn s' = rn s" "rp s' = rp s" "percpu s' = percpu s" "lapic s' = lapic s"
    using u s1 by (auto simp: s' g_def task_views)
qed

section \<open>Fork\<close>

lemma with_mm_part [simp]:
  "tasks (with_mm m s) = tasks s" "rq_head (with_mm m s) = rq_head s" "rq_tail (with_mm m s) = rq_tail s"
  "words (with_mm m s) = words s" "percpu (with_mm m s) = percpu s" "lapic (with_mm m s) = lapic s"
  "threads (with_mm m s) = threads s" "procs (with_mm m s) = procs s" "alloc_next (with_mm m s) = alloc_next s"
  "process_list (with_mm m s) = process_list s" "memory_manager (with_mm m s) = m" "cpu (with_mm m s) = cpu s"
  "pid_bitmap (with_mm m s) = pid_bitmap s" "next_pid_hint (with_mm m s) = next_pid_hint s"
  "system_initialized (with_mm m s) = system_initialized s"
  by (simp_all add: with_mm_def)

lemma all_16: "(\<forall>i < 16. P i) \<longleftrightarrow> (\<forall>i \<in> set [0 ..< 16]. P (i :: nat))"
  by auto

lemma fork_stack_words:
  assumes "sp = stack_top (task_stack (tasks s t)) - 128" "u = fork_stack ret t f s"
  shows "\<forall>i < 16. words u (sp + 8 * of_nat i) = frame_words f ! i" "words u (sp - 8) = ret"
    "task_context (tasks u t) = sp - 56"
proof -
  have e: "words u = words (store_words (sp - 56) [0, 0, 0, 0, 0, 0, ret] (store_words sp (frame_words f) s))"
    "task_context (tasks u t) = sp - 56"
    by (simp_all add: assms fork_stack_def Let_def set_task_def store_words_def)
  show "task_context (tasks u t) = sp - 56" by (rule e)
  show "words u (sp - 8) = ret" by (simp add: e store_words_def upt_rec)
  show "\<forall>i < 16. words u (sp + 8 * of_nat i) = frame_words f ! i"
    unfolding all_16 by (simp add: e store_words_def frame_words_def upt_rec)
qed

lemma enqueue_keeps:
  "words (sched_enqueue t s) = words s" "task_context (tasks (sched_enqueue t s) p) = task_context (tasks s p)"
  "task_cr3 (tasks (sched_enqueue t s) p) = task_cr3 (tasks s p)" "task_thread (tasks (sched_enqueue t s) p) = task_thread (tasks s p)"
  by (auto simp: sched_enqueue_def list_add_def ready_queue_push_def set_task_def Let_def)

lemma enqueue_keeps_procs:
  "procs (sched_enqueue t s) = procs s" "threads (sched_enqueue t s) = threads s"
  by (auto simp: sched_enqueue_def list_add_def ready_queue_push_def set_task_def Let_def)

lemma enqueue_ready:
  assumes "ready s q" "t \<noteq> 0" "t \<notin> set q"
  shows "ready (sched_enqueue t s) (q @ [t])"
  using assms by (auto simp: sched_enqueue_def Let_def intro!: ready_push)

text \<open>The areas of the processors are at different addresses.\<close>

lemma percpu_address_inject:
  assumes "i < CONFIG_MAX_CPUS" and "j < CONFIG_MAX_CPUS" and "percpu_address pb i = percpu_address pb j"
  shows "i = j"
proof -
  have sz: "sizeof_PerCPU = 20600"
    by (simp add: sizeof_PerCPU_def sizeof_TSS_def CONFIG_KERNEL_STACK_SIZE_def CONFIG_DOUBLE_FAULT_STACK_SIZE_def)
  have u: "unat (of_nat k * sizeof_PerCPU) = k * 20600" if "k < CONFIG_MAX_CPUS" for k
    using that by (simp add: sz unat_word_ariths unsigned_of_nat take_bit_nat_eq_self CONFIG_MAX_CPUS_def)
  have "of_nat i * sizeof_PerCPU = (of_nat j * sizeof_PerCPU :: u64)" using assms(3) by (simp add: percpu_address_def)
  from arg_cong [OF this, of unat] show ?thesis using u [OF assms(1)] u [OF assms(2)] by simp
qed

lemma gs_area_own:
  assumes "active_gs g = percpu_address pb i" and "i < CONFIG_MAX_CPUS"
  shows "gs_area pb g = Some i"
proof -
  have "find (\<lambda>j. percpu_address pb j = percpu_address pb i) [0 ..< CONFIG_MAX_CPUS] = Some i"
    unfolding find_Some_iff
    using assms(2) percpu_address_inject [of _ i pb] by (intro exI [of _ i]) (auto dest: less_trans)
  then show ?thesis by (simp add: gs_area_def assms(1))
qed

text \<open>C26. A system call preserves the registers and the segment bases of the user program.  With the address of
  the area of its processor as the base that \<open>swapgs\<close> brings in, the entry code builds, on the stack that the area names, the
  frame that \<open>handle_syscall\<close> reads by its members and runs the handler with that base.  When the handler
  has left the sixteen words of the frame in place and the base is the area of the processor on which it ends, the
  return restores every register but \<open>rax\<close>, which holds the result, and swaps the bases back.\<close>

theorem syscall_preserves_registers:
  assumes "shadow_gs g = percpu_address pb i" and "i < CONFIG_MAX_CPUS"
    and "active_gs g2 = percpu_address pb j" and "j < CONFIG_MAX_CPUS"
  shows "\<exists>sp s1. syscall_entry pb r g s = Some (ur_rax r, sp, swap_gs g, s1)
    \<and> active_gs (swap_gs g) = percpu_address pb i \<and> sp = syscall_rsp (percpu s i) - 128
    \<and> read_frame sp s1 = \<lparr>fr_rip = ur_rcx r, fr_rflags = ur_r11 r, fr_rdi = ur_rdi r, fr_rsi = ur_rsi r, fr_rdx = ur_rdx r,
        fr_r10 = ur_r10 r, fr_r8 = ur_r8 r, fr_r9 = ur_r9 r, fr_rbx = ur_rbx r, fr_rbp = ur_rbp r, fr_r12 = ur_r12 r,
        fr_r13 = ur_r13 r, fr_r14 = ur_r14 r, fr_r15 = ur_r15 r, fr_rax = ur_rax r, fr_rsp = ur_rsp r\<rparr>
    \<and> ((\<forall>k < 16. words s2 (sp + 8 * of_nat k) = words s1 (sp + 8 * of_nat k)) \<longrightarrow>
         (\<exists>s3. syscall_return pb result sp g2 s2 = Some (r\<lparr>ur_rax := result\<rparr>, swap_gs g2, s3)))
    \<and> swap_gs (swap_gs g) = g"
proof -
  let ?top = "syscall_rsp (percpu s i)"
  define sp where "sp = ?top - 128"
  define w1 where "w1 = snd (push_all [ur_rsp r, ur_rax r, ur_r15 r, ur_r14 r, ur_r13 r, ur_r12 r, ur_rbp r, ur_rbx r,
      ur_r9 r, ur_r8 r, ur_r10 r, ur_rdx r, ur_rsi r, ur_rdi r, ur_r11 r, ur_rcx r] ?top (words s))"
  have "gs_area pb (swap_gs g) = Some i" using gs_area_own [of "swap_gs g" pb i] assms(1,2) by (simp add: swap_gs_def)
  then obtain s1 where s1: "syscall_entry pb r g s = Some (ur_rax r, sp, swap_gs g, s1)" "words s1 = w1"
    by (simp add: syscall_entry_def Let_def sp_def w1_def)
  have f: "words s1 sp = ur_rcx r" "words s1 (sp + 8) = ur_r11 r" "words s1 (sp + 16) = ur_rdi r" "words s1 (sp + 24) = ur_rsi r"
    "words s1 (sp + 32) = ur_rdx r" "words s1 (sp + 40) = ur_r10 r" "words s1 (sp + 48) = ur_r8 r" "words s1 (sp + 56) = ur_r9 r"
    "words s1 (sp + 64) = ur_rbx r" "words s1 (sp + 72) = ur_rbp r" "words s1 (sp + 80) = ur_r12 r" "words s1 (sp + 88) = ur_r13 r"
    "words s1 (sp + 96) = ur_r14 r" "words s1 (sp + 104) = ur_r15 r" "words s1 (sp + 112) = ur_rax r" "words s1 (sp + 120) = ur_rsp r"
    by (simp_all add: s1(2) w1_def sp_def)
  have ret: "\<exists>s3. syscall_return pb result sp g2 s2 = Some (r\<lparr>ur_rax := result\<rparr>, swap_gs g2, s3)"
    if "\<forall>k < 16. words s2 (sp + 8 * of_nat k) = words s1 (sp + 8 * of_nat k)"
  proof -
    have "\<forall>k \<in> set [0 ..< 16]. words s2 (sp + 8 * of_nat k) = words s1 (sp + 8 * of_nat k)" using that unfolding all_16 .
    then show ?thesis
      using gs_area_own [OF assms(3,4)] by (simp add: syscall_return_def pop_user_frame_def Let_def upt_rec f)
  qed
  have "active_gs (swap_gs g) = percpu_address pb i" "swap_gs (swap_gs g) = g"
    using assms(1) by (simp_all add: swap_gs_def)
  then show ?thesis using s1(1) f ret by (intro exI [of _ sp] exI [of _ s1]) (simp add: read_frame_def Let_def sp_def)
qed

text \<open>With memory and an identifier at hand, \<open>fork\<close> succeeds.\<close>

lemma process_create_some:
  assumes "alloc_ok s (alloc_next s)" "alloc_next s \<noteq> 0" "fst (pid_alloc s) \<noteq> invalid_pid"
  shows "fst (process_create pml4 par s) \<noteq> 0"
proof -
  obtain p s1 where k: "proc_kalloc s = (p, s1)" by fastforce
  then have s1: "p \<noteq> 0" "s1 = s\<lparr>alloc_next := Suc (alloc_next s), freed := (freed s)(p := False)\<rparr>"
    using assms by (auto simp: proc_kalloc_def Let_def)
  have "fst (pid_alloc (set_proc p (\<lambda>_. zero_process) s1)) = fst (pid_alloc s)"
    by (rule pid_alloc_cong) (simp_all add: set_proc_def s1)
  then show ?thesis using assms(3) k s1(1) by (simp add: process_create_def Let_def split_beta)
qed

lemma thread_create_some:
  assumes "alloc_ok s (alloc_next s)" "alloc_next s \<noteq> 0"
    "fst (alloc_pages stack_pages (page_alloc (memory_manager s))) \<noteq> invalid_physical_address"
  shows "fst (thread_create tr h p en st s) \<noteq> 0"
  using assms by (simp add: thread_create_def proc_kalloc_def Let_def split_beta)

lemma clone_nothing:
  assumes "\<forall>i \<in> set xs. \<not> has_flag (frames s src i) pte_present" "src \<noteq> dst"
  shows "fst (clone_user_entries src dst xs s) = dst \<and> page_alloc (snd (clone_user_entries src dst xs s)) = page_alloc s"
  using assms
proof (induction xs arbitrary: s)
  case (Cons i xs)
  have "\<forall>j \<in> set xs. \<not> has_flag (frames (set_entry dst i 0 s) src j) pte_present"
    using Cons.prems by (simp add: set_entry_def)
  from Cons.IH [OF this] show ?case using Cons.prems by (simp add: Let_def set_entry_def)
qed simp

lemma fold_set_entry_alloc: "page_alloc (fold (\<lambda>i s. set_entry d i (g s i) s) xs s) = page_alloc s"
  by (induction xs arbitrary: s) (simp_all add: set_entry_def)

lemma fold_set_entry_other: "src \<noteq> d \<Longrightarrow> frames (fold (\<lambda>i s. set_entry d i (g s i) s) xs s) src = frames s src"
  by (induction xs arbitrary: s) (simp_all add: set_entry_def)

lemma clone_empty_space:
  assumes "kernel_pml4_phys m \<noteq> 0" "alloc_page (page_alloc m) = (a, pm)" "a \<noteq> invalid_physical_address"
    "\<forall>i < 256. \<not> has_flag (frames m src i) pte_present" "src \<noteq> a"
  shows "fst (clone_address_space src m) = a \<and> page_alloc (snd (clone_address_space src m)) = pm"
proof -
  let ?m = "fold (\<lambda>i s. set_entry a i (frames s src i) s) [256 ..< 512] (m\<lparr>page_alloc := pm\<rparr>)"
  have "clone_address_space src m = clone_user_entries src a [0 ..< 256] ?m"
    using assms(1-3) by (simp add: clone_address_space_def vmm_alloc_page_def Let_def del: upt_rec_numeral)
  moreover have "frames ?m src = frames m src"
    using fold_set_entry_other [OF assms(5), of "\<lambda>s i. frames s src i"] by simp
  moreover have "page_alloc ?m = pm" using fold_set_entry_alloc [of a "\<lambda>s i. frames s src i"] by simp
  ultimately show ?thesis using clone_nothing [of "[0 ..< 256]" ?m src a] assms(4,5) by simp
qed

lemma fork_succeeds:
  assumes "par = thread_process (threads s th)" "par \<noteq> 0"
    "kernel_pml4_phys (memory_manager s) \<noteq> 0" "alloc_page (page_alloc (memory_manager s)) = (a, pm)" "a \<noteq> 0" "a \<noteq> invalid_physical_address"
    "\<forall>i < 256. \<not> has_flag (frames (memory_manager s) (pml4_phys (procs s par)) i) pte_present" "pml4_phys (procs s par) \<noteq> a"
    "\<forall>i. alloc_ok s i" "alloc_next s \<noteq> 0" "system_initialized s" "\<not> pid_used s 0"
    "fst (alloc_pages stack_pages pm) \<noteq> invalid_physical_address"
  shows "fst (sys_fork e th fr s) \<noteq> of_err (- ERR_PERM) \<and> fst (sys_fork e th fr s) \<noteq> of_err (- ERR_NO_MEM)"
proof -
  obtain m where cl: "clone_address_space (pml4_phys (procs s par)) (memory_manager s) = (a, m)" "page_alloc m = pm"
    using clone_empty_space [OF assms(3,4,6,7,8)] by (metis prod.collapse)
  obtain c s1 where pc: "process_create a par (with_mm m s) = (c, s1)" by fastforce
  have pid: "fst (pid_alloc (with_mm m s)) = fst (pid_alloc s)" by (rule pid_alloc_cong) simp_all
  obtain p where p: "p < max_pids" "fst (pid_alloc s) = of_nat p"
    using pid_alloc_cases [OF assms(11)] assms(12) by (metis max_pids_def zero_less_numeral)
  have small: "(of_nat p :: u64) < 32768"
    using p(1) by (simp add: word_less_nat_alt unat_of_nat take_bit_nat_eq_self max_pids_def)
  have err: "\<not> of_err (- ERR_PERM) < 32768" "\<not> of_err (- ERR_NO_MEM) < 32768" "\<not> invalid_pid < 32768"
    by code_simp+
  have "fst (process_create a par (with_mm m s)) \<noteq> 0"
    by (rule process_create_some) (use assms(9,10) pid p small err in \<open>auto simp: with_mm_def\<close>)
  then have c: "c \<noteq> 0" using pc by simp
  note P = process_create_new [OF pc c]
  define s2 where "s2 = set_proc c (fd_table_update (\<lambda>_. fd_table (procs s1 par))) s1"
  obtain ct s3 where tc: "thread_create (trampoline e) (hhdm e) c (fr_rip fr) (read_user_rsp s2) s2 = (ct, s3)" by fastforce
  have "memory_manager s2 = m" "alloc_ok s2 = alloc_ok s" "alloc_next s2 \<noteq> 0"
    using P(2,3) by (simp_all add: s2_def set_proc_def sched_part_def with_mm_def)
  then have "fst (thread_create (trampoline e) (hhdm e) c (fr_rip fr) (read_user_rsp s2) s2) \<noteq> 0"
    using thread_create_some assms(9,13) cl(2) by metis
  then have ct: "ct \<noteq> 0" using tc by simp
  note T = thread_create_new [OF tc ct]
  have "fst (sys_fork e th fr s) = pid (procs s3 c)"
    using tc c ct assms(1,2,5) cl pc
    by (simp add: sys_fork_def Let_def s2_def enqueue_keeps_procs fork_stack_def store_words_def)
      (simp add: set_proc_def set_task_def)
  also have "\<dots> = of_nat p" using T(2) P(4) pid p by (simp add: s2_def set_proc_def)
  finally show ?thesis using small err by metis
qed

definition example_pm :: pmm where
  "example_pm = \<lparr>page_bitmap = (\<lambda>i. if i = 0 then 1 else 0), page_refcounts = (\<lambda>_. 0),
     allocator_stats = \<lparr>managed_pages = 0, free_page_count = 0, used_page_count = 0,
       reclaimed_bootloader_pages = 0, skipped_pages = 0\<rparr>, next_search_page = 1\<rparr>"

lemma example_pm_allocs:
  "fst (alloc_page example_pm) = 0x1000" "fst (alloc_pages stack_pages (snd (alloc_page example_pm))) = 0x2000"
  by code_simp+

text \<open>The process 7, with thread 2, has the child 10, a zombie, and the parent 9, for whose child the task 5
  waits; 8 is the init process.\<close>

definition example_sys :: "unit sys" where
  "example_sys = proc_sys.extend (sched_sys.extend (example_sched\<lparr>alloc_next := 20,
       tasks := (tasks example_sched)(5 := example_task\<lparr>task_state := Blocked\<rparr>),
       memory_manager := \<lparr>frames = (\<lambda>_ _. 0), page_alloc = example_pm, kernel_pml4_phys = 0x9000, vmem_current = 0, vmem_end = 0\<rparr>\<rparr>)
     (proc_sys.fields (\<lambda>_. 0) 0 8 True
       (\<lambda>p. if p = 7 then zero_process\<lparr>pid := 1, parent := 9, child_head := 10, child_tail := 10, pml4_phys := 0x9000\<rparr>
            else if p = 9 then zero_process\<lparr>pid := 2, wait_task := 5\<rparr>
            else if p = 10 then zero_process\<lparr>pid := 3, parent := 7, proc_state := Zombie\<rparr> else zero_process)
       (\<lambda>_. \<lparr>thread_process = 7, user_rsp = 0, user_rip = 0, user_rsp0 = 0, thread_next = 0, thread_prev = 0\<rparr>)))
     (sys.fields \<lparr>vnodes = (\<lambda>_. \<lparr>vnode_type = File, vnode_ops = 0, private_data = 0, ref_count = 0, mount_parent = 0\<rparr>),
        mount_table = [], kernel_fd_table = [], process_fd_table = (\<lambda>_. []), current_process = None, root_vnode = 0,
        initialized = False, fs_data = ()\<rparr> example_keyboard example_terminal [])"

lemmas example_sys_defs = example_sys_def proc_sys.defs sched_sys.defs sys.defs

definition example_frame :: SyscallFrame where
  "example_frame = \<lparr>fr_rip = 0x400000, fr_rflags = 0, fr_rdi = 0, fr_rsi = 0, fr_rdx = 0, fr_r10 = 0, fr_r8 = 0, fr_r9 = 0,
     fr_rbx = 0, fr_rbp = 0, fr_r12 = 0, fr_r13 = 0, fr_r14 = 0, fr_r15 = 0, fr_rax = 2, fr_rsp = 0\<rparr>"

definition example_env :: "unit env" where
  "example_env = \<lparr>optab = (\<lambda>_. \<lparr>op_lookup = (\<lambda>_ _ _. None), op_create = (\<lambda>_ _ _. None), op_mkdir = None,
       op_rmdir = (\<lambda>_ _ _. None), op_unlink = (\<lambda>_ _ _. None), op_read = None, op_write = None, op_readdir = None, op_stat = None\<rparr>),
     hhdm = 0xFFFF800000000000, trampoline = 0xFFFFFFFF80001000, fork_return = 0xFFFFFFFF80002000,
     blank_stat = \<lparr>stat_type = File, stat_size = 0\<rparr>, others = (\<lambda>s. s)\<rparr>"

lemma example_sys_fields:
  "thread_process (threads example_sys th) = 7" "alloc_next example_sys = 20" "wait_task (procs example_sys 9) = 5"
  "parent (procs example_sys 7) = 9" "parent (procs example_sys 10) = 7" "states example_sys 5 = Blocked"
  "find_init_process example_sys = Some 8" "idle_task example_sys = 1" "pid (procs example_sys 10) = 3"
  "proc_state (procs example_sys 10) = Zombie"
  by (simp_all add: example_sys_defs states_def find_init_process_def find_process_def example_sched_def zero_process_def find_from.simps)

lemma example_sys_lists:
  "children example_sys 7 [10]" "children example_sys 8 []" "sched_ok example_sys 2 [3, 1]" "ready example_sys [3, 1]"
  by (simp_all add: children_def dlist_def child_links example_sys_defs zero_process_def sched_ok_def ready_def task_views
      current_task_def example_sched_def example_task_def CONFIG_MAX_CPUS_def)

text \<open>C23. A successful \<open>fork\<close> returns the identifier of a new process that is a live child of the caller with
  its descriptors; its thread is last in the ready queue and has the child's page tables.  When it runs
  for the first time it continues at \<open>fork_return\<close> with the stack pointer at a copy of the caller's frame
  in which the return value is 0.\<close>

theorem fork_child_resumes:
  assumes "sys_fork e th fr s = (r, t)" "r \<noteq> of_err (- ERR_PERM)" "r \<noteq> of_err (- ERR_NO_MEM)"
    and "par = thread_process (threads s th)" "par < alloc_next s" "ready s q" "\<forall>x \<in> set q. x < alloc_next s"
  shows "\<exists>c ct. r = pid (procs t c) \<and> parent (procs t c) = par \<and> proc_state (procs t c) = Alive
    \<and> fd_table (procs t c) = fd_table (procs s par) \<and> thread_list (procs t c) = ct
    \<and> thread_process (threads t ct) = c \<and> task_cr3 (tasks t ct) = pml4_phys (procs t c) \<and> ready t (q @ [ct])
    \<and> (let run = cpu (restore_context (task_context (tasks t ct)) (task_cr3 (tasks t ct)) t) in
        cpu_rip run = fork_return e
        \<and> (\<forall>i < 16. words t (cpu_rsp run + 8 * of_nat i) = frame_words (fr\<lparr>fr_rax := 0, fr_rsp := read_user_rsp s\<rparr>) ! i))"
proof -
  obtain pm4 m where cl: "clone_address_space (pml4_phys (procs s par)) (memory_manager s) = (pm4, m)" by fastforce
  obtain c s1 where pc: "process_create pm4 par (with_mm m s) = (c, s1)" by fastforce
  define s2 where "s2 = set_proc c (fd_table_update (\<lambda>_. fd_table (procs s1 par))) s1"
  obtain ct s3 where tc: "thread_create (trampoline e) (hhdm e) c (fr_rip fr) (read_user_rsp s2) s2 = (ct, s3)" by fastforce
  define fc where "fc = fr\<lparr>fr_rax := 0, fr_rsp := read_user_rsp s2\<rparr>"
  define s4 where "s4 = fork_stack (fork_return e) ct fc s3"
  define s5 where "s5 = set_proc c (thread_list_update (\<lambda>_. ct)) s4"
  have "sys_fork e th fr s = (if par = 0 then (of_err (- ERR_PERM), s) else if pm4 = 0 then (of_err (- ERR_NO_MEM), with_mm m s)
    else if c = 0 then (of_err (- ERR_NO_MEM), with_mm (free_address_space pm4 (memory_manager s1)) s1)
    else if ct = 0 then (of_err (- ERR_NO_MEM), with_mm (free_address_space pm4 (memory_manager s3))
      (set_proc c (proc_state_update (\<lambda>_. Dead)) s3))
    else (pid (procs (sched_enqueue ct s5) c), sched_enqueue ct s5))"
    using tc by (simp add: sys_fork_def Let_def assms(4) [symmetric] cl pc s5_def s4_def fc_def s2_def)
  then have nz: "par \<noteq> 0" "c \<noteq> 0" "ct \<noteq> 0" and t: "t = sched_enqueue ct s5" "r = pid (procs t c)"
    using assms(1-3) by (auto split: if_splits)
  note P = process_create_new [OF pc nz(2)] and T = thread_create_new [OF tc nz(3)]
  have part: "rn s2 = rn s" "rp s2 = rp s" "rq_head s2 = rq_head s" "rq_tail s2 = rq_tail s" "percpu s2 = percpu s" "lapic s2 = lapic s"
    using P(3) by (simp_all add: s2_def sched_part_def set_proc_def rn_def rp_def)
  have rsp: "read_user_rsp s2 = read_user_rsp s" using part by (simp add: read_user_rsp_def)
  have cp: "par \<noteq> c" "fd_table (procs s1 par) = fd_table (procs s par)"
    using P(1) P(9) [of par] assms(5) by (auto simp: same_process_def)
  have s4: "procs s4 = procs s3" "threads s4 = threads s3" "task_cr3 (tasks s4 ct) = task_cr3 (tasks s3 ct)"
    "ready s4 = ready s3"
    by (auto simp: s4_def fork_stack_def store_words_def Let_def set_task_def task_views intro!: readyI)
  have "ready s3 = ready s" by (rule readyI) (simp_all add: T part)
  then have "ready s5 q" using assms(6) s4 by (simp add: s5_def)
  moreover have "ct \<notin> set q" using T(1) P(1,2) assms(7) by (auto simp: s2_def)
  ultimately have "ready t (q @ [ct])" unfolding t by (intro enqueue_ready) (use nz in simp_all)
  moreover have tt: "procs t = procs s5" "threads t = threads s3" "words t = words s4"
    "task_context (tasks t ct) = task_context (tasks s4 ct)" "task_cr3 (tasks t ct) = task_cr3 (tasks s3 ct)"
    unfolding t using s4 by (simp_all add: enqueue_keeps enqueue_keeps_procs) (simp_all add: s5_def set_proc_def)
  moreover have "procs s5 c = (procs s1 c)\<lparr>fd_table := fd_table (procs s par), thread_list := ct\<rparr>"
    using cp s4 T(2) by (simp add: s5_def set_proc_def s2_def)
  moreover have "thread_process (threads s3 ct) = c" "task_cr3 (tasks s3 ct) = pml4_phys (procs s2 c)"
    using T(5,8) nz by simp_all
  moreover have "pml4_phys (procs s2 c) = pml4_phys (procs s1 c)" by (simp add: s2_def set_proc_def)
  moreover note fork_stack_words [OF refl s4_def [unfolded fc_def rsp]]
  ultimately show ?thesis using t(2) P(5-8)
    by (intro exI [of _ c] exI [of _ ct]) (simp add: restore_context_def Let_def)
qed

theorem fork_child_resumes_witness:
  "\<exists>r t c ct. sys_fork example_env 2 example_frame example_sys = (r, t) \<and> r = pid (procs t c) \<and> parent (procs t c) = 7
    \<and> ready t [3, 1, ct]
    \<and> cpu_rip (cpu (restore_context (task_context (tasks t ct)) (task_cr3 (tasks t ct)) t)) = 0xFFFFFFFF80002000"
proof -
  obtain r t where f: "sys_fork example_env 2 example_frame example_sys = (r, t)" by fastforce
  have "fst (sys_fork example_env 2 example_frame example_sys) \<noteq> of_err (- ERR_PERM)
    \<and> fst (sys_fork example_env 2 example_frame example_sys) \<noteq> of_err (- ERR_NO_MEM)"
    by (rule fork_succeeds [where a = "0x1000" and pm = "snd (alloc_page example_pm)"])
      (use example_pm_allocs in \<open>auto simp: example_sys_defs example_sched_def zero_process_def has_flag_def pid_used_def
        invalid_physical_address_def prod_eq_iff\<close>)
  then show ?thesis
    using fork_child_resumes [OF f, of 7 "[3, 1]"] f example_sys_fields(1,2) example_sys_lists(4) by (simp add: Let_def example_env_def) blast
qed

definition example_regs :: UserRegs where
  "example_regs = \<lparr>ur_rax = 2, ur_rcx = 0x400000, ur_r11 = 0x202, ur_rdi = 1, ur_rsi = 2, ur_rdx = 3, ur_r10 = 4, ur_r8 = 5,
     ur_r9 = 6, ur_rbx = 7, ur_rbp = 8, ur_r12 = 9, ur_r13 = 10, ur_r14 = 11, ur_r15 = 12, ur_rsp = 0x7FFF0000\<rparr>"

text \<open>A program with base 0 on the first processor, whose area is at \<open>0xffffffff80100000\<close>.\<close>

theorem syscall_preserves_registers_witness:
  "\<exists>sp s1 s3. let g = \<lparr>active_gs = 0, shadow_gs = 0xffffffff80100000\<rparr> in
     syscall_entry 0xffffffff80100000 example_regs g example_sched = Some (2, sp, swap_gs g, s1)
     \<and> syscall_return 0xffffffff80100000 77 sp (swap_gs g) s1 = Some (example_regs\<lparr>ur_rax := 77\<rparr>, g, s3)"
proof -
  let ?g = "\<lparr>active_gs = 0, shadow_gs = 0xffffffff80100000\<rparr>"
  have a: "shadow_gs ?g = percpu_address 0xffffffff80100000 0" "0 < CONFIG_MAX_CPUS"
    "active_gs (swap_gs ?g) = percpu_address 0xffffffff80100000 0"
    by (simp_all add: percpu_address_def CONFIG_MAX_CPUS_def swap_gs_def)
  note p = syscall_preserves_registers [OF a(1,2,3,2), of example_regs example_sched _ 77]
  obtain sp s1 where e: "syscall_entry 0xffffffff80100000 example_regs ?g example_sched = Some (ur_rax example_regs, sp, swap_gs ?g, s1)"
    using p by blast
  with p [of s1] obtain s3 where
    "syscall_return 0xffffffff80100000 77 sp (swap_gs ?g) s1 = Some (example_regs\<lparr>ur_rax := 77\<rparr>, swap_gs (swap_gs ?g), s3)" by auto
  moreover have "swap_gs (swap_gs ?g) = ?g" "ur_rax example_regs = 2" by (simp_all add: swap_gs_def example_regs_def)
  ultimately show ?thesis using e by (intro exI [of _ sp] exI [of _ s1] exI [of _ s3]) (simp add: Let_def)
qed

section \<open>Waiting\<close>

text \<open>The child that \<open>waitpid\<close> takes: the first zombie, or the first process with the identifier when that
  is a zombie.\<close>

definition pick_zombie :: "int \<Rightarrow> ptr list \<Rightarrow> 'a proc_sys_scheme \<Rightarrow> ptr option" where
  "pick_zombie target xs s =
     (case find (\<lambda>c. wanted target c s \<and> (target > 0 \<or> proc_state (procs s c) = Zombie)) xs of
        Some c \<Rightarrow> if proc_state (procs s c) = Zombie then Some c else None
      | None \<Rightarrow> None)"

lemma find_zombie_picks:
  assumes "seg (cn s) (cp s) b xs 0" "0 \<notin> set xs"
  shows "find_zombie target (hd_or xs 0) s = Some (case pick_zombie target xs s of None \<Rightarrow> 0 | Some c \<Rightarrow> c)"
  using assms
proof (induction xs arbitrary: b)
  case (Cons x xs)
  then have "child_next (procs s x) = hd_or xs 0" "x \<noteq> 0" by (auto simp: cn_def)
  then show ?case using Cons by (subst find_zombie.simps) (auto simp: pick_zombie_def)
qed (simp add: find_zombie.simps pick_zombie_def)

lemma has_children_finds:
  assumes "seg (cn s) (cp s) b xs 0" "0 \<notin> set xs"
  shows "has_children target (hd_or xs 0) s = Some (\<exists>c \<in> set xs. wanted target c s)"
  using assms
proof (induction xs arbitrary: b)
  case (Cons x xs)
  then have "child_next (procs s x) = hd_or xs 0" "x \<noteq> 0" by (auto simp: cn_def)
  then show ?case using Cons by (subst has_children.simps) auto
qed (simp add: has_children.simps)

lemma pick_in: "pick_zombie target xs s = Some z \<Longrightarrow> z \<in> set xs \<and> wanted target z s \<and> proc_state (procs s z) = Zombie"
  by (auto simp: pick_zombie_def find_Some_iff split: option.splits if_splits)

text \<open>Reaping takes the process out of the children of its parent.\<close>

lemma children_cong:
  "cn s = cn t \<Longrightarrow> cp s = cp t \<Longrightarrow> ch s = ch t \<Longrightarrow> ct s = ct t \<Longrightarrow> children s p xs = children t p xs"
  by (simp add: children_def)

lemma children_procs: "procs s = procs t \<Longrightarrow> children s p xs = children t p xs"
  by (rule children_cong) (simp_all add: child_links)

lemma unlink_global_links:
  "cn (unlink_global p s) = cn s" "cp (unlink_global p s) = cp s" "ch (unlink_global p s) = ch s" "ct (unlink_global p s) = ct s"
  by (auto simp: unlink_global_def set_proc_def Let_def child_links)

lemma reap_children:
  assumes "children s par (ys @ z # zs)" "proc_state (procs s z) = Zombie" "parent (procs s z) = par" "par \<noteq> 0"
  shows "children (reap_process z s) par (ys @ zs)" "freed (reap_process z s) z"
proof -
  have z: "z \<noteq> 0" using assms(1) by (auto simp: children_def dlist_def)
  have "cn (reap_process z s) = cn (unlink_child par z s)" "cp (reap_process z s) = cp (unlink_child par z s)"
    "ch (reap_process z s) = ch (unlink_child par z s)" "ct (reap_process z s) = ct (unlink_child par z s)"
    using assms(2-4) z unlink_global_links [of z "unlink_child par z s"]
    by (simp_all add: reap_process_def Let_def proc_kfree_def pid_free_def child_links)
  then show "children (reap_process z s) par (ys @ zs)"
    using unlink_child_removes [OF assms(1)] children_cong by metis
  show "freed (reap_process z s) z" using assms(2) z by (simp add: reap_process_def Let_def proc_kfree_def)
qed

lemma user_store_mm: "user_store a b s = Some t \<Longrightarrow> \<exists>m. t = with_mm m s"
  by (auto simp: user_store_def split: option.splits if_splits)

lemma user_stores_mm: "user_stores a bs s = Some t \<Longrightarrow> \<exists>m. t = with_mm m s"
proof (induction bs arbitrary: a s)
  case Nil
  then show ?case by (auto simp: with_mm_def intro: exI [of _ "memory_manager s"])
next
  case (Cons b bs)
  then obtain u where "user_store a b s = Some u" "user_stores (a + 1) bs u = Some t" by (auto split: bind_splits)
  then obtain m m' where "u = with_mm m s" "t = with_mm m' u" using user_store_mm Cons.IH by blast
  then show ?case by (auto simp: with_mm_def)
qed

lemma children_with_mm: "children (with_mm m s) p xs = children s p xs"
  by (rule children_cong) (simp_all add: child_links)

lemma reap_zombie_result:
  assumes "reap_zombie z a s = Some (r, t)" "children s par xs" "z \<in> set xs" "proc_state (procs s z) = Zombie"
    "parent (procs s z) = par" "par \<noteq> 0"
  shows "r = of_err (to_int (pid (procs s z))) \<and> children t par (remove1 z xs) \<and> freed t z"
proof -
  obtain m where t: "t = reap_process z (with_mm m s)" "r = of_err (to_int (pid (procs s z)))"
  proof (cases "a = 0")
    case True
    then have "t = reap_process z (with_mm (memory_manager s) s)" "r = of_err (to_int (pid (procs s z)))"
      using assms(1) by (simp_all add: reap_zombie_def with_mm_def)
    then show ?thesis by (rule that)
  next
    case False
    then obtain u where "user_stores a (int_bytes (exit_status (procs s z))) s = Some u" "t = reap_process z u"
      "r = of_err (to_int (pid (procs u z)))"
      using assms(1) by (auto simp: reap_zombie_def split: bind_splits)
    then show ?thesis using that user_stores_mm by fastforce
  qed
  obtain ys zs where xs: "xs = ys @ z # zs" "z \<notin> set ys" using assms(3) by (meson split_list_first)
  then have "children (with_mm m s) par (ys @ z # zs)" using assms(2) by (simp add: children_with_mm)
  from reap_children [OF this] show ?thesis using assms xs t by (simp add: remove1_append)
qed

text \<open>C25. \<open>waitpid\<close> looks at the children in order.  It reaps the child it looks for when that is a zombie:
  it stores the status, returns the identifier, takes exactly that process out of the list of children
  and frees it.  Without a child to wait for it fails with \<open>E_CHILD\<close>, with \<open>WNOHANG\<close> it returns 0, and
  otherwise the caller is recorded as waiting, blocks, and looks again when it runs again.\<close>

theorem waitpid_correct:
  assumes "proc = thread_process (threads s th)" "proc \<noteq> 0" "children s proc xs"
    and "\<forall>c \<in> set xs. parent (procs s c) = proc" "target = to_int (fr_rdi fr)"
  shows "case pick_zombie target xs s of
      Some z \<Rightarrow> sys_waitpid e th fr s = reap_zombie z (fr_rsi fr) s
        \<and> (\<forall>r t. reap_zombie z (fr_rsi fr) s = Some (r, t) \<longrightarrow>
            r = of_err (to_int (pid (procs s z))) \<and> children t proc (remove1 z xs) \<and> freed t z)
    | None \<Rightarrow> sys_waitpid e th fr s =
        (if \<not> (\<exists>c \<in> set xs. wanted target c s) then Some (of_err (- ERR_CHILD), s)
         else if to_int (fr_rdx fr) AND 1 \<noteq> 0 then Some (0, s)
         else waitpid_loop e proc target (fr_rsi fr) (to_int (fr_rdx fr))
           (others e (block (set_proc proc (wait_task_update (\<lambda>_. current_task s)) s))))"
proof -
  have h: "child_head (procs s proc) = hd_or xs 0" "seg (cn s) (cp s) 0 xs 0" "0 \<notin> set xs"
    using assms(3) by (simp_all add: children_def dlist_def ch_def)
  note f = find_zombie_picks [OF h(2,3), of target] and c = has_children_finds [OF h(2,3), of target]
  have w: "sys_waitpid e th fr s = waitpid_loop e proc target (fr_rsi fr) (to_int (fr_rdx fr)) s"
    using assms(1,2,5) by (simp add: sys_waitpid_def Let_def)
  show ?thesis
  proof (cases "pick_zombie target xs s")
    case None
    then show ?thesis unfolding w by (subst waitpid_loop.simps) (simp add: h(1) f c)
  next
    case (Some z)
    note z = pick_in [OF Some]
    then have "z \<noteq> 0" using h(3) by metis
    then have "sys_waitpid e th fr s = reap_zombie z (fr_rsi fr) s"
      unfolding w by (subst waitpid_loop.simps) (simp add: h(1) f Some)
    then show ?thesis using Some z reap_zombie_result [OF _ assms(3), of z] assms(2,4) by simp
  qed
qed

theorem waitpid_correct_witness:
  "\<exists>t. sys_waitpid example_env 2 example_frame example_sys = Some (3, t) \<and> children t 7 [] \<and> freed t 10"
proof -
  have p: "pick_zombie 0 [10] example_sys = Some 10"
    by (simp add: pick_zombie_def wanted_def example_sys_fields)
  have f: "fr_rsi example_frame = 0" "to_int (fr_rdi example_frame) = 0" by (simp_all add: example_frame_def to_int_def)
  have "reap_zombie 10 0 example_sys = Some (3, reap_process 10 example_sys)"
    by (simp add: reap_zombie_def example_sys_fields of_err_def to_int_def)
  then show ?thesis
    using waitpid_correct [of 7 example_sys 2 "[10]" 0 example_frame example_env] example_sys_fields example_sys_lists p f by simp
qed

text \<open>The kernel cannot store the status into a page that \<open>fork\<close> made copy-on-write: the store faults in
  kernel mode, the handler of such faults asks for the user bit and refuses, and \<open>waitpid\<close> has no result.\<close>

theorem waitpid_cow_panics:
  assumes "proc = thread_process (threads s th)" "proc \<noteq> 0" "children s proc xs"
    and "pick_zombie (to_int (fr_rdi fr)) xs s = Some z" "fr_rsi fr \<noteq> 0"
    and "translate (memory_manager s) (cpu_cr3 (cpu s)) (fr_rsi fr) = Some (pa, flags, lf)" "\<not> has_flag flags pte_writable"
  shows "sys_waitpid e th fr s = None \<and> handle_cow_fault (fr_rsi fr) 3 (cpu_cr3 (cpu s)) m = (False, m)"
proof -
  have h: "child_head (procs s proc) = hd_or xs 0" "seg (cn s) (cp s) 0 xs 0" "0 \<notin> set xs"
    using assms(3) by (simp_all add: children_def dlist_def ch_def)
  have z: "z \<noteq> 0" using pick_in [OF assms(4)] h(3) by metis
  have "int_bytes i \<noteq> []" for i by (simp add: int_bytes_def)
  then obtain b bs where b: "int_bytes (exit_status (procs s z)) = b # bs" by (meson list.exhaust)
  have "user_store (fr_rsi fr) b s = None" using assms(6,7) by (simp add: user_store_def)
  then have "reap_zombie z (fr_rsi fr) s = None" using assms(5) b by (simp add: reap_zombie_def)
  moreover have "sys_waitpid e th fr s = waitpid_loop e proc (to_int (fr_rdi fr)) (fr_rsi fr) (to_int (fr_rdx fr)) s"
    using assms(1,2) by (simp add: sys_waitpid_def Let_def)
  ultimately have "sys_waitpid e th fr s = None"
    using z find_zombie_picks [OF h(2,3), of "to_int (fr_rdi fr)"] by (subst (asm) waitpid_loop.simps) (simp add: h(1) assms(4))
  moreover have "(3 :: u64) AND 7 \<noteq> 7" by simp
  ultimately show ?thesis by (simp add: handle_cow_fault_def)
qed

definition example_cow :: "unit sys" where
  "example_cow = example_sys\<lparr>memory_manager := (memory_manager example_sys)\<lparr>frames := (\<lambda>p i.
       if p = 0x9000 then 0xA007 else if p = 0xA000 then 0xB007 else if p = 0xB000 then 0xC007 else 0xD205)\<rparr>,
     cpu := (cpu example_sys)\<lparr>cpu_cr3 := 0x9000\<rparr>\<rparr>"

theorem waitpid_cow_panics_witness:
  "sys_waitpid example_env 2 (example_frame\<lparr>fr_rsi := 0x7000\<rparr>) example_cow = None"
proof -
  have f: "to_int (fr_rdi (example_frame\<lparr>fr_rsi := 0x7000\<rparr>)) = 0" by (simp add: example_frame_def to_int_def)
  have e: "procs example_cow = procs example_sys" "threads example_cow = threads example_sys" by (simp_all add: example_cow_def)
  then have "children example_cow 7 [10]" using example_sys_lists(1) children_procs by metis
  moreover have "pick_zombie 0 [10] example_cow = Some 10"
    by (simp add: pick_zombie_def wanted_def e example_sys_fields)
  moreover have "\<exists>pa fl lf. translate (memory_manager example_cow) (cpu_cr3 (cpu example_cow)) 0x7000 = Some (pa, fl, lf)
      \<and> \<not> has_flag fl pte_writable"
    by (simp add: example_cow_def translate_def page_path_def has_flag_def pte_present_def pte_huge_def pte_addr_mask_def
        pte_writable_def pte_user_def numeral_3_eq_3 Let_def lookup.simps)
  ultimately show ?thesis
    using waitpid_cow_panics [of 7 example_cow 2 "[10]" "example_frame\<lparr>fr_rsi := 0x7000\<rparr>" 10] e example_sys_fields f by auto
qed

section \<open>Exit\<close>

text \<open>What the scheduler sees of the state.\<close>

lemma sched_ok_of_truncate: "sched_ok (sched_sys.truncate s) c q = sched_ok s c q"
  by (simp add: sched_ok_def ready_def task_views current_task_def sched_sys.defs)

lemma sched_ok_truncate: "sched_sys.truncate s = sched_sys.truncate t \<Longrightarrow> sched_ok s c q = sched_ok t c q"
  using sched_ok_of_truncate [of s] sched_ok_of_truncate [of t] by simp

lemma states_truncate: "sched_sys.truncate s = sched_sys.truncate t \<Longrightarrow> states s = states t"
  by (simp add: states_def sched_sys.defs)

lemma truncate_set_proc [simp]: "sched_sys.truncate (set_proc p f s) = sched_sys.truncate s"
  by (simp add: set_proc_def sched_sys.defs)

lemma truncate_links [simp]:
  "sched_sys.truncate (link_child p c s) = sched_sys.truncate s" "sched_sys.truncate (unlink_child p c s) = sched_sys.truncate s"
  by (simp_all add: link_child_def unlink_child_def Let_def)

text \<open>Moving children changes links and parents only.\<close>

definition life :: "Process \<Rightarrow> u64 \<times> ProcessState \<times> int \<times> ptr" where
  "life p = (pid p, proc_state p, exit_status p, wait_task p)"

lemma life_set_proc [simp]:
  "life (procs (set_proc p (child_next_update f) s) q) = life (procs s q)"
  "life (procs (set_proc p (child_prev_update f) s) q) = life (procs s q)"
  "life (procs (set_proc p (child_head_update f) s) q) = life (procs s q)"
  "life (procs (set_proc p (child_tail_update f) s) q) = life (procs s q)"
  "life (procs (set_proc p (parent_update f) s) q) = life (procs s q)"
  by (simp_all add: set_proc_def life_def)

lemma life_links [simp]:
  "life (procs (link_child p c s) q) = life (procs s q)" "life (procs (unlink_child p c s) q) = life (procs s q)"
  by (simp_all add: link_child_def unlink_child_def Let_def)

lemma reparent_from_frame:
  assumes "reparent_from d n c s = Some t"
  shows "sched_sys.truncate t = sched_sys.truncate s \<and> (\<forall>q. life (procs t q) = life (procs s q))"
proof -
  let ?P = "\<lambda>d n c s t. sched_sys.truncate t = sched_sys.truncate s \<and> (\<forall>q. life (procs t q) = life (procs s q))"
  show ?thesis
  proof (rule reparent_from.raw_induct [of ?P, OF _ assms])
    fix loop :: "ptr \<Rightarrow> ptr \<Rightarrow> ptr \<Rightarrow> 'a proc_sys_scheme \<Rightarrow> 'a proc_sys_scheme option" and d n c s t
    assume IH: "\<And>d n c s t. loop d n c s = Some t \<Longrightarrow> ?P d n c s t"
      and eq: "(if c = 0 then Some s else loop d n (child_next (procs s c))
        (link_child n c (set_proc c (parent_update (\<lambda>_. n)) (unlink_child d c s)))) = Some t"
    show "?P d n c s t"
    proof (cases "c = 0")
      case False
      then show ?thesis using eq IH by fastforce
    qed (use eq in simp)
  qed
qed

lemma find_from_set_proc:
  assumes "find_from n cur s = Some y" "\<And>x. pid (f x) = pid x" "\<And>x. list_next (f x) = list_next x"
  shows "find_from n cur (set_proc p f s) = Some y"
proof (rule find_from.raw_induct [of "\<lambda>n cur s y. find_from n cur (set_proc p f s) = Some y", OF _ assms(1)])
  fix loop :: "u64 \<Rightarrow> ptr \<Rightarrow> 'a proc_sys_scheme \<Rightarrow> ptr option" and n cur s y
  assume IH: "\<And>n cur s y. loop n cur s = Some y \<Longrightarrow> find_from n cur (set_proc p f s) = Some y"
    and eq: "(if cur = 0 then Some 0 else if pid (procs s cur) = n then Some cur
      else loop n (list_next (procs s cur)) s) = Some y"
  have e: "pid (procs (set_proc p f s) cur) = pid (procs s cur)" "list_next (procs (set_proc p f s) cur) = list_next (procs s cur)"
    using assms(2,3) by (simp_all add: set_proc_def)
  show "find_from n cur (set_proc p f s) = Some y"
    using IH eq by (subst find_from.simps) (auto simp: e split: if_splits)
qed

lemma set_proc_children:
  assumes "\<And>x. child_next (f x) = child_next x" "\<And>x. child_prev (f x) = child_prev x"
    "\<And>x. child_head (f x) = child_head x" "\<And>x. child_tail (f x) = child_tail x"
  shows "children (set_proc p f s) q xs = children s q xs"
  using assms by (intro children_cong) (auto simp: child_links set_proc_def)

lemma set_task_procs [simp]: "procs (set_task t f s) = procs s" "threads (set_task t f s) = threads s"
  by (simp_all add: set_task_def)

lemma push_procs [simp]: "procs (ready_queue_push t s) = procs s" "procs (snd (ready_queue_pop s)) = procs s"
  by (simp_all add: ready_queue_push_def ready_queue_pop_def Let_def set_task_def)

lemma switch_procs [simp]: "procs (switch_to c n s) = procs s"
  by (auto simp: switch_to_def context_switch_def save_context_def restore_context_def set_current_task_def
      set_kernel_entry_stack_def set_task_def Let_def)

lemma schedule_procs [simp]:
  "procs (schedule_internal s) = procs s" "procs (wake t s) = procs s" "procs (block s) = procs s"
proof -
  show p: "procs (schedule_internal s) = procs s" for s :: "'a proc_sys_scheme"
    by (simp add: schedule_internal_def split_beta Let_def)
  show "procs (wake t s) = procs s" by (simp add: wake_def)
  show "procs (block s) = procs s" by (simp add: block_def p)
qed

text \<open>A task that ends through \<open>block\<close>.\<close>

lemma exit_leaves:
  assumes "sched_ok s th q" "th \<noteq> idle_task s"
  defines "t \<equiv> block (set_task th (task_state_update (\<lambda>_. TaskDead)) s)"
  shows "sched_ok t (hd q) (tl q)" "states t th = Blocked" "q \<noteq> []"
proof -
  have c: "current_task s = th" "th \<noteq> 0" "lapic s < CONFIG_MAX_CPUS" "th \<notin> set q" using assms(1) by (auto simp: sched_ok_def)
  let ?u = "set_task th (task_state_update (\<lambda>_. Blocked)) s"
  have "set_task th (task_state_update (\<lambda>_. Blocked)) (set_task th (task_state_update (\<lambda>_. TaskDead)) s) = ?u"
    by (simp add: set_task_def)
  then have t: "t = schedule_internal ?u" using c by (simp add: t_def block_def)
  obtain n q' where q: "q = n # q'" "sched_ok t n q'" using leave_turn [OF assms(1,2), of "\<lambda>_. Blocked"] t by auto
  then show "sched_ok t (hd q) (tl q)" "q \<noteq> []" by simp_all
  have "ready ?u (n # q')" using assms(1) q by (simp add: sched_ok_def)
  then show "states t th = Blocked" using schedule_next(3) [of ?u n q'] c q by (simp add: t)
qed

text \<open>C24. An exiting process becomes a zombie with its status; its children go to the init process in order;
  a parent that waits for it is made ready; and the scheduler goes on with the next task.  The task of
  the process is left marked as blocked, not as dead.\<close>

theorem sys_exit_correct:
  assumes "sched_ok s th q" "th \<noteq> idle_task s" "p = thread_process (threads s th)" "p \<noteq> 0"
    and "find_init_process s = Some ini" "ini \<noteq> 0" "ini \<noteq> p" "children s p xs" "children s ini ys" "set xs \<inter> set ys = {}"
    and "p \<notin> set xs" "par = parent (procs s p)" "par \<noteq> 0"
    and "w = wait_task (procs s par)" "w \<noteq> 0" "w < alloc_next s" "states s w = Blocked"
  shows "\<exists>t. sys_exit th fr s = Some (0, t) \<and> sched_ok t (hd (q @ [w])) (tl (q @ [w])) \<and> states t th = Blocked
    \<and> proc_state (procs t p) = Zombie \<and> exit_status (procs t p) = to_int (fr_rdi fr)
    \<and> children t p [] \<and> children t ini (ys @ xs) \<and> (\<forall>c \<in> set xs. parent (procs t c) = ini) \<and> wait_task (procs t par) = 0"
proof -
  define f where "f = (\<lambda>x :: Process. x\<lparr>exit_status := to_int (fr_rdi fr), proc_state := Zombie\<rparr>)"
  define s1 where "s1 = set_proc p f s"
  have init: "find_init_process s1 = Some ini"
    using find_from_set_proc [of 0 "process_list s" s ini f p] assms(5)
    by (simp add: find_init_process_def find_process_def s1_def f_def)
  have ch1: "children s1 q' zs = children s q' zs" for q' zs
    unfolding s1_def by (rule set_proc_children) (simp_all add: f_def)
  obtain s2 where r: "reparent_from p ini (hd_or xs 0) s1 = Some s2" and ch: "children s2 p []" "children s2 ini (ys @ xs)"
    and pa: "\<forall>c. parent (procs s2 c) = (if c \<in> set xs then ini else parent (procs s1 c))"
    using reparent_from_moves [of s1 p xs ini ys] assms(7-10) ch1 by auto
  have rc: "reparent_children p ini s1 = Some s2"
    using r assms(4,6) ch1 [of p xs] assms(8) by (simp add: reparent_children_def children_def dlist_def ch_def)
  note F = reparent_from_frame [OF r]
  have tr: "sched_sys.truncate s2 = sched_sys.truncate s" using F by (simp add: s1_def)
  have L: "life (procs s2 x) = life (procs s1 x)" for x using F by blast
  have par2: "parent (procs s2 p) = par" using pa assms(11,12) by (simp add: s1_def set_proc_def f_def)
  have w2: "wait_task (procs s2 par) = w"
    using L [of par] assms(14) by (auto simp: life_def s1_def set_proc_def f_def)
  define s3 where "s3 = set_proc par (wait_task_update (\<lambda>_. 0)) (wake w s2)"
  define t where "t = block (set_task th (task_state_update (\<lambda>_. TaskDead)) s3)"
  have "sched_ok s2 th q" using assms(1) sched_ok_truncate [OF tr] by simp
  moreover have "alloc_next s2 = alloc_next s" "idle_task s2 = idle_task s" using tr by (simp_all add: sched_sys.defs)
  moreover have "states s2 = states s" using tr by (rule states_truncate)
  ultimately have wk: "sched_ok (wake w s2) th (q @ [w])" using assms(15-17) by (intro wake_queues) simp_all
  then have s3: "sched_ok s3 th (q @ [w])" using sched_ok_truncate [of s3 "wake w s2"] by (simp add: s3_def)
  have "idle_task (wake w s2) = idle_task s2" by (simp add: wake_def)
  then have "idle_task s3 = idle_task s" using \<open>idle_task s2 = idle_task s\<close> by (simp add: s3_def set_proc_def)
  then have x: "sched_ok t (hd (q @ [w])) (tl (q @ [w]))" "states t th = Blocked"
    using exit_leaves [OF s3] assms(2) by (simp_all add: t_def)
  have "sys_exit th fr s = Some (0, t)"
    using assms(3,4,6,7,13,15) init rc par2 w2 by (simp add: sys_exit_def Let_def s1_def f_def s3_def t_def)
  moreover have pr: "procs t = (procs s2)(par := (procs s2 par)\<lparr>wait_task := 0\<rparr>)"
    by (simp add: t_def s3_def set_proc_def)
  moreover have "children t q' zs = children s2 q' zs" for q' zs
  proof -
    have "children t q' zs = children (set_proc par (wait_task_update (\<lambda>_. 0)) s2) q' zs"
      by (rule children_procs) (simp add: pr set_proc_def)
    then show ?thesis by (simp add: set_proc_children)
  qed
  moreover have "proc_state (procs s2 p) = Zombie" "exit_status (procs s2 p) = to_int (fr_rdi fr)"
    using L [of p] by (simp_all add: life_def s1_def set_proc_def f_def)
  ultimately show ?thesis using x ch pa by auto
qed

theorem sys_exit_correct_witness:
  "\<exists>t. sys_exit 2 example_frame example_sys = Some (0, t) \<and> sched_ok t 3 [1, 5] \<and> children t 8 [10]"
  using sys_exit_correct [of example_sys 2 "[3, 1]" 7 8 "[10]" "[]" 9 5 example_frame] example_sys_fields example_sys_lists by auto

end
