(* ===== verification/Tori_Libc.thy ===== *)
theory Tori_Libc
  imports Tori_Syscall_Props
begin

unbundle bit_operations_syntax

text \<open>
  The part of the C library of the user programs that enters the kernel (\<open>libc/src/syscall\<close>) and the
  allocator above it (\<open>libc/src/stdlib/malloc.c\<close>), composed with the handlers of the kernel.  A call has the
  other registers of the program in the frame \<open>fr\<close>.  A function with \<open>errno\<close> returns its result, the
  new value of \<open>errno\<close> and the state.
\<close>

section \<open>Calls\<close>

text \<open>A result below 0 is stored into \<open>errno\<close>; the results are 64 bits wide for some functions and 32 for
  others.\<close>

definition with_errno :: "int \<Rightarrow> int \<Rightarrow> 'f sys \<Rightarrow> int \<times> int \<times> 'f sys" where
  "with_errno ret errno s = (if ret < 0 then (- 1, sint (word_of_int (- ret) :: u32), s) else (ret, errno, s))"

definition libc_write :: "'f env \<Rightarrow> SyscallFrame \<Rightarrow> int \<Rightarrow> u64 \<Rightarrow> u64 \<Rightarrow> int \<Rightarrow> 'f sys \<Rightarrow> (int \<times> int \<times> 'f sys) option" where
  "libc_write e fr fd buf count errno s = do {
     (ret, s) \<leftarrow> handle_syscall e SYS_write (fr\<lparr>fr_rdi := word_of_int fd, fr_rsi := buf, fr_rdx := count\<rparr>) s;
     Some (with_errno (sint ret) errno s)
   }"

definition libc_read :: "'f env \<Rightarrow> SyscallFrame \<Rightarrow> int \<Rightarrow> u64 \<Rightarrow> u64 \<Rightarrow> int \<Rightarrow> 'f sys \<Rightarrow> (int \<times> int \<times> 'f sys) option" where
  "libc_read e fr fd buf count errno s = do {
     (ret, s) \<leftarrow> handle_syscall e SYS_read (fr\<lparr>fr_rdi := word_of_int fd, fr_rsi := buf, fr_rdx := count\<rparr>) s;
     Some (with_errno (sint ret) errno s)
   }"

definition libc_open :: "'f env \<Rightarrow> SyscallFrame \<Rightarrow> u64 \<Rightarrow> int \<Rightarrow> int \<Rightarrow> 'f sys \<Rightarrow> (int \<times> int \<times> 'f sys) option" where
  "libc_open e fr path flags errno s = do {
     (ret, s) \<leftarrow> handle_syscall e SYS_open (fr\<lparr>fr_rdi := path, fr_rsi := word_of_int flags\<rparr>) s;
     Some (with_errno (to_int ret) errno s)
   }"

definition libc_close :: "'f env \<Rightarrow> SyscallFrame \<Rightarrow> int \<Rightarrow> int \<Rightarrow> 'f sys \<Rightarrow> (int \<times> int \<times> 'f sys) option" where
  "libc_close e fr fd errno s = do {
     (ret, s) \<leftarrow> handle_syscall e SYS_close (fr\<lparr>fr_rdi := word_of_int fd\<rparr>) s;
     Some (with_errno (if to_int ret < 0 then to_int ret else 0) errno s)
   }"

definition libc_lseek :: "'f env \<Rightarrow> SyscallFrame \<Rightarrow> int \<Rightarrow> u64 \<Rightarrow> int \<Rightarrow> int \<Rightarrow> 'f sys \<Rightarrow> (int \<times> int \<times> 'f sys) option" where
  "libc_lseek e fr fd offset whence errno s = do {
     (ret, s) \<leftarrow> handle_syscall e SYS_lseek
       (fr\<lparr>fr_rdi := word_of_int fd, fr_rsi := offset, fr_rdx := word_of_int whence\<rparr>) s;
     Some (with_errno (sint ret) errno s)
   }"

text \<open>In the parent; the child returns with 0 from the frame that \<open>sys_fork\<close> gives it.\<close>

definition libc_fork :: "'f env \<Rightarrow> SyscallFrame \<Rightarrow> 'f sys \<Rightarrow> (int \<times> 'f sys) option" where
  "libc_fork e fr s = do { (ret, s) \<leftarrow> handle_syscall e SYS_fork fr s; Some (to_int ret, s) }"

definition libc_execv :: "'f env \<Rightarrow> SyscallFrame \<Rightarrow> u64 \<Rightarrow> 'f sys \<Rightarrow> (int \<times> 'f sys) option" where
  "libc_execv e fr path s = do { (ret, s) \<leftarrow> handle_syscall e SYS_exec (fr\<lparr>fr_rdi := path\<rparr>) s; Some (to_int ret, s) }"

definition libc_getpid :: "'f env \<Rightarrow> SyscallFrame \<Rightarrow> 'f sys \<Rightarrow> (int \<times> 'f sys) option" where
  "libc_getpid e fr s = do { (ret, s) \<leftarrow> handle_syscall e SYS_getpid fr s; Some (to_int ret, s) }"

definition libc_getppid :: "'f env \<Rightarrow> SyscallFrame \<Rightarrow> 'f sys \<Rightarrow> (int \<times> 'f sys) option" where
  "libc_getppid e fr s = do { (ret, s) \<leftarrow> handle_syscall e SYS_getppid fr s; Some (to_int ret, s) }"

definition libc_waitpid :: "'f env \<Rightarrow> SyscallFrame \<Rightarrow> int \<Rightarrow> u64 \<Rightarrow> int \<Rightarrow> 'f sys \<Rightarrow> (int \<times> 'f sys) option" where
  "libc_waitpid e fr which status options s = do {
     (ret, s) \<leftarrow> handle_syscall e SYS_waitpid
       (fr\<lparr>fr_rdi := word_of_int which, fr_rsi := status, fr_rdx := word_of_int options\<rparr>) s;
     Some (to_int ret, s)
   }"

definition libc_brk :: "'f env \<Rightarrow> SyscallFrame \<Rightarrow> u64 \<Rightarrow> 'f sys \<Rightarrow> (u64 \<times> 'f sys) option" where
  "libc_brk e fr addr s = do {
     (ret, s) \<leftarrow> handle_syscall e SYS_brk (fr\<lparr>fr_rdi := addr\<rparr>) s;
     Some (if ret = - 1 then - 1 else ret, s)
   }"

section \<open>Allocation\<close>

definition malloc :: "'f env \<Rightarrow> SyscallFrame \<Rightarrow> u64 \<Rightarrow> 'f sys \<Rightarrow> (u64 \<times> 'f sys) option" where
  "malloc e fr len s =
     (if len = 0 then Some (0, s)
      else let len = (len + 15) AND NOT 15 in do {
        (old, s) \<leftarrow> libc_brk e fr 0 s;
        if old = - 1 then Some (0, s)
        else do {
          (new_brk, s) \<leftarrow> libc_brk e fr (old + len) s;
          if new_brk = - 1 then Some (0, s)
          else if new_brk < old + len then Some (0, s)
          else Some (old, s)
        }
      })"

definition libc_free :: "u64 \<Rightarrow> 'f sys \<Rightarrow> 'f sys" where
  "libc_free ptr s = s"

definition realloc :: "'f env \<Rightarrow> SyscallFrame \<Rightarrow> u64 \<Rightarrow> u64 \<Rightarrow> 'f sys \<Rightarrow> (u64 \<times> 'f sys) option" where
  "realloc e fr ptr new_size s = malloc e fr new_size s"

section \<open>What an allocation does\<close>

definition running_process :: "'f sys \<Rightarrow> ptr \<Rightarrow> bool" where
  "running_process s p \<longleftrightarrow> current_task s \<noteq> 0 \<and> task_thread (tasks s (current_task s)) \<noteq> 0
     \<and> p = thread_process (threads s (task_thread (tasks s (current_task s)))) \<and> p \<noteq> 0"

text \<open>The length a request is rounded to.\<close>

definition chunk_length :: "u64 \<Rightarrow> u64" where
  "chunk_length len = (len + 15) AND NOT 15"

text \<open>The kernel extends the break of the process by \<open>n\<close> bytes: whether there were pages, and the memory
  afterwards.\<close>

definition extend_break :: "ptr \<Rightarrow> u64 \<Rightarrow> 'f sys \<Rightarrow> (bool \<times> vmm) option" where
  "extend_break p n s = (let b = brk (procs s p) in
     if page_up (b + n) > page_up b
     then brk_pages (pml4_phys (procs s p)) (page_range (page_up b) (page_up (b + n))) (memory_manager s)
     else Some (True, memory_manager s))"

definition break_ok :: "u64 \<Rightarrow> Process \<Rightarrow> bool" where
  "break_ok len p \<longleftrightarrow> brk p \<noteq> 0 \<and> brk_base p \<le> brk p \<and> unat (brk p) + unat len < 2 ^ 64 - 8192"

lemma chunk_length_unat:
  assumes "unat len < 2 ^ 64 - 16"
  shows "unat (chunk_length len) = (unat len + 15) div 16 * 16"
proof -
  have m: "(NOT 15 :: u64) = NOT (mask 4)" by (simp add: mask_eq_exp_minus_1)
  have "w AND NOT (mask 4) = push_bit 4 (drop_bit 4 w)" for w :: u64
    by (rule bit_word_eqI) (auto simp: bit_simps)
  moreover have "unat (len + 15) = unat len + 15" using assms by (simp add: unat_word_ariths)
  moreover have "unat (push_bit 4 (drop_bit 4 w)) = unat w div 16 * 16" for w :: u64
  proof -
    have "unat (drop_bit 4 w) = unat w div 16" by (simp add: drop_bit_eq_div unat_div)
    moreover have "unat w div 16 * 16 < 2 ^ 64" using unat_u64_less [of w] by simp
    ultimately show ?thesis by (simp add: push_bit_eq_mult unat_word_ariths)
  qed
  ultimately show ?thesis by (simp only: chunk_length_def m)
qed

lemma malloc_outcome:
  assumes r: "running_process s p" and "len \<noteq> 0" "break_ok len (procs s p)"
    and g: "extend_break p (chunk_length len) s = Some (ok, m)"
  shows "malloc e fr len s = Some (brk (procs s p),
    if ok then set_proc p (brk_update (\<lambda>_. brk (procs s p) + chunk_length len)) (with_mm m s) else with_mm m s)"
proof -
  let ?b = "brk (procs s p)" and ?n = "chunk_length len"
  have l: "unat len < 2 ^ 64 - 16" using assms(3) by (simp add: break_ok_def)
  have "(unat len + 15) div 16 * 16 \<le> unat len + 15" by simp
  then have u: "unat (?b + ?n) = unat ?b + unat ?n" and bound: "unat ?b + unat ?n < 2 ^ 64 - 4096"
    using chunk_length_unat [OF l] assms(3) by (auto simp: break_ok_def unat_word_ariths)
  have h: "handle_syscall e SYS_brk f s = sys_brk (task_thread (tasks s (current_task s))) f s" for f
    using r by (simp add: handle_syscall_def Let_def running_process_def SYS_write_def SYS_exit_def SYS_fork_def SYS_exec_def
        SYS_spawn_def SYS_getpid_def SYS_waitpid_def SYS_getppid_def SYS_read_def SYS_open_def SYS_close_def SYS_lseek_def SYS_brk_def)
  have q: "libc_brk e fr 0 s = Some (?b, s)"
    using r by (simp add: libc_brk_def h sys_brk_def running_process_def Let_def)
  have nz: "?b + ?n \<noteq> 0" "\<not> ?b + ?n < brk_base (procs s p)" "?b \<noteq> - 1" "?b + ?n \<noteq> - 1"
  proof -
    have "unat ?b \<noteq> 0" using assms(3) by (auto simp: break_ok_def unat_eq_0)
    then show "?b + ?n \<noteq> 0" using u by (metis add_is_0 unat_0)
    show "\<not> ?b + ?n < brk_base (procs s p)" using u assms(3) by (auto simp: break_ok_def word_less_nat_alt word_le_nat_alt)
    have "unat (- 1 :: u64) = 2 ^ 64 - 1" by (simp add: unsigned_minus_1_eq_mask mask_eq_exp_minus_1)
    then have "unat ?b < unat (- 1 :: u64)" "unat (?b + ?n) < unat (- 1 :: u64)" using u bound by linarith+
    then show "?b \<noteq> - 1" "?b + ?n \<noteq> - 1" by auto
  qed
  have e: "of_err (- ERR_NO_MEM) \<noteq> - 1" "\<not> of_err (- ERR_NO_MEM) < ?b + ?n"
    using u bound by (simp_all add: of_err_def ERR_NO_MEM_def word_less_nat_alt)
  have "libc_brk e fr (?b + ?n) s = Some (if ok then ?b + ?n else of_err (- ERR_NO_MEM),
      if ok then set_proc p (brk_update (\<lambda>_. ?b + ?n)) (with_mm m s) else with_mm m s)"
    using r g nz e by (simp add: libc_brk_def h sys_brk_def running_process_def Let_def extend_break_def)
  then show ?thesis using q nz e assms(2) unfolding malloc_def Let_def chunk_length_def [symmetric] by simp
qed

text \<open>C29. When the kernel has pages, \<open>malloc\<close> returns the old break and moves the break behind the object, by at
  least the length asked for and less than 16 bytes more: later objects lie behind it.  The process keeps
  running with its heap intact.\<close>

theorem malloc_correct:
  assumes "running_process s p" "len \<noteq> 0" "break_ok len (procs s p)"
    "extend_break p (chunk_length len) s = Some (True, m)"
  shows "\<exists>t. malloc e fr len s = Some (brk (procs s p), t) \<and> running_process t p
    \<and> unat (brk (procs s p)) + unat len \<le> unat (brk (procs t p))
    \<and> unat (brk (procs t p)) < unat (brk (procs s p)) + unat len + 16 \<and> brk_base (procs t p) = brk_base (procs s p)"
proof -
  let ?b = "brk (procs s p)"
  let ?t = "set_proc p (brk_update (\<lambda>_. ?b + chunk_length len)) (with_mm m s)"
  have l: "unat len < 2 ^ 64 - 16" using assms(3) by (simp add: break_ok_def)
  have "unat len \<le> (unat len + 15) div 16 * 16" "(unat len + 15) div 16 * 16 < unat len + 16" by linarith+
  moreover from this have "unat (?b + chunk_length len) = unat ?b + unat (chunk_length len)"
    using chunk_length_unat [OF l] assms(3) by (auto simp: break_ok_def unat_word_ariths)
  moreover have "malloc e fr len s = Some (?b, ?t)" using malloc_outcome [OF assms] by simp
  moreover have "running_process ?t p" using assms(1) by (auto simp: running_process_def set_proc_def with_mm_def current_task_def split: if_splits)
  ultimately show ?thesis using chunk_length_unat [OF l] by (intro exI [of _ ?t]) (simp add: set_proc_def with_mm_def)
qed

text \<open>When the kernel has no pages left, \<open>malloc\<close> does not report it: the error is taken for an address and
  the old break is returned although it has not moved, so that the next request gets the same address.\<close>

theorem malloc_ignores_exhaustion:
  assumes "running_process s p" "len \<noteq> 0" "break_ok len (procs s p)"
    "extend_break p (chunk_length len) s = Some (False, m)"
  shows "\<exists>t. malloc e fr len s = Some (brk (procs s p), t) \<and> brk (procs s p) \<noteq> 0 \<and> procs t = procs s"
  using malloc_outcome [OF assms] assms(3) by (simp add: with_mm_def break_ok_def)

section \<open>Example states\<close>

definition example_heap :: "u64 \<Rightarrow> unit sys" where
  "example_heap b = (set_proc 7 (\<lambda>p. p\<lparr>brk_base := 0x10000, brk := b\<rparr>) example_sys)
     \<lparr>tasks := (\<lambda>_. example_task\<lparr>task_thread := 2\<rparr>),
      memory_manager := (memory_manager example_sys)\<lparr>page_alloc := example_pm\<lparr>page_bitmap := (\<lambda>_. - 1)\<rparr>\<rparr>\<rparr>"

lemma example_heap_runs:
  "running_process (example_heap b) 7" "brk (procs (example_heap b) 7) = b" "brk_base (procs (example_heap b) 7) = 0x10000"
  "page_bitmap (page_alloc (memory_manager (example_heap b))) = (\<lambda>_. - 1)"
  by (simp_all add: example_heap_def running_process_def current_task_def set_proc_def example_sys_defs example_sched_def CONFIG_MAX_CPUS_def)

lemma full_alloc_fails:
  assumes "page_bitmap s = (\<lambda>_. - 1)"
  shows "alloc_page s = (invalid_physical_address, s)"
proof -
  have used: "is_page_used s q" for q
  proof -
    have "unat (q mod 64) < 64" by (simp add: unat_mod)
    moreover have "(2 :: u64) ^ k \<noteq> 0" if "k < 64" for k using that by (simp add: exp_eq_zero_iff)
    ultimately have "(2 :: u64) ^ unat (q mod 64) \<noteq> 0" by blast
    then show ?thesis using assms by (simp add: is_page_used_def push_bit_eq_mult)
  qed
  have none: "\<not> page_range_free s q 1" for q
  proof
    assume f: "page_range_free s q 1"
    then have "q \<in> {q ..< q + 1}" by (auto simp: page_range_free_def max_managed_pages_def word_less_nat_alt word_le_nat_alt unat_word_ariths split: if_splits)
    then show False using f used by (auto simp: page_range_free_def list_all_iff split: if_splits)
  qed
  have "alloc_search s 1 k = None" for k
    using none by (induction s "1 :: u64" k rule: alloc_search.induct) (subst alloc_search.simps, auto simp: Let_def)
  then show ?thesis by (simp add: alloc_page_def alloc_pages_def max_managed_pages_def)
qed

theorem malloc_correct_witness:
  "\<exists>t. malloc example_env example_frame 100 (example_heap 0x10010) = Some (0x10010, t) \<and> 0x10010 + 100 \<le> unat (brk (procs t 7))"
proof -
  have "break_ok 100 (procs (example_heap 0x10010) 7)" by (simp add: break_ok_def example_heap_runs)
  moreover have "extend_break 7 (chunk_length 100) (example_heap 0x10010) = Some (True, memory_manager (example_heap 0x10010))"
    by (simp add: extend_break_def example_heap_runs page_up_def chunk_length_def)
  ultimately show ?thesis
    using malloc_correct [of "example_heap 0x10010" 7 100 _ example_env example_frame] example_heap_runs by auto
qed

theorem malloc_ignores_exhaustion_witness:
  "\<exists>t. malloc example_env example_frame 100 (example_heap 0x10000) = Some (0x10000, t) \<and> brk (procs t 7) = 0x10000"
proof -
  have "break_ok 100 (procs (example_heap 0x10000) 7)" by (simp add: break_ok_def example_heap_runs)
  moreover have "extend_break 7 (chunk_length 100) (example_heap 0x10000) = Some (False, memory_manager (example_heap 0x10000))"
    by (simp add: extend_break_def example_heap_runs page_up_def chunk_length_def page_range_def map_zero_page_def
        vmm_alloc_page_def full_alloc_fails Let_def)
  ultimately show ?thesis
    using malloc_ignores_exhaustion [of "example_heap 0x10000" 7 100 _ example_env example_frame] example_heap_runs by fastforce
qed

end
