(* ===== verification/Tori_Timer.thy ===== *)
theory Tori_Timer
  imports Tori_Prelude "HOL-Library.Monad_Syntax"
begin

text \<open>
  The timer wheel (\<open>kernel/src/kernel/timer.cpp\<close>, \<open>timer.hpp\<close>) and the intrusive lists it is built on
  (\<open>container/intrusive_list.hpp\<close>).  A list node is named by the object that holds it: the head of a
  bucket, the head of the free list, or an entry of the pool.  A callback is code of the caller; its
  call is recorded in \<open>fired\<close>.  The spinlock is not recursive and the processor that waits for it has
  interrupts off, so taking it while holding it has no result.
\<close>

datatype node = Level0 nat | Level1 nat | FreeEntries | Entry nat

record TimerEntry =
  deadline_ticks :: u64
  period_ticks :: u64
  callback :: u64
  user_data :: u64
  wheel_level :: "1 word"
  wheel_slot :: u8

record timers =
  list_next :: "node \<Rightarrow> node option"
  list_prev :: "node \<Rightarrow> node option"
  pool :: "nat \<Rightarrow> TimerEntry"
  cursor :: u32
  l1_cursor :: u32
  tick_count :: u64
  timer_initialized :: bool
  bsp_lapic_id :: u32
  timer_lock :: bool
  fired :: "(u64 \<times> u64) list"

section \<open>Intrusive lists\<close>

definition list_empty :: "node \<Rightarrow> timers \<Rightarrow> bool" where
  "list_empty h s \<longleftrightarrow> list_next s h = None \<or> list_next s h = Some h"

definition set_next :: "node \<Rightarrow> node option \<Rightarrow> timers \<Rightarrow> timers" where
  "set_next n v s = s\<lparr>list_next := (list_next s)(n := v)\<rparr>"

definition set_prev :: "node \<Rightarrow> node option \<Rightarrow> timers \<Rightarrow> timers" where
  "set_prev n v s = s\<lparr>list_prev := (list_prev s)(n := v)\<rparr>"

definition list_push_back :: "node \<Rightarrow> node \<Rightarrow> timers \<Rightarrow> timers option" where
  "list_push_back h n s =
     (if list_next s h = None then
        Some (set_prev n (Some h) (set_next n (Some h) (set_prev h (Some n) (set_next h (Some n) s))))
      else do {
        let s = set_prev n (list_prev s h) s;
        let s = set_next n (Some h) s;
        p \<leftarrow> list_prev s h;
        let s = set_next p (Some n) s;
        Some (set_prev h (Some n) s)
      })"

definition list_remove :: "node \<Rightarrow> timers \<Rightarrow> timers option" where
  "list_remove n s = do {
     p \<leftarrow> list_prev s n;
     let s = set_next p (list_next s n) s;
     q \<leftarrow> list_next s n;
     Some (set_prev q (list_prev s n) s)
   }"

definition list_pop_front :: "node \<Rightarrow> timers \<Rightarrow> (node option \<times> timers) option" where
  "list_pop_front h s =
     (if list_empty h s then Some (None, s)
      else do {
        n \<leftarrow> list_next s h;
        s \<leftarrow> list_remove n s;
        Some (Some n, s)
      })"

section \<open>The wheel\<close>

definition kBucketCount :: u64 where "kBucketCount = 256"

definition timer_max_entries :: nat where "timer_max_entries = 64"

definition with_timer_lock :: "(timers \<Rightarrow> ('a \<times> timers) option) \<Rightarrow> timers \<Rightarrow> ('a \<times> timers) option" where
  "with_timer_lock f s =
     (if timer_lock s then None
      else do {
        (r, s) \<leftarrow> f (s\<lparr>timer_lock := True\<rparr>);
        Some (r, s\<lparr>timer_lock := False\<rparr>)
      })"

definition set_timer_entry :: "nat \<Rightarrow> (TimerEntry \<Rightarrow> TimerEntry) \<Rightarrow> timers \<Rightarrow> timers" where
  "set_timer_entry e f s = s\<lparr>pool := (pool s)(e := f (pool s e))\<rparr>"

text \<open>A list of entries holds no head, so a head in the place of an entry has no result.\<close>

definition node_entry :: "node option \<Rightarrow> nat option option" where
  "node_entry n = (case n of None \<Rightarrow> Some None | Some (Entry e) \<Rightarrow> Some (Some e) | _ \<Rightarrow> None)"

definition alloc_entry :: "timers \<Rightarrow> (nat option \<times> timers) option" where
  "alloc_entry = with_timer_lock (\<lambda>s. do {
     (n, s) \<leftarrow> list_pop_front FreeEntries s;
     e \<leftarrow> node_entry n;
     Some (e, s)
   })"

definition timer_free_entry :: "nat \<Rightarrow> timers \<Rightarrow> timers option" where
  "timer_free_entry e s = do {
     let s = set_timer_entry e (\<lambda>x. x\<lparr>callback := 0, user_data := 0, deadline_ticks := 0, period_ticks := 0\<rparr>) s;
     (_, s) \<leftarrow> with_timer_lock (\<lambda>s. do { s \<leftarrow> list_push_back FreeEntries (Entry e) s; Some ((), s) }) s;
     Some s
   }"

definition insert_level0 :: "nat \<Rightarrow> u64 \<Rightarrow> timers \<Rightarrow> timers option" where
  "insert_level0 e remaining s =
     (let slot = (ucast (cursor s) + remaining) mod kBucketCount;
          s = set_timer_entry e (\<lambda>x. x\<lparr>wheel_level := 0, wheel_slot := ucast slot\<rparr>) s
      in list_push_back (Level0 (unat slot)) (Entry e) s)"

definition insert_level1 :: "nat \<Rightarrow> u64 \<Rightarrow> timers \<Rightarrow> timers option" where
  "insert_level1 e remaining s =
     (let slot = remaining div kBucketCount - 1;
          slot = (if slot \<ge> kBucketCount then kBucketCount - 1 else slot);
          s = set_timer_entry e (\<lambda>x. x\<lparr>wheel_level := 1, wheel_slot := ucast slot\<rparr>) s
      in list_push_back (Level1 (unat slot)) (Entry e) s)"

definition call_back :: "nat \<Rightarrow> timers \<Rightarrow> timers" where
  "call_back e s = s\<lparr>fired := fired s @ [(callback (pool s e), user_data (pool s e))]\<rparr>"

definition ticks_left :: "nat \<Rightarrow> timers \<Rightarrow> u64" where
  "ticks_left e s =
     (if deadline_ticks (pool s e) > tick_count s then deadline_ticks (pool s e) - tick_count s else 0)"

partial_function (option) insert_entry :: "nat \<Rightarrow> timers \<Rightarrow> timers option" where
  "insert_entry e s =
     (let delta = ticks_left e s in
      if delta < kBucketCount then insert_level0 e (if delta = 0 then 1 else delta) s
      else if delta < kBucketCount * kBucketCount then insert_level1 e delta s
      else
        (let s = call_back e s in
         if period_ticks (pool s e) > 0 then
           insert_entry e (set_timer_entry e (\<lambda>x. x\<lparr>deadline_ticks := tick_count s + period_ticks x\<rparr>) s)
         else timer_free_entry e s))"

definition fire_entry :: "nat \<Rightarrow> timers \<Rightarrow> timers option" where
  "fire_entry e s =
     (let s = call_back e s in
      if period_ticks (pool s e) > 0 then
        insert_entry e (set_timer_entry e (\<lambda>x. x\<lparr>deadline_ticks := tick_count s + period_ticks x\<rparr>) s)
      else timer_free_entry e s)"

partial_function (option) cascade_loop :: "node \<Rightarrow> timers \<Rightarrow> timers option" where
  "cascade_loop bucket s =
     (if list_empty bucket s then Some s
      else do {
        (n, s) \<leftarrow> list_pop_front bucket s;
        e \<leftarrow> Option.bind (node_entry n) (\<lambda>e. e);
        let remaining = ticks_left e s;
        s \<leftarrow> (if remaining = 0 then fire_entry e s
              else if remaining < kBucketCount then insert_level0 e remaining s
              else insert_level1 e remaining s);
        cascade_loop bucket s
      })"

definition cascade :: "timers \<Rightarrow> timers option" where
  "cascade s = do {
     s \<leftarrow> cascade_loop (Level1 (unat (l1_cursor s))) s;
     Some (s\<lparr>l1_cursor := ucast ((ucast (l1_cursor s) + 1 :: u64) mod kBucketCount)\<rparr>)
   }"

definition timer_init :: "u32 \<Rightarrow> timers \<Rightarrow> timers option" where
  "timer_init lapic_id s = do {
     s \<leftarrow> fold (\<lambda>i r. Option.bind r (list_push_back FreeEntries (Entry i))) [0 ..< timer_max_entries]
            (Some (s\<lparr>bsp_lapic_id := lapic_id\<rparr>));
     Some (s\<lparr>timer_initialized := True\<rparr>)
   }"

definition locked_insert :: "nat \<Rightarrow> timers \<Rightarrow> timers option" where
  "locked_insert e s = do {
     (_, s) \<leftarrow> with_timer_lock (\<lambda>s. do { s \<leftarrow> insert_entry e s; Some ((), s) }) s;
     Some s
   }"

definition create_oneshot :: "u64 \<Rightarrow> u64 \<Rightarrow> u64 \<Rightarrow> timers \<Rightarrow> (nat option \<times> timers) option" where
  "create_oneshot deadline cb ud s =
     (if \<not> timer_initialized s \<or> cb = 0 then Some (None, s)
      else do {
        (r, s) \<leftarrow> alloc_entry s;
        case r of None \<Rightarrow> Some (None, s)
        | Some e \<Rightarrow> do {
            s \<leftarrow> locked_insert e (set_timer_entry e (\<lambda>x. x\<lparr>deadline_ticks := deadline, period_ticks := 0,
                                                 callback := cb, user_data := ud\<rparr>) s);
            Some (Some e, s)
          }
      })"

definition create_periodic :: "u64 \<Rightarrow> u64 \<Rightarrow> u64 \<Rightarrow> u64 \<Rightarrow> timers \<Rightarrow> (nat option \<times> timers) option" where
  "create_periodic start_delta period cb ud s =
     (if \<not> timer_initialized s \<or> cb = 0 \<or> period = 0 then Some (None, s)
      else do {
        (r, s) \<leftarrow> alloc_entry s;
        case r of None \<Rightarrow> Some (None, s)
        | Some e \<Rightarrow> do {
            s \<leftarrow> locked_insert e (set_timer_entry e (\<lambda>x. x\<lparr>deadline_ticks := tick_count s + start_delta,
                                                 period_ticks := period, callback := cb, user_data := ud\<rparr>) s);
            Some (Some e, s)
          }
      })"

text \<open>Both branches of the code remove the entry from the list it is in, whatever the head.\<close>

definition timer_cancel :: "nat option \<Rightarrow> timers \<Rightarrow> timers option" where
  "timer_cancel entry s =
     (case entry of None \<Rightarrow> Some s
      | Some e \<Rightarrow> do {
          (_, s) \<leftarrow> with_timer_lock (\<lambda>s. do {
              s \<leftarrow> list_remove (Entry e) s;
              s \<leftarrow> timer_free_entry e s;
              Some ((), s)
            }) s;
          Some s
        })"

partial_function (option) fire_loop :: "node \<Rightarrow> timers \<Rightarrow> timers option" where
  "fire_loop bucket s =
     (if list_empty bucket s then Some s
      else do {
        (n, s) \<leftarrow> list_pop_front bucket s;
        e \<leftarrow> Option.bind (node_entry n) (\<lambda>e. e);
        s \<leftarrow> fire_entry e s;
        fire_loop bucket s
      })"

definition timer_tick :: "u32 \<Rightarrow> timers \<Rightarrow> timers option" where
  "timer_tick lapic_id s =
     (if \<not> timer_initialized s \<or> lapic_id \<noteq> bsp_lapic_id s then Some s
      else do {
        let s = s\<lparr>tick_count := tick_count s + 1\<rparr>;
        s \<leftarrow> fire_loop (Level0 (unat (cursor s))) s;
        let s = s\<lparr>cursor := cursor s + 1\<rparr>;
        if ucast (cursor s) = kBucketCount then cascade (s\<lparr>cursor := 0\<rparr>) else Some s
      })"

definition timer_now :: "timers \<Rightarrow> u64" where
  "timer_now s = tick_count s"

end
