(* ===== verification/Tori_Timer_Props.thy ===== *)
theory Tori_Timer_Props
  imports Tori_Timer
begin

text \<open>
  Intrusive lists as sequences; when a timer of the lower level of the wheel is called, for a wheel that
  has no timer in the upper level; and how cancelling a timer and emptying a bucket of the upper level
  can fail to return.
\<close>

section \<open>Intrusive lists as sequences\<close>

definition linked :: "timers \<Rightarrow> node \<Rightarrow> node \<Rightarrow> bool" where
  "linked s a b \<longleftrightarrow> list_next s a = Some b \<and> list_prev s b = Some a"

fun chain :: "timers \<Rightarrow> node \<Rightarrow> node list \<Rightarrow> node \<Rightarrow> bool" where
  "chain s a [] b \<longleftrightarrow> linked s a b"
| "chain s a (x # xs) b \<longleftrightarrow> linked s a x \<and> chain s x xs b"

text \<open>The list with head \<open>h\<close> holds \<open>xs\<close>; the links of a list that was never used are null.\<close>

definition ring :: "node \<Rightarrow> node list \<Rightarrow> timers \<Rightarrow> bool" where
  "ring h xs s \<longleftrightarrow> (xs = [] \<and> list_next s h = None \<or> chain s h xs h) \<and> distinct (h # xs)"

lemma chain_append: "chain s a (xs @ x # ys) b \<longleftrightarrow> chain s a xs x \<and> chain s x ys b"
  by (induction xs arbitrary: a) auto

lemma chain_cong:
  assumes "\<And>x. x \<in> set (a # xs) \<Longrightarrow> list_next t x = list_next s x"
    and "\<And>x. x \<in> set (xs @ [b]) \<Longrightarrow> list_prev t x = list_prev s x"
  shows "chain t a xs b = chain s a xs b"
  using assms by (induction xs arbitrary: a) (auto simp: linked_def)

lemma chain_last: "chain s a xs b \<Longrightarrow> list_prev s b = Some (last (a # xs))"
  by (induction xs arbitrary: a) (auto simp: linked_def)

lemma chain_next: "chain s a xs b \<Longrightarrow> list_next s a = Some (hd (xs @ [b]))"
  by (cases xs) (auto simp: linked_def)

lemma ring_cong:
  assumes "\<And>x. x \<in> set (h # xs) \<Longrightarrow> list_next t x = list_next s x \<and> list_prev t x = list_prev s x"
  shows "ring h xs t = ring h xs s"
  using chain_cong [of h xs t s h] assms by (auto simp: ring_def)

lemmas link_defs = set_next_def set_prev_def

text \<open>Two states that differ at most in the links of \<open>A\<close>.\<close>

definition only_links :: "node set \<Rightarrow> timers \<Rightarrow> timers \<Rightarrow> bool" where
  "only_links A s t \<longleftrightarrow> t = s\<lparr>list_next := list_next t, list_prev := list_prev t\<rparr>
     \<and> (\<forall>x. x \<notin> A \<longrightarrow> list_next t x = list_next s x \<and> list_prev t x = list_prev s x)"

lemma push_back_ring:
  assumes r: "ring h xs s" and n: "n \<notin> set (h # xs)"
  shows "\<exists>t. list_push_back h n s = Some t \<and> ring h (xs @ [n]) t \<and> only_links (set (n # h # xs)) s t"
proof (cases "list_next s h")
  case None
  then have "xs = []" using r by (auto simp: ring_def dest: chain_next)
  with None n show ?thesis
    by (auto simp: list_push_back_def link_defs ring_def linked_def only_links_def)
next
  case (Some y)
  then have c: "chain s h xs h" using r by (auto simp: ring_def)
  note p = chain_last [OF c]
  define t where "t = set_prev h (Some n) (set_next (last (h # xs)) (Some n)
    (set_next n (Some h) (set_prev n (list_prev s h) s)))"
  have e: "list_push_back h n s = Some t"
    using Some n p by (auto simp: list_push_back_def Let_def t_def link_defs)
  have o: "only_links (set (n # h # xs)) s t"
    by (auto simp: only_links_def t_def link_defs)
  have "chain t h (xs @ [n]) h"
  proof (cases xs rule: rev_cases)
    case Nil
    then show ?thesis using n p by (auto simp: t_def link_defs linked_def)
  next
    case (snoc ys q)
    have d: "distinct (h # ys @ [q])" "n \<notin> set (h # ys @ [q])" using r n snoc by (auto simp: ring_def)
    have "chain t h ys q = chain s h ys q"
      using d snoc by (intro chain_cong) (auto simp: t_def link_defs)
    moreover have "chain s h ys q" using c snoc by (simp add: chain_append)
    moreover have "linked t q n" "linked t n h"
      using d p snoc by (auto simp: t_def link_defs linked_def)
    ultimately show ?thesis using snoc by (simp add: chain_append)
  qed
  then show ?thesis using e o r n by (auto simp: ring_def)
qed

lemma pop_front_ring:
  assumes r: "ring h xs s"
  shows "xs = [] \<Longrightarrow> list_pop_front h s = Some (None, s)"
    and "xs = x # ys \<Longrightarrow> \<exists>t. list_pop_front h s = Some (Some x, t) \<and> ring h ys t \<and> only_links (set (h # xs)) s t"
proof -
  show "list_pop_front h s = Some (None, s)" if "xs = []"
    using r that by (auto simp: list_pop_front_def list_empty_def ring_def linked_def)
  assume xs: "xs = x # ys"
  then have c: "linked s h x" "chain s x ys h" and d: "distinct (h # x # ys)" using r by (auto simp: ring_def)
  define y where "y = hd (ys @ [h])"
  have y: "list_next s x = Some y" using chain_next [OF c(2)] by (simp add: y_def)
  define t where "t = set_prev y (Some h) (set_next h (Some y) s)"
  have e: "list_pop_front h s = Some (Some x, t)"
    using c(1) d y by (auto simp: list_pop_front_def list_empty_def list_remove_def linked_def Let_def t_def link_defs)
  have "y \<in> set (h # ys)" by (cases ys) (auto simp: y_def)
  then have o: "only_links (set (h # xs)) s t" using xs by (auto simp: only_links_def t_def link_defs)
  have "chain t h ys h"
  proof (cases ys)
    case Nil
    then show ?thesis by (simp add: y_def t_def link_defs linked_def)
  next
    case (Cons z zs)
    have "chain t z zs h = chain s z zs h"
      using d Cons by (intro chain_cong) (auto simp: t_def link_defs y_def)
    then show ?thesis using c(2) d Cons by (auto simp: y_def t_def link_defs linked_def)
  qed
  then show "\<exists>t. list_pop_front h s = Some (Some x, t) \<and> ring h ys t \<and> only_links (set (h # xs)) s t"
    using e o d by (auto simp: ring_def)
qed

section \<open>The buckets of the wheel\<close>

fun is_head :: "node \<Rightarrow> bool" where
  "is_head (Entry e) = False"
| "is_head h = True"

text \<open>Every list of the wheel holds the entries \<open>B\<close> says, and no entry is in two lists.\<close>

definition wheel_lists :: "(node \<Rightarrow> nat list) \<Rightarrow> timers \<Rightarrow> bool" where
  "wheel_lists B s \<longleftrightarrow> (\<forall>h. is_head h \<longrightarrow> ring h (map Entry (B h)) s)
     \<and> (\<forall>g h. is_head g \<longrightarrow> is_head h \<longrightarrow> g \<noteq> h \<longrightarrow> set (B g) \<inter> set (B h) = {})"

definition unlisted :: "(node \<Rightarrow> nat list) \<Rightarrow> nat \<Rightarrow> bool" where
  "unlisted B e \<longleftrightarrow> (\<forall>h. is_head h \<longrightarrow> e \<notin> set (B h))"

lemma wheel_lists_apart:
  "wheel_lists B s \<Longrightarrow> is_head g \<Longrightarrow> is_head h \<Longrightarrow> g \<noteq> h \<Longrightarrow> e \<in> set (B g) \<Longrightarrow> e \<notin> set (B h)"
  unfolding wheel_lists_def by blast

lemma wheel_lists_frame:
  assumes w: "wheel_lists B s" and h: "is_head h" and o: "only_links A s t"
    and A: "A \<subseteq> insert h (Entry ` (set (B h) \<union> E))" "\<And>e. e \<in> E \<Longrightarrow> unlisted B e"
    and r: "ring h (map Entry xs) t" "set xs \<subseteq> set (B h) \<union> E"
  shows "wheel_lists (B(h := xs)) t"
proof -
  have same: "ring g (map Entry (B g)) t" if g: "is_head g" "g \<noteq> h" for g
  proof -
    have "x \<notin> A" if x: "x \<in> set (g # map Entry (B g))" for x
    proof (cases "x = g")
      case True
      then show ?thesis using g A(1) by (cases g) auto
    next
      case False
      then obtain e where e: "x = Entry e" "e \<in> set (B g)" using x by auto
      then have "e \<notin> set (B h)" "e \<notin> E" "x \<noteq> h"
        using wheel_lists_apart [OF w g(1) h g(2)] A(2) g h by (auto simp: unlisted_def)
      then show ?thesis using A(1) e(1) by auto
    qed
    then have "ring g (map Entry (B g)) t = ring g (map Entry (B g)) s"
      using o by (intro ring_cong) (auto simp: only_links_def)
    then show ?thesis using w g by (simp add: wheel_lists_def)
  qed
  have "set xs \<inter> set (B g) = {}" if "is_head g" "g \<noteq> h" for g
    using that w h r(2) A(2) unfolding wheel_lists_def unlisted_def by blast
  then show ?thesis using w r(1) same by (auto simp: wheel_lists_def)
qed

text \<open>The lists do not depend on the other fields.\<close>

lemma wheel_lists_links:
  assumes "list_next t = list_next s" "list_prev t = list_prev s"
  shows "wheel_lists B t = wheel_lists B s"
  using ring_cong [of _ _ t s] assms by (simp add: wheel_lists_def)

lemma push_back_wheel:
  assumes w: "wheel_lists B s" and h: "is_head h" and e: "unlisted B e"
  shows "\<exists>t. list_push_back h (Entry e) s = Some t \<and> wheel_lists (B(h := B h @ [e])) t \<and> only_links UNIV s t"
proof -
  have r: "ring h (map Entry (B h)) s" using w h by (simp add: wheel_lists_def)
  have "Entry e \<notin> set (h # map Entry (B h))" using e h by (cases h) (auto simp: unlisted_def)
  from push_back_ring [OF r this] obtain t where t: "list_push_back h (Entry e) s = Some t"
    "ring h (map Entry (B h) @ [Entry e]) t" "only_links (set (Entry e # h # map Entry (B h))) s t" by blast
  have "wheel_lists (B(h := B h @ [e])) t"
    by (rule wheel_lists_frame [OF w h t(3), where E = "{e}"]) (use t(2) e in auto)
  then show ?thesis using t by (auto simp: only_links_def)
qed

lemma alloc_entry_wheel:
  assumes w: "wheel_lists B s" and l: "\<not> timer_lock s"
  shows "B FreeEntries = [] \<Longrightarrow> alloc_entry s = Some (None, s)"
    and "B FreeEntries = e # es \<Longrightarrow> \<exists>t. alloc_entry s = Some (Some e, t) \<and> wheel_lists (B(FreeEntries := es)) t
           \<and> unlisted (B(FreeEntries := es)) e \<and> only_links UNIV s t"
proof -
  let ?s = "s\<lparr>timer_lock := True\<rparr>"
  have w': "wheel_lists B ?s" using w wheel_lists_links [of ?s s] by simp
  then have r: "ring FreeEntries (map Entry (B FreeEntries)) ?s" by (simp add: wheel_lists_def)
  show "alloc_entry s = Some (None, s)" if "B FreeEntries = []"
    using pop_front_ring(1) [OF r] that l by (simp add: alloc_entry_def with_timer_lock_def node_entry_def)
  assume B: "B FreeEntries = e # es"
  from pop_front_ring(2) [OF r] B obtain t where t: "list_pop_front FreeEntries ?s = Some (Some (Entry e), t)"
    "ring FreeEntries (map Entry es) t" "only_links (set (FreeEntries # map Entry (e # es))) ?s t" by fastforce
  have "wheel_lists (B(FreeEntries := es)) t"
    by (rule wheel_lists_frame [OF w' _ t(3), where E = "{}"]) (use t(2) B in auto)
  then have "wheel_lists (B(FreeEntries := es)) (t\<lparr>timer_lock := False\<rparr>)"
    using wheel_lists_links [of "t\<lparr>timer_lock := False\<rparr>" t] by simp
  moreover have "unlisted (B(FreeEntries := es)) e"
    unfolding unlisted_def
  proof (intro allI impI)
    fix h assume "is_head h"
    then show "e \<notin> set ((B(FreeEntries := es)) h)"
      using wheel_lists_apart [OF w, of FreeEntries h e] r B by (cases "h = FreeEntries") (auto simp: ring_def)
  qed
  moreover have "only_links UNIV s (t\<lparr>timer_lock := False\<rparr>)"
  proof -
    have "t = ?s\<lparr>list_next := list_next t, list_prev := list_prev t\<rparr>" using t(3) by (simp add: only_links_def)
    then have "t\<lparr>timer_lock := False\<rparr> = ?s\<lparr>list_next := list_next t, list_prev := list_prev t\<rparr>\<lparr>timer_lock := False\<rparr>"
      by simp
    also have "\<dots> = s\<lparr>list_next := list_next t, list_prev := list_prev t\<rparr>" using l by simp
    finally show ?thesis by (simp add: only_links_def)
  qed
  ultimately show "\<exists>t. alloc_entry s = Some (Some e, t) \<and> wheel_lists (B(FreeEntries := es)) t
      \<and> unlisted (B(FreeEntries := es)) e \<and> only_links UNIV s t"
    using t(1) l by (simp add: alloc_entry_def with_timer_lock_def node_entry_def)
qed

text \<open>Nothing can be freed by a thread that holds the lock.\<close>

lemma timer_free_entry_locked: "timer_lock s \<Longrightarrow> timer_free_entry e s = None"
  by (simp add: timer_free_entry_def with_timer_lock_def set_timer_entry_def)

lemma list_remove_lock: "list_remove n s = Some t \<Longrightarrow> timer_lock t = timer_lock s"
  by (auto simp: list_remove_def link_defs Let_def bind_eq_Some_conv)

lemma timer_cancel_hangs: "timer_cancel (Some e) s = None"
proof -
  have "Option.bind (list_remove (Entry e) (s\<lparr>timer_lock := True\<rparr>)) (timer_free_entry e) = None"
    by (cases "list_remove (Entry e) (s\<lparr>timer_lock := True\<rparr>)")
      (auto dest!: list_remove_lock intro: timer_free_entry_locked)
  then show ?thesis by (auto simp: timer_cancel_def with_timer_lock_def bind_eq_None_conv split: option.splits)
qed

text \<open>What the operations on links keep.\<close>

lemma only_links_fields:
  "only_links A s t \<Longrightarrow> pool t = pool s \<and> cursor t = cursor s \<and> l1_cursor t = l1_cursor s
     \<and> tick_count t = tick_count s \<and> timer_initialized t = timer_initialized s
     \<and> bsp_lapic_id t = bsp_lapic_id s \<and> timer_lock t = timer_lock s \<and> fired t = fired s"
  by (cases s, cases t) (simp add: only_links_def)

section \<open>Timers of the lower level\<close>

lemma unat_ticks_left: "unat (ticks_left e s) = unat (deadline_ticks (pool s e)) - unat (tick_count s)"
  by (auto simp: ticks_left_def unat_sub word_less_nat_alt word_le_nat_alt)

lemma insert_level0_bucket:
  assumes "cursor s < 256" and "unat r < 256"
  shows "insert_level0 e r s = list_push_back (Level0 ((unat (cursor s) + unat r) mod 256)) (Entry e)
    (set_timer_entry e (\<lambda>x. x\<lparr>wheel_level := 0, wheel_slot := ucast ((ucast (cursor s) + r) mod kBucketCount)\<rparr>) s)"
proof -
  have "unat (cursor s) < 256" using assms(1) by (simp add: word_less_nat_alt)
  then have "unat (ucast (cursor s) + r) = unat (cursor s) + unat r"
    using assms(2) by (simp add: unat_word_ariths unsigned_ucast_eq take_bit_nat_eq_self)
  then have "unat ((ucast (cursor s) + r) mod kBucketCount) = (unat (cursor s) + unat r) mod 256"
    by (simp add: unat_mod kBucketCount_def)
  then show ?thesis by (simp add: insert_level0_def Let_def)
qed

text \<open>What an operation on one entry and on the lists leaves alone.\<close>

definition same_wheel :: "timers \<Rightarrow> timers \<Rightarrow> bool" where
  "same_wheel s t \<longleftrightarrow> cursor t = cursor s \<and> l1_cursor t = l1_cursor s \<and> tick_count t = tick_count s
     \<and> timer_initialized t = timer_initialized s \<and> bsp_lapic_id t = bsp_lapic_id s \<and> timer_lock t = timer_lock s"

definition timer_call :: "timers \<Rightarrow> nat \<Rightarrow> u64 \<times> u64" where
  "timer_call s e = (callback (pool s e), user_data (pool s e))"

lemma insert_entry_near:
  assumes w: "wheel_lists B s" and e: "unlisted B e" and c: "cursor s < 256"
    and r: "unat (ticks_left e s) < 256"
  defines "h \<equiv> Level0 ((unat (cursor s) + max 1 (unat (ticks_left e s))) mod 256)"
  shows "\<exists>t lv sl. insert_entry e s = Some t \<and> wheel_lists (B(h := B h @ [e])) t \<and> same_wheel s t
    \<and> fired t = fired s \<and> pool t = (pool s)(e := (pool s e)\<lparr>wheel_level := lv, wheel_slot := sl\<rparr>)"
proof -
  let ?r = "ticks_left e s"
  define d where "d = (if ?r = 0 then 1 else ?r)"
  have d: "unat d = max 1 (unat ?r)" "unat d < 256"
    using r by (auto simp: d_def unat_eq_0 [symmetric] simp del: unat_eq_0)
  define lv :: "1 word" where "lv = 0"
  define sl :: u8 where "sl = ucast ((ucast (cursor s) + d) mod kBucketCount)"
  let ?u = "set_timer_entry e (\<lambda>x. x\<lparr>wheel_level := lv, wheel_slot := sl\<rparr>) s"
  have "insert_entry e s = insert_level0 e d s"
    using r by (subst insert_entry.simps) (simp add: Let_def d_def kBucketCount_def word_less_nat_alt)
  also have "\<dots> = list_push_back h (Entry e) ?u"
    using insert_level0_bucket [OF c d(2), of e] d(1) by (simp add: h_def lv_def sl_def)
  finally have i: "insert_entry e s = list_push_back h (Entry e) ?u" .
  have wu: "wheel_lists B ?u" using w wheel_lists_links [of ?u s] by (simp add: set_timer_entry_def)
  have "is_head h" by (simp add: h_def)
  from push_back_wheel [OF wu this e] obtain t where
    t: "list_push_back h (Entry e) ?u = Some t" "wheel_lists (B(h := B h @ [e])) t" "only_links UNIV ?u t" by blast
  show ?thesis
    using i t only_links_fields [OF t(3)] by (fastforce simp: same_wheel_def set_timer_entry_def)
qed

lemma timer_free_entry_wheel:
  assumes w: "wheel_lists B s" and e: "unlisted B e" and l: "\<not> timer_lock s"
  shows "\<exists>t. timer_free_entry e s = Some t \<and> wheel_lists (B(FreeEntries := B FreeEntries @ [e])) t
    \<and> same_wheel s t \<and> fired t = fired s \<and> (\<forall>x. x \<noteq> e \<longrightarrow> pool t x = pool s x)"
proof -
  let ?u = "set_timer_entry e (\<lambda>x. x\<lparr>callback := 0, user_data := 0, deadline_ticks := 0, period_ticks := 0\<rparr>) s
    \<lparr>timer_lock := True\<rparr>"
  have wu: "wheel_lists B ?u" using w wheel_lists_links [of ?u s] by (simp add: set_timer_entry_def)
  from push_back_wheel [OF wu _ e, of FreeEntries] obtain t where
    t: "list_push_back FreeEntries (Entry e) ?u = Some t"
      "wheel_lists (B(FreeEntries := B FreeEntries @ [e])) t" "only_links UNIV ?u t" by auto
  let ?t = "t\<lparr>timer_lock := False\<rparr>"
  have "timer_free_entry e s = Some ?t"
    using t(1) l by (simp add: timer_free_entry_def with_timer_lock_def set_timer_entry_def Let_def)
  moreover have "wheel_lists (B(FreeEntries := B FreeEntries @ [e])) ?t"
    using t(2) wheel_lists_links [of ?t t] by simp
  ultimately show ?thesis
    using only_links_fields [OF t(3)] l by (auto simp: same_wheel_def set_timer_entry_def)
qed

lemma slot_moves:
  fixes c m :: nat
  assumes "c < 256" and "0 < m" and "m < 256"
  shows "(c + m) mod 256 \<noteq> c"
  using assms by (cases "c + m < 256") (auto simp: mod_if)

text \<open>Firing an entry calls its callback; a periodic entry moves to another bucket, for its period is no
  multiple of a turn.\<close>

lemma fire_entry_wheel:
  assumes w: "wheel_lists B s" and e: "unlisted B e" and l: "\<not> timer_lock s" and c: "cursor s < 256"
    and p: "period_ticks (pool s e) < 256"
  shows "\<exists>t h. fire_entry e s = Some t \<and> wheel_lists (B(h := B h @ [e])) t \<and> same_wheel s t
    \<and> fired t = fired s @ [timer_call s e] \<and> (\<forall>x. x \<noteq> e \<longrightarrow> pool t x = pool s x)
    \<and> (if period_ticks (pool s e) = 0 then h = FreeEntries
       else h \<in> Level0 ` ({..<256} - {unat (cursor s)}) \<and> timer_call t e = timer_call s e
         \<and> period_ticks (pool t e) = period_ticks (pool s e))"
proof -
  let ?s = "call_back e s"
  have w': "wheel_lists B ?s" using w wheel_lists_links [of ?s s] by (simp add: call_back_def)
  have f: "same_wheel s ?s" "pool ?s = pool s" "fired ?s = fired s @ [timer_call s e]"
    by (simp_all add: call_back_def same_wheel_def timer_call_def)
  show ?thesis
  proof (cases "period_ticks (pool s e) = 0")
    case True
    then have "fire_entry e s = timer_free_entry e ?s" by (simp add: fire_entry_def Let_def f)
    then show ?thesis
      using timer_free_entry_wheel [OF w' e] True l f by (auto simp: same_wheel_def)
  next
    case False
    let ?u = "set_timer_entry e (\<lambda>x. x\<lparr>deadline_ticks := tick_count ?s + period_ticks x\<rparr>) ?s"
    have fe: "fire_entry e s = insert_entry e ?u"
      using False by (simp add: fire_entry_def Let_def f word_gt_0)
    have wu: "wheel_lists B ?u" using w' wheel_lists_links [of ?u ?s] by (simp add: set_timer_entry_def)
    have uf: "same_wheel s ?u" "fired ?u = fired ?s"
      "pool ?u = (pool s)(e := (pool s e)\<lparr>deadline_ticks := tick_count ?s + period_ticks (pool s e)\<rparr>)"
      using f by (simp_all add: set_timer_entry_def same_wheel_def)
    define m where "m = max 1 (unat (ticks_left e ?u))"
    have "unat (ticks_left e ?u) \<le> unat (period_ticks (pool s e))"
      unfolding unat_ticks_left using uf f
      by (simp add: same_wheel_def unat_word_ariths)
    moreover have "unat (period_ticks (pool s e)) < 256" using p by (simp add: word_less_nat_alt)
    ultimately have r: "unat (ticks_left e ?u) < 256" and m: "0 < m" "m < 256" by (auto simp: m_def)
    have "cursor ?u < 256" using c uf by (simp add: same_wheel_def)
    from insert_entry_near [OF wu e this r] obtain t lv sl where
      t: "insert_entry e ?u = Some t"
        "wheel_lists (B(Level0 ((unat (cursor ?u) + m) mod 256) := B (Level0 ((unat (cursor ?u) + m) mod 256)) @ [e])) t"
        "same_wheel ?u t" "fired t = fired ?u" "pool t = (pool ?u)(e := (pool ?u e)\<lparr>wheel_level := lv, wheel_slot := sl\<rparr>)"
      unfolding m_def by blast
    have "unat (cursor s) < 256" using c by (simp add: word_less_nat_alt)
    then have "(unat (cursor ?u) + m) mod 256 \<noteq> unat (cursor s)"
      using slot_moves [of "unat (cursor s)" m] m uf by (simp add: same_wheel_def)
    then show ?thesis
      using fe t uf f False by (intro exI [of _ t] exI [of _ "Level0 ((unat (cursor ?u) + m) mod 256)"])
        (auto simp: same_wheel_def timer_call_def)
  qed
qed

text \<open>What draining the bucket \<open>c\<close> of the entries \<open>xs\<close> does to the buckets of the lower level: an entry
  of another bucket stays, a periodic entry of \<open>xs\<close> is in another bucket, and nothing else is listed.\<close>

definition drained :: "nat \<Rightarrow> nat list \<Rightarrow> (node \<Rightarrow> nat list) \<Rightarrow> timers \<Rightarrow> (node \<Rightarrow> nat list) \<Rightarrow> timers \<Rightarrow> bool" where
  "drained c xs B s B' t \<longleftrightarrow>
     (\<forall>i x. x \<in> set (B' (Level0 i)) \<longrightarrow> timer_call t x = timer_call s x
        \<and> period_ticks (pool t x) = period_ticks (pool s x)
        \<and> (x \<in> set (B (Level0 i)) \<and> i \<noteq> c \<or> x \<in> set xs \<and> period_ticks (pool s x) \<noteq> 0))
     \<and> (\<forall>i x. i \<noteq> c \<longrightarrow> x \<in> set (B (Level0 i)) \<longrightarrow> x \<in> set (B' (Level0 i)))
     \<and> B' (Level0 c) = [] \<and> (\<forall>i. B' (Level1 i) = B (Level1 i))"

lemma pop_bucket:
  assumes w: "wheel_lists B s" and h: "is_head h" and B: "B h = e # es"
  shows "\<exists>t. list_pop_front h s = Some (Some (Entry e), t) \<and> wheel_lists (B(h := es)) t
    \<and> unlisted (B(h := es)) e \<and> e \<notin> set es \<and> only_links UNIV s t \<and> \<not> list_empty h s"
proof -
  have r: "ring h (map Entry (e # es)) s" using w h unfolding B [symmetric] by (simp add: wheel_lists_def)
  from pop_front_ring(2) [OF r] obtain t where t: "list_pop_front h s = Some (Some (Entry e), t)"
    "ring h (map Entry es) t" "only_links (set (h # map Entry (e # es))) s t" by fastforce
  have d: "e \<notin> set es" using r by (auto simp: ring_def)
  have "wheel_lists (B(h := es)) t"
    by (rule wheel_lists_frame [OF w h t(3), where E = "{}"]) (use t(2) B in auto)
  moreover have "unlisted (B(h := es)) e"
    using d wheel_lists_apart [OF w h _ _, of _ e] B by (auto simp: unlisted_def)
  moreover have "\<not> list_empty h s" using r h by (auto simp: ring_def linked_def list_empty_def)
  ultimately show ?thesis using t d by (auto simp: only_links_def)
qed

lemma fire_loop_drains:
  assumes "wheel_lists B s" and "B (Level0 c) = xs" and "c = unat (cursor s)" and "cursor s < 256"
    and "\<not> timer_lock s" and "\<forall>x\<in>set xs. period_ticks (pool s x) < 256"
  shows "\<exists>t B'. fire_loop (Level0 c) s = Some t \<and> wheel_lists B' t \<and> same_wheel s t
    \<and> fired t = fired s @ map (timer_call s) xs \<and> drained c xs B s B' t"
  using assms
proof (induction xs arbitrary: B s)
  case Nil
  then have "ring (Level0 c) [] s" unfolding wheel_lists_def by (metis is_head.simps(2) list.map(1))
  then have "list_empty (Level0 c) s" by (auto simp: ring_def linked_def list_empty_def)
  then have "fire_loop (Level0 c) s = Some s" by (subst fire_loop.simps) simp
  then show ?case using Nil by (intro exI [of _ s] exI [of _ B]) (auto simp: same_wheel_def drained_def)
next
  case (Cons e es)
  let ?B = "B(Level0 c := es)"
  from pop_bucket [OF Cons.prems(1) _ Cons.prems(2)] obtain a where
    a: "list_pop_front (Level0 c) s = Some (Some (Entry e), a)" "wheel_lists ?B a" "unlisted ?B e" "e \<notin> set es"
      "only_links UNIV s a" "\<not> list_empty (Level0 c) s" by auto
  note af = only_links_fields [OF a(5)]
  from fire_entry_wheel [OF a(2,3)] obtain b h where
    b: "fire_entry e a = Some b" "wheel_lists (?B(h := ?B h @ [e])) b" "same_wheel a b"
      "fired b = fired a @ [timer_call a e]" "\<forall>x. x \<noteq> e \<longrightarrow> pool b x = pool a x"
      "if period_ticks (pool a e) = 0 then h = FreeEntries
       else h \<in> Level0 ` ({..<256} - {unat (cursor a)}) \<and> timer_call b e = timer_call a e
         \<and> period_ticks (pool b e) = period_ticks (pool a e)"
    using Cons.prems(4-6) af by auto
  have hc: "h \<noteq> Level0 c" using b(6) af Cons.prems(3) by (auto split: if_splits)
  have same: "timer_call b x = timer_call s x \<and> period_ticks (pool b x) = period_ticks (pool s x)" if "x \<noteq> e" for x
    using b(5) af that by (simp add: timer_call_def)
  have bc: "(?B(h := ?B h @ [e])) (Level0 c) = es" using hc by simp
  have bf: "c = unat (cursor b)" "cursor b < 256" "\<not> timer_lock b"
    using Cons.prems(3-5) b(3) af by (simp_all add: same_wheel_def)
  have bp: "\<forall>x\<in>set es. period_ticks (pool b x) < 256" using Cons.prems(6) same a(4) by (metis list.set_intros(2))
  from Cons.IH [OF b(2) bc bf bp] obtain t B' where
    t: "fire_loop (Level0 c) b = Some t" "wheel_lists B' t" "same_wheel b t"
      "fired t = fired b @ map (timer_call b) es" "drained c es (?B(h := ?B h @ [e])) b B' t" by blast
  have "fire_loop (Level0 c) s = Some t"
    using a(1,6) b(1) t(1) by (subst fire_loop.simps) (simp add: node_entry_def)
  moreover have "same_wheel s t" using t(3) b(3) af by (simp add: same_wheel_def)
  moreover have "map (timer_call b) es = map (timer_call s) es" using same a(4) by (metis map_eq_conv)
  then have "fired t = fired s @ map (timer_call s) (e # es)"
    using t(4) b(4) af by (simp add: timer_call_def)
  moreover have "drained c (e # es) B s B' t"
    unfolding drained_def
  proof (intro conjI allI impI)
    fix i x
    assume x: "x \<in> set (B' (Level0 i))"
    then have d: "timer_call t x = timer_call b x" "period_ticks (pool t x) = period_ticks (pool b x)"
      "x \<in> set ((?B(h := ?B h @ [e])) (Level0 i)) \<and> i \<noteq> c \<or> x \<in> set es \<and> period_ticks (pool b x) \<noteq> 0"
      using t(5) by (auto simp: drained_def)
    have "e \<notin> set (?B (Level0 i))" using a(3) unfolding unlisted_def by (metis is_head.simps(2))
    then have "h = Level0 i" if "x = e" using d(3) that a(4) by (auto split: if_splits)
    then have eh: "period_ticks (pool s e) \<noteq> 0 \<and> h = Level0 i" if "x = e"
      using that b(6) af by (auto split: if_splits)
    then have k: "timer_call b x = timer_call s x \<and> period_ticks (pool b x) = period_ticks (pool s x)"
      using same b(6) af by (cases "x = e") (auto simp: timer_call_def)
    show "timer_call t x = timer_call s x" "period_ticks (pool t x) = period_ticks (pool s x)" using d k by auto
    show "x \<in> set (B (Level0 i)) \<and> i \<noteq> c \<or> x \<in> set (e # es) \<and> period_ticks (pool s x) \<noteq> 0"
      using d(3) k eh by (cases "x = e") (auto split: if_splits)
  next
    fix i x
    assume i: "i \<noteq> c" and "x \<in> set (B (Level0 i))"
    then have "x \<in> set ((?B(h := ?B h @ [e])) (Level0 i))" by auto
    then show "x \<in> set (B' (Level0 i))" using t(5) i unfolding drained_def by blast
  next
    show "B' (Level0 c) = []" using t(5) by (simp add: drained_def)
    show "B' (Level1 i) = B (Level1 i)" for i
      using t(5) b(6) by (auto simp: drained_def split: if_splits)
  qed
  ultimately show ?case using t(2) by blast
qed

text \<open>The wheels whose timers are all in the lower level: the upper one is empty, and a periodic timer
  has a period below a turn.\<close>

definition near_wheel :: "(node \<Rightarrow> nat list) \<Rightarrow> timers \<Rightarrow> bool" where
  "near_wheel B s \<longleftrightarrow> wheel_lists B s \<and> timer_initialized s \<and> \<not> timer_lock s \<and> cursor s < 256
     \<and> (\<forall>i. B (Level1 i) = []) \<and> (\<forall>i. \<forall>e\<in>set (B (Level0 i)). period_ticks (pool s e) < 256)"

lemma cascade_nothing:
  assumes "wheel_lists B s" and "\<forall>i. B (Level1 i) = []"
  shows "\<exists>c. cascade s = Some (s\<lparr>l1_cursor := c\<rparr>)"
proof -
  have "ring (Level1 i) [] s" for i using assms unfolding wheel_lists_def by (metis is_head.simps(3) list.map(1))
  then have "list_empty (Level1 i) s" for i by (auto simp: ring_def linked_def list_empty_def)
  then have "cascade_loop (Level1 i) s = Some s" for i by (subst cascade_loop.simps) simp
  then show ?thesis unfolding cascade_def by (intro exI) simp
qed

lemma timer_tick_near:
  assumes "near_wheel B s"
  defines "c \<equiv> unat (cursor s)"
  shows "\<exists>t B'. timer_tick (bsp_lapic_id s) s = Some t \<and> near_wheel B' t \<and> bsp_lapic_id t = bsp_lapic_id s
    \<and> unat (cursor t) = (c + 1) mod 256 \<and> fired t = fired s @ map (timer_call s) (B (Level0 c))
    \<and> drained c (B (Level0 c)) B s B' t"
proof -
  let ?s = "s\<lparr>tick_count := tick_count s + 1\<rparr>"
  note n = assms(1) [unfolded near_wheel_def]
  have ws: "wheel_lists B ?s" using n wheel_lists_links [of ?s s] by simp
  have cs: "c = unat (cursor ?s)" "cursor ?s < 256" "\<not> timer_lock ?s"
    "\<forall>x\<in>set (B (Level0 c)). period_ticks (pool ?s x) < 256" using n by (auto simp: c_def)
  from fire_loop_drains [OF ws refl cs] obtain a B' where
    a: "fire_loop (Level0 c) ?s = Some a" "wheel_lists B' a" "same_wheel ?s a"
      "fired a = fired ?s @ map (timer_call ?s) (B (Level0 c))" "drained c (B (Level0 c)) B ?s B' a" by blast
  have cl: "timer_call ?s = timer_call s" by (simp add: timer_call_def fun_eq_iff)
  have dr: "drained c (B (Level0 c)) B s B' a" using a(5) by (simp add: drained_def timer_call_def)
  have l1: "\<forall>i. B' (Level1 i) = []" using n a(5) by (simp add: drained_def)
  have per: "\<forall>i. \<forall>e\<in>set (B' (Level0 i)). period_ticks (pool a e) < 256"
    using n dr unfolding drained_def by metis
  let ?a = "a\<lparr>cursor := cursor a + 1\<rparr>"
  have ca: "cursor a < 256" "c = unat (cursor a)" using a(3) cs by (simp_all add: same_wheel_def)
  then have c256: "c < 256" by (simp add: word_less_nat_alt)
  have uc: "unat (cursor a + 1) = c + 1" using c256 ca by (simp add: unat_word_ariths)
  have wrap: "(ucast (cursor a + 1) = kBucketCount) = (c + 1 = 256)"
    using uc c256 by (simp add: word_unat_eq_iff kBucketCount_def unsigned_ucast_eq take_bit_nat_eq_self)
  have tk: "timer_tick (bsp_lapic_id s) s
      = (if c + 1 = 256 then cascade (?a\<lparr>cursor := 0\<rparr>) else Some ?a)"
    using n a(1) wrap by (simp add: timer_tick_def Let_def c_def)
  have fin: "near_wheel B' t \<and> bsp_lapic_id t = bsp_lapic_id s \<and> fired t = fired s @ map (timer_call s) (B (Level0 c))
      \<and> drained c (B (Level0 c)) B s B' t" if "t = a\<lparr>cursor := k, l1_cursor := l\<rparr>" "k < 256" for t k l
  proof -
    have "wheel_lists B' t" using a(2) wheel_lists_links [of t a] that by simp
    then show ?thesis using that a(3,4) l1 per dr n cl
      by (simp add: near_wheel_def same_wheel_def drained_def timer_call_def)
  qed
  show ?thesis
  proof (cases "c + 1 = 256")
    case True
    let ?z = "?a\<lparr>cursor := 0\<rparr>"
    have "wheel_lists B' ?z" using a(2) wheel_lists_links [of ?z a] by simp
    from cascade_nothing [OF this l1] obtain l where "cascade ?z = Some (?z\<lparr>l1_cursor := l\<rparr>)" by blast
    then show ?thesis using tk True fin [where t = "?z\<lparr>l1_cursor := l\<rparr>" and k = 0 and l = l] by (intro exI [of _ "?z\<lparr>l1_cursor := l\<rparr>"] exI [of _ B']) simp
  next
    case False
    have "cursor a + 1 < 256" using uc False c256 by (simp add: word_less_nat_alt)
    then show ?thesis using tk False c256 uc fin [where t = ?a and k = "cursor a + 1" and l = "l1_cursor a"]
      by (intro exI [of _ ?a] exI [of _ B']) simp
  qed
qed

text \<open>The state after a number of ticks of the timer of the boot processor.\<close>

primrec timer_ticks :: "nat \<Rightarrow> timers \<Rightarrow> timers option" where
  "timer_ticks 0 s = Some s"
| "timer_ticks (Suc k) s = Option.bind (timer_tick (bsp_lapic_id s) s) (timer_ticks k)"

definition quiet :: "u64 \<times> u64 \<Rightarrow> (node \<Rightarrow> nat list) \<Rightarrow> timers \<Rightarrow> bool" where
  "quiet a B s \<longleftrightarrow> (\<forall>i. \<forall>x\<in>set (B (Level0 i)). timer_call s x \<noteq> a)"

text \<open>The one-shot timer \<open>e\<close>, the only one that makes the call \<open>a\<close>, is \<open>r\<close> buckets ahead.\<close>

definition awaiting :: "nat \<Rightarrow> u64 \<times> u64 \<Rightarrow> nat \<Rightarrow> (node \<Rightarrow> nat list) \<Rightarrow> timers \<Rightarrow> bool" where
  "awaiting e a r B s \<longleftrightarrow> r < 256 \<and> e \<in> set (B (Level0 ((unat (cursor s) + r) mod 256)))
     \<and> timer_call s e = a \<and> period_ticks (pool s e) = 0
     \<and> (\<forall>i. \<forall>x\<in>set (B (Level0 i)). timer_call s x = a \<longrightarrow> x = e)"

lemma drained_listed:
  assumes "drained c (B (Level0 c)) B s B' t" and "x \<in> set (B' (Level0 i))"
  shows "timer_call t x = timer_call s x \<and> period_ticks (pool t x) = period_ticks (pool s x)
    \<and> (\<exists>j. x \<in> set (B (Level0 j))) \<and> (x \<in> set (B (Level0 i)) \<and> i \<noteq> c \<or> period_ticks (pool s x) \<noteq> 0)"
  using assms unfolding drained_def by blast

lemma count_list_map_zero: "\<forall>x\<in>set xs. f x \<noteq> a \<Longrightarrow> count_list (map f xs) a = 0"
  by (induction xs) auto

lemma count_list_map_one:
  "distinct xs \<Longrightarrow> e \<in> set xs \<Longrightarrow> f e = a \<Longrightarrow> \<forall>x\<in>set xs. x \<noteq> e \<longrightarrow> f x \<noteq> a \<Longrightarrow> count_list (map f xs) a = 1"
proof (induction xs)
  case (Cons x xs)
  show ?case
  proof (cases "x = e")
    case True
    then have "f y \<noteq> a" if "y \<in> set xs" for y
      using that Cons.prems(1) bspec [OF Cons.prems(4), of y] by (metis distinct.simps(2) list.set_intros(2))
    then have "count_list (map f xs) a = 0" by (intro count_list_map_zero) blast
    then show ?thesis using True Cons.prems(3) by simp
  next
    case False
    then have "f x \<noteq> a" using Cons.prems(4) by auto
    moreover have "count_list (map f xs) a = 1" using Cons.prems False by (intro Cons.IH) simp_all
    ultimately show ?thesis by simp
  qed
qed simp

lemma quiet_ticks:
  assumes "near_wheel B s" and "quiet a B s"
  shows "\<exists>t. timer_ticks k s = Some t \<and> count_list (fired t) a = count_list (fired s) a"
  using assms
proof (induction k arbitrary: B s)
  case (Suc k)
  let ?c = "unat (cursor s)"
  from timer_tick_near [OF Suc.prems(1)] obtain t B' where
    t: "timer_tick (bsp_lapic_id s) s = Some t" "near_wheel B' t"
      "fired t = fired s @ map (timer_call s) (B (Level0 ?c))" "drained ?c (B (Level0 ?c)) B s B' t" by blast
  have "quiet a B' t"
    unfolding quiet_def
  proof (intro allI ballI)
    fix i x
    assume "x \<in> set (B' (Level0 i))"
    from drained_listed [OF t(4) this] show "timer_call t x \<noteq> a" using Suc.prems(2) by (auto simp: quiet_def)
  qed
  from Suc.IH [OF t(2) this] show ?case
    using t(1,3) Suc.prems(2) by (auto simp: quiet_def count_list_map_zero)
qed simp

lemma awaiting_ticks:
  assumes "near_wheel B s" and "awaiting e a r B s"
  shows "\<exists>t. timer_ticks k s = Some t \<and> count_list (fired t) a = count_list (fired s) a + (if k \<le> r then 0 else 1)"
  using assms
proof (induction k arbitrary: r B s)
  case (Suc k)
  let ?c = "unat (cursor s)"
  let ?b = "B (Level0 ?c)"
  from timer_tick_near [OF Suc.prems(1)] obtain t B' where
    t: "timer_tick (bsp_lapic_id s) s = Some t" "near_wheel B' t" "unat (cursor t) = (?c + 1) mod 256"
      "fired t = fired s @ map (timer_call s) ?b" "drained ?c ?b B s B' t" by blast
  have w: "wheel_lists B s" "?c < 256" using Suc.prems(1) by (auto simp: near_wheel_def word_less_nat_alt)
  then have "distinct (map Entry ?b)" by (auto simp: wheel_lists_def ring_def)
  then have db: "distinct ?b" by (simp add: distinct_map)
  note aw = Suc.prems(2) [unfolded awaiting_def]
  show ?case
  proof (cases r)
    case 0
    then have e: "e \<in> set ?b" using aw w by simp
    have "count_list (map (timer_call s) ?b) a = 1" using aw e db by (intro count_list_map_one) auto
    moreover have "quiet a B' t"
      unfolding quiet_def
    proof (intro allI ballI notI)
      fix i x
      assume x: "x \<in> set (B' (Level0 i))" "timer_call t x = a"
      then have "x = e" "x \<in> set (B (Level0 i)) \<and> i \<noteq> ?c \<or> period_ticks (pool s x) \<noteq> 0"
        using drained_listed [OF t(5) x(1)] aw by auto
      moreover have "e \<notin> set (B (Level0 i))" if "i \<noteq> ?c"
        using that e wheel_lists_apart [OF w(1), of "Level0 ?c" "Level0 i" e] by simp
      ultimately show False using aw by auto
    qed
    ultimately show ?thesis using quiet_ticks [OF t(2), of a k] t(1,4) 0 by auto
  next
    case r: (Suc q)
    then have ne: "(?c + r) mod 256 \<noteq> ?c" using slot_moves [of ?c r] aw w by simp
    then have "e \<notin> set ?b"
      using aw wheel_lists_apart [OF w(1), of "Level0 ((?c + r) mod 256)" "Level0 ?c" e] by auto
    then have z: "count_list (map (timer_call s) ?b) a = 0" using aw by (intro count_list_map_zero) auto
    have slot: "(unat (cursor t) + q) mod 256 = (?c + r) mod 256" using t(3) r by (simp add: mod_simps)
    have in': "e \<in> set (B' (Level0 ((?c + r) mod 256)))" using aw ne t(5) by (auto simp: drained_def)
    then have "timer_call t e = a" "period_ticks (pool t e) = 0" using drained_listed [OF t(5) in'] aw by auto
    moreover have "\<forall>i. \<forall>x\<in>set (B' (Level0 i)). timer_call t x = a \<longrightarrow> x = e"
    proof (intro allI ballI impI)
      fix i x
      assume "x \<in> set (B' (Level0 i))" "timer_call t x = a"
      then show "x = e" using drained_listed [OF t(5), of x i] aw by auto
    qed
    moreover have "q < 256" using conjunct1 [OF aw] r by simp
    moreover have "e \<in> set (B' (Level0 ((unat (cursor t) + q) mod 256)))" using in' by (simp only: slot)
    ultimately have "awaiting e a q B' t" unfolding awaiting_def by blast
    from Suc.IH [OF t(2) this] obtain u where
      "timer_ticks k t = Some u" "count_list (fired u) a = count_list (fired t) a + (if k \<le> q then 0 else 1)" by blast
    then show ?thesis using t(1,4) z r by simp
  qed
qed simp

section \<open>Creating a timer\<close>

lemma insert_entry_far:
  assumes "timer_lock s" and "period_ticks (pool s e) = 0" and "65536 \<le> unat (ticks_left e s)"
  shows "insert_entry e s = None"
  using assms timer_free_entry_locked [of "call_back e s" e]
  by (subst insert_entry.simps) (simp add: Let_def kBucketCount_def word_less_nat_alt call_back_def)

lemma locked_insert_near:
  assumes w: "wheel_lists B s" and e: "unlisted B e" and l: "\<not> timer_lock s" and c: "cursor s < 256"
    and r: "unat (ticks_left e s) < 256"
  defines "h \<equiv> Level0 ((unat (cursor s) + max 1 (unat (ticks_left e s))) mod 256)"
  shows "\<exists>t lv sl. locked_insert e s = Some t \<and> wheel_lists (B(h := B h @ [e])) t \<and> same_wheel s t
    \<and> fired t = fired s \<and> pool t = (pool s)(e := (pool s e)\<lparr>wheel_level := lv, wheel_slot := sl\<rparr>)"
proof -
  let ?s = "s\<lparr>timer_lock := True\<rparr>"
  have ws: "wheel_lists B ?s" using w wheel_lists_links [of ?s s] by simp
  have eq: "ticks_left e ?s = ticks_left e s" by (simp add: ticks_left_def)
  from insert_entry_near [OF ws e] obtain t lv sl where
    t: "insert_entry e ?s = Some t" "wheel_lists (B(h := B h @ [e])) t" "same_wheel ?s t" "fired t = fired s"
      "pool t = (pool s)(e := (pool s e)\<lparr>wheel_level := lv, wheel_slot := sl\<rparr>)"
    using c r eq unfolding h_def by auto
  let ?t = "t\<lparr>timer_lock := False\<rparr>"
  have "locked_insert e s = Some ?t" using t(1) l by (simp add: locked_insert_def with_timer_lock_def)
  moreover have "wheel_lists (B(h := B h @ [e])) ?t" using t(2) wheel_lists_links [of ?t t] by simp
  ultimately show ?thesis using t(3-5) l by (auto simp: same_wheel_def)
qed

text \<open>C19. On a wheel whose timers are all less than 256 ticks away, creating a one-shot timer takes the first
  free entry, or returns null when there is none.  If the deadline is \<open>n < 256\<close> ticks ahead, it adds the
  entry to one bucket and calls nothing; when no other timer makes the same call, every later tick
  returns, the callback has not been called after \<open>max 1 n\<close> ticks, is called in the next one, and is never
  called again.  If the deadline is 65536 ticks ahead or more, creating the timer never returns.\<close>

theorem create_oneshot_correct:
  assumes "near_wheel B s" and "cb \<noteq> 0" and "quiet (cb, ud) B s"
  shows "case B FreeEntries of
      [] \<Rightarrow> create_oneshot d cb ud s = Some (None, s)
    | e # es \<Rightarrow>
        (let n = unat d - unat (tick_count s) in
          (n < 256 \<longrightarrow> (\<exists>t i. create_oneshot d cb ud s = Some (Some e, t)
            \<and> near_wheel (B(FreeEntries := es, Level0 i := B (Level0 i) @ [e])) t
            \<and> (\<forall>x. x \<noteq> e \<longrightarrow> pool t x = pool s x) \<and> fired t = fired s \<and> tick_count t = tick_count s
            \<and> (\<forall>k. \<exists>u. timer_ticks k t = Some u \<and> count_list (fired u) (cb, ud)
                 = count_list (fired s) (cb, ud) + (if k \<le> max 1 n then 0 else 1))))
          \<and> (65536 \<le> n \<longrightarrow> create_oneshot d cb ud s = None))"
proof (cases "B FreeEntries")
  case Nil
  then show ?thesis
    using alloc_entry_wheel(1) [of B s] assms(1,2) by (simp add: create_oneshot_def near_wheel_def)
next
  case (Cons e es)
  let ?B = "B(FreeEntries := es)"
  note n = assms(1) [unfolded near_wheel_def]
  from alloc_entry_wheel(2) [of B s e es] n Cons obtain a where
    a: "alloc_entry s = Some (Some e, a)" "wheel_lists ?B a" "unlisted ?B e" "only_links UNIV s a" by blast
  note af = only_links_fields [OF a(4)]
  define u where "u = set_timer_entry e (\<lambda>x. x\<lparr>deadline_ticks := d, period_ticks := 0, callback := cb, user_data := ud\<rparr>) a"
  have uf: "pool u = (pool s)(e := (pool s e)\<lparr>deadline_ticks := d, period_ticks := 0, callback := cb, user_data := ud\<rparr>)"
    "same_wheel s u" "fired u = fired s"
    using af by (simp_all add: u_def set_timer_entry_def same_wheel_def)
  have wu: "wheel_lists ?B u" using a(2) wheel_lists_links [of u a] by (simp add: u_def set_timer_entry_def)
  have cr: "create_oneshot d cb ud s = Option.bind (locked_insert e u) (\<lambda>t. Some (Some e, t))"
    using n assms(2) a(1) by (simp add: create_oneshot_def u_def)
  define n where "n = unat d - unat (tick_count s)"
  have left: "unat (ticks_left e u) = n" using uf by (simp add: unat_ticks_left n_def same_wheel_def)
  have near: "\<exists>t i. create_oneshot d cb ud s = Some (Some e, t)
      \<and> near_wheel (B(FreeEntries := es, Level0 i := B (Level0 i) @ [e])) t
      \<and> (\<forall>x. x \<noteq> e \<longrightarrow> pool t x = pool s x) \<and> fired t = fired s \<and> tick_count t = tick_count s
      \<and> (\<forall>k. \<exists>u. timer_ticks k t = Some u \<and> count_list (fired u) (cb, ud)
           = count_list (fired s) (cb, ud) + (if k \<le> max 1 n then 0 else 1))" if n256: "n < 256"
  proof -
    define i where "i = (unat (cursor s) + max 1 n) mod 256"
    let ?C = "?B(Level0 i := B (Level0 i) @ [e])"
    have "\<not> timer_lock u" "cursor u < 256" "unat (ticks_left e u) < 256"
      using uf n n256 left by (simp_all add: same_wheel_def near_wheel_def)
    from locked_insert_near [OF wu a(3) this] obtain t lv sl where
      t: "locked_insert e u = Some t" "wheel_lists ?C t" "same_wheel u t" "fired t = fired u"
        "pool t = (pool u)(e := (pool u e)\<lparr>wheel_level := lv, wheel_slot := sl\<rparr>)"
      using left uf by (auto simp: i_def same_wheel_def)
    have tc: "timer_call t e = (cb, ud)" "period_ticks (pool t e) = 0" using t(5) uf by (simp_all add: timer_call_def)
    have other: "x \<noteq> e" if "x \<in> set (B (Level0 j))" for j x
      using a(3) that by (auto simp: unlisted_def dest: spec [of _ "Level0 j"])
    have po: "pool t x = pool s x" if "x \<noteq> e" for x using that t(5) uf by simp
    have nw: "near_wheel ?C t"
      using n t(2,3) uf tc(2) po other by (auto simp: near_wheel_def same_wheel_def)
    have "awaiting e (cb, ud) (max 1 n) ?C t"
      using tc n256 other po assms(3) t(3) uf
      by (auto simp: awaiting_def quiet_def timer_call_def same_wheel_def i_def split: if_splits)
    note k = awaiting_ticks [OF nw this]
    show ?thesis using cr t nw po uf k by (intro exI [of _ t] exI [of _ i]) (simp add: same_wheel_def)
  qed
  have "create_oneshot d cb ud s = None" if "65536 \<le> n"
  proof -
    have "ticks_left e (u\<lparr>timer_lock := True\<rparr>) = ticks_left e u" by (simp add: ticks_left_def)
    then have "insert_entry e (u\<lparr>timer_lock := True\<rparr>) = None"
      using uf left that by (intro insert_entry_far) simp_all
    then show ?thesis using cr by (simp add: locked_insert_def with_timer_lock_def)
  qed
  then show ?thesis using near Cons by (simp add: n_def)
qed

text \<open>A wheel with one free entry.\<close>

definition example_wheel :: timers where
  "example_wheel = \<lparr>
     list_next = (\<lambda>n. case n of FreeEntries \<Rightarrow> Some (Entry 0) | Entry e \<Rightarrow> Some FreeEntries | _ \<Rightarrow> None),
     list_prev = (\<lambda>n. case n of FreeEntries \<Rightarrow> Some (Entry 0) | Entry e \<Rightarrow> Some FreeEntries | _ \<Rightarrow> None),
     pool = (\<lambda>_. \<lparr>deadline_ticks = 0, period_ticks = 0, callback = 0, user_data = 0, wheel_level = 0, wheel_slot = 0\<rparr>),
     cursor = 250, l1_cursor = 0, tick_count = 1000, timer_initialized = True, bsp_lapic_id = 0,
     timer_lock = False, fired = []\<rparr>"

definition example_lists :: "node \<Rightarrow> nat list" where
  "example_lists n = (if n = FreeEntries then [0] else [])"

lemma example_wheel_lists: "wheel_lists example_lists example_wheel"
proof -
  have "ring h (map Entry (example_lists h)) example_wheel" if "is_head h" for h
    using that by (cases h) (auto simp: ring_def example_lists_def example_wheel_def linked_def)
  moreover have "set (example_lists g) \<inter> set (example_lists h) = {}" if "g \<noteq> h" for g h
    using that by (cases "g = FreeEntries") (simp_all add: example_lists_def)
  ultimately show ?thesis by (simp add: wheel_lists_def)
qed

theorem create_oneshot_correct_witness:
  "(\<exists>t u v. create_oneshot 1010 7 3 example_wheel = Some (Some 0, t)
      \<and> timer_ticks 10 t = Some u \<and> count_list (fired u) (7, 3) = 0
      \<and> timer_ticks 11 t = Some v \<and> count_list (fired v) (7, 3) = 1)
    \<and> create_oneshot 70000 7 3 example_wheel = None"
proof
  have f: "tick_count example_wheel = 1000" "fired example_wheel = []" by (simp_all add: example_wheel_def)
  have n: "near_wheel example_lists example_wheel"
    using example_wheel_lists by (simp add: near_wheel_def example_lists_def example_wheel_def)
  have q: "quiet (7, 3) example_lists example_wheel" by (simp add: quiet_def example_lists_def)
  have B: "example_lists FreeEntries = [0]" by (simp add: example_lists_def)
  note c = create_oneshot_correct [OF n _ q, unfolded B list.case Let_def f]
  from c [of 1010] obtain t where t: "create_oneshot 1010 7 3 example_wheel = Some (Some 0, t)"
    "\<forall>k. \<exists>u. timer_ticks k t = Some u \<and> count_list (fired u) (7, 3) = (if k \<le> 10 then 0 else 1)" by auto
  show "\<exists>t u v. create_oneshot 1010 7 3 example_wheel = Some (Some 0, t)
      \<and> timer_ticks 10 t = Some u \<and> count_list (fired u) (7, 3) = 0
      \<and> timer_ticks 11 t = Some v \<and> count_list (fired v) (7, 3) = 1"
    using t(1) spec [OF t(2), of 10] spec [OF t(2), of 11] by (auto simp del: timer_ticks.simps)
  show "create_oneshot 70000 7 3 example_wheel = None" using c [of 70000] by simp
qed

section \<open>Cascading\<close>

lemma insert_level1_bucket:
  assumes "256 \<le> unat r" and "unat r < 65536"
  shows "insert_level1 e r s = list_push_back (Level1 (unat r div 256 - 1)) (Entry e)
    (set_timer_entry e (\<lambda>x. x\<lparr>wheel_level := 1, wheel_slot := ucast (r div kBucketCount - 1)\<rparr>) s)"
proof -
  have q: "unat (r div kBucketCount) = unat r div 256" by (simp add: unat_div kBucketCount_def)
  then have "1 \<le> r div kBucketCount" using assms(1) by (simp add: word_le_nat_alt)
  then have u: "unat (r div kBucketCount - 1) = unat r div 256 - 1" by (simp add: unat_sub q)
  then have "\<not> r div kBucketCount - 1 \<ge> kBucketCount"
    using assms(2) by (simp add: word_le_nat_alt kBucketCount_def)
  then show ?thesis by (simp add: insert_level1_def Let_def u)
qed

text \<open>The bucket of the upper level does not depend on \<open>l1_cursor\<close>, so an entry that is still more than a
  turn away can go back into the bucket that is being emptied.\<close>

lemma cascade_step_stuck:
  assumes r: "ring (Level1 j) [Entry e] s" and b: "256 \<le> unat (ticks_left e s)" "unat (ticks_left e s) < 65536"
    and j: "unat (ticks_left e s) div 256 - 1 = j"
  shows "\<exists>t u. list_pop_front (Level1 j) s = Some (Some (Entry e), t) \<and> ticks_left e t = ticks_left e s
    \<and> insert_level1 e (ticks_left e s) t = Some u \<and> ring (Level1 j) [Entry e] u \<and> ticks_left e u = ticks_left e s"
proof -
  from pop_front_ring(2) [OF r, of "Entry e" "[]"] obtain t where
    t: "list_pop_front (Level1 j) s = Some (Some (Entry e), t)" "ring (Level1 j) [] t"
      "only_links (set [Level1 j, Entry e]) s t" by auto
  define v where "v = set_timer_entry e
    (\<lambda>x. x\<lparr>wheel_level := 1, wheel_slot := ucast (ticks_left e s div kBucketCount - 1)\<rparr>) t"
  have "ring (Level1 j) [] v" using t(2) ring_cong [of "Level1 j" "[]" v t] by (simp add: v_def set_timer_entry_def)
  from push_back_ring [OF this, of "Entry e"] obtain u where
    u: "list_push_back (Level1 j) (Entry e) v = Some u" "ring (Level1 j) [Entry e] u"
      "only_links (set [Entry e, Level1 j]) v u" by auto
  have "insert_level1 e (ticks_left e s) t = Some u"
    using insert_level1_bucket [OF b, of e t] u(1) j by (simp add: v_def)
  moreover have "ticks_left e t = ticks_left e s" using only_links_fields [OF t(3)] by (simp add: ticks_left_def)
  moreover have "ticks_left e u = ticks_left e s"
    using only_links_fields [OF t(3)] only_links_fields [OF u(3)]
    by (simp add: ticks_left_def v_def set_timer_entry_def)
  ultimately show ?thesis using t(1) u(2) by blast
qed

definition stuck :: "nat \<Rightarrow> nat \<Rightarrow> timers \<Rightarrow> bool" where
  "stuck j e s \<longleftrightarrow> ring (Level1 j) [Entry e] s \<and> 256 \<le> unat (ticks_left e s) \<and> unat (ticks_left e s) < 65536
     \<and> unat (ticks_left e s) div 256 - 1 = j"

lemma cascade_hangs:
  assumes "stuck j e s"
  shows "cascade_loop (Level1 j) s = None"
proof (rule ccontr)
  assume "cascade_loop (Level1 j) s \<noteq> None"
  then obtain r where "cascade_loop (Level1 j) s = Some r" by blast
  then have "Level1 j = Level1 j \<longrightarrow> \<not> stuck j e s"
  proof (rule cascade_loop.raw_induct [where P = "\<lambda>h s r. h = Level1 j \<longrightarrow> \<not> stuck j e s", rotated])
    fix loop h s r
    assume IH: "\<And>h s r. loop h s = Some r \<Longrightarrow> h = Level1 j \<longrightarrow> \<not> stuck j e s"
      and eq: "(if list_empty h s then Some s
        else do {
          (n, s) \<leftarrow> list_pop_front h s;
          e \<leftarrow> Option.bind (node_entry n) (\<lambda>e. e);
          let remaining = ticks_left e s;
          s \<leftarrow> (if remaining = 0 then fire_entry e s
                else if remaining < kBucketCount then insert_level0 e remaining s
                else insert_level1 e remaining s);
          loop h s
        }) = Some r"
    show "h = Level1 j \<longrightarrow> \<not> stuck j e s"
    proof (intro impI notI)
      assume h: "h = Level1 j" and st: "stuck j e s"
      then have b: "ring (Level1 j) [Entry e] s" "256 \<le> unat (ticks_left e s)" "unat (ticks_left e s) < 65536"
        "unat (ticks_left e s) div 256 - 1 = j" by (auto simp: stuck_def)
      from cascade_step_stuck [OF this] obtain t u where
        t: "list_pop_front (Level1 j) s = Some (Some (Entry e), t)" "ticks_left e t = ticks_left e s"
          "insert_level1 e (ticks_left e s) t = Some u" "ring (Level1 j) [Entry e] u" "ticks_left e u = ticks_left e s"
        by blast
      have ne: "\<not> list_empty (Level1 j) s" using b(1) by (auto simp: ring_def linked_def list_empty_def)
      have g: "ticks_left e s \<noteq> 0" "\<not> ticks_left e s < kBucketCount"
        using b(2) by (auto simp: kBucketCount_def word_less_nat_alt)
      have "loop (Level1 j) u = Some r"
        using eq ne t g unfolding h by (simp add: node_entry_def Let_def)
      moreover have "stuck j e u" using t(4,5) b by (simp add: stuck_def)
      ultimately show False using IH by blast
    qed
  qed
  then show False using assms by simp
qed

end
