(* ===== verification/Tori_Memblock.thy ===== *)
theory Tori_Memblock
  imports Tori_Prelude
begin

text \<open>
  The block device over an image in memory (\<open>kernel/src/block/memblock.cpp\<close>, \<open>block_device.hpp\<close>).  The
  buffer of a read is a function from positions to bytes; \<open>None\<close> is a read past the image.
\<close>

record Memblock =
  mb_data :: "u8 list"
  mb_size :: u64

record BlockDevice =
  sector_count :: u64
  sector_size :: u16
  dev_private :: Memblock

definition memblock_read ::
  "BlockDevice \<Rightarrow> u64 \<Rightarrow> (nat \<Rightarrow> u8) \<Rightarrow> u64 \<Rightarrow> (bool \<times> (nat \<Rightarrow> u8)) option" where
  "memblock_read dev sector buf count =
     (let mb = dev_private dev;
          offset = sector * ucast (sector_size dev);
          total = count * ucast (sector_size dev) in
      if offset + total > mb_size mb \<or> offset + total < offset then Some (False, buf)
      else if unat offset + unat total > length (mb_data mb) then None
      else Some (True, \<lambda>i. if i < unat total then mb_data mb ! (unat offset + i) else buf i))"

definition memblock_write :: "BlockDevice \<Rightarrow> u64 \<Rightarrow> (nat \<Rightarrow> u8) \<Rightarrow> u64 \<Rightarrow> bool" where
  "memblock_write dev sector buf count = False"

text \<open>The two allocations succeed or fail.\<close>

definition memblock_create :: "bool \<Rightarrow> bool \<Rightarrow> u8 list \<Rightarrow> u64 \<Rightarrow> BlockDevice option" where
  "memblock_create mb_ok dev_ok img n =
     (if \<not> mb_ok then None
      else if \<not> dev_ok then None
      else Some \<lparr>sector_count = n div 512, sector_size = 512, dev_private = \<lparr>mb_data = img, mb_size = n\<rparr>\<rparr>)"

text \<open>A device over an image never reads outside it, whatever wraps around.\<close>

lemma memblock_read_defined:
  assumes "unat (mb_size (dev_private dev)) = length (mb_data (dev_private dev))"
  shows "memblock_read dev sector buf count \<noteq> None"
proof -
  define a b where "a = sector * ucast (sector_size dev)" and "b = count * ucast (sector_size dev)"
  show ?thesis
  proof (cases "a + b > mb_size (dev_private dev) \<or> a + b < a")
    case True
    then show ?thesis by (auto simp: memblock_read_def Let_def a_def b_def)
  next
    case False
    then have "unat (a + b) = unat a + unat b" by (simp add: not_less unat_plus_simple)
    then have "\<not> unat a + unat b > length (mb_data (dev_private dev))"
      using False assms by (simp add: not_less word_le_nat_alt)
    then show ?thesis by (auto simp: memblock_read_def Let_def a_def [symmetric] b_def [symmetric])
  qed
qed

end
