(* ===== verification/Tori_Fat.thy ===== *)
theory Tori_Fat
  imports Tori_Vfs Tori_Memblock
begin

unbundle bit_operations_syntax

text \<open>
  The FAT file system (\<open>kernel/src/fs/fat.cpp\<close>) over the block device of \<open>Tori_Memblock\<close>, whose read
  function is the only one in the kernel.  Integers keep their widths: sector numbers, cluster numbers
  and the sizes derived from them are \<open>u32\<close> and wrap.  \<open>None\<close> is an access outside a local array or
  the table buffer, or a loop that does not end; a result \<open>Some None\<close> of the functions that return
  \<open>bool\<close> is \<open>false\<close>.  \<open>kalloc\<close> gives a new address, or 0 when \<open>fat_alloc_ok\<close> says that it fails.
\<close>

section \<open>Objects\<close>

definition BPB_BYTES_PER_SECTOR :: nat where "BPB_BYTES_PER_SECTOR = 11"
definition BPB_SECTORS_PER_CLUSTER :: nat where "BPB_SECTORS_PER_CLUSTER = 13"
definition BPB_RESERVED_SECTOR_COUNT :: nat where "BPB_RESERVED_SECTOR_COUNT = 14"
definition BPB_FAT_COUNT :: nat where "BPB_FAT_COUNT = 16"
definition BPB_ROOT_ENTRY_COUNT :: nat where "BPB_ROOT_ENTRY_COUNT = 17"
definition BPB_TOTAL_SECTORS_16 :: nat where "BPB_TOTAL_SECTORS_16 = 19"
definition BPB_FAT_SIZE_16 :: nat where "BPB_FAT_SIZE_16 = 22"
definition BPB_TOTAL_SECTORS_32 :: nat where "BPB_TOTAL_SECTORS_32 = 32"
definition BPB_FAT_SIZE_32 :: nat where "BPB_FAT_SIZE_32 = 36"
definition BPB_ROOT_CLUSTER :: nat where "BPB_ROOT_CLUSTER = 44"

definition DIR_NAME :: nat where "DIR_NAME = 0"
definition DIR_ATTR :: nat where "DIR_ATTR = 11"
definition DIR_NT_RES :: nat where "DIR_NT_RES = 12"
definition DIR_CLUSTER_HI :: nat where "DIR_CLUSTER_HI = 20"
definition DIR_CLUSTER_LO :: nat where "DIR_CLUSTER_LO = 26"
definition DIR_FILE_SIZE :: nat where "DIR_FILE_SIZE = 28"

definition ATTR_VOLUME_ID :: u8 where "ATTR_VOLUME_ID = 0x08"
definition ATTR_DIRECTORY :: u8 where "ATTR_DIRECTORY = 0x10"
definition ATTR_LFN :: u8 where "ATTR_LFN = 0x0F"

definition FAT_EOC_MIN_16 :: u32 where "FAT_EOC_MIN_16 = 0xFFF8"
definition FAT_EOC_MIN_32 :: u32 where "FAT_EOC_MIN_32 = 0x0FFFFFF8"
definition FAT_EOC_MAX_32 :: u32 where "FAT_EOC_MAX_32 = 0x0FFFFFFF"

record FatInstance =
  fat_dev :: BlockDevice
  bytes_per_sector :: u16
  sectors_per_cluster :: u8
  reserved_sector_count :: u16
  fat_count :: u8
  root_entry_count :: u16
  fat_size :: u32
  root_cluster :: u32
  total_sectors :: u32
  first_data_sector :: u32
  root_dir_sectors :: u32
  is_fat32 :: bool
  fat_buffer :: "u8 list option"
  fat_buffer_at :: nat
  fat_entry_count :: u32

record FatNode =
  first_cluster :: u32
  node_size :: u32
  attributes :: u8
  node_fs :: nat

record fat_sys =
  fat_alloc_next :: nat
  fat_alloc_ok :: "nat \<Rightarrow> bool"
  fat_live :: "nat \<Rightarrow> bool"
  fat_instances :: "nat \<Rightarrow> FatInstance"
  fat_nodes :: "nat \<Rightarrow> FatNode"
  g_fs :: nat

section \<open>Sectors\<close>

text \<open>A read that may fail, continued when it succeeds.\<close>

definition try_read :: "'a option option \<Rightarrow> ('a \<Rightarrow> 'b option option) \<Rightarrow> 'b option option" where
  "try_read r f = Option.bind r (\<lambda>x. case x of None \<Rightarrow> Some None | Some y \<Rightarrow> f y)"

text \<open>One sector read into a local array of 512 bytes; bytes the device does not store are 0.\<close>

definition read_sectors :: "BlockDevice \<Rightarrow> u64 \<Rightarrow> u8 list option option" where
  "read_sectors dev sector = do {
     (ok, b) \<leftarrow> memblock_read dev sector (\<lambda>_. 0) 1;
     if \<not> ok then Some None
     else if unat (sector_size dev) \<le> 512 then Some (Some (map b [0 ..< 512])) else None
   }"

definition read_byte :: "BlockDevice \<Rightarrow> u64 \<Rightarrow> nat \<Rightarrow> u8 option option" where
  "read_byte dev sector off = try_read (read_sectors dev sector) (\<lambda>buf. Some (Some (buf ! off)))"

definition read_word :: "BlockDevice \<Rightarrow> u64 \<Rightarrow> nat \<Rightarrow> u16 option option" where
  "read_word dev sector off = try_read (read_sectors dev sector)
     (\<lambda>buf. Some (Some (ucast (buf ! off) OR push_bit 8 (ucast (buf ! (off + 1))))))"

definition dword_at :: "u8 list \<Rightarrow> nat \<Rightarrow> u32" where
  "dword_at buf off = ucast (buf ! off) OR push_bit 8 (ucast (buf ! (off + 1)))
     OR push_bit 16 (ucast (buf ! (off + 2))) OR push_bit 24 (ucast (buf ! (off + 3)))"

definition read_dword :: "BlockDevice \<Rightarrow> u64 \<Rightarrow> nat \<Rightarrow> u32 option option" where
  "read_dword dev sector off = try_read (read_sectors dev sector) (\<lambda>buf. Some (Some (dword_at buf off)))"

section \<open>The parameter block\<close>

definition parse_bpb :: "FatInstance \<Rightarrow> FatInstance option option" where
  "parse_bpb fs =
     (let dev = fat_dev fs in
      try_read (read_word dev 0 BPB_BYTES_PER_SECTOR) (\<lambda>bps.
      if bps \<noteq> 512 \<and> bps \<noteq> 1024 \<and> bps \<noteq> 2048 \<and> bps \<noteq> 4096 then Some None else
      try_read (read_byte dev 0 BPB_SECTORS_PER_CLUSTER) (\<lambda>spc.
      if spc = 0 \<or> spc AND (spc - 1) \<noteq> 0 then Some None else
      try_read (read_word dev 0 BPB_RESERVED_SECTOR_COUNT) (\<lambda>reserved.
      try_read (read_byte dev 0 BPB_FAT_COUNT) (\<lambda>count.
      if count = 0 then Some None else
      try_read (read_word dev 0 BPB_ROOT_ENTRY_COUNT) (\<lambda>entries.
      try_read (read_word dev 0 BPB_TOTAL_SECTORS_16) (\<lambda>total_16.
      try_read (read_dword dev 0 BPB_TOTAL_SECTORS_32) (\<lambda>total_32.
      let total = (if total_16 \<noteq> 0 then ucast total_16 else total_32) in
      try_read (read_word dev 0 BPB_FAT_SIZE_16) (\<lambda>fat_size_16.
      try_read (if fat_size_16 \<noteq> 0 then Some (Some (False, ucast fat_size_16))
                else try_read (read_dword dev 0 BPB_FAT_SIZE_32) (\<lambda>sz. Some (Some (True, sz)))) (\<lambda>(is32, nbytes).
      let rds = (ucast entries * 32 + ucast bps - 1) div ucast bps;
          fds = ucast reserved + ucast count * nbytes + rds in
      try_read (if is32 then read_dword dev 0 BPB_ROOT_CLUSTER else Some (Some 0)) (\<lambda>root.
      try_read (read_byte dev 0 510) (\<lambda>sig_lo.
      try_read (read_byte dev 0 511) (\<lambda>sig_hi.
      if sig_lo \<noteq> 0x55 \<or> sig_hi \<noteq> 0xAA then Some None else
      let cluster_count = (total - fds) div ucast spc in
      if cluster_count < 4085 then Some None
      else if \<not> is32 \<and> cluster_count \<ge> 65525 then Some None
      else Some (Some (fs\<lparr>bytes_per_sector := bps, sectors_per_cluster := spc, reserved_sector_count := reserved,
        fat_count := count, root_entry_count := entries, fat_size := nbytes, root_cluster := root,
        total_sectors := total, first_data_sector := fds, root_dir_sectors := rds, is_fat32 := is32\<rparr>)))))))))))))))"

text \<open>The loop that copies the first table into the buffer.\<close>

fun copy_table :: "FatInstance \<Rightarrow> nat list \<Rightarrow> u8 list \<Rightarrow> u8 list option option" where
  "copy_table fs [] dst = Some (Some dst)"
| "copy_table fs (s # ss) dst =
     try_read (read_sectors (fat_dev fs) (ucast (ucast (reserved_sector_count fs) + of_nat s :: u32))) (\<lambda>buf.
       let n = unat (bytes_per_sector fs); at = unat (of_nat s * ucast (bytes_per_sector fs) :: u32) in
       if n > 512 \<or> at + n > length dst then None
       else copy_table fs ss (take at dst @ take n buf @ drop (at + n) dst))"

text \<open>\<open>b\<close> is the address of the buffer, 0 when its allocation fails.\<close>

definition read_fat_table :: "nat \<Rightarrow> FatInstance \<Rightarrow> FatInstance option option" where
  "read_fat_table b fs =
     (let entry_size = (if is_fat32 fs then 4 else 2);
          fat_bytes = fat_size fs * ucast (bytes_per_sector fs);
          fs = fs\<lparr>fat_entry_count := fat_bytes div entry_size\<rparr> in
      if b = 0 then Some None
      else try_read (copy_table fs [0 ..< unat (fat_size fs)] (replicate (unat fat_bytes) 0))
             (\<lambda>dst. Some (Some (fs\<lparr>fat_buffer := Some dst, fat_buffer_at := b\<rparr>))))"

section \<open>Clusters\<close>

definition cluster_to_sector :: "FatInstance \<Rightarrow> u32 \<Rightarrow> u32" where
  "cluster_to_sector fs cluster = first_data_sector fs + (cluster - 2) * ucast (sectors_per_cluster fs)"

definition next_cluster :: "FatInstance \<Rightarrow> u32 \<Rightarrow> u32" where
  "next_cluster fs cluster =
     (case fat_buffer fs of
        None \<Rightarrow> FAT_EOC_MAX_32
      | Some table \<Rightarrow>
          if cluster < fat_entry_count fs then
            (if is_fat32 fs then dword_at table (4 * unat cluster) AND 0x0FFFFFFF
             else ucast (table ! (2 * unat cluster)) OR push_bit 8 (ucast (table ! (2 * unat cluster + 1))))
          else FAT_EOC_MAX_32)"

definition is_eoc :: "u32 \<Rightarrow> bool \<Rightarrow> bool" where
  "is_eoc v is32 \<longleftrightarrow> (if is32 then v \<ge> FAT_EOC_MIN_32 else v \<ge> FAT_EOC_MIN_16)"

definition cluster_size :: "FatInstance \<Rightarrow> u32" where
  "cluster_size fs = ucast (sectors_per_cluster fs) * ucast (bytes_per_sector fs)"

text \<open>The loop that skips to the cluster of the offset: \<open>Some None\<close> is its \<open>return 0\<close>.\<close>

partial_function (option) skip_clusters :: "FatInstance \<Rightarrow> u32 \<Rightarrow> u64 \<Rightarrow> (u32 \<times> u64) option option" where
  "skip_clusters fs current skip =
     (if skip \<ge> ucast (cluster_size fs) then
        (if is_eoc current (is_fat32 fs) then Some None
         else
           (let current = next_cluster fs current in
            if current = 0 \<or> is_eoc current (is_fat32 fs) then Some None
            else skip_clusters fs current (skip - ucast (cluster_size fs))))
      else Some (Some (current, skip)))"

text \<open>The loop over the sectors of a cluster; \<open>dst\<close> is where the next byte goes.  The flag is false
  when a read fails.\<close>

definition sector_bounds :: "FatInstance \<Rightarrow> u32 \<Rightarrow> u32 \<Rightarrow> u32 \<Rightarrow> u32 \<times> u32" where
  "sector_bounds fs cluster_off chunk s =
     (let bps = ucast (bytes_per_sector fs);
          start_sector_off = cluster_off div bps;
          end_sector_off = (cluster_off + chunk + bps - 1) div bps;
          sec_start = (if s = start_sector_off then cluster_off mod bps else 0);
          sec_end = (if s = end_sector_off - 1 then (cluster_off + chunk) mod bps else bps) in
      (sec_start, if sec_end = 0 then bps else sec_end))"

fun read_cluster_sectors ::
  "FatInstance \<Rightarrow> u32 \<Rightarrow> u32 \<Rightarrow> u32 \<Rightarrow> u32 list \<Rightarrow> nat \<Rightarrow> memory \<Rightarrow> (bool \<times> memory) option" where
  "read_cluster_sectors fs sector cluster_off chunk [] dst buf = Some (True, buf)"
| "read_cluster_sectors fs sector cluster_off chunk (s # ss) dst buf = do {
     r \<leftarrow> read_sectors (fat_dev fs) (ucast (sector + s));
     case r of None \<Rightarrow> Some (False, buf)
     | Some sec_buf \<Rightarrow>
         (let (a, b) = sector_bounds fs cluster_off chunk s; n = unat b - unat a in
          if 0 < n \<and> unat b > 512 then None
          else read_cluster_sectors fs sector cluster_off chunk ss (dst + n)
                 (\<lambda>i. if dst \<le> i \<and> i < dst + n then sec_buf ! (unat a + (i - dst)) else buf i))
   }"

partial_function (option) read_clusters ::
  "FatInstance \<Rightarrow> u32 \<Rightarrow> u64 \<Rightarrow> u64 \<Rightarrow> u64 \<Rightarrow> memory \<Rightarrow> (u64 \<times> memory) option" where
  "read_clusters fs current skip nbytes done buf =
     (if \<not> done < nbytes then Some (done, buf)
      else if current < 2 \<or> is_eoc current (is_fat32 fs) then Some (done, buf)
      else
        (let sector = cluster_to_sector fs current;
             cluster_off = ucast skip;
             chunk = cluster_size fs - cluster_off;
             chunk = (if ucast chunk > nbytes - done then ucast (nbytes - done) else chunk);
             bps = ucast (bytes_per_sector fs);
             start_sector_off = cluster_off div bps;
             end_sector_off = (cluster_off + chunk + bps - 1) div bps in do {
           (ok, buf) \<leftarrow> read_cluster_sectors fs sector cluster_off chunk
                          (map of_nat [unat start_sector_off ..< unat end_sector_off]) (unat done) buf;
           if \<not> ok then Some (done, buf)
           else read_clusters fs (next_cluster fs current) 0 nbytes (done + ucast chunk) buf
         }))"

definition read_from_chain :: "FatInstance \<Rightarrow> u32 \<Rightarrow> u64 \<Rightarrow> memory \<Rightarrow> u64 \<Rightarrow> (u64 \<times> memory) option" where
  "read_from_chain fs start_cluster offset buf nbytes =
     (if nbytes = 0 then Some (0, buf)
      else do {
        r \<leftarrow> skip_clusters fs start_cluster offset;
        case r of None \<Rightarrow> Some (0, buf)
        | Some (current, skip) \<Rightarrow> read_clusters fs current skip nbytes 0 buf
      })"

text \<open>The loop of \<open>read_fat16_root\<close>.\<close>

partial_function (option) read_root_loop ::
  "FatInstance \<Rightarrow> u32 \<Rightarrow> u32 \<Rightarrow> u32 \<Rightarrow> u64 \<Rightarrow> u64 \<Rightarrow> memory \<Rightarrow> (u64 \<times> memory) option" where
  "read_root_loop fs root_start_sector sector_off byte_off nbytes done buf =
     (if \<not> done < nbytes then Some (done, buf)
      else do {
        r \<leftarrow> read_sectors (fat_dev fs) (ucast (root_start_sector + sector_off));
        case r of None \<Rightarrow> Some (done, buf)
        | Some sec_buf \<Rightarrow>
            (let chunk = ucast (bytes_per_sector fs) - byte_off;
                 chunk = (if ucast chunk > nbytes - done then ucast (nbytes - done) else chunk);
                 n = unat chunk in
             if 0 < n \<and> unat byte_off + n > 512 then None
             else read_root_loop fs root_start_sector (sector_off + 1) 0 nbytes (done + ucast chunk)
                    (\<lambda>i. if unat done \<le> i \<and> i < unat done + n then sec_buf ! (unat byte_off + (i - unat done)) else buf i))
      })"

definition read_fat16_root :: "FatInstance \<Rightarrow> u64 \<Rightarrow> memory \<Rightarrow> u64 \<Rightarrow> (u64 \<times> memory) option" where
  "read_fat16_root fs offset buf nbytes =
     (let root_size = ucast (root_entry_count fs) * 32 in
      if offset \<ge> root_size then Some (0, buf)
      else
        (let nbytes = (if offset + nbytes > root_size then root_size - offset else nbytes);
             root_start_sector = ucast (reserved_sector_count fs) + ucast (fat_count fs) * fat_size fs;
             bps = ucast (bytes_per_sector fs) in
         read_root_loop fs root_start_sector (ucast (offset div bps)) (ucast (offset mod bps)) nbytes 0 buf))"

definition read_from_location ::
  "FatInstance \<Rightarrow> u32 \<Rightarrow> bool \<Rightarrow> u64 \<Rightarrow> memory \<Rightarrow> u64 \<Rightarrow> (u64 \<times> memory) option" where
  "read_from_location fs cluster is_fat16_root offset buf nbytes =
     (if is_fat16_root then read_fat16_root fs offset buf nbytes
      else read_from_chain fs cluster offset buf nbytes)"

section \<open>Directory entries\<close>

text \<open>An entry is its 32 bytes.\<close>

definition sfn_checksum :: "u8 list \<Rightarrow> u8" where
  "sfn_checksum e = fold (\<lambda>i sum. (if sum AND 1 \<noteq> 0 then 0x80 else 0) + drop_bit 1 sum + e ! i) [0 ..< 11] 0"

definition lower_char :: "char \<Rightarrow> char" where
  "lower_char c = (if of_char c \<ge> (65 :: nat) \<and> of_char c \<le> (90 :: nat) then char_of (of_char c + 32 :: nat) else c)"

definition byte_char :: "u8 \<Rightarrow> char" where
  "byte_char b = char_of (unat b)"

text \<open>Characters appended while there is room.\<close>

definition append_chars :: "nat \<Rightarrow> char list \<Rightarrow> char list \<Rightarrow> char list" where
  "append_chars max_len name cs = name @ take (max_len - 1 - length name) cs"

text \<open>The loop that lowers the extension runs backwards up to the last dot, or over the whole name.\<close>

definition lower_ext :: "char list \<Rightarrow> char list" where
  "lower_ext name = rev (map lower_char (takeWhile (\<lambda>c. c \<noteq> CHR ''.'') (rev name))
     @ dropWhile (\<lambda>c. c \<noteq> CHR ''.'') (rev name))"

definition lower_base :: "char list \<Rightarrow> char list" where
  "lower_base name = map lower_char (takeWhile (\<lambda>c. c \<noteq> CHR ''.'') name) @ dropWhile (\<lambda>c. c \<noteq> CHR ''.'') name"

text \<open>The characters stored before the final 0; \<open>max_len\<close> is not 0 at any call.\<close>

definition extract_sfn_name :: "u8 list \<Rightarrow> nat \<Rightarrow> char list" where
  "extract_sfn_name e max_len =
     (let bytes = take 11 e;
          bytes = (if bytes ! 0 = 0x05 then bytes[0 := 0xE5] else bytes);
          base = map byte_char (takeWhile (\<lambda>b. b \<noteq> 0x20) (take 8 bytes));
          ext = map byte_char (takeWhile (\<lambda>b. b \<noteq> 0x20) (drop 8 bytes));
          name = append_chars max_len [] base;
          name = (if bytes ! 8 \<noteq> 0x20
                  then append_chars max_len (append_chars max_len name [CHR ''.'']) ext else name);
          nt_res = e ! DIR_NT_RES;
          name = (if nt_res AND 0x08 \<noteq> 0 then lower_ext name else name) in
      if nt_res AND 0x10 \<noteq> 0 then lower_base name else name)"

text \<open>What a reader of a C string sees of stored characters.\<close>

definition c_string :: "char list \<Rightarrow> string" where
  "c_string = takeWhile (\<lambda>c. c \<noteq> CHR 0x00)"

definition is_end_marker :: "u8 list \<Rightarrow> bool" where
  "is_end_marker e \<longleftrightarrow> e ! DIR_NAME = 0x00"

definition is_deleted :: "u8 list \<Rightarrow> bool" where
  "is_deleted e \<longleftrightarrow> e ! DIR_NAME = 0xE5"

definition is_lfn_entry :: "u8 list \<Rightarrow> bool" where
  "is_lfn_entry e \<longleftrightarrow> e ! DIR_ATTR = ATTR_LFN"

definition is_regular_entry :: "u8 list \<Rightarrow> bool" where
  "is_regular_entry e \<longleftrightarrow> \<not> (is_deleted e \<or> is_end_marker e \<or> is_lfn_entry e)
     \<and> e ! DIR_ATTR \<noteq> ATTR_VOLUME_ID \<and> e ! DIR_ATTR AND ATTR_VOLUME_ID = 0"

text \<open>The end of a list is the final 0 of the string.\<close>

fun match_name :: "string \<Rightarrow> string \<Rightarrow> bool" where
  "match_name [] [] = True"
| "match_name (a # as) (b # bs) = (if lower_char a \<noteq> lower_char b then False else match_name as bs)"
| "match_name [] (b # bs) = False"
| "match_name (a # as) [] = False"

definition name_matches_sfn :: "u8 list \<Rightarrow> string \<Rightarrow> bool" where
  "name_matches_sfn e name = match_name name (c_string (extract_sfn_name e 13))"

definition lfn_char :: "u8 list \<Rightarrow> nat \<Rightarrow> u16" where
  "lfn_char e off = ucast (e ! off) OR push_bit 8 (ucast (e ! (off + 1)))"

definition lfn_part :: "u8 list \<Rightarrow> nat list \<Rightarrow> char list" where
  "lfn_part e offs = map (\<lambda>uc. if uc < 0x80 then char_of (unat uc) else CHR ''?'')
     (takeWhile (\<lambda>uc. uc \<noteq> 0 \<and> uc \<noteq> 0xFFFF) (map (lfn_char e) offs))"

definition reconstruct_lfn_name :: "u8 list list \<Rightarrow> nat \<Rightarrow> char list" where
  "reconstruct_lfn_name lfn_entries max_len =
     fold (\<lambda>e name.
        append_chars max_len (append_chars max_len (append_chars max_len name
          (lfn_part e [1, 3, 5, 7, 9])) (lfn_part e [14, 16, 18, 20, 22, 24])) (lfn_part e [28, 30]))
       (rev lfn_entries) []"

definition entry_node :: "nat \<Rightarrow> u8 list \<Rightarrow> FatNode" where
  "entry_node fsp e = \<lparr>first_cluster = push_bit 16 (ucast (e ! DIR_CLUSTER_HI)) OR ucast (e ! DIR_CLUSTER_LO),
     node_size = dword_at e DIR_FILE_SIZE, attributes = e ! DIR_ATTR, node_fs = fsp\<rparr>"

definition is_dot_name :: "string \<Rightarrow> bool" where
  "is_dot_name name \<longleftrightarrow> name = ''.'' \<or> name = ''..''"

text \<open>The loop over the fixed root directory; a result \<open>None\<close> of the search is that nothing was found.\<close>

partial_function (option) find_root16 :: "FatInstance \<Rightarrow> u64 \<Rightarrow> string \<Rightarrow> u8 list option option" where
  "find_root16 fs offset name =
     (if \<not> offset + 32 \<le> ucast (root_entry_count fs) * 32 then Some None
      else do {
        (n, b) \<leftarrow> read_fat16_root fs offset (\<lambda>_. 0) 32;
        let e = map b [0 ..< 32];
        if n < 32 then Some None
        else if is_end_marker e then Some None
        else if is_regular_entry e \<and> name_matches_sfn e name then Some (Some e)
        else find_root16 fs (offset + 32) name
      })"

text \<open>The entries of a sector, up to the end marker.\<close>

datatype dir_search = Found "u8 list" | End | More

fun search_entries :: "u8 list list \<Rightarrow> string \<Rightarrow> dir_search" where
  "search_entries [] name = More"
| "search_entries (e # es) name =
     (if is_end_marker e then End
      else if \<not> is_regular_entry e then search_entries es name
      else if name_matches_sfn e name then Found e
      else search_entries es name)"

text \<open>The buffer of a sector has 512 bytes: with larger sectors the entry after the sixteenth is read past its end.\<close>

fun search_sectors :: "FatInstance \<Rightarrow> u32 \<Rightarrow> nat list \<Rightarrow> string \<Rightarrow> (int + dir_search) option" where
  "search_sectors fs sector [] name = Some (Inr More)"
| "search_sectors fs sector (s # ss) name = do {
     r \<leftarrow> read_sectors (fat_dev fs) (ucast (sector + of_nat s));
     case r of None \<Rightarrow> Some (Inl E_IO)
     | Some buf \<Rightarrow>
         (let n = unat (bytes_per_sector fs) in
          case search_entries (map (\<lambda>k. take 32 (drop (32 * k) buf)) [0 ..< min 512 n div 32]) name of
            More \<Rightarrow> if n \<ge> 544 then None else search_sectors fs sector ss name
          | r \<Rightarrow> Some (Inr r))
   }"

partial_function (option) find_in_chain :: "FatInstance \<Rightarrow> u32 \<Rightarrow> string \<Rightarrow> (int + u8 list) option" where
  "find_in_chain fs current name =
     (if current < 2 \<or> is_eoc current (is_fat32 fs) then Some (Inl E_NOT_FOUND)
      else do {
        r \<leftarrow> search_sectors fs (cluster_to_sector fs current) [0 ..< unat (sectors_per_cluster fs)] name;
        case r of Inl err \<Rightarrow> Some (Inl err)
        | Inr (Found e) \<Rightarrow> Some (Inr e)
        | Inr End \<Rightarrow> Some (Inl E_NOT_FOUND)
        | Inr More \<Rightarrow> find_in_chain fs (next_cluster fs current) name
      })"

definition find_entry :: "nat \<Rightarrow> FatInstance \<Rightarrow> u32 \<Rightarrow> bool \<Rightarrow> string \<Rightarrow> (int + FatNode) option" where
  "find_entry fsp fs dir_cluster is_fat16_root name =
     (if name = [] then Some (Inl E_NOT_FOUND)
      else if cluster_size fs > 4096 then Some (Inl E_IO)
      else if is_dot_name name then Some (Inl E_NOT_FOUND)
      else if is_fat16_root then do {
        r \<leftarrow> find_root16 fs 0 name;
        Some (case r of None \<Rightarrow> Inl E_NOT_FOUND | Some e \<Rightarrow> Inr (entry_node fsp e))
      } else do {
        r \<leftarrow> find_in_chain fs dir_cluster name;
        Some (map_sum id (entry_node fsp) r)
      })"

text \<open>The loop of \<open>read_next_entry\<close>; the name of a skipped dot entry stays in the caller's entry.\<close>

partial_function (option) next_entry ::
  "FatInstance \<Rightarrow> u32 \<Rightarrow> bool \<Rightarrow> u64 \<Rightarrow> Dirent \<Rightarrow> (int \<times> u64 \<times> Dirent) option" where
  "next_entry fs dir_cluster is_fat16_root offset out = do {
     (n, b) \<leftarrow> read_from_location fs dir_cluster is_fat16_root offset (\<lambda>_. 0) 32;
     let e = map b [0 ..< 32];
     if n < 32 then Some (E_NOT_FOUND, offset, out)
     else if is_end_marker e then Some (E_NOT_FOUND, offset, out)
     else if is_deleted e \<or> is_lfn_entry e then next_entry fs dir_cluster is_fat16_root (offset + 32) out
     else if e ! DIR_ATTR = ATTR_VOLUME_ID \<or> e ! DIR_ATTR AND ATTR_VOLUME_ID \<noteq> 0
     then next_entry fs dir_cluster is_fat16_root (offset + 32) out
     else
       (let out = out\<lparr>dirent_name := c_string (extract_sfn_name e 256)\<rparr> in
        if is_dot_name (dirent_name out) then next_entry fs dir_cluster is_fat16_root (offset + 32) out
        else Some (0, offset + 32, out\<lparr>dirent_type :=
               (if e ! DIR_ATTR AND ATTR_DIRECTORY \<noteq> 0 then Directory else File)\<rparr>))
   }"

section \<open>Operations on vnodes\<close>

definition fat_kalloc :: "fat_sys vfs \<Rightarrow> nat \<times> fat_sys vfs" where
  "fat_kalloc s =
     (let f = fs_data s; n = fat_alloc_next f in
      if fat_alloc_ok f n
      then (n, s\<lparr>fs_data := f\<lparr>fat_alloc_next := Suc n, fat_live := (fat_live f)(n := True)\<rparr>\<rparr>)
      else (0, s\<lparr>fs_data := f\<lparr>fat_alloc_next := Suc n\<rparr>\<rparr>))"

definition fat_kfree :: "nat \<Rightarrow> fat_sys vfs \<Rightarrow> fat_sys vfs" where
  "fat_kfree p s = s\<lparr>fs_data := (fs_data s)\<lparr>fat_live := (fat_live (fs_data s))(p := False)\<rparr>\<rparr>"

definition fat_node_of :: "vptr \<Rightarrow> fat_sys vfs \<Rightarrow> FatNode" where
  "fat_node_of v s = fat_nodes (fs_data s) (private_data (vnodes s v))"

definition fat_fs_of :: "vptr \<Rightarrow> fat_sys vfs \<Rightarrow> FatInstance" where
  "fat_fs_of v s = fat_instances (fs_data s) (node_fs (fat_node_of v s))"

definition is_root16 :: "FatInstance \<Rightarrow> FatNode \<Rightarrow> bool" where
  "is_root16 fs n \<longleftrightarrow> \<not> is_fat32 fs \<and> first_cluster n = 0"

text \<open>The vnode and the node the lookup and the mount allocate.\<close>

definition new_fat_vnode :: "VnodeType \<Rightarrow> nat \<Rightarrow> FatNode \<Rightarrow> fat_sys vfs \<Rightarrow> int \<times> vptr \<times> fat_sys vfs" where
  "new_fat_vnode type ops n s =
     (let (vnode, s) = fat_kalloc s in
      if vnode = 0 then (E_NO_SPACE, 0, s)
      else
        (let (node_data, s) = fat_kalloc s in
         if node_data = 0 then (E_NO_SPACE, 0, fat_kfree vnode s)
         else (0, vnode, s\<lparr>vnodes := (vnodes s)(vnode := \<lparr>vnode_type = type, vnode_ops = ops,
                   private_data = node_data, ref_count = 1, mount_parent = 0\<rparr>),
                 fs_data := (fs_data s)\<lparr>fat_nodes := (fat_nodes (fs_data s))(node_data := n)\<rparr>\<rparr>)))"

definition fat_lookup :: "vptr \<Rightarrow> string \<Rightarrow> fat_sys vfs \<Rightarrow> (int \<times> vptr \<times> fat_sys vfs) option" where
  "fat_lookup dir name s =
     (let par = fat_node_of dir s; fs = fat_fs_of dir s in do {
        r \<leftarrow> find_entry (node_fs par) fs (first_cluster par) (is_root16 fs par) name;
        Some (case r of
            Inl err \<Rightarrow> (err, 0, s)
          | Inr child \<Rightarrow>
              new_fat_vnode (if attributes child AND ATTR_DIRECTORY \<noteq> 0 then Directory else File)
                (vnode_ops (vnodes s dir)) child s)
      })"

definition fat_read ::
  "vptr \<Rightarrow> u64 \<Rightarrow> memory \<Rightarrow> u64 \<Rightarrow> fat_sys vfs \<Rightarrow> (int \<times> u64 \<times> memory \<times> fat_sys vfs) option" where
  "fat_read node offset buf nbytes s =
     (if vnode_type (vnodes s node) \<noteq> File then Some (E_IS_DIR, 0, buf, s)
      else
        (let fn = fat_node_of node s; fs = fat_fs_of node s; total = ucast (node_size fn) in
         if offset \<ge> total then Some (0, 0, buf, s)
         else
           (let nbytes = (if offset + nbytes > total then total - offset else nbytes) in do {
              (n, buf) \<leftarrow> read_from_chain fs (first_cluster fn) offset buf nbytes;
              Some (0, n, buf, s)
            })))"

definition fat_readdir ::
  "vptr \<Rightarrow> u64 \<Rightarrow> Dirent \<Rightarrow> fat_sys vfs \<Rightarrow> (int \<times> Dirent \<times> u64 \<times> fat_sys vfs) option" where
  "fat_readdir dir offset entry s =
     (if vnode_type (vnodes s dir) \<noteq> Directory then Some (E_NOT_DIR, entry, offset, s)
      else
        (let fn = fat_node_of dir s; fs = fat_fs_of dir s in do {
           (err, off, entry) \<leftarrow> next_entry fs (first_cluster fn) (is_root16 fs fn) offset entry;
           Some (if err \<noteq> 0 then (E_NOT_FOUND, entry, offset, s) else (0, entry, off, s))
         }))"

definition fat_stat :: "vptr \<Rightarrow> Stat \<Rightarrow> fat_sys vfs \<Rightarrow> (int \<times> Stat) option" where
  "fat_stat node st s =
     Some (0, \<lparr>stat_type = vnode_type (vnodes s node), stat_size = ucast (node_size (fat_node_of node s))\<rparr>)"

definition fat_vnode_ops :: "fat_sys VnodeOps" where
  "fat_vnode_ops = \<lparr>op_lookup = fat_lookup, op_create = (\<lambda>_ _ s. Some (E_INVALID, 0, s)),
     op_mkdir = Some (\<lambda>_ _ s. Some (E_INVALID, s)), op_rmdir = (\<lambda>_ _ s. Some (E_INVALID, s)),
     op_unlink = (\<lambda>_ _ s. Some (E_INVALID, s)), op_read = Some fat_read,
     op_write = Some (\<lambda>_ _ _ _ s. Some (E_INVALID, 0, s)), op_readdir = Some fat_readdir, op_stat = Some fat_stat\<rparr>"

definition fat_ops_ptr :: nat where "fat_ops_ptr = 3"

definition fat_mount :: "fat_sys vfs \<Rightarrow> (int \<times> vptr \<times> fat_sys vfs) option" where
  "fat_mount s =
     (let p = g_fs (fs_data s); fs = fat_instances (fs_data s) p in
      if p = 0 then Some (E_IO, 0, s)
      else Some (new_fat_vnode Directory fat_ops_ptr
        \<lparr>first_cluster = (if is_fat32 fs then root_cluster fs else 0),
         node_size = (if is_fat32 fs then 0 else ucast (root_entry_count fs) * 32),
         attributes = ATTR_DIRECTORY, node_fs = p\<rparr> s))"

definition fat_unmount :: "vptr \<Rightarrow> fat_sys vfs \<Rightarrow> (int \<times> fat_sys vfs) option" where
  "fat_unmount root s =
     (let s = (if private_data (vnodes s root) \<noteq> 0 then fat_kfree (private_data (vnodes s root)) s else s) in
      Some (0, fat_kfree root s))"

definition blank_instance :: "BlockDevice \<Rightarrow> FatInstance" where
  "blank_instance dev = \<lparr>fat_dev = dev, bytes_per_sector = 0, sectors_per_cluster = 0, reserved_sector_count = 0,
     fat_count = 0, root_entry_count = 0, fat_size = 0, root_cluster = 0, total_sectors = 0,
     first_data_sector = 0, root_dir_sectors = 0, is_fat32 = False, fat_buffer = None, fat_buffer_at = 0, fat_entry_count = 0\<rparr>"

definition fat_init :: "BlockDevice \<Rightarrow> fat_sys vfs \<Rightarrow> (int \<times> fat_sys vfs) option" where
  "fat_init dev s =
     (if g_fs (fs_data s) \<noteq> 0 then Some (- 1, s)
      else
        (let (p, s) = fat_kalloc s in
         if p = 0 then Some (- 1, s)
         else do {
           r \<leftarrow> parse_bpb (blank_instance dev);
           case r of None \<Rightarrow> Some (- 2, fat_kfree p s)
           | Some fs \<Rightarrow>
               (let (b, s) = fat_kalloc s in do {
                  r \<leftarrow> read_fat_table b fs;
                  case r of None \<Rightarrow> Some (- 3, fat_kfree p (if b \<noteq> 0 then fat_kfree b s else s))
                  | Some fs \<Rightarrow> Some (0, s\<lparr>fs_data := (fs_data s)\<lparr>
                      fat_instances := (fat_instances (fs_data s))(p := fs), g_fs := p\<rparr>\<rparr>)
                })
         }))"

definition fat_shutdown :: "fat_sys vfs \<Rightarrow> fat_sys vfs" where
  "fat_shutdown s =
     (if g_fs (fs_data s) = 0 then s
      else
        (let fs = fat_instances (fs_data s) (g_fs (fs_data s));
             s = (if fat_buffer_at fs \<noteq> 0 then fat_kfree (fat_buffer_at fs) s else s);
             s = fat_kfree (g_fs (fs_data s)) s in s\<lparr>fs_data := (fs_data s)\<lparr>g_fs := 0\<rparr>\<rparr>))"

end
