(* ===== verification/Tori_Fat_Props.thy ===== *)
theory Tori_Fat_Props
  imports Tori_Fat
begin

text \<open>
  What the FAT driver reads: the sectors of the image, the bytes of a cluster chain, and the entries
  of a directory.
\<close>

unbundle bit_operations_syntax

section \<open>Sectors of the image\<close>

definition disk_image :: "FatInstance \<Rightarrow> u8 list" where
  "disk_image fs = mb_data (dev_private (fat_dev fs))"

definition sector_bytes :: "FatInstance \<Rightarrow> nat \<Rightarrow> u8 list" where
  "sector_bytes fs k = take 512 (drop (512 * k) (disk_image fs))"

text \<open>A device with sectors of 512 bytes over the whole image, and a file system with such sectors.\<close>

definition fs_ok :: "FatInstance \<Rightarrow> bool" where
  "fs_ok fs \<longleftrightarrow> sector_size (fat_dev fs) = 512 \<and> unat (mb_size (dev_private (fat_dev fs))) = length (disk_image fs)
     \<and> bytes_per_sector fs = 512 \<and> sectors_per_cluster fs \<noteq> 0"

lemma read_sectors_image:
  assumes "fs_ok fs" and "512 * unat k + 512 \<le> length (disk_image fs)"
  shows "read_sectors (fat_dev fs) k = Some (Some (sector_bytes fs (unat k)))"
proof -
  let ?mb = "dev_private (fat_dev fs)"
  have sz: "unat (mb_size ?mb) = length (disk_image fs)" "sector_size (fat_dev fs) = 512" using assms(1) by (auto simp: fs_ok_def)
  have lt: "length (disk_image fs) < 2 ^ 64" using unat_u64_less [of "mb_size ?mb"] sz(1) by simp
  have o: "unat (k * 512) = 512 * unat k" using assms(2) lt by (simp add: unat_word_ariths)
  have t: "unat (k * 512 + 512) = 512 * unat k + 512" using assms(2) lt by (simp add: unat_word_ariths)
  have g: "\<not> (k * 512 + 512 > mb_size ?mb \<or> k * 512 + 512 < k * 512)"
    using assms(2) by (simp add: word_less_nat_alt t o sz(1) del: unat_eq_iff)
  have "memblock_read (fat_dev fs) k (\<lambda>_. 0) 1 =
      Some (True, \<lambda>i. if i < 512 then disk_image fs ! (512 * unat k + i) else 0)"
    using g assms(2) by (auto simp: memblock_read_def Let_def sz(2) o disk_image_def cong: if_cong)
  moreover have "map (\<lambda>i. if i < 512 then disk_image fs ! (512 * unat k + i) else 0) [0 ..< 512] = sector_bytes fs (unat k)"
    using assms(2) by (auto simp: sector_bytes_def intro!: nth_equalityI)
  ultimately show ?thesis by (simp add: read_sectors_def sz(2))
qed

lemma sector_bytes_nth:
  "512 * k + 512 \<le> length (disk_image fs) \<Longrightarrow> i < 512 \<Longrightarrow> sector_bytes fs k ! i = disk_image fs ! (512 * k + i)"
  by (simp add: sector_bytes_def)

section \<open>Clusters\<close>

definition spc :: "FatInstance \<Rightarrow> nat" where
  "spc fs = unat (sectors_per_cluster fs)"

lemma spc_bounds: "fs_ok fs \<Longrightarrow> 0 < spc fs" "spc fs < 256"
  using unsigned_less [where 'a = nat and w = "sectors_per_cluster fs"]
  by (auto simp: fs_ok_def spc_def unat_gt_0)

lemma unat_ucast_le:
  assumes "LENGTH('a::len) \<le> LENGTH('b::len)"
  shows "unat (ucast (w :: 'a word) :: 'b word) = unat w"
proof -
  have "unat w < 2 ^ LENGTH('a)" by (rule unsigned_less)
  also have "\<dots> \<le> 2 ^ LENGTH('b)" using assms by simp
  finally show ?thesis by (simp add: unsigned_ucast_eq take_bit_nat_eq_self)
qed

lemma unat_cluster_size: "fs_ok fs \<Longrightarrow> unat (cluster_size fs) = 512 * spc fs"
proof -
  assume "fs_ok fs"
  then have b: "bytes_per_sector fs = 512" by (simp add: fs_ok_def)
  have s: "unat (ucast (sectors_per_cluster fs) :: u32) = spc fs" by (simp add: spc_def unat_ucast_le)
  have c: "unat (ucast (512 :: u16) :: u32) = 512" by (simp add: unat_ucast_le)
  have "spc fs * 512 < 2 ^ 32" using spc_bounds(2) [of fs] by simp
  then show ?thesis
    unfolding cluster_size_def b unat_mult_lem [THEN iffD1, of "ucast (sectors_per_cluster fs) :: u32"]
    by (simp add: unat_word_ariths s c)
qed

lemma div512:
  fixes c :: nat
  shows "512 * (c div 512) \<le> c" "c < 512 * (c div 512) + 512" "c mod 512 = c - 512 * (c div 512)"
proof -
  have "c = 512 * (c div 512) + c mod 512" "c mod 512 < 512" by simp_all
  then show "512 * (c div 512) \<le> c" "c < 512 * (c div 512) + 512" "c mod 512 = c - 512 * (c div 512)" by linarith+
qed

text \<open>The end of the last sector of a range, and of any sector before it.\<close>

lemma sector_end:
  fixes e k :: nat
  assumes "512 * k < e"
  shows "(if k = (e + 511) div 512 - 1 then if e mod 512 = 0 then 512 else e mod 512 else 512) = min e (512 * k + 512) - 512 * k"
    and "k < (e + 511) div 512"
proof -
  let ?q = "(e + 511) div 512"
  note q = div512 [of "e + 511"]
  have kq: "k < ?q" using q(2) assms by linarith
  show "k < ?q" by (rule kq)
  show "(if k = ?q - 1 then if e mod 512 = 0 then 512 else e mod 512 else 512) = min e (512 * k + 512) - 512 * k"
  proof (cases "k = ?q - 1")
    case True
    then have "?q = Suc k" using kq by simp
    then have le: "e \<le> 512 * k + 512" using q(2) by simp
    show ?thesis
    proof (cases "e = 512 * k + 512")
      case True
      then have "e mod 512 = 0" by simp
      moreover have "min e (512 * k + 512) - 512 * k = 512" unfolding True by simp
      ultimately show ?thesis by simp
    next
      case False
      then have "e div 512 = k" using le assms by (intro div_nat_eqI) simp_all
      then have "e mod 512 = e - 512 * k" using div512(3) [of e] by simp
      then show ?thesis using True False le assms by simp
    qed
  next
    case False
    then have "k + 2 \<le> ?q" using kq by linarith
    then have "512 * k + 512 \<le> e" using q(1) by linarith
    then show ?thesis using False by simp
  qed
qed

lemma sector_bounds_nat:
  assumes b: "bytes_per_sector fs = 512" and k: "unat co div 512 \<le> k" "512 * k < unat co + unat ch"
    and m: "unat co + unat ch < 2 ^ 31" and p: "0 < unat ch"
  shows "unat (fst (sector_bounds fs co ch (of_nat k))) = max (unat co) (512 * k) - 512 * k"
    and "unat (snd (sector_bounds fs co ch (of_nat k))) = min (unat co + unat ch) (512 * k + 512) - 512 * k"
proof -
  let ?e = "unat co + unat ch"
  have c: "ucast (512 :: u16) = (512 :: u32)" by simp
  have s: "unat (co + ch) = ?e" "unat (511 + (co + ch)) = ?e + 511"
    using m by (simp_all add: unat_word_ariths)
  have uk: "unat (of_nat k :: u32) = k" using k(2) m by (simp add: unsigned_of_nat take_bit_nat_eq_self)
  have d: "unat (co div 512) = unat co div 512" "unat ((511 + (co + ch)) div 512) = (?e + 511) div 512"
    by (simp_all add: unat_div s)
  have "1 \<le> (?e + 511) div 512" using p by simp
  then have d1: "unat ((511 + (co + ch)) div 512 - 1) = (?e + 511) div 512 - 1"
    by (subst unat_sub) (simp_all add: word_le_nat_alt d)
  have i1: "of_nat k = co div 512 \<longleftrightarrow> k = unat co div 512"
    by (metis d(1) uk unat_eq_iff)
  have i2: "of_nat k = (511 + (co + ch)) div 512 - 1 \<longleftrightarrow> k = (?e + 511) div 512 - 1"
    by (metis d1 uk unat_eq_iff)
  have md: "unat (co mod 512) = unat co mod 512" "unat ((co + ch) mod 512) = ?e mod 512"
    by (simp_all add: unat_mod s)
  show "unat (fst (sector_bounds fs co ch (of_nat k))) = max (unat co) (512 * k) - 512 * k"
    using k(1) by (auto simp: sector_bounds_def Let_def b c i1 md max_def div512(3) split: if_splits)
  have z: "(co + ch) mod 512 = 0 \<longleftrightarrow> ?e mod 512 = 0" by (metis md(2) unat_eq_0)
  show "unat (snd (sector_bounds fs co ch (of_nat k))) = min ?e (512 * k + 512) - 512 * k"
  proof -
    have E: "co + ch + 512 - 1 = 511 + (co + ch)" by simp
    have "snd (sector_bounds fs co ch (of_nat k)) =
        (let n = (if k = (?e + 511) div 512 - 1 then (co + ch) mod 512 else 512) in if n = 0 then 512 else n)"
      by (simp only: sector_bounds_def Let_def b c E i2 snd_conv)
    then show ?thesis unfolding sector_end(1) [OF k(2), symmetric] by (auto simp: Let_def md z)
  qed
qed

lemma sector_pieces:
  fixes k e c :: nat
  assumes "c div 512 \<le> k" and "512 * k < e" and "c < e"
  shows "min e (512 * k + 512) - 512 * k - (max c (512 * k) - 512 * k) = min e (512 * k + 512) - max c (512 * k)"
    and "max c (512 * k) \<le> min e (512 * k + 512)" and "min e (512 * k + 512) - 512 * k \<le> 512"
proof -
  have "c < 512 * k + 512" using assms(1) div512(2) [of c] by linarith
  then show "min e (512 * k + 512) - 512 * k - (max c (512 * k) - 512 * k) = min e (512 * k + 512) - max c (512 * k)"
    "max c (512 * k) \<le> min e (512 * k + 512)" "min e (512 * k + 512) - 512 * k \<le> 512"
    using assms(2,3) by (auto simp: min_def max_def)
qed

lemma join_pieces:
  fixes m b c e dst i :: nat
  assumes "m \<le> b" and "b = min e c" and "dst \<le> i \<Longrightarrow> i < dst + (b - m) \<Longrightarrow> x = F (m + (i - dst))"
  shows "(if dst + (b - m) \<le> i \<and> i < dst + (b - m) + (e - c) then F (c + (i - (dst + (b - m))))
      else if dst \<le> i \<and> i < dst + (b - m) then x else y) =
    (if dst \<le> i \<and> i < dst + (e - m) then F (m + (i - dst)) else y)"
proof (cases "c < e")
  case True
  then have b: "b = c" using assms(2) by simp
  show ?thesis
  proof (cases "dst + (c - m) \<le> i")
    case ge: True
    have 1: "c + (i - (dst + (c - m))) = m + (i - dst)" and 2: "dst + (c - m) + (e - c) = dst + (e - m)"
      using ge assms(1) b True by simp_all
    have 3: "\<not> i < dst + (c - m)" "dst \<le> i" using ge by simp_all
    show ?thesis unfolding b 1 2 by (simp only: 3 ge simp_thms if_False)
  next
    case False
    moreover have "i < dst + (e - m)" using False True by simp
    ultimately show ?thesis using assms(3) b by simp
  qed
next
  case False
  then show ?thesis using assms by auto
qed

lemma read_cluster_sectors_step:
  assumes "read_sectors (fat_dev fs) (ucast (sec + s)) = Some (Some x)"
    and "unat (fst (sector_bounds fs co ch s)) = a" "unat (snd (sector_bounds fs co ch s)) = b" "b \<le> 512" "b - a = n"
  shows "read_cluster_sectors fs sec co ch (s # ss) dst buf =
    read_cluster_sectors fs sec co ch ss (dst + n)
      (\<lambda>i. if dst \<le> i \<and> i < dst + n then x ! (a + (i - dst)) else buf i)"
proof -
  obtain p q where "sector_bounds fs co ch s = (p, q)" by fastforce
  with assms show ?thesis by (auto simp: Let_def)
qed

lemma read_cluster_sectors_image:
  assumes ok: "fs_ok fs" and p: "0 < unat ch" and m: "unat co + unat ch \<le> 512 * spc fs"
    and w: "unat sec + spc fs \<le> 2 ^ 32" and d: "512 * (unat sec + spc fs) \<le> length (disk_image fs)"
    and k: "unat co div 512 \<le> k" "k \<le> (unat co + unat ch + 511) div 512"
  shows "read_cluster_sectors fs sec co ch (map of_nat [k ..< (unat co + unat ch + 511) div 512]) dst buf =
    Some (True, \<lambda>i. if dst \<le> i \<and> i < dst + (unat co + unat ch - max (unat co) (512 * k))
      then disk_image fs ! (512 * unat sec + max (unat co) (512 * k) + (i - dst)) else buf i)"
  using k
proof (induction "(unat co + unat ch + 511) div 512 - k" arbitrary: k dst buf)
  case 0
  then have "unat co + unat ch \<le> 512 * k" using div512(2) [of "unat co + unat ch + 511"] by linarith
  then show ?case using 0 by (auto simp: fun_eq_iff)
next
  case (Suc x)
  let ?e = "unat co + unat ch"
  let ?m = "max (unat co) (512 * k)"
  let ?b = "min ?e (512 * k + 512)"
  have ke: "k < (?e + 511) div 512" using Suc.hyps(2) by simp
  then have k2: "512 * k < ?e" using div512(1) [of "?e + 511"] by linarith
  have ks: "k < spc fs" using k2 m by linarith
  have bps: "bytes_per_sector fs = 512" using ok by (simp add: fs_ok_def)
  have "?e < 2 ^ 31" using m spc_bounds(2) [of fs] by simp
  note sb = sector_bounds_nat [OF bps Suc.prems(1) k2 this p]
  have pcs: "?b - 512 * k - (?m - 512 * k) = ?b - ?m" "?m \<le> ?b" "?b - 512 * k \<le> 512"
    using sector_pieces [OF Suc.prems(1) k2] p by simp_all
  have uk: "unat (of_nat k :: u32) = k" using ks spc_bounds(2) [of fs] by (simp add: unsigned_of_nat take_bit_nat_eq_self)
  have us: "unat (ucast (sec + of_nat k :: u32) :: u64) = unat sec + k"
    using w ks by (simp add: unat_ucast_le unat_word_ariths uk)
  have rs: "read_sectors (fat_dev fs) (ucast (sec + of_nat k :: u32)) = Some (Some (sector_bytes fs (unat sec + k)))"
    using read_sectors_image [OF ok, of "ucast (sec + of_nat k :: u32)"] us d ks by simp
  have st: "[k ..< (?e + 511) div 512] = k # [Suc k ..< (?e + 511) div 512]" using ke by (simp add: upt_conv_Cons)
  let ?buf = "\<lambda>i. if dst \<le> i \<and> i < dst + (?b - ?m)
    then sector_bytes fs (unat sec + k) ! (?m - 512 * k + (i - dst)) else buf i"
  have step: "read_cluster_sectors fs sec co ch (map of_nat [k ..< (?e + 511) div 512]) dst buf =
      read_cluster_sectors fs sec co ch (map of_nat [Suc k ..< (?e + 511) div 512]) (dst + (?b - ?m)) ?buf"
    unfolding st list.map by (rule read_cluster_sectors_step [OF rs sb pcs(3,1)])
  have mx: "max (unat co) (512 * Suc k) = 512 * Suc k" using Suc.prems(1) div512(2) [of "unat co"] by simp
  have IH: "read_cluster_sectors fs sec co ch (map of_nat [Suc k ..< (?e + 511) div 512]) (dst + (?b - ?m)) ?buf =
    Some (True, \<lambda>i. if dst + (?b - ?m) \<le> i \<and> i < dst + (?b - ?m) + (?e - 512 * Suc k)
      then disk_image fs ! (512 * unat sec + 512 * Suc k + (i - (dst + (?b - ?m)))) else ?buf i)"
    by (rule Suc.hyps(1) [of "Suc k" "dst + (?b - ?m)" ?buf, unfolded mx]) (use Suc.hyps(2) Suc.prems(1) ke in simp_all)
  have "(if dst + (?b - ?m) \<le> i \<and> i < dst + (?b - ?m) + (?e - 512 * Suc k)
      then disk_image fs ! (512 * unat sec + 512 * Suc k + (i - (dst + (?b - ?m)))) else ?buf i) =
    (if dst \<le> i \<and> i < dst + (?e - ?m) then disk_image fs ! (512 * unat sec + ?m + (i - dst)) else buf i)" for i
  proof -
    have lim: "512 * (unat sec + k) + 512 \<le> length (disk_image fs)" using d ks by simp
    have x: "sector_bytes fs (unat sec + k) ! (?m - 512 * k + (i - dst)) = disk_image fs ! (512 * unat sec + (?m + (i - dst)))"
      if "dst \<le> i" "i < dst + (?b - ?m)"
      using sector_bytes_nth [OF lim, of "?m - 512 * k + (i - dst)"] that pcs by (simp add: add.assoc)
    have "?b = min ?e (512 * Suc k)" by simp
    from join_pieces [where F = "\<lambda>j. disk_image fs ! (512 * unat sec + j)" and y = "buf i", OF pcs(2) this x]
    show ?thesis by (simp only: add.assoc)
  qed
  then show ?case unfolding step IH by simp
qed

section \<open>Chains\<close>

definition cluster_ok :: "FatInstance \<Rightarrow> u32 \<Rightarrow> bool" where
  "cluster_ok fs c \<longleftrightarrow> 2 \<le> c \<and> \<not> is_eoc c (is_fat32 fs)
     \<and> unat (cluster_to_sector fs c) + spc fs \<le> 2 ^ 32
     \<and> 512 * (unat (cluster_to_sector fs c) + spc fs) \<le> length (disk_image fs)"

text \<open>The clusters from \<open>c\<close> on, up to the end of the chain.\<close>

fun chain :: "FatInstance \<Rightarrow> u32 \<Rightarrow> u32 list \<Rightarrow> bool" where
  "chain fs c [] \<longleftrightarrow> c = 0 \<or> is_eoc c (is_fat32 fs)"
| "chain fs c (x # xs) \<longleftrightarrow> x = c \<and> cluster_ok fs c \<and> chain fs (next_cluster fs c) xs"

definition cluster_bytes :: "FatInstance \<Rightarrow> u32 \<Rightarrow> u8 list" where
  "cluster_bytes fs c = take (512 * spc fs) (drop (512 * unat (cluster_to_sector fs c)) (disk_image fs))"

definition chain_bytes :: "FatInstance \<Rightarrow> u32 list \<Rightarrow> u8 list" where
  "chain_bytes fs cs = concat (map (cluster_bytes fs) cs)"

lemma length_cluster_bytes: "cluster_ok fs c \<Longrightarrow> length (cluster_bytes fs c) = 512 * spc fs"
  by (auto simp: cluster_ok_def cluster_bytes_def min_def)

lemma cluster_bytes_nth:
  "cluster_ok fs c \<Longrightarrow> i < 512 * spc fs
     \<Longrightarrow> cluster_bytes fs c ! i = disk_image fs ! (512 * unat (cluster_to_sector fs c) + i)"
  by (simp add: cluster_ok_def cluster_bytes_def)

lemma length_chain_bytes: "chain fs c cs \<Longrightarrow> length (chain_bytes fs cs) = length cs * (512 * spc fs)"
  by (induction cs arbitrary: c) (auto simp: chain_bytes_def length_cluster_bytes)

text \<open>The part of a cluster that one turn of the loop copies.\<close>

definition chunk_of :: "FatInstance \<Rightarrow> u64 \<Rightarrow> u64 \<Rightarrow> u64 \<Rightarrow> u32" where
  "chunk_of fs skip n k =
     (if ucast (cluster_size fs - ucast skip :: u32) > n - k then ucast (n - k) else cluster_size fs - ucast skip)"

lemma unat_ucast_small: "unat (w :: u64) < 2 ^ 32 \<Longrightarrow> unat (ucast w :: u32) = unat w"
  by (simp add: unsigned_ucast_eq take_bit_nat_eq_self)

lemma unat_chunk_of:
  assumes "fs_ok fs" and "unat skip < 512 * spc fs" and "k < n"
  shows "unat (chunk_of fs skip n k) = min (512 * spc fs - unat skip) (unat n - unat k)"
proof -
  have s: "512 * spc fs < 2 ^ 32" using spc_bounds(2) [of fs] by simp
  have us: "unat (ucast skip :: u32) = unat skip" using assms(2) s by (intro unat_ucast_small) simp
  have le: "ucast skip \<le> cluster_size fs" using assms(1,2) us by (simp add: word_le_nat_alt unat_cluster_size)
  have d: "unat (cluster_size fs - ucast skip) = 512 * spc fs - unat skip"
    using le us assms(1) by (simp add: unat_sub unat_cluster_size)
  have nk: "unat (n - k) = unat n - unat k" using assms(3) by (simp add: unat_sub word_less_nat_alt word_le_nat_alt)
  show ?thesis
  proof (cases "ucast (cluster_size fs - ucast skip :: u32) > n - k")
    case True
    then have lt: "unat n - unat k < 512 * spc fs - unat skip"
      by (simp add: word_less_nat_alt unat_ucast_le d nk)
    then have "unat (ucast (n - k) :: u32) = unat n - unat k" using s nk by (simp add: unat_ucast_small)
    then show ?thesis using True lt by (simp add: chunk_of_def)
  next
    case False
    then have "512 * spc fs - unat skip \<le> unat n - unat k"
      by (simp add: word_less_nat_alt unat_ucast_le d nk)
    then show ?thesis using False d by (simp add: chunk_of_def)
  qed
qed

lemma read_clusters_step:
  assumes ok: "fs_ok fs" and c: "cluster_ok fs c" and s: "unat skip < 512 * spc fs" and k: "k < n"
  defines "m \<equiv> min (512 * spc fs - unat skip) (unat n - unat k)"
  shows "read_clusters fs c skip n k buf =
    read_clusters fs (next_cluster fs c) 0 n (k + of_nat m)
      (\<lambda>i. if unat k \<le> i \<and> i < unat k + m then cluster_bytes fs c ! (unat skip + (i - unat k)) else buf i)"
proof -
  let ?ch = "chunk_of fs skip n k"
  let ?co = "ucast skip :: u32"
  have m: "unat ?ch = m" unfolding m_def by (rule unat_chunk_of [OF ok s k])
  have co: "unat ?co = unat skip" using s spc_bounds(2) [of fs] by (intro unat_ucast_small) simp
  have mp: "0 < m" "unat skip + m \<le> 512 * spc fs" using s k by (auto simp: m_def word_less_nat_alt)
  have big: "512 * spc fs < 2 ^ 31" using spc_bounds(2) [of fs] by simp
  have bps: "ucast (bytes_per_sector fs) = (512 :: u32)" using ok by (simp add: fs_ok_def)
  have st: "unat (?co div 512) = unat skip div 512" by (simp add: unat_div co)
  have "unat (511 + (?co + ?ch)) = unat skip + m + 511"
    using mp(2) big by (simp add: unat_word_ariths co m)
  then have en: "unat ((?co + ?ch + 512 - 1) div 512) = (unat skip + m + 511) div 512" by (simp add: unat_div)
  have r: "read_cluster_sectors fs (cluster_to_sector fs c) ?co ?ch
      (map of_nat [unat (?co div 512) ..< unat ((?co + ?ch + 512 - 1) div 512)]) (unat k) buf =
    Some (True, \<lambda>i. if unat k \<le> i \<and> i < unat k + m then cluster_bytes fs c ! (unat skip + (i - unat k)) else buf i)"
  proof -
    have x: "max (unat skip) (512 * (unat skip div 512)) = unat skip" using div512(1) [of "unat skip"] by simp
    have "(unat skip div 512) \<le> (unat skip + m + 511) div 512" by (intro div_le_mono) simp
    with read_cluster_sectors_image [OF ok, of ?ch ?co "cluster_to_sector fs c" "unat skip div 512" "unat k" buf]
    have "read_cluster_sectors fs (cluster_to_sector fs c) ?co ?ch
        (map of_nat [unat skip div 512 ..< (unat skip + m + 511) div 512]) (unat k) buf =
      Some (True, \<lambda>i. if unat k \<le> i \<and> i < unat k + m
        then disk_image fs ! (512 * unat (cluster_to_sector fs c) + unat skip + (i - unat k)) else buf i)"
      using c mp by (simp add: co m x cluster_ok_def cong: if_cong)
    moreover have "(if unat k \<le> i \<and> i < unat k + m
        then disk_image fs ! (512 * unat (cluster_to_sector fs c) + unat skip + (i - unat k)) else buf i) =
      (if unat k \<le> i \<and> i < unat k + m then cluster_bytes fs c ! (unat skip + (i - unat k)) else buf i)" for i
    proof (rule if_cong [OF refl _ refl])
      assume "unat k \<le> i \<and> i < unat k + m"
      then have "unat skip + (i - unat k) < 512 * spc fs" using mp(2) by linarith
      from cluster_bytes_nth [OF c this]
      show "disk_image fs ! (512 * unat (cluster_to_sector fs c) + unat skip + (i - unat k)) =
          cluster_bytes fs c ! (unat skip + (i - unat k))" by (simp only: add.assoc)
    qed
    ultimately show ?thesis unfolding st en by simp
  qed
  have um: "ucast ?ch = (of_nat m :: u64)"
  proof (rule unat_eq_iff [THEN iffD1])
    have "m < 2 ^ 64" using mp(2) big by simp
    then show "unat (ucast ?ch :: u64) = unat (of_nat m :: u64)"
      by (simp add: unat_ucast_le m unsigned_of_nat take_bit_nat_eq_self del: unat_eq_iff)
  qed
  have g: "\<not> (c < 2 \<or> is_eoc c (is_fat32 fs))" using c by (auto simp: cluster_ok_def)
  show ?thesis
    by (subst read_clusters.simps) (simp only: Let_def k g bps chunk_of_def [symmetric] r simp_thms if_True if_False
        bind.bind_lunit prod.case um)
qed

lemma chain_bytes_Cons:
  assumes "cluster_ok fs c"
  shows "chain_bytes fs (c # cs) ! i =
    (if i < 512 * spc fs then cluster_bytes fs c ! i else chain_bytes fs cs ! (i - 512 * spc fs))"
  by (simp add: chain_bytes_def nth_append length_cluster_bytes [OF assms])

lemma read_clusters_chain:
  assumes ok: "fs_ok fs"
  shows "chain fs c cs \<Longrightarrow> unat skip < 512 * spc fs \<Longrightarrow> k \<le> n \<Longrightarrow>
    (let m = min (unat n - unat k) (length (chain_bytes fs cs) - unat skip) in
     read_clusters fs c skip n k buf = Some (k + of_nat m,
       \<lambda>i. if unat k \<le> i \<and> i < unat k + m then chain_bytes fs cs ! (unat skip + (i - unat k)) else buf i))"
proof (induction cs arbitrary: c skip k buf)
  case Nil
  then have "c < 2 \<or> is_eoc c (is_fat32 fs)" by auto
  then show ?case by (subst read_clusters.simps) (auto simp: chain_bytes_def fun_eq_iff)
next
  case (Cons x cs)
  then have x: "x = c" and c: "cluster_ok fs c" and ch: "chain fs (next_cluster fs c) cs" by auto
  let ?C = "512 * spc fs"
  let ?L = "chain_bytes fs cs"
  show ?case
  proof (cases "k < n")
    case False
    then have "k = n" using Cons.prems(3) by simp
    then show ?thesis by (subst read_clusters.simps) (auto simp: fun_eq_iff)
  next
    case True
    define m where "m = min (?C - unat skip) (unat n - unat k)"
    have lt: "unat k < unat n" using True by (simp add: word_less_nat_alt)
    have "unat k + m \<le> unat n" using lt by (simp add: m_def)
    then have ukm: "unat (k + of_nat m) = unat k + m" using unat_u64_less [of n]
      by (simp add: unat_word_ariths unsigned_of_nat take_bit_nat_eq_self)
    then have kn: "k + of_nat m \<le> n" using \<open>unat k + m \<le> unat n\<close> by (simp add: word_le_nat_alt)
    have C0: "unat (0 :: u64) < ?C" using spc_bounds(1) [OF ok] by simp
    let ?b = "\<lambda>i. if unat k \<le> i \<and> i < unat k + m then cluster_bytes fs c ! (unat skip + (i - unat k)) else buf i"
    define m2 where "m2 = min (unat n - (unat k + m)) (length ?L)"
    have IH: "read_clusters fs (next_cluster fs c) 0 n (k + of_nat m) ?b = Some (k + of_nat m + of_nat m2,
        \<lambda>i. if unat k + m \<le> i \<and> i < unat k + m + m2 then ?L ! (i - (unat k + m)) else ?b i)"
      using Cons.IH [OF ch C0 kn, of ?b] by (simp add: ukm m2_def Let_def cong: if_cong)
    have len: "length (chain_bytes fs (c # cs)) = ?C + length ?L"
      by (simp add: chain_bytes_def length_cluster_bytes [OF c])
    define M where "M = min (unat n - unat k) (length (chain_bytes fs (c # cs)) - unat skip)"
    have M: "M = m + m2" using Cons.prems(2) lt by (auto simp: M_def m_def m2_def len min_def)
    have full: "unat skip + m = ?C" if "0 < m2" using that Cons.prems(2) lt by (auto simp: m_def m2_def min_def)
    have "(if unat k + m \<le> i \<and> i < unat k + m + m2 then ?L ! (i - (unat k + m)) else ?b i) =
      (if unat k \<le> i \<and> i < unat k + M then chain_bytes fs (c # cs) ! (unat skip + (i - unat k)) else buf i)" for i
    proof -
      consider "i < unat k" | "unat k \<le> i" "i < unat k + m" | "unat k + m \<le> i" "i < unat k + M" | "unat k + M \<le> i"
        by linarith
      then show ?thesis
      proof cases
        case 2
        then have "unat skip + (i - unat k) < ?C" by (auto simp: m_def)
        then show ?thesis using 2 M by (simp add: chain_bytes_Cons [OF c])
      next
        case 3
        then have f: "unat skip + m = ?C" using full M by linarith
        then have "unat skip + (i - unat k) - ?C = i - (unat k + m)" "\<not> unat skip + (i - unat k) < ?C"
          using 3 by linarith+
        then show ?thesis using 3 M by (simp add: chain_bytes_Cons [OF c])
      qed (use M in simp_all)
    qed
    then show ?thesis
      unfolding x read_clusters_step [OF ok c Cons.prems(2) True, folded m_def] IH
      by (simp add: Let_def M_def [symmetric] M add.assoc)
  qed
qed

section \<open>Reading a file\<close>

lemma skip_clusters_chain:
  assumes ok: "fs_ok fs"
  shows "chain fs c cs \<Longrightarrow> cs \<noteq> [] \<Longrightarrow>
    (let q = unat off div (512 * spc fs) in
     skip_clusters fs c off = Some (if q < length cs then Some (cs ! q, of_nat (unat off mod (512 * spc fs))) else None)
     \<and> (q < length cs \<longrightarrow> chain fs (cs ! q) (drop q cs)))"
proof (induction cs arbitrary: c off)
  case (Cons x cs)
  let ?C = "512 * spc fs"
  have C: "0 < ?C" "unat (ucast (cluster_size fs) :: u64) = ?C"
    using spc_bounds(1) [OF ok] by (simp_all add: unat_ucast_le unat_cluster_size [OF ok])
  from Cons.prems have x: "x = c" and c: "cluster_ok fs c" and ch: "chain fs (next_cluster fs c) cs" by auto
  have ne: "\<not> is_eoc c (is_fat32 fs)" using c by (simp add: cluster_ok_def)
  show ?case
  proof (cases "unat off < ?C")
    case True
    then have "\<not> off \<ge> ucast (cluster_size fs)" by (simp add: word_le_nat_alt C)
    moreover have "of_nat (unat off mod ?C) = off" using True by simp
    ultimately show ?thesis using True Cons.prems(1) x by (subst skip_clusters.simps) (simp add: Let_def)
  next
    case False
    then have ge: "off \<ge> ucast (cluster_size fs)" by (simp add: word_le_nat_alt C)
    have sub: "unat (off - ucast (cluster_size fs)) = unat off - ?C" using ge by (simp add: unat_sub C)
    have q: "unat off div ?C = Suc ((unat off - ?C) div ?C)" "(unat off - ?C) mod ?C = unat off mod ?C"
      using False C(1) by (simp_all add: le_div_geq le_mod_geq)
    show ?thesis
    proof (cases cs)
      case Nil
      then show ?thesis using ge ne ch q(1) by (subst skip_clusters.simps) (simp add: Let_def)
    next
      case (Cons y ys)
      then have "\<not> (next_cluster fs c = 0 \<or> is_eoc (next_cluster fs c) (is_fat32 fs))"
        using ch by (auto simp: cluster_ok_def)
      then have "skip_clusters fs c off = skip_clusters fs (next_cluster fs c) (off - ucast (cluster_size fs))"
        using ge ne by (subst skip_clusters.simps) (simp add: Let_def)
      then show ?thesis
        using Cons.IH [OF ch, of "off - ucast (cluster_size fs)"] Cons q by (simp add: Let_def sub)
    qed
  qed
qed simp

lemma chain_bytes_drop:
  assumes "chain fs c cs" and "q < length cs" and "r < 512 * spc fs"
  shows "length (chain_bytes fs (drop q cs)) = length (chain_bytes fs cs) - q * (512 * spc fs)"
    and "chain_bytes fs (drop q cs) ! i = chain_bytes fs cs ! (q * (512 * spc fs) + i)"
proof -
  have "length (chain_bytes fs (take q cs)) = q * (512 * spc fs)"
    using assms(1,2)
  proof (induction cs arbitrary: c q)
    case (Cons x cs)
    then show ?case by (cases q) (auto simp: chain_bytes_def length_cluster_bytes)
  qed simp
  moreover have "chain_bytes fs cs = chain_bytes fs (take q cs) @ chain_bytes fs (drop q cs)"
    by (simp add: chain_bytes_def flip: concat_append map_append)
  ultimately show "length (chain_bytes fs (drop q cs)) = length (chain_bytes fs cs) - q * (512 * spc fs)"
    "chain_bytes fs (drop q cs) ! i = chain_bytes fs cs ! (q * (512 * spc fs) + i)"
    by (simp_all add: nth_append)
qed

lemma read_from_chain_bytes:
  fixes off n :: u64
  assumes ok: "fs_ok fs" and ch: "chain fs c cs" "cs \<noteq> []"
  defines "m \<equiv> min (unat n) (length (chain_bytes fs cs) - unat off)"
  shows "read_from_chain fs c off buf n =
    Some (of_nat m, \<lambda>i. if i < m then chain_bytes fs cs ! (unat off + i) else buf i)"
proof (cases "n = 0")
  case True
  then show ?thesis by (simp add: read_from_chain_def m_def)
next
  case False
  let ?C = "512 * spc fs"
  let ?q = "unat off div ?C"
  let ?r = "unat off mod ?C"
  have C: "0 < ?C" using spc_bounds(1) [OF ok] by simp
  have off: "unat off = ?q * ?C + ?r" by (rule div_mult_mod_eq [symmetric])
  note sk = skip_clusters_chain [OF ok ch, of off, unfolded Let_def]
  show ?thesis
  proof (cases "?q < length cs")
    case True
    have r: "unat (of_nat ?r :: u64) = ?r" using unat_u64_less [of off]
      by (simp add: unsigned_of_nat take_bit_nat_eq_self less_le_trans [OF mod_less_divisor [OF C]] order.strict_trans1 [OF mod_less_eq_dividend])
    have rC: "?r < ?C" using C by simp
    note dr = chain_bytes_drop [OF ch(1) True rC]
    have "read_from_chain fs c off buf n = read_clusters fs (cs ! ?q) (of_nat ?r) n 0 buf"
      using sk True False by (simp add: read_from_chain_def)
    also have "\<dots> = Some (of_nat m, \<lambda>i. if i < m then chain_bytes fs cs ! (unat off + i) else buf i)"
    proof -
      have "chain fs (cs ! ?q) (drop ?q cs)" using sk True by blast
      from read_clusters_chain [OF ok this, of "of_nat ?r" 0 n buf] rC r
      have "read_clusters fs (cs ! ?q) (of_nat ?r) n 0 buf = Some (of_nat m,
          \<lambda>i. if i < m then chain_bytes fs (drop ?q cs) ! (?r + i) else buf i)"
        using off by (simp add: Let_def dr(1) m_def cong: if_cong)
      moreover have "chain_bytes fs (drop ?q cs) ! (?r + i) = chain_bytes fs cs ! (unat off + i)" for i
      proof -
        have "?q * ?C + (?r + i) = unat off + i" using off by linarith
        then show ?thesis using dr(2) [of "?r + i"] by (simp only:)
      qed
      ultimately show ?thesis by (simp cong: if_cong)
    qed
    finally show ?thesis .
  next
    case False
    then have "length cs * ?C \<le> ?q * ?C" by (intro mult_right_mono) simp_all
    then have "length cs * ?C \<le> unat off" using off by linarith
    then have "m = 0" by (simp add: m_def length_chain_bytes [OF ch(1)])
    then show ?thesis using sk False \<open>n \<noteq> 0\<close> by (simp add: read_from_chain_def)
  qed
qed

text \<open>C20. Reading a file whose cluster chain holds its size returns the bytes of the chain from the offset on, as
  many as were asked for and the file has; other bytes of the buffer keep their value.\<close>

theorem fat_read_correct:
  fixes s :: "fat_sys vfs" and v :: vptr
  defines "fn \<equiv> fat_node_of v s" and "fs \<equiv> fat_fs_of v s"
  assumes "vnode_type (vnodes s v) = File" and "fs_ok fs" and "chain fs (first_cluster fn) cs" and "cs \<noteq> []"
    and "unat (node_size fn) \<le> length (chain_bytes fs cs)" and "unat off + unat n < 2 ^ 64"
  shows "\<exists>b m. fat_read v off buf n s = Some (0, of_nat m, b, s) \<and> m = min (unat n) (unat (node_size fn) - unat off)
    \<and> (\<forall>i. b i = (if i < m then chain_bytes fs cs ! (unat off + i) else buf i))"
proof -
  let ?z = "ucast (node_size fn) :: u64"
  have z: "unat ?z = unat (node_size fn)" by (simp add: unat_ucast_le)
  have on: "unat (off + n) = unat off + unat n" using assms(8) by (simp add: unat_word_ariths)
  show ?thesis
  proof (cases "off \<ge> ?z")
    case True
    then have "unat (node_size fn) - unat off = 0" by (simp add: word_le_nat_alt z)
    then show ?thesis using True assms(3)
      by (simp add: fat_read_def fn_def [symmetric] fs_def [symmetric] Let_def)
  next
    case False
    define n' where "n' = (if off + n > ?z then ?z - off else n)"
    have n': "unat n' = min (unat n) (unat (node_size fn) - unat off)"
    proof (cases "off + n > ?z")
      case True
      moreover have "unat (?z - off) = unat (node_size fn) - unat off"
        using False by (simp add: unat_sub z)
      ultimately show ?thesis by (simp add: n'_def word_less_nat_alt on z)
    next
      case False
      then show ?thesis by (simp add: n'_def word_less_nat_alt on z)
    qed
    have "min (unat n') (length (chain_bytes fs cs) - unat off) = unat n'" using n' assms(7) by simp
    then have "read_from_chain fs (first_cluster fn) off buf n' =
        Some (n', \<lambda>i. if i < unat n' then chain_bytes fs cs ! (unat off + i) else buf i)"
      using read_from_chain_bytes [OF assms(4-6), of off buf n'] by simp
    then have "fat_read v off buf n s =
        Some (0, n', \<lambda>i. if i < unat n' then chain_bytes fs cs ! (unat off + i) else buf i, s)"
      using False assms(3) by (simp add: fat_read_def fn_def [symmetric] fs_def [symmetric] Let_def n'_def [symmetric])
    then show ?thesis
      by (intro exI [of _ "\<lambda>i. if i < unat n' then chain_bytes fs cs ! (unat off + i) else buf i"]
          exI [of _ "unat n'"] conjI n') simp_all
  qed
qed

section \<open>Looking a name up\<close>

definition sector_entries :: "FatInstance \<Rightarrow> nat \<Rightarrow> u8 list list" where
  "sector_entries fs k = map (\<lambda>j. take 32 (drop (32 * j) (sector_bytes fs k))) [0 ..< 16]"

text \<open>The entries of a directory, in order.\<close>

definition chain_entries :: "FatInstance \<Rightarrow> u32 list \<Rightarrow> u8 list list" where
  "chain_entries fs cs = concat (map (\<lambda>c.
     concat (map (\<lambda>k. sector_entries fs (unat (cluster_to_sector fs c) + k)) [0 ..< spc fs])) cs)"

lemma search_entries_append:
  "search_entries (xs @ ys) name = (case search_entries xs name of More \<Rightarrow> search_entries ys name | r \<Rightarrow> r)"
  by (induction xs) auto

text \<open>The search is for the first regular entry with the name before the end marker.\<close>

lemma search_entries_find:
  "(case search_entries es name of Found e \<Rightarrow> Some e | _ \<Rightarrow> None) =
     find (\<lambda>e. is_regular_entry e \<and> name_matches_sfn e name) (takeWhile (\<lambda>e. \<not> is_end_marker e) es)"
  by (induction es) auto

lemma search_entries_More:
  "(\<And>e. e \<in> set es \<Longrightarrow> \<not> is_end_marker e \<and> \<not> is_regular_entry e) \<Longrightarrow> search_entries es name = More"
  by (induction es) auto

lemma search_sectors_entries:
  assumes ok: "fs_ok fs" and w: "unat sec + spc fs \<le> 2 ^ 32" and d: "512 * (unat sec + spc fs) \<le> length (disk_image fs)"
  shows "set ks \<subseteq> {..< spc fs} \<Longrightarrow> search_sectors fs sec ks name =
    Some (Inr (search_entries (concat (map (\<lambda>k. sector_entries fs (unat sec + k)) ks)) name))"
proof (induction ks)
  case (Cons k ks)
  then have k: "k < spc fs" by simp
  have bps: "unat (bytes_per_sector fs) = 512" using ok by (simp add: fs_ok_def)
  have uk: "unat (of_nat k :: u32) = k" using k spc_bounds(2) [of fs] by (simp add: unsigned_of_nat take_bit_nat_eq_self)
  have us: "unat (ucast (sec + of_nat k :: u32) :: u64) = unat sec + k"
    using w k by (simp add: unat_ucast_le unat_word_ariths uk)
  have rs: "read_sectors (fat_dev fs) (ucast (sec + of_nat k :: u32)) = Some (Some (sector_bytes fs (unat sec + k)))"
    using read_sectors_image [OF ok, of "ucast (sec + of_nat k :: u32)"] us d k by simp
  show ?case
    using Cons by (simp add: rs bps sector_entries_def [symmetric] search_entries_append split: dir_search.split)
qed simp

lemma find_in_chain_entries:
  assumes ok: "fs_ok fs"
  shows "chain fs c cs \<Longrightarrow> find_in_chain fs c name =
    Some (case search_entries (chain_entries fs cs) name of Found e \<Rightarrow> Inr e | _ \<Rightarrow> Inl E_NOT_FOUND)"
proof (induction cs arbitrary: c)
  case Nil
  then have "c < 2 \<or> is_eoc c (is_fat32 fs)" by auto
  then show ?case by (subst find_in_chain.simps) (simp add: chain_entries_def)
next
  case (Cons x cs)
  then have c: "x = c" "cluster_ok fs c" and ch: "chain fs (next_cluster fs c) cs" by auto
  have "search_sectors fs (cluster_to_sector fs c) [0 ..< spc fs] name =
      Some (Inr (search_entries (chain_entries fs [c]) name))"
    using c(2) search_sectors_entries [OF ok, of "cluster_to_sector fs c" "[0 ..< spc fs]" name]
    by (simp add: cluster_ok_def chain_entries_def atLeast0LessThan)
  moreover have "chain_entries fs (x # cs) = chain_entries fs [c] @ chain_entries fs cs"
    using c(1) by (simp add: chain_entries_def)
  ultimately show ?case
    using c(2) Cons.IH [OF ch]
    by (subst find_in_chain.simps)
      (auto simp: cluster_ok_def spc_def search_entries_append split: dir_search.split)
qed

text \<open>The fixed root directory of FAT16, behind the allocation tables.\<close>

definition root16_sector :: "FatInstance \<Rightarrow> nat" where
  "root16_sector fs = unat (ucast (reserved_sector_count fs) + ucast (fat_count fs) * fat_size fs :: u32)"

definition root16_entries :: "FatInstance \<Rightarrow> u8 list list" where
  "root16_entries fs = map (\<lambda>k. take 32 (drop (512 * root16_sector fs + 32 * k) (disk_image fs)))
     [0 ..< unat (root_entry_count fs)]"

definition root16_ok :: "FatInstance \<Rightarrow> bool" where
  "root16_ok fs \<longleftrightarrow> (let n = (32 * unat (root_entry_count fs) + 511) div 512 in
     root16_sector fs + n \<le> 2 ^ 32 \<and> 512 * (root16_sector fs + n) \<le> length (disk_image fs))"

text \<open>The entries of a directory: of the fixed root, or of the clusters of its chain.\<close>

definition dir_holds :: "FatInstance \<Rightarrow> FatNode \<Rightarrow> u8 list list \<Rightarrow> bool" where
  "dir_holds fs fn es \<longleftrightarrow>
     (if is_root16 fs fn then root16_ok fs \<and> es = root16_entries fs
      else \<exists>cs. chain fs (first_cluster fn) cs \<and> es = chain_entries fs cs)"

lemma read_root_step:
  assumes "read_sectors (fat_dev fs) (ucast (root + so)) = Some (Some x)" and "bytes_per_sector fs = 512"
    and "(if ucast (512 - bo) > (32 :: u64) then ucast (32 :: u64) else 512 - bo) = (32 :: u32)" and "unat bo + 32 \<le> 512"
  shows "read_root_loop fs root so bo 32 0 b0 =
    read_root_loop fs root (so + 1) 0 32 32 (\<lambda>i. if i < 32 then x ! (unat bo + i) else b0 i)"
proof -
  have c: "ucast (512 :: u16) = (512 :: u32)" "(32 :: u64) - 0 = 32" "\<not> \<not> (0 :: u64) < 32" by simp_all
  have "read_root_loop fs root so bo 32 0 b0 =
      read_root_loop fs root (so + 1) 0 32 (0 + ucast (32 :: u32))
        (\<lambda>i. if unat (0 :: u64) \<le> i \<and> i < unat (0 :: u64) + unat (32 :: u32)
           then x ! (unat bo + (i - unat (0 :: u64))) else b0 i)"
    using assms(4) by (subst read_root_loop.simps, simp only: assms(1,2) c bind.bind_lunit if_False option.case Let_def assms(3)) simp
  then show ?thesis by (simp cong: if_cong)
qed

lemma read_fat16_root_entry:
  assumes ok: "fs_ok fs" and r: "root16_ok fs" and k: "k < unat (root_entry_count fs)"
    and uo: "unat off = 32 * k"
  shows "\<exists>b. read_fat16_root fs off b0 32 = Some (32, b) \<and> map b [0 ..< 32] = root16_entries fs ! k"
proof -
  let ?q = "32 * k div 512" and ?m = "32 * k mod 512"
  have c: "unat (root_entry_count fs) < 2 ^ 16"
    using unsigned_less [where 'a = nat and w = "root_entry_count fs"] by simp
  have rc: "unat (ucast (root_entry_count fs) * 32 :: u64) = 32 * unat (root_entry_count fs)"
    using c by (simp add: unat_word_ariths unat_ucast_le)
  have g: "\<not> off \<ge> ucast (root_entry_count fs) * 32" "\<not> off + 32 > ucast (root_entry_count fs) * 32"
    using k c unat_word_ariths(1) [of off 32] unfolding not_le not_less word_le_nat_alt word_less_nat_alt uo rc
    by simp_all
  define root :: u32 where "root = ucast (reserved_sector_count fs) + ucast (fat_count fs) * fat_size fs"
  have ur: "unat root = root16_sector fs" by (simp add: root_def root16_sector_def)
  have "?m = 32 * (k mod 16)" using mult_mod_right [of 32 k 16] by simp
  moreover have "k mod 16 < 16" by simp
  ultimately have m: "?m + 32 \<le> 512" "512 * ?q + ?m = 32 * k"
    using mult_div_mod_eq [of 512 "32 * k"] by linarith+
  have q: "?q < (32 * unat (root_entry_count fs) + 511) div 512"
    using k div512(1) [of "32 * k"] div512(2) [of "32 * unat (root_entry_count fs) + 511"] by linarith
  have bps: "bytes_per_sector fs = 512" using ok by (simp add: fs_ok_def)
  have uq: "unat (ucast (off div 512) :: u32) = ?q" and um: "unat (ucast (off mod 512) :: u32) = ?m"
    using k c by (simp_all add: unat_ucast_small unat_div unat_mod uo)
  have w: "root16_sector fs + ?q < 2 ^ 32" "512 * (root16_sector fs + ?q) + 512 \<le> length (disk_image fs)"
    using r q by (auto simp: root16_ok_def Let_def)
  have us: "unat (ucast (root + ucast (off div 512)) :: u64) = root16_sector fs + ?q"
    using w(1) by (simp add: unat_ucast_le unat_word_ariths ur uq)
  have rs: "read_sectors (fat_dev fs) (ucast (root + ucast (off div 512)))
      = Some (Some (sector_bytes fs (root16_sector fs + ?q)))"
    using read_sectors_image [OF ok, of "ucast (root + ucast (off div 512))"] us w(2) by simp
  define b where "b = (\<lambda>i. if i < 32 then sector_bytes fs (root16_sector fs + ?q) ! (?m + i) else b0 i)"
  let ?ch = "512 - ucast (off mod 512) :: u32"
  have uch: "unat ?ch = 512 - ?m" using m(1) by (simp add: unat_sub word_le_nat_alt um)
  have ch: "(if ucast ?ch > (32 :: u64) then ucast (32 :: u64) else ?ch) = 32"
  proof (cases "ucast ?ch > (32 :: u64)")
    case False
    then have "unat ?ch \<le> 32" by (simp add: word_less_nat_alt unat_ucast_le)
    then have "unat ?ch = unat (32 :: u32)" using uch m(1) by simp
    then have "?ch = 32" by (simp only: word_unat_eq_iff)
    then show ?thesis using False by (simp only: if_False)
  qed simp
  have "read_fat16_root fs off b0 32 = read_root_loop fs root (ucast (off div 512)) (ucast (off mod 512)) 32 0 b0"
    using g by (simp add: read_fat16_root_def Let_def bps root_def)
  also have "\<dots> = read_root_loop fs root (ucast (off div 512) + 1) 0 32 32 b"
    unfolding b_def um [symmetric] by (rule read_root_step [OF rs bps ch]) (use m(1) um in simp)
  also have "\<dots> = Some (32, b)" by (subst read_root_loop.simps) simp
  finally have rd: "read_fat16_root fs off b0 32 = Some (32, b)" .
  have "512 * (root16_sector fs + ?q) + (?m + i) = 512 * root16_sector fs + 32 * k + i" for i
    unfolding add_mult_distrib2 using arg_cong [OF m(2), of "\<lambda>x. 512 * root16_sector fs + x + i"] by (simp only: add.assoc)
  then have "b i = disk_image fs ! (512 * root16_sector fs + 32 * k + i)" if "i < 32" for i
    using sector_bytes_nth [OF w(2), of "?m + i"] that m(1) unfolding b_def by (simp only: if_True)
  moreover have "512 * r + x + 32 \<le> n" if "512 * (r + q) + 512 \<le> n" "l + 32 \<le> 512" "512 * q + l = x" for r x n q l :: nat
    using that by simp
  from this [OF w(2) m] have "512 * root16_sector fs + 32 * k + 32 \<le> length (disk_image fs)" .
  ultimately have "map b [0 ..< 32] = root16_entries fs ! k"
    using k by (auto simp: root16_entries_def intro!: nth_equalityI)
  with rd show ?thesis by blast
qed

lemma root16_offset:
  assumes "k \<le> unat (root_entry_count fs)" and "unat off = 32 * k"
  shows "off + 32 \<le> ucast (root_entry_count fs) * (32 :: u64) \<longleftrightarrow> k < unat (root_entry_count fs)"
    and "unat (off + 32) = 32 * Suc k"
proof -
  have c: "unat (root_entry_count fs) < 2 ^ 16"
    using unsigned_less [where 'a = nat and w = "root_entry_count fs"] by simp
  show u: "unat (off + 32) = 32 * Suc k" using assms c by (simp add: unat_word_ariths)
  have "unat (ucast (root_entry_count fs) * 32 :: u64) = 32 * unat (root_entry_count fs)"
    using c by (simp add: unat_word_ariths unat_ucast_le)
  then show "off + 32 \<le> ucast (root_entry_count fs) * 32 \<longleftrightarrow> k < unat (root_entry_count fs)"
    unfolding word_le_nat_alt u by (simp only: Suc_le_eq [symmetric] mult_le_cancel1) simp
qed

lemma find_root16_entries:
  assumes ok: "fs_ok fs" and r: "root16_ok fs" and k: "k \<le> unat (root_entry_count fs)" and o: "unat off = 32 * k"
  shows "find_root16 fs off name =
    Some (case search_entries (drop k (root16_entries fs)) name of Found e \<Rightarrow> Some e | _ \<Rightarrow> None)"
  using k o
proof (induction "unat (root_entry_count fs) - k" arbitrary: k off)
  case 0
  then have "\<not> off + 32 \<le> ucast (root_entry_count fs) * 32" using root16_offset [of k fs off] by simp
  then show ?case using 0 by (subst find_root16.simps) (simp add: root16_entries_def)
next
  case (Suc n)
  then have k: "k < unat (root_entry_count fs)" by simp
  note o = root16_offset [OF Suc.prems]
  obtain b where b: "read_fat16_root fs off (\<lambda>_. 0) 32 = Some (32, b)" "map b [0 ..< 32] = root16_entries fs ! k"
    using read_fat16_root_entry [OF ok r k Suc.prems(2)] by blast
  have dr: "drop k (root16_entries fs) = root16_entries fs ! k # drop (Suc k) (root16_entries fs)"
    using k by (intro Cons_nth_drop_Suc [symmetric]) (simp add: root16_entries_def)
  have IH: "find_root16 fs (off + 32) name =
      Some (case search_entries (drop (Suc k) (root16_entries fs)) name of Found e \<Rightarrow> Some e | _ \<Rightarrow> None)"
    using Suc.hyps(1) [of "Suc k" "off + 32"] Suc.hyps(2) k o(2) by simp
  show ?case
    using o(1) k IH by (subst find_root16.simps) (simp add: b dr)
qed

text \<open>C21. Looking a name up in a directory, the fixed root of FAT16 or a chain of clusters, finds the first regular
  entry before the end marker whose short name matches it, ignoring case, and makes a vnode for that entry;
  without such an entry, and for the empty and the dot names, the result is \<open>E_NOT_FOUND\<close>.  With clusters of
  more than eight sectors every lookup is \<open>E_IO\<close>.  Sectors have 512 bytes and the directory lies on the disk.\<close>

theorem fat_lookup_correct:
  fixes s :: "fat_sys vfs" and v :: vptr
  defines "fn \<equiv> fat_node_of v s" and "fs \<equiv> fat_fs_of v s"
  assumes "fs_ok fs" and "dir_holds fs fn es"
  shows "fat_lookup v name s = Some (
      if name = [] then (E_NOT_FOUND, 0, s)
      else if spc fs > 8 then (E_IO, 0, s)
      else if is_dot_name name then (E_NOT_FOUND, 0, s)
      else case find (\<lambda>e. is_regular_entry e \<and> name_matches_sfn e name)
             (takeWhile (\<lambda>e. \<not> is_end_marker e) es) of
        None \<Rightarrow> (E_NOT_FOUND, 0, s)
      | Some e \<Rightarrow> new_fat_vnode (if e ! DIR_ATTR AND ATTR_DIRECTORY \<noteq> 0 then Directory else File)
          (vnode_ops (vnodes s v)) (entry_node (node_fs fn) e) s)"
proof -
  have big: "cluster_size fs > 4096 \<longleftrightarrow> spc fs > 8" using assms(3) by (auto simp: word_less_nat_alt unat_cluster_size)
  have "find_entry (node_fs fn) fs (first_cluster fn) (is_root16 fs fn) name =
      Some (if name = [] then Inl E_NOT_FOUND else if spc fs > 8 then Inl E_IO
        else if is_dot_name name then Inl E_NOT_FOUND
        else case search_entries es name of Found e \<Rightarrow> Inr (entry_node (node_fs fn) e) | _ \<Rightarrow> Inl E_NOT_FOUND)"
  proof (cases "is_root16 fs fn")
    case True
    then have "find_root16 fs 0 name = Some (case search_entries es name of Found e \<Rightarrow> Some e | _ \<Rightarrow> None)"
      using find_root16_entries [OF assms(3), of 0 0] assms(4) by (simp add: dir_holds_def)
    then show ?thesis using True by (simp add: find_entry_def big split: dir_search.split)
  next
    case False
    then obtain cs where "chain fs (first_cluster fn) cs" "es = chain_entries fs cs"
      using assms(4) by (auto simp: dir_holds_def)
    then show ?thesis
      using False assms(3) by (simp add: find_entry_def big find_in_chain_entries split: dir_search.split)
  qed
  then show ?thesis
    unfolding search_entries_find [symmetric]
    by (simp add: fat_lookup_def fn_def [symmetric] fs_def [symmetric] Let_def entry_node_def split: dir_search.split)
qed

text \<open>A directory whose chain runs into a cycle without an end marker is searched forever: a lookup of a name that
  is not in the cycle does not return.\<close>

theorem find_in_cycle_hangs:
  assumes "\<And>c. c \<in> C \<Longrightarrow> 2 \<le> c \<and> \<not> is_eoc c (is_fat32 fs) \<and> next_cluster fs c \<in> C
      \<and> search_sectors fs (cluster_to_sector fs c) [0 ..< unat (sectors_per_cluster fs)] name = Some (Inr More)"
    and "c \<in> C"
  shows "find_in_chain fs c name = None"
proof (rule ccontr)
  assume "find_in_chain fs c name \<noteq> None"
  then obtain r where "find_in_chain fs c name = Some r" by blast
  then have "c \<notin> C"
  proof (rule find_in_chain.raw_induct [where P = "\<lambda>f c n r. f = fs \<and> n = name \<longrightarrow> c \<notin> C", rotated, THEN mp])
    fix loop f c n r
    assume IH: "\<And>f c n r. loop f c n = Some r \<Longrightarrow> f = fs \<and> n = name \<longrightarrow> c \<notin> C"
      and eq: "(if c < 2 \<or> is_eoc c (is_fat32 f) then Some (Inl E_NOT_FOUND)
        else do {
          r \<leftarrow> search_sectors f (cluster_to_sector f c) [0 ..< unat (sectors_per_cluster f)] n;
          case r of Inl err \<Rightarrow> Some (Inl err)
          | Inr (Found e) \<Rightarrow> Some (Inr e)
          | Inr End \<Rightarrow> Some (Inl E_NOT_FOUND)
          | Inr More \<Rightarrow> loop f (next_cluster f c) n
        }) = Some r"
    show "f = fs \<and> n = name \<longrightarrow> c \<notin> C"
    proof (intro impI notI)
      assume f: "f = fs \<and> n = name" and c: "c \<in> C"
      have "\<not> c < 2" using assms(1) [OF c] by (simp add: not_less)
      then have "loop fs (next_cluster fs c) name = Some r" using eq f assms(1) [OF c] by auto
      then show False using IH assms(1) [OF c] by blast
    qed
  qed simp
  then show False using assms(2) by blast
qed

section \<open>Initialisation\<close>

text \<open>What every mounted instance satisfies: sector and cluster sizes are powers of two in range, there is a table, and
  the table holds every entry \<open>next_cluster\<close> reads.\<close>

definition instance_ok :: "FatInstance \<Rightarrow> bool" where
  "instance_ok fs \<longleftrightarrow> bytes_per_sector fs \<in> {512, 1024, 2048, 4096}
     \<and> sectors_per_cluster fs \<noteq> 0 \<and> sectors_per_cluster fs AND (sectors_per_cluster fs - 1) = 0 \<and> fat_count fs \<noteq> 0
     \<and> (\<not> is_fat32 fs \<longrightarrow> root_cluster fs = 0)
     \<and> (\<exists>table. fat_buffer fs = Some table \<and> length table = unat (fat_size fs * ucast (bytes_per_sector fs))
          \<and> (\<forall>c < fat_entry_count fs. (if is_fat32 fs then 4 * unat c + 4 else 2 * unat c + 2) \<le> length table))"

lemma try_read_Some: "try_read r f = Some (Some y) \<longleftrightarrow> (\<exists>x. r = Some (Some x) \<and> f x = Some (Some y))"
  by (auto simp: try_read_def bind_eq_Some_conv split: option.splits)

lemma copy_table_length: "copy_table fs ss dst = Some (Some table) \<Longrightarrow> length table = length dst"
proof (induction ss arbitrary: dst)
  case (Cons k ks)
  obtain buf where b: "read_sectors (fat_dev fs) (ucast (ucast (reserved_sector_count fs) + of_nat k :: u32)) = Some (Some buf)"
    using Cons.prems by (auto simp: try_read_Some)
  then have "length buf = 512" by (auto simp: read_sectors_def bind_eq_Some_conv split: if_splits)
  then show ?case using Cons b by (fastforce simp: try_read_Some Let_def min_def split: if_splits)
qed simp

text \<open>A property of the result of a sequence of reads, if it succeeds.\<close>

definition holds :: "('a \<Rightarrow> bool) \<Rightarrow> 'a option option \<Rightarrow> bool" where
  "holds P r \<longleftrightarrow> (\<forall>y. r = Some (Some y) \<longrightarrow> P y)"

lemma holds_try: "(\<And>x. r = Some (Some x) \<Longrightarrow> holds P (f x)) \<Longrightarrow> holds P (try_read r f)"
  by (auto simp: holds_def try_read_Some)

lemma holds_try_pair:
  "(\<And>a b. r = Some (Some (a, b)) \<Longrightarrow> holds P (f a b)) \<Longrightarrow> holds P (try_read r (\<lambda>(a, b). f a b))"
  by (auto simp: holds_def try_read_Some)

lemma holds_if: "(\<not> b \<Longrightarrow> holds P x) \<Longrightarrow> holds P (if b then Some None else x)"
  by (auto simp: holds_def)

lemma holds_return: "P y \<Longrightarrow> holds P (Some (Some y))"
  by (simp add: holds_def)

lemma parse_bpb_fields:
  "holds (\<lambda>fs. bytes_per_sector fs \<in> {512, 1024, 2048, 4096} \<and> sectors_per_cluster fs \<noteq> 0
     \<and> sectors_per_cluster fs AND (sectors_per_cluster fs - 1) = 0 \<and> fat_count fs \<noteq> 0
     \<and> (\<not> is_fat32 fs \<longrightarrow> root_cluster fs = 0) \<and> fat_dev fs = dev) (parse_bpb (blank_instance dev))"
  unfolding parse_bpb_def Let_def
  by (intro holds_try holds_try_pair holds_if holds_return) (auto simp: blank_instance_def)

lemma entries_in_table:
  fixes n :: nat and c :: u32
  assumes "c < of_nat n div k" and "n < 2 ^ 32" and "unat k = w" and "0 < w"
  shows "w * unat c + w \<le> n"
proof -
  have "unat (of_nat n div k :: u32) = n div w"
    using assms(2,3) by (simp add: unat_div unsigned_of_nat take_bit_nat_eq_self)
  then have "Suc (unat c) \<le> n div w" using assms(1) by (simp add: word_less_nat_alt)
  then have "w * Suc (unat c) \<le> w * (n div w)" by (intro mult_left_mono) simp_all
  also have "\<dots> \<le> n" by simp
  finally show ?thesis by simp
qed

lemma read_fat_table_fields:
  "holds (\<lambda>fs'. (\<exists>table. fat_buffer fs' = Some table \<and> length table = unat (fat_size fs * ucast (bytes_per_sector fs))
        \<and> (\<forall>c < fat_entry_count fs'. (if is_fat32 fs then 4 * unat c + 4 else 2 * unat c + 2) \<le> length table))
      \<and> fs' = fs\<lparr>fat_buffer := fat_buffer fs', fat_buffer_at := b, fat_entry_count := fat_entry_count fs'\<rparr>)
    (read_fat_table b fs)"
  unfolding read_fat_table_def Let_def
proof (intro holds_if holds_try holds_return)
  fix table
  let ?n = "fat_size fs * ucast (bytes_per_sector fs)"
  let ?k = "if is_fat32 fs then 4 else 2 :: u32"
  let ?f = "fs\<lparr>fat_entry_count := ?n div ?k\<rparr>"
  assume "copy_table ?f [0 ..< unat (fat_size ?f)] (replicate (unat ?n) 0) = Some (Some table)"
  then have l: "length table = unat ?n" using copy_table_length by fastforce
  have "(if is_fat32 fs then 4 * unat c + 4 else 2 * unat c + 2) \<le> length table" if "c < ?n div ?k" for c
    using entries_in_table [of c "unat ?n" ?k "if is_fat32 fs then 4 else 2"] that
      unsigned_less [where 'a = nat and w = ?n] by (auto simp: l split: if_splits)
  then show "(\<exists>table'. fat_buffer (?f\<lparr>fat_buffer := Some table, fat_buffer_at := b\<rparr>) = Some table'
        \<and> length table' = unat ?n
        \<and> (\<forall>c < fat_entry_count (?f\<lparr>fat_buffer := Some table, fat_buffer_at := b\<rparr>).
             (if is_fat32 fs then 4 * unat c + 4 else 2 * unat c + 2) \<le> length table'))
      \<and> ?f\<lparr>fat_buffer := Some table, fat_buffer_at := b\<rparr> = fs\<lparr>fat_buffer := fat_buffer (?f\<lparr>fat_buffer := Some table, fat_buffer_at := b\<rparr>),
          fat_buffer_at := b, fat_entry_count := fat_entry_count (?f\<lparr>fat_buffer := Some table, fat_buffer_at := b\<rparr>)\<rparr>"
    using l by simp
qed

text \<open>C22. An instance that the initialisation stores is well formed: its sector and cluster sizes are powers of two in
  range, it has a table, and the table holds every entry that following a chain reads.\<close>

theorem fat_init_well_formed:
  assumes "fat_init dev s = Some (0, t)"
  shows "g_fs (fs_data t) \<noteq> 0 \<and> instance_ok (fat_instances (fs_data t) (g_fs (fs_data t)))
    \<and> fat_dev (fat_instances (fs_data t) (g_fs (fs_data t))) = dev"
proof -
  obtain p b fs fs' where p: "p \<noteq> 0" and 1: "parse_bpb (blank_instance dev) = Some (Some fs)"
    and 2: "read_fat_table b fs = Some (Some fs')"
    and t: "g_fs (fs_data t) = p" "fat_instances (fs_data t) p = fs'"
    using assms by (auto simp: fat_init_def Let_def split_beta bind_eq_Some_conv split: if_splits option.splits)
  note f1 = parse_bpb_fields [of dev, unfolded holds_def, rule_format, OF 1]
  note f2 = read_fat_table_fields [of fs b, unfolded holds_def, rule_format, OF 2]
  have "bytes_per_sector fs' = bytes_per_sector fs" "sectors_per_cluster fs' = sectors_per_cluster fs"
    "fat_count fs' = fat_count fs" "is_fat32 fs' = is_fat32 fs" "root_cluster fs' = root_cluster fs"
    "fat_size fs' = fat_size fs" "fat_dev fs' = fat_dev fs"
    by (subst conjunct2 [OF f2]; simp)+
  then show ?thesis using f1 conjunct1 [OF f2] p by (simp add: t instance_ok_def)
qed

section \<open>Examples\<close>

definition example_dev :: "u8 list \<Rightarrow> BlockDevice" where
  "example_dev img = \<lparr>sector_count = of_nat (length img div 512), sector_size = 512,
     dev_private = \<lparr>mb_data = img, mb_size = of_nat (length img)\<rparr>\<rparr>"

text \<open>A FAT16 file system with clusters of one sector from sector 1 on.\<close>

definition example_fs :: "u8 list \<Rightarrow> u8 list \<Rightarrow> FatInstance" where
  "example_fs table img = (blank_instance (example_dev img))\<lparr>bytes_per_sector := 512, sectors_per_cluster := 1,
     fat_count := 1, fat_size := 1, first_data_sector := 1, fat_buffer := Some table,
     fat_entry_count := of_nat (length table div 2)\<rparr>"

text \<open>A file in the clusters 2 and 3, and a directory in cluster 2.\<close>

definition file_image :: "u8 list" where
  "file_image = replicate 512 0 @ replicate 512 7 @ replicate 512 9"

definition file_table :: "u8 list" where
  "file_table = [0xF8, 0xFF, 0xFF, 0xFF, 3, 0, 0xF8, 0xFF]"

definition dir_entry :: "u8 list" where
  "dir_entry = [65, 66] @ replicate 9 0x20 @ [0x20] @ replicate 20 0"

definition dir_disk :: "u8 list" where
  "dir_disk = replicate 512 0 @ dir_entry @ replicate 480 0"

definition dir_table :: "u8 list" where
  "dir_table = [0xF8, 0xFF, 0xFF, 0xFF, 0xF8, 0xFF]"

definition example_fat :: "FatInstance \<Rightarrow> VnodeType \<Rightarrow> u32 \<Rightarrow> fat_sys vfs" where
  "example_fat fs type n = \<lparr>vnodes = (\<lambda>_. \<lparr>vnode_type = type, vnode_ops = fat_ops_ptr, private_data = 6,
       ref_count = 1, mount_parent = 0\<rparr>),
     mount_table = [], kernel_fd_table = [], process_fd_table = (\<lambda>_. []), current_process = None, root_vnode = 0,
     initialized = True,
     fs_data = \<lparr>fat_alloc_next = 10, fat_alloc_ok = (\<lambda>_. True), fat_live = (\<lambda>_. True), fat_instances = (\<lambda>_. fs),
       fat_nodes = (\<lambda>_. \<lparr>first_cluster = 2, node_size = n, attributes = 0, node_fs = 4\<rparr>), g_fs = 4\<rparr>\<rparr>"

lemma example_fs_ok: "length img < 2 ^ 32 \<Longrightarrow> fs_ok (example_fs table img)" "spc (example_fs table img) = 1"
  "disk_image (example_fs table img) = img"
  "cluster_to_sector (example_fs table img) c = c - 1" "is_fat32 (example_fs table img) = False"
  by (simp_all add: fs_ok_def example_fs_def example_dev_def disk_image_def blank_instance_def spc_def
      unsigned_of_nat take_bit_nat_eq_self cluster_to_sector_def)

lemma example_file_chain: "chain (example_fs file_table file_image) 2 [2, 3]"
proof -
  have n: "next_cluster (example_fs file_table file_image) 2 = 3"
    "next_cluster (example_fs file_table file_image) 3 = 0xFFF8"
    by (simp_all add: next_cluster_def example_fs_def blank_instance_def file_table_def)
  show ?thesis
    by (simp add: n cluster_ok_def example_fs_ok is_eoc_def FAT_EOC_MIN_16_def) (simp add: file_image_def)
qed

theorem fat_read_correct_witness:
  "\<exists>b. fat_read 5 510 (\<lambda>_. 1) 100 (example_fat (example_fs file_table file_image) File 515) =
      Some (0, 5, b, example_fat (example_fs file_table file_image) File 515)
    \<and> b 1 = 7 \<and> b 2 = 9 \<and> b 5 = 1"
proof -
  let ?fs = "example_fs file_table file_image"
  let ?s = "example_fat ?fs File 515"
  have l: "length file_image = 1536" by (simp add: file_image_def)
  have f: "fat_node_of 5 ?s = \<lparr>first_cluster = 2, node_size = 515, attributes = 0, node_fs = 4\<rparr>" "fat_fs_of 5 ?s = ?fs"
    by (simp_all add: fat_node_of_def fat_fs_of_def example_fat_def)
  have cb: "chain_bytes ?fs [2, 3] = replicate 512 7 @ replicate 512 9"
    by (simp add: chain_bytes_def cluster_bytes_def example_fs_ok file_image_def)
  have vt: "vnode_type (vnodes ?s 5) = File" by (simp add: example_fat_def)
  have "fs_ok (fat_fs_of 5 ?s)" "chain (fat_fs_of 5 ?s) (first_cluster (fat_node_of 5 ?s)) [2, 3]"
    using example_fs_ok(1) [of file_image] example_file_chain by (simp_all add: f l del: chain.simps)
  note rd = fat_read_correct [OF vt this, of 510 100 "\<lambda>_. 1"]
  have "\<exists>b m. fat_read 5 510 (\<lambda>_. 1) 100 ?s = Some (0, of_nat m, b, ?s) \<and> m = 5
      \<and> (\<forall>i. b i = (if i < m then (replicate 512 7 @ replicate 512 9) ! (510 + i) else 1))"
    using rd by (simp add: f cb cong: if_cong)
  then obtain b where b: "fat_read 5 510 (\<lambda>_. 1) 100 ?s = Some (0, 5, b, ?s)"
    "\<And>i. b i = (if i < 5 then (replicate 512 7 @ replicate 512 9) ! (510 + i) else 1)" by auto
  have "b 1 = 7" "b 2 = 9" "b 5 = 1" by (simp_all add: b(2) nth_append)
  with b(1) show ?thesis by blast
qed

lemma example_dir_chain: "chain (example_fs dir_table dir_disk) 2 [2]"
proof -
  have n: "next_cluster (example_fs dir_table dir_disk) 2 = 0xFFF8"
    by (simp add: next_cluster_def example_fs_def blank_instance_def dir_table_def)
  show ?thesis
    by (simp add: n cluster_ok_def example_fs_ok is_eoc_def FAT_EOC_MIN_16_def) (simp add: dir_disk_def dir_entry_def)
qed

theorem fat_lookup_correct_witness:
  "(\<exists>t. fat_lookup 5 ''ab'' (example_fat (example_fs dir_table dir_disk) Directory 0) = Some (0, 10, t))
    \<and> (\<exists>t. fat_lookup 5 ''x'' (example_fat (example_fs dir_table dir_disk) Directory 0) = Some (E_NOT_FOUND, 0, t))"
proof -
  let ?fs = "example_fs dir_table dir_disk"
  let ?s = "example_fat ?fs Directory 0"
  have l: "length dir_disk = 1024" by (simp add: dir_disk_def dir_entry_def)
  have f: "fat_node_of 5 ?s = \<lparr>first_cluster = 2, node_size = 0, attributes = 0, node_fs = 4\<rparr>" "fat_fs_of 5 ?s = ?fs"
    by (simp_all add: fat_node_of_def fat_fs_of_def example_fat_def)
  have sb: "sector_bytes ?fs (Suc 0) = dir_entry @ replicate 480 0"
    by (simp add: sector_bytes_def example_fs_ok) (simp add: dir_disk_def dir_entry_def)
  have u: "[0 ..< 16] = 0 # Suc 0 # [2 ..< 16]" by (simp add: upt_conv_Cons numeral_2_eq_2)
  have z: "is_end_marker (replicate 32 0)" by (simp add: is_end_marker_def DIR_NAME_def)
  have d: "length dir_entry = 32" "\<not> is_end_marker dir_entry" by (simp_all add: dir_entry_def is_end_marker_def DIR_NAME_def)
  have "chain_entries ?fs [2] = sector_entries ?fs (Suc 0)" by (simp add: chain_entries_def example_fs_ok)
  then have e: "takeWhile (\<lambda>e. \<not> is_end_marker e) (chain_entries ?fs [2]) = [dir_entry]"
    by (simp add: sector_entries_def u sb d z)
  have m: "is_regular_entry dir_entry" "name_matches_sfn dir_entry ''ab''" "\<not> name_matches_sfn dir_entry ''x''"
    by code_simp+
  have r: "\<not> is_root16 ?fs (fat_node_of 5 ?s)" "\<not> is_dot_name ''ab''" "\<not> is_dot_name ''x''"
    by (simp_all add: is_root16_def f is_dot_name_def)
  have nv: "\<exists>t. new_fat_vnode ty ops n ?s = (0, 10, t)" for ty ops n
    by (simp add: new_fat_vnode_def fat_kalloc_def example_fat_def)
  have h: "dir_holds ?fs (fat_node_of 5 ?s) (chain_entries ?fs [2])"
    using r(1) example_dir_chain unfolding dir_holds_def f by (auto simp del: chain.simps)
  note look = fat_lookup_correct [where s = ?s and v = 5, unfolded f, OF example_fs_ok(1)]
  show ?thesis
    using look [OF _ h [unfolded f], of "''ab''"] look [OF _ h [unfolded f], of "''x''"] r
    by (simp add: l f e m example_fs_ok nv)
qed

definition cycle_fs :: FatInstance where
  "cycle_fs = example_fs [0xF8, 0xFF, 0xFF, 0xFF, 2, 0] (replicate 1024 0xE5)"

theorem find_in_cycle_hangs_witness: "find_in_chain cycle_fs 2 ''x'' = None"
proof (rule find_in_cycle_hangs [where C = "{2}"])
  have n: "next_cluster cycle_fs 2 = 2" by (simp add: next_cluster_def cycle_fs_def example_fs_def blank_instance_def)
  have sb: "sector_bytes cycle_fs (Suc 0) = replicate 512 0xE5" by (simp add: sector_bytes_def cycle_fs_def example_fs_ok)
  have "\<not> is_end_marker e \<and> \<not> is_regular_entry e" if "e \<in> set (sector_entries cycle_fs (Suc 0))" for e
    using that by (auto simp: sector_entries_def sb is_end_marker_def is_regular_entry_def is_deleted_def DIR_NAME_def min_def)
  then have "search_entries (sector_entries cycle_fs (Suc 0)) ''x'' = More" by (rule search_entries_More)
  then have "search_sectors cycle_fs (cluster_to_sector cycle_fs 2) [0 ..< unat (sectors_per_cluster cycle_fs)] ''x'' = Some (Inr More)"
    using search_sectors_entries [of cycle_fs "cluster_to_sector cycle_fs 2" "[0 ..< unat (sectors_per_cluster cycle_fs)]" "''x''"]
    by (simp add: cycle_fs_def example_fs_ok) (simp add: example_fs_def blank_instance_def)
  then show "2 \<le> c \<and> \<not> is_eoc c (is_fat32 cycle_fs) \<and> next_cluster cycle_fs c \<in> {2} \<and>
      search_sectors cycle_fs (cluster_to_sector cycle_fs c) [0 ..< unat (sectors_per_cluster cycle_fs)] ''x'' = Some (Inr More)"
    if "c \<in> {2}" for c using that n by (simp add: is_eoc_def FAT_EOC_MIN_16_def cycle_fs_def example_fs_ok)
qed simp

text \<open>A parameter block: 5000 sectors of 512 bytes, one reserved, one table of one sector.\<close>

definition example_bpb :: "u8 list" where
  "example_bpb = (replicate 512 0)[12 := 2, 13 := 1, 14 := 1, 16 := 1, 19 := 0x88, 20 := 0x13, 22 := 1,
     510 := 0x55, 511 := 0xAA]"

definition init_dev :: BlockDevice where
  "init_dev = example_dev (example_bpb @ replicate 512 0)"

lemma init_dev_sectors:
  "read_sectors init_dev 0 = Some (Some example_bpb)" "read_sectors init_dev 1 = Some (Some (replicate 512 0))"
proof -
  let ?fs = "example_fs [] (example_bpb @ replicate 512 0)"
  have l: "length example_bpb = 512" by (simp add: example_bpb_def)
  have d: "fat_dev ?fs = init_dev" by (simp add: example_fs_def init_dev_def blank_instance_def)
  have ok: "fs_ok ?fs" by (rule example_fs_ok(1)) (simp add: l)
  show "read_sectors init_dev 0 = Some (Some example_bpb)"
    using read_sectors_image [OF ok, of 0] by (simp add: d sector_bytes_def example_fs_ok l)
  show "read_sectors init_dev 1 = Some (Some (replicate 512 0))"
    using read_sectors_image [OF ok, of 1] by (simp add: d sector_bytes_def example_fs_ok l)
qed

theorem fat_init_well_formed_witness:
  "\<exists>t. fat_init init_dev ((example_fat (blank_instance init_dev) File 0)\<lparr>fs_data := (fs_data (example_fat (blank_instance init_dev) File 0))\<lparr>g_fs := 0\<rparr>\<rparr>)
      = Some (0, t)
    \<and> instance_ok (fat_instances (fs_data t) (g_fs (fs_data t)))"
proof -
  let ?s = "(example_fat (blank_instance init_dev) File 0)\<lparr>fs_data := (fs_data (example_fat (blank_instance init_dev) File 0))\<lparr>g_fs := 0\<rparr>\<rparr>"
  have "\<exists>fs. parse_bpb (blank_instance init_dev) = Some (Some fs) \<and> (\<exists>fs'. read_fat_table 11 fs = Some (Some fs'))"
    by (simp add: parse_bpb_def read_fat_table_def blank_instance_def read_word_def read_byte_def read_dword_def
        try_read_def init_dev_sectors dword_at_def BPB_BYTES_PER_SECTOR_def BPB_SECTORS_PER_CLUSTER_def
        BPB_RESERVED_SECTOR_COUNT_def BPB_FAT_COUNT_def BPB_ROOT_ENTRY_COUNT_def BPB_TOTAL_SECTORS_16_def
        BPB_FAT_SIZE_16_def BPB_TOTAL_SECTORS_32_def BPB_FAT_SIZE_32_def BPB_ROOT_CLUSTER_def example_bpb_def)
  then have "\<exists>t. fat_init init_dev ?s = Some (0, t)"
    by (auto simp: fat_init_def fat_kalloc_def example_fat_def)
  then show ?thesis using fat_init_well_formed [of init_dev ?s] by blast
qed

end
