(* ===== verification/Tori_Log.thy ===== *)
theory Tori_Log
  imports Tori_Prelude Tori_Clock "HOL-Library.Monad_Syntax"
begin

unbundle bit_operations_syntax

text \<open>
  The log (\<open>kernel/src/log/log.cpp\<close>, \<open>log.hpp\<close>): rings of entries, one for the boot and one per
  processor, that are formatted later onto the serial port and the framebuffer.  The two outputs are what
  has been written to them.  An entry holds the addresses of its texts, 0 for a null pointer, and the text at
  an address is what the memory holds there when the entry is formatted.  A ring is indexed by numbers below
  its size.  \<open>None\<close> is a lock that is never free or a loop that does not end.
\<close>

section \<open>State\<close>

definition CONFIG_LOG_RING_ENTRIES :: nat where "CONFIG_LOG_RING_ENTRIES = 256"
definition CONFIG_LOG_FLUSH_BATCH :: nat where "CONFIG_LOG_FLUSH_BATCH = 4"
definition CONFIG_LOG_BOOT_ENTRIES :: nat where "CONFIG_LOG_BOOT_ENTRIES = 64"
definition LOG_MAX_CPUS :: nat where "LOG_MAX_CPUS = 128"

datatype Level = Trace | Debug | Info | Warn | Error | Panic

datatype Payload =
  Message u64
| Value u64 u64
| TextValue u64 u64

record LogEntry =
  log_timestamp :: u64
  log_level :: Level
  log_category :: u64
  log_file :: u64
  log_line :: int
  log_payload :: Payload

record LogBuffer =
  log_entries :: "nat \<Rightarrow> LogEntry"
  write_idx :: nat
  read_idx :: nat

record sinks =
  serial_out :: string
  fb_out :: "(string \<times> u32) list"

record log_sys =
  boot_buffer :: LogBuffer
  per_cpu_buffers :: "nat \<Rightarrow> LogBuffer"
  cpu_initialized :: "nat \<Rightarrow> bool"
  any_cpu_initialized :: bool
  log_lock :: bool
  log_cpu :: nat
  log_clock :: clock
  log_sinks :: sinks
  log_strings :: "u64 \<Rightarrow> string"

section \<open>Formatting\<close>

primrec level_name :: "Level \<Rightarrow> string" where
  "level_name Trace = ''TRACE''"
| "level_name Debug = ''DEBUG''"
| "level_name Info = ''INFO''"
| "level_name Warn = ''WARN''"
| "level_name Error = ''ERROR''"
| "level_name Panic = ''PANIC''"

primrec level_color :: "Level \<Rightarrow> u32" where
  "level_color Trace = 0x00888888"
| "level_color Debug = 0x00aaaaaa"
| "level_color Info = 0x00ffffff"
| "level_color Warn = 0x00ffff00"
| "level_color Error = 0x00ff5555"
| "level_color Panic = 0x00ff00ff"

text \<open>The characters that \<open>'0' + d\<close> and the table of hexadecimal digits give.\<close>

definition digit :: "nat \<Rightarrow> char" where
  "digit d = ''0123456789abcdef'' ! d"

text \<open>The loop fills a buffer of 20 characters from its end.\<close>

fun dec_loop :: "nat \<Rightarrow> u64 \<Rightarrow> string \<Rightarrow> string" where
  "dec_loop 0 v acc = acc"
| "dec_loop (Suc cursor) v acc = (if v = 0 then acc else dec_loop cursor (v div 10) (digit (unat (v mod 10)) # acc))"

definition write_dec :: "u64 \<Rightarrow> string" where
  "write_dec value = (if value = 0 then ''0'' else dec_loop 20 value [])"

definition write_hex :: "u64 \<Rightarrow> string" where
  "write_hex value = ''0x'' @ map (\<lambda>index. digit (unat (drop_bit ((15 - index) * 4) value AND 0xf))) [0 ..< 16]"

definition or_text :: "(u64 \<Rightarrow> string) \<Rightarrow> u64 \<Rightarrow> string \<Rightarrow> string" where
  "or_text m p d = (if p \<noteq> 0 then m p else d)"

text \<open>The pieces of text that an entry is written in.\<close>

fun payload_pieces :: "(u64 \<Rightarrow> string) \<Rightarrow> Payload \<Rightarrow> string list" where
  "payload_pieces m (Message msg) = [or_text m msg ''(null)'']"
| "payload_pieces m (Value label v) = [or_text m label ''value'', '' = '', write_hex v, '' ('', write_dec v, '')'']"
| "payload_pieces m (TextValue label t) = [or_text m label ''value'', '' = '', or_text m t ''(null)'']"

definition entry_pieces :: "(u64 \<Rightarrow> string) \<Rightarrow> LogEntry \<Rightarrow> string list" where
  "entry_pieces m e =
     [''['', level_name (log_level e), '']'', ''['', or_text m (log_category e) ''kernel'', ''] '']
     @ payload_pieces m (log_payload e) @ [[CHR 0x0A]]"

definition at_least_info :: "Level \<Rightarrow> bool" where
  "at_least_info l \<longleftrightarrow> l \<noteq> Trace \<and> l \<noteq> Debug"

text \<open>Every level goes to the serial port.\<close>

definition format_entry :: "(u64 \<Rightarrow> string) \<Rightarrow> LogEntry \<Rightarrow> sinks \<Rightarrow> sinks" where
  "format_entry m e k =
     (let k = k\<lparr>serial_out := serial_out k @ concat (entry_pieces m e)\<rparr> in
      if at_least_info (log_level e)
      then k\<lparr>fb_out := fb_out k @ map (\<lambda>t. (t, level_color (log_level e))) (entry_pieces m e)\<rparr> else k)"

definition write_sink :: "string \<Rightarrow> u32 \<Rightarrow> sinks \<Rightarrow> sinks" where
  "write_sink t color k = k\<lparr>serial_out := serial_out k @ t, fb_out := fb_out k @ [(t, color)]\<rparr>"

definition write_prefix :: "(u64 \<Rightarrow> string) \<Rightarrow> Level \<Rightarrow> u64 \<Rightarrow> u32 \<Rightarrow> sinks \<Rightarrow> sinks" where
  "write_prefix m level category color k =
     fold (\<lambda>t. write_sink t color) [''['', level_name level, '']'', ''['', or_text m category ''kernel'', ''] ''] k"

section \<open>Rings\<close>

definition store_entry :: "nat \<Rightarrow> LogEntry \<Rightarrow> LogBuffer \<Rightarrow> LogBuffer" where
  "store_entry len e b =
     (let next_idx = (write_idx b + 1) mod len in
      if next_idx \<noteq> read_idx b
      then b\<lparr>log_entries := (log_entries b)(write_idx b := e), write_idx := next_idx\<rparr> else b)"

text \<open>One round of the loops that drain a ring.\<close>

definition drain_one :: "(u64 \<Rightarrow> string) \<Rightarrow> nat \<Rightarrow> LogBuffer \<times> sinks \<Rightarrow> LogBuffer \<times> sinks" where
  "drain_one m len x = (case x of (b, k) \<Rightarrow>
     (b\<lparr>read_idx := (read_idx b + 1) mod len\<rparr>, format_entry m (log_entries b (read_idx b)) k))"

partial_function (option) drain :: "(u64 \<Rightarrow> string) \<Rightarrow> nat \<Rightarrow> LogBuffer \<times> sinks \<Rightarrow> (LogBuffer \<times> sinks) option" where
  "drain m len x = (if read_idx (fst x) \<noteq> write_idx (fst x) then drain m len (drain_one m len x) else Some x)"

fun drain_batch :: "(u64 \<Rightarrow> string) \<Rightarrow> nat \<Rightarrow> nat \<Rightarrow> LogBuffer \<times> sinks \<Rightarrow> LogBuffer \<times> sinks" where
  "drain_batch m 0 len x = x"
| "drain_batch m (Suc n) len x =
     (if read_idx (fst x) \<noteq> write_idx (fst x) then drain_batch m n len (drain_one m len x) else x)"

definition cpu_ready :: "log_sys \<Rightarrow> bool" where
  "cpu_ready s \<longleftrightarrow> any_cpu_initialized s \<and> log_cpu s < LOG_MAX_CPUS \<and> cpu_initialized s (log_cpu s)"

definition drain_boot :: "log_sys \<Rightarrow> log_sys option" where
  "drain_boot s = do {
     (b, k) \<leftarrow> drain (log_strings s) CONFIG_LOG_BOOT_ENTRIES (boot_buffer s, log_sinks s);
     Some (s\<lparr>boot_buffer := b, log_sinks := k\<rparr>)
   }"

definition flush :: "log_sys \<Rightarrow> log_sys option" where
  "flush s =
     (if log_lock s then Some s
      else do {
        s \<leftarrow> drain_boot (s\<lparr>log_lock := True\<rparr>);
        let s = (if cpu_ready s
                 then (let (b, k) = drain_batch (log_strings s) CONFIG_LOG_FLUSH_BATCH CONFIG_LOG_RING_ENTRIES
                              (per_cpu_buffers s (log_cpu s), log_sinks s) in
                       s\<lparr>per_cpu_buffers := (per_cpu_buffers s)(log_cpu s := b), log_sinks := k\<rparr>)
                 else s);
        Some (s\<lparr>log_lock := False\<rparr>)
      })"

definition drain_cpu :: "nat \<Rightarrow> log_sys \<Rightarrow> log_sys option" where
  "drain_cpu i s = do {
     (b, k) \<leftarrow> drain (log_strings s) CONFIG_LOG_RING_ENTRIES (per_cpu_buffers s i, log_sinks s);
     Some (s\<lparr>per_cpu_buffers := (per_cpu_buffers s)(i := b), log_sinks := k\<rparr>)
   }"

definition flush_all :: "log_sys \<Rightarrow> log_sys option" where
  "flush_all s =
     (if log_lock s then Some s
      else do {
        s \<leftarrow> drain_boot (s\<lparr>log_lock := True\<rparr>);
        let s = s\<lparr>log_lock := False\<rparr>;
        if cpu_ready s then drain_cpu (log_cpu s) s else Some s
      })"

text \<open>Interrupts are off while an entry is pushed and are as before afterwards.\<close>

definition used_entries :: "LogBuffer \<Rightarrow> nat" where
  "used_entries b = (if write_idx b \<ge> read_idx b then write_idx b - read_idx b
     else CONFIG_LOG_RING_ENTRIES - (read_idx b - write_idx b))"

definition push_entry :: "LogEntry \<Rightarrow> log_sys \<Rightarrow> log_sys option" where
  "push_entry e s =
     (if cpu_ready s then do {
        s \<leftarrow> (if used_entries (per_cpu_buffers s (log_cpu s)) > CONFIG_LOG_RING_ENTRIES * 3 div 4 then flush s else Some s);
        Some (s\<lparr>per_cpu_buffers := (per_cpu_buffers s)(log_cpu s :=
                 store_entry CONFIG_LOG_RING_ENTRIES e (per_cpu_buffers s (log_cpu s)))\<rparr>)
      }
      else if log_lock s then None
      else Some (s\<lparr>boot_buffer := store_entry CONFIG_LOG_BOOT_ENTRIES e (boot_buffer s)\<rparr>))"

text \<open>The line number is cut to 16 bits.\<close>

definition make_entry :: "Level \<Rightarrow> u64 \<Rightarrow> u64 \<Rightarrow> int \<Rightarrow> Payload \<Rightarrow> log_sys \<Rightarrow> LogEntry" where
  "make_entry level category file line p s = \<lparr>log_timestamp = uptime_ms (log_clock s), log_level = level,
     log_category = category, log_file = file, log_line = sint (word_of_int line :: u16), log_payload = p\<rparr>"

definition log_write :: "Level \<Rightarrow> u64 \<Rightarrow> u64 \<Rightarrow> int \<Rightarrow> u64 \<Rightarrow> log_sys \<Rightarrow> log_sys option" where
  "log_write level category file line message s = push_entry (make_entry level category file line (Message message) s) s"

definition write_value ::
  "Level \<Rightarrow> u64 \<Rightarrow> u64 \<Rightarrow> int \<Rightarrow> u64 \<Rightarrow> u64 \<Rightarrow> log_sys \<Rightarrow> log_sys option" where
  "write_value level category file line label v s = push_entry (make_entry level category file line (Value label v) s) s"

definition write_text_value ::
  "Level \<Rightarrow> u64 \<Rightarrow> u64 \<Rightarrow> int \<Rightarrow> u64 \<Rightarrow> u64 \<Rightarrow> log_sys \<Rightarrow> log_sys option" where
  "write_text_value level category file line label v s =
     push_entry (make_entry level category file line (TextValue label v) s) s"

definition init_per_cpu :: "nat \<Rightarrow> log_sys \<Rightarrow> log_sys option" where
  "init_per_cpu lapic_id s =
     (if lapic_id \<ge> LOG_MAX_CPUS then Some s
      else if log_lock s then None
      else do {
        s \<leftarrow> drain_boot s;
        Some (s\<lparr>cpu_initialized := (cpu_initialized s)(lapic_id := True), any_cpu_initialized := True\<rparr>)
      })"

text \<open>The rings of all processors in order.\<close>

fun drain_cpus :: "nat list \<Rightarrow> log_sys \<Rightarrow> log_sys option" where
  "drain_cpus [] s = Some s"
| "drain_cpus (i # is) s = do { s \<leftarrow> (if cpu_initialized s i then drain_cpu i s else Some s); drain_cpus is s }"

text \<open>A panic up to its message; the stack trace that follows is not part of it.\<close>

definition panic_message :: "u64 \<Rightarrow> u64 \<Rightarrow> u64 \<Rightarrow> u64 \<Rightarrow> log_sys \<Rightarrow> log_sys option" where
  "panic_message category file line message s =
     (if log_lock s then None
      else do {
        s \<leftarrow> drain_boot (s\<lparr>log_lock := True\<rparr>);
        s \<leftarrow> drain_cpus [0 ..< LOG_MAX_CPUS] s;
        let color = level_color Panic;
        let k = write_prefix (log_strings s) Panic category color (log_sinks s);
        Some (s\<lparr>log_sinks := fold (\<lambda>t. write_sink t color)
          [or_text (log_strings s) message ''(panic)'', [CHR 0x0A], ''Location: '', log_strings s file, '':'', write_dec line, [CHR 0x0A]] k\<rparr>)
      })"

section \<open>Numbers\<close>

text \<open>What a reader makes of a text of digits.\<close>

definition digit_value :: "char \<Rightarrow> nat" where
  "digit_value c = (if of_char c < (58 :: nat) then of_char c - 48 else of_char c - 87)"

definition read_number :: "nat \<Rightarrow> string \<Rightarrow> nat" where
  "read_number base cs = foldl (\<lambda>a c. a * base + digit_value c) 0 cs"

lemma digit_value:
  assumes "d < 16"
  shows "digit_value (digit d) = d"
proof -
  have "d = 0 \<or> d = 1 \<or> d = 2 \<or> d = 3 \<or> d = 4 \<or> d = 5 \<or> d = 6 \<or> d = 7
      \<or> d = 8 \<or> d = 9 \<or> d = 10 \<or> d = 11 \<or> d = 12 \<or> d = 13 \<or> d = 14 \<or> d = 15"
    using assms by presburger
  then show ?thesis by (elim disjE) (simp_all add: digit_def digit_value_def)
qed

lemma read_number_append: "read_number b (xs @ ys) = read_number b xs * b ^ length ys + read_number b ys"
proof -
  have "foldl (\<lambda>a c. a * b + digit_value c) n ys = n * b ^ length ys + foldl (\<lambda>a c. a * b + digit_value c) 0 ys" for n
  proof (induction ys arbitrary: n)
    case (Cons y ys)
    show ?case using Cons [of "n * b + digit_value y"] Cons [of "digit_value y"] by (simp add: algebra_simps)
  qed simp
  from this [of "read_number b xs"] show ?thesis by (simp add: read_number_def)
qed

lemma dec_loop_reads:
  "unat v < 10 ^ n \<Longrightarrow> read_number 10 (dec_loop n v acc) = unat v * 10 ^ length acc + read_number 10 acc"
proof (induction n v acc rule: dec_loop.induct)
  case (2 n v acc)
  show ?case
  proof (cases "v = 0")
    case False
    let ?d = "digit (unat (v mod 10))"
    have m: "unat (v mod 10) = unat v mod 10" "unat (v div 10) = unat v div 10" by (simp_all add: unat_mod unat_div)
    have "unat (v div 10) < 10 ^ n" using "2.prems" by (simp add: m less_mult_imp_div_less)
    from "2.IH" [OF False this]
    have "read_number 10 (dec_loop (Suc n) v acc) = unat v div 10 * 10 ^ Suc (length acc) + read_number 10 (?d # acc)"
      using False by (simp add: m)
    also have "read_number 10 (?d # acc) = (unat v mod 10) * 10 ^ length acc + read_number 10 acc"
      using read_number_append [of 10 "[?d]" acc] by (simp add: read_number_def digit_value m)
    finally have "read_number 10 (dec_loop (Suc n) v acc)
        = (unat v div 10 * 10 + unat v mod 10) * 10 ^ length acc + read_number 10 acc"
      by (simp only: power_Suc distrib_right mult.assoc add.assoc)
    then show ?thesis by (simp only: div_mult_mod_eq)
  qed simp
qed simp

lemma hex_digits_read:
  assumes "n \<le> 16"
  shows "read_number 16 (map (\<lambda>i. digit (unat (drop_bit ((15 - i) * 4) (v :: u64) AND 0xf))) [0 ..< n])
    = unat (drop_bit (4 * (16 - n)) v)"
  using assms
proof (induction n)
  case 0
  have "drop_bit 64 v = 0" by (rule bit_word_eqI) (auto simp: bit_drop_bit_eq dest: bit_imp_le_length)
  then show ?case by (simp add: read_number_def)
next
  case (Suc n)
  let ?x = "unat (drop_bit ((15 - n) * 4) v)"
  have nib: "unat (drop_bit k v AND 0xf) = unat (drop_bit k v) mod 16" for k
  proof -
    have "drop_bit k v AND 0xf = take_bit 4 (drop_bit k v)" by (simp add: take_bit_eq_mask mask_eq_exp_minus_1)
    then have "unat (drop_bit k v AND 0xf) = take_bit 4 (unat (drop_bit k v))" by (simp only: unsigned_take_bit_eq)
    then show ?thesis by (simp add: take_bit_eq_mod)
  qed
  have "drop_bit (4 * (16 - n)) v = drop_bit 4 (drop_bit ((15 - n) * 4) v)"
    using Suc.prems by (simp add: drop_bit_drop_bit) (rule arg_cong [of _ _ "\<lambda>k. drop_bit k v"], linarith)
  then have "unat (drop_bit (4 * (16 - n)) v) = ?x div 16" by (simp add: drop_bit_eq_div unat_div)
  then have "read_number 16 (map (\<lambda>i. digit (unat (drop_bit ((15 - i) * 4) v AND 0xf))) [0 ..< Suc n]) = ?x div 16 * 16 + ?x mod 16"
    using Suc by (simp add: read_number_append) (simp add: read_number_def digit_value nib)
  then have "read_number 16 (map (\<lambda>i. digit (unat (drop_bit ((15 - i) * 4) v AND 0xf))) [0 ..< Suc n]) = ?x"
    by (simp only: div_mult_mod_eq)
  moreover have "?x = unat (drop_bit (4 * (16 - Suc n)) v)" by (simp add: mult.commute)
  ultimately show ?case by (simp only:)
qed

text \<open>Numbers in the log read back as what was logged: the decimal text as the number in base ten, and the
  sixteen digits after \<open>0x\<close> in base sixteen.\<close>

theorem log_numbers_read_back:
  "read_number 10 (write_dec v) = unat v \<and> take 2 (write_hex v) = ''0x'' \<and> length (write_hex v) = 18
   \<and> read_number 16 (drop 2 (write_hex v)) = unat v"
proof -
  have "unat v < 2 ^ 64" using unsigned_less [of v] by simp
  then have "unat v < 10 ^ 20" by simp
  then have "read_number 10 (write_dec v) = unat v"
    using dec_loop_reads [of v 20 "[]"] by (simp add: write_dec_def read_number_def) (simp add: digit_value_def)
  moreover have "read_number 16 (drop 2 (write_hex v)) = unat v"
    using hex_digits_read [of 16 v] by (simp add: write_hex_def del: upt_rec_numeral)
  ultimately show ?thesis by (simp add: write_hex_def del: upt_rec_numeral)
qed

section \<open>Rings as sequences\<close>

definition ring_ok :: "nat \<Rightarrow> LogBuffer \<Rightarrow> bool" where
  "ring_ok n b \<longleftrightarrow> write_idx b < n \<and> read_idx b < n"

definition pending :: "nat \<Rightarrow> LogBuffer \<Rightarrow> LogEntry list" where
  "pending n b = map (\<lambda>i. log_entries b ((read_idx b + i) mod n)) [0 ..< (write_idx b + n - read_idx b) mod n]"

lemma ring_distance:
  fixes w n r :: nat
  assumes "w < n" "r < n"
  shows "(w + n - r) mod n = (if r \<le> w then w - r else w + n - r)"
proof (cases "r \<le> w")
  case True
  then have "w + n - r = (w - r) + n" by linarith
  then have "(w + n - r) mod n = (w - r) mod n" by (metis mod_add_self2)
  then show ?thesis using assms True by simp
qed (use assms in simp)

lemma pending_empty: "ring_ok n b \<Longrightarrow> read_idx b = write_idx b \<Longrightarrow> pending n b = []"
  by (simp add: pending_def)

lemma pending_Cons:
  assumes "ring_ok n b" "read_idx b \<noteq> write_idx b"
  shows "pending n b = log_entries b (read_idx b) # pending n (b\<lparr>read_idx := (read_idx b + 1) mod n\<rparr>)"
proof -
  let ?r = "read_idx b" and ?w = "write_idx b"
  have b: "?w < n" "?r < n" "(?r + 1) mod n < n" using assms by (auto simp: ring_ok_def)
  have d: "(?w + n - ?r) mod n = Suc ((?w + n - (?r + 1) mod n) mod n)"
    using b assms(2) by (auto simp: ring_distance mod_Suc)
  have "((?r + 1) mod n + i) mod n = (?r + Suc i) mod n" for i by (simp add: mod_simps)
  then show ?thesis unfolding pending_def d by (simp add: map_upt_Suc b del: upt_Suc)
qed

lemma pending_store:
  assumes "ring_ok n b" "(write_idx b + 1) mod n \<noteq> read_idx b"
  shows "ring_ok n (store_entry n e b) \<and> pending n (store_entry n e b) = pending n b @ [e]"
proof -
  let ?r = "read_idx b" and ?w = "write_idx b"
  have b: "?w < n" "?r < n" "(?w + 1) mod n < n" using assms by (auto simp: ring_ok_def)
  have d: "((?w + 1) mod n + n - ?r) mod n = Suc ((?w + n - ?r) mod n)"
    using b assms(2) by (auto simp: ring_distance mod_Suc)
  have last: "(?r + (?w + n - ?r) mod n) mod n = ?w"
    using b by (auto simp: ring_distance)
  have "(?r + i) mod n \<noteq> ?w" if i: "i < (?w + n - ?r) mod n" for i
  proof (cases "?r + i < n")
    case True
    then show ?thesis using i b by (auto simp: ring_distance split: if_splits)
  next
    case False
    then have "?r + i < ?w + n" using i b by (auto simp: ring_distance split: if_splits)
    then have "(?r + i) mod n = ?r + i - n" using False b by (simp add: mod_if)
    then show ?thesis using False \<open>?r + i < ?w + n\<close> by linarith
  qed
  then have "map (\<lambda>i. ((log_entries b)(?w := e)) ((?r + i) mod n)) [0 ..< (?w + n - ?r) mod n] = pending n b"
    by (simp add: pending_def)
  then show ?thesis using assms b d last by (simp add: store_entry_def pending_def ring_ok_def)
qed

text \<open>The text of entries on the serial port.\<close>

definition entry_text :: "(u64 \<Rightarrow> string) \<Rightarrow> LogEntry \<Rightarrow> string" where
  "entry_text m e = concat (entry_pieces m e)"

definition texts :: "(u64 \<Rightarrow> string) \<Rightarrow> LogEntry list \<Rightarrow> string" where
  "texts m es = concat (map (entry_text m) es)"

lemma texts_simps [simp]:
  "texts m [] = []" "texts m (e # es) = entry_text m e @ texts m es" "texts m (es @ fs) = texts m es @ texts m fs"
  by (simp_all add: texts_def)

lemma format_entry_serial: "serial_out (format_entry M e k) = serial_out k @ entry_text M e"
  by (simp add: format_entry_def Let_def entry_text_def)

lemma drain_one_keeps:
  assumes "ring_ok n b" "read_idx b \<noteq> write_idx b" "drain_one M n (b, k) = (b', k')"
  shows "ring_ok n b'" "serial_out k' @ texts M (pending n b') = serial_out k @ texts M (pending n b)"
    "length (pending n b) = Suc (length (pending n b'))" "set (pending n b') \<subseteq> set (pending n b)"
  using assms pending_Cons [OF assms(1,2)]
  by (auto simp: drain_one_def format_entry_serial ring_ok_def)

text \<open>Draining ends, empties the ring and writes its entries in order.\<close>

lemma drain_writes:
  assumes "ring_ok n b"
  shows "\<exists>b' k'. drain M n (b, k) = Some (b', k') \<and> ring_ok n b' \<and> pending n b' = []
    \<and> serial_out k' = serial_out k @ texts M (pending n b)"
  using assms
proof (induction "length (pending n b)" arbitrary: b k rule: less_induct)
  case less
  show ?case
  proof (cases "read_idx b = write_idx b")
    case True
    then show ?thesis using less.prems by (subst drain.simps) (simp add: pending_empty)
  next
    case False
    obtain b1 k1 where o: "drain_one M n (b, k) = (b1, k1)" by fastforce
    note s = drain_one_keeps [OF less.prems False o]
    have "drain M n (b, k) = drain M n (b1, k1)" using False o by (subst drain.simps) simp
    then show ?thesis using less.hyps [of b1 k1] s by auto
  qed
qed

lemma drain_batch_keeps:
  assumes "ring_ok n b" "drain_batch M m n (b, k) = (b', k')"
  shows "ring_ok n b'" "serial_out k' @ texts M (pending n b') = serial_out k @ texts M (pending n b)"
    "0 < m \<Longrightarrow> pending n b \<noteq> [] \<Longrightarrow> length (pending n b') < length (pending n b)"
    "set (pending n b') \<subseteq> set (pending n b)"
proof -
  have "ring_ok n b' \<and> serial_out k' @ texts M (pending n b') = serial_out k @ texts M (pending n b)
    \<and> length (pending n b') \<le> length (pending n b) \<and> (0 < m \<and> pending n b \<noteq> [] \<longrightarrow> length (pending n b') < length (pending n b))
    \<and> set (pending n b') \<subseteq> set (pending n b)"
    using assms
  proof (induction m arbitrary: b k)
    case (Suc m)
    show ?case
    proof (cases "read_idx b = write_idx b")
      case True
      then show ?thesis using Suc.prems by (auto simp: pending_empty)
    next
      case False
      obtain b1 k1 where o: "drain_one M n (b, k) = (b1, k1)" by fastforce
      note s = drain_one_keeps [OF Suc.prems(1) False o]
      have "drain_batch M m n (b1, k1) = (b', k')" using Suc.prems(2) False o by simp
      from Suc.IH [OF s(1) this] show ?thesis using s by auto
    qed
  qed simp
  then show "ring_ok n b'" "serial_out k' @ texts M (pending n b') = serial_out k @ texts M (pending n b)"
    "0 < m \<Longrightarrow> pending n b \<noteq> [] \<Longrightarrow> length (pending n b') < length (pending n b)"
    "set (pending n b') \<subseteq> set (pending n b)" by blast+
qed

section \<open>Nothing is lost\<close>

definition cpu_ring :: "log_sys \<Rightarrow> LogBuffer" where
  "cpu_ring s = per_cpu_buffers s (log_cpu s)"

text \<open>A processor with its own ring, and nobody else writing output.\<close>

definition log_ok :: "log_sys \<Rightarrow> bool" where
  "log_ok s \<longleftrightarrow> cpu_ready s \<and> \<not> log_lock s \<and> ring_ok CONFIG_LOG_BOOT_ENTRIES (boot_buffer s)
     \<and> ring_ok CONFIG_LOG_RING_ENTRIES (cpu_ring s)"

text \<open>The addresses of the texts of an entry, and of all that are still to be written.\<close>

fun payload_addresses :: "Payload \<Rightarrow> u64 set" where
  "payload_addresses (Message msg) = {msg}"
| "payload_addresses (Value label v) = {label}"
| "payload_addresses (TextValue label t) = {label, t}"

definition entry_addresses :: "LogEntry \<Rightarrow> u64 set" where
  "entry_addresses e = insert (log_category e) (payload_addresses (log_payload e))"

definition waiting :: "log_sys \<Rightarrow> LogEntry list" where
  "waiting s = pending CONFIG_LOG_BOOT_ENTRIES (boot_buffer s) @ pending CONFIG_LOG_RING_ENTRIES (cpu_ring s)"

definition waiting_addresses :: "log_sys \<Rightarrow> u64 set" where
  "waiting_addresses s = \<Union> (entry_addresses ` set (waiting s))"

lemma entry_text_cong: "(\<And>a. a \<in> entry_addresses e \<Longrightarrow> M' a = M a) \<Longrightarrow> entry_text M' e = entry_text M e"
  by (cases "log_payload e") (auto simp: entry_text_def entry_pieces_def entry_addresses_def or_text_def)

lemma texts_cong: "(\<And>e. e \<in> set es \<Longrightarrow> entry_text M' e = entry_text M e) \<Longrightarrow> texts M' es = texts M es"
  by (induction es) auto

text \<open>What has been written, with what is still to be written.\<close>

definition log_out :: "log_sys \<Rightarrow> string" where
  "log_out s = serial_out (log_sinks s) @ texts (log_strings s) (waiting s)"

lemma drain_boot_writes:
  assumes "ring_ok CONFIG_LOG_BOOT_ENTRIES (boot_buffer s)"
  shows "\<exists>b k. drain_boot s = Some (s\<lparr>boot_buffer := b, log_sinks := k\<rparr>) \<and> ring_ok CONFIG_LOG_BOOT_ENTRIES b
    \<and> pending CONFIG_LOG_BOOT_ENTRIES b = []
    \<and> serial_out k = serial_out (log_sinks s) @ texts (log_strings s) (pending CONFIG_LOG_BOOT_ENTRIES (boot_buffer s))"
proof -
  obtain b k where "drain (log_strings s) CONFIG_LOG_BOOT_ENTRIES (boot_buffer s, log_sinks s) = Some (b, k)"
    "ring_ok CONFIG_LOG_BOOT_ENTRIES b" "pending CONFIG_LOG_BOOT_ENTRIES b = []"
    "serial_out k = serial_out (log_sinks s) @ texts (log_strings s) (pending CONFIG_LOG_BOOT_ENTRIES (boot_buffer s))"
    using drain_writes [OF assms, of "log_strings s" "log_sinks s"] by blast
  then show ?thesis by (intro exI [of _ b] exI [of _ k]) (simp add: drain_boot_def)
qed

lemma flush_keeps:
  assumes "log_ok s"
  shows "\<exists>t. flush s = Some t \<and> log_ok t \<and> log_out t = log_out s \<and> log_strings t = log_strings s
    \<and> set (waiting t) \<subseteq> set (waiting s)
    \<and> (pending CONFIG_LOG_RING_ENTRIES (cpu_ring s) \<noteq> [] \<longrightarrow>
        length (pending CONFIG_LOG_RING_ENTRIES (cpu_ring t)) < length (pending CONFIG_LOG_RING_ENTRIES (cpu_ring s)))"
proof -
  let ?s = "s\<lparr>log_lock := True\<rparr>"
  obtain b k where b: "drain_boot ?s = Some (?s\<lparr>boot_buffer := b, log_sinks := k\<rparr>)" "ring_ok CONFIG_LOG_BOOT_ENTRIES b"
    "pending CONFIG_LOG_BOOT_ENTRIES b = []"
    "serial_out k = serial_out (log_sinks s) @ texts (log_strings s) (pending CONFIG_LOG_BOOT_ENTRIES (boot_buffer s))"
    using drain_boot_writes [of ?s] assms by (auto simp: log_ok_def)
  obtain c j where d: "drain_batch (log_strings s) CONFIG_LOG_FLUSH_BATCH CONFIG_LOG_RING_ENTRIES (cpu_ring s, k) = (c, j)" by fastforce
  have r: "ring_ok CONFIG_LOG_RING_ENTRIES (cpu_ring s)" using assms by (simp add: log_ok_def)
  note D = drain_batch_keeps [OF r d]
  let ?t = "s\<lparr>boot_buffer := b, per_cpu_buffers := (per_cpu_buffers s)(log_cpu s := c), log_sinks := j\<rparr>"
  have "flush s = Some ?t"
    using assms b(1) d by (simp add: flush_def log_ok_def cpu_ready_def cpu_ring_def Let_def)
  moreover have "log_ok ?t" using assms b(2) D(1) by (simp add: log_ok_def cpu_ready_def cpu_ring_def)
  moreover have "log_out ?t = log_out s" using b(3,4) D(2) by (simp add: log_out_def waiting_def cpu_ring_def)
  moreover have "set (waiting ?t) \<subseteq> set (waiting s)" using b(3) D(4) by (auto simp: waiting_def cpu_ring_def)
  ultimately show ?thesis using D(3) by (intro exI [of _ ?t]) (simp add: cpu_ring_def CONFIG_LOG_FLUSH_BATCH_def)
qed

lemma flush_all_writes:
  assumes "log_ok s"
  shows "\<exists>t. flush_all s = Some t \<and> log_ok t \<and> log_out t = log_out s \<and> serial_out (log_sinks t) = log_out s
    \<and> log_strings t = log_strings s \<and> waiting t = []"
proof -
  let ?s = "s\<lparr>log_lock := True\<rparr>"
  obtain b k where b: "drain_boot ?s = Some (?s\<lparr>boot_buffer := b, log_sinks := k\<rparr>)" "ring_ok CONFIG_LOG_BOOT_ENTRIES b"
    "pending CONFIG_LOG_BOOT_ENTRIES b = []"
    "serial_out k = serial_out (log_sinks s) @ texts (log_strings s) (pending CONFIG_LOG_BOOT_ENTRIES (boot_buffer s))"
    using drain_boot_writes [of ?s] assms by (auto simp: log_ok_def)
  obtain c j where d: "drain (log_strings s) CONFIG_LOG_RING_ENTRIES (cpu_ring s, k) = Some (c, j)" "ring_ok CONFIG_LOG_RING_ENTRIES c"
    "pending CONFIG_LOG_RING_ENTRIES c = []" "serial_out j = serial_out k @ texts (log_strings s) (pending CONFIG_LOG_RING_ENTRIES (cpu_ring s))"
    using drain_writes [of CONFIG_LOG_RING_ENTRIES "cpu_ring s" "log_strings s" k] assms by (auto simp: log_ok_def)
  let ?t = "s\<lparr>boot_buffer := b, per_cpu_buffers := (per_cpu_buffers s)(log_cpu s := c), log_sinks := j\<rparr>"
  have "flush_all s = Some ?t"
    using assms b(1) d(1) by (simp add: flush_all_def log_ok_def cpu_ready_def cpu_ring_def Let_def drain_cpu_def)
  moreover have "log_ok ?t" using assms b(2) d(2) by (simp add: log_ok_def cpu_ready_def cpu_ring_def)
  moreover have "serial_out j = log_out s" using b(4) d(4) by (simp add: log_out_def waiting_def)
  ultimately show ?thesis using b(3) d(3) by (intro exI [of _ ?t]) (simp add: log_out_def waiting_def cpu_ring_def)
qed

lemma used_entries_pending: "ring_ok CONFIG_LOG_RING_ENTRIES b \<Longrightarrow> used_entries b = length (pending CONFIG_LOG_RING_ENTRIES b)"
  by (auto simp: used_entries_def pending_def ring_ok_def ring_distance)

lemma room_left:
  assumes "ring_ok n b" "length (pending n b) < n - 1"
  shows "(write_idx b + 1) mod n \<noteq> read_idx b"
  using assms by (auto simp: ring_ok_def pending_def ring_distance mod_Suc split: if_splits)

lemma pending_bound: "ring_ok n b \<Longrightarrow> length (pending n b) < n"
  by (simp add: pending_def ring_ok_def)

lemma push_keeps:
  assumes "log_ok s"
  shows "\<exists>t. push_entry e s = Some t \<and> log_ok t \<and> log_out t = log_out s @ entry_text (log_strings s) e
    \<and> log_strings t = log_strings s \<and> set (waiting t) \<subseteq> insert e (set (waiting s))"
proof -
  let ?n = "CONFIG_LOG_RING_ENTRIES"
  have n: "?n = 256" by (simp add: CONFIG_LOG_RING_ENTRIES_def)
  obtain u where u: "(if used_entries (cpu_ring s) > ?n * 3 div 4 then flush s else Some s) = Some u" "log_ok u"
    "log_out u = log_out s" "log_strings u = log_strings s" "set (waiting u) \<subseteq> set (waiting s)"
    "length (pending ?n (cpu_ring u)) < ?n - 1"
  proof (cases "used_entries (cpu_ring s) > ?n * 3 div 4")
    case True
    have r: "ring_ok ?n (cpu_ring s)" using assms by (simp add: log_ok_def)
    then have "pending ?n (cpu_ring s) \<noteq> []" using True used_entries_pending [OF r] by auto
    moreover have "length (pending ?n (cpu_ring s)) < ?n" using pending_bound [OF r] .
    ultimately show ?thesis using that flush_keeps [OF assms] True by fastforce
  next
    case False
    have "length (pending ?n (cpu_ring s)) \<le> 192"
      using False used_entries_pending [of "cpu_ring s"] assms by (simp add: log_ok_def n)
    then show ?thesis using that [of s] False assms by (simp add: n)
  qed
  let ?t = "u\<lparr>per_cpu_buffers := (per_cpu_buffers u)(log_cpu u := store_entry ?n e (per_cpu_buffers u (log_cpu u)))\<rparr>"
  have r: "ring_ok ?n (cpu_ring u)" using u(2) by (simp add: log_ok_def)
  note P = pending_store [OF r room_left [OF r u(6)], of e]
  have "push_entry e s = Some ?t" using assms u(1) by (simp add: push_entry_def log_ok_def cpu_ring_def)
  moreover have "log_ok ?t" using u(2) P by (simp add: log_ok_def cpu_ring_def cpu_ready_def)
  moreover have w: "waiting ?t = waiting u @ [e]" using P by (simp add: waiting_def cpu_ring_def)
  then have "log_out ?t = log_out u @ entry_text (log_strings u) e" by (simp add: log_out_def)
  moreover have "set (waiting ?t) \<subseteq> insert e (set (waiting s))" using w u(5) by auto
  ultimately show ?thesis using u(3,4) by (intro exI [of _ ?t]) simp
qed

text \<open>What a processor does with the log: it logs and flushes, and between them it stores texts in memory.\<close>

datatype log_op = Log LogEntry | Flush | FlushAll | Store u64 string

primrec run_op :: "log_op \<Rightarrow> log_sys \<Rightarrow> log_sys option" where
  "run_op (Log e) s = push_entry e s"
| "run_op Flush s = flush s"
| "run_op FlushAll s = flush_all s"
| "run_op (Store a t) s = Some (s\<lparr>log_strings := (log_strings s)(a := t)\<rparr>)"

fun run_ops :: "log_op list \<Rightarrow> log_sys \<Rightarrow> log_sys option" where
  "run_ops [] s = Some s"
| "run_ops (p # ps) s = do { s \<leftarrow> run_op p s; run_ops ps s }"

text \<open>The texts of the entries as they are when the entries are logged.\<close>

fun logged_texts :: "(u64 \<Rightarrow> string) \<Rightarrow> log_op list \<Rightarrow> string" where
  "logged_texts M [] = []"
| "logged_texts M (Log e # ps) = entry_text M e @ logged_texts M ps"
| "logged_texts M (Store a t # ps) = logged_texts (M(a := t)) ps"
| "logged_texts M (_ # ps) = logged_texts M ps"

text \<open>No text is changed after an entry with its address has been logged.\<close>

fun texts_last :: "u64 set \<Rightarrow> log_op list \<Rightarrow> bool" where
  "texts_last A [] \<longleftrightarrow> True"
| "texts_last A (Log e # ps) \<longleftrightarrow> texts_last (A \<union> entry_addresses e) ps"
| "texts_last A (Store a t # ps) \<longleftrightarrow> a \<notin> A \<and> texts_last A ps"
| "texts_last A (_ # ps) \<longleftrightarrow> texts_last A ps"

lemma store_keeps:
  fixes x
  assumes "a \<notin> waiting_addresses s"
  defines "t \<equiv> s\<lparr>log_strings := (log_strings s)(a := x)\<rparr>"
  shows "waiting t = waiting s" "log_out t = log_out s"
proof -
  show w: "waiting t = waiting s" by (simp add: t_def waiting_def cpu_ring_def)
  have "texts (log_strings t) (waiting s) = texts (log_strings s) (waiting s)"
    using assms(1) by (intro texts_cong entry_text_cong) (auto simp: t_def waiting_addresses_def)
  then show "log_out t = log_out s" unfolding log_out_def w by (simp add: t_def)
qed

lemma run_op_keeps:
  assumes "log_ok s" and "waiting_addresses s \<subseteq> A" and "texts_last A (p # ps)"
  shows "\<exists>t A'. run_op p s = Some t \<and> log_ok t \<and> waiting_addresses t \<subseteq> A' \<and> texts_last A' ps
    \<and> log_out s @ logged_texts (log_strings s) (p # ps) = log_out t @ logged_texts (log_strings t) ps"
proof (cases p)
  case (Log e)
  obtain t where t: "push_entry e s = Some t" "log_ok t" "log_out t = log_out s @ entry_text (log_strings s) e"
    "log_strings t = log_strings s" "set (waiting t) \<subseteq> insert e (set (waiting s))"
    using push_keeps [OF assms(1)] by blast
  have "waiting_addresses t \<subseteq> A \<union> entry_addresses e" using t(5) assms(2) by (fastforce simp: waiting_addresses_def)
  then show ?thesis using t assms(3) Log by (intro exI [of _ t] exI [of _ "A \<union> entry_addresses e"]) simp
next
  case Flush
  obtain t where t: "flush s = Some t" "log_ok t" "log_out t = log_out s" "log_strings t = log_strings s"
    "set (waiting t) \<subseteq> set (waiting s)" using flush_keeps [OF assms(1)] by blast
  then show ?thesis using assms Flush by (intro exI [of _ t] exI [of _ A]) (auto simp: waiting_addresses_def)
next
  case FlushAll
  obtain t where t: "flush_all s = Some t" "log_ok t" "log_out t = log_out s" "log_strings t = log_strings s"
    "waiting t = []" using flush_all_writes [OF assms(1)] by blast
  then show ?thesis using assms FlushAll by (intro exI [of _ t] exI [of _ A]) (auto simp: waiting_addresses_def)
next
  case (Store a x)
  then have "a \<notin> waiting_addresses s" using assms(2,3) by auto
  note k = store_keeps [OF this, of x]
  let ?t = "s\<lparr>log_strings := (log_strings s)(a := x)\<rparr>"
  have "log_ok ?t" using assms(1) by (simp add: log_ok_def cpu_ready_def cpu_ring_def)
  then show ?thesis
    using k assms(2,3) Store by (intro exI [of _ ?t] exI [of _ A]) (simp add: waiting_addresses_def)
qed

lemma run_ops_keeps:
  assumes "log_ok s" and "waiting_addresses s \<subseteq> A" and "texts_last A ps"
  shows "\<exists>t. run_ops ps s = Some t \<and> log_ok t \<and> log_out t = log_out s @ logged_texts (log_strings s) ps"
  using assms
proof (induction ps arbitrary: s A)
  case (Cons p ps)
  from run_op_keeps [OF Cons.prems] obtain t A' where
    t: "run_op p s = Some t" "log_ok t" "waiting_addresses t \<subseteq> A'" "texts_last A' ps"
      "log_out s @ logged_texts (log_strings s) (p # ps) = log_out t @ logged_texts (log_strings t) ps" by blast
  then show ?case using Cons.IH [OF t(2-4)] by auto
qed simp

lemma run_ops_append: "run_ops (ps @ qs) s = Option.bind (run_ops ps s) (run_ops qs)"
  by (induction ps arbitrary: s) (auto split: bind_splits)

text \<open>Pending entries are written with the texts that their addresses have when they are flushed: a text that has been
  overwritten since its entry was logged is lost.\<close>

lemma late_text_written:
  assumes "log_ok s"
  shows "\<exists>t. run_ops [Store a x, FlushAll] s = Some t
    \<and> serial_out (log_sinks t) = serial_out (log_sinks s) @ texts ((log_strings s)(a := x)) (waiting s)"
proof -
  let ?s = "s\<lparr>log_strings := (log_strings s)(a := x)\<rparr>"
  have "log_ok ?s" using assms by (simp add: log_ok_def cpu_ready_def cpu_ring_def)
  from flush_all_writes [OF this] show ?thesis by (auto simp: log_out_def waiting_def cpu_ring_def)
qed

text \<open>C27. The log of a processor loses nothing and keeps the order.  However writing and flushing alternate, with stores to
  texts between them, when everything has been flushed the serial port has the texts of all entries in the order they were logged,
  each as it was when its entry was logged, after what was there or pending before.  A full ring is flushed before an
  entry is stored.  No other processor holds the lock of the log, and no text is changed after an entry with its address has
  been logged, for an entry keeps only the address.\<close>

theorem log_nothing_lost:
  assumes "log_ok s" and "texts_last (waiting_addresses s) ps"
  shows "\<exists>t. run_ops (ps @ [FlushAll]) s = Some t
    \<and> serial_out (log_sinks t) = log_out s @ logged_texts (log_strings s) ps"
proof -
  obtain u where u: "run_ops ps s = Some u" "log_ok u" "log_out u = log_out s @ logged_texts (log_strings s) ps"
    using run_ops_keeps [OF assms(1) _ assms(2)] by blast
  obtain t where "flush_all u = Some t" "serial_out (log_sinks t) = log_out u" using flush_all_writes [OF u(2)] by blast
  then show ?thesis using u by (simp add: run_ops_append)
qed

definition example_entry :: LogEntry where
  "example_entry = \<lparr>log_timestamp = 0, log_level = Warn, log_category = 0, log_file = 0, log_line = 1,
     log_payload = Message 0x1000\<rparr>"

definition example_log :: log_sys where
  "example_log = \<lparr>boot_buffer = \<lparr>log_entries = (\<lambda>_. example_entry), write_idx = 0, read_idx = 0\<rparr>,
     per_cpu_buffers = (\<lambda>_. \<lparr>log_entries = (\<lambda>_. example_entry), write_idx = 0, read_idx = 0\<rparr>),
     cpu_initialized = (\<lambda>_. True), any_cpu_initialized = True, log_lock = False, log_cpu = 0,
     log_clock = \<lparr>designated_bsp_id = 0, timer_frequency_hz = 1, global_tick_count = 0\<rparr>,
     log_sinks = \<lparr>serial_out = [], fb_out = []\<rparr>, log_strings = (\<lambda>_. [])\<rparr>"

text \<open>A text is stored at one address, logged, and a text at another address is stored before the flush.\<close>

theorem log_nothing_lost_witness:
  "\<exists>t. run_ops [Store 0x1000 ''hi'', Log example_entry, Store 0x2000 ''x'', FlushAll] example_log = Some t
    \<and> serial_out (log_sinks t) = ''[WARN][kernel] hi'' @ [CHR 0x0A]"
proof -
  let ?ps = "[Store 0x1000 ''hi'', Log example_entry, Store 0x2000 ''x'']"
  have "log_ok example_log" "waiting example_log = []"
    by (simp_all add: log_ok_def waiting_def cpu_ready_def cpu_ring_def ring_ok_def pending_def example_log_def LOG_MAX_CPUS_def
        CONFIG_LOG_BOOT_ENTRIES_def CONFIG_LOG_RING_ENTRIES_def)
  moreover have "texts_last {} ?ps" by (simp add: example_entry_def entry_addresses_def)
  moreover have "logged_texts (log_strings example_log) ?ps = ''[WARN][kernel] hi'' @ [CHR 0x0A]"
    by (simp add: entry_text_def entry_pieces_def example_entry_def or_text_def)
  moreover have "serial_out (log_sinks example_log) = []" by (simp add: example_log_def)
  ultimately show ?thesis
    using log_nothing_lost [of example_log ?ps] by (simp add: log_out_def waiting_addresses_def)
qed

end
