(* ===== verification/Tori_Acpi.thy ===== *)
theory Tori_Acpi
  imports Tori_Bytes
begin

unbundle bit_operations_syntax

text \<open>
  The firmware tables (\<open>kernel/src/platform/uefi_pc/acpi.cpp\<close>, \<open>madt.cpp\<close>).  The tables lie in memory,
  a byte for every address, and are reached through the direct map, whose offset is a parameter.  A
  pointer to a table is an address, and the null pointer of a search is \<open>None\<close>.
\<close>

section \<open>Fields of the tables\<close>

text \<open>The packed structures \<open>RSDP\<close> and \<open>SDTHeader\<close>.\<close>

definition rsdp_revision :: "bytes \<Rightarrow> u64 \<Rightarrow> u8" where "rsdp_revision m rsdp = m (rsdp + 15)"
definition rsdt_address :: "bytes \<Rightarrow> u64 \<Rightarrow> u32" where "rsdt_address m rsdp = get32 m (rsdp + 16)"
definition rsdp_length :: "bytes \<Rightarrow> u64 \<Rightarrow> u32" where "rsdp_length m rsdp = get32 m (rsdp + 20)"
definition xsdt_address :: "bytes \<Rightarrow> u64 \<Rightarrow> u64" where "xsdt_address m rsdp = get64 m (rsdp + 24)"
definition sdt_length :: "bytes \<Rightarrow> u64 \<Rightarrow> u32" where "sdt_length m header = get32 m (header + 4)"

section \<open>Root tables\<close>

definition signature_matches :: "bytes \<Rightarrow> u64 \<Rightarrow> string \<Rightarrow> bool" where
  "signature_matches m actual expected \<longleftrightarrow>
     m actual = of_char (expected ! 0) \<and> m (actual + 1) = of_char (expected ! 1)
     \<and> m (actual + 2) = of_char (expected ! 2) \<and> m (actual + 3) = of_char (expected ! 3)"

definition rsdp_sig_valid :: "bytes \<Rightarrow> u64 \<Rightarrow> bool" where
  "rsdp_sig_valid m rsdp \<longleftrightarrow> list_all (\<lambda>i. m (rsdp + of_nat i) = of_char (''RSD PTR '' ! i)) [0 ..< 8]"

definition sum_bytes :: "bytes \<Rightarrow> u64 \<Rightarrow> u32 \<Rightarrow> u8" where
  "sum_bytes m data len = fold (\<lambda>i sum. sum + m (data + of_nat i)) [0 ..< unat len] 0"

definition phys_to_virt :: "u64 \<Rightarrow> u64 \<Rightarrow> u64" where
  "phys_to_virt physical hhdm_offset = physical + hhdm_offset"

definition validate_rsdp_checksum :: "bytes \<Rightarrow> u64 \<Rightarrow> bool" where
  "validate_rsdp_checksum m rsdp \<longleftrightarrow>
     (if \<not> rsdp_sig_valid m rsdp then False
      else if sum_bytes m rsdp 20 \<noteq> 0 then False
      else if rsdp_revision m rsdp \<ge> 2 then sum_bytes m rsdp (rsdp_length m rsdp) = 0
      else True)"

definition validate_sdt_checksum :: "bytes \<Rightarrow> u64 \<Rightarrow> bool" where
  "validate_sdt_checksum m header \<longleftrightarrow> sum_bytes m header (sdt_length m header) = 0"

text \<open>The subtraction is in 64 bits, the quotient is cut to 32.\<close>

definition entry_count :: "u32 \<Rightarrow> u64 \<Rightarrow> u32" where
  "entry_count len width = ucast ((ucast len - 36 :: u64) div width)"

definition xsdt_entry :: "bytes \<Rightarrow> u64 \<Rightarrow> nat \<Rightarrow> u64" where
  "xsdt_entry m xsdt i = get64 m (xsdt + 36 + 8 * of_nat i)"

definition rsdt_entry :: "bytes \<Rightarrow> u64 \<Rightarrow> nat \<Rightarrow> u64" where
  "rsdt_entry m rsdt i = ucast (get32 m (rsdt + 36 + 4 * of_nat i))"

text \<open>The loop over the entries of a root table.\<close>

fun scan_tables :: "bytes \<Rightarrow> u64 \<Rightarrow> string \<Rightarrow> (nat \<Rightarrow> u64) \<Rightarrow> nat list \<Rightarrow> u64 option" where
  "scan_tables m hhdm_offset sig entries [] = None"
| "scan_tables m hhdm_offset sig entries (i # is) =
     (let table_phys = entries i in
      if table_phys = 0 then scan_tables m hhdm_offset sig entries is
      else (let table = phys_to_virt table_phys hhdm_offset in
        if signature_matches m table sig then Some table else scan_tables m hhdm_offset sig entries is))"

definition scan_xsdt :: "bytes \<Rightarrow> u64 \<Rightarrow> u64 \<Rightarrow> string \<Rightarrow> u64 option" where
  "scan_xsdt m hhdm_offset rsdp sig =
     (if xsdt_address m rsdp \<noteq> 0 \<and> rsdp_revision m rsdp \<ge> 2
      then (let xsdt = phys_to_virt (xsdt_address m rsdp) hhdm_offset in
        if signature_matches m xsdt ''XSDT'' \<and> validate_sdt_checksum m xsdt
        then scan_tables m hhdm_offset sig (xsdt_entry m xsdt) [0 ..< unat (entry_count (sdt_length m xsdt) 8)]
        else None)
      else None)"

definition find_table :: "bytes \<Rightarrow> u64 \<Rightarrow> u64 \<Rightarrow> string \<Rightarrow> u64 option" where
  "find_table m hhdm_offset rsdp sig =
     (if rsdp = 0 \<or> \<not> rsdp_sig_valid m rsdp then None
      else case scan_xsdt m hhdm_offset rsdp sig of
        Some table \<Rightarrow> Some table
      | None \<Rightarrow>
          if rsdt_address m rsdp \<noteq> 0
          then (let rsdt = phys_to_virt (ucast (rsdt_address m rsdp)) hhdm_offset in
            if signature_matches m rsdt ''RSDT'' \<and> validate_sdt_checksum m rsdt
            then scan_tables m hhdm_offset sig (rsdt_entry m rsdt) [0 ..< unat (entry_count (sdt_length m rsdt) 4)]
            else None)
          else None)"

record acpi_info =
  rsdp_found :: bool
  rsdp_checksum_valid :: bool
  xsdt_found :: bool
  xsdt_entry_count :: u32
  madt_found :: bool
  fadt_found :: bool
  hpet_found :: bool

definition no_acpi :: acpi_info where
  "no_acpi = \<lparr>rsdp_found = False, rsdp_checksum_valid = False, xsdt_found = False, xsdt_entry_count = 0,
     madt_found = False, fadt_found = False, hpet_found = False\<rparr>"

definition note_table :: "bytes \<Rightarrow> u64 \<Rightarrow> u64 \<Rightarrow> acpi_info \<Rightarrow> acpi_info" where
  "note_table m hhdm_offset table_phys info =
     (if table_phys = 0 then info
      else let table = phys_to_virt table_phys hhdm_offset in
        if \<not> validate_sdt_checksum m table then info
        else if signature_matches m table ''APIC'' then info\<lparr>madt_found := True\<rparr>
        else if signature_matches m table ''FACP'' then info\<lparr>fadt_found := True\<rparr>
        else if signature_matches m table ''HPET'' then info\<lparr>hpet_found := True\<rparr>
        else info)"

definition note_tables :: "bytes \<Rightarrow> u64 \<Rightarrow> (nat \<Rightarrow> u64) \<Rightarrow> nat \<Rightarrow> acpi_info \<Rightarrow> acpi_info" where
  "note_tables m hhdm_offset entries n info = fold (\<lambda>i. note_table m hhdm_offset (entries i)) [0 ..< n] info"

definition enumerate_rsdt :: "bytes \<Rightarrow> u64 \<Rightarrow> u64 \<Rightarrow> acpi_info \<Rightarrow> acpi_info" where
  "enumerate_rsdt m hhdm_offset rsdp info =
     (if rsdt_address m rsdp \<noteq> 0
      then (let rsdt = phys_to_virt (ucast (rsdt_address m rsdp)) hhdm_offset in
        if signature_matches m rsdt ''RSDT'' \<and> validate_sdt_checksum m rsdt
        then note_tables m hhdm_offset (rsdt_entry m rsdt) (unat (entry_count (sdt_length m rsdt) 4)) info
        else info)
      else info)"

definition acpi_enumerate :: "bytes \<Rightarrow> u64 \<Rightarrow> u64 \<Rightarrow> acpi_info" where
  "acpi_enumerate m hhdm_offset rsdp =
     (if rsdp = 0 then no_acpi
      else let info = no_acpi\<lparr>rsdp_found := True\<rparr> in
        if \<not> rsdp_sig_valid m rsdp then info
        else if \<not> validate_rsdp_checksum m rsdp then info
        else let info = info\<lparr>rsdp_checksum_valid := True\<rparr> in
          if xsdt_address m rsdp \<noteq> 0 \<and> rsdp_revision m rsdp \<ge> 2
          then (let xsdt = phys_to_virt (xsdt_address m rsdp) hhdm_offset in
            if signature_matches m xsdt ''XSDT'' \<and> validate_sdt_checksum m xsdt
            then (let n = entry_count (sdt_length m xsdt) 8 in
              note_tables m hhdm_offset (xsdt_entry m xsdt) (unat n) (info\<lparr>xsdt_found := True, xsdt_entry_count := n\<rparr>))
            else enumerate_rsdt m hhdm_offset rsdp info)
          else enumerate_rsdt m hhdm_offset rsdp info)"

section \<open>The table of interrupt controllers\<close>

record LocalApic =
  apic_processor_id :: u8
  apic_id :: u8
  apic_flags :: u32
  usable :: bool

record IoApic =
  io_apic_id :: u8
  io_apic_address :: u32
  gsi_base :: u32

record InterruptOverride =
  override_bus :: u8
  override_source :: u8
  override_gsi :: u32
  override_flags :: u16

text \<open>An array and its counter are the list of the entries in use.\<close>

record madt_info =
  local_apic_address :: u64
  local_apics :: "LocalApic list"
  io_apics :: "IoApic list"
  interrupt_overrides :: "InterruptOverride list"

definition MADT_MAX_CPUS :: nat where "MADT_MAX_CPUS = 128"
definition max_io_apics :: nat where "max_io_apics = 8"
definition max_interrupt_overrides :: nat where "max_interrupt_overrides = 16"

definition read_local_apic :: "bytes \<Rightarrow> u64 \<Rightarrow> LocalApic" where
  "read_local_apic m p = (let flags = get32 m (p + 4) in
     \<lparr>apic_processor_id = m (p + 2), apic_id = m (p + 3), apic_flags = flags,
      usable = (flags AND 1 \<noteq> 0 \<or> flags AND 2 \<noteq> 0)\<rparr>)"

definition read_io_apic :: "bytes \<Rightarrow> u64 \<Rightarrow> IoApic" where
  "read_io_apic m p = \<lparr>io_apic_id = m (p + 2), io_apic_address = get32 m (p + 4), gsi_base = get32 m (p + 8)\<rparr>"

definition read_override :: "bytes \<Rightarrow> u64 \<Rightarrow> InterruptOverride" where
  "read_override m p = \<lparr>override_bus = m (p + 2), override_source = m (p + 3), override_gsi = get32 m (p + 4),
     override_flags = get16 m (p + 8)\<rparr>"

text \<open>The switch on the type of a record.\<close>

definition add_record :: "bytes \<Rightarrow> u64 \<Rightarrow> madt_info \<Rightarrow> madt_info" where
  "add_record m p info =
     (if m p = 0 then
        (if length (local_apics info) < MADT_MAX_CPUS
         then info\<lparr>local_apics := local_apics info @ [read_local_apic m p]\<rparr> else info)
      else if m p = 1 then
        (if length (io_apics info) < max_io_apics
         then info\<lparr>io_apics := io_apics info @ [read_io_apic m p]\<rparr> else info)
      else if m p = 2 then
        (if length (interrupt_overrides info) < max_interrupt_overrides
         then info\<lparr>interrupt_overrides := interrupt_overrides info @ [read_override m p]\<rparr> else info)
      else if m p = 5 then info\<lparr>local_apic_address := get64 m (p + 4)\<rparr>
      else info)"

text \<open>The position is counted from the header, up to the length of the table.\<close>

function parse_records :: "bytes \<Rightarrow> u64 \<Rightarrow> nat \<Rightarrow> nat \<Rightarrow> madt_info \<Rightarrow> madt_info" where
  "parse_records m header len off info =
     (if off < len then
        (let p = header + of_nat off; l = unat (m (p + 1)) in
         if off + l > len \<or> l < 2 then info
         else parse_records m header len (off + l) (add_record m p info))
      else info)"
  by pat_completeness auto
termination by (relation "measure (\<lambda>(m, header, len, off, info). len - off)") auto

declare parse_records.simps [simp del]

definition madt_parse :: "bytes \<Rightarrow> u64 \<Rightarrow> madt_info" where
  "madt_parse m header =
     (let info = \<lparr>local_apic_address = 0, local_apics = [], io_apics = [], interrupt_overrides = []\<rparr> in
      if header = 0 then info
      else parse_records m header (unat (sdt_length m header)) 44
             (info\<lparr>local_apic_address := ucast (get32 m (header + 36))\<rparr>))"

section \<open>Finding a table\<close>

lemma scan_tables_finds:
  assumes "i \<in> set is" "entries i \<noteq> 0" "signature_matches m (phys_to_virt (entries i) hhdm) sig"
  shows "\<exists>t. scan_tables m hhdm sig entries is = Some t \<and> signature_matches m t sig"
  using assms by (induction "is") (auto simp: Let_def)

lemma scan_tables_matches: "scan_tables m hhdm sig entries is = Some t \<Longrightarrow> signature_matches m t sig"
  by (induction "is") (auto simp: Let_def split: if_splits)

lemma note_table_madt:
  "madt_found (note_table m hhdm p info) \<longleftrightarrow> madt_found info
     \<or> (p \<noteq> 0 \<and> validate_sdt_checksum m (phys_to_virt p hhdm) \<and> signature_matches m (phys_to_virt p hhdm) ''APIC'')"
  by (auto simp: note_table_def Let_def)

lemma note_tables_madt:
  assumes "madt_found (note_tables m hhdm entries n info)" "\<not> madt_found info"
  shows "\<exists>t. scan_tables m hhdm ''APIC'' entries [0 ..< n] = Some t \<and> signature_matches m t ''APIC''"
proof -
  have "madt_found (fold (\<lambda>i. note_table m hhdm (entries i)) is info) \<Longrightarrow> \<exists>i \<in> set is. entries i \<noteq> 0
      \<and> signature_matches m (phys_to_virt (entries i) hhdm) ''APIC''" if "\<not> madt_found info" for "is"
    using that
  proof (induction "is" arbitrary: info)
    case (Cons i "is")
    then show ?case
      by (cases "madt_found (note_table m hhdm (entries i) info)") (auto simp: note_table_madt)
  qed simp
  then show ?thesis using assms scan_tables_finds [of _ "[0 ..< n]" entries m hhdm] by (fastforce simp: note_tables_def)
qed

text \<open>What the enumeration reports can be found: when it says that there is a table of interrupt
  controllers, the search for the signature returns a table with that signature.\<close>

theorem reported_madt_is_found:
  assumes "madt_found (acpi_enumerate m hhdm rsdp)"
  shows "\<exists>t. find_table m hhdm rsdp ''APIC'' = Some t \<and> signature_matches m t ''APIC''"
proof -
  have r: "\<exists>t. find_table m hhdm rsdp ''APIC'' = Some t \<and> signature_matches m t ''APIC''"
    if "madt_found (enumerate_rsdt m hhdm rsdp info)" "\<not> madt_found info" "rsdp \<noteq> 0" "rsdp_sig_valid m rsdp"
      "scan_xsdt m hhdm rsdp ''APIC'' = None" for info
    using that note_tables_madt [of m hhdm _ _ info]
    by (auto simp: find_table_def enumerate_rsdt_def Let_def split: if_splits)
  show ?thesis
  proof (cases "xsdt_address m rsdp \<noteq> 0 \<and> rsdp_revision m rsdp \<ge> 2
      \<and> signature_matches m (phys_to_virt (xsdt_address m rsdp) hhdm) ''XSDT''
      \<and> validate_sdt_checksum m (phys_to_virt (xsdt_address m rsdp) hhdm)")
    case True
    then have "\<exists>t. scan_xsdt m hhdm rsdp ''APIC'' = Some t \<and> signature_matches m t ''APIC''"
      using assms note_tables_madt [of m hhdm]
      by (auto simp: acpi_enumerate_def scan_xsdt_def Let_def no_acpi_def split: if_splits)
    then show ?thesis using assms by (auto simp: find_table_def acpi_enumerate_def no_acpi_def Let_def split: if_splits)
  next
    case False
    then have "scan_xsdt m hhdm rsdp ''APIC'' = None" by (auto simp: scan_xsdt_def Let_def)
    then show ?thesis using r assms False
      by (auto simp: acpi_enumerate_def no_acpi_def Let_def split: if_splits)
  qed
qed

section \<open>Reading back records\<close>

text \<open>The records that the firmware describes, and the bytes of each.\<close>

datatype madt_record =
  ProcessorLocalApic u8 u8 u32
| IoApicRecord u8 u32 u32
| SourceOverride u8 u8 u32 u16
| AddressOverride u64
| OtherRecord u8 "u8 list"

primrec encode :: "madt_record \<Rightarrow> u8 list" where
  "encode (ProcessorLocalApic processor apic flags) = [0, 8, processor, apic] @ to_bytes 4 (ucast flags)"
| "encode (IoApicRecord i address gsi) = [1, 12, i, 0] @ to_bytes 4 (ucast address) @ to_bytes 4 (ucast gsi)"
| "encode (SourceOverride bus source gsi flags) = [2, 10, bus, source] @ to_bytes 4 (ucast gsi) @ to_bytes 2 (ucast flags)"
| "encode (AddressOverride address) = [5, 12, 0, 0] @ to_bytes 8 address"
| "encode (OtherRecord t data) = [t, of_nat (length data + 2)] @ data"

primrec valid_record :: "madt_record \<Rightarrow> bool" where
  "valid_record (ProcessorLocalApic _ _ _) = True"
| "valid_record (IoApicRecord _ _ _) = True"
| "valid_record (SourceOverride _ _ _ _) = True"
| "valid_record (AddressOverride _) = True"
| "valid_record (OtherRecord t data) = (t \<notin> {0, 1, 2, 5} \<and> length data \<le> 253)"

text \<open>What a list of records says, before the arrays limit it.\<close>

fun local_apics_of :: "madt_record list \<Rightarrow> LocalApic list" where
  "local_apics_of [] = []"
| "local_apics_of (ProcessorLocalApic processor apic flags # rs) =
     \<lparr>apic_processor_id = processor, apic_id = apic, apic_flags = flags, usable = (bit flags 0 \<or> bit flags 1)\<rparr> # local_apics_of rs"
| "local_apics_of (_ # rs) = local_apics_of rs"

fun io_apics_of :: "madt_record list \<Rightarrow> IoApic list" where
  "io_apics_of [] = []"
| "io_apics_of (IoApicRecord i address gsi # rs) =
     \<lparr>io_apic_id = i, io_apic_address = address, gsi_base = gsi\<rparr> # io_apics_of rs"
| "io_apics_of (_ # rs) = io_apics_of rs"

fun overrides_of :: "madt_record list \<Rightarrow> InterruptOverride list" where
  "overrides_of [] = []"
| "overrides_of (SourceOverride bus source gsi flags # rs) =
     \<lparr>override_bus = bus, override_source = source, override_gsi = gsi, override_flags = flags\<rparr> # overrides_of rs"
| "overrides_of (_ # rs) = overrides_of rs"

fun address_of :: "u64 \<Rightarrow> madt_record list \<Rightarrow> u64" where
  "address_of a [] = a"
| "address_of a (AddressOverride b # rs) = address_of b rs"
| "address_of a (_ # rs) = address_of a rs"

definition extend_info :: "madt_info \<Rightarrow> madt_record list \<Rightarrow> madt_info" where
  "extend_info info rs =
     \<lparr>local_apic_address = address_of (local_apic_address info) rs,
      local_apics = take MADT_MAX_CPUS (local_apics info @ local_apics_of rs),
      io_apics = take max_io_apics (io_apics info @ io_apics_of rs),
      interrupt_overrides = take max_interrupt_overrides (interrupt_overrides info @ overrides_of rs)\<rparr>"

definition within_limits :: "madt_info \<Rightarrow> bool" where
  "within_limits info \<longleftrightarrow> length (local_apics info) \<le> MADT_MAX_CPUS \<and> length (io_apics info) \<le> max_io_apics
     \<and> length (interrupt_overrides info) \<le> max_interrupt_overrides"

lemma flag_bits: "(flags AND 1 \<noteq> 0) = bit flags 0" "(flags AND 2 \<noteq> 0) = bit (flags :: u32) 1"
proof -
  show "(flags AND 1 \<noteq> 0) = bit flags 0" by (simp add: and_one_eq bit_0 odd_iff_mod_2_eq_one)
  have "flags AND 2 = (if bit flags 1 then 2 else 0)"
    by (rule bit_word_eqI) (auto simp: bit_simps bit_2_iff)
  then show "(flags AND 2 \<noteq> 0) = bit flags 1" by simp
qed

lemma add_record_encoded:
  assumes b: "bytes_at m p (length (encode r)) = encode r" and "valid_record r" "within_limits info"
  shows "add_record m p info = extend_info info [r]" "unat (m (p + 1)) = length (encode r)"
    "2 \<le> length (encode r)" "within_limits (extend_info info [r])"
proof -
  note part = bytes_at_part [OF b] and nth = bytes_at_nth [OF b]
  show "2 \<le> length (encode r)" by (cases r) auto
  show "unat (m (p + 1)) = length (encode r)"
  proof (cases r)
    case (OtherRecord t data)
    have "m (p + 1) = of_nat (length data + 2)" using nth [of 1] OtherRecord by simp
    then show ?thesis using assms(2) OtherRecord by (simp only: unat_of_nat) simp
  qed (use nth [of 1] in auto)
  show "within_limits (extend_info info [r])" by (auto simp: within_limits_def extend_info_def min_def)
  show "add_record m p info = extend_info info [r]"
    using assms(2,3) nth [of 0] nth [of 2] nth [of 3] part [of 4 4] part [of 8 4] part [of 8 2] part [of 4 8]
    by (cases r) (auto simp: add_record_def extend_info_def within_limits_def read_local_apic_def read_io_apic_def
        read_override_def get16_def get32_def get64_def Let_def flag_bits)
qed

lemma take_more: "take n (take n xs @ ys) = take n (xs @ ys)"
  by (cases "n \<le> length xs") auto

lemma extend_info_append: "extend_info (extend_info info [r]) rs = extend_info info (r # rs)"
proof -
  have "local_apics_of (r # rs) = local_apics_of [r] @ local_apics_of rs" "io_apics_of (r # rs) = io_apics_of [r] @ io_apics_of rs"
    "overrides_of (r # rs) = overrides_of [r] @ overrides_of rs" "address_of a (r # rs) = address_of (address_of a [r]) rs" for a
    by (cases r; simp)+
  then show ?thesis unfolding extend_info_def by (simp del: take_append add: take_more append_assoc)
qed

lemma parse_records_encoded:
  assumes "bytes_at m (header + of_nat off) (length (concat (map encode rs))) = concat (map encode rs)"
    "list_all valid_record rs" "within_limits info"
  shows "parse_records m header (off + length (concat (map encode rs))) off info = extend_info info rs"
  using assms
proof (induction rs arbitrary: off info)
  case Nil
  then show ?case by (auto simp: parse_records.simps [of m header off] extend_info_def within_limits_def)
next
  case (Cons r rs)
  let ?p = "header + of_nat off" and ?n = "length (encode r)" and ?cs = "concat (map encode rs)"
  have e: "bytes_at m ?p ?n = encode r" using bytes_at_part [OF Cons.prems(1), of 0 ?n] by simp
  have v: "valid_record r" "list_all valid_record rs" using Cons.prems(2) by simp_all
  note R = add_record_encoded [OF e v(1) Cons.prems(3)]
  have "bytes_at m (header + of_nat (off + ?n)) (length ?cs) = ?cs"
    using bytes_at_part [OF Cons.prems(1), of ?n "length ?cs"] by (simp add: add.assoc)
  note IH = Cons.IH [OF this v(2) R(4)]
  have "parse_records m header (off + (?n + length ?cs)) off info
      = parse_records m header (off + ?n + length ?cs) (off + ?n) (extend_info info [r])"
  proof -
    have "encode r \<noteq> []" using R(3) by auto
    then show ?thesis using R(1-3) by (subst parse_records.simps) (simp add: Let_def add.assoc)
  qed
  then show ?case using IH extend_info_append by simp
qed

text \<open>C28. The parser reads back what the firmware wrote: for a table whose bytes are those of a list of records,
  unknown ones included, it lists the processors, the controllers and the overrides in their order, as many as
  fit, and takes the address from the last record that gives one.\<close>

theorem madt_parse_encoded:
  assumes "header \<noteq> 0" "unat (sdt_length m header) = 44 + length (concat (map encode rs))"
    "bytes_at m (header + 44) (length (concat (map encode rs))) = concat (map encode rs)" "list_all valid_record rs"
  shows "madt_parse m header =
    \<lparr>local_apic_address = address_of (ucast (get32 m (header + 36))) rs,
     local_apics = take MADT_MAX_CPUS (local_apics_of rs),
     io_apics = take max_io_apics (io_apics_of rs),
     interrupt_overrides = take max_interrupt_overrides (overrides_of rs)\<rparr>"
proof -
  let ?i = "\<lparr>local_apic_address = ucast (get32 m (header + 36)), local_apics = [], io_apics = [], interrupt_overrides = []\<rparr>"
  have "within_limits ?i" by (simp add: within_limits_def)
  then show ?thesis
    using parse_records_encoded [of m header 44 rs ?i] assms by (simp add: madt_parse_def extend_info_def)
qed

section \<open>Example tables\<close>

text \<open>A root pointer at 4096, a root table at 8192, and at 12288 a table with one processor and one unknown record.\<close>

definition example_records :: "madt_record list" where
  "example_records = [ProcessorLocalApic 1 2 1, OtherRecord 4 [0]]"

definition example_tables :: bytes where
  "example_tables a =
     (if 4096 \<le> a \<and> a < 4116
      then [82, 83, 68, 32, 80, 84, 82, 32, 193, 0, 0, 0, 0, 0, 0, 0, 0, 32, 0, 0] ! unat (a - 4096)
      else if 8192 \<le> a \<and> a < 8232
      then ([82, 83, 68, 84, 40, 0, 0, 0, 0, 107] @ replicate 26 0 @ [0, 48, 0, 0]) ! unat (a - 8192)
      else if 12288 \<le> a \<and> a < 12343
      then ([65, 80, 73, 67, 55, 0, 0, 0, 0, 187] @ replicate 26 0 @ [0, 0, 224, 254, 0, 0, 0, 0, 0, 8, 1, 2, 1, 0, 0, 0, 4, 3, 0])
             ! unat (a - 12288)
      else 0)"

theorem reported_madt_is_found_witness:
  "madt_found (acpi_enumerate example_tables 0 4096)
   \<and> (\<exists>t. find_table example_tables 0 4096 ''APIC'' = Some t \<and> signature_matches example_tables t ''APIC'')"
proof -
  have "madt_found (acpi_enumerate example_tables 0 4096)" by code_simp
  then show ?thesis using reported_madt_is_found by blast
qed

theorem madt_parse_encoded_witness:
  "local_apics (madt_parse example_tables 12288) =
     [\<lparr>apic_processor_id = 1, apic_id = 2, apic_flags = 1, usable = True\<rparr>]"
proof -
  have "unat (sdt_length example_tables 12288) = 44 + length (concat (map encode example_records))"
    "bytes_at example_tables (12288 + 44) (length (concat (map encode example_records))) = concat (map encode example_records)"
    "list_all valid_record example_records" by code_simp+
  moreover have "take MADT_MAX_CPUS (local_apics_of example_records)
      = [\<lparr>apic_processor_id = 1, apic_id = 2, apic_flags = 1, usable = True\<rparr>]" by code_simp
  ultimately show ?thesis using madt_parse_encoded [of 12288 example_tables example_records] by simp
qed

end
