(* ===== verification/Tori_Unwind.thy ===== *)
theory Tori_Unwind
  imports Tori_Bytes "HOL-Library.Monad_Syntax"
begin

unbundle bit_operations_syntax

text \<open>
  The stack unwinder (\<open>kernel/src/arch/x86_64/stacktrace.cpp\<close>): it reads the unwind tables that the
  compiler wrote, runs their instructions and looks up symbols.  Tables and stacks lie in byte memory.
  Signed numbers of 64 bits are words too: the code only adds and multiplies them, here modulo \<open>2 ^ 64\<close>.
  A pointer is an address, with 0 for the null pointer.  \<open>None\<close> is a shift by 64 or more, which C++ leaves
  undefined, or a loop that does not end; an inner \<open>None\<close> is a function that returns false.
\<close>

section \<open>Numbers of variable length\<close>

function uleb_loop :: "bytes \<Rightarrow> u64 \<Rightarrow> u64 \<Rightarrow> nat \<Rightarrow> (u64 \<times> nat \<times> u8 \<times> u64) option" where
  "uleb_loop m p v s =
     (if s \<ge> 64 then None
      else let b = m p; v = v OR push_bit s (ucast (b AND 0x7F)) in
        if b AND 0x80 \<noteq> 0 then uleb_loop m (p + 1) v (s + 7) else Some (v, s + 7, b, p + 1))"
  by pat_completeness auto
termination by (relation "measure (\<lambda>(m, p, v, s). 64 - s)") auto

declare uleb_loop.simps [simp del]

definition read_uleb :: "bytes \<Rightarrow> u64 \<Rightarrow> (u64 \<times> u64) option" where
  "read_uleb m p = do { (v, s, b, p) \<leftarrow> uleb_loop m p 0 0; Some (v, p) }"

definition read_sleb :: "bytes \<Rightarrow> u64 \<Rightarrow> (u64 \<times> u64) option" where
  "read_sleb m p = do {
     (v, s, b, p) \<leftarrow> uleb_loop m p 0 0;
     Some (if s < 64 \<and> b AND 0x40 \<noteq> 0 then v OR (- push_bit s 1) else v, p)
   }"

text \<open>The formats of an encoded pointer.\<close>

definition read_enc :: "bytes \<Rightarrow> u64 \<Rightarrow> u8 \<Rightarrow> u64 \<Rightarrow> (u64 \<times> u64) option" where
  "read_enc m p enc db =
     (let fmt = enc AND 0x0F;
          based = (\<lambda>(v, q). (if enc AND 0xF0 = 0x10 then v + p else if enc AND 0xF0 = 0x30 then v + db else v, q)) in
      if enc = 0xFF then Some (0, p)
      else if fmt = 0x00 then Some (based (get64 m p, p + 8))
      else if fmt = 0x01 then map_option based (read_uleb m p)
      else if fmt = 0x02 then Some (based (ucast (get16 m p), p + 2))
      else if fmt = 0x03 then Some (based (ucast (get32 m p), p + 4))
      else if fmt = 0x04 then Some (based (get64 m p, p + 8))
      else if fmt = 0x09 then map_option based (read_sleb m p)
      else if fmt = 0x0A then Some (based (scast (get16 m p), p + 2))
      else if fmt = 0x0B then Some (based (scast (get32 m p), p + 4))
      else if fmt = 0x0C then Some (based (get64 m p, p + 8))
      else Some (0, p))"

section \<open>Entries of the tables\<close>

record Cie =
  code_align :: u64
  data_align :: u64
  ra_reg :: u8
  fde_enc :: u8
  cie_inst :: u64
  cie_inst_end :: u64
  datarel_base :: u64
  has_z :: bool

text \<open>The characters up to the final 0.\<close>

partial_function (option) aug_string :: "bytes \<Rightarrow> u64 \<Rightarrow> u8 list option" where
  "aug_string m p = (if m p = 0 then Some [] else do { cs \<leftarrow> aug_string m (p + 1); Some (m p # cs) })"

abbreviation ascii :: "char \<Rightarrow> u8" where "ascii ch \<equiv> of_char ch"

text \<open>The augmentation data of a table entry from \<open>p\<close> on: the format of its pointers.\<close>

definition augmentation :: "bytes \<Rightarrow> u8 list \<Rightarrow> u64 \<Rightarrow> u64 \<Rightarrow> u8 option" where
  "augmentation m aug db p = do {
     let p = (if ascii CHR ''L'' \<in> set aug then p + 1 else p);
     p \<leftarrow> (if ascii CHR ''P'' \<in> set aug then do { (v, p) \<leftarrow> read_enc m (p + 1) (m p) db; Some p } else Some p);
     let re = (if ascii CHR ''R'' \<in> set aug then m p else 0);
     Some (if re \<noteq> 0 then re else 0x00)
   }"

definition parse_cie :: "bytes \<Rightarrow> u64 \<Rightarrow> u64 \<Rightarrow> bool \<Rightarrow> Cie option option" where
  "parse_cie m body len is64 =
     (if (if is64 then get64 m body \<noteq> 0 else get32 m body \<noteq> 0) then Some None
      else let p = (if is64 then body + 8 else body + 4); ver = m p; p = p + 1 in
        if ver \<noteq> 1 \<and> ver \<noteq> 3 \<and> ver \<noteq> 4 then Some None
        else do {
          aug \<leftarrow> aug_string m p;
          let p = p + of_nat (length aug) + 1;
          if \<not> set aug \<subseteq> {ascii CHR ''z'', ascii CHR ''R'', ascii CHR ''L'', ascii CHR ''P''} then Some None
          else do {
            let p = (if ver \<ge> 4 then p + 2 else p);
            (ca, p) \<leftarrow> read_uleb m p;
            (da, p) \<leftarrow> read_sleb m p;
            (ra, p) \<leftarrow> read_uleb m p;
            let z = ascii CHR ''z'' \<in> set aug;
            (enc, p) \<leftarrow> (if z then do {
                (alen, p) \<leftarrow> read_uleb m p;
                enc \<leftarrow> augmentation m aug body p;
                Some (enc, p + alen)
              } else Some (0x00, p));
            Some (Some \<lparr>code_align = ca, data_align = da, ra_reg = ucast ra, fde_enc = enc, cie_inst = p,
              cie_inst_end = body + len, datarel_base = body, has_z = z\<rparr>)
          }
        })"

text \<open>The members that \<open>Fde\<close> copies from the \<open>Cie\<close> are kept together.\<close>

record Fde =
  start_pc :: u64
  end_pc :: u64
  fde_cie :: Cie
  fde_inst :: u64
  fde_inst_end :: u64

text \<open>The body of an entry, its length and whether the long format is used.\<close>

definition entry_body :: "bytes \<Rightarrow> u64 \<Rightarrow> u64 \<times> u64 \<times> bool" where
  "entry_body m p =
     (let h = get32 m p in
      if h = 0xFFFFFFFF then (p + 12, get64 m (p + 4), True)
      else if h = 0 then (0, 0, False)
      else (p + 4, ucast h, False))"

definition parse_fde :: "bytes \<Rightarrow> u64 \<Rightarrow> u64 \<Rightarrow> u64 \<Rightarrow> bool \<Rightarrow> Fde option option" where
  "parse_fde m p body len is64 =
     (let cie_off = (if is64 then get64 m body else ucast (get32 m body)); q = (if is64 then body + 8 else body + 4);
          cie_start = q - (if is64 then 8 else 4) - cie_off; (cie_body, cie_len, cie_is64) = entry_body m cie_start in
      if cie_body = 0 then Some None
      else do {
        c \<leftarrow> parse_cie m cie_body cie_len cie_is64;
        case c of None \<Rightarrow> Some None
        | Some c \<Rightarrow> do {
            (start, q) \<leftarrow> read_enc m q (fde_enc c) p;
            (range, q) \<leftarrow> read_enc m q (fde_enc c AND 0x0F) p;
            q \<leftarrow> (if has_z c then do { (al, q) \<leftarrow> read_uleb m q; Some (q + al) } else Some q);
            Some (Some \<lparr>start_pc = start, end_pc = start + range, fde_cie = c, fde_inst = q, fde_inst_end = body + len\<rparr>)
          }
      })"

section \<open>The machine for unwind instructions\<close>

datatype RuleK = RU_UNDEF | RU_SAME | RU_OFFSET | RU_VALOFF | RU_REG

record RRule =
  rule_k :: RuleK
  rule_reg :: u8
  rule_off :: u64

record cfi_state =
  loc :: u64
  cfa_reg :: u8
  cfa_off :: u64
  ra_rule :: RRule
  rbp_rule :: RRule

definition DW_REG_RBP :: u8 where "DW_REG_RBP = 6"
definition DW_REG_RSP :: u8 where "DW_REG_RSP = 7"
definition DW_REG_RA :: u8 where "DW_REG_RA = 16"
definition STK_MAX :: nat where "STK_MAX = 8"

text \<open>Changes the rule of a register, if it is one of the two that are followed.\<close>

definition on_rule :: "u8 \<Rightarrow> (RRule \<Rightarrow> RRule) \<Rightarrow> cfi_state \<Rightarrow> cfi_state" where
  "on_rule r f st =
     (if r = DW_REG_RA then st\<lparr>ra_rule := f (ra_rule st)\<rparr>
      else if r = DW_REG_RBP then st\<lparr>rbp_rule := f (rbp_rule st)\<rparr> else st)"

definition set_offset_rule :: "u64 \<Rightarrow> RRule \<Rightarrow> RRule" where
  "set_offset_rule o' rl = rl\<lparr>rule_k := RU_OFFSET, rule_off := o'\<rparr>"

text \<open>Value offsets are only followed for \<open>rbp\<close>.\<close>

definition on_rbp_value :: "u8 \<Rightarrow> u64 \<Rightarrow> cfi_state \<Rightarrow> cfi_state" where
  "on_rbp_value r o' st =
     (if r = DW_REG_RBP then st\<lparr>rbp_rule := (rbp_rule st)\<lparr>rule_k := RU_VALOFF, rule_off := o'\<rparr>\<rparr> else st)"

text \<open>The constant arguments of \<open>exec_cfi\<close>.\<close>

record cfi_env =
  env_ca :: u64
  env_da :: u64
  env_enc :: u8
  env_dbase :: u64
  env_target :: u64

type_synonym cfi_run = "bool \<times> cfi_state \<times> cfi_state list \<times> u64"

text \<open>One instruction: whether the function returns, the state, the saved states with the last one first,
  and the position.\<close>

definition move_loc :: "cfi_env \<Rightarrow> u64 \<Rightarrow> cfi_state \<Rightarrow> cfi_state list \<Rightarrow> u64 \<Rightarrow> cfi_run" where
  "move_loc e l st saved p = (env_target e < l, st\<lparr>loc := l\<rparr>, saved, p)"

definition ext_op :: "bytes \<Rightarrow> cfi_env \<Rightarrow> u8 \<Rightarrow> cfi_state \<Rightarrow> cfi_state list \<Rightarrow> u64 \<Rightarrow> cfi_run option" where
  "ext_op m e op st saved p =
     (if op = 0x01 then do { (l, p) \<leftarrow> read_enc m p (env_enc e) (env_dbase e); Some (move_loc e l st saved p) }
      else if op = 0x02 then Some (move_loc e (loc st + ucast (m p) * env_ca e) st saved (p + 1))
      else if op = 0x03 then Some (move_loc e (loc st + ucast (get16 m p) * env_ca e) st saved (p + 2))
      else if op = 0x04 then Some (move_loc e (loc st + ucast (get32 m p) * env_ca e) st saved (p + 4))
      else if op = 0x05 then do {
        (r, p) \<leftarrow> read_uleb m p; (o', p) \<leftarrow> read_uleb m p;
        Some (False, on_rule (ucast r) (set_offset_rule (o' * env_da e)) st, saved, p) }
      else if op = 0x06 \<or> op = 0x07 then do {
        (r, p) \<leftarrow> read_uleb m p; Some (False, on_rule (ucast r) (rule_k_update (\<lambda>_. RU_UNDEF)) st, saved, p) }
      else if op = 0x08 then do {
        (r, p) \<leftarrow> read_uleb m p; Some (False, on_rule (ucast r) (rule_k_update (\<lambda>_. RU_SAME)) st, saved, p) }
      else if op = 0x09 then do {
        (r, p) \<leftarrow> read_uleb m p; (vr, p) \<leftarrow> read_uleb m p;
        Some (False, on_rule (ucast r) (\<lambda>rl. rl\<lparr>rule_k := RU_REG, rule_reg := ucast vr\<rparr>) st, saved, p) }
      else if op = 0x0A then Some (False, st, if length saved < STK_MAX then st # saved else saved, p)
      else if op = 0x0B then
        Some (case saved of [] \<Rightarrow> (False, st, [], p) | st' # saved' \<Rightarrow> (False, st', saved', p))
      else if op = 0x0C then do {
        (r, p) \<leftarrow> read_uleb m p; (o', p) \<leftarrow> read_uleb m p;
        Some (False, st\<lparr>cfa_reg := ucast r, cfa_off := o'\<rparr>, saved, p) }
      else if op = 0x0D then do { (r, p) \<leftarrow> read_uleb m p; Some (False, st\<lparr>cfa_reg := ucast r\<rparr>, saved, p) }
      else if op = 0x0E then do { (o', p) \<leftarrow> read_uleb m p; Some (False, st\<lparr>cfa_off := o'\<rparr>, saved, p) }
      else if op = 0x12 then do {
        (r, p) \<leftarrow> read_uleb m p; (o', p) \<leftarrow> read_sleb m p;
        Some (False, st\<lparr>cfa_reg := ucast r, cfa_off := o' * env_da e\<rparr>, saved, p) }
      else if op = 0x13 then do {
        (o', p) \<leftarrow> read_sleb m p; Some (False, st\<lparr>cfa_off := o' * env_da e\<rparr>, saved, p) }
      else if op = 0x11 then do {
        (r, p) \<leftarrow> read_uleb m p; (o', p) \<leftarrow> read_sleb m p;
        Some (False, on_rule (ucast r) (set_offset_rule (o' * env_da e)) st, saved, p) }
      else if op = 0x14 then do {
        (r, p) \<leftarrow> read_uleb m p; (o', p) \<leftarrow> read_uleb m p;
        Some (False, on_rbp_value (ucast r) (o' * env_da e) st, saved, p) }
      else if op = 0x15 then do {
        (r, p) \<leftarrow> read_uleb m p; (o', p) \<leftarrow> read_sleb m p;
        Some (False, on_rbp_value (ucast r) (o' * env_da e) st, saved, p) }
      else if op = 0x0F \<or> op = 0x10 \<or> op = 0x16 then do { (el, p) \<leftarrow> read_uleb m p; Some (False, st, saved, p + el) }
      else if op = 0x2E then do { (v, p) \<leftarrow> read_uleb m p; Some (False, st, saved, p) }
      else if op = 0x2F then do {
        (r, p) \<leftarrow> read_uleb m p; (o', p) \<leftarrow> read_uleb m p;
        Some (False, on_rule (ucast r) (set_offset_rule (- o' * env_da e)) st, saved, p) }
      else Some (True, st, saved, p))"

definition cfi_op :: "bytes \<Rightarrow> cfi_env \<Rightarrow> cfi_state \<Rightarrow> cfi_state list \<Rightarrow> u64 \<Rightarrow> cfi_run option" where
  "cfi_op m e st saved p =
     (let op = m p; p = p + 1 in
      if op = 0x00 then Some (False, st, saved, p)
      else if op AND 0xC0 = 0x40 then Some (move_loc e (loc st + ucast (op AND 0x3F) * env_ca e) st saved p)
      else if op AND 0xC0 = 0x80 then do {
        (o', p) \<leftarrow> read_uleb m p;
        Some (False, on_rule (op AND 0x3F) (set_offset_rule (o' * env_da e)) st, saved, p) }
      else if op AND 0xC0 = 0xC0 then Some (False, on_rule (op AND 0x3F) (rule_k_update (\<lambda>_. RU_UNDEF)) st, saved, p)
      else ext_op m e op st saved p)"

partial_function (option) cfi_loop :: "bytes \<Rightarrow> cfi_env \<Rightarrow> u64 \<Rightarrow> cfi_state \<Rightarrow> cfi_state list \<Rightarrow> u64 \<Rightarrow> cfi_state option" where
  "cfi_loop m e end_p st saved p =
     (if p < end_p then do {
        (stop, st, saved, p) \<leftarrow> cfi_op m e st saved p;
        if stop then Some st else cfi_loop m e end_p st saved p
      }
      else Some st)"

definition exec_cfi :: "bytes \<Rightarrow> cfi_env \<Rightarrow> u64 \<Rightarrow> u64 \<Rightarrow> u64 \<Rightarrow> cfi_state \<Rightarrow> cfi_state option" where
  "exec_cfi m e p end_p start st = cfi_loop m e end_p (st\<lparr>loc := start\<rparr>) [] p"

section \<open>Finding the entry of an address\<close>

text \<open>The symbols of the linker and the table of symbols.\<close>

record unwind_tables =
  eh_frame_start :: u64
  eh_frame_end :: u64
  eh_frame_hdr_start :: u64
  eh_frame_hdr_end :: u64
  symtab :: "(u64 \<times> string) list"

text \<open>The size of a row of the search table by its format, and one field of a row.\<close>

definition row_stride :: "u8 \<Rightarrow> u64 option" where
  "row_stride fmt =
     (if fmt = 0x00 then Some 16
      else if fmt = 0x03 \<or> fmt = 0x0B then Some 8
      else if fmt = 0x04 \<or> fmt = 0x0C then Some 16
      else if fmt = 0x02 \<or> fmt = 0x0A then Some 4
      else None)"

definition row_field :: "bytes \<Rightarrow> u8 \<Rightarrow> u64 \<Rightarrow> u64 \<Rightarrow> u64" where
  "row_field m tbl_enc dbase tp =
     (let fmt = tbl_enc AND 0x0F;
          v = (if fmt = 0x03 then ucast (get32 m tp)
               else if fmt = 0x0B then scast (get32 m tp)
               else if fmt = 0x02 then ucast (get16 m tp)
               else if fmt = 0x0A then scast (get16 m tp)
               else get64 m tp) in
      if tbl_enc AND 0xF0 = 0x30 then v + dbase else v)"

function hdr_search :: "(int \<Rightarrow> u64) \<Rightarrow> (int \<Rightarrow> u64) \<Rightarrow> int \<Rightarrow> u64 \<Rightarrow> int \<Rightarrow> int \<Rightarrow> u64" where
  "hdr_search row_pc row_fde cnt pc lo hi =
     (if lo \<le> hi then
        (let mid = lo + (hi - lo) div 2 in
         if pc < row_pc mid then hdr_search row_pc row_fde cnt pc lo (mid - 1)
         else if mid < cnt - 1 \<and> pc \<ge> row_pc (mid + 1) then hdr_search row_pc row_fde cnt pc (mid + 1) hi
         else row_fde mid)
      else 0)"
  by pat_completeness auto
termination by (relation "measure (\<lambda>(row_pc, row_fde, cnt, pc, lo, hi). nat (hi - lo + 1))") (auto simp: Let_def)

declare hdr_search.simps [simp del]

definition find_fde_hdr :: "bytes \<Rightarrow> unwind_tables \<Rightarrow> u64 \<Rightarrow> u64 option" where
  "find_fde_hdr m t pc =
     (let h = eh_frame_hdr_start t in
      if h \<ge> eh_frame_hdr_end t then Some 0
      else if m h \<noteq> 1 then Some 0
      else do {
        let tbl_enc = m (h + 3);
        (eptr, p) \<leftarrow> read_enc m (h + 4) (m (h + 1)) h;
        (cnt, p) \<leftarrow> read_enc m p (m (h + 2)) h;
        if cnt = 0 \<or> cnt > 100000 then Some 0
        else (case row_stride (tbl_enc AND 0x0F) of None \<Rightarrow> Some 0
          | Some stride \<Rightarrow> Some (hdr_search
              (\<lambda>i. row_field m tbl_enc h (p + of_int i * stride))
              (\<lambda>i. row_field m tbl_enc h (p + of_int i * stride + stride div 2)) (uint cnt) pc 0 (uint cnt - 1)))
      })"

partial_function (option) linear_loop :: "bytes \<Rightarrow> u64 \<Rightarrow> u64 \<Rightarrow> u64 \<Rightarrow> u64 option" where
  "linear_loop m end_p pc p =
     (if p < end_p then
        (let (body, len, is64) = entry_body m p in
         if body = 0 \<or> len = 0 then Some 0
         else if (if is64 then get64 m body = 0 else get32 m body = 0) then linear_loop m end_p pc (body + len)
         else do {
           f \<leftarrow> parse_fde m p body len is64;
           if (case f of None \<Rightarrow> False | Some f \<Rightarrow> pc \<ge> start_pc f \<and> pc < end_pc f) then Some p
           else linear_loop m end_p pc (body + len)
         })
      else Some 0)"

definition find_fde_linear :: "bytes \<Rightarrow> unwind_tables \<Rightarrow> u64 \<Rightarrow> u64 option" where
  "find_fde_linear m t pc = linear_loop m (eh_frame_end t) pc (eh_frame_start t)"

section \<open>Unwinding\<close>

record regs =
  rip :: u64
  rsp :: u64
  rbp :: u64

definition initial_rule :: RRule where
  "initial_rule = \<lparr>rule_k = RU_UNDEF, rule_reg = 0, rule_off = 0\<rparr>"

text \<open>What \<open>step\<close> makes of the state of the machine.  The sum in the bound on the frame address is taken
  modulo \<open>2 ^ 64\<close>, as in the code.\<close>

definition frame_address :: "cfi_state \<Rightarrow> regs \<Rightarrow> u64 option" where
  "frame_address st r =
     (if cfa_reg st = DW_REG_RSP then Some (rsp r + cfa_off st)
      else if cfa_reg st = DW_REG_RBP then Some (rbp r + cfa_off st) else None)"

definition caller_regs :: "bytes \<Rightarrow> cfi_state \<Rightarrow> regs \<Rightarrow> regs option" where
  "caller_regs m st r =
     (case frame_address st r of None \<Rightarrow> None
      | Some cfa \<Rightarrow>
          if cfa \<le> rsp r \<or> cfa \<ge> 0xFFFFFFFF80000000 + 0x100000000 then None
          else (case (case rule_k (ra_rule st) of RU_OFFSET \<Rightarrow> Some (get64 m (cfa + rule_off (ra_rule st)))
                      | RU_SAME \<Rightarrow> Some (rip r) | _ \<Rightarrow> None) of None \<Rightarrow> None
            | Some nrip \<Rightarrow>
                (let nrbp = (case rule_k (rbp_rule st) of RU_OFFSET \<Rightarrow> get64 m (cfa + rule_off (rbp_rule st))
                     | RU_VALOFF \<Rightarrow> cfa + rule_off (rbp_rule st) | RU_SAME \<Rightarrow> rbp r
                     | RU_REG \<Rightarrow> if rule_reg (rbp_rule st) = DW_REG_RBP then rbp r
                         else if rule_reg (rbp_rule st) = DW_REG_RSP then rsp r else 0
                     | RU_UNDEF \<Rightarrow> 0) in
                 if cfa \<le> rsp r then None else Some \<lparr>rip = nrip, rsp = cfa, rbp = nrbp\<rparr>)))"

definition unwind_step :: "bytes \<Rightarrow> unwind_tables \<Rightarrow> regs \<Rightarrow> regs option option" where
  "unwind_step m t r = do {
     fe \<leftarrow> find_fde_hdr m t (rip r);
     fe \<leftarrow> (if fe = 0 then find_fde_linear m t (rip r) else Some fe);
     if fe = 0 then Some None
     else (let (body, len, is64) = entry_body m fe in
       if body = 0 then Some None
       else do {
         f \<leftarrow> parse_fde m fe body len is64;
         case f of None \<Rightarrow> Some None
         | Some f \<Rightarrow>
             if rip r < start_pc f \<or> rip r \<ge> end_pc f then Some None
             else do {
               let c = fde_cie f;
               let e = \<lparr>env_ca = code_align c, env_da = data_align c, env_enc = fde_enc c,
                 env_dbase = datarel_base c, env_target = rip r\<rparr>;
               st \<leftarrow> exec_cfi m e (cie_inst c) (cie_inst_end c) (start_pc f)
                 \<lparr>loc = 0, cfa_reg = DW_REG_RSP, cfa_off = 0, ra_rule = initial_rule, rbp_rule = initial_rule\<rparr>;
               st \<leftarrow> exec_cfi m (e\<lparr>env_dbase := fe\<rparr>) (fde_inst f) (fde_inst_end f) (start_pc f) st;
               Some (caller_regs m st r)
             }
       })
   }"

text \<open>The frames that are stored, at most as many as there is room for.\<close>

fun collect :: "bytes \<Rightarrow> unwind_tables \<Rightarrow> nat \<Rightarrow> regs \<Rightarrow> u64 list option" where
  "collect m t 0 r = Some []"
| "collect m t (Suc n) r = do {
     s \<leftarrow> unwind_step m t r;
     case s of None \<Rightarrow> Some [rip r]
     | Some r' \<Rightarrow> if rip r' = 0 then Some [rip r] else do { fs \<leftarrow> collect m t n r'; Some (rip r # fs) }
   }"

section \<open>Symbols\<close>

function lookup_loop :: "(u64 \<times> string) list \<Rightarrow> u64 \<Rightarrow> int \<Rightarrow> int \<Rightarrow> (string \<times> u64) option" where
  "lookup_loop tab addr lo hi =
     (if lo \<le> hi then
        (let mid = lo + (hi - lo) div 2; sa = fst (tab ! nat mid) in
         if addr < sa then lookup_loop tab addr lo (mid - 1)
         else if mid = int (length tab) - 1 \<or> addr < fst (tab ! nat (mid + 1)) then Some (snd (tab ! nat mid), addr - sa)
         else lookup_loop tab addr (mid + 1) hi)
      else None)"
  by pat_completeness auto
termination by (relation "measure (\<lambda>(tab, addr, lo, hi). nat (hi - lo + 1))") (auto simp: Let_def)

declare lookup_loop.simps [simp del]

definition lookup_symbol :: "unwind_tables \<Rightarrow> u64 \<Rightarrow> (string \<times> u64) option" where
  "lookup_symbol t addr = (if symtab t = [] then None else lookup_loop (symtab t) addr 0 (int (length (symtab t)) - 1))"

end
