(* ===== verification/Tori_Unwind_Props.thy ===== *)
theory Tori_Unwind_Props
  imports Tori_Unwind
begin

unbundle bit_operations_syntax

text \<open>
  Properties of the stack unwinder: numbers of variable length read back, the machine runs the
  instructions that the bytes encode, the symbol found is the last one that does not lie behind the
  address, and how far a trace gets.
\<close>

section \<open>Bytes at an address\<close>

primrec stored :: "bytes \<Rightarrow> u64 \<Rightarrow> u8 list \<Rightarrow> bool" where
  "stored m p [] = True"
| "stored m p (b # bs) = (m p = b \<and> stored m (p + 1) bs)"

lemma stored_append [simp]: "stored m p (xs @ ys) \<longleftrightarrow> stored m p xs \<and> stored m (p + of_nat (length xs)) ys"
  by (induction xs arbitrary: p) (auto simp: add.assoc)

lemma stored_bytes_at: "stored m p xs \<Longrightarrow> bytes_at m p (length xs) = xs"
proof (induction xs arbitrary: p)
  case (Cons x xs)
  then have "bytes_at m (p + 1) (length xs) = xs" by simp
  then show ?case using Cons.prems by (simp add: bytes_at_def map_upt_Suc add.assoc del: upt_Suc)
qed (simp add: bytes_at_def)

lemma stored_fields:
  "stored m p (to_bytes 2 (ucast h)) \<Longrightarrow> get16 m p = h"
  "stored m p (to_bytes 4 (ucast w)) \<Longrightarrow> get32 m p = w"
  "stored m p (to_bytes 8 d) \<Longrightarrow> get64 m p = d"
  by (auto dest!: stored_bytes_at simp: get16_def get32_def get64_def)

section \<open>Numbers of variable length\<close>

function to_uleb :: "u64 \<Rightarrow> u8 list" where
  "to_uleb v = (if v < 128 then [ucast v] else (ucast v OR 0x80) # to_uleb (drop_bit 7 v))"
  by pat_completeness auto
termination
proof (relation "measure unat")
  fix v :: u64
  assume "\<not> v < 128"
  then have "unat (drop_bit 7 v) < unat v"
    by (simp add: drop_bit_eq_div unat_div word_less_nat_alt)
  then show "(drop_bit 7 v, v) \<in> measure unat" by simp
qed simp

declare to_uleb.simps [simp del]

lemma to_uleb_nonempty [simp]: "to_uleb v \<noteq> []"
  by (subst to_uleb.simps) simp

lemma bit_0x80: "bit (0x80 :: int) n \<longleftrightarrow> n = 7"
  using bit_exp_iff [of 7 n, where 'a = int] by auto

lemma small_byte:
  assumes "(v :: u64) < 128"
  shows "ucast v AND (0x80 :: u8) = 0" "ucast (ucast v AND (0x7F :: u8)) = v"
proof -
  have "v = take_bit 7 v" using assms by (simp add: take_bit_eq_mod mod_word_less)
  then have b: "bit v n \<Longrightarrow> n < 7" for n by (metis bit_take_bit_iff)
  have m: "(0x7F :: u8) = mask 7" by (simp add: mask_eq_exp_minus_1)
  show "ucast v AND (0x80 :: u8) = 0" unfolding m by (rule bit_word_eqI) (auto simp: bit_simps bit_0x80 dest: b)
  show "ucast (ucast v AND (0x7F :: u8)) = v" unfolding m by (rule bit_word_eqI) (auto simp: bit_simps bit_0x80 dest: b)
qed

lemma continued_byte:
  "(ucast v OR 0x80 :: u8) AND 0x80 \<noteq> 0" "ucast ((ucast (v :: u64) OR 0x80 :: u8) AND 0x7F) = take_bit 7 v"
proof -
  have m: "(0x7F :: u8) = mask 7" by (simp add: mask_eq_exp_minus_1)
  have "(ucast v OR 0x80 :: u8) AND 0x80 = 0x80" by (simp add: bit.conj_disj_distrib2 or.commute)
  then show "(ucast v OR 0x80 :: u8) AND 0x80 \<noteq> 0" by simp
  show "ucast ((ucast v OR 0x80 :: u8) AND 0x7F) = take_bit 7 v"
    unfolding m by (rule bit_word_eqI) (auto simp: bit_simps bit_0x80)
qed

lemma uleb_loop_stored:
  assumes "stored m p (to_uleb v)" "s < 64" "drop_bit (64 - s) v = 0"
  shows "\<exists>s' b. uleb_loop m p a s = Some (a OR push_bit s v, s', b, p + of_nat (length (to_uleb v)))"
  using assms
proof (induction v arbitrary: p s a rule: to_uleb.induct)
  case (1 v)
  show ?case
  proof (cases "v < 128")
    case True
    then have "m p = ucast v" using 1(2) by (simp add: to_uleb.simps [of v])
    then show ?thesis using True 1(3) small_byte [OF True]
      by (simp add: uleb_loop.simps [of m p] to_uleb.simps [of v] Let_def)
  next
    case False
    have s: "s + 7 < 64"
    proof (rule ccontr)
      assume "\<not> s + 7 < 64"
      then have "drop_bit 7 v = drop_bit (7 - (64 - s)) (drop_bit (64 - s) v)" using 1(3) by (simp add: drop_bit_drop_bit)
      then have "drop_bit 7 v = 0" using 1(4) by simp
      moreover have "unat (drop_bit 7 v) = unat v div 128" by (simp add: drop_bit_eq_div unat_div)
      ultimately have "unat v div 128 = 0" by simp
      then show False using False by (simp add: word_less_nat_alt)
    qed
    have st: "m p = ucast v OR 0x80" "stored m (p + 1) (to_uleb (drop_bit 7 v))"
      using 1(2) False by (simp_all add: to_uleb.simps [of v])
    have "drop_bit (64 - (s + 7)) (drop_bit 7 v) = 0" using 1(4) s by (simp add: drop_bit_drop_bit)
    then obtain s' b where u: "uleb_loop m (p + 1) (a OR push_bit s (take_bit 7 v)) (s + 7)
        = Some ((a OR push_bit s (take_bit 7 v)) OR push_bit (s + 7) (drop_bit 7 v), s', b, p + 1 + of_nat (length (to_uleb (drop_bit 7 v))))"
      using 1(1) [OF False st(2) s] by blast
    have "push_bit s (take_bit 7 v) OR push_bit (s + 7) (drop_bit 7 v) = push_bit s v"
    proof (rule bit_word_eqI)
      fix n
      show "bit (push_bit s (take_bit 7 v) OR push_bit (s + 7) (drop_bit 7 v)) n = bit (push_bit s v) n"
      proof (cases "n < s + 7")
        case False
        then have "7 + (n - (s + 7)) = n - s" "s \<le> n" "\<not> n - s < 7" by auto
        then show ?thesis using False by (auto simp: bit_simps)
      qed (auto simp: bit_simps)
    qed
    then show ?thesis using u False st(1) 1(3) continued_byte [of v]
      by (simp add: uleb_loop.simps [of m p] to_uleb.simps [of v] Let_def or.assoc add.assoc)
  qed
qed

lemma read_uleb_stored:
  assumes "stored m p (to_uleb v)"
  shows "read_uleb m p = Some (v, p + of_nat (length (to_uleb v)))"
proof -
  have "drop_bit 64 v = 0" by (rule bit_word_eqI) (auto simp: bit_drop_bit_eq dest: bit_imp_le_length)
  then show ?thesis using uleb_loop_stored [OF assms, of 0 0] by (auto simp: read_uleb_def)
qed

text \<open>Signed numbers of variable length, in two's complement.\<close>

function to_sleb :: "int \<Rightarrow> u8 list" where
  "to_sleb v = (if - 64 \<le> v \<and> v < 64 then [word_of_int (take_bit 7 v)]
     else (word_of_int (take_bit 7 v) OR 0x80) # to_sleb (drop_bit 7 v))"
  by pat_completeness auto
termination
proof (relation "measure (\<lambda>v. nat \<bar>v\<bar>)")
  fix v :: int
  assume "\<not> (- 64 \<le> v \<and> v < 64)"
  then have "\<bar>v div 128\<bar> < \<bar>v\<bar>" by linarith
  then show "(drop_bit 7 v, v) \<in> measure (\<lambda>v. nat \<bar>v\<bar>)" by (simp add: drop_bit_eq_div)
qed simp

declare to_sleb.simps [simp del]

lemma to_sleb_nonempty [simp]: "to_sleb v \<noteq> []"
  by (subst to_sleb.simps) simp

lemma sleb_last_bits:
  assumes "- 64 \<le> v" and "v < (64 :: int)"
  shows "6 \<le> n \<Longrightarrow> bit v n \<longleftrightarrow> v < 0"
proof -
  assume n: "6 \<le> n"
  have "signed_take_bit 6 v = v" using assms by (intro signed_take_bit_int_eq_self) simp_all
  moreover have "bit (signed_take_bit 6 v) n \<longleftrightarrow> bit v 6" using n by (auto simp: bit_signed_take_bit_iff min_def)
  moreover have "signed_take_bit 6 v < 0 \<longleftrightarrow> bit v 6" by (rule signed_take_bit_negative_iff)
  ultimately show "bit v n \<longleftrightarrow> v < 0" by simp
qed

definition sign_extended :: "u64 \<Rightarrow> nat \<Rightarrow> u8 \<Rightarrow> u64" where
  "sign_extended x s b = (if s < 64 \<and> b AND 0x40 \<noteq> 0 then x OR (- push_bit s 1) else x)"

lemma ones_above: "(- push_bit k 1 :: u64) = NOT (mask k)"
  by (simp add: push_bit_eq_mult minus_exp_eq_not_mask)

lemma bit_0x40: "bit (0x40 :: int) n \<longleftrightarrow> n = 6"
  using bit_exp_iff [of 6 n, where 'a = int] by auto

lemma last_sleb_byte:
  fixes v :: int and b :: u8
  assumes "- 64 \<le> v" and "v < 64" and "b = word_of_int (take_bit 7 v)"
  shows "b AND 0x80 = 0" "ucast (b AND 0x7F) = (word_of_int (take_bit 7 v) :: u64)" "b AND 0x40 \<noteq> 0 \<longleftrightarrow> v < 0"
proof -
  have m: "(0x7F :: u8) = mask 7" by (simp add: mask_eq_exp_minus_1)
  show "b AND 0x80 = 0" unfolding assms(3) by (rule bit_word_eqI) (auto simp: bit_simps bit_word_of_int_iff bit_0x80)
  show "ucast (b AND 0x7F) = (word_of_int (take_bit 7 v) :: u64)"
    unfolding m assms(3) by (rule bit_word_eqI) (auto simp: bit_simps bit_word_of_int_iff)
  have "b AND 0x40 \<noteq> 0 \<longleftrightarrow> bit b 6"
    by (auto simp: bit_eq_iff [of "b AND _"] bit_simps bit_0x40)
  also have "\<dots> \<longleftrightarrow> bit v 6" unfolding assms(3) by (auto simp: bit_simps bit_word_of_int_iff)
  also have "\<dots> \<longleftrightarrow> v < 0" by (rule sleb_last_bits [OF assms(1,2)]) simp
  finally show "b AND 0x40 \<noteq> 0 \<longleftrightarrow> v < 0" .
qed

lemma sign_extended_last:
  assumes v: "- 64 \<le> v" "v < 64" and b: "b AND 0x40 \<noteq> 0 \<longleftrightarrow> v < 0"
  shows "sign_extended (a OR push_bit s (word_of_int (take_bit 7 v))) (s + 7) b = a OR push_bit s (word_of_int v)"
proof (rule bit_word_eqI)
  fix n
  assume n: "n < LENGTH(64)"
  have above: "bit v (n - s) \<longleftrightarrow> v < 0" if "s + 7 \<le> n" using sleb_last_bits [OF v, of "n - s"] that by simp
  show "bit (sign_extended (a OR push_bit s (word_of_int (take_bit 7 v))) (s + 7) b) n = bit (a OR push_bit s (word_of_int v)) n"
    using n above b
    by (cases "s + 7 \<le> n") (auto simp: sign_extended_def ones_above bit_simps bit_word_of_int_iff simp del: push_bit_of_1)
qed

lemma sleb_loop_stored:
  assumes "stored m p (to_sleb v)" "s < 64" "- (2 ^ (63 - s)) \<le> v" "v < 2 ^ (63 - s)"
  shows "\<exists>x s' b. uleb_loop m p a s = Some (x, s', b, p + of_nat (length (to_sleb v)))
    \<and> sign_extended x s' b = a OR push_bit s (word_of_int v)"
  using assms
proof (induction v arbitrary: p s a rule: to_sleb.induct)
  case (1 v)
  show ?case
  proof (cases "- 64 \<le> v \<and> v < 64")
    case True
    then have b: "m p = word_of_int (take_bit 7 v)" using 1(2) by (simp add: to_sleb.simps [of v])
    note l = last_sleb_byte [OF _ _ b] 
    show ?thesis using True 1(3) l sign_extended_last [of v "m p" a s]
      by (simp add: uleb_loop.simps [of m p] to_sleb.simps [of v] Let_def)
  next
    case False
    have s: "s + 7 < 64"
    proof (rule ccontr)
      assume "\<not> s + 7 < 64"
      then have "(2 :: int) ^ (63 - s) \<le> 2 ^ 6" by (intro power_increasing) simp_all
      then show False using False 1(4,5) by simp
    qed
    have st: "m p = word_of_int (take_bit 7 v) OR 0x80" "stored m (p + 1) (to_sleb (drop_bit 7 v))"
      using 1(2) False by (simp_all add: to_sleb.simps [of v])
    have "(2 :: int) ^ (63 - s) = 128 * 2 ^ (63 - (s + 7))"
      using s power_add [of "2 :: int" 7 "63 - (s + 7)"] by (simp add: algebra_simps)
    then have r: "- (2 ^ (63 - (s + 7))) \<le> drop_bit 7 v" "drop_bit 7 v < 2 ^ (63 - (s + 7))"
      using 1(4,5) by (simp_all add: drop_bit_eq_div)
    have c: "m p AND 0x80 \<noteq> 0" "ucast (m p AND 0x7F) = (word_of_int (take_bit 7 v) :: u64)"
    proof -
      have q: "(0x7F :: u8) = mask 7" by (simp add: mask_eq_exp_minus_1)
      have "bit (m p AND 0x80) 7" unfolding st(1) by (simp add: bit_simps bit_0x80)
      then show "m p AND 0x80 \<noteq> 0" by auto
      show "ucast (m p AND 0x7F) = (word_of_int (take_bit 7 v) :: u64)"
        unfolding st(1) q by (rule bit_word_eqI) (auto simp: bit_simps bit_word_of_int_iff bit_0x80)
    qed
    have j: "push_bit s (word_of_int (take_bit 7 v)) OR push_bit (s + 7) (word_of_int (drop_bit 7 v)) = push_bit s (word_of_int v :: u64)"
    proof (rule bit_word_eqI)
      fix n
      show "bit (push_bit s (word_of_int (take_bit 7 v)) OR push_bit (s + 7) (word_of_int (drop_bit 7 v)) :: u64) n
        = bit (push_bit s (word_of_int v :: u64)) n"
      proof (cases "n < s + 7")
        case False
        then have "7 + (n - (s + 7)) = n - s" "s \<le> n" "\<not> n - s < 7" by auto
        then show ?thesis using False by (auto simp: bit_simps bit_word_of_int_iff)
      qed (auto simp: bit_simps bit_word_of_int_iff)
    qed
    show ?thesis
      using 1(1) [OF False st(2) s r, of "a OR push_bit s (word_of_int (take_bit 7 v))"] False c 1(3) j
      by (auto simp: uleb_loop.simps [of m p] to_sleb.simps [of v] Let_def or.assoc add.assoc)
  qed
qed

lemma read_sleb_stored:
  assumes "stored m p (to_sleb v)" "- (2 ^ 63) \<le> v" "v < 2 ^ 63"
  shows "read_sleb m p = Some (word_of_int v, p + of_nat (length (to_sleb v)))"
  using sleb_loop_stored [OF assms(1), of 0 0] assms(2,3) by (auto simp: read_sleb_def sign_extended_def)

section \<open>Instructions\<close>

datatype cfi_instr =
  Nop
| AdvanceLoc u8
| AdvanceLoc1 u8
| AdvanceLoc2 u16
| AdvanceLoc4 u32
| Offset u8 u64
| OffsetExtended u64 u64
| Restore u8
| Undefined u64
| SameValue u64
| InRegister u64 u64
| RememberState
| RestoreState
| DefCfa u64 u64
| DefCfaRegister u64
| DefCfaOffset u64
| ValOffset u64 u64
| DefCfaExpression "u8 list"
| SetLoc u64
| RestoreExtended u64
| DefCfaSf u64 int
| DefCfaOffsetSf int
| OffsetExtendedSf u64 int
| ValOffsetSf u64 int
| ArgsSize u64
| NegativeOffset u64 u64

primrec encode_cfi :: "cfi_instr \<Rightarrow> u8 list" where
  "encode_cfi Nop = [0]"
| "encode_cfi (AdvanceLoc d) = [0x40 OR d]"
| "encode_cfi (AdvanceLoc1 d) = [0x02, d]"
| "encode_cfi (AdvanceLoc2 d) = 0x03 # to_bytes 2 (ucast d)"
| "encode_cfi (AdvanceLoc4 d) = 0x04 # to_bytes 4 (ucast d)"
| "encode_cfi (Offset r n) = (0x80 OR r) # to_uleb n"
| "encode_cfi (OffsetExtended r n) = 0x05 # to_uleb r @ to_uleb n"
| "encode_cfi (Restore r) = [0xC0 OR r]"
| "encode_cfi (Undefined r) = 0x07 # to_uleb r"
| "encode_cfi (SameValue r) = 0x08 # to_uleb r"
| "encode_cfi (InRegister r q) = 0x09 # to_uleb r @ to_uleb q"
| "encode_cfi RememberState = [0x0A]"
| "encode_cfi RestoreState = [0x0B]"
| "encode_cfi (DefCfa r n) = 0x0C # to_uleb r @ to_uleb n"
| "encode_cfi (DefCfaRegister r) = 0x0D # to_uleb r"
| "encode_cfi (DefCfaOffset n) = 0x0E # to_uleb n"
| "encode_cfi (ValOffset r n) = 0x14 # to_uleb r @ to_uleb n"
| "encode_cfi (DefCfaExpression bs) = 0x0F # to_uleb (of_nat (length bs)) @ bs"
| "encode_cfi (SetLoc a) = 0x01 # to_bytes 8 a"
| "encode_cfi (RestoreExtended r) = 0x06 # to_uleb r"
| "encode_cfi (DefCfaSf r n) = 0x12 # to_uleb r @ to_sleb n"
| "encode_cfi (DefCfaOffsetSf n) = 0x13 # to_sleb n"
| "encode_cfi (OffsetExtendedSf r n) = 0x11 # to_uleb r @ to_sleb n"
| "encode_cfi (ValOffsetSf r n) = 0x15 # to_uleb r @ to_sleb n"
| "encode_cfi (ArgsSize n) = 0x2E # to_uleb n"
| "encode_cfi (NegativeOffset r n) = 0x2F # to_uleb r @ to_uleb n"

text \<open>Operands that fit their encoding: those that share a byte with the operation have six bits, signed ones are in the
  range of 64 bits, and a location is a plain address of eight bytes.\<close>

fun fits :: "cfi_env \<Rightarrow> cfi_instr \<Rightarrow> bool" where
  "fits e (AdvanceLoc d) \<longleftrightarrow> d < 64"
| "fits e (Offset r n) \<longleftrightarrow> r < 64"
| "fits e (Restore r) \<longleftrightarrow> r < 64"
| "fits e (SetLoc a) \<longleftrightarrow> env_enc e = 0"
| "fits e (DefCfaSf r n) \<longleftrightarrow> - (2 ^ 63) \<le> n \<and> n < 2 ^ 63"
| "fits e (DefCfaOffsetSf n) \<longleftrightarrow> - (2 ^ 63) \<le> n \<and> n < 2 ^ 63"
| "fits e (OffsetExtendedSf r n) \<longleftrightarrow> - (2 ^ 63) \<le> n \<and> n < 2 ^ 63"
| "fits e (ValOffsetSf r n) \<longleftrightarrow> - (2 ^ 63) \<le> n \<and> n < 2 ^ 63"
| "fits e _ \<longleftrightarrow> True"

text \<open>What the machine makes of an instruction, on its state and its stack of saved states.  A move of the location past
  the target ends the run.\<close>

definition advance :: "cfi_env \<Rightarrow> u64 \<Rightarrow> cfi_state \<times> cfi_state list \<Rightarrow> bool \<times> cfi_state \<times> cfi_state list" where
  "advance e d x = (case x of (st, saved) \<Rightarrow>
     (env_target e < loc st + d * env_ca e, st\<lparr>loc := loc st + d * env_ca e\<rparr>, saved))"

primrec effect :: "cfi_env \<Rightarrow> cfi_instr \<Rightarrow> cfi_state \<times> cfi_state list \<Rightarrow> bool \<times> cfi_state \<times> cfi_state list" where
  "effect e Nop x = (False, x)"
| "effect e (AdvanceLoc d) x = advance e (ucast d) x"
| "effect e (AdvanceLoc1 d) x = advance e (ucast d) x"
| "effect e (AdvanceLoc2 d) x = advance e (ucast d) x"
| "effect e (AdvanceLoc4 d) x = advance e (ucast d) x"
| "effect e (Offset r n) x = (False, on_rule r (set_offset_rule (n * env_da e)) (fst x), snd x)"
| "effect e (OffsetExtended r n) x = (False, on_rule (ucast r) (set_offset_rule (n * env_da e)) (fst x), snd x)"
| "effect e (Restore r) x = (False, on_rule r (rule_k_update (\<lambda>_. RU_UNDEF)) (fst x), snd x)"
| "effect e (Undefined r) x = (False, on_rule (ucast r) (rule_k_update (\<lambda>_. RU_UNDEF)) (fst x), snd x)"
| "effect e (SameValue r) x = (False, on_rule (ucast r) (rule_k_update (\<lambda>_. RU_SAME)) (fst x), snd x)"
| "effect e (InRegister r q) x =
     (False, on_rule (ucast r) (\<lambda>rl. rl\<lparr>rule_k := RU_REG, rule_reg := ucast q\<rparr>) (fst x), snd x)"
| "effect e RememberState x = (False, fst x, if length (snd x) < 8 then fst x # snd x else snd x)"
| "effect e RestoreState x = (False, case snd x of [] \<Rightarrow> x | st # saved \<Rightarrow> (st, saved))"
| "effect e (DefCfa r n) x = (False, (fst x)\<lparr>cfa_reg := ucast r, cfa_off := n\<rparr>, snd x)"
| "effect e (DefCfaRegister r) x = (False, (fst x)\<lparr>cfa_reg := ucast r\<rparr>, snd x)"
| "effect e (DefCfaOffset n) x = (False, (fst x)\<lparr>cfa_off := n\<rparr>, snd x)"
| "effect e (ValOffset r n) x = (False, on_rbp_value (ucast r) (n * env_da e) (fst x), snd x)"
| "effect e (DefCfaExpression bs) x = (False, x)"
| "effect e (SetLoc a) x = (env_target e < a, (fst x)\<lparr>loc := a\<rparr>, snd x)"
| "effect e (RestoreExtended r) x = (False, on_rule (ucast r) (rule_k_update (\<lambda>_. RU_UNDEF)) (fst x), snd x)"
| "effect e (DefCfaSf r n) x = (False, (fst x)\<lparr>cfa_reg := ucast r, cfa_off := word_of_int n * env_da e\<rparr>, snd x)"
| "effect e (DefCfaOffsetSf n) x = (False, (fst x)\<lparr>cfa_off := word_of_int n * env_da e\<rparr>, snd x)"
| "effect e (OffsetExtendedSf r n) x = (False, on_rule (ucast r) (set_offset_rule (word_of_int n * env_da e)) (fst x), snd x)"
| "effect e (ValOffsetSf r n) x = (False, on_rbp_value (ucast r) (word_of_int n * env_da e) (fst x), snd x)"
| "effect e (ArgsSize n) x = (False, x)"
| "effect e (NegativeOffset r n) x = (False, on_rule (ucast r) (set_offset_rule (- n * env_da e)) (fst x), snd x)"

fun run_cfi :: "cfi_env \<Rightarrow> cfi_instr list \<Rightarrow> cfi_state \<times> cfi_state list \<Rightarrow> cfi_state" where
  "run_cfi e [] x = fst x"
| "run_cfi e (i # is) x = (case effect e i x of (stop, y) \<Rightarrow> if stop then fst y else run_cfi e is y)"

lemma six_bits:
  assumes "(d :: u8) < 64"
  shows "(0x40 OR d) AND 0xC0 = 0x40" "(0x80 OR d) AND 0xC0 = 0x80" "(0xC0 OR d) AND 0xC0 = 0xC0"
    "(0x40 OR d) AND 0x3F = d" "(0x80 OR d) AND 0x3F = d" "(0xC0 OR d) AND 0x3F = d"
    "0x40 OR d \<noteq> 0" "0x80 OR d \<noteq> 0" "0xC0 OR d \<noteq> 0"
proof -
  have "d = take_bit 6 d" using assms by (simp add: take_bit_eq_mod mod_word_less)
  then have d: "d = d AND 0x3F" by (simp add: take_bit_eq_mask mask_eq_exp_minus_1)
  then have "d AND 0xC0 = d AND (0x3F AND 0xC0)" by (metis and.assoc)
  then have c: "d AND 0xC0 = 0" by simp
  show x: "(0x40 OR d) AND 0xC0 = 0x40" "(0x80 OR d) AND 0xC0 = 0x80" "(0xC0 OR d) AND 0xC0 = 0xC0"
    "(0x40 OR d) AND 0x3F = d" "(0x80 OR d) AND 0x3F = d" "(0xC0 OR d) AND 0x3F = d"
    using c d by (simp_all add: bit.conj_disj_distrib2)
  show "0x40 OR d \<noteq> 0" "0x80 OR d \<noteq> 0" "0xC0 OR d \<noteq> 0" using x by auto
qed

lemma cfi_op_stored:
  assumes "stored m p (encode_cfi i)" "fits e i"
  shows "cfi_op m e st saved p = (case effect e i (st, saved) of (stop, st', saved') \<Rightarrow>
    Some (stop, st', saved', p + of_nat (length (encode_cfi i))))"
proof (cases i)
  case RestoreState
  then show ?thesis using assms by (cases saved) (simp_all add: cfi_op_def ext_op_def Let_def)
qed (use assms in \<open>auto dest!: read_uleb_stored read_sleb_stored stored_fields simp: read_enc_def cfi_op_def ext_op_def Let_def six_bits move_loc_def
      advance_def STK_MAX_def add.assoc\<close>)

lemma encode_cfi_length: "0 < length (encode_cfi i)"
  by (cases i) auto

lemma exec_cfi_program:
  assumes "stored m p (concat (map encode_cfi is))" "list_all (fits e) is"
    "unat p + length (concat (map encode_cfi is)) < 2 ^ 64"
  shows "exec_cfi m e p (p + of_nat (length (concat (map encode_cfi is)))) start st
    = Some (run_cfi e is (st\<lparr>loc := start\<rparr>, []))"
proof -
  have "cfi_loop m e (p + of_nat (length (concat (map encode_cfi is)))) st saved p = Some (run_cfi e is (st, saved))"
    for st saved
    using assms
  proof (induction "is" arbitrary: st saved p)
    case Nil
    then show ?case by (simp add: cfi_loop.simps)
  next
    case (Cons i "is")
    let ?n = "length (encode_cfi i)" and ?cs = "concat (map encode_cfi is)"
    have "unat (p + of_nat (?n + length ?cs)) = unat p + (?n + length ?cs)"
      using Cons.prems(3) by (simp add: unat_word_ariths unat_of_nat)
    then have lt: "p < p + of_nat (?n + length ?cs)" using encode_cfi_length [of i] by (simp add: word_less_nat_alt)
    have "unat (p + of_nat ?n) = unat p + ?n" using Cons.prems(3) by (simp add: unat_word_ariths unat_of_nat)
    then have b: "unat (p + of_nat ?n) + length ?cs < 2 ^ 64" using Cons.prems(3) by simp
    have s: "stored m p (encode_cfi i)" "stored m (p + of_nat ?n) ?cs" "fits e i" "list_all (fits e) is"
      using Cons.prems(1,2) by simp_all
    obtain stop st' saved' where ef: "effect e i (st, saved) = (stop, st', saved')" by (metis prod_cases3)
    note IH = Cons.IH [OF s(2,4) b, of st' saved']
    show ?case using lt IH cfi_op_stored [OF s(1,3), of st saved] ef
      by (subst cfi_loop.simps) (simp add: add.assoc)
  qed
  then show ?thesis by (simp add: exec_cfi_def)
qed

section \<open>Rows of DWARF\<close>

text \<open>The rows that the instructions build, as the DWARF standard has them: how to find the frame address and, for
  every register, how to find its value in the caller.\<close>

datatype dw_rule = DwUndefined | DwSame | DwOffset u64 | DwValOffset u64 | DwRegister u64

record dw_row =
  dw_cfa_reg :: u64
  dw_cfa_off :: u64
  dw_rules :: "u64 \<Rightarrow> dw_rule"

definition dw_set :: "u64 \<Rightarrow> dw_rule \<Rightarrow> dw_row \<Rightarrow> dw_row" where
  "dw_set r d row = row\<lparr>dw_rules := (dw_rules row)(r := d)\<rparr>"

fun dw_move :: "u64 \<Rightarrow> cfi_instr \<Rightarrow> u64 \<Rightarrow> u64 option" where
  "dw_move ca (AdvanceLoc d) l = Some (l + ucast d * ca)"
| "dw_move ca (AdvanceLoc1 d) l = Some (l + ucast d * ca)"
| "dw_move ca (AdvanceLoc2 d) l = Some (l + ucast d * ca)"
| "dw_move ca (AdvanceLoc4 d) l = Some (l + ucast d * ca)"
| "dw_move ca (SetLoc a) l = Some a"
| "dw_move ca _ l = None"

text \<open>\<open>init\<close> has the rules of the shared entry, \<open>da\<close> is the factor of the offsets.\<close>

fun dw_step :: "u64 \<Rightarrow> (u64 \<Rightarrow> dw_rule) \<Rightarrow> cfi_instr \<Rightarrow> dw_row \<Rightarrow> dw_row" where
  "dw_step da init (Offset r n) row = dw_set (ucast r) (DwOffset (n * da)) row"
| "dw_step da init (OffsetExtended r n) row = dw_set r (DwOffset (n * da)) row"
| "dw_step da init (OffsetExtendedSf r n) row = dw_set r (DwOffset (word_of_int n * da)) row"
| "dw_step da init (NegativeOffset r n) row = dw_set r (DwOffset (- (n * da))) row"
| "dw_step da init (ValOffset r n) row = dw_set r (DwValOffset (n * da)) row"
| "dw_step da init (ValOffsetSf r n) row = dw_set r (DwValOffset (word_of_int n * da)) row"
| "dw_step da init (Undefined r) row = dw_set r DwUndefined row"
| "dw_step da init (SameValue r) row = dw_set r DwSame row"
| "dw_step da init (InRegister r q) row = dw_set r (DwRegister q) row"
| "dw_step da init (Restore r) row = dw_set (ucast r) (init (ucast r)) row"
| "dw_step da init (RestoreExtended r) row = dw_set r (init r) row"
| "dw_step da init (DefCfa r n) row = row\<lparr>dw_cfa_reg := r, dw_cfa_off := n\<rparr>"
| "dw_step da init (DefCfaSf r n) row = row\<lparr>dw_cfa_reg := r, dw_cfa_off := word_of_int n * da\<rparr>"
| "dw_step da init (DefCfaRegister r) row = row\<lparr>dw_cfa_reg := r\<rparr>"
| "dw_step da init (DefCfaOffset n) row = row\<lparr>dw_cfa_off := n\<rparr>"
| "dw_step da init (DefCfaOffsetSf n) row = row\<lparr>dw_cfa_off := word_of_int n * da\<rparr>"
| "dw_step da init _ row = row"

text \<open>The row for an address: the one in force when the location would pass it.  Remembered rows do not have a location.\<close>

fun dw_run :: "cfi_env \<Rightarrow> (u64 \<Rightarrow> dw_rule) \<Rightarrow> cfi_instr list \<Rightarrow> u64 \<Rightarrow> dw_row \<Rightarrow> dw_row list \<Rightarrow> dw_row" where
  "dw_run e init [] l row rows = row"
| "dw_run e init (RememberState # is) l row rows = dw_run e init is l row (row # rows)"
| "dw_run e init (RestoreState # is) l row rows =
     (case rows of [] \<Rightarrow> dw_run e init is l row [] | row' # rows' \<Rightarrow> dw_run e init is l row' rows')"
| "dw_run e init (i # is) l row rows =
     (case dw_move (env_ca e) i l of
        Some l' \<Rightarrow> if env_target e < l' then row else dw_run e init is l' row rows
      | None \<Rightarrow> dw_run e init is l (dw_step (env_da e) init i row) rows)"

text \<open>The machine follows the rules of the return address, register 16, and of \<open>rbp\<close>, register 6.\<close>

fun rule_is :: "RRule \<Rightarrow> dw_rule \<Rightarrow> bool" where
  "rule_is rl DwUndefined \<longleftrightarrow> rule_k rl = RU_UNDEF"
| "rule_is rl DwSame \<longleftrightarrow> rule_k rl = RU_SAME"
| "rule_is rl (DwOffset n) \<longleftrightarrow> rule_k rl = RU_OFFSET \<and> rule_off rl = n"
| "rule_is rl (DwValOffset n) \<longleftrightarrow> rule_k rl = RU_VALOFF \<and> rule_off rl = n"
| "rule_is rl (DwRegister q) \<longleftrightarrow> rule_k rl = RU_REG \<and> ucast (rule_reg rl) = q"

definition follows :: "cfi_state \<Rightarrow> dw_row \<Rightarrow> bool" where
  "follows st row \<longleftrightarrow> ucast (cfa_reg st) = dw_cfa_reg row \<and> cfa_off st = dw_cfa_off row
     \<and> rule_is (ra_rule st) (dw_rules row 16) \<and> rule_is (rbp_rule st) (dw_rules row 6)"

text \<open>The instructions for which it follows the standard: registers have numbers below 256, a restored rule of the two
  registers was undefined, the return address has no value offset, and the frame address is not an expression.\<close>

fun dw_supported :: "(u64 \<Rightarrow> dw_rule) \<Rightarrow> cfi_instr \<Rightarrow> bool" where
  "dw_supported init (OffsetExtended r n) \<longleftrightarrow> r < 256"
| "dw_supported init (OffsetExtendedSf r n) \<longleftrightarrow> r < 256"
| "dw_supported init (NegativeOffset r n) \<longleftrightarrow> r < 256"
| "dw_supported init (ValOffset r n) \<longleftrightarrow> r < 256 \<and> r \<noteq> 16"
| "dw_supported init (ValOffsetSf r n) \<longleftrightarrow> r < 256 \<and> r \<noteq> 16"
| "dw_supported init (Undefined r) \<longleftrightarrow> r < 256"
| "dw_supported init (SameValue r) \<longleftrightarrow> r < 256"
| "dw_supported init (InRegister r q) \<longleftrightarrow> r < 256 \<and> q < 256"
| "dw_supported init (Restore r) \<longleftrightarrow> (r = 6 \<or> r = 16 \<longrightarrow> init (ucast r) = DwUndefined)"
| "dw_supported init (RestoreExtended r) \<longleftrightarrow> r < 256 \<and> (r = 6 \<or> r = 16 \<longrightarrow> init r = DwUndefined)"
| "dw_supported init (DefCfa r n) \<longleftrightarrow> r < 256"
| "dw_supported init (DefCfaSf r n) \<longleftrightarrow> r < 256"
| "dw_supported init (DefCfaRegister r) \<longleftrightarrow> r < 256"
| "dw_supported init (DefCfaExpression bs) \<longleftrightarrow> False"
| "dw_supported init _ \<longleftrightarrow> True"

text \<open>Up to the target, a state is only restored at the location where it was remembered, and at most eight are
  remembered at a time.\<close>

fun dw_plain :: "cfi_env \<Rightarrow> (u64 \<Rightarrow> dw_rule) \<Rightarrow> cfi_instr list \<Rightarrow> u64 \<Rightarrow> u64 list \<Rightarrow> bool" where
  "dw_plain e init [] l ls \<longleftrightarrow> True"
| "dw_plain e init (RememberState # is) l ls \<longleftrightarrow> length ls < 8 \<and> dw_plain e init is l (l # ls)"
| "dw_plain e init (RestoreState # is) l ls \<longleftrightarrow> ls \<noteq> [] \<and> hd ls = l \<and> dw_plain e init is l (tl ls)"
| "dw_plain e init (i # is) l ls \<longleftrightarrow> dw_supported init i \<and>
     (case dw_move (env_ca e) i l of
        Some l' \<Rightarrow> env_target e < l' \<or> dw_plain e init is l' ls
      | None \<Rightarrow> dw_plain e init is l ls)"

lemma small_register:
  assumes "(r :: u64) < 256"
  shows "ucast (ucast r :: u8) = r" "ucast r = (16 :: u8) \<longleftrightarrow> r = 16" "ucast r = (6 :: u8) \<longleftrightarrow> r = 6"
proof -
  have "unat r < 256" using assms by (simp add: word_less_nat_alt)
  then have u: "unat (ucast r :: u8) = unat r" by (simp add: unsigned_ucast_eq take_bit_nat_eq_self)
  have "take_bit 8 r = r" using assms by (simp add: take_bit_eq_mod mod_word_less)
  moreover have "ucast (ucast r :: u8) = take_bit 8 r" by (rule bit_word_eqI) (auto simp: bit_simps)
  ultimately show "ucast (ucast r :: u8) = r" by simp
  show "ucast r = (16 :: u8) \<longleftrightarrow> r = 16" "ucast r = (6 :: u8) \<longleftrightarrow> r = 6"
    using u by (simp_all only: word_unat_eq_iff) simp_all
qed

lemma follows_set:
  assumes "follows st row" and "\<And>rl. rule_is (f rl) d" and "r < 256"
  shows "follows (on_rule (ucast r) f st) (dw_set r d row)" "loc (on_rule (ucast r) f st) = loc st"
  using assms small_register(2,3) [OF assms(3)]
  by (auto simp: follows_def on_rule_def dw_set_def DW_REG_RA_def DW_REG_RBP_def)

lemma byte_back: "ucast (ucast (r :: u8) :: u64) = r"
  by (rule bit_word_eqI) (auto simp: bit_simps)

lemma follows_set_byte:
  assumes "follows st row" and "\<And>rl. rule_is (f rl) d"
  shows "follows (on_rule r f st) (dw_set (ucast r) d row)" "loc (on_rule r f st) = loc st"
proof -
  have "(ucast r :: u64) < 256" using unsigned_less [where 'a = nat and w = r] by (simp add: word_less_nat_alt unsigned_ucast_eq take_bit_nat_eq_self)
  then show "follows (on_rule r f st) (dw_set (ucast r) d row)" "loc (on_rule r f st) = loc st"
    using follows_set [OF assms, of "ucast r"] unfolding byte_back by simp_all
qed

lemma follows_value:
  assumes "follows st row" and "r < 256" and "r \<noteq> 16"
  shows "follows (on_rbp_value (ucast r) n st) (dw_set r (DwValOffset n) row)" "loc (on_rbp_value (ucast r) n st) = loc st"
  using assms small_register(2,3) [OF assms(2)]
  by (auto simp: follows_def on_rbp_value_def dw_set_def DW_REG_RBP_def)

lemma follows_cfa:
  assumes "follows st row"
  shows "r < 256 \<Longrightarrow> follows (st\<lparr>cfa_reg := ucast r\<rparr>) (row\<lparr>dw_cfa_reg := r\<rparr>)"
    "follows (st\<lparr>cfa_off := n\<rparr>) (row\<lparr>dw_cfa_off := n\<rparr>)"
    "r < 256 \<Longrightarrow> follows (st\<lparr>cfa_reg := ucast r, cfa_off := n\<rparr>) (row\<lparr>dw_cfa_reg := r, dw_cfa_off := n\<rparr>)"
  using assms small_register(1) [of r] by (simp_all add: follows_def)

lemma loc_rules: "loc (on_rule r f st) = loc st" "loc (on_rbp_value r n st) = loc st"
  by (simp_all add: on_rule_def on_rbp_value_def)

lemma follows_step:
  assumes f: "follows st row" and s: "dw_supported init i" and m: "dw_move (env_ca e) i l = None"
    and i: "i \<noteq> RememberState" "i \<noteq> RestoreState"
  shows "\<exists>st'. effect e i (st, saved) = (False, st', saved) \<and> follows st' (dw_step (env_da e) init i row) \<and> loc st' = loc st"
proof (cases i)
  case (Restore r)
  show ?thesis
  proof (cases "r = 6 \<or> r = 16")
    case True
    then have "init (ucast r) = DwUndefined" using s Restore by simp
    then show ?thesis using follows_set_byte [OF f, of "rule_k_update (\<lambda>_. RU_UNDEF)" DwUndefined r] Restore by simp
  next
    case False
    then have "on_rule r g st = st" for g by (auto simp: on_rule_def DW_REG_RA_def DW_REG_RBP_def)
    moreover have "ucast r \<noteq> (16 :: u64)" "ucast r \<noteq> (6 :: u64)" using False byte_back [of r] by auto
    ultimately show ?thesis using f Restore by (simp add: follows_def dw_set_def)
  qed
next
  case (RestoreExtended r)
  then have r: "r < 256" using s by simp
  show ?thesis
  proof (cases "r = 6 \<or> r = 16")
    case True
    then have "init r = DwUndefined" using s RestoreExtended by simp
    then show ?thesis using follows_set [OF f _ r, of "rule_k_update (\<lambda>_. RU_UNDEF)" DwUndefined] RestoreExtended by simp
  next
    case False
    then have "on_rule (ucast r) g st = st" for g
      using small_register(2,3) [OF r] by (auto simp: on_rule_def DW_REG_RA_def DW_REG_RBP_def)
    then show ?thesis using f False RestoreExtended by (auto simp: follows_def dw_set_def)
  qed
next
  case (InRegister r q)
  then have "r < 256" "q < 256" using s by simp_all
  then show ?thesis
    using follows_set [OF f _ \<open>r < 256\<close>, of "\<lambda>rl. rl\<lparr>rule_k := RU_REG, rule_reg := ucast q\<rparr>" "DwRegister q"] small_register(1)
    by (simp add: InRegister)
qed (use s m i f in \<open>simp_all add: follows_set(1) [OF f] follows_set_byte(1) [OF f] follows_value(1) [OF f] follows_cfa [OF f]
      loc_rules set_offset_rule_def\<close>)

text \<open>A move of the location is the same for the machine.\<close>

lemma effect_move:
  assumes "dw_move (env_ca e) i (loc st) = Some l"
  shows "effect e i (st, saved) = (env_target e < l, st\<lparr>loc := l\<rparr>, saved)"
  using assms by (cases i) (auto simp: advance_def)

lemma follows_loc [simp]: "follows (st\<lparr>loc := l\<rparr>) row = follows st row"
  by (simp add: follows_def)

lemma run_cfi_follows:
  assumes "follows st row" and "list_all2 follows saved rows"
    and "dw_plain e init is (loc st) (map loc saved)"
  shows "follows (run_cfi e is (st, saved)) (dw_run e init is (loc st) row rows)"
  using assms
proof (induction "is" arbitrary: st row saved rows)
  case (Cons i "is")
  consider (rem) "i = RememberState" | (res) "i = RestoreState" | (other) "i \<noteq> RememberState" "i \<noteq> RestoreState" by blast
  then show ?case
  proof cases
    case rem
    then show ?thesis using Cons.prems Cons.IH [of st row "st # saved" "row # rows"] by simp
  next
    case res
    then obtain st' saved' where sv: "saved = st' # saved'" "loc st' = loc st" using Cons.prems(3) by (cases saved) auto
    then obtain row' rows' where "rows = row' # rows'" "follows st' row'" "list_all2 follows saved' rows'"
      using Cons.prems(2) by (cases rows) auto
    then show ?thesis using res sv Cons.prems(3) Cons.IH [of st' row' saved' rows'] by simp
  next
    case other
    then have p: "dw_supported init i \<and> (case dw_move (env_ca e) i (loc st) of
          Some l \<Rightarrow> env_target e < l \<or> dw_plain e init is l (map loc saved)
        | None \<Rightarrow> dw_plain e init is (loc st) (map loc saved))"
      using Cons.prems(3) by (cases i) simp_all
    have d: "dw_run e init (i # is) (loc st) row rows = (case dw_move (env_ca e) i (loc st) of
          Some l \<Rightarrow> if env_target e < l then row else dw_run e init is l row rows
        | None \<Rightarrow> dw_run e init is (loc st) (dw_step (env_da e) init i row) rows)"
      using other by (cases i) simp_all
    show ?thesis
    proof (cases "dw_move (env_ca e) i (loc st)")
      case None
      from follows_step [OF Cons.prems(1) _ None other, of init saved] p obtain st' where
        "effect e i (st, saved) = (False, st', saved)" "follows st' (dw_step (env_da e) init i row)" "loc st' = loc st" by blast
      then show ?thesis
        using p d None Cons.prems(2) Cons.IH [of st' "dw_step (env_da e) init i row" saved rows] by simp
    next
      case (Some l)
      then show ?thesis
        using effect_move [OF Some, of saved] p d Cons.prems(1,2) Cons.IH [of "st\<lparr>loc := l\<rparr>" row saved rows] by auto
    qed
  qed
qed simp

text \<open>C31. The machine computes the row of DWARF for the target address: executing the bytes of a program from a
  state that follows a row gives a state that follows the row which the instructions, as the standard defines
  them, have built when the location passes the target, in the frame address and the rules of the return
  address and \<open>rbp\<close>.  The program may use every instruction that the machine knows but expressions, within the
  limits of \<open>dw_supported\<close> and \<open>dw_plain\<close>: the machine restores a rule as undefined, a state with its location, and keeps
  eight states.\<close>

theorem exec_cfi_runs:
  assumes "stored m p (concat (map encode_cfi is))" "list_all (fits e) is"
    "unat p + length (concat (map encode_cfi is)) < 2 ^ 64"
    and "follows st row" and "dw_plain e init is start []"
  shows "\<exists>st'. exec_cfi m e p (p + of_nat (length (concat (map encode_cfi is)))) start st = Some st'
    \<and> follows st' (dw_run e init is start row [])"
  using exec_cfi_program [OF assms(1-3), of start st] run_cfi_follows [of "st\<lparr>loc := start\<rparr>" row "[]" "[]" e init "is"] assms(4,5)
  by simp

text \<open>The two operations with an expression for a register have the register before the length; the machine takes the
  register for the length and goes on inside the expression.\<close>

lemma expression_misread:
  assumes "m p = 0x10 \<or> m p = 0x16" and "stored m (p + 1) (to_uleb r @ to_uleb (of_nat (length bs)) @ bs)"
  shows "cfi_op m e st saved p = Some (False, st, saved, p + 1 + of_nat (length (to_uleb r)) + r)"
  using assms by (auto dest!: read_uleb_stored simp: cfi_op_def ext_op_def Let_def)

section \<open>Frames with a frame pointer\<close>

lemma frame_bound_wraps: "(0xFFFFFFFF80000000 + 0x100000000 :: u64) = 0x80000000"
  by simp

text \<open>What compilers emit for a function that saves \<open>rbp\<close> and makes it the frame pointer, in the entry that
  functions share and in its own.\<close>

definition common_program :: "cfi_instr list" where
  "common_program = [DefCfa 7 8, Offset 16 1]"

definition frame_program :: "cfi_instr list" where
  "frame_program = [AdvanceLoc 1, DefCfaOffset 16, Offset 6 2, AdvanceLoc 3, DefCfaRegister 6]"

definition initial_state :: cfi_state where
  "initial_state = \<lparr>loc = 0, cfa_reg = DW_REG_RSP, cfa_off = 0, ra_rule = initial_rule, rbp_rule = initial_rule\<rparr>"

lemma frame_program_state:
  assumes "env_ca e = 1" "env_da e = - 8" "start + 1 \<le> env_target e" "start + 4 \<le> env_target e"
  shows "run_cfi e frame_program ((run_cfi e common_program (initial_state\<lparr>loc := start\<rparr>, []))\<lparr>loc := start\<rparr>, [])
    = \<lparr>loc = start + 4, cfa_reg = 6, cfa_off = 16, ra_rule = \<lparr>rule_k = RU_OFFSET, rule_reg = 0, rule_off = - 8\<rparr>,
       rbp_rule = \<lparr>rule_k = RU_OFFSET, rule_reg = 0, rule_off = - 16\<rparr>\<rparr>"
  using assms by (simp add: frame_program_def common_program_def initial_state_def initial_rule_def advance_def on_rule_def
      set_offset_rule_def DW_REG_RA_def DW_REG_RBP_def not_less add.assoc)

text \<open>The unwinder leaves a frame with a frame pointer correctly: behind the first instructions of such a
  function it takes the return address and the caller's \<open>rbp\<close> from the places above and at \<open>rbp\<close>, and the
  caller's stack pointer behind them.\<close>

theorem frame_pointer_unwound:
  assumes "stored m p (concat (map encode_cfi common_program))" "stored m q (concat (map encode_cfi frame_program))"
    "unat p + 5 < 2 ^ 64" "unat q + 8 < 2 ^ 64"
    "env_ca e = 1" "env_da e = - 8" "start + 1 \<le> env_target e" "start + 4 \<le> env_target e"
    "rsp r < rbp r + 16" "rbp r + 16 < 0x80000000"
  shows "\<exists>st1 st2. exec_cfi m e p (p + 5) start initial_state = Some st1
    \<and> exec_cfi m (e\<lparr>env_dbase := d\<rparr>) q (q + 8) start st1 = Some st2
    \<and> caller_regs m st2 r = Some \<lparr>rip = get64 m (rbp r + 8), rsp = rbp r + 16, rbp = get64 m (rbp r)\<rparr>"
proof -
  let ?e = "e\<lparr>env_dbase := d\<rparr>"
  have len: "length (concat (map encode_cfi common_program)) = 5" "length (concat (map encode_cfi frame_program)) = 8"
    by (simp_all add: common_program_def frame_program_def to_uleb.simps)
  have ok: "list_all (fits e) common_program" "list_all (fits ?e) frame_program"
    by (simp_all add: common_program_def frame_program_def)
  have run: "run_cfi ?e common_program x = run_cfi e common_program x" for x by (simp add: common_program_def)
  define st1 where "st1 = run_cfi e common_program (initial_state\<lparr>loc := start\<rparr>, [])"
  define st2 where "st2 = run_cfi ?e frame_program (st1\<lparr>loc := start\<rparr>, [])"
  have "exec_cfi m e p (p + 5) start initial_state = Some st1"
    using exec_cfi_program [OF assms(1) ok(1), of start initial_state] assms(3) len by (simp add: st1_def)
  moreover have "exec_cfi m ?e q (q + 8) start st1 = Some st2"
    using exec_cfi_program [OF assms(2) ok(2), of start st1] assms(4) len by (simp add: st2_def)
  moreover have "st2 = \<lparr>loc = start + 4, cfa_reg = 6, cfa_off = 16, ra_rule = \<lparr>rule_k = RU_OFFSET, rule_reg = 0, rule_off = - 8\<rparr>,
       rbp_rule = \<lparr>rule_k = RU_OFFSET, rule_reg = 0, rule_off = - 16\<rparr>\<rparr>"
    using frame_program_state [of ?e start] assms(5-8) by (simp add: st2_def st1_def run)
  moreover have "caller_regs m \<lparr>loc = start + 4, cfa_reg = 6, cfa_off = 16, ra_rule = \<lparr>rule_k = RU_OFFSET, rule_reg = 0, rule_off = - 8\<rparr>,
       rbp_rule = \<lparr>rule_k = RU_OFFSET, rule_reg = 0, rule_off = - 16\<rparr>\<rparr> r
     = Some \<lparr>rip = get64 m (rbp r + 8), rsp = rbp r + 16, rbp = get64 m (rbp r)\<rparr>"
    unfolding caller_regs_def frame_bound_wraps using assms(9,10)
    by (simp add: frame_address_def DW_REG_RSP_def DW_REG_RBP_def not_le add.commute)
  ultimately show ?thesis by blast
qed

section \<open>How far a trace gets\<close>

lemma caller_regs_bounds:
  "caller_regs m st r = Some r' \<Longrightarrow> rsp r < rsp r' \<and> rsp r' < 0x80000000"
  unfolding caller_regs_def frame_bound_wraps by (auto simp: Let_def not_le split: option.splits if_splits)

lemma unwind_step_bounds:
  assumes "unwind_step m t r = Some (Some r')"
  shows "rsp r < rsp r' \<and> rsp r' < 0x80000000"
  using assms caller_regs_bounds
  by (auto simp: unwind_step_def Let_def bind_eq_Some_conv split: if_splits option.splits prod.splits)

text \<open>C30. A trace of the kernel has one frame: the bound on the address of a frame is meant to be the end of the
  address space, but the sum that gives it wraps to \<open>0x80000000\<close>, and the kernel's stacks lie above.  So
  unwinding stops at the first frame, whatever the tables say.\<close>

theorem kernel_trace_one_frame:
  assumes "0x80000000 \<le> rsp r" "collect m t (Suc n) r = Some fs"
  shows "fs = [rip r]"
proof -
  obtain s where s: "unwind_step m t r = Some s" using assms(2) by (auto simp: bind_eq_Some_conv)
  have "s = None"
  proof (cases s)
    case (Some r')
    then have "rsp r < rsp r' \<and> rsp r' < 0x80000000" using s unwind_step_bounds by blast
    then show ?thesis using assms(1) by auto
  qed
  then show ?thesis using assms(2) s by simp
qed

section \<open>Symbols\<close>

text \<open>The last symbol that does not lie behind the address.\<close>

definition symbol_at :: "(u64 \<times> string) list \<Rightarrow> u64 \<Rightarrow> (string \<times> u64) option" where
  "symbol_at tab addr =
     (let before = filter (\<lambda>e. fst e \<le> addr) tab in
      if before = [] then None else Some (snd (last before), addr - fst (last before)))"

lemma sorted_filter_take:
  fixes tab :: "(u64 \<times> string) list"
  assumes "sorted_wrt (<) (map fst tab)" "k < length tab" "fst (tab ! k) \<le> addr" "Suc k = length tab \<or> addr < fst (tab ! Suc k)"
  shows "filter (\<lambda>e. fst e \<le> addr) tab = take (Suc k) tab"
proof -
  have mono: "i < j \<Longrightarrow> j < length tab \<Longrightarrow> fst (tab ! i) < fst (tab ! j)" for i j
    using assms(1) by (simp add: sorted_wrt_iff_nth_less)
  have "\<forall>e \<in> set (take (Suc k) tab). fst e \<le> addr"
  proof
    fix e assume "e \<in> set (take (Suc k) tab)"
    then obtain i where "i \<le> k" "e = tab ! i" using assms(2) by (auto simp: in_set_conv_nth less_Suc_eq_le)
    then show "fst e \<le> addr" using mono [of i k] assms(2,3) by (cases "i = k") auto
  qed
  moreover have "\<forall>e \<in> set (drop (Suc k) tab). \<not> fst e \<le> addr"
  proof
    fix e assume "e \<in> set (drop (Suc k) tab)"
    then obtain j where "j < length tab - Suc k" "e = tab ! (Suc k + j)" by (auto simp: in_set_conv_nth)
    then obtain i where i: "Suc k \<le> i" "i < length tab" "e = tab ! i" by (metis le_add1 less_diff_conv add.commute)
    then have "addr < fst (tab ! Suc k)" using assms(4) by auto
    then show "\<not> fst e \<le> addr" using mono [of "Suc k" i] i by (cases "i = Suc k") auto
  qed
  ultimately have "filter (\<lambda>e. fst e \<le> addr) (take (Suc k) tab @ drop (Suc k) tab) = take (Suc k) tab"
    by (simp only: filter_append) simp
  then show ?thesis by simp
qed

lemma lookup_loop_finds:
  assumes "0 \<le> lo" "lo < int (length tab)" "hi < int (length tab)" "lo \<le> hi + 1"
    "lo = 0 \<or> fst (tab ! nat lo) \<le> addr" "hi = int (length tab) - 1 \<or> addr < fst (tab ! nat (hi + 1))"
  shows "(lookup_loop tab addr lo hi = None \<and> addr < fst (tab ! 0))
    \<or> (\<exists>k < length tab. fst (tab ! k) \<le> addr \<and> (Suc k = length tab \<or> addr < fst (tab ! Suc k))
        \<and> lookup_loop tab addr lo hi = Some (snd (tab ! k), addr - fst (tab ! k)))"
  using assms
proof (induction tab addr lo hi rule: lookup_loop.induct)
  case (1 tab addr lo hi)
  define mid where "mid = lo + (hi - lo) div 2"
  show ?case
  proof (cases "lo \<le> hi")
    case True
    then have mid: "lo \<le> mid" "mid \<le> hi" by (auto simp: mid_def)
    consider (left) "addr < fst (tab ! nat mid)"
      | (found) "\<not> addr < fst (tab ! nat mid)" "mid = int (length tab) - 1 \<or> addr < fst (tab ! nat (mid + 1))"
      | (right) "\<not> addr < fst (tab ! nat mid)" "\<not> (mid = int (length tab) - 1 \<or> addr < fst (tab ! nat (mid + 1)))" by blast
    then show ?thesis
    proof cases
      case left
      have "lookup_loop tab addr lo hi = lookup_loop tab addr lo (mid - 1)"
        using True left by (subst lookup_loop.simps) (simp add: Let_def mid_def)
      then show ?thesis using "1.IH"(1) [OF True mid_def refl left] "1.prems" mid left by auto
    next
      case found
      have n: "nat (mid + 1) = Suc (nat mid)" using mid "1.prems"(1) by simp
      have "lookup_loop tab addr lo hi = Some (snd (tab ! nat mid), addr - fst (tab ! nat mid))"
        using True found by (subst lookup_loop.simps) (simp add: Let_def mid_def)
      moreover have "nat mid < length tab" "Suc (nat mid) = length tab \<or> addr < fst (tab ! Suc (nat mid))"
        using mid "1.prems"(1,3) found(2) n by auto
      ultimately show ?thesis using found(1) by (auto simp: not_less)
    next
      case right
      have "lookup_loop tab addr lo hi = lookup_loop tab addr (mid + 1) hi"
        using True right by (subst lookup_loop.simps) (simp add: Let_def mid_def)
      then show ?thesis using "1.IH"(2) [OF True mid_def refl right] "1.prems" mid right by (auto simp: not_less)
    qed
  next
    case False
    then have "lookup_loop tab addr lo hi = None" by (subst lookup_loop.simps) simp
    moreover have "lo = hi + 1" using False "1.prems"(4) by simp
    then have "addr < fst (tab ! 0)" using "1.prems" by auto
    ultimately show ?thesis by simp
  qed
qed

text \<open>On a sorted table of symbols the search by halves finds the last symbol that does not lie behind the
  address and the distance to it, and finds nothing exactly below the first symbol.\<close>

theorem lookup_correct:
  assumes "sorted_wrt (<) (map fst (symtab t))"
  shows "lookup_symbol t addr = symbol_at (symtab t) addr"
proof (cases "symtab t = []")
  case False
  let ?tab = "symtab t"
  consider "lookup_symbol t addr = None" "addr < fst (?tab ! 0)"
    | k where "k < length ?tab" "fst (?tab ! k) \<le> addr" "Suc k = length ?tab \<or> addr < fst (?tab ! Suc k)"
        "lookup_symbol t addr = Some (snd (?tab ! k), addr - fst (?tab ! k))"
    using lookup_loop_finds [of 0 ?tab "int (length ?tab) - 1" addr] False by (auto simp: lookup_symbol_def)
  then show ?thesis
  proof cases
    case 1
    have "addr < fst e" if el: "e \<in> set ?tab" for e
    proof -
      obtain i where i: "i < length ?tab" "e = ?tab ! i" using el by (auto simp: in_set_conv_nth)
      then have "fst (?tab ! 0) \<le> fst e" using assms by (cases i) (auto simp: sorted_wrt_iff_nth_less less_imp_le)
      then show ?thesis using 1(2) by simp
    qed
    then have "filter (\<lambda>e. fst e \<le> addr) ?tab = []" by (auto simp: filter_empty_conv not_le)
    then show ?thesis using 1(1) by (simp add: symbol_at_def)
  next
    case 2
    have "last (take (Suc k) ?tab) = ?tab ! k" using 2(1) by (simp add: take_Suc_conv_app_nth)
    then show ?thesis using 2 False sorted_filter_take [OF assms 2(1-3)] by (auto simp: symbol_at_def Let_def)
  qed
qed (simp add: lookup_symbol_def symbol_at_def)

section \<open>Example tables\<close>

text \<open>A shared entry and the entry of a function at \<open>0x2000\<close> with a frame pointer, from \<open>0x1000\<close> on, and two stacks,
  one in low memory and one in the upper half.\<close>

definition example_entries :: "u8 list" where
  "example_entries =
     [18, 0, 0, 0, 0, 0, 0, 0, 1, 122, 82, 0, 1, 0x78, 16, 1, 0x03, 0x0C, 7, 8, 0x90, 1] @
     [21, 0, 0, 0, 0x1A, 0, 0, 0, 0, 0x20, 0, 0, 0, 1, 0, 0, 0, 0x41, 0x0E, 16, 0x86, 2, 0x43, 0x0D, 6]"

definition example_stack :: "u8 list" where
  "example_stack = [0x40, 0x30, 0, 0, 0, 0, 0, 0, 0x50, 0x20, 0, 0, 0, 0, 0, 0]"

definition example_memory :: bytes where
  "example_memory a =
     (if 0x1000 \<le> a \<and> a < 0x102F then example_entries ! unat (a - 0x1000)
      else if 0x3000 \<le> a \<and> a < 0x3010 then example_stack ! unat (a - 0x3000)
      else if 0xFFFF800000003000 \<le> a \<and> a < 0xFFFF800000003010 then example_stack ! unat (a - 0xFFFF800000003000)
      else 0)"

definition example_unwind :: unwind_tables where
  "example_unwind = \<lparr>eh_frame_start = 0x1000, eh_frame_end = 0x102F, eh_frame_hdr_start = 0, eh_frame_hdr_end = 0,
     symtab = [(0x2000, ''f''), (0x2100, ''g'')]\<rparr>"

declare aug_string.simps [code]

lemma example_stored:
  "stored example_memory 0x1011 (concat (map encode_cfi common_program))"
  "stored example_memory 0x1027 (concat (map encode_cfi frame_program))"
  "list_all (fits e) common_program" "list_all (fits e) frame_program"
  "length (concat (map encode_cfi common_program)) = 5" "length (concat (map encode_cfi frame_program)) = 8"
  by code_simp+

definition example_fde :: Fde where
  "example_fde = \<lparr>start_pc = 0x2000, end_pc = 0x2100,
     fde_cie = \<lparr>code_align = 1, data_align = - 8, ra_reg = 16, fde_enc = 3, cie_inst = 0x1011, cie_inst_end = 0x1016,
       datarel_base = 0x1004, has_z = True\<rparr>, fde_inst = 0x1027, fde_inst_end = 0x102F\<rparr>"

lemma example_fde_parsed: "parse_fde example_memory 0x1016 0x101A 21 False = Some (Some example_fde)"
  by code_simp

lemma example_fde_found: "find_fde_linear example_memory example_unwind 0x2010 = Some 0x1016"
proof -
  have "entry_body example_memory 0x1000 = (0x1004, 18, False)" "get32 example_memory 0x1004 = 0"
    "entry_body example_memory 0x1016 = (0x101A, 21, False)" "get32 example_memory 0x101A = 0x1A" by code_simp+
  then show ?thesis using example_fde_parsed
    by (simp add: find_fde_linear_def example_unwind_def linear_loop.simps [of _ _ _ "0x1000"] linear_loop.simps [of _ _ _ "0x1016"] example_fde_def)
qed

text \<open>In the kernel's half, unwinding is defined and stops.\<close>

lemma example_kernel_step:
  "unwind_step example_memory example_unwind \<lparr>rip = 0x2010, rsp = 0xFFFF800000002FF0, rbp = 0xFFFF800000003000\<rparr> \<noteq> None"
proof -
  have "find_fde_hdr example_memory example_unwind 0x2010 = Some 0" "entry_body example_memory 0x1016 = (0x101A, 21, False)"
    by code_simp+
  then show ?thesis
    using example_fde_found example_fde_parsed example_stored
      exec_cfi_program [OF example_stored(1,3)] exec_cfi_program [OF example_stored(2,4)]
    by (simp add: unwind_step_def example_fde_def)
qed

text \<open>The shared entry: the frame address is \<open>rsp + 8\<close> and the return address is below it.\<close>

theorem exec_cfi_runs_witness:
  "\<exists>st. exec_cfi example_memory \<lparr>env_ca = 1, env_da = - 8, env_enc = 3, env_dbase = 0, env_target = 0x2010\<rparr> 0x1011 0x1016 0x2000 initial_state = Some st
    \<and> follows st \<lparr>dw_cfa_reg = 7, dw_cfa_off = 8, dw_rules = (\<lambda>_. DwUndefined)(16 := DwOffset (- 8))\<rparr>"
proof -
  let ?e = "\<lparr>env_ca = 1, env_da = - 8, env_enc = 3, env_dbase = 0, env_target = 0x2010\<rparr>"
  let ?row = "\<lparr>dw_cfa_reg = 7, dw_cfa_off = 0, dw_rules = (\<lambda>_. DwUndefined)\<rparr>"
  have f: "follows initial_state ?row"
    by (simp add: follows_def initial_state_def initial_rule_def DW_REG_RSP_def)
  have d: "dw_plain ?e (\<lambda>_. DwUndefined) common_program 0x2000 []" by (simp add: common_program_def)
  have r: "dw_run ?e (\<lambda>_. DwUndefined) common_program 0x2000 ?row []
      = \<lparr>dw_cfa_reg = 7, dw_cfa_off = 8, dw_rules = (\<lambda>_. DwUndefined)(16 := DwOffset (- 8))\<rparr>"
    by (simp add: common_program_def dw_set_def)
  show ?thesis
    using exec_cfi_runs [OF example_stored(1,3) _ f d] example_stored(5) r by simp
qed

theorem frame_pointer_unwound_witness:
  "\<exists>st. caller_regs example_memory st \<lparr>rip = 0x2010, rsp = 0x2FF0, rbp = 0x3000\<rparr>
    = Some \<lparr>rip = 0x2050, rsp = 0x3010, rbp = 0x3040\<rparr>"
proof -
  have "get64 example_memory 0x3008 = 0x2050" "get64 example_memory 0x3000 = 0x3040" by code_simp+
  then show ?thesis
    using example_stored(1,2) frame_pointer_unwound [of example_memory "0x1011" "0x1027" "\<lparr>env_ca = 1, env_da = - 8, env_enc = 3, env_dbase = 0, env_target = 0x2010\<rparr>"
        "0x2000" "\<lparr>rip = 0x2010, rsp = 0x2FF0, rbp = 0x3000\<rparr>" 0] by auto
qed

theorem kernel_trace_one_frame_witness:
  "collect example_memory example_unwind (Suc 3) \<lparr>rip = 0x2010, rsp = 0xFFFF800000002FF0, rbp = 0xFFFF800000003000\<rparr> = Some [0x2010]"
  (is "collect _ _ _ ?r = _")
proof -
  obtain s where s: "unwind_step example_memory example_unwind ?r = Some s" using example_kernel_step by blast
  have "s = None"
  proof (cases s)
    case (Some r')
    have "rsp ?r < rsp r'" "rsp r' < 0x80000000" using unwind_step_bounds s Some by blast+
    then have "rsp ?r < 0x80000000" by (rule order.strict_trans)
    then show ?thesis by simp
  qed
  then have c: "collect example_memory example_unwind (Suc 3) ?r = Some [rip ?r]" using s by (simp only: collect.simps) simp
  have "0x80000000 \<le> rsp ?r" by simp
  from kernel_trace_one_frame [OF this c] show ?thesis using c by (simp only: regs.select_convs)
qed

theorem lookup_correct_witness: "lookup_symbol example_unwind 0x2010 = Some (''f'', 0x10)"
proof -
  have "sorted_wrt (<) (map fst (symtab example_unwind))" "symbol_at (symtab example_unwind) 0x2010 = Some (''f'', 0x10)" by code_simp+
  then show ?thesis using lookup_correct by metis
qed

end
