(* ===== verification/Tori_Demangle.thy ===== *)
theory Tori_Demangle
  imports Tori_Prelude
begin

text \<open>
  The demangler of a stack trace (\<open>kernel/src/arch/x86_64/demangle.cpp\<close>).  The input is the rest of the
  name, the output what has been written to a buffer of limited size; at the end of the input the next
  character is 0.  A production that returns false makes every caller return false, so that the state it
  leaves does not matter.  The productions call each other; they are defined by their bodies over the
  productions they call, and the calls are tied together by a recursion with fuel, of which
  \<open>demangle_internal\<close> gives as much as the length of the name requires.
\<close>

section \<open>State\<close>

record Ctx =
  inp :: string
  outp :: string
  room :: nat
  subs :: "string list"

text \<open>A production succeeds with a state, returns false, or does something undefined; \<open>OutOfFuel\<close> never
  happens.\<close>

datatype 'a result = Ok 'a | Fail | Undef | OutOfFuel

primrec seq :: "'a result \<Rightarrow> ('a \<Rightarrow> 'b result) \<Rightarrow> 'b result" where
  "seq (Ok c) f = f c"
| "seq Fail f = Fail"
| "seq Undef f = Undef"
| "seq OutOfFuel f = OutOfFuel"

definition char_at :: "nat \<Rightarrow> string \<Rightarrow> char" where
  "char_at i s = (if i < length s then s ! i else CHR 0x00)"

definition peek :: "Ctx \<Rightarrow> char" where "peek c = char_at 0 (inp c)"
definition peek1 :: "Ctx \<Rightarrow> char" where "peek1 c = char_at 1 (inp c)"
definition adv :: "Ctx \<Rightarrow> Ctx" where "adv c = c\<lparr>inp := tl (inp c)\<rparr>"
definition eof :: "Ctx \<Rightarrow> bool" where "eof c \<longleftrightarrow> inp c = []"

definition match_char :: "char \<Rightarrow> Ctx \<Rightarrow> Ctx result" where
  "match_char ch c = (if peek c = ch then Ok (adv c) else Fail)"

definition put :: "char \<Rightarrow> Ctx \<Rightarrow> Ctx result" where
  "put ch c = (if length (outp c) \<ge> room c then Fail else Ok (c\<lparr>outp := outp c @ [ch]\<rparr>))"

fun puts :: "string \<Rightarrow> Ctx \<Rightarrow> Ctx result" where
  "puts [] c = Ok c"
| "puts (ch # s) c = seq (put ch c) (puts s)"

text \<open>A call of \<open>puts\<close> whose result is not looked at: what fits is written.\<close>

fun puts_any :: "string \<Rightarrow> Ctx \<Rightarrow> Ctx" where
  "puts_any [] c = c"
| "puts_any (ch # s) c = (case put ch c of Ok c \<Rightarrow> puts_any s c | _ \<Rightarrow> c)"

definition is_digit :: "char \<Rightarrow> bool" where
  "is_digit ch \<longleftrightarrow> (48 :: nat) \<le> of_char ch \<and> of_char ch \<le> (57 :: nat)"

definition digit_of :: "char \<Rightarrow> nat" where "digit_of ch = of_char ch - 48"

fun number_loop :: "string \<Rightarrow> u32 \<Rightarrow> (u32 \<times> string) option" where
  "number_loop [] val = Some (val, [])"
| "number_loop (ch # s) val =
     (if is_digit ch
      then (if val > (- 1) div 10 then None else number_loop s (val * 10 + of_nat (digit_of ch)))
      else Some (val, ch # s))"

definition dm_read_number :: "Ctx \<Rightarrow> (u32 \<times> Ctx) option" where
  "dm_read_number c =
     (if \<not> is_digit (peek c) then None
      else map_option (\<lambda>(val, s). (val, c\<lparr>inp := s\<rparr>)) (number_loop (inp c) 0))"

text \<open>The characters before the terminator, if it occurs.\<close>

definition read_until :: "char \<Rightarrow> Ctx \<Rightarrow> string option" where
  "read_until t c = (if t \<in> set (inp c) then Some (takeWhile (\<lambda>ch. ch \<noteq> t) (inp c)) else None)"

definition skip_discriminator :: "Ctx \<Rightarrow> Ctx" where
  "skip_discriminator c =
     (if peek c \<noteq> CHR ''_'' then c
      else case dm_read_number (adv c) of None \<Rightarrow> c | Some (d, c) \<Rightarrow> c)"

section \<open>Substitutions\<close>

definition add_sub :: "string \<Rightarrow> Ctx \<Rightarrow> Ctx" where
  "add_sub text c = (if length (subs c) \<ge> 32 then c else c\<lparr>subs := subs c @ [take 127 text]\<rparr>)"

text \<open>The output from a saved position on, and the last \<open>k\<close> characters, which may begin before the buffer.\<close>

definition add_from :: "nat \<Rightarrow> Ctx \<Rightarrow> Ctx" where
  "add_from saved c = add_sub (drop saved (outp c)) c"

definition add_last :: "nat \<Rightarrow> Ctx \<Rightarrow> Ctx result" where
  "add_last k c = (if k > length (outp c) then Undef else Ok (add_sub (drop (length (outp c) - k) (outp c)) c))"

definition is_substitutable_type :: "char \<Rightarrow> bool" where
  "is_substitutable_type first \<longleftrightarrow> first \<notin> set ''vwbcahstijlmxynofdeg''"

text \<open>A reference into the table; the first seven places are taken for the standard ones.\<close>

definition put_sub :: "nat \<Rightarrow> Ctx \<Rightarrow> Ctx" where
  "put_sub seq_id c = puts_any (if 7 + seq_id < length (subs c) then subs c ! (7 + seq_id) else ''<?>'') c"

section \<open>Names\<close>

fun dm_copy_name :: "nat \<Rightarrow> Ctx \<Rightarrow> Ctx result" where
  "dm_copy_name 0 c = Ok c"
| "dm_copy_name (Suc n) c = (if eof c then Fail else seq (put (peek c) (adv c)) (dm_copy_name n))"

definition parse_source_name :: "Ctx \<Rightarrow> Ctx result" where
  "parse_source_name c =
     (case dm_read_number c of None \<Rightarrow> Fail
      | Some (len, c) \<Rightarrow>
          if len = 12 \<and> take 12 (inp c) = ''_GLOBAL__N_1'' then puts ''{anonymous}'' (c\<lparr>inp := drop 12 (inp c)\<rparr>)
          else if len = 3 \<and> take 3 (inp c) = ''__1'' then Ok (c\<lparr>inp := drop 3 (inp c)\<rparr>)
          else if len = 0 then Fail
          else dm_copy_name (unat len) c)"

text \<open>The names of constructors and destructors by the character behind \<open>D\<close>.\<close>

definition structor_name :: "char \<Rightarrow> string option" where
  "structor_name ch =
     (if ch \<in> set ''025'' then Some ''(constructor)''
      else if ch \<in> set ''13tT'' then Some ''(destructor)''
      else if ch = CHR ''4'' then Some ''(deleting destructor)'' else None)"

definition parse_unqualified_name :: "Ctx \<Rightarrow> Ctx result" where
  "parse_unqualified_name c =
     (if peek c = CHR ''L'' then seq (parse_source_name (adv c)) (\<lambda>c. Ok (skip_discriminator c))
      else if peek c = CHR ''D'' \<and> structor_name (peek1 c) \<noteq> None
      then Ok (puts_any (the (structor_name (peek1 c))) (adv (adv c)))
      else if is_digit (peek c) then parse_source_name c
      else Fail)"

text \<open>The standard substitutions: the text in a nested name with the count of characters that is entered
  into the table, and the text elsewhere.\<close>

definition nested_std :: "char \<Rightarrow> (string \<times> nat) option" where
  "nested_std ch =
     (if ch = CHR ''t'' then Some (''std'', 3)
      else if ch = CHR ''a'' then Some (''std::allocator'', 15)
      else if ch = CHR ''b'' then Some (''std::basic_string'', 17)
      else if ch = CHR ''s'' then Some (''std::string'', 12)
      else if ch = CHR ''i'' then Some (''std::istream'', 13)
      else if ch = CHR ''o'' then Some (''std::ostream'', 13)
      else if ch = CHR ''d'' then Some (''std::iostream'', 14) else None)"

definition std_text :: "char \<Rightarrow> string option" where
  "std_text ch =
     (if ch = CHR ''t'' then Some ''std''
      else if ch = CHR ''a'' then Some ''std::allocator''
      else if ch = CHR ''b'' then Some ''std::basic_string''
      else if ch = CHR ''s'' then Some ''std::basic_string<char, std::char_traits<char>, std::allocator<char>>''
      else if ch = CHR ''i'' then Some ''std::basic_istream<char, std::char_traits<char>>''
      else if ch = CHR ''o'' then Some ''std::basic_ostream<char, std::char_traits<char>>''
      else if ch = CHR ''d'' then Some ''std::basic_iostream<char, std::char_traits<char>>'' else None)"

definition parse_substitution :: "Ctx \<Rightarrow> Ctx result" where
  "parse_substitution c = seq (match_char CHR ''S'' c) (\<lambda>c.
     case std_text (peek c) of Some t \<Rightarrow> Ok (puts_any t (adv c))
     | None \<Rightarrow>
         if peek c = CHR ''_'' then Ok (put_sub 0 (adv c))
         else if is_digit (peek c)
         then (let d = digit_of (peek c) in seq (match_char CHR ''_'' (adv c)) (\<lambda>c. Ok (put_sub d c)))
         else Fail)"

text \<open>Template arguments, if there are any; \<open>ta\<close> is the production.\<close>

definition opt_args :: "(Ctx \<Rightarrow> Ctx result) \<Rightarrow> Ctx \<Rightarrow> Ctx result" where
  "opt_args ta c = (if peek c = CHR ''I'' then ta c else Ok c)"

definition name_component :: "(Ctx \<Rightarrow> Ctx result) \<Rightarrow> Ctx \<Rightarrow> Ctx result" where
  "name_component ta c = seq (parse_source_name c) (\<lambda>d. opt_args ta (add_from (length (outp c)) d))"

definition local_component :: "(Ctx \<Rightarrow> Ctx result) \<Rightarrow> Ctx \<Rightarrow> Ctx result" where
  "local_component ta c =
     seq (parse_source_name (adv c)) (\<lambda>d. opt_args ta (skip_discriminator (add_from (length (outp c)) d)))"

text \<open>The names in front of a function: the production is not called in the program.\<close>

definition parse_prefix :: "(Ctx \<Rightarrow> Ctx result) \<Rightarrow> Ctx \<Rightarrow> Ctx result" where
  "parse_prefix ta c =
     (if is_digit (peek c) then name_component ta c
      else if peek c = CHR ''L''
      then seq (parse_source_name (adv c)) (\<lambda>d. Ok (skip_discriminator (add_from (length (outp c)) d)))
      else if peek c = CHR ''S'' then seq (parse_substitution c) (\<lambda>d. opt_args ta (add_from (length (outp c)) d))
      else Fail)"

definition sub_component :: "(Ctx \<Rightarrow> Ctx result) \<Rightarrow> Ctx \<Rightarrow> Ctx result" where
  "sub_component ta c =
     seq (case nested_std (peek1 c) of
            Some (t, k) \<Rightarrow> add_last k (puts_any t (adv (adv c)))
          | None \<Rightarrow>
              if peek1 c = CHR ''_'' then Ok (put_sub 0 (adv (adv c)))
              else if is_digit (peek1 c)
              then (let d = digit_of (peek1 c) in seq (match_char CHR ''_'' (adv (adv c))) (\<lambda>c. Ok (put_sub d c)))
              else parse_source_name (adv c))
       (opt_args ta)"

definition nested_component :: "(Ctx \<Rightarrow> Ctx result) \<Rightarrow> Ctx \<Rightarrow> Ctx result" where
  "nested_component ta c =
     (if peek c = CHR ''S'' then sub_component ta c
      else if is_digit (peek c) then name_component ta c
      else if peek c = CHR ''L'' then local_component ta c
      else if peek c = CHR ''D'' then
        (case structor_name (peek1 c) of None \<Rightarrow> Fail | Some t \<Rightarrow> Ok (puts_any t (adv (adv c))))
      else Fail)"

text \<open>Before the components: the qualifiers of the member function are skipped.\<close>

definition is_cv :: "char \<Rightarrow> bool" where "is_cv ch \<longleftrightarrow> ch \<in> set ''rVK''"

definition parse_nested_name :: "(Ctx \<Rightarrow> Ctx result) \<Rightarrow> Ctx \<Rightarrow> Ctx result" where
  "parse_nested_name components c = seq (match_char CHR ''N'' c) (\<lambda>c.
     let c = c\<lparr>inp := dropWhile is_cv (inp c)\<rparr>; c = (if peek c \<in> set ''OR'' then adv c else c) in
     seq (components c) (match_char CHR ''E''))"

section \<open>Types\<close>

definition builtin_name :: "char \<Rightarrow> string option" where
  "builtin_name ch = map_of
     [(CHR ''v'', ''void''), (CHR ''w'', ''wchar_t''), (CHR ''b'', ''bool''), (CHR ''c'', ''char''), (CHR ''a'', ''signed char''),
      (CHR ''h'', ''unsigned char''), (CHR ''s'', ''short''), (CHR ''t'', ''unsigned short''), (CHR ''i'', ''int''),
      (CHR ''j'', ''unsigned int''), (CHR ''l'', ''long''), (CHR ''m'', ''unsigned long''), (CHR ''x'', ''long long''),
      (CHR ''y'', ''unsigned long long''), (CHR ''n'', ''__int128''), (CHR ''o'', ''unsigned __int128''), (CHR ''f'', ''float''),
      (CHR ''d'', ''double''), (CHR ''e'', ''long double''), (CHR ''g'', ''__float128'')] ch"

definition builtin_name2 :: "char \<Rightarrow> string option" where
  "builtin_name2 ch = map_of
     [(CHR ''i'', ''char32_t''), (CHR ''s'', ''char16_t''), (CHR ''h'', ''float16''), (CHR ''a'', ''auto''),
      (CHR ''c'', ''decltype(auto)''), (CHR ''n'', ''std::nullptr_t''), (CHR ''d'', ''decimal64''), (CHR ''e'', ''decimal128''),
      (CHR ''f'', ''decimal32'')] ch"

definition parse_builtin_type :: "Ctx \<Rightarrow> Ctx result" where
  "parse_builtin_type c =
     (if peek c = CHR ''D''
      then (case builtin_name2 (peek1 c) of None \<Rightarrow> Fail | Some t \<Rightarrow> Ok (puts_any t (adv (adv c))))
      else (case builtin_name (peek c) of None \<Rightarrow> Fail | Some t \<Rightarrow> Ok (puts_any t (adv c))))"

definition cv_text :: "char \<Rightarrow> string" where
  "cv_text ch = (if ch = CHR ''r'' then ''restrict '' else if ch = CHR ''V'' then ''volatile '' else ''const '')"

definition parse_cv_qualifiers :: "Ctx \<Rightarrow> Ctx" where
  "parse_cv_qualifiers c = fold (\<lambda>ch c. if peek c = ch then puts_any (cv_text ch) (adv c) else c) ''rVK'' c"

text \<open>The loop over the qualifiers of a type.\<close>

fun put_cvs :: "string \<Rightarrow> Ctx \<Rightarrow> Ctx result" where
  "put_cvs [] c = Ok c"
| "put_cvs (ch # s) c = seq (puts (cv_text ch) (adv c)) (put_cvs s)"

definition starts_builtin :: "Ctx \<Rightarrow> bool" where
  "starts_builtin c \<longleftrightarrow> peek c \<in> set ''vwbcahstijlmxynofdeg'' \<or> peek c = CHR ''D'' \<and> peek1 c \<notin> set ''Tt012345''"

definition add_if :: "bool \<Rightarrow> nat \<Rightarrow> Ctx \<Rightarrow> Ctx" where
  "add_if add_to_subs saved c = (if add_to_subs then add_from saved c else c)"

definition digit_char :: "nat \<Rightarrow> char" where "digit_char d = char_of (48 + d)"

definition template_param :: "Ctx \<Rightarrow> Ctx result" where
  "template_param c =
     (let c = adv c; idx = (if is_digit (peek c) then digit_of (peek c) + 1 else 0); c = (if is_digit (peek c) then adv c else c) in
      seq (match_char CHR ''_'' c) (\<lambda>c.
      seq (put CHR ''T'' c) (\<lambda>c.
        if idx > 0 then puts ((if idx \<ge> 10 then [digit_char (idx div 10)] else []) @ [digit_char (idx mod 10)]) c else Ok c)))"

definition array_bound :: "Ctx \<Rightarrow> Ctx result" where
  "array_bound c = seq (put CHR ''['' c) (\<lambda>c.
     seq (if is_digit (peek c)
          then (case dm_read_number c of None \<Rightarrow> Fail
            | Some (n, c) \<Rightarrow> (let n = unat n in
                puts ((if n \<ge> 100 then [digit_char (n div 100 mod 10)] else []) @
                      (if n \<ge> 10 then [digit_char (n div 10 mod 10)] else []) @ [digit_char (n mod 10)]) c))
          else Ok c) (put CHR '']''))"

text \<open>\<open>ts\<close>, \<open>nn\<close> and \<open>bf\<close> are the productions of types, nested names and parameter lists.\<close>

definition parse_type_sub ::
  "(bool \<Rightarrow> Ctx \<Rightarrow> Ctx result) \<Rightarrow> (Ctx \<Rightarrow> Ctx result) \<Rightarrow> (Ctx \<Rightarrow> Ctx result) \<Rightarrow> bool \<Rightarrow> Ctx \<Rightarrow> Ctx result" where
  "parse_type_sub ts nn bf add_to_subs c =
     (let saved = length (outp c); finish = (\<lambda>c. Ok (add_if add_to_subs saved c)); cvs = takeWhile is_cv (inp c) in
      if cvs \<noteq> [] then
        seq (put_cvs cvs c) (\<lambda>d. seq (ts add_to_subs d) (\<lambda>d.
          Ok (add_if (add_to_subs \<and> is_substitutable_type (peek c)) saved d)))
      else if starts_builtin c then parse_builtin_type c
      else if peek c = CHR ''P'' then seq (ts True (adv c)) (\<lambda>c. seq (puts ''*'' c) finish)
      else if peek c = CHR ''R'' then seq (ts True (adv c)) (\<lambda>c. seq (puts ''&'' c) finish)
      else if peek c = CHR ''O'' then seq (ts True (adv c)) (\<lambda>c. seq (puts ''&&'' c) finish)
      else if peek c = CHR ''M'' then
        seq (ts True (adv c)) (\<lambda>c. seq (puts ''::*'' c) (\<lambda>c. seq (ts True c) finish))
      else if peek c = CHR ''N'' then seq (nn c) (\<lambda>c. finish (add_if add_to_subs saved c))
      else if peek c = CHR ''S'' then seq (parse_substitution c) finish
      else if peek c = CHR ''T'' then seq (template_param c) finish
      else if peek c = CHR ''F'' then
        seq (put CHR ''('' (adv c)) (\<lambda>c. seq (bf c) (\<lambda>c.
          seq (put CHR '')'' (if peek c = CHR ''E'' then adv c else c)) finish))
      else if peek c = CHR ''A'' then seq (array_bound (adv c)) (\<lambda>c. seq (ts True c) finish)
      else Fail)"

text \<open>An argument of a template: a literal, an expression, both copied, or a type.\<close>

definition parse_template_arg :: "(bool \<Rightarrow> Ctx \<Rightarrow> Ctx result) \<Rightarrow> Ctx \<Rightarrow> Ctx result" where
  "parse_template_arg ts c =
     (if peek c = CHR ''L'' \<or> peek c = CHR ''X'' then
        (let c = adv c in
         case read_until CHR ''E'' c of None \<Rightarrow> Fail
         | Some s \<Rightarrow> seq (puts s c) (\<lambda>c. match_char CHR ''E'' (c\<lparr>inp := drop (length s) (inp c)\<rparr>)))
      else ts True c)"

definition parse_template_args :: "(Ctx \<Rightarrow> Ctx result) \<Rightarrow> Ctx \<Rightarrow> Ctx result" where
  "parse_template_args args c = seq (match_char CHR ''I'' c) (\<lambda>c. seq (put CHR ''<'' c) (\<lambda>c.
     seq (args c) (\<lambda>c. seq (match_char CHR ''E'' c) (put CHR ''>''))))"

section \<open>The productions tied together\<close>

text \<open>The loops: the components of a nested name, the arguments of a template, the parameters of a function.
  The flag says that it is the first round.\<close>

fun type_sub :: "nat \<Rightarrow> bool \<Rightarrow> Ctx \<Rightarrow> Ctx result"
  and components :: "nat \<Rightarrow> bool \<Rightarrow> Ctx \<Rightarrow> Ctx result"
  and args_loop :: "nat \<Rightarrow> bool \<Rightarrow> Ctx \<Rightarrow> Ctx result"
  and bare_loop :: "nat \<Rightarrow> bool \<Rightarrow> Ctx \<Rightarrow> Ctx result" where
  "type_sub 0 add c = OutOfFuel"
| "type_sub (Suc n) add c = parse_type_sub (type_sub n) (parse_nested_name (components n True)) (bare_loop n True) add c"
| "components 0 first c = OutOfFuel"
| "components (Suc n) first c =
     (if peek c \<noteq> CHR ''E'' \<and> \<not> eof c
      then seq (if first then Ok c else puts ''::'' c) (\<lambda>c.
        seq (nested_component (parse_template_args (args_loop n True)) c) (components n False))
      else Ok c)"
| "args_loop 0 first c = OutOfFuel"
| "args_loop (Suc n) first c =
     (if peek c \<noteq> CHR ''E'' \<and> \<not> eof c
      then seq (if first then Ok c else puts '', '' c) (\<lambda>c.
        seq (parse_template_arg (type_sub n) c) (args_loop n False))
      else Ok c)"
| "bare_loop 0 first c = OutOfFuel"
| "bare_loop (Suc n) first c =
     (if \<not> eof c \<and> peek c \<noteq> CHR ''E''
      then seq (if first then Ok c else puts '', '' c) (\<lambda>c. seq (type_sub n True c) (bare_loop n False))
      else Ok c)"

definition parse_type :: "nat \<Rightarrow> Ctx \<Rightarrow> Ctx result" where
  "parse_type n = type_sub n True"

definition parse_bare_function_type :: "nat \<Rightarrow> Ctx \<Rightarrow> Ctx result" where
  "parse_bare_function_type n = bare_loop n True"

section \<open>Encodings\<close>

definition special_text :: "char \<Rightarrow> string option" where
  "special_text ch = map_of
     [(CHR ''V'', ''vtable for ''), (CHR ''T'', ''VTT for ''), (CHR ''I'', ''typeinfo for ''), (CHR ''S'', ''typeinfo name for ''),
      (CHR ''W'', ''vtable for ''), (CHR ''v'', ''vcall offset ''), (CHR ''c'', ''covariant return ''),
      (CHR ''C'', ''construction vtable for ''), (CHR ''F'', ''virtual function offset ''), (CHR ''G'', ''guard variable for '')] ch"

definition parse_special_name :: "nat \<Rightarrow> Ctx \<Rightarrow> Ctx result" where
  "parse_special_name n c = seq (match_char CHR ''T'' c) (\<lambda>c.
     if eof c then Fail
     else case special_text (peek c) of None \<Rightarrow> Fail | Some t \<Rightarrow> parse_type n (puts_any t (adv c)))"

definition parameter_list :: "nat \<Rightarrow> Ctx \<Rightarrow> Ctx result" where
  "parameter_list n c = seq (put CHR ''('' c) (\<lambda>c. seq (parse_bare_function_type n c) (put CHR '')''))"

definition parse_encoding :: "nat \<Rightarrow> Ctx \<Rightarrow> Ctx result" where
  "parse_encoding n c =
     (if peek c = CHR ''T'' \<and> peek1 c \<noteq> CHR ''N'' then parse_special_name n c
      else if peek c = CHR ''N'' then
        seq (parse_nested_name (components n True) c) (\<lambda>c. if eof c \<or> peek c = CHR ''E'' then Ok c else parameter_list n c)
      else if peek c = CHR ''L'' then seq (parse_source_name (adv c)) (parameter_list n)
      else if is_digit (peek c) then
        seq (parse_source_name c) (\<lambda>c. if eof c \<or> peek c = CHR ''E'' then Ok c else parameter_list n c)
      else Fail)"

definition demangle_internal :: "string \<Rightarrow> Ctx \<Rightarrow> Ctx result" where
  "demangle_internal mangled c =
     (if take 2 mangled \<noteq> ''_Z'' then Fail
      else parse_encoding (2 * length mangled) (c\<lparr>inp := drop 2 mangled\<rparr>))"

text \<open>The text that is returned; \<open>None\<close> is the null pointer, and the buffer is there.\<close>

definition demangle :: "string option \<Rightarrow> nat \<Rightarrow> string option result" where
  "demangle mangled bufsz =
     (case mangled of None \<Rightarrow> Ok None
      | Some s \<Rightarrow>
          if bufsz < 2 then Ok (Some s)
          else (case demangle_internal s \<lparr>inp = s, outp = [], room = bufsz - 1, subs = []\<rparr> of
              Ok c \<Rightarrow> Ok (Some (outp c))
            | Fail \<Rightarrow> Ok (Some (take (bufsz - 1) s))
            | Undef \<Rightarrow> Undef
            | OutOfFuel \<Rightarrow> OutOfFuel))"

end
