(* ===== verification/Tori_Demangle_Props.thy ===== *)
theory Tori_Demangle_Props
  imports Tori_Demangle
begin

text \<open>
  Properties of the demangler: it ends for every name, it never writes past its buffer or its table, and
  for some names it reads before the buffer.  Every production is shown to keep the state within its
  limits and to consume input; the collections of rules follow the productions.
\<close>

section \<open>Limits\<close>

definition within :: "nat \<Rightarrow> nat \<Rightarrow> Ctx \<Rightarrow> bool" where
  "within k b c \<longleftrightarrow> length (inp c) \<le> k \<and> room c = b \<and> length (outp c) \<le> b \<and> length (subs c) \<le> 32
     \<and> (\<forall>s \<in> set (subs c). length s \<le> 127)"

definition shorter :: "nat \<Rightarrow> nat \<Rightarrow> Ctx \<Rightarrow> bool" where
  "shorter k b c \<longleftrightarrow> 0 < k \<and> within (k - 1) b c"

text \<open>The result, if it is a state, has the property; the fuel has not run out.\<close>

primrec fine :: "('a \<Rightarrow> bool) \<Rightarrow> 'a result \<Rightarrow> bool" where
  "fine P (Ok c) = P c"
| "fine P Fail = True"
| "fine P Undef = True"
| "fine P OutOfFuel = False"

lemma fine_seq: "fine P r \<Longrightarrow> (\<And>c. P c \<Longrightarrow> fine Q (f c)) \<Longrightarrow> fine Q (seq r f)"
  by (cases r) auto

lemma fine_mono: "fine P r \<Longrightarrow> (\<And>c. P c \<Longrightarrow> Q c) \<Longrightarrow> fine Q r"
  by (cases r) auto

lemma within_mono: "within j b c \<Longrightarrow> j \<le> k \<Longrightarrow> within k b c"
  by (auto simp: within_def)

lemma shorter_within: "shorter k b c \<Longrightarrow> within k b c"
  by (auto simp: shorter_def intro: within_mono)

lemma shorter_mono: "shorter j b c \<Longrightarrow> j \<le> k \<Longrightarrow> shorter k b c"
  by (auto simp: shorter_def intro: within_mono)

lemma within_shorter: "within j b c \<Longrightarrow> j < k \<Longrightarrow> shorter k b c"
  by (auto simp: shorter_def intro: within_mono)

section \<open>Reading and writing\<close>

lemma within_adv: "within k b c \<Longrightarrow> within k b (adv c)"
  by (auto simp: within_def adv_def)

lemma adv_shorter:
  assumes "within k b c" "peek c \<noteq> CHR 0x00"
  shows "shorter k b (adv c)"
proof -
  have "inp c \<noteq> []" using assms(2) by (auto simp: peek_def char_at_def)
  then show ?thesis using assms(1) by (cases "inp c") (auto simp: shorter_def within_def adv_def)
qed

lemma adv2_shorter: "within k b c \<Longrightarrow> peek c \<noteq> CHR 0x00 \<Longrightarrow> shorter k b (adv (adv c))"
  using adv_shorter by (auto simp: shorter_def intro: within_adv)

lemma within_drop: "within k b c \<Longrightarrow> within k b (c\<lparr>inp := drop i (inp c)\<rparr>)"
  by (auto simp: within_def)

lemma within_dropWhile: "within k b c \<Longrightarrow> within k b (c\<lparr>inp := dropWhile p (inp c)\<rparr>)"
  using length_dropWhile_le [of p "inp c"] by (auto simp: within_def)

lemma fine_match: "within k b c \<Longrightarrow> ch \<noteq> CHR 0x00 \<Longrightarrow> fine (shorter k b) (match_char ch c)"
  by (simp add: match_char_def adv_shorter)

lemma fine_put: "within k b c \<Longrightarrow> fine (within k b) (put ch c)"
  by (auto simp: put_def within_def)

lemma fine_puts: "within k b c \<Longrightarrow> fine (within k b) (puts s c)"
  by (induction s arbitrary: c) (auto intro: fine_seq fine_put)

lemma within_puts_any: "within k b c \<Longrightarrow> within k b (puts_any s c)"
proof (induction s arbitrary: c)
  case (Cons ch s)
  then show ?case using fine_put [OF Cons.prems, of ch] by (cases "put ch c") auto
qed simp

declare puts.simps [simp del] puts_any.simps [simp del]

lemma within_add_sub: "within k b c \<Longrightarrow> within k b (add_sub t c)"
  by (auto simp: add_sub_def within_def)

lemma within_adds: "within k b c \<Longrightarrow> within k b (add_from i c)" "within k b c \<Longrightarrow> within k b (add_if a i c)"
    "within k b c \<Longrightarrow> within k b (put_sub n c)"
  by (simp_all add: add_from_def add_if_def put_sub_def within_add_sub within_puts_any)

lemma fine_add_last: "within k b c \<Longrightarrow> fine (within k b) (add_last n c)"
  by (simp add: add_last_def within_add_sub)

lemma number_loop_length: "number_loop s v = Some (w, t) \<Longrightarrow> length t \<le> length s"
proof (induction s v rule: number_loop.induct)
  case (2 ch s val)
  then show ?case by (cases "is_digit ch"; cases "val > (- 1) div 10") (auto simp del: div_minus1_right)
qed simp

lemma digit_not_end: "is_digit ch \<Longrightarrow> ch \<noteq> CHR 0x00"
  by (auto simp: is_digit_def)

lemma read_number_shorter:
  assumes "within k b c" "dm_read_number c = Some (v, d)"
  shows "shorter k b d"
proof -
  obtain t where t: "is_digit (peek c)" "number_loop (inp c) 0 = Some (v, t)" "d = c\<lparr>inp := t\<rparr>"
    using assms(2) by (auto simp: dm_read_number_def split: if_splits)
  then obtain ch s where i: "inp c = ch # s" by (cases "inp c") (auto simp: peek_def char_at_def is_digit_def)
  then have "number_loop s (of_nat (digit_of ch)) = Some (v, t)" using t by (simp add: peek_def char_at_def split: if_splits)
  then have "length t \<le> length s" by (rule number_loop_length)
  then show ?thesis using assms(1) i t(3) by (auto simp: shorter_def within_def)
qed

lemma within_skip:
  assumes "within k b c"
  shows "within k b (skip_discriminator c)"
proof (cases "dm_read_number (adv c)")
  case (Some x)
  obtain v d where x: "x = (v, d)" by fastforce
  have "within k b d" using shorter_within [OF read_number_shorter [OF within_adv [OF assms]]] Some x by blast
  then show ?thesis using assms Some x by (simp add: skip_discriminator_def)
qed (simp add: skip_discriminator_def assms)

lemma fine_copy_name: "within k b c \<Longrightarrow> fine (within k b) (dm_copy_name n c)"
  by (induction n arbitrary: c) (auto intro: fine_seq fine_put within_adv)

lemma fine_source_name:
  assumes "within k b c"
  shows "fine (shorter k b) (parse_source_name c)"
proof (cases "dm_read_number c")
  case (Some x)
  obtain len d where x: "x = (len, d)" by fastforce
  have d: "0 < k" "within (k - 1) b d" using read_number_shorter [OF assms] Some x by (auto simp: shorter_def)
  have "fine (shorter k b) (puts s (d\<lparr>inp := drop i (inp d)\<rparr>))" for s i
    using fine_puts [OF within_drop [OF d(2)]] d(1) by (simp add: shorter_def [abs_def])
  moreover have "fine (shorter k b) (dm_copy_name n d)" for n
    using fine_copy_name [OF d(2)] d(1) by (simp add: shorter_def [abs_def])
  ultimately show ?thesis using d Some x by (simp add: parse_source_name_def shorter_def within_drop)
qed (simp add: parse_source_name_def)

lemma fine_substitution:
  assumes "within k b c"
  shows "fine (shorter k b) (parse_substitution c)"
  unfolding parse_substitution_def
proof (rule fine_seq [OF fine_match [OF assms]])
  fix c assume "shorter k b c"
  then have k: "0 < k" "within (k - 1) b c" by (auto simp: shorter_def)
  have "fine (shorter k b) (seq (match_char CHR ''_'' (adv c)) (\<lambda>c. Ok (put_sub d c)))" for d
    by (rule fine_seq [OF fine_match [OF within_adv [OF k(2)]]]) (auto simp: shorter_def [of k] k(1) within_adds dest: shorter_within)
  then show "fine (shorter k b) (case std_text (peek c) of Some t \<Rightarrow> Ok (puts_any t (adv c))
     | None \<Rightarrow> if peek c = CHR ''_'' then Ok (put_sub 0 (adv c))
         else if is_digit (peek c)
         then (let d = digit_of (peek c) in seq (match_char CHR ''_'' (adv c)) (\<lambda>c. Ok (put_sub d c)))
         else Fail)"
    using k by (auto simp: shorter_def within_adds within_puts_any within_adv Let_def split: option.splits)
qed simp

section \<open>Components of names\<close>

text \<open>The productions that a production calls are fine on shorter input.\<close>

definition args_fine :: "nat \<Rightarrow> nat \<Rightarrow> (Ctx \<Rightarrow> Ctx result) \<Rightarrow> bool" where
  "args_fine k b ta \<longleftrightarrow> (\<forall>c. within k b c \<longrightarrow> fine (within k b) (ta c))"

lemma fine_opt_args: "args_fine k b ta \<Longrightarrow> within k b c \<Longrightarrow> fine (within k b) (opt_args ta c)"
  by (simp add: opt_args_def args_fine_def)

lemma fine_nested_component:
  assumes ta: "args_fine (k - 1) b ta" and c: "within k b c"
  shows "fine (shorter k b) (nested_component ta c)"
proof -
  have o: "fine (shorter k b) (opt_args ta d)" if "shorter k b d" for d
    using that fine_mono [OF fine_opt_args [OF ta, of d]] by (auto simp: shorter_def)
  have name: "fine (shorter k b) (name_component ta c)"
    unfolding name_component_def by (rule fine_seq [OF fine_source_name [OF c]]) (auto intro!: o simp: shorter_def within_adds)
  have loc: "fine (shorter k b) (local_component ta c)"
    unfolding local_component_def
    by (rule fine_seq [OF fine_source_name [OF within_adv [OF c]]]) (auto intro!: o simp: shorter_def within_adds within_skip)
  have sub: "fine (shorter k b) (sub_component ta c)" if "peek c = CHR ''S''"
  proof -
    have a: "shorter k b (adv (adv c))" "shorter k b (adv c)" using that adv2_shorter [OF c] adv_shorter [OF c] by simp_all
    have "fine (shorter k b) (add_last n (puts_any t (adv (adv c))))" for n t
      using a fine_mono [OF fine_add_last [OF within_puts_any, of "k - 1" b]] by (auto simp: shorter_def)
    moreover have "fine (shorter k b) (seq (match_char CHR ''_'' (adv (adv c))) (\<lambda>c. Ok (put_sub d c)))" for d
      by (rule fine_seq [OF fine_match [OF shorter_within [OF a(1)]]]) (auto simp: shorter_def within_adds)
    moreover have "fine (shorter k b) (parse_source_name (adv c))" by (rule fine_source_name [OF shorter_within [OF a(2)]])
    moreover have "shorter k b (put_sub 0 (adv (adv c)))" using a(1) by (simp add: shorter_def within_adds)
    ultimately show ?thesis unfolding sub_component_def
      by (intro fine_seq [OF _ o]) (auto simp: Let_def split: option.split)
  qed
  show ?thesis unfolding nested_component_def using name loc sub adv2_shorter [OF c]
    by (auto simp: shorter_def within_puts_any split: option.splits)
qed

lemma fine_nested_name:
  assumes cs: "\<And>d. within (k - 1) b d \<Longrightarrow> fine (within (k - 1) b) (cs d)" and c: "within k b c"
  shows "fine (shorter k b) (parse_nested_name cs c)"
  unfolding parse_nested_name_def Let_def
proof (rule fine_seq [OF fine_match [OF c]])
  fix d assume "shorter k b d"
  then have k: "0 < k" "within (k - 1) b d" by (auto simp: shorter_def)
  let ?e = "if peek (d\<lparr>inp := dropWhile is_cv (inp d)\<rparr>) \<in> set ''OR'' then adv (d\<lparr>inp := dropWhile is_cv (inp d)\<rparr>)
    else d\<lparr>inp := dropWhile is_cv (inp d)\<rparr>"
  have "within (k - 1) b ?e" using k(2) by (auto intro: within_adv within_dropWhile)
  from cs [OF this] show "fine (shorter k b) (seq (cs ?e) (match_char CHR ''E''))"
    by (rule fine_seq) (auto intro!: fine_mono [OF fine_match] simp: shorter_def [of k] k(1) dest: shorter_within)
qed simp

section \<open>Types\<close>

lemma fine_builtin:
  assumes "within k b c"
  shows "fine (shorter k b) (parse_builtin_type c)"
proof -
  have "builtin_name (CHR 0x00) = None" by (simp add: builtin_name_def)
  then have "peek c \<noteq> CHR 0x00" if "builtin_name (peek c) = Some t" for t using that by auto
  then have a: "shorter k b (puts_any t (adv c))" if "builtin_name (peek c) = Some t" for t
    using that adv_shorter [OF assms] by (auto simp: shorter_def within_puts_any)
  have "shorter k b (puts_any t (adv (adv c)))" if "peek c = CHR ''D''" for t
    using that adv2_shorter [OF assms] by (auto simp: shorter_def within_puts_any)
  then show ?thesis using a by (auto simp: parse_builtin_type_def split: option.split)
qed

lemma fine_put_cvs: "within k b c \<Longrightarrow> fine (within k b) (put_cvs s c)"
  by (induction s arbitrary: c) (auto intro: fine_seq fine_puts within_adv)

lemma fine_cvs:
  assumes "within k b c" "takeWhile is_cv (inp c) \<noteq> []"
  shows "fine (shorter k b) (put_cvs (takeWhile is_cv (inp c)) c)"
proof -
  obtain ch s where i: "inp c = ch # s" "is_cv ch" using assms(2) by (cases "inp c") (auto split: if_splits)
  have "peek c \<noteq> CHR 0x00" using i by (auto simp: peek_def char_at_def is_cv_def)
  then have a: "0 < k" "within (k - 1) b (adv c)" using adv_shorter [OF assms(1)] by (auto simp: shorter_def)
  have "fine (within (k - 1) b) (seq (puts (cv_text ch) (adv c)) (put_cvs t))" for t
    by (rule fine_seq [OF fine_puts [OF a(2)] fine_put_cvs])
  then show ?thesis using i a(1) by (simp add: shorter_def [abs_def])
qed

lemma fine_template_param:
  assumes "shorter k b (adv c)"
  shows "fine (shorter k b) (template_param c)"
proof -
  have a: "0 < k" "within (k - 1) b (adv c)" using assms by (auto simp: shorter_def)
  have "within (k - 1) b (if is_digit (peek (adv c)) then adv (adv c) else adv c)" using a(2) by (simp add: within_adv)
  note m = fine_match [OF this, of "CHR ''_''"]
  show ?thesis unfolding template_param_def Let_def
    by (rule fine_seq [OF m]) (auto intro!: fine_seq [OF fine_put] intro: fine_mono [OF fine_puts] dest!: shorter_within
        simp: shorter_def [of k] a(1))
qed

lemma fine_array_bound:
  assumes "within k b c"
  shows "fine (within k b) (array_bound c)"
  unfolding array_bound_def
proof (rule fine_seq [OF fine_put [OF assms]], rule fine_seq [OF _ fine_put])
  fix d assume d: "within k b d"
  have "fine (within k b) (puts s e)" if "dm_read_number d = Some (n, e)" for s n e
    using fine_puts [OF shorter_within [OF read_number_shorter [OF d that]]] .
  then show "fine (within k b) (if is_digit (peek d)
      then (case dm_read_number d of None \<Rightarrow> Fail
        | Some (n, c) \<Rightarrow> (let n = unat n in
            puts ((if n \<ge> 100 then [digit_char (n div 100 mod 10)] else []) @
                  (if n \<ge> 10 then [digit_char (n div 10 mod 10)] else []) @ [digit_char (n mod 10)]) c))
      else Ok d)"
    using d by (auto simp: Let_def split: option.split)
qed

lemma fine_type_body:
  assumes ts: "\<And>a d. 0 < k \<Longrightarrow> within (k - 1) b d \<Longrightarrow> fine (within (k - 1) b) (ts a d)"
    and nn: "fine (shorter k b) (nn c)"
    and bf: "\<And>d. 0 < k \<Longrightarrow> within (k - 1) b d \<Longrightarrow> fine (within (k - 1) b) (bf d)"
    and c: "within k b c"
  shows "fine (shorter k b) (parse_type_sub ts nn bf a c)"
proof -
  define fin where "fin = (\<lambda>d. Ok (add_if a (length (outp c)) d))"
  have fin: "fine (shorter k b) (fin d)" if "0 < k" "within (k - 1) b d" for d
    using that by (simp add: fin_def shorter_def within_adds)
  have suf: "fine (shorter k b) (seq (puts s d) fin)" if "0 < k" "within (k - 1) b d" for s d
    using that by (intro fine_seq [OF fine_puts fin])
  have tsq: "fine (shorter k b) (seq (ts x d) f)"
    if "0 < k" "within (k - 1) b d" "\<And>e. within (k - 1) b e \<Longrightarrow> fine (shorter k b) (f e)" for x d f
    using that by (intro fine_seq [OF ts])
  have adv: "0 < k \<and> within (k - 1) b (adv c)" if "peek c \<noteq> CHR 0x00" using adv_shorter [OF c that] by (simp add: shorter_def)
  have cv: "fine (shorter k b) (seq (put_cvs (takeWhile is_cv (inp c)) c) (\<lambda>d. seq (ts a d) (\<lambda>d. Ok (add_if x y d))))"
    if "takeWhile is_cv (inp c) \<noteq> []" for x y
    by (rule fine_seq [OF fine_cvs [OF c that]]) (auto simp: shorter_def within_adds intro!: tsq)
  have par: "fine (shorter k b) (seq (put CHR ''('' (adv c)) (\<lambda>c. seq (bf c) (\<lambda>c.
          seq (put CHR '')'' (if peek c = CHR ''E'' then adv c else c)) fin)))" if "peek c = CHR ''F''"
  proof -
    have k: "0 < k" "within (k - 1) b (adv c)" using adv that by simp_all
    have "fine (shorter k b) (seq (put ch e) fin)" if "within (k - 1) b e" for ch e
      using that k(1) by (intro fine_seq [OF fine_put fin])
    then have "fine (shorter k b) (seq (put CHR '')'' (if peek e = CHR ''E'' then adv e else e)) fin)" if "within (k - 1) b e" for e
      using that by (simp add: within_adv)
    then show ?thesis by (intro fine_seq [OF fine_put [OF k(2)]] fine_seq [OF bf [OF k(1)]])
  qed
  have arr: "fine (shorter k b) (seq (array_bound (adv c)) (\<lambda>c. seq (ts True c) fin))" if "peek c = CHR ''A''"
    using that adv by (auto intro!: fine_seq [OF fine_array_bound] tsq fin)
  have mem: "fine (shorter k b) (seq (ts True (adv c)) (\<lambda>c. seq (puts s c) (\<lambda>c. seq (ts True c) fin)))" if "peek c = CHR ''M''" for s
    using that adv by (auto intro!: tsq fine_seq [OF fine_puts] fin)
  have ptr: "fine (shorter k b) (seq (ts True (adv c)) (\<lambda>c. seq (puts s c) fin))" if "peek c \<noteq> CHR 0x00" for s
    using that adv by (auto intro!: tsq suf)
  have nest: "fine (shorter k b) (seq (nn c) (\<lambda>d. Ok (add_if a i (add_if a j d))))" for i j
    by (rule fine_seq [OF nn]) (auto simp: shorter_def within_adds)
  have sub: "fine (shorter k b) (seq (parse_substitution c) fin)"
    by (rule fine_seq [OF fine_substitution [OF c]]) (auto simp: shorter_def intro!: fin)
  have par2: "fine (shorter k b) (seq (template_param c) fin)" if "peek c = CHR ''T''"
    using that by (intro fine_seq [OF fine_template_param [OF adv_shorter [OF c]]]) (auto simp: shorter_def intro!: fin)
  show ?thesis unfolding parse_type_sub_def Let_def fin_def [symmetric]
    using cv fine_builtin [OF c] ptr mem nest sub par2 par arr by auto
qed

section \<open>All productions\<close>

lemma fine_loop_round:
  "within k b c \<Longrightarrow> fine (within k b) (if first then Ok c else puts s c)"
  by (simp add: fine_puts)

lemma fine_template_args:
  assumes "\<And>d. within k b d \<Longrightarrow> fine (within k b) (args d)"
  shows "args_fine k b (parse_template_args args)"
  unfolding args_fine_def parse_template_args_def
  by (auto intro!: fine_seq [OF fine_match] fine_seq [OF fine_put] fine_seq [OF assms] fine_put dest!: shorter_within)

lemma fine_template_arg:
  assumes "within k b c" "fine (shorter k b) (ts True c)"
  shows "fine (shorter k b) (parse_template_arg ts c)"
proof -
  have "fine (shorter k b) (seq (puts s (adv c)) (\<lambda>c. match_char CHR ''E'' (c\<lparr>inp := drop (length s) (inp c)\<rparr>)))" for s
    by (auto intro!: fine_seq [OF fine_puts] fine_match within_drop within_adv assms(1))
  then show ?thesis using assms(2) by (auto simp: parse_template_arg_def Let_def split: option.split)
qed

lemma productions_fine:
  "\<And>k c add. within k b c \<Longrightarrow> 2 * k < n \<Longrightarrow> fine (shorter k b) (type_sub n add c)"
  "\<And>k c first. within k b c \<Longrightarrow> 2 * k + 1 < n \<Longrightarrow> fine (within k b) (components n first c)"
  "\<And>k c first. within k b c \<Longrightarrow> 2 * k + 1 < n \<Longrightarrow> fine (within k b) (args_loop n first c)"
  "\<And>k c first. within k b c \<Longrightarrow> 2 * k + 1 < n \<Longrightarrow> fine (within k b) (bare_loop n first c)"
proof (induction n)
  case (Suc n)
  have loop: "fine (within k b) (seq (if first then Ok c else puts s c) (\<lambda>c. seq (p c) (l False)))"
    if "within k b c" "\<And>d. within k b d \<Longrightarrow> fine (shorter k b) (p d)"
      "\<And>j d f. within j b d \<Longrightarrow> 2 * j + 1 < n \<Longrightarrow> fine (within j b) (l f d)" "2 * k < n" for k c s p l first
  proof (rule fine_seq [OF fine_loop_round [OF that(1)]], rule fine_seq [OF that(2)])
    fix d assume "shorter k b d"
    then have "0 < k" "within (k - 1) b d" by (auto simp: shorter_def)
    then have "fine (within (k - 1) b) (l False d)" using that(3) [of "k - 1" d False] that(4) by auto
    then show "fine (within k b) (l False d)" by (rule fine_mono) (auto intro: within_mono)
  qed
  { case (1 k c add)
    show ?case unfolding type_sub.simps
    proof (rule fine_type_body [OF _ _ _ 1(1)])
      show "fine (within (k - 1) b) (type_sub n x d)" if "0 < k" "within (k - 1) b d" for x d
      proof -
        have "fine (shorter (k - 1) b) (type_sub n x d)" using that 1(2) Suc.IH(1) [of "k - 1" d x] by auto
        then show ?thesis by (rule fine_mono) (rule shorter_within)
      qed
      show "fine (within (k - 1) b) (bare_loop n True d)" if "0 < k" "within (k - 1) b d" for d
        using that 1(2) Suc.IH(4) [of "k - 1" d True] by auto
      show "fine (shorter k b) (parse_nested_name (components n True) c)"
      proof (cases "k = 0")
        case True
        then have "peek c = CHR 0x00" using 1(1) by (auto simp: within_def peek_def char_at_def)
        then show ?thesis by (simp add: parse_nested_name_def match_char_def)
      next
        case False
        then show ?thesis using 1(2) by (intro fine_nested_name [OF Suc.IH(2) 1(1)]) auto
      qed
    qed
  next
    case (2 k c first)
    show ?case
    proof (cases "peek c \<noteq> CHR ''E'' \<and> \<not> eof c")
      case True
      then have "0 < k" using 2(1) by (cases "inp c") (auto simp: within_def eof_def)
      then have "fine (shorter k b) (nested_component (parse_template_args (args_loop n True)) d)" if "within k b d" for d
        using 2(2) that by (intro fine_nested_component fine_template_args Suc.IH(3)) auto
      then show ?thesis unfolding components.simps using True 2
        by (simp only: if_True simp_thms) (rule loop [OF 2(1) _ Suc.IH(2)], auto)
    qed (use 2 in auto)
  next
    case (3 k c first)
    have "fine (shorter k b) (parse_template_arg (type_sub n) d)" if "within k b d" for d
      using that 3(2) by (intro fine_template_arg Suc.IH(1)) auto
    then have "fine (within k b) (seq (if first then Ok c else puts '', '' c) (\<lambda>c. seq (parse_template_arg (type_sub n) c) (args_loop n False)))"
      using 3 by (intro loop [OF 3(1) _ Suc.IH(3)]) auto
    then show ?case using 3(1) by simp
  next
    case (4 k c first)
    have "fine (shorter k b) (type_sub n True d)" if "within k b d" for d using that 4(2) by (intro Suc.IH(1)) auto
    then have "fine (within k b) (seq (if first then Ok c else puts '', '' c) (\<lambda>c. seq (type_sub n True c) (bare_loop n False)))"
      using 4 by (intro loop [OF 4(1) _ Suc.IH(4)]) auto
    then show ?case using 4(1) by simp
  }
qed simp_all

section \<open>Demangling\<close>

lemma fine_parameter_list: "within k b c \<Longrightarrow> 2 * k + 1 < n \<Longrightarrow> fine (within k b) (parameter_list n c)"
  unfolding parameter_list_def parse_bare_function_type_def
  by (auto intro!: fine_seq [OF fine_put] fine_seq [OF productions_fine(4)] fine_put)

lemma fine_special_name:
  assumes "within k b c" "2 * k + 1 < n"
  shows "fine (within k b) (parse_special_name n c)"
  unfolding parse_special_name_def
proof (rule fine_seq [OF fine_match [OF assms(1)]])
  fix d assume "shorter k b d"
  then have "within k b (puts_any t (adv d))" for t by (auto intro: within_puts_any within_adv shorter_within)
  then have "fine (within k b) (parse_type n (puts_any t (adv d)))" for t
    unfolding parse_type_def using assms(2) by (intro fine_mono [OF productions_fine(1) shorter_within]) auto
  then show "fine (within k b) (if eof d then Fail
     else case special_text (peek d) of None \<Rightarrow> Fail | Some t \<Rightarrow> parse_type n (puts_any t (adv d)))"
    by (auto split: option.split)
qed simp

lemma fine_encoding:
  assumes "within k b c" "2 * k + 1 < n"
  shows "fine (within k b) (parse_encoding n c)"
proof -
  have rest: "fine (within k b) (if eof d \<or> peek d = CHR ''E'' then Ok d else parameter_list n d)" if "shorter k b d" for d
    using fine_parameter_list [OF _ assms(2)] shorter_within [OF that] by simp
  have "fine (shorter k b) (parse_nested_name (components n True) c)"
    using assms by (intro fine_nested_name productions_fine(2)) auto
  from fine_seq [OF this rest] have 1: "fine (within k b) (seq (parse_nested_name (components n True) c)
      (\<lambda>c. if eof c \<or> peek c = CHR ''E'' then Ok c else parameter_list n c))" .
  have 2: "fine (within k b) (seq (parse_source_name (adv c)) (parameter_list n))"
    by (rule fine_seq [OF fine_source_name [OF within_adv [OF assms(1)]]]) (auto intro!: fine_parameter_list shorter_within assms(2))
  note 3 = fine_seq [OF fine_source_name [OF assms(1)] rest]
  show ?thesis unfolding parse_encoding_def using 1 2 3 fine_special_name [OF assms] by auto
qed

lemma fine_internal:
  "fine (\<lambda>c. length (outp c) \<le> b) (demangle_internal s \<lparr>inp = i, outp = [], room = b, subs = []\<rparr>)"
proof (cases "take 2 s = ''_Z''")
  case True
  then have l: "2 \<le> length s" by (cases s; cases "tl s") auto
  let ?c = "\<lparr>inp = drop 2 s, outp = [], room = b, subs = []\<rparr>"
  have "within (length s - 2) b ?c" by (simp add: within_def)
  then have "fine (within (length s - 2) b) (parse_encoding (2 * length s) ?c)" using l by (intro fine_encoding) auto
  then have "fine (\<lambda>c. length (outp c) \<le> b) (parse_encoding (2 * length s) ?c)" by (rule fine_mono) (simp add: within_def)
  then show ?thesis using True by (simp add: demangle_internal_def)
qed (simp add: demangle_internal_def)

text \<open>C32. Demangling ends for every name: the productions call each other at most twice for each character, so
  that the recursion, whose depth nothing else limits, never needs more than twice the length of the
  name.\<close>

theorem demangle_terminates: "demangle mangled bufsz \<noteq> OutOfFuel"
proof (cases mangled)
  case (Some s)
  then show ?thesis using fine_internal [of "bufsz - 1" s s]
    by (cases "demangle_internal s \<lparr>inp = s, outp = [], room = bufsz - 1, subs = []\<rparr>") (simp_all add: demangle_def)
qed (simp add: demangle_def)

text \<open>C33. The text that is returned fits into the buffer with its final 0, whether the name could be demangled or
  not.\<close>

theorem demangle_fits:
  assumes "2 \<le> bufsz" "demangle (Some s) bufsz = Ok (Some t)"
  shows "length t < bufsz"
  using assms fine_internal [of "bufsz - 1" s s]
  by (cases "demangle_internal s \<lparr>inp = s, outp = [], room = bufsz - 1, subs = []\<rparr>") (auto simp: demangle_def)

theorem demangle_fits_witness: "demangle (Some ''_Z3fooi'') 6 = Ok (Some ''_Z3fo'') \<and> length ''_Z3fo'' < (6 :: nat)"
proof -
  have "demangle (Some ''_Z3fooi'') 6 = Ok (Some ''_Z3fo'')" by code_simp
  then show ?thesis using demangle_fits [of 6 "''_Z3fooi''" "''_Z3fo''"] by simp
qed

lemma puts_any_length: "length (outp (puts_any s c)) \<le> length (outp c) + length s"
proof (induction s arbitrary: c)
  case (Cons ch s)
  show ?case
  proof (cases "put ch c")
    case (Ok d)
    then have "length (outp d) = Suc (length (outp c))" by (auto simp: put_def split: if_splits)
    then show ?thesis using Cons.IH [of d] Ok by (simp add: puts_any.simps)
  qed (simp_all add: puts_any.simps)
qed (simp add: puts_any.simps)

lemma string_component_undefined:
  assumes "inp c = ''Ss'' @ rest" "outp c = []"
  shows "components (Suc n) True c = Undef"
proof -
  have "length (outp (puts_any ''std::string'' (adv (adv c)))) \<le> 11"
    using puts_any_length [of "''std::string''" "adv (adv c)"] assms(2) by (simp add: adv_def)
  then have "sub_component ta c = Undef" for ta
    using assms(1) by (simp add: sub_component_def nested_std_def peek1_def char_at_def add_last_def)
  then show ?thesis using assms(1) by (simp add: nested_component_def peek_def char_at_def eof_def)
qed

text \<open>Names as they occur in the kernel.\<close>

lemma demangle_examples:
  "demangle (Some ''_ZN4tori5sched5yieldEv'') 256 = Ok (Some ''tori::sched::yield(void)'')"
  "demangle (Some ''_Z4copyPcPKcm'') 256 = Ok (Some ''copy(char*, const char*, unsigned long)'')"
  by code_simp+

lemma nested_name_qualified:
  assumes "set cv \<subseteq> {CHR ''r'', CHR ''V'', CHR ''K''}" and "ref \<in> {[], ''O'', ''R''}"
  shows "parse_nested_name f (c\<lparr>inp := CHR ''N'' # cv @ ref @ ''Ss'' @ rest\<rparr>)
    = seq (f (c\<lparr>inp := ''Ss'' @ rest\<rparr>)) (match_char CHR ''E'')"
proof -
  have "dropWhile is_cv (cv @ ref @ ''Ss'' @ rest) = ref @ ''Ss'' @ rest"
    using assms by (subst dropWhile_append2) (auto simp: is_cv_def)
  then show ?thesis
    using assms(2) by (auto simp: parse_nested_name_def match_char_def peek_def char_at_def adv_def Let_def is_cv_def)
qed

text \<open>C34. The demangler reads before its buffer for every mangled name of a member of the standard string under its
  abbreviation \<open>Ss\<close>, with or without qualifiers of the member (\<open>_ZNSs\<close>\<dots>, \<open>_ZNKSs\<close>\<dots>): it enters twelve characters
  into the table of substitutions where it has written eleven, at the start of the output.\<close>

theorem demangle_reads_before_buffer:
  assumes "2 \<le> bufsz" and "set cv \<subseteq> {CHR ''r'', CHR ''V'', CHR ''K''}" and "ref \<in> {[], ''O'', ''R''}"
  shows "demangle (Some (''_ZN'' @ cv @ ref @ ''Ss'' @ rest)) bufsz = Undef"
proof -
  let ?s = "cv @ ref @ ''Ss'' @ rest"
  let ?c = "\<lparr>inp = CHR ''N'' # ?s, outp = [], room = bufsz - 1, subs = []\<rparr>"
  have "components (Suc n) True (?c\<lparr>inp := ''Ss'' @ rest\<rparr>) = Undef" for n
    by (rule string_component_undefined) simp_all
  then have "parse_nested_name (components (Suc n) True) ?c = Undef" for n
    using nested_name_qualified [OF assms(2,3), where f = "components (Suc n) True" and c = ?c and rest = rest] by (simp del: components.simps)
  then have "parse_encoding (Suc n) ?c = Undef" for n
    by (simp add: parse_encoding_def peek_def char_at_def del: components.simps)
  moreover have "2 * length (''_ZN'' @ ?s) = Suc (5 + 2 * length ?s)" by simp
  ultimately have "demangle_internal (''_ZN'' @ ?s) \<lparr>inp = ''_ZN'' @ ?s, outp = [], room = bufsz - 1, subs = []\<rparr> = Undef"
    unfolding demangle_internal_def by (simp del: parse_encoding_def length_append)
  then show ?thesis using assms(1) by (simp add: demangle_def)
qed

text \<open>The names of \<open>clear()\<close> and \<open>empty() const\<close>.\<close>

theorem demangle_reads_before_buffer_witness:
  "demangle (Some ''_ZNSs5clearEv'') 256 = Undef \<and> demangle (Some ''_ZNKSs5emptyEv'') 256 = Undef"
  using demangle_reads_before_buffer [of 256 "[]" "[]" "''5clearEv''"]
    demangle_reads_before_buffer [of 256 "''K''" "[]" "''5emptyEv''"] by simp

end
