(* ===== verification/Tori_Console.thy ===== *)
theory Tori_Console
  imports Tori_Keyboard
begin

unbundle bit_operations_syntax

text \<open>
  The console on the framebuffer (\<open>kernel/src/log/framebuffer_console.cpp\<close>): characters are drawn as cells of
  eight by eight pixels at a cursor that wraps at the edges.  The memory of the screen is a function from the
  addresses of the pixels to their colors.
\<close>

section \<open>State\<close>

datatype PixelFormat = PixelFormat_Unknown | PixelFormat_Rgb

record Framebuffer_info =
  fb_address :: u64
  fb_width :: u64
  fb_height :: u64
  fb_pitch :: u64
  fb_bits_per_pixel :: u16
  fb_red_mask_size :: u8
  fb_red_mask_shift :: u8
  fb_green_mask_size :: u8
  fb_green_mask_shift :: u8
  fb_blue_mask_size :: u8
  fb_blue_mask_shift :: u8
  fb_format :: PixelFormat

record ConsoleState =
  pixels :: u64
  con_width :: u64
  con_height :: u64
  pitch_pixels :: u64
  cursor_x :: u64
  cursor_y :: u64
  available :: bool
  vram :: "u64 \<Rightarrow> u32"

definition pixel_address :: "ConsoleState \<Rightarrow> u64 \<Rightarrow> u64 \<Rightarrow> u64" where
  "pixel_address s x y = pixels s + 4 * (y * pitch_pixels s + x)"

definition glyph_width :: u64 where "glyph_width = 8"
definition glyph_height :: u64 where "glyph_height = 8"
definition columns_margin :: u64 where "columns_margin = 1"

section \<open>Glyphs\<close>

definition upper_case :: "char \<Rightarrow> char" where
  "upper_case c = (if (97 :: nat) \<le> of_char c \<and> of_char c \<le> (122 :: nat) then char_of (of_char c - 97 + 65 :: nat) else c)"

text \<open>The rows of the characters, and those of every other one.\<close>

definition glyph_table :: "(char \<times> u8 list) list" where
  "glyph_table =
     [(CHR ''A'', [0x0e, 0x11, 0x11, 0x1f, 0x11, 0x11, 0x11]), (CHR ''B'', [0x1e, 0x11, 0x11, 0x1e, 0x11, 0x11, 0x1e]),
      (CHR ''C'', [0x0e, 0x11, 0x10, 0x10, 0x10, 0x11, 0x0e]), (CHR ''D'', [0x1e, 0x11, 0x11, 0x11, 0x11, 0x11, 0x1e]),
      (CHR ''E'', [0x1f, 0x10, 0x10, 0x1e, 0x10, 0x10, 0x1f]), (CHR ''F'', [0x1f, 0x10, 0x10, 0x1e, 0x10, 0x10, 0x10]),
      (CHR ''G'', [0x0e, 0x11, 0x10, 0x17, 0x11, 0x11, 0x0f]), (CHR ''H'', [0x11, 0x11, 0x11, 0x1f, 0x11, 0x11, 0x11]),
      (CHR ''I'', [0x0e, 0x04, 0x04, 0x04, 0x04, 0x04, 0x0e]), (CHR ''J'', [0x07, 0x02, 0x02, 0x02, 0x12, 0x12, 0x0c]),
      (CHR ''K'', [0x11, 0x12, 0x14, 0x18, 0x14, 0x12, 0x11]), (CHR ''L'', [0x10, 0x10, 0x10, 0x10, 0x10, 0x10, 0x1f]),
      (CHR ''M'', [0x11, 0x1b, 0x15, 0x15, 0x11, 0x11, 0x11]), (CHR ''N'', [0x11, 0x19, 0x15, 0x13, 0x11, 0x11, 0x11]),
      (CHR ''O'', [0x0e, 0x11, 0x11, 0x11, 0x11, 0x11, 0x0e]), (CHR ''P'', [0x1e, 0x11, 0x11, 0x1e, 0x10, 0x10, 0x10]),
      (CHR ''Q'', [0x0e, 0x11, 0x11, 0x11, 0x15, 0x12, 0x0d]), (CHR ''R'', [0x1e, 0x11, 0x11, 0x1e, 0x14, 0x12, 0x11]),
      (CHR ''S'', [0x0f, 0x10, 0x10, 0x0e, 0x01, 0x01, 0x1e]), (CHR ''T'', [0x1f, 0x04, 0x04, 0x04, 0x04, 0x04, 0x04]),
      (CHR ''U'', [0x11, 0x11, 0x11, 0x11, 0x11, 0x11, 0x0e]), (CHR ''V'', [0x11, 0x11, 0x11, 0x11, 0x11, 0x0a, 0x04]),
      (CHR ''W'', [0x11, 0x11, 0x11, 0x15, 0x15, 0x15, 0x0a]), (CHR ''X'', [0x11, 0x11, 0x0a, 0x04, 0x0a, 0x11, 0x11]),
      (CHR ''Y'', [0x11, 0x11, 0x0a, 0x04, 0x04, 0x04, 0x04]), (CHR ''Z'', [0x1f, 0x01, 0x02, 0x04, 0x08, 0x10, 0x1f]),
      (CHR ''0'', [0x0e, 0x11, 0x13, 0x15, 0x19, 0x11, 0x0e]), (CHR ''1'', [0x04, 0x0c, 0x04, 0x04, 0x04, 0x04, 0x0e]),
      (CHR ''2'', [0x0e, 0x11, 0x01, 0x02, 0x04, 0x08, 0x1f]), (CHR ''3'', [0x1e, 0x01, 0x01, 0x0e, 0x01, 0x01, 0x1e]),
      (CHR ''4'', [0x02, 0x06, 0x0a, 0x12, 0x1f, 0x02, 0x02]), (CHR ''5'', [0x1f, 0x10, 0x10, 0x1e, 0x01, 0x01, 0x1e]),
      (CHR ''6'', [0x0e, 0x10, 0x10, 0x1e, 0x11, 0x11, 0x0e]), (CHR ''7'', [0x1f, 0x01, 0x02, 0x04, 0x08, 0x08, 0x08]),
      (CHR ''8'', [0x0e, 0x11, 0x11, 0x0e, 0x11, 0x11, 0x0e]), (CHR ''9'', [0x0e, 0x11, 0x11, 0x0f, 0x01, 0x01, 0x0e]),
      (CHR ''['', [0x0e, 0x08, 0x08, 0x08, 0x08, 0x08, 0x0e]), (CHR '']'', [0x0e, 0x02, 0x02, 0x02, 0x02, 0x02, 0x0e]),
      (CHR ''('', [0x02, 0x04, 0x08, 0x08, 0x08, 0x04, 0x02]), (CHR '')'', [0x08, 0x04, 0x02, 0x02, 0x02, 0x04, 0x08]),
      (CHR '':'', [0x00, 0x04, 0x04, 0x00, 0x04, 0x04, 0x00]), (CHR ''/'', [0x01, 0x01, 0x02, 0x04, 0x08, 0x10, 0x10]),
      (CHR ''-'', [0x00, 0x00, 0x00, 0x1f, 0x00, 0x00, 0x00]), (CHR ''='', [0x00, 0x00, 0x1f, 0x00, 0x1f, 0x00, 0x00]),
      (CHR ''.'', [0x00, 0x00, 0x00, 0x00, 0x00, 0x0c, 0x0c]), (CHR '','', [0x00, 0x00, 0x00, 0x00, 0x0c, 0x04, 0x08]),
      (CHR '';'', [0x00, 0x04, 0x04, 0x00, 0x04, 0x04, 0x08]), (CHR ''_'', [0x00, 0x00, 0x00, 0x00, 0x00, 0x00, 0x1f])]"

definition unknown_glyph :: "u8 list" where
  "unknown_glyph = [0x1f, 0x11, 0x02, 0x04, 0x04, 0x00, 0x04]"

definition glyph_pattern :: "char \<Rightarrow> nat \<Rightarrow> u8" where
  "glyph_pattern c row =
     (if row \<ge> 7 then 0
      else let c = upper_case c in
        case map_of glyph_table c of Some p \<Rightarrow> p ! row
        | None \<Rightarrow> if c = CHR '' '' then 0 else unknown_glyph ! row)"

definition glyph_row :: "char \<Rightarrow> nat \<Rightarrow> u8" where
  "glyph_row c row = push_bit 2 (glyph_pattern c row)"

section \<open>Drawing\<close>

definition put_pixel :: "u64 \<Rightarrow> u64 \<Rightarrow> u32 \<Rightarrow> ConsoleState \<Rightarrow> ConsoleState" where
  "put_pixel x y color s =
     (if \<not> available s \<or> x \<ge> con_width s \<or> y \<ge> con_height s then s
      else s\<lparr>vram := (vram s)(pixel_address s x y := color)\<rparr>)"

definition newline :: "ConsoleState \<Rightarrow> ConsoleState" where
  "newline s =
     (let s = s\<lparr>cursor_x := 0, cursor_y := cursor_y s + 1\<rparr>; max_rows = con_height s div glyph_height in
      if cursor_y s \<ge> max_rows then s\<lparr>cursor_y := 0\<rparr> else s)"

text \<open>The places of a cell in the order in which they are drawn, as pairs of row and column.\<close>

definition cell_places :: "(nat \<times> nat) list" where
  "cell_places = List.product [0 ..< 8] [0 ..< 8]"

definition cell_color :: "char \<Rightarrow> u32 \<Rightarrow> u32 \<Rightarrow> nat \<Rightarrow> nat \<Rightarrow> u32" where
  "cell_color c fg bg y x = (if glyph_row c y AND drop_bit x 0x80 \<noteq> 0 then fg else bg)"

definition draw_char :: "char \<Rightarrow> u32 \<Rightarrow> u32 \<Rightarrow> ConsoleState \<Rightarrow> ConsoleState" where
  "draw_char c fg bg s =
     (let x0 = cursor_x s * glyph_width; y0 = cursor_y s * glyph_height in
      fold (\<lambda>(y, x). put_pixel (x0 + of_nat x) (y0 + of_nat y) (cell_color c fg bg y x)) cell_places s)"

section \<open>Interface\<close>

definition console_init :: "Framebuffer_info \<Rightarrow> ConsoleState \<Rightarrow> ConsoleState" where
  "console_init fb s =
     (if fb_address fb = 0 \<or> fb_bits_per_pixel fb \<noteq> 32 then s\<lparr>available := False\<rparr>
      else s\<lparr>pixels := fb_address fb, con_width := fb_width fb, con_height := fb_height fb, pitch_pixels := fb_pitch fb div 4,
             cursor_x := 0, cursor_y := 0, available := True\<rparr>)"

definition write_char :: "char \<Rightarrow> u32 \<Rightarrow> ConsoleState \<Rightarrow> ConsoleState" where
  "write_char c color s =
     (if \<not> available s then s
      else if c = CHR 0x0A then newline s
      else if c = CHR 0x0D then s\<lparr>cursor_x := 0\<rparr>
      else let s = draw_char c color 0 s; s = s\<lparr>cursor_x := cursor_x s + 1\<rparr> in
        if cursor_x s + columns_margin \<ge> con_width s div glyph_width then newline s else s)"

definition console_write_string :: "string option \<Rightarrow> u32 \<Rightarrow> ConsoleState \<Rightarrow> ConsoleState" where
  "console_write_string text color s =
     (case text of None \<Rightarrow> s | Some t \<Rightarrow> fold (\<lambda>c. write_char c color) t s)"

text \<open>What the line editor of the terminal shows for a character: \<^const>\<open>put_char\<close> writes it in the same
  branches in which it changes the line.\<close>

definition term_color :: u32 where "term_color = 0x00ffffff"

definition put_char_echo :: "u8 \<Rightarrow> terminal \<Rightarrow> ConsoleState \<Rightarrow> ConsoleState" where
  "put_char_echo c t s =
     (if g_line_ready t then s
      else if c = 8 then (if g_pos t > 0 then write_char (CHR 0x08) term_color s else s)
      else if c = 10 then write_char (CHR 0x0A) term_color s
      else if sint c < 0x20 \<or> sint c > 0x7E then s
      else if g_pos t < line_buf_size - 1 then write_char (char_of (unat c)) term_color s
      else s)"

section \<open>The cursor\<close>

text \<open>A screen of at least three columns and one row, and a cursor inside its cells.\<close>

definition console_ok :: "ConsoleState \<Rightarrow> bool" where
  "console_ok s \<longleftrightarrow> 3 \<le> unat (con_width s) div 8 \<and> 1 \<le> unat (con_height s) div 8
     \<and> unat (con_width s) \<le> unat (pitch_pixels s) \<and> unat (pixels s) + 4 * (unat (con_height s) * unat (pitch_pixels s)) < 2 ^ 64
     \<and> unat (cursor_x s) + 1 < unat (con_width s) div 8 \<and> unat (cursor_y s) < unat (con_height s) div 8"

abbreviation same_screen :: "ConsoleState \<Rightarrow> ConsoleState \<Rightarrow> bool" where
  "same_screen s t \<equiv> con_width t = con_width s \<and> con_height t = con_height s \<and> pitch_pixels t = pitch_pixels s
     \<and> available t = available s \<and> pixels t = pixels s"

lemma put_pixel_keeps [simp]:
  "con_width (put_pixel x y c s) = con_width s" "con_height (put_pixel x y c s) = con_height s"
  "pixels (put_pixel x y c s) = pixels s" "pitch_pixels (put_pixel x y c s) = pitch_pixels s" "available (put_pixel x y c s) = available s"
  "cursor_x (put_pixel x y c s) = cursor_x s" "cursor_y (put_pixel x y c s) = cursor_y s"
  by (simp_all add: put_pixel_def)

lemma fold_put_pixel_keeps:
  fixes f g :: "nat \<times> nat \<Rightarrow> u64" and h :: "nat \<times> nat \<Rightarrow> u32"
  defines "d \<equiv> \<lambda>ps. fold (\<lambda>p. put_pixel (f p) (g p) (h p)) ps"
  shows "con_width (d ps s) = con_width s" "con_height (d ps s) = con_height s" "pitch_pixels (d ps s) = pitch_pixels s"
    "available (d ps s) = available s" "pixels (d ps s) = pixels s" "cursor_x (d ps s) = cursor_x s" "cursor_y (d ps s) = cursor_y s"
  unfolding d_def by (induction ps arbitrary: s) simp_all

lemma draw_char_fold:
  "draw_char c fg bg s = fold (\<lambda>p. put_pixel (cursor_x s * 8 + of_nat (snd p)) (cursor_y s * 8 + of_nat (fst p))
     (cell_color c fg bg (fst p) (snd p))) cell_places s"
  by (simp add: draw_char_def glyph_width_def glyph_height_def split_beta' case_prod_unfold)

lemma draw_char_keeps [simp]:
  "con_width (draw_char c fg bg s) = con_width s" "con_height (draw_char c fg bg s) = con_height s"
  "pixels (draw_char c fg bg s) = pixels s" "pitch_pixels (draw_char c fg bg s) = pitch_pixels s" "available (draw_char c fg bg s) = available s"
  "cursor_x (draw_char c fg bg s) = cursor_x s" "cursor_y (draw_char c fg bg s) = cursor_y s"
  by (simp_all add: draw_char_fold fold_put_pixel_keeps)

section \<open>The picture\<close>

lemma put_pixel_vram:
  "vram (put_pixel x y c s) a
     = (if available s \<and> x < con_width s \<and> y < con_height s \<and> a = pixel_address s x y then c else vram s a)"
  by (auto simp: put_pixel_def not_le)

lemma fold_put_pixel_frame:
  fixes f g :: "nat \<times> nat \<Rightarrow> u64" and h :: "nat \<times> nat \<Rightarrow> u32"
  assumes "\<forall>p\<in>set ps. f p < con_width s \<and> g p < con_height s \<longrightarrow> pixel_address s (f p) (g p) \<noteq> a"
  shows "vram (fold (\<lambda>p. put_pixel (f p) (g p) (h p)) ps s) a = vram s a"
  using assms
proof (induction ps arbitrary: s)
  case (Cons p ps)
  have "vram (put_pixel (f p) (g p) (h p) s) a = vram s a"
    using Cons.prems by (auto simp: put_pixel_vram)
  with Cons show ?case by (simp add: pixel_address_def)
qed simp

lemma fold_put_pixel_hit:
  fixes f g :: "nat \<times> nat \<Rightarrow> u64" and h :: "nat \<times> nat \<Rightarrow> u32"
  assumes "p \<in> set ps" "available s" "f p < con_width s" "g p < con_height s"
    and "\<forall>q\<in>set ps. pixel_address s (f q) (g q) = pixel_address s (f p) (g p) \<longrightarrow> h q = h p"
  shows "vram (fold (\<lambda>p. put_pixel (f p) (g p) (h p)) ps s) (pixel_address s (f p) (g p)) = h p"
  using assms(1,5)
proof (induction ps rule: rev_induct)
  case (snoc q qs)
  let ?t = "fold (\<lambda>p. put_pixel (f p) (g p) (h p)) qs s"
  have [simp]: "pixel_address ?t x y = pixel_address s x y" for x y
    by (simp add: pixel_address_def fold_put_pixel_keeps)
  show ?case
  proof (cases "p \<in> set qs")
    case True
    have "\<forall>q\<in>set qs. pixel_address s (f q) (g q) = pixel_address s (f p) (g p) \<longrightarrow> h q = h p"
      using snoc.prems(2) by (metis butlast_snoc in_set_butlastD)
    then have "vram ?t (pixel_address s (f p) (g p)) = h p" by (rule snoc.IH [OF True])
    moreover have "pixel_address s (f q) (g q) = pixel_address s (f p) (g p) \<longrightarrow> h q = h p"
      by (rule bspec [OF snoc.prems(2)]) simp
    ultimately show ?thesis by (auto simp: put_pixel_vram)
  next
    case False
    then have "q = p" using snoc.prems by simp
    then show ?thesis using assms(2-4) by (simp add: put_pixel_vram fold_put_pixel_keeps)
  qed
qed simp

text \<open>Two pixels of the screen have different addresses, and none wraps.\<close>

lemma pixel_address_unat:
  assumes ok: "console_ok s" and xy: "x < con_width s" "y < con_height s"
  shows "unat (pixel_address s x y) = unat (pixels s) + 4 * (unat y * unat (pitch_pixels s) + unat x)"
proof -
  have x: "unat x < unat (pitch_pixels s)" and y: "unat y < unat (con_height s)"
    using ok xy by (auto simp: console_ok_def word_less_nat_alt)
  have "(unat y + 1) * unat (pitch_pixels s) \<le> unat (con_height s) * unat (pitch_pixels s)"
    using y by (intro mult_le_mono1) simp
  then have b: "unat (pixels s) + 4 * (unat y * unat (pitch_pixels s) + unat x) < 2 ^ 64"
    using ok x by (simp add: console_ok_def algebra_simps)
  have "pixel_address s x y = of_nat (unat (pixels s) + 4 * (unat y * unat (pitch_pixels s) + unat x))"
    by (simp add: pixel_address_def)
  then show ?thesis using b by (simp only: unat_of_nat) (simp add: take_bit_nat_def)
qed

lemma pixel_address_inj:
  assumes ok: "console_ok s" and "x < con_width s" "y < con_height s" "x' < con_width s" "y' < con_height s"
    and eq: "pixel_address s x y = pixel_address s x' y'"
  shows "x = x' \<and> y = y'"
proof -
  let ?w = "unat (pitch_pixels s)"
  have e: "unat y * ?w + unat x = unat y' * ?w + unat x'"
    using arg_cong [OF eq, of unat] assms(2-5) by (simp add: pixel_address_unat [OF ok])
  have x: "unat x < ?w" "unat x' < ?w"
    using assms by (auto simp: console_ok_def word_less_nat_alt)
  have d: "(n * ?w + m) div ?w = n" "(n * ?w + m) mod ?w = m" if "m < ?w" for n m
    using that by simp_all
  have "unat y = unat y'" "unat x = unat x'"
    using d [OF x(1), of "unat y"] d [OF x(2), of "unat y'"] by (simp_all only: e)
  then show ?thesis by (simp only: word_unat_eq_iff simp_thms)
qed

lemma cell_places_iff [simp]: "(y, x) \<in> set cell_places \<longleftrightarrow> y < 8 \<and> x < 8"
  by (auto simp: cell_places_def)

lemma in_cell:
  fixes n :: nat
  assumes c: "unat c < unat w div 8" and n: "n < 8"
  shows "unat (c * 8 + of_nat n :: u64) = unat c * 8 + n" "c * 8 + of_nat n < w"
proof -
  have b: "unat c * 8 + n < unat w" using assms by linarith
  have "c * 8 + of_nat n = (of_nat (unat c * 8 + n) :: u64)" by simp
  moreover have "unat c * 8 + n < 2 ^ 64" using b unat_u64_less [of w] by simp
  ultimately show u: "unat (c * 8 + of_nat n :: u64) = unat c * 8 + n"
    by (simp only: unat_of_nat) (simp add: take_bit_nat_def)
  show "c * 8 + of_nat n < w" using u b by (simp add: word_less_nat_alt)
qed

lemma cursor_in:
  assumes "console_ok s"
  shows "unat (cursor_x s) < unat (con_width s) div 8" "unat (cursor_y s) < unat (con_height s) div 8"
  using assms by (simp_all add: console_ok_def)

lemma draw_char_inside:
  assumes ok: "console_ok s" and av: "available s" and n: "i < 8" "j < 8"
  shows "vram (draw_char c fg bg s) (pixel_address s (cursor_x s * 8 + of_nat i) (cursor_y s * 8 + of_nat j)) = cell_color c fg bg j i"
proof -
  let ?f = "\<lambda>p :: nat \<times> nat. cursor_x s * 8 + of_nat (snd p)" and ?g = "\<lambda>p :: nat \<times> nat. cursor_y s * 8 + of_nat (fst p)"
    and ?h = "\<lambda>p. cell_color c fg bg (fst p) (snd p)"
  have lt: "?f p < con_width s \<and> ?g p < con_height s" if "p \<in> set cell_places" for p
    using that cursor_in [OF ok] by (cases p rule: prod.exhaust) (simp add: in_cell)
  have same: "q = (j, i)" if q: "q \<in> set cell_places" and e: "pixel_address s (?f q) (?g q) = pixel_address s (?f (j, i)) (?g (j, i))" for q
  proof -
    have "?f q = ?f (j, i) \<and> ?g q = ?g (j, i)"
      using lt [OF q] lt [of "(j, i)"] n by (intro pixel_address_inj [OF ok _ _ _ _ e]) simp_all
    then have "unat (?f q) = unat (?f (j, i))" "unat (?g q) = unat (?g (j, i))" by simp_all
    then show ?thesis using q n cursor_in [OF ok] by (cases q rule: prod.exhaust) (simp add: in_cell)
  qed
  have "vram (draw_char c fg bg s) (pixel_address s (?f (j, i)) (?g (j, i))) = ?h (j, i)"
    unfolding draw_char_fold by (rule fold_put_pixel_hit) (use n lt same av in auto)
  then show ?thesis by simp
qed

lemma draw_char_outside:
  assumes "\<And>i j. i < 8 \<Longrightarrow> j < 8 \<Longrightarrow> pixel_address s (cursor_x s * 8 + of_nat i) (cursor_y s * 8 + of_nat j) \<noteq> a"
  shows "vram (draw_char c fg bg s) a = vram s a"
  unfolding draw_char_fold
proof (rule fold_put_pixel_frame, intro ballI impI)
  fix p
  assume "p \<in> set cell_places"
  then show "pixel_address s (cursor_x s * 8 + of_nat (snd p)) (cursor_y s * 8 + of_nat (fst p)) \<noteq> a"
    by (cases p rule: prod.exhaust) (simp add: assms)
qed

section \<open>Writing\<close>

lemma newline_simps [simp]:
  "vram (newline s) = vram s" "pixels (newline s) = pixels s" "con_width (newline s) = con_width s"
  "con_height (newline s) = con_height s" "pitch_pixels (newline s) = pitch_pixels s" "available (newline s) = available s"
  "cursor_x (newline s) = 0"
  by (simp_all add: newline_def Let_def)

lemma newline_cursor:
  assumes "unat (cursor_y s) < unat (con_height s) div 8"
  shows "unat (cursor_y (newline s)) = (unat (cursor_y s) + 1) mod (unat (con_height s) div 8)"
proof -
  have h: "unat (con_height s div 8) = unat (con_height s) div 8" by (simp add: unat_div)
  have "unat (con_height s) < 2 ^ 64" using unat_u64_less [of "con_height s"] by simp
  then have "unat (cursor_y s) + 1 < 2 ^ 64" using assms by linarith
  then have u: "unat (cursor_y s + 1) = unat (cursor_y s) + 1" by (simp add: unat_word_ariths)
  show ?thesis
    using assms by (auto simp: newline_def Let_def glyph_height_def word_le_nat_alt h u mod_if)
qed

lemma newline_ok: "console_ok s \<Longrightarrow> console_ok (newline s)"
  by (simp add: console_ok_def newline_cursor)

text \<open>The cell behind the one at the cursor: the last column is never used.\<close>

definition next_cell :: "ConsoleState \<Rightarrow> nat \<times> nat" where
  "next_cell s =
     (let w = unat (con_width s) div 8; h = unat (con_height s) div 8; x = unat (cursor_x s); y = unat (cursor_y s) in
      if x + 2 \<ge> w then (0, (y + 1) mod h) else (x + 1, y))"

abbreviation cursor :: "ConsoleState \<Rightarrow> nat \<times> nat" where
  "cursor s \<equiv> (unat (cursor_x s), unat (cursor_y s))"

lemma cursor_x_small:
  assumes "console_ok s"
  shows "unat (cursor_x s + 1) = unat (cursor_x s) + 1" "unat (2 + cursor_x s) = unat (cursor_x s) + 2"
proof -
  have "unat (cursor_x s) + 2 < 2 ^ 64"
    using assms unat_u64_less [of "con_width s"] unfolding console_ok_def by linarith
  then show "unat (cursor_x s + 1) = unat (cursor_x s) + 1" "unat (2 + cursor_x s) = unat (cursor_x s) + 2"
    by (simp_all add: unat_word_ariths)
qed

lemma write_char_printing:
  assumes ok: "console_ok s" and av: "available s" and c: "c \<noteq> CHR 0x0A" "c \<noteq> CHR 0x0D"
  shows "vram (write_char c col s) = vram (draw_char c col 0 s)"
    and "cursor (write_char c col s) = next_cell s"
    and "console_ok (write_char c col s)"
    and "same_screen s (write_char c col s)"
proof -
  note d = write_char_def columns_margin_def glyph_width_def Let_def word_le_nat_alt unat_div cursor_x_small [OF ok]
  show "vram (write_char c col s) = vram (draw_char c col 0 s)" "same_screen s (write_char c col s)"
    using av c by (simp_all add: d)
  show n: "cursor (write_char c col s) = next_cell s"
    using ok av c by (simp add: d newline_cursor console_ok_def next_cell_def)
  show "console_ok (write_char c col s)"
    using ok n \<open>same_screen s (write_char c col s)\<close>
    by (auto simp: console_ok_def next_cell_def Let_def split: if_splits)
qed

lemma write_char_ok:
  assumes "console_ok s" and "available s"
  shows "console_ok (write_char c col s)" "same_screen s (write_char c col s)"
proof -
  consider "c = CHR 0x0A" | "c = CHR 0x0D" | "c \<noteq> CHR 0x0A" "c \<noteq> CHR 0x0D" by blast
  then have "console_ok (write_char c col s) \<and> same_screen s (write_char c col s)"
  proof cases
    case 1 then show ?thesis using assms by (simp add: write_char_def newline_ok)
  next
    case 2 then show ?thesis using assms by (simp add: write_char_def console_ok_def)
  next
    case 3 then show ?thesis using assms by (simp add: write_char_printing)
  qed
  then show "console_ok (write_char c col s)" "same_screen s (write_char c col s)" by auto
qed

lemma write_string_ok:
  assumes "console_ok s" and "available s"
  shows "console_ok (console_write_string t col s) \<and> same_screen s (console_write_string t col s)"
proof (cases t)
  case (Some cs)
  have "console_ok (fold (\<lambda>c. write_char c col) cs s) \<and> same_screen s (fold (\<lambda>c. write_char c col) cs s)"
    using assms
  proof (induction cs arbitrary: s)
    case (Cons c cs)
    note w = write_char_ok [OF Cons.prems, of c col]
    show ?case using Cons.IH [OF w(1)] w(2) Cons.prems by simp
  qed simp
  then show ?thesis by (simp add: console_write_string_def Some)
qed (use assms in \<open>simp add: console_write_string_def\<close>)

lemma init_ok:
  assumes "fb_address fb \<noteq> 0" "fb_bits_per_pixel fb = 32" "24 \<le> unat (fb_width fb)" "8 \<le> unat (fb_height fb)"
    and "unat (fb_width fb) \<le> unat (fb_pitch fb) div 4"
    and "unat (fb_address fb) + 4 * (unat (fb_height fb) * (unat (fb_pitch fb) div 4)) < 2 ^ 64"
  shows "console_ok (console_init fb s)" "available (console_init fb s)"
proof -
  have "3 \<le> unat (fb_width fb) div 8" "1 \<le> unat (fb_height fb) div 8" using assms(3,4) by linarith+
  then show "console_ok (console_init fb s)" "available (console_init fb s)"
    using assms by (simp_all add: console_ok_def console_init_def unat_div)
qed

lemma outside_cell:
  assumes ok: "console_ok s" and xy: "x < con_width s" "y < con_height s"
    and out: "(unat x div 8, unat y div 8) \<noteq> cursor s" and n: "i < 8" "j < 8"
  shows "pixel_address s (cursor_x s * 8 + of_nat i) (cursor_y s * 8 + of_nat j) \<noteq> pixel_address s x y"
proof
  assume e: "pixel_address s (cursor_x s * 8 + of_nat i) (cursor_y s * 8 + of_nat j) = pixel_address s x y"
  note b = in_cell [OF cursor_in(1) [OF ok] n(1)] in_cell [OF cursor_in(2) [OF ok] n(2)]
  have "x = cursor_x s * 8 + of_nat i \<and> y = cursor_y s * 8 + of_nat j"
    using pixel_address_inj [OF ok b(2) b(4) xy e] by simp
  then show False using out n b(1,3) by simp
qed

lemma pixel_in_cell:
  assumes "unat x div 8 = unat (c :: u64)"
  shows "x = c * 8 + of_nat (unat x mod 8)"
proof -
  have "unat x = unat c * 8 + unat x mod 8" unfolding assms [symmetric] by simp
  then have "(of_nat (unat x) :: u64) = of_nat (unat c * 8 + unat x mod 8)" by simp
  then show ?thesis by simp
qed

section \<open>Properties\<close>

lemma write_char_pixels:
  assumes ok: "console_ok s" and av: "available s" and c: "c \<noteq> CHR 0x0A" "c \<noteq> CHR 0x0D"
  shows "x < con_width s \<Longrightarrow> y < con_height s \<Longrightarrow>
      vram (write_char c col s) (pixel_address s x y)
        = (if (unat x div 8, unat y div 8) = cursor s then cell_color c col 0 (unat y mod 8) (unat x mod 8)
           else vram s (pixel_address s x y))"
    and "(\<And>x y. x < con_width s \<Longrightarrow> y < con_height s \<Longrightarrow> a \<noteq> pixel_address s x y) \<Longrightarrow> vram (write_char c col s) a = vram s a"
    and "cursor (write_char c col s) = next_cell s"
    and "console_ok (write_char c col s)"
proof -
  note w = write_char_printing [OF ok av c, of col]
  show "cursor (write_char c col s) = next_cell s" "console_ok (write_char c col s)" by (rule w)+
  {
    assume xy: "x < con_width s" "y < con_height s"
    show "vram (write_char c col s) (pixel_address s x y)
        = (if (unat x div 8, unat y div 8) = cursor s then cell_color c col 0 (unat y mod 8) (unat x mod 8)
           else vram s (pixel_address s x y))"
    proof (cases "(unat x div 8, unat y div 8) = cursor s")
      case True
      then have "x = cursor_x s * 8 + of_nat (unat x mod 8)" "y = cursor_y s * 8 + of_nat (unat y mod 8)"
        by (simp_all add: pixel_in_cell)
      then have "vram (draw_char c col 0 s) (pixel_address s x y) = cell_color c col 0 (unat y mod 8) (unat x mod 8)"
        using draw_char_inside [OF ok av, of "unat x mod 8" "unat y mod 8" c col 0] by simp
      then show ?thesis by (simp only: w(1) True simp_thms if_True)
    next
      case False
      then show ?thesis
        using draw_char_outside [OF outside_cell [OF ok xy False]] by (simp only: w(1) simp_thms if_False)
    qed
  next
    assume "\<And>x y. x < con_width s \<Longrightarrow> y < con_height s \<Longrightarrow> a \<noteq> pixel_address s x y"
    then show "vram (write_char c col s) a = vram s a"
      unfolding w(1) by (intro draw_char_outside) (metis in_cell(2) cursor_in [OF ok])
  }
qed

text \<open>C35. Writing a printing character on a console whose cursor is inside the screen draws its glyph: a pixel of
  the cell at the cursor gets the color of its place in the glyph, every other pixel and every other
  address keeps its value, and the cursor moves to the next cell, which is inside the screen again.\<close>

theorem write_char_draws:
  assumes "console_ok s" and "available s" and "c \<noteq> CHR 0x0A" and "c \<noteq> CHR 0x0D"
  shows "(\<forall>x y. x < con_width s \<and> y < con_height s \<longrightarrow>
        vram (write_char c col s) (pixel_address s x y)
          = (if (unat x div 8, unat y div 8) = cursor s then cell_color c col 0 (unat y mod 8) (unat x mod 8)
             else vram s (pixel_address s x y)))
    \<and> (\<forall>a. (\<forall>x y. x < con_width s \<and> y < con_height s \<longrightarrow> a \<noteq> pixel_address s x y) \<longrightarrow> vram (write_char c col s) a = vram s a)
    \<and> cursor (write_char c col s) = next_cell s \<and> console_ok (write_char c col s)"
  using write_char_pixels [OF assms] by metis

definition example_framebuffer :: Framebuffer_info where
  "example_framebuffer = \<lparr>fb_address = 0x1000, fb_width = 64, fb_height = 16, fb_pitch = 256, fb_bits_per_pixel = 32,
     fb_red_mask_size = 8, fb_red_mask_shift = 16, fb_green_mask_size = 8, fb_green_mask_shift = 8,
     fb_blue_mask_size = 8, fb_blue_mask_shift = 0, fb_format = PixelFormat_Rgb\<rparr>"

definition example_console :: ConsoleState where
  "example_console = console_init example_framebuffer
     \<lparr>pixels = 0, con_width = 0, con_height = 0, pitch_pixels = 0, cursor_x = 0, cursor_y = 0, available = False,
      vram = \<lambda>_. 0\<rparr>"

lemma example_console_ok: "console_ok example_console" "available example_console"
  unfolding example_console_def by (rule init_ok; simp add: example_framebuffer_def)+

text \<open>The second row of an \<open>I\<close> on a screen of eight cells in two rows: the stroke is at the fourth pixel.\<close>

theorem write_char_draws_witness:
  "map (\<lambda>x. vram (write_char (CHR ''i'') 7 example_console) (pixel_address example_console x 1)) [2, 3, 4, 5]
     = [0, 7, 0, 0]
   \<and> cursor (write_char (CHR ''i'') 7 example_console) = (1, 0)"
proof -
  have w: "x < con_width example_console \<and> y < con_height example_console \<longrightarrow>
        vram (write_char (CHR ''i'') 7 example_console) (pixel_address example_console x y)
          = (if (unat x div 8, unat y div 8) = cursor example_console then cell_color (CHR ''i'') 7 0 (unat y mod 8) (unat x mod 8)
             else vram example_console (pixel_address example_console x y))"
    "cursor (write_char (CHR ''i'') 7 example_console) = next_cell example_console" for x y
    using write_char_draws [OF example_console_ok, of "CHR ''i''" 7] by simp_all
  have c: "con_width example_console = 64" "con_height example_console = 16" "cursor_x example_console = 0" "cursor_y example_console = 0"
    by (simp_all add: example_console_def console_init_def example_framebuffer_def)
  have g: "map (\<lambda>x. cell_color (CHR ''i'') 7 0 1 x) [2, 3, 4, 5] = [0, 7, 0, 0]" by code_simp
  show ?thesis
    using g w(1) [of 2 1] w(1) [of 3 1] w(1) [of 4 1] w(1) [of 5 1] w(2)
    by (simp add: c next_cell_def)
qed

lemma backspace_echo:
  assumes ok: "console_ok s" "available s" and t: "\<not> g_line_ready t" "g_pos t < 255" "length (g_line t) = 256"
    and c: "0x20 \<le> sint c" "sint c \<le> 0x7E"
  defines "s1 \<equiv> put_char_echo c t s"
  defines "s2 \<equiv> put_char_echo 8 (put_char c t) s1"
  shows "g_pos (put_char 8 (put_char c t)) = g_pos t"
    and "take (g_pos t) (g_line (put_char 8 (put_char c t))) = take (g_pos t) (g_line t)"
    and "cursor s1 = next_cell s" and "cursor s2 = next_cell s1"
    and "i < 8 \<Longrightarrow> j < 7 \<Longrightarrow>
      vram s2 (pixel_address s1 (cursor_x s1 * 8 + of_nat i) (cursor_y s1 * 8 + of_nat j))
        = (if push_bit 2 (unknown_glyph ! j) AND drop_bit i 0x80 \<noteq> 0 then 0xffffff else 0)"
proof -
  have n: "c \<noteq> 8" "c \<noteq> 10" using c by auto
  have p: "put_char c t = t\<lparr>g_line := (g_line t)[g_pos t := c], g_pos := g_pos t + 1\<rparr>"
    using t c n by (simp add: put_char_def line_buf_size_def)
  show "g_pos (put_char 8 (put_char c t)) = g_pos t"
    "take (g_pos t) (g_line (put_char 8 (put_char c t))) = take (g_pos t) (g_line t)"
    unfolding p using t by (simp_all add: put_char_def)
  have s1: "s1 = write_char (char_of (unat c)) term_color s"
    using t c n by (simp add: s1_def put_char_echo_def line_buf_size_def)
  have s2: "s2 = write_char (CHR 0x08) term_color s1"
    using t by (simp add: s2_def put_char_echo_def p)
  have "c \<noteq> 13" using c by auto
  then have "unat c \<noteq> unat (13 :: u8)" "unat c \<noteq> unat (10 :: u8)" using n(2) by (simp_all only: word_unat_eq_iff not_False_eq_True)
  then have "char_of (unat c) \<noteq> CHR 0x0A" "char_of (unat c) \<noteq> CHR 0x0D"
    using unsigned_less [where ?'b = 8 and ?'a = nat, of c] by (simp_all add: char_of_eq_iff take_bit_nat_def)
  note w1 = write_char_printing [OF ok this, of term_color, folded s1]
  have av: "available s1" using w1(4) ok(2) by simp
  note w2 = write_char_printing [OF w1(3) av, of "CHR 0x08" term_color, folded s2, simplified]
  show "cursor s1 = next_cell s" "cursor s2 = next_cell s1" using w1(2) w2(2) by simp_all
  assume ij: "i < 8" "j < 7"
  have "map_of glyph_table (CHR 0x08) = None" by code_simp
  then have "glyph_row (CHR 0x08) j = push_bit 2 (unknown_glyph ! j)"
    using ij by (simp add: glyph_row_def glyph_pattern_def upper_case_def)
  then show "vram s2 (pixel_address s1 (cursor_x s1 * 8 + of_nat i) (cursor_y s1 * 8 + of_nat j))
        = (if push_bit 2 (unknown_glyph ! j) AND drop_bit i 0x80 \<noteq> 0 then 0xffffff else 0)"
    using draw_char_inside [OF w1(3) av ij(1), of j "CHR 0x08" term_color 0] ij
    by (simp add: w2(1) cell_color_def term_color_def)
qed

text \<open>The erase character is echoed as a character of its own: typing a character and deleting it leaves the
  line as it was, but the console shows the replacement glyph in the next cell and its cursor is two cells
  further.\<close>

theorem backspace_echo_advances:
  assumes "console_ok s" "available s" "\<not> g_line_ready t" "g_pos t < 255" "length (g_line t) = 256"
    "0x20 \<le> sint c" "sint c \<le> 0x7E"
  shows "let t' = put_char 8 (put_char c t); s1 = put_char_echo c t s; s2 = put_char_echo 8 (put_char c t) s1 in
    g_pos t' = g_pos t \<and> take (g_pos t) (g_line t') = take (g_pos t) (g_line t)
    \<and> cursor s1 = next_cell s \<and> cursor s2 = next_cell s1
    \<and> (\<forall>i j. i < 8 \<and> j < 7 \<longrightarrow>
        vram s2 (pixel_address s1 (cursor_x s1 * 8 + of_nat i) (cursor_y s1 * 8 + of_nat j))
          = (if push_bit 2 (unknown_glyph ! j) AND drop_bit i 0x80 \<noteq> 0 then 0xffffff else 0))"
  unfolding Let_def using backspace_echo [OF assms] by blast

theorem backspace_echo_advances_witness:
  "cursor (put_char_echo 8 (put_char 65 example_terminal) (put_char_echo 65 example_terminal example_console)) = (2, 0)
   \<and> g_pos (put_char 8 (put_char 65 example_terminal)) = 0"
proof -
  have c: "con_width example_console = 64" "con_height example_console = 16" "cursor_x example_console = 0" "cursor_y example_console = 0"
    by (simp_all add: example_console_def console_init_def example_framebuffer_def)
  have t: "\<not> g_line_ready example_terminal" "g_pos example_terminal < 255" "length (g_line example_terminal) = 256"
    by (simp_all add: example_terminal_def)
  have k: "0x20 \<le> sint (65 :: u8)" "sint (65 :: u8) \<le> 0x7E" by simp_all
  note b = backspace_echo_advances [OF example_console_ok t k, unfolded Let_def]
  let ?s = "put_char_echo 65 example_terminal example_console"
  have e: "?s = write_char (CHR ''A'') term_color example_console"
    by (simp add: put_char_echo_def example_terminal_def line_buf_size_def char_of_def bit_0)
  have "con_width ?s = 64" "con_height ?s = 16"
    using write_char_ok(2) [OF example_console_ok, of "CHR ''A''" term_color] by (simp_all add: e c)
  moreover have "unat (cursor_x ?s) = 1" "unat (cursor_y ?s) = 0"
    using b by (simp_all add: next_cell_def c)
  ultimately show ?thesis
    using b by (simp add: next_cell_def example_terminal_def)
qed

text \<open>The glyphs tell the characters of the table apart, and none looks like the replacement.\<close>

lemma glyphs_distinct:
  "distinct (unknown_glyph # map snd glyph_table) \<and> distinct (map fst glyph_table) \<and> list_all (\<lambda>p. length (snd p) = 7) glyph_table"
  by code_simp

end
