(* ===== verification/Tori_Interrupts.thy ===== *)
theory Tori_Interrupts
  imports Tori_Syscall Tori_Timer Tori_Descriptors
begin

unbundle bit_operations_syntax

text \<open>
  Interrupts: the code around the handler (\<open>kernel/src/arch/x86_64/interrupts_asm.S\<close> and the generated stubs),
  the handler (\<open>idt.cpp\<close>), the way into user mode (\<open>enter_userspace.S\<close>, \<open>tori_thread_entry\<close> of
  \<open>process.cpp\<close>) and the bases of the segment \<open>gs\<close>, through which the kernel finds the area of its processor.
\<close>

section \<open>The processor\<close>

record Mach =
  m_rax :: u64
  m_rcx :: u64
  m_rdx :: u64
  m_rbx :: u64
  m_rbp :: u64
  m_rsi :: u64
  m_rdi :: u64
  m_r8 :: u64
  m_r9 :: u64
  m_r10 :: u64
  m_r11 :: u64
  m_r12 :: u64
  m_r13 :: u64
  m_r14 :: u64
  m_r15 :: u64
  m_rsp :: u64
  m_rip :: u64
  m_cs :: u64
  m_ss :: u64
  m_rflags :: u64
  m_gs_base :: u64
  m_kernel_gs_base :: u64
  m_words :: "u64 \<Rightarrow> u64"

definition m_push :: "u64 list \<Rightarrow> Mach \<Rightarrow> Mach" where
  "m_push ws m = (let (sp, w) = push_all ws (m_rsp m) (m_words m) in m\<lparr>m_rsp := sp, m_words := w\<rparr>)"

definition swapgs :: "Mach \<Rightarrow> Mach" where
  "swapgs m = m\<lparr>m_gs_base := m_kernel_gs_base m, m_kernel_gs_base := m_gs_base m\<rparr>"

definition gs_of :: "Mach \<Rightarrow> GsBases" where
  "gs_of m = \<lparr>active_gs = m_gs_base m, shadow_gs = m_kernel_gs_base m\<rparr>"

definition from_user :: "Mach \<Rightarrow> bool" where
  "from_user m \<longleftrightarrow> m_cs m AND 3 \<noteq> 0"

text \<open>Delivery through a gate: from user mode on the stack of the task state segment, otherwise on the current one,
  both aligned to sixteen bytes; and the return.\<close>

definition deliver :: "u64 option \<Rightarrow> u64 \<Rightarrow> u64 \<Rightarrow> Mach \<Rightarrow> Mach" where
  "deliver err rsp0 gate m =
     (let sp = (if from_user m then rsp0 else m_rsp m) AND NOT 15;
          ws = [m_ss m, m_rsp m, m_rflags m, m_cs m, m_rip m] @ (case err of None \<Rightarrow> [] | Some e \<Rightarrow> [e]) in
      (m_push ws (m\<lparr>m_rsp := sp\<rparr>))
        \<lparr>m_rip := gate, m_cs := 8, m_ss := (if from_user m then 0 else m_ss m), m_rflags := m_rflags m AND NOT 0x200\<rparr>)"

definition iretq :: "Mach \<Rightarrow> Mach" where
  "iretq m = (let w = (\<lambda>k. m_words m (m_rsp m + 8 * k)) in
     m\<lparr>m_rip := w 0, m_cs := w 1, m_rflags := w 2, m_rsp := w 3, m_ss := w 4\<rparr>)"

section \<open>Around the handler\<close>

text \<open>The vectors for which the processor pushes an error code; the stubs of the others push a 0.\<close>

definition ERR_VECTORS :: "u64 list" where
  "ERR_VECTORS = [8, 10, 11, 12, 13, 14, 17, 21]"

definition isr_stub :: "u64 \<Rightarrow> Mach \<Rightarrow> Mach" where
  "isr_stub v m = m_push ((if v \<in> set ERR_VECTORS then [] else [0]) @ [v]) m"

definition isr_save :: "Mach \<Rightarrow> Mach" where
  "isr_save m =
     (let m = m_push [m_rax m, m_rcx m, m_rdx m, m_rbx m, m_rbp m, m_rsi m, m_rdi m, m_r8 m, m_r9 m, m_r10 m,
                      m_r11 m, m_r12 m, m_r13 m, m_r14 m, m_r15 m] m;
          m = m\<lparr>m_rax := 0\<rparr>;
          m = (if m_words m (m_rsp m + 144) AND 3 \<noteq> 0 then (swapgs m)\<lparr>m_rax := 1\<rparr> else m);
          m = m_push [m_rax m] m in
      m\<lparr>m_rdi := m_rsp m + 8\<rparr>)"

definition isr_restore :: "Mach \<Rightarrow> Mach" where
  "isr_restore m =
     (let m = m\<lparr>m_rax := m_words m (m_rsp m), m_rsp := m_rsp m + 8\<rparr>;
          m = (if m_rax m \<noteq> 0 then swapgs m else m);
          w = (\<lambda>k. m_words m (m_rsp m + 8 * k));
          m = m\<lparr>m_r15 := w 0, m_r14 := w 1, m_r13 := w 2, m_r12 := w 3, m_r11 := w 4, m_r10 := w 5, m_r9 := w 6,
                m_r8 := w 7, m_rdi := w 8, m_rsi := w 9, m_rbp := w 10, m_rbx := w 11, m_rdx := w 12, m_rcx := w 13,
                m_rax := w 14, m_rsp := m_rsp m + 120\<rparr>;
          m = m\<lparr>m_rsp := m_rsp m + 16\<rparr> in
      iretq m)"

record InterruptFrame =
  if_r15 :: u64
  if_r14 :: u64
  if_r13 :: u64
  if_r12 :: u64
  if_r11 :: u64
  if_r10 :: u64
  if_r9 :: u64
  if_r8 :: u64
  if_rdi :: u64
  if_rsi :: u64
  if_rbp :: u64
  if_rbx :: u64
  if_rdx :: u64
  if_rcx :: u64
  if_rax :: u64
  if_vector :: u64
  if_error_code :: u64
  if_rip :: u64
  if_cs :: u64
  if_rflags :: u64

definition sizeof_InterruptFrame :: u64 where "sizeof_InterruptFrame = 160"

definition frame_at :: "u64 \<Rightarrow> (u64 \<Rightarrow> u64) \<Rightarrow> InterruptFrame" where
  "frame_at a mem = (let w = (\<lambda>k. mem (a + 8 * k)) in
     \<lparr>if_r15 = w 0, if_r14 = w 1, if_r13 = w 2, if_r12 = w 3, if_r11 = w 4, if_r10 = w 5, if_r9 = w 6, if_r8 = w 7,
      if_rdi = w 8, if_rsi = w 9, if_rbp = w 10, if_rbx = w 11, if_rdx = w 12, if_rcx = w 13, if_rax = w 14,
      if_vector = w 15, if_error_code = w 16, if_rip = w 17, if_cs = w 18, if_rflags = w 19\<rparr>)"

section \<open>The handler\<close>

datatype line = Value string u64 | Text string string | Trace u64 u64 u64

text \<open>The state the handler works on: the system, the timers, the writes to ports and to the end-of-interrupt
  register, and what is written to the log at the level of a panic.\<close>

record 'f isys =
  system :: "'f sys"
  wheel :: timers
  port_writes :: "(u16 \<times> u8) list"
  eoi_writes :: nat
  panic_log :: "line list"

datatype 'a outcome = Returned 'a | Panicked string 'a

definition current_user_pml4 :: "'a proc_sys_scheme \<Rightarrow> u64" where
  "current_user_pml4 s =
     (let task = current_task s in
      if task = 0 \<or> task_thread (tasks s task) = 0 then 0
      else let thread = task_thread (tasks s task) in
        if thread_process (threads s thread) \<noteq> 0 then pml4_phys (procs s (thread_process (threads s thread))) else 0)"

definition exception_names :: "string list" where
  "exception_names =
     [''divide-by-zero'', ''debug'', ''non-maskable-interrupt'', ''breakpoint'', ''overflow'', ''bound-range'',
      ''invalid-opcode'', ''device-not-available'', ''double-fault'', ''coprocessor-segment-overrun'', ''invalid-tss'',
      ''segment-not-present'', ''stack-segment-fault'', ''general-protection-fault'', ''page-fault'', ''reserved-15'',
      ''x87-fpu-error'', ''alignment-check'', ''machine-check'', ''simd-fp-exception'', ''virtualization-exception'',
      ''control-protection'', ''reserved-22'', ''reserved-23'', ''reserved-24'', ''reserved-25'', ''reserved-26'',
      ''reserved-27'', ''reserved-28'', ''reserved-29'', ''security-exception'', ''reserved-31'']"

definition exception_name :: "u8 \<Rightarrow> string option" where
  "exception_name vec = (if vec < 32 then Some (exception_names ! unat vec) else None)"

definition dump_frame :: "InterruptFrame \<Rightarrow> line list" where
  "dump_frame f =
     [Value ''vector'' (if_vector f)]
     @ (if if_vector f < 32 then [Text ''exception'' (exception_names ! unat (if_vector f))] else [])
     @ [Value ''error_code'' (if_error_code f), Value ''rip'' (if_rip f), Value ''cs'' (if_cs f), Value ''rflags'' (if_rflags f),
        Value ''rax'' (if_rax f), Value ''rbx'' (if_rbx f), Value ''rcx'' (if_rcx f), Value ''rdx'' (if_rdx f),
        Value ''rsi'' (if_rsi f), Value ''rdi'' (if_rdi f), Value ''rbp'' (if_rbp f), Value ''r8'' (if_r8 f),
        Value ''r9'' (if_r9 f), Value ''r10'' (if_r10 f), Value ''r11'' (if_r11 f), Value ''r12'' (if_r12 f),
        Value ''r13'' (if_r13 f), Value ''r14'' (if_r14 f), Value ''r15'' (if_r15 f)]"

definition add_lines :: "line list \<Rightarrow> 'f isys \<Rightarrow> 'f isys" where
  "add_lines ls s = s\<lparr>panic_log := panic_log s @ ls\<rparr>"

text \<open>The frame with its address; \<open>cr2\<close> is the register that holds the address of a page fault.\<close>

definition handle_exception :: "u64 \<Rightarrow> u64 \<Rightarrow> InterruptFrame \<Rightarrow> 'f isys \<Rightarrow> 'f isys outcome" where
  "handle_exception cr2 frame f s =
     (let trace = Trace (if_rip f) (frame + sizeof_InterruptFrame) (if_rbp f) in
      if if_vector f = 14 then
        (let (handled, m) = handle_cow_fault cr2 (if_error_code f) (current_user_pml4 (system s)) (memory_manager (system s));
             s = s\<lparr>system := with_mm m (system s)\<rparr> in
         if handled then Returned s
         else
           Panicked ''unhandled exception''
             (add_lines (dump_frame f @ [trace, Value ''cr2'' cr2,
                  Text ''page_fault_type'' (if if_error_code f AND 1 \<noteq> 0 then ''protection-violation'' else ''non-present''),
                  Text ''access'' (if if_error_code f AND 2 \<noteq> 0 then ''write'' else ''read'')]) s))
      else Panicked ''unhandled exception'' (add_lines (dump_frame f @ [trace]) s))"

definition lapic_eoi :: "'f isys \<Rightarrow> 'f isys" where
  "lapic_eoi s = s\<lparr>eoi_writes := eoi_writes s + 1\<rparr>"

text \<open>\<open>scancode\<close> is the byte that the keyboard handler reads from its port.  No result means that the lists of the
  timers do not end.\<close>

definition handle_interrupt :: "u8 \<Rightarrow> u64 \<Rightarrow> u64 \<Rightarrow> InterruptFrame \<Rightarrow> 'f isys \<Rightarrow> 'f isys outcome option" where
  "handle_interrupt scancode cr2 frame f s =
     (let vec = (ucast (if_vector f) :: u8); y = system s in
      if vec = 32 then
        (let y = y\<lparr>sched_clock := clock_tick (of_nat (lapic y)) (sched_clock y)\<rparr>; y = flag_preempt y in
         case timer_tick (of_nat (lapic y)) (wheel s) of None \<Rightarrow> None
         | Some t \<Rightarrow> Some (Returned (lapic_eoi (s\<lparr>system := y, wheel := t\<rparr>))))
      else if vec = 33 then
        Some (Returned (lapic_eoi (s\<lparr>system := y\<lparr>keys := handle_irq scancode (keys y)\<rparr>, port_writes := port_writes s @ [(0x20, 0x20)]\<rparr>)))
      else if vec \<ge> 32 then Some (Returned (lapic_eoi s))
      else Some (handle_exception cr2 frame f s))"

text \<open>The calls between saving and restoring, on the machine and the system.  What the compiled code of a call leaves
  in the machine is given by \<open>compiled\<close>, one function for each call.  A preempted task goes on with the
  machine and the system that \<open>resume\<close> gives for those it left: what the other tasks do meanwhile.  A panic does
  not return.  The flush of the log works on the log alone.\<close>

definition isr_body ::
  "(nat \<Rightarrow> Mach \<Rightarrow> Mach) \<Rightarrow> (Mach \<times> 'f isys \<Rightarrow> Mach \<times> 'f isys) \<Rightarrow> u8 \<Rightarrow> u64 \<Rightarrow> Mach \<times> 'f isys \<Rightarrow> (Mach \<times> 'f isys) option" where
  "isr_body compiled resume scancode cr2 x =
     (case handle_interrupt scancode cr2 (m_rdi (fst x)) (frame_at (m_rdi (fst x)) (m_words (fst x))) (snd x) of
        Some (Returned s) \<Rightarrow>
          (let m = compiled 1 (compiled 0 (fst x));
               (m, s) = (if sched_needs_preempt (system s)
                         then resume (m, s\<lparr>system := sched_do_preempt (system s)\<rparr>) else (m, s)) in
           Some (compiled 2 m, s))
      | _ \<Rightarrow> None)"

definition isr_common_handler ::
  "(nat \<Rightarrow> Mach \<Rightarrow> Mach) \<Rightarrow> (Mach \<times> 'f isys \<Rightarrow> Mach \<times> 'f isys) \<Rightarrow> u8 \<Rightarrow> u64 \<Rightarrow> Mach \<times> 'f isys \<Rightarrow> (Mach \<times> 'f isys) option" where
  "isr_common_handler compiled resume scancode cr2 x =
     map_option (\<lambda>(m, s). (isr_restore m, s)) (isr_body compiled resume scancode cr2 (isr_save (fst x), snd x))"

section \<open>Into user mode\<close>

text \<open>The segment registers of data get the null selector, which clears the base of \<open>gs\<close>.\<close>

definition enter_userspace :: "u64 \<Rightarrow> u64 \<Rightarrow> Mach \<Rightarrow> Mach" where
  "enter_userspace entry user_stack m =
     (let m = m\<lparr>m_rdi := entry, m_rsi := user_stack\<rparr>;
          m = m_push [0x23, m_rsi m] m;
          m = m\<lparr>m_rax := m_rflags m OR 0x200\<rparr>;
          m = m_push [m_rax m, 0x2B, m_rdi m] m;
          m = m\<lparr>m_rax := 0\<rparr>;
          m = m\<lparr>m_gs_base := 0\<rparr> in
      iretq m)"

definition tori_thread_entry :: "'a proc_sys_scheme \<Rightarrow> Mach \<Rightarrow> Mach option" where
  "tori_thread_entry s m =
     (let task = current_task s in
      if task = 0 \<or> task_thread (tasks s task) = 0 then None
      else let thread = threads s (task_thread (tasks s task)) in
        Some (enter_userspace (user_rip thread) (user_rsp thread) (m\<lparr>m_gs_base := wrmsr_value 0 0\<rparr>)))"

section \<open>The controllers\<close>

text \<open>Each write to a port of the interrupt controllers is followed by a read of another port, a delay.\<close>

definition init_pic :: "(u16 \<times> u8) list" where
  "init_pic = [(0x20, 0x11), (0xA0, 0x11), (0x21, 0x20), (0xA1, 0x28), (0x21, 0x04), (0xA1, 0x02), (0x21, 0x01), (0xA1, 0x01),
     (0x21, 0xFF), (0xA1, 0xFF)]"

definition unmask_keyboard_irq :: "u8 \<Rightarrow> (u16 \<times> u8) list" where
  "unmask_keyboard_irq pic_mask = [(0x21, pic_mask AND NOT 0x02)]"

definition init_pit :: "(u16 \<times> u8) list" where
  "init_pit = (let divisor = 1193 :: u16 in [(0x43, 0x36), (0x40, ucast (divisor AND 0xFF)), (0x40, ucast (drop_bit 8 divisor))])"

end
