(* ===== verification/Tori_Interrupts_Props.thy ===== *)
theory Tori_Interrupts_Props
  imports Tori_Interrupts Tori_Syscall_Props
begin

unbundle bit_operations_syntax

text \<open>
  An interrupt leaves the interrupted program as it was, and the bases of \<open>gs\<close> along entries, returns and new threads.
\<close>

section \<open>Pushed words\<close>

lemma push_all_sp: "fst (push_all ws sp mem) = sp - 8 * of_nat (length ws)"
proof (induction ws arbitrary: sp mem)
  case (Cons w ws)
  show ?case by (simp add: Cons)
qed simp

lemma push_all_append: "push_all (xs @ ys) sp mem = push_all ys (fst (push_all xs sp mem)) (snd (push_all xs sp mem))"
  by (induction xs arbitrary: sp mem) simp_all

lemma push_all_other:
  "(\<And>i. i < length ws \<Longrightarrow> a \<noteq> sp - 8 * of_nat (Suc i)) \<Longrightarrow> snd (push_all ws sp mem) a = mem a"
proof (induction ws arbitrary: sp mem)
  case (Cons w ws)
  have "a \<noteq> sp - 8 - 8 * of_nat (Suc i)" if "i < length ws" for i
    using Cons.prems [of "Suc i"] that by (simp add: algebra_simps)
  then have "snd (push_all ws (sp - 8) (mem(sp - 8 := w))) a = (mem(sp - 8 := w)) a" by (rule Cons.IH)
  then show ?case using Cons.prems [of 0] by simp
qed simp

lemma eight_times: "0 < n \<Longrightarrow> n < 2 ^ 60 \<Longrightarrow> 8 * of_nat n \<noteq> (0 :: u64)"
proof
  assume n: "0 < n" "n < 2 ^ 60" and e: "8 * of_nat n = (0 :: u64)"
  have "unat (of_nat (8 * n) :: u64) = 8 * n" using n by (simp only: unat_of_nat) (simp add: take_bit_nat_def)
  then show False using e n by simp
qed

lemma push_all_nth:
  "i < length ws \<Longrightarrow> length ws < 2 ^ 60 \<Longrightarrow> snd (push_all ws sp mem) (sp - 8 * of_nat (Suc i)) = ws ! i"
proof (induction ws arbitrary: sp mem i)
  case (Cons w ws)
  show ?case
  proof (cases i)
    case 0
    have "snd (push_all ws (sp - 8) (mem(sp - 8 := w))) (sp - 8) = (mem(sp - 8 := w)) (sp - 8)"
    proof (rule push_all_other)
      fix j
      assume "j < length ws"
      then have "8 * of_nat (Suc j) \<noteq> (0 :: u64)" using Cons.prems(2) by (intro eight_times) simp_all
      moreover have "x \<noteq> 0 \<Longrightarrow> sp - 8 \<noteq> sp - 8 - x" for x :: u64 by simp
      ultimately show "sp - 8 \<noteq> sp - 8 - 8 * of_nat (Suc j)" by blast
    qed
    then show ?thesis using 0 by simp
  next
    case (Suc j)
    then have "snd (push_all ws (sp - 8) (mem(sp - 8 := w))) (sp - 8 - 8 * of_nat (Suc j)) = ws ! j"
      using Cons.prems by (intro Cons.IH) simp_all
    then show ?thesis using Suc by (simp add: algebra_simps)
  qed
qed simp

lemma push_all_word:
  assumes "k < length ws" "length ws < 2 ^ 60"
  shows "snd (push_all ws sp mem) (sp - 8 * of_nat (length ws) + 8 * of_nat k) = ws ! (length ws - 1 - k)"
proof -
  have "sp - 8 * of_nat (length ws) + 8 * of_nat k = sp - 8 * of_nat (Suc (length ws - 1 - k))"
    using assms(1) by (simp add: of_nat_diff algebra_simps)
  then show ?thesis using push_all_nth [of "length ws - 1 - k" ws sp mem] assms by (simp only:)
qed

section \<open>The stack of the handler\<close>

definition entry_stack :: "u64 \<Rightarrow> Mach \<Rightarrow> u64" where
  "entry_stack rsp0 m = (if from_user m then rsp0 else m_rsp m) AND NOT 15"

definition saved_words :: "u64 \<Rightarrow> u64 \<Rightarrow> Mach \<Rightarrow> u64 list" where
  "saved_words e v m =
     [m_ss m, m_rsp m, m_rflags m, m_cs m, m_rip m, e, v, m_rax m, m_rcx m, m_rdx m, m_rbx m, m_rbp m, m_rsi m, m_rdi m,
      m_r8 m, m_r9 m, m_r10 m, m_r11 m, m_r12 m, m_r13 m, m_r14 m, m_r15 m, if from_user m then 1 else 0]"

lemma length_saved_words [simp]: "length (saved_words e v m) = 23"
  by (simp add: saved_words_def)

definition error_value :: "u64 option \<Rightarrow> u64" where
  "error_value err = (case err of None \<Rightarrow> 0 | Some e \<Rightarrow> e)"

lemma stub_state:
  assumes "err \<noteq> None \<longleftrightarrow> v \<in> set ERR_VECTORS"
  shows "isr_stub v (deliver err rsp0 gate m) = m\<lparr>m_rsp := entry_stack rsp0 m - 56,
      m_words := snd (push_all (take 7 (saved_words (error_value err) v m)) (entry_stack rsp0 m) (m_words m)),
      m_rip := gate, m_cs := 8, m_ss := (if from_user m then 0 else m_ss m), m_rflags := m_rflags m AND NOT 0x200\<rparr>"
  using assms
  by (cases err) (simp_all add: isr_stub_def deliver_def m_push_def Let_def error_value_def saved_words_def entry_stack_def)

lemma m_push_rsp: "m_push ws m = m\<lparr>m_rsp := m_rsp m - 8 * of_nat (length ws), m_words := snd (push_all ws (m_rsp m) (m_words m))\<rparr>"
  by (simp add: m_push_def split_beta push_all_sp)

lemma save_state:
  fixes m rsp0 gate
  assumes "err \<noteq> None \<longleftrightarrow> v \<in> set ERR_VECTORS"
  shows "isr_save (isr_stub v (deliver err rsp0 gate m)) =
    (let sp = entry_stack rsp0 m; m1 = (if from_user m then swapgs m else m) in
     m1\<lparr>m_rsp := sp - 184, m_rdi := sp - 176,
       m_words := snd (push_all (saved_words (error_value err) v m) sp (m_words m)), m_rax := (if from_user m then 1 else 0),
       m_rip := gate, m_cs := 8, m_ss := (if from_user m then 0 else m_ss m), m_rflags := m_rflags m AND NOT 0x200\<rparr>)"
proof -
  let ?sp = "entry_stack rsp0 m" and ?ws = "saved_words (error_value err) v m"
  let ?gp = "[m_rax m, m_rcx m, m_rdx m, m_rbx m, m_rbp m, m_rsi m, m_rdi m, m_r8 m, m_r9 m, m_r10 m, m_r11 m, m_r12 m,
      m_r13 m, m_r14 m, m_r15 m]"
  have w: "take 22 ?ws = take 7 ?ws @ ?gp" "?ws = take 22 ?ws @ [if from_user m then 1 else 0]"
    "length (take 7 ?ws) = 7" "length (take 22 ?ws) = 22"
    by (simp_all add: saved_words_def)
  have gp: "snd (push_all ?gp (?sp - 56) (snd (push_all (take 7 ?ws) ?sp (m_words m)))) = snd (push_all (take 22 ?ws) ?sp (m_words m))"
    using w(3) by (simp only: w(1) push_all_append push_all_sp) simp
  have flag: "snd (push_all [if from_user m then 1 else 0] (?sp - 176) (snd (push_all (take 22 ?ws) ?sp (m_words m))))
      = snd (push_all ?ws ?sp (m_words m))"
    using w(4) by (subst (2) w(2), simp only: push_all_append push_all_sp) simp
  have cs: "snd (push_all (take 22 ?ws) ?sp (m_words m)) (?sp - 32) = m_cs m"
    using push_all_nth [of 3 "take 22 ?ws" ?sp "m_words m"] w(4) by (simp add: saved_words_def)
  let ?r = "isr_stub v (deliver err rsp0 gate m)"
  have regs: "m_rax ?r = m_rax m" "m_rcx ?r = m_rcx m" "m_rdx ?r = m_rdx m" "m_rbx ?r = m_rbx m" "m_rbp ?r = m_rbp m"
    "m_rsi ?r = m_rsi m" "m_rdi ?r = m_rdi m" "m_r8 ?r = m_r8 m" "m_r9 ?r = m_r9 m" "m_r10 ?r = m_r10 m"
    "m_r11 ?r = m_r11 m" "m_r12 ?r = m_r12 m" "m_r13 ?r = m_r13 m" "m_r14 ?r = m_r14 m" "m_r15 ?r = m_r15 m"
    by (simp_all add: stub_state [OF assms])
  define m2 where "m2 = m_push ?gp (isr_stub v (deliver err rsp0 gate m))"
  have m2: "m2 = m\<lparr>m_rsp := ?sp - 176, m_words := snd (push_all (take 22 ?ws) ?sp (m_words m)),
      m_rip := gate, m_cs := 8, m_ss := (if from_user m then 0 else m_ss m), m_rflags := m_rflags m AND NOT 0x200\<rparr>"
    unfolding m2_def stub_state [OF assms] m_push_rsp using gp by simp
  have "isr_save (isr_stub v (deliver err rsp0 gate m)) =
    (let m = m2\<lparr>m_rax := 0\<rparr>;
         m = (if m_words m (m_rsp m + 144) AND 3 \<noteq> 0 then (swapgs m)\<lparr>m_rax := 1\<rparr> else m);
         m = m_push [m_rax m] m in
     m\<lparr>m_rdi := m_rsp m + 8\<rparr>)"
    unfolding isr_save_def m2_def regs Let_def ..
  also have "\<dots> = (let m1 = (if from_user m then swapgs m else m) in
     m1\<lparr>m_rsp := ?sp - 184, m_rdi := ?sp - 176,
       m_words := snd (push_all ?ws ?sp (m_words m)), m_rax := (if from_user m then 1 else 0),
       m_rip := gate, m_cs := 8, m_ss := (if from_user m then 0 else m_ss m), m_rflags := m_rflags m AND NOT 0x200\<rparr>)"
    using cs flag by (cases "from_user m") (simp_all add: m2 m_push_rsp swapgs_def from_user_def Let_def)
  finally show ?thesis by (simp add: Let_def)
qed

section \<open>Returning\<close>

text \<open>What has to be as the entry code left it when the calls are over: the stack pointer, the words of the stack from it on,
  and the bases of \<open>gs\<close>.  Everything else may have changed.\<close>

definition same_frame :: "Mach \<Rightarrow> Mach \<Rightarrow> bool" where
  "same_frame m m' \<longleftrightarrow> m_rsp m' = m_rsp m \<and> gs_of m' = gs_of m
     \<and> (\<forall>k<23. m_words m' (m_rsp m + 8 * of_nat k) = m_words m (m_rsp m + 8 * of_nat k))"

lemma same_frame_trans: "same_frame a b \<Longrightarrow> same_frame b c \<Longrightarrow> same_frame a c"
  by (auto simp: same_frame_def)

text \<open>Without a preemption, compiled code that keeps to the part of the stack below its caller is enough.\<close>

lemma isr_body_keeps:
  assumes "\<And>n m. same_frame m (compiled n m)"
    and "handle_interrupt sc cr2 (m_rdi q) (frame_at (m_rdi q) (m_words q)) s = Some (Returned s')"
    and "\<not> sched_needs_preempt (system s')"
  shows "\<exists>x. isr_body compiled resume sc cr2 (q, s) = Some (x, s') \<and> same_frame q x"
  using assms(2,3) same_frame_trans [OF same_frame_trans [OF assms(1) assms(1)] assms(1), of q 2 1 0]
  by (simp add: isr_body_def Let_def)

lemma restore_words:
  fixes sp :: u64
  assumes r: "m_rsp m = sp - 184" and w: "\<And>k. k < 23 \<Longrightarrow> m_words m (sp - 184 + 8 * of_nat k) = saved_words e v p ! (22 - k)"
    and g: "m_gs_base m = (if from_user p then m_kernel_gs_base p else m_gs_base p)"
      "m_kernel_gs_base m = (if from_user p then m_gs_base p else m_kernel_gs_base p)"
  shows "isr_restore m = p\<lparr>m_words := m_words m\<rparr>"
proof -
  note w0 = w [of 0, simplified] w [of 1, simplified] w [of 2, simplified] w [of 3, simplified] w [of 4, simplified]
    w [of 5, simplified] w [of 6, simplified] w [of 7, simplified] w [of 8, simplified] w [of 9, simplified]
    w [of 10, simplified] w [of 11, simplified] w [of 12, simplified] w [of 13, simplified] w [of 14, simplified]
    w [of 15, simplified] w [of 16, simplified] w [of 17, simplified] w [of 18, simplified] w [of 19, simplified]
    w [of 20, simplified] w [of 21, simplified] w [of 22, simplified]
  show ?thesis
    using g by (cases "from_user p") (simp_all add: isr_restore_def iretq_def Let_def r w0 saved_words_def swapgs_def)
qed

lemma interrupt_returns:
  assumes "err \<noteq> None \<longleftrightarrow> v \<in> set ERR_VECTORS" and b: "same_frame (isr_save (isr_stub v (deliver err rsp0 gate m))) x"
  shows "isr_restore x = m\<lparr>m_words := m_words x\<rparr>"
proof -
  define q where "q = isr_save (isr_stub v (deliver err rsp0 gate m))"
  let ?sp = "entry_stack rsp0 m"
  note q = save_state [OF assms(1), of rsp0 gate m, folded q_def, unfolded Let_def]
  have b: "same_frame q x" using b by (simp only: q_def)
  have r: "m_rsp q = ?sp - 184" by (simp add: q)
  show ?thesis
  proof (rule restore_words [where sp = ?sp and e = "error_value err" and v = v])
    show "m_rsp x = ?sp - 184" using b r by (simp add: same_frame_def)
    show "m_gs_base x = (if from_user m then m_kernel_gs_base m else m_gs_base m)"
      "m_kernel_gs_base x = (if from_user m then m_gs_base m else m_kernel_gs_base m)"
      using b by (simp_all add: same_frame_def gs_of_def q swapgs_def)
  next
    fix k :: nat
    assume k: "k < 23"
    then have "m_words x (?sp - 184 + 8 * of_nat k) = m_words q (?sp - 184 + 8 * of_nat k)"
      using b unfolding same_frame_def r by blast
    also have "\<dots> = saved_words (error_value err) v m ! (22 - k)"
      using push_all_word [of k "saved_words (error_value err) v m" ?sp "m_words m"] k by (simp add: q)
    finally show "m_words x (?sp - 184 + 8 * of_nat k) = saved_words (error_value err) v m ! (22 - k)" .
  qed
qed

lemma frame_members:
  assumes "\<And>k. k < 23 \<Longrightarrow> w (sp - 184 + 8 * of_nat k) = saved_words e v m ! (22 - k)"
  shows "frame_at (sp - 176) w =
    \<lparr>if_r15 = m_r15 m, if_r14 = m_r14 m, if_r13 = m_r13 m, if_r12 = m_r12 m, if_r11 = m_r11 m, if_r10 = m_r10 m, if_r9 = m_r9 m,
     if_r8 = m_r8 m, if_rdi = m_rdi m, if_rsi = m_rsi m, if_rbp = m_rbp m, if_rbx = m_rbx m, if_rdx = m_rdx m, if_rcx = m_rcx m,
     if_rax = m_rax m, if_vector = v, if_error_code = e, if_rip = m_rip m, if_cs = m_cs m, if_rflags = m_rflags m\<rparr>"
proof -
  note w = assms
  note w0 = w [of 1, simplified] w [of 2, simplified] w [of 3, simplified] w [of 4, simplified]
    w [of 5, simplified] w [of 6, simplified] w [of 7, simplified] w [of 8, simplified] w [of 9, simplified]
    w [of 10, simplified] w [of 11, simplified] w [of 12, simplified] w [of 13, simplified] w [of 14, simplified]
    w [of 15, simplified] w [of 16, simplified] w [of 17, simplified] w [of 18, simplified] w [of 19, simplified]
    w [of 20, simplified]
  show ?thesis by (simp add: frame_at_def Let_def w0 saved_words_def)
qed

lemma entry_frame:
  fixes m rsp0 gate
  assumes "err \<noteq> None \<longleftrightarrow> v \<in> set ERR_VECTORS"
  defines "q \<equiv> isr_save (isr_stub v (deliver err rsp0 gate m))"
  shows "frame_at (m_rdi q) (m_words q) =
    \<lparr>if_r15 = m_r15 m, if_r14 = m_r14 m, if_r13 = m_r13 m, if_r12 = m_r12 m, if_r11 = m_r11 m, if_r10 = m_r10 m, if_r9 = m_r9 m,
     if_r8 = m_r8 m, if_rdi = m_rdi m, if_rsi = m_rsi m, if_rbp = m_rbp m, if_rbx = m_rbx m, if_rdx = m_rdx m, if_rcx = m_rcx m,
     if_rax = m_rax m, if_vector = v, if_error_code = error_value err, if_rip = m_rip m, if_cs = m_cs m, if_rflags = m_rflags m\<rparr>"
proof -
  note q = save_state [OF assms(1), of rsp0 gate m, folded q_def, unfolded Let_def]
  have "m_words q (entry_stack rsp0 m - 184 + 8 * of_nat k) = saved_words (error_value err) v m ! (22 - k)" if "k < 23" for k
    using push_all_word [of k "saved_words (error_value err) v m" "entry_stack rsp0 m" "m_words m"] that by (simp add: q)
  note f = frame_members [OF this]
  have "m_rdi q = entry_stack rsp0 m - 176" by (simp add: q)
  then show ?thesis using f by simp
qed

lemma entry_stack_aligned: "entry_stack rsp0 m AND 15 = 0"
  by (rule bit_word_eqI) (auto simp: entry_stack_def bit_simps)

text \<open>The stack pointer at the calls, where the calling convention asks for a multiple of sixteen.\<close>

lemma handler_stack_misaligned:
  assumes "err \<noteq> None \<longleftrightarrow> v \<in> set ERR_VECTORS"
  shows "m_rsp (isr_save (isr_stub v (deliver err rsp0 gate m))) AND 15 = 8"
proof -
  have "(sp - 184) AND 15 = 8" if "sp AND 15 = 0" for sp :: u64
  proof -
    have m: "(15 :: u64) = mask 4" by (simp add: mask_eq_exp_minus_1)
    have "take_bit 4 sp = 0" using that unfolding m by (simp add: take_bit_eq_mask)
    then have "uint (take_bit 4 sp) = 0" by simp
    then have "take_bit 4 (uint sp) = 0" by (simp only: unsigned_take_bit_eq)
    then have z: "uint sp mod 16 = 0" by (simp add: take_bit_eq_mod)
    have "uint (sp - 184) = (uint sp - 184) mod 2 ^ 64" by (simp add: uint_word_ariths)
    then have "uint (sp - 184) mod 16 = 8" using z by (simp add: mod_mod_cancel) presburger
    then have "take_bit 4 (uint (sp - 184)) = 8" by (simp add: take_bit_eq_mod)
    then have "uint (take_bit 4 (sp - 184)) = uint (8 :: u64)" by (simp only: unsigned_take_bit_eq) simp
    then have "take_bit 4 (sp - 184) = 8" by (simp only: word_uint_eq_iff)
    then show ?thesis unfolding m by (simp add: take_bit_eq_mask)
  qed
  then show ?thesis using entry_stack_aligned [of rsp0 m] by (simp add: save_state [OF assms] Let_def)
qed

section \<open>Entering user mode\<close>

lemma enter_userspace_state:
  "enter_userspace entry user_stack m = m\<lparr>m_rip := entry, m_rsp := user_stack, m_cs := 0x2B, m_ss := 0x23,
     m_rflags := m_rflags m OR 0x200, m_rax := 0, m_rdi := entry, m_rsi := user_stack, m_gs_base := 0,
     m_words := m_words (enter_userspace entry user_stack m)\<rparr>"
  by (simp add: enter_userspace_def m_push_def iretq_def Let_def)

lemma thread_entry_gs:
  assumes "tori_thread_entry s m = Some n"
  shows "m_gs_base n = 0" "m_kernel_gs_base n = m_kernel_gs_base m" "from_user n"
proof -
  obtain e u where n: "n = enter_userspace e u (m\<lparr>m_gs_base := wrmsr_value 0 0\<rparr>)"
    using assms by (auto simp: tori_thread_entry_def Let_def split: if_splits)
  show "m_gs_base n = 0" "m_kernel_gs_base n = m_kernel_gs_base m" "from_user n"
    unfolding n by (subst enter_userspace_state, simp add: from_user_def)+
qed

lemma interrupt_gs:
  assumes "err \<noteq> None \<longleftrightarrow> v \<in> set ERR_VECTORS" "from_user m"
  shows "m_gs_base (isr_save (isr_stub v (deliver err rsp0 gate m))) = m_kernel_gs_base m"
    "m_kernel_gs_base (isr_save (isr_stub v (deliver err rsp0 gate m))) = m_gs_base m"
  using assms(2) by (simp_all add: save_state [OF assms(1)] Let_def swapgs_def)

section \<open>Outcomes\<close>

text \<open>An exception returns exactly when it is a page fault that copying resolves; all others, of user programs too, stop
  the kernel.  The timer interrupt asks for a preemption, which the code after the handler carries out.\<close>

lemma exception_outcome:
  assumes "if_vector f < 32"
  shows "(\<exists>s'. handle_interrupt sc cr2 fr f s = Some (Returned s'))
    \<longleftrightarrow> if_vector f = 14 \<and> fst (handle_cow_fault cr2 (if_error_code f) (current_user_pml4 (system s)) (memory_manager (system s)))"
proof -
  have "unat (if_vector f) < 32" using assms by (simp add: word_less_nat_alt)
  then have "unat (ucast (if_vector f) :: u8) = unat (if_vector f)"
    by (simp add: unsigned_ucast_eq take_bit_nat_eq_self)
  then have v: "(ucast (if_vector f) :: u8) < 32" using assms by (simp add: word_less_nat_alt)
  then have "(ucast (if_vector f) :: u8) \<noteq> 32" "(ucast (if_vector f) :: u8) \<noteq> 33" by auto
  then have "handle_interrupt sc cr2 fr f s = Some (handle_exception cr2 fr f s)"
    using v by (simp add: handle_interrupt_def Let_def not_le [symmetric])
  then show ?thesis by (simp add: handle_exception_def Let_def split_beta)
qed

lemma timer_interrupt_preempts:
  assumes "handle_interrupt sc cr2 fr f s = Some (Returned s')" "(ucast (if_vector f) :: u8) = 32"
    and "lapic (system s) < CONFIG_MAX_CPUS"
  shows "sched_needs_preempt (system s')" "eoi_writes s' = eoi_writes s + 1"
    "sched_clock (system s') = clock_tick (of_nat (lapic (system s))) (sched_clock (system s))"
  using assms by (auto simp: handle_interrupt_def Let_def flag_preempt_def sched_needs_preempt_def lapic_eoi_def split: option.splits)

section \<open>Properties\<close>

text \<open>C38. An interrupt is transparent to the interrupted program as long as the calls give the stack and the
  bases of \<open>gs\<close> back.  Whatever the program was doing, the handler is called with a frame whose members are its
  registers, the vector and the error code (0 where the processor has none), and with the kernel's base of \<open>gs\<close> if
  the interrupt came from user mode.  If the machine after the calls, with a preemption among them or not, has the stack
  pointer, the saved words and the two bases that the entry code left, the program gets all its registers, flags,
  stack and bases back.  (A preemption that starts a new thread does not give the bases back.)\<close>

theorem interrupt_transparent:
  assumes "err \<noteq> None \<longleftrightarrow> v \<in> set ERR_VECTORS" and "m1 = isr_stub v (deliver err rsp0 gate m)"
    and "isr_body compiled resume sc cr2 (isr_save m1, s) = Some (x, s')" and "same_frame (isr_save m1) x"
  shows "frame_at (m_rdi (isr_save m1)) (m_words (isr_save m1)) =
      \<lparr>if_r15 = m_r15 m, if_r14 = m_r14 m, if_r13 = m_r13 m, if_r12 = m_r12 m, if_r11 = m_r11 m, if_r10 = m_r10 m, if_r9 = m_r9 m,
       if_r8 = m_r8 m, if_rdi = m_rdi m, if_rsi = m_rsi m, if_rbp = m_rbp m, if_rbx = m_rbx m, if_rdx = m_rdx m, if_rcx = m_rcx m,
       if_rax = m_rax m, if_vector = v, if_error_code = error_value err, if_rip = m_rip m, if_cs = m_cs m, if_rflags = m_rflags m\<rparr>
    \<and> gs_of (isr_save m1) = (if from_user m then swap_gs (gs_of m) else gs_of m)
    \<and> isr_common_handler compiled resume sc cr2 (m1, s) = Some (m\<lparr>m_words := m_words x\<rparr>, s')"
proof -
  define q where "q = isr_save m1"
  note q = save_state [OF assms(1), of rsp0 gate m, folded assms(2), folded q_def, unfolded Let_def]
  have "isr_restore x = m\<lparr>m_words := m_words x\<rparr>"
    using interrupt_returns [OF assms(1)] assms(4) unfolding assms(2) by blast
  then have "isr_common_handler compiled resume sc cr2 (m1, s) = Some (m\<lparr>m_words := m_words x\<rparr>, s')"
    using assms(3) by (simp add: isr_common_handler_def)
  moreover have "gs_of q = (if from_user m then swap_gs (gs_of m) else gs_of m)"
    by (simp add: q gs_of_def swap_gs_def swapgs_def)
  ultimately show ?thesis
    using entry_frame [OF assms(1), of rsp0 gate m, folded assms(2)] unfolding q_def by simp
qed

definition example_mach :: Mach where
  "example_mach = \<lparr>m_rax = 1, m_rcx = 2, m_rdx = 3, m_rbx = 4, m_rbp = 5, m_rsi = 6, m_rdi = 7, m_r8 = 8, m_r9 = 9, m_r10 = 10,
     m_r11 = 11, m_r12 = 12, m_r13 = 13, m_r14 = 14, m_r15 = 15, m_rsp = 0x7ffff000, m_rip = 0x400000, m_cs = 0x2B, m_ss = 0x23,
     m_rflags = 0x202, m_gs_base = 0, m_kernel_gs_base = 0xffffffff80100000, m_words = \<lambda>_. 0\<rparr>"

text \<open>Compiled code that uses registers and, below the stack pointer, the stack.\<close>

definition example_compiled :: "nat \<Rightarrow> Mach \<Rightarrow> Mach" where
  "example_compiled n m = m\<lparr>m_rax := of_nat n, m_rbx := 0, m_words := (m_words m)(m_rsp m - 8 := 1)\<rparr>"

lemma example_compiled_keeps: "same_frame m (example_compiled n m)"
proof -
  have "m_rsp m + 8 * of_nat k \<noteq> m_rsp m - 8" if "k < 23" for k :: nat
  proof
    assume "m_rsp m + 8 * of_nat k = m_rsp m - 8"
    then have "8 * of_nat (Suc k) = (0 :: u64)" by (simp add: algebra_simps eq_diff_eq)
    then show False using eight_times [of "Suc k"] that by simp
  qed
  then show ?thesis by (simp add: same_frame_def gs_of_def example_compiled_def)
qed

definition example_isys :: "unit isys" where
  "example_isys = \<lparr>system = example_sys,
     wheel = \<lparr>list_next = \<lambda>_. None, list_prev = \<lambda>_. None,
       pool = \<lambda>_. \<lparr>deadline_ticks = 0, period_ticks = 0, callback = 0, user_data = 0, wheel_level = 0, wheel_slot = 0\<rparr>,
       cursor = 0, l1_cursor = 0, tick_count = 0, timer_initialized = False, bsp_lapic_id = 0, timer_lock = False, fired = []\<rparr>,
      port_writes = [], eoi_writes = 0, panic_log = []\<rparr>"

text \<open>An interrupt with the vector 40 of a program in user mode.\<close>

theorem interrupt_transparent_witness:
  "\<exists>w. isr_common_handler example_compiled (\<lambda>x. x) 0 0
       (isr_stub 40 (deliver None 0xffff800000205000 0xffffffff80000100 example_mach), example_isys)
     = Some (example_mach\<lparr>m_words := w\<rparr>, example_isys\<lparr>eoi_writes := 1\<rparr>)"
proof -
  let ?m1 = "isr_stub 40 (deliver None 0xffff800000205000 0xffffffff80000100 example_mach)"
  have v: "(None :: u64 option) \<noteq> None \<longleftrightarrow> 40 \<in> set ERR_VECTORS" by (simp add: ERR_VECTORS_def)
  let ?f = "frame_at (m_rdi (isr_save ?m1)) (m_words (isr_save ?m1))"
  have "if_vector ?f = 40" by (simp add: entry_frame [OF v])
  then have h: "handle_interrupt 0 0 (m_rdi (isr_save ?m1)) ?f example_isys = Some (Returned (example_isys\<lparr>eoi_writes := 1\<rparr>))"
    by (simp add: handle_interrupt_def lapic_eoi_def example_isys_def)
  have "\<not> sched_needs_preempt (system (example_isys\<lparr>eoi_writes := 1\<rparr>))"
    by (simp add: example_isys_def sched_needs_preempt_def example_sys_defs example_sched_def)
  from isr_body_keeps [where compiled = example_compiled, OF example_compiled_keeps h this] obtain x where
    "isr_body example_compiled (\<lambda>x. x) 0 0 (isr_save ?m1, example_isys) = Some (x, example_isys\<lparr>eoi_writes := 1\<rparr>)"
    "same_frame (isr_save ?m1) x" by blast
  from interrupt_transparent [OF v refl this] show ?thesis by blast
qed


definition example_threads :: "unit sys" where
  "example_threads = example_sys\<lparr>tasks := (\<lambda>_. example_task\<lparr>task_thread := 4\<rparr>)\<rparr>"

lemma example_threads_enter: "tori_thread_entry example_threads m = Some (enter_userspace 0 0 (m\<lparr>m_gs_base := wrmsr_value 0 0\<rparr>))"
  by (simp add: tori_thread_entry_def example_threads_def current_task_def example_sys_defs example_sched_def CONFIG_MAX_CPUS_def)

lemma example_areas: "\<forall>i<CONFIG_MAX_CPUS. percpu_address 0xffffffff80100000 i \<noteq> 0"
proof (intro allI impI)
  fix i
  assume i: "i < CONFIG_MAX_CPUS"
  have "unat (of_nat i * sizeof_PerCPU :: u64) = i * 20600"
    using i by (simp add: sizeof_PerCPU_def sizeof_TSS_def CONFIG_KERNEL_STACK_SIZE_def CONFIG_DOUBLE_FAULT_STACK_SIZE_def
        unat_word_ariths unsigned_of_nat take_bit_nat_eq_self CONFIG_MAX_CPUS_def)
  then have "unat (percpu_address 0xffffffff80100000 i) = 0xffffffff80100000 + i * 20600"
    using i by (simp add: percpu_address_def unat_word_ariths CONFIG_MAX_CPUS_def)
  then show "percpu_address 0xffffffff80100000 i \<noteq> 0" by auto
qed


end
