(* ===== verification/Spec2Isabelle.thy ===== *)
theory Spec2Isabelle
  imports Tori_Sync Tori_Vmm_Props Tori_Kalloc_Props Tori_Overlay_Props Tori_Libc
    Tori_Timer_Props Tori_Fat_Props Tori_Log Tori_Acpi Tori_Unwind_Props
    Tori_Demangle_Props Tori_Console Tori_Interrupts_Props
begin

text \<open>
  A verification library for tori, a kernel for x86-64 written in C++ (\<open>src/kernel\<close>).

  \<^bold>\<open>The program.\<close>  The boot loader hands the kernel a memory map.  The physical page allocator
  (PMM) takes its pages from it.  The virtual memory manager (VMM) keeps page tables in pages of the
  PMM; the slice allocator and the heap cut pages into objects, behind \<open>kalloc\<close> and \<open>kfree\<close>.  The
  virtual file system (VFS) resolves paths and keeps descriptors over file systems; the boot code
  mounts an overlay over two memory file systems as the root.  Processes own an address space, a
  descriptor table and threads; the scheduler runs the tasks of the threads in turn, and a FAT image
  on a block device holds the programs.  System calls act on all of these for the running thread.  Locks
  of the \<open>sync\<close> directory protect them, and the keyboard feeds the line editor of the terminal.

  \<^bold>\<open>Conventions.\<close>  Integers of the code are words of their width (\<open>u8\<close> to \<open>u64\<close>), so arithmetic wraps
  as in C++; an error code is an \<open>int\<close>.  The globals of a component are the fields of a record, and an
  operation takes the state and returns it.  \<open>None\<close> is a run without a defined result: a null
  dereference, an access past an array, a panic, or a loop that does not end.  A pointer to an object
  is a number with 0 for \<open>nullptr\<close>; the allocators work on addresses in byte memory.  In the file
  systems and for processes an allocation gives a fresh object or fails, as the state says.

  \<^bold>\<open>Theories and sources\<close> (paths below \<open>src/kernel\<close>).
  \<^item> \<open>Tori_Prelude\<close>: machine integers, counted loops, shared facts on words, lists and folds.
  \<^item> \<open>Tori_MemoryMap\<close>: \<open>boot_info.hpp\<close>, \<open>src/memory/memory_map.cpp\<close>.  The summary adds up.
  \<^item> \<open>Tori_Pmm\<close>: \<open>src/memory/pmm.cpp\<close>.  The invariant, initialisation, allocation, reference counts
    and what saturation and wrap-around do.
  \<^item> \<open>Tori_Sync\<close>: \<open>include/tori/kernel/sync\<close>.  Each primitive is a step relation of threads; exclusion
    and counting are invariants of every interleaving.  The clock of a timed wait is a parameter.
  \<^item> \<open>Tori_Vmm\<close>, \<open>Tori_Vmm_Walk\<close>, \<open>Tori_Vmm_Props\<close>: \<open>src/memory/vmm.cpp\<close>, \<open>vmem_layout.hpp\<close>.  Mapping,
    unmapping, copy-on-write and new address spaces, against the page walk of the hardware.
  \<^item> \<open>Tori_Kalloc\<close>, \<open>Tori_Kalloc_Props\<close>: \<open>src/memory/slice_allocator.cpp\<close>, \<open>heap.cpp\<close>, \<open>allocator.cpp\<close>.
    The free slices form a stack; heap pointers are aligned and lead back to their header.
  \<^item> \<open>Tori_String\<close>: \<open>string.hpp\<close>, \<open>src/runtime/memory.cpp\<close>.  Copies under overlap.
  \<^item> \<open>Tori_Vfs\<close>: \<open>src/fs/vfs.cpp\<close>, \<open>vfs.hpp\<close>.  Resolution against a specification by names.  The locale
    \<open>vnode_provider\<close> states what a file system keeps of the VFS state.
  \<^item> \<open>Tori_Ramfs\<close>, \<open>Tori_Ramfs_Props\<close>: \<open>src/fs/ramfs.cpp\<close>.  It is interpreted as a \<open>vnode_provider\<close>;
    files are byte maps, directories are finite maps.
  \<^item> \<open>Tori_Overlayfs\<close>, \<open>Tori_Overlay_Props\<close>: \<open>src/fs/overlayfs.cpp\<close> and the root mount of
    \<open>src/kernel/main.cpp\<close>.
  \<^item> \<open>Tori_Links\<close>: doubly linked lists as sequences, for the lists of tasks and of processes.
  \<^item> \<open>Tori_Sched\<close>, \<open>Tori_Sched_Props\<close>: \<open>src/kernel/task.cpp\<close>, \<open>src/arch/x86_64/context_switch.S\<close>.  The
    invariant of the ready queue under every sequence of operations, turns in order, and registers
    across a switch.
  \<^item> \<open>Tori_Process\<close>, \<open>Tori_Process_Props\<close>: \<open>src/process/process.cpp\<close>, over the state of the scheduler.
    The lists of children as sequences, and process identifiers.
  \<^item> \<open>Tori_Keyboard\<close>: \<open>src/arch/x86_64/ps2.cpp\<close>, \<open>src/terminal/terminal.cpp\<close>.  Reading a line.
  \<^item> \<open>Tori_Timer\<close>, \<open>Tori_Timer_Props\<close>: \<open>src/kernel/timer.cpp\<close>, \<open>container/intrusive_list.hpp\<close>.  The links
    of the lists as sequences; a one-shot timer is called exactly once, a tick after its deadline, while all
    deadlines are near, and creating one with a deadline beyond the wheel does not return.
  \<^item> \<open>Tori_Elf\<close>: \<open>src/process/elf.cpp\<close>.  The errors and the results of the loader; the read operation of
    the file is a parameter.  With enough free pages a program without segments loads.
  \<^item> \<open>Tori_Syscall\<close>, \<open>Tori_Syscall_Props\<close>: \<open>src/process/syscall.cpp\<close>, \<open>src/arch/x86_64/syscall_entry.S\<close>, over
    the states of processes, files, terminal and address spaces; user memory is reached through the
    loaded page tables.  What \<open>fork\<close>, \<open>exit\<close> and \<open>waitpid\<close> do together, and registers across a call, with the
    bases of \<open>gs\<close> and the area of the processor from \<open>Tori_Descriptors\<close>.
  \<^item> \<open>Tori_Libc\<close>: \<open>src/libc/src/syscall\<close>, \<open>src/libc/src/stdlib/malloc.c\<close> (below the root of the repository), over
    the handlers of the kernel.  What \<open>malloc\<close> does with and without free pages.
  \<^item> \<open>Tori_Clock\<close>: \<open>src/kernel/time.cpp\<close>.  Ticks are counted once; the uptime is exact while it fits.
  \<^item> \<open>Tori_Memblock\<close>: \<open>src/block/memblock.cpp\<close>.  A read never leaves the image.
  \<^item> \<open>Tori_Fat\<close>, \<open>Tori_Fat_Props\<close>: \<open>src/fs/fat.cpp\<close>, over the block device.  Reading follows the cluster
    chain, lookup finds the first matching entry of a directory or of the fixed root, initialisation gives
    a well-formed instance.
  \<^item> \<open>Tori_Log\<close>: \<open>src/log/log.cpp\<close>.  The rings of entries as sequences; an entry holds the address of its
    text, which is read when it is written.  Nothing is lost on a processor with its own ring while the texts
    last, and numbers are readable.
  \<^item> \<open>Tori_Acpi\<close>: \<open>src/platform/uefi_pc/acpi.cpp\<close>, \<open>madt.cpp\<close>.  Parsing reads back what the firmware
    wrote; a table that the enumeration reports is found.
  \<^item> \<open>Tori_Bytes\<close>: fields of packed structures in byte memory.
  \<^item> \<open>Tori_Unwind\<close>, \<open>Tori_Unwind_Props\<close>: \<open>src/arch/x86_64/stacktrace.cpp\<close>.  The machine for unwind instructions
    follows the rows that DWARF defines for the encoded instructions, except for the two opcodes with
    expressions that it misreads; symbols are found, and a trace of the kernel ends after one frame.
  \<^item> \<open>Tori_Demangle\<close>, \<open>Tori_Demangle_Props\<close>: \<open>src/arch/x86_64/demangle.cpp\<close>.  Demangling ends, its text fits
    into the buffer, and for some names it reads before the buffer.
  \<^item> \<open>Tori_Console\<close>: \<open>src/log/framebuffer_console.cpp\<close> and the echo of \<open>src/terminal/terminal.cpp\<close>.  A
    character is drawn exactly into its cell, and a backspace is drawn too.
  \<^item> \<open>Tori_Descriptors\<close>: \<open>src/arch/x86_64/gdt.cpp\<close> and the tables of \<open>idt.cpp\<close>.  Processors started
    in any order find their own tables and stacks, loading a task register twice faults, and user programs
    may use ports.
  \<^item> \<open>Tori_Interrupts\<close>, \<open>Tori_Interrupts_Props\<close>: the handler in \<open>src/arch/x86_64/idt.cpp\<close>, the code around it in
    \<open>interrupts_asm.S\<close> with the stubs that the \<open>Makefile\<close> writes, \<open>enter_userspace.S\<close> and \<open>tori_thread_entry\<close> of
    \<open>src/process/process.cpp\<close>.  An interrupt is transparent if the handler and the
    scheduler give its frame and the bases of \<open>gs\<close> back; the code that the compiler emits for the handler and the
    switch to another task are parameters.  A second thread loses the base of \<open>gs\<close>, and its system call
    has no area to save to.

  This theory holds the property that spans the VFS and the memory file system.

  \<^bold>\<open>Loops.\<close>  Only the productions of the demangler use fuel, twice the length of the name, which is
  proved to be enough.  Counted loops are folds or recursions with a termination proof.
  Loops whose end depends on data (linked lists, merged layers, retries, polling, the loop that doubles
  a capacity, the buckets of the wheel) are partial functions into options; where a property says that
  one returns, that is proved.

  \<^bold>\<open>Interfaces.\<close>  The locale \<open>page_provider\<close> (interpreted by the PMM) is the contract of single pages,
  \<open>test_and_set\<close> (by \<open>Spinlock\<close>, \<open>IrqSpinlock\<close> and \<open>Mutex\<close>) that of locks, \<open>fifo\<close> (by the
  ready queue) that of a queue, \<open>vnode_provider\<close> (by the
  memory file system) that of a file system below the VFS.

  \<^bold>\<open>Not modelled.\<close>  The registers of the local APIC and the serial port: their behaviour is that of the devices; the
  handler only counts the ends of interrupts and lists the writes to ports.  What the processor itself does when it
  delivers an interrupt, returns from it, reads a descriptor or checks a port is written as definitions
  from its manual.  The boot loader and its entry code, and the order in which \<open>main.cpp\<close> calls the
  initialisations.  The string functions of the C library, which access memory in user mode, and the user
  programs are left for later extensions.  Atomic operations are taken as sequentially consistent steps.
\<close>

section \<open>Files through the virtual file system\<close>

text \<open>What a store to a descriptor keeps.\<close>

lemma set_offset_effect:
  "vnodes (set_offset fd off s) = vnodes s" "fs_data (set_offset fd off s) = fs_data s"
  "get_current_fd_table (set_offset fd off s) =
     (get_current_fd_table s)[nat fd := (get_current_fd_table s ! nat fd)\<lparr>fd_offset := off\<rparr>]"
  by (simp_all add: set_offset_def) (simp_all add: set_fd_def split: option.split)

text \<open>C1. Through the virtual file system, writing to a descriptor, seeking back to where the write began and
  reading the same number of bytes gives the bytes written, and leaves the descriptor behind them.\<close>

theorem vfs_write_seek_read:
  fixes s :: "ramfs vfs" and fd :: int
  defines "f \<equiv> get_current_fd_table s ! nat fd"
  assumes "fd_ok fd s" and "length (get_current_fd_table s) = max_fds" and "fd_vnode f \<noteq> 0"
    and "vnode_type (vnodes s (fd_vnode f)) = File" and "file_ok (private_data (vnodes s (fd_vnode f))) s"
    and "unat (fd_offset f) + unat cnt + 4096 \<le> 2 ^ 64"
    and "vfs_write ramfs_table fd buf cnt s = Some (0, c, s1)"
  shows "c = cnt \<and> (\<exists>s2 s3 b. vfs_seek ramfs_table fd (uint (fd_offset f)) 0 st s1 = Some (E_SUCCESS, fd_offset f, s2)
    \<and> vfs_read ramfs_table fd buf' cnt s2 = Some (0, cnt, b, s3) \<and> (\<forall>k < unat cnt. b k = buf k)
    \<and> fd_offset (get_current_fd_table s3 ! nat fd) = fd_offset f + cnt)"
proof -
  let ?v = "fd_vnode f"
  obtain s0 where w: "ramfs_write ?v (fd_offset f) buf cnt s = Some (0, c, s0)"
    and s1: "s1 = set_offset fd (fd_offset f + c) s0"
    using assms(2-8) by (auto simp: vfs_write_def f_def [symmetric] Let_def deref_def ramfs_table_def
        ramfs_vnode_ops_def bind_eq_Some_conv split: if_split_asm)
  note eff = ramfs_write_effect(1,2) [OF w assms(6,7)]
  have tab: "get_current_fd_table s0 = get_current_fd_table s" using ramfs_write_tables [OF w] by simp
  have fd: "nat fd < length (get_current_fd_table s)" "\<not> (fd < 0 \<or> fd \<ge> int max_fds)" "fd_used f"
    using assms(2,3) by (auto simp: fd_ok_def f_def)
  let ?g = "f\<lparr>fd_offset := fd_offset f + c\<rparr>"
  have t1: "get_current_fd_table s1 ! nat fd = ?g" "length (get_current_fd_table s1) = length (get_current_fd_table s)"
    "vnodes s1 = vnodes s" "fs_data s1 = fs_data s0"
    using fd by (simp_all add: s1 set_offset_effect tab f_def eff)
  define s2 where "s2 = set_offset fd (fd_offset f) s1"
  have t2: "get_current_fd_table s2 ! nat fd = f" "length (get_current_fd_table s2) = length (get_current_fd_table s)"
    "vnodes s2 = vnodes s" "fs_data s2 = fs_data s0"
    using fd t1 by (simp_all add: s2_def set_offset_effect)
  have "fd_ok fd s1" "fd_ok fd s2" using fd t1 t2 by (simp_all add: fd_ok_def)
  have seek: "vfs_seek ramfs_table fd (uint (fd_offset f)) 0 st s1 = Some (E_SUCCESS, fd_offset f, s2)"
    using \<open>fd_ok fd s1\<close> by (simp add: vfs_seek_def Let_def s2_def error_codes)
  obtain b where b: "ramfs_read ?v (fd_offset f) buf' cnt s2 = Some (0, cnt, b, s2)" "\<forall>k < unat cnt. b k = buf k"
    using ramfs_read_written [OF w assms(6,7), of s2 buf'] t2(3,4) eff(2) by auto
  have "vfs_read ramfs_table fd buf' cnt s2 = Some (0, cnt, b, set_offset fd (fd_offset f + cnt) s2)"
    using \<open>fd_ok fd s2\<close> b(1) assms(4,5) t2
    by (simp add: vfs_read_def Let_def deref_def ramfs_table_def ramfs_vnode_ops_def)
  moreover have "fd_offset (get_current_fd_table (set_offset fd (fd_offset f + cnt) s2) ! nat fd) = fd_offset f + cnt"
    using fd t2 by (simp add: set_offset_effect)
  ultimately show ?thesis using seek b(2) eff(1) by blast
qed

text \<open>The file of the example machine, open as descriptor 0 at offset 1.\<close>

definition example_open :: "ramfs vfs" where
  "example_open = set_fd 0 \<lparr>fd_vnode = 5, fd_offset = 1, fd_flags = O_RDWR, fd_used = True\<rparr> example_ram"

theorem vfs_write_seek_read_witness:
  "\<exists>s1 s2 s3 b. vfs_write ramfs_table 0 (\<lambda>k. of_nat k) 3 example_open = Some (0, 3, s1)
     \<and> vfs_seek ramfs_table 0 1 0 \<lparr>stat_type = File, stat_size = 0\<rparr> s1 = Some (E_SUCCESS, 1, s2)
     \<and> vfs_read ramfs_table 0 (\<lambda>_. 9) 3 s2 = Some (0, 3, b, s3) \<and> b 2 = 2"
proof -
  have e: "get_current_fd_table example_open ! 0 = \<lparr>fd_vnode = 5, fd_offset = 1, fd_flags = O_RDWR, fd_used = True\<rparr>"
    "length (get_current_fd_table example_open) = max_fds" "vnodes example_open = vnodes example_ram"
    "fs_data example_open = fs_data example_ram"
    by (simp_all add: example_open_def get_current_fd_table_def set_fd_def example_ram_def max_fds_def)
  have ok: "fd_ok 0 example_open" by (simp add: fd_ok_def e max_fds_def)
  have "\<exists>s. ramfs_write 5 1 (\<lambda>k. of_nat k) 3 example_open = Some (0, 3, s)"
    by (simp add: ramfs_write_def e ensure_pages_def needed_pages_def kPageSize_def Let_def)
      (simp add: example_ram_def write_loop.simps page_idx_def page_off_def chunk_def kPageSize_def Let_def)
  then obtain s1 where w: "vfs_write ramfs_table 0 (\<lambda>k. of_nat k) 3 example_open = Some (0, 3, s1)"
    using ok by (auto simp: vfs_write_def Let_def deref_def e ramfs_table_def ramfs_vnode_ops_def)
      (simp_all add: example_ram_def)
  have "file_ok 6 example_open" using example_ram_file by (simp add: file_ok_def pages_of_def e)
  then have "\<exists>s2 s3 b. vfs_seek ramfs_table 0 1 0 \<lparr>stat_type = File, stat_size = 0\<rparr> s1 = Some (E_SUCCESS, 1, s2)
     \<and> vfs_read ramfs_table 0 (\<lambda>_. 9) 3 s2 = Some (0, 3, b, s3) \<and> (\<forall>k < unat (3 :: u64). b k = of_nat k)"
    using vfs_write_seek_read [OF ok e(2) _ _ _ _ w, of "\<lparr>stat_type = File, stat_size = 0\<rparr>" "\<lambda>_. 9"]
    by (auto simp: e) (auto simp: example_ram_def)
  moreover have "(2 :: nat) < unat (3 :: u64)" by simp
  ultimately show ?thesis using w by fastforce
qed

end
